(* ===== verification/Prelude.thy ===== *)
theory Prelude
  imports Main "HOL-Library.Word"
begin

text \<open>
  Shared vocabulary of the development: the C integer types as machine words, byte strings,
  big-endian conversion between byte strings and numbers, and the generic list and word lemmas
  that the component theories use.

  A \<open>size_t\<close> is a natural number; the places where the C code relies on the wrap-around of
  \<open>size_t\<close> write the reduction modulo \<open>SIZE_MOD\<close> out (LP64, 64 bits).
\<close>

unbundle bit_operations_syntax

type_synonym u8 = "8 word"
type_synonym u16 = "16 word"
type_synonym u32 = "32 word"
type_synonym u64 = "64 word"
type_synonym bytes = "8 word list"

abbreviation SIZE_MOD :: nat where
  "SIZE_MOD \<equiv> 18446744073709551616"

named_theorems be_simps \<open>big-endian conversion\<close>
named_theorems eval_simps \<open>evaluation of recursion over numerals on concrete input\<close>
named_theorems reader_simps \<open>unfolding of the byte string readers\<close>

section \<open>Big-endian numbers\<close>

text \<open>\<open>be_val bs\<close> is the number a byte string denotes in network byte order, and
  \<open>be_bytes n v\<close> the \<open>n\<close> byte network order encoding of \<open>v\<close> (modulo \<open>256 ^ n\<close>).\<close>

definition be_val :: "bytes \<Rightarrow> nat" where
  "be_val bs = foldl (\<lambda>a b. a * 256 + unat b) 0 bs"

fun be_bytes :: "nat \<Rightarrow> nat \<Rightarrow> bytes" where
  "be_bytes 0 v = []"
| "be_bytes (Suc n) v = be_bytes n (v div 256) @ [word_of_nat v]"

lemma be_bytes_numeral [eval_simps]:
  "be_bytes (numeral k) v = be_bytes (pred_numeral k) (v div 256) @ [word_of_nat v]"
  by (simp only: numeral_eq_Suc [of k] be_bytes.simps)

lemma replicate_numeral [eval_simps]: "replicate (numeral k) x = x # replicate (pred_numeral k) x"
  by (simp only: numeral_eq_Suc [of k] replicate_Suc)

lemma be_val_Nil [simp]: "be_val [] = 0"
  by (simp add: be_val_def)

lemma be_val_snoc [simp]: "be_val (bs @ [b]) = be_val bs * 256 + unat b"
  by (simp add: be_val_def)

lemma unat_u8_less [simp]: "unat (b :: u8) < 256"
  using unsigned_less [of b] by simp

lemma unat_u16_less [simp]: "unat (w :: u16) < 65536"
  using unsigned_less [where 'b = 16 and 'a = nat, of w] by simp

lemma unat_u32_less [simp]: "unat (w :: u32) < 4294967296"
  using unsigned_less [where 'b = 32 and 'a = nat, of w] by simp

lemma unat_u64_less [simp]: "unat (w :: u64) < 18446744073709551616"
  using unsigned_less [where 'b = 64 and 'a = nat, of w] by simp

lemma be_val_append: "be_val (xs @ ys) = be_val xs * 256 ^ length ys + be_val ys"
  by (induction ys rule: rev_induct) (simp_all add: algebra_simps flip: append_assoc)

lemma be_val_Cons: "be_val (b # bs) = unat b * 256 ^ length bs + be_val bs"
  using be_val_append [of "[b]" bs] by (simp add: be_val_def)

lemma be_val_less: "be_val bs < 256 ^ length bs"
proof (induction bs rule: rev_induct)
  case Nil
  then show ?case by simp
next
  case (snoc b bs)
  have "be_val bs * 256 + unat b < (be_val bs + 1) * 256" by simp
  also have "\<dots> \<le> 256 ^ length bs * 256" using snoc by simp
  finally show ?case by (simp add: mult.commute)
qed

lemma length_be_bytes [simp]: "length (be_bytes n v) = n"
  by (induction n arbitrary: v) simp_all

lemma be_val_be_bytes_mod: "be_val (be_bytes n v) = v mod 256 ^ n"
proof (induction n arbitrary: v)
  case 0
  then show ?case by simp
next
  case (Suc n)
  have "unat (word_of_nat v :: u8) = v mod 256" by (simp add: unsigned_of_nat take_bit_eq_mod)
  with Suc show ?case by (simp add: mod_mult2_eq)
qed

lemma be_val_be_bytes [simp]: "v < 256 ^ n \<Longrightarrow> be_val (be_bytes n v) = v"
  by (simp add: be_val_be_bytes_mod)

lemma u8_256 [simp]: "(256 :: u8) = 0"
  by simp

lemma word_of_nat_u8_add [simp]: "(word_of_nat (k * 256 + unat b) :: u8) = b"
  by (simp only: of_nat_add of_nat_mult of_nat_numeral u8_256 mult_zero_right add_0_left
      of_nat_unat ucast_id)

lemma be_bytes_be_val [simp]: "be_bytes (length bs) (be_val bs) = bs"
  by (induction bs rule: rev_induct) (simp_all del: of_nat_add of_nat_mult)

lemma be_bytes_be_val': "length bs = n \<Longrightarrow> be_bytes n (be_val bs) = bs"
  by auto

lemma be_val_inj: "length xs = length ys \<Longrightarrow> be_val xs = be_val ys \<Longrightarrow> xs = ys"
  by (metis be_bytes_be_val)

lemma be_val_eq_0_iff: "be_val bs = 0 \<longleftrightarrow> bs = replicate (length bs) 0"
proof
  assume "be_val bs = 0"
  moreover have z: "be_val (replicate n 0) = 0" for n
    by (induction n) (simp_all add: be_val_Cons)
  ultimately show "bs = replicate (length bs) 0" by (intro be_val_inj) simp_all
next
  assume "bs = replicate (length bs) 0"
  moreover have "be_val (replicate n 0) = 0" for n
    by (induction n) (simp_all add: be_val_Cons)
  ultimately show "be_val bs = 0" by metis
qed

lemma be_val_hd_le: "be_val bs div 256 ^ (length bs - 1) = (if bs = [] then 0 else unat (hd bs))"
proof (cases bs)
  case (Cons b rest)
  have "be_val rest < 256 ^ length rest" by (rule be_val_less)
  then show ?thesis using Cons by (simp add: be_val_Cons)
qed simp

lemma be_bytes_map: "be_bytes n v = map (\<lambda>i. word_of_nat (v div 256 ^ (n - 1 - i))) [0..<n]"
proof (induction n arbitrary: v)
  case 0
  then show ?case by simp
next
  case (Suc n)
  have "v div 256 div 256 ^ (n - 1 - i) = v div 256 ^ (n - i)" if "i < n" for i
    using that by (simp add: div_mult2_eq [symmetric] Suc_diff_Suc flip: power_Suc)
  then show ?case using Suc [of "v div 256"] by simp
qed

text \<open>The C idiom \<open>result <<= 8; result |= data[i];\<close> over a byte string.\<close>

definition shift_in :: "'a::len word \<Rightarrow> u8 \<Rightarrow> 'a word" where
  "shift_in r b = push_bit 8 r OR ucast b"

lemma shift_in_eq: "8 \<le> LENGTH('a) \<Longrightarrow> shift_in (r :: 'a::len word) b = r * 256 + ucast b"
proof -
  assume "8 \<le> LENGTH('a)"
  have "push_bit 8 r AND ucast b = 0"
    by (rule bit_eqI) (auto simp: bit_simps dest: bit_imp_le_length)
  then have "push_bit 8 r OR ucast b = push_bit 8 r + ucast b"
    by (simp add: disjunctive_add_eq_or)
  then show ?thesis by (simp add: shift_in_def push_bit_eq_mult)
qed

lemma foldl_shift_in:
  assumes "8 \<le> LENGTH('a::len)"
  shows "foldl shift_in (word_of_nat k :: 'a word) bs
    = word_of_nat (k * 256 ^ length bs + be_val bs)"
proof (induction bs arbitrary: k)
  case Nil
  then show ?case by simp
next
  case (Cons b bs)
  have "shift_in (word_of_nat k :: 'a word) b = word_of_nat (k * 256 + unat b)"
    using assms by (simp add: shift_in_eq)
  then have "foldl shift_in (word_of_nat k :: 'a word) (b # bs)
    = word_of_nat ((k * 256 + unat b) * 256 ^ length bs + be_val bs)"
    using Cons [of "k * 256 + unat b"] by (simp del: of_nat_add of_nat_mult)
  then show ?case by (simp add: be_val_Cons algebra_simps del: of_nat_add of_nat_mult)
qed

lemma foldl_shift_in_0:
  "8 \<le> LENGTH('a::len) \<Longrightarrow> foldl shift_in (0 :: 'a word) bs = word_of_nat (be_val bs)"
  using foldl_shift_in [where 'a = 'a, of 0 bs] by simp

section \<open>Words\<close>

lemma drop_bit_eq_0_iff_unat: "drop_bit n (w :: 'a::len word) = 0 \<longleftrightarrow> unat w < 2 ^ n"
proof -
  have "drop_bit n w = 0 \<longleftrightarrow> unat (drop_bit n w) = 0"
    by (rule unsigned_eq_0_iff [symmetric])
  also have "unat (drop_bit n w) = unat w div 2 ^ n"
    by (subst unat_drop_bit_eq) (rule drop_bit_eq_div)
  finally show ?thesis by (simp add: div_eq_0_iff)
qed

lemma unat_word_of_nat_u8 [simp]: "v < 256 \<Longrightarrow> unat (word_of_nat v :: u8) = v"
  by (simp add: unsigned_of_nat take_bit_eq_mod)

lemma unat_word_of_nat_u16 [simp]: "v < 65536 \<Longrightarrow> unat (word_of_nat v :: u16) = v"
  by (simp add: unsigned_of_nat take_bit_eq_mod)

lemma unat_word_of_nat_u32 [simp]: "v < 4294967296 \<Longrightarrow> unat (word_of_nat v :: u32) = v"
  by (simp add: unsigned_of_nat take_bit_eq_mod)

lemma unat_word_of_nat_u64 [simp]: "v < 18446744073709551616 \<Longrightarrow> unat (word_of_nat v :: u64) = v"
  by (simp add: unsigned_of_nat take_bit_eq_mod)

lemma unat_ucast_u8_u32 [simp]: "unat (ucast (b :: u8) :: u32) = unat b"
  by (simp add: unsigned_ucast_eq take_bit_nat_eq_self order.strict_trans [OF unat_u8_less])

lemma ucast_u8_u32_inject [simp]: "(ucast (a :: u8) :: u32) = ucast b \<longleftrightarrow> a = b"
  by (metis unat_ucast_u8_u32 word_unat_eq_iff)

lemma ucast_u8_u32_u8 [simp]: "(ucast (ucast (b :: u8) :: u32) :: u8) = b"
  by (rule bit_word_eqI) (simp add: bit_simps)

lemma ucast_drop_bit_u8: "(ucast (drop_bit n (v :: 'a::len word)) :: u8) = word_of_nat (unat v div 2 ^ n)"
proof -
  have "(ucast (drop_bit n v) :: u8) = word_of_nat (unat (drop_bit n v))" by simp
  also have "unat (drop_bit n v) = unat v div 2 ^ n"
    by (subst unat_drop_bit_eq) (rule drop_bit_eq_div)
  finally show ?thesis .
qed

section \<open>Lists\<close>

lemma take_drop_split: "n \<le> length xs \<Longrightarrow> xs = take n xs @ drop n xs"
  by simp

lemma length_le_takeE:
  assumes "n \<le> length xs"
  obtains ys zs where "xs = ys @ zs" and "length ys = n"
  using assms by (metis append_take_drop_id length_take min.absorb2)

section \<open>Memory\<close>

text \<open>\<open>memcpy(buf + off, data, length data)\<close>\<close>

definition mem_write :: "bytes \<Rightarrow> nat \<Rightarrow> bytes \<Rightarrow> bytes" where
  "mem_write buf off data = take off buf @ data @ drop (off + length data) buf"

lemma length_mem_write [simp]: "off + length d \<le> length buf \<Longrightarrow> length (mem_write buf off d) = length buf"
  by (simp add: mem_write_def)

lemma take_mem_write:
  "off + length d = n \<Longrightarrow> n \<le> length buf \<Longrightarrow> take n (mem_write buf off d) = take off buf @ d"
  by (auto simp: mem_write_def min_def)


lemma mem_write_split:
  "length pre = off \<Longrightarrow> length old = length d \<Longrightarrow>
     mem_write (pre @ old @ rest) off d = pre @ d @ rest"
  by (simp add: mem_write_def)

section \<open>Wrap-around\<close>

lemma add_mod_wraps:
  fixes a n M :: nat
  assumes "M \<le> a + n" and "n < M"
  shows "(a + n) mod M < a"
proof (cases "M \<le> a")
  case True
  have "(a + n) mod M < M" using assms(2) by (intro mod_less_divisor) simp
  with True show ?thesis by simp
next
  case False
  then have "(a + n) mod M = a + n - M" using assms by (simp add: le_mod_geq)
  with False assms show ?thesis by linarith
qed

lemma ucast_tag_number: "(t :: u8) AND 0x1f \<noteq> 0x1f \<Longrightarrow> (ucast t :: u32) AND 0x1f \<noteq> 0x1f"
proof
  assume t: "t AND 0x1f \<noteq> 0x1f" and "(ucast t :: u32) AND 0x1f = 0x1f"
  then have "(ucast (t AND 0x1f) :: u32) = ucast (0x1f :: u8)" by (simp add: unsigned_and_eq)
  then show False using t by (simp only: ucast_u8_u32_inject)
qed

end
