(* ===== verification/Bytestring_CBS.thy ===== *)
theory Bytestring_CBS
  imports Prelude
begin

text \<open>
  The byte string reader of \<^verbatim>\<open>ssl/bs_cbs.c\<close>. A \<open>CBS\<close> is a window onto a buffer: the \<open>len\<close>
  bytes that start at its \<open>data\<close> pointer, here the list \<open>cbs_data\<close> (so \<open>len\<close> is its length),
  and the length it was initialised with. A function that takes a \<open>CBS *\<close> and returns 0 or 1
  becomes a function that returns \<open>None\<close> for 0 or \<open>Some\<close> of its out-parameters for 1, together
  with the \<open>CBS\<close> after the call: several readers fail after having consumed a length prefix, and
  the model keeps that state. Out-parameters have no meaning after a failure.
\<close>

record CBS =
  cbs_data :: bytes
  cbs_initial_len :: nat

section \<open>Windows\<close>

definition CBS_init :: "bytes \<Rightarrow> CBS" where
  "CBS_init data = \<lparr>cbs_data = data, cbs_initial_len = length data\<rparr>"

definition CBS_data :: "CBS \<Rightarrow> bytes" where
  "CBS_data cbs = cbs_data cbs"

definition CBS_len :: "CBS \<Rightarrow> nat" where
  "CBS_len cbs = length (cbs_data cbs)"

definition CBS_dup :: "CBS \<Rightarrow> CBS" where
  "CBS_dup cbs = (CBS_init (CBS_data cbs))\<lparr>cbs_initial_len := cbs_initial_len cbs\<rparr>"

definition cbs_get :: "CBS \<Rightarrow> nat \<Rightarrow> bytes option \<times> CBS" where
  "cbs_get cbs n =
     (if CBS_len cbs < n then (None, cbs)
      else (Some (take n (cbs_data cbs)), cbs\<lparr>cbs_data := drop n (cbs_data cbs)\<rparr>))"

definition CBS_offset :: "CBS \<Rightarrow> nat" where
  "CBS_offset cbs = cbs_initial_len cbs - CBS_len cbs"

definition CBS_skip :: "CBS \<Rightarrow> nat \<Rightarrow> unit option \<times> CBS" where
  "CBS_skip cbs len =
     (case cbs_get cbs len of (None, c) \<Rightarrow> (None, c) | (Some dummy, c) \<Rightarrow> (Some (), c))"

text \<open>\<open>grant n\<close> says whether the allocator serves a request for \<open>n\<close> bytes. The result is the new
  content of \<open>*out_ptr\<close>: \<open>None\<close> is the null pointer, of length 0.\<close>

definition CBS_stow :: "(nat \<Rightarrow> bool) \<Rightarrow> CBS \<Rightarrow> bytes option option" where
  "CBS_stow grant cbs =
     (if CBS_len cbs = 0 then Some None
      else if \<not> grant (CBS_len cbs) then None
      else Some (Some (cbs_data cbs)))"

text \<open>\<open>strndup\<close> copies up to the first zero byte and terminates the copy; the result is the C string
  without its terminator.\<close>

definition CBS_strdup :: "(nat \<Rightarrow> bool) \<Rightarrow> CBS \<Rightarrow> bytes option" where
  "CBS_strdup grant cbs =
     (let str = takeWhile (\<lambda>b. b \<noteq> 0) (cbs_data cbs)
      in if grant (length str + 1) then Some str else None)"

text \<open>\<open>dst\<close> is the destination array (of \<open>dst_len\<close> bytes); the result is the array after the copy
  and the number of bytes copied.\<close>

definition CBS_write_bytes :: "CBS \<Rightarrow> bytes \<Rightarrow> (bytes \<times> nat) option" where
  "CBS_write_bytes cbs dst =
     (if length dst < CBS_len cbs then None
      else Some (cbs_data cbs @ drop (CBS_len cbs) dst, CBS_len cbs))"

definition CBS_contains_zero_byte :: "CBS \<Rightarrow> bool" where
  "CBS_contains_zero_byte cbs = list_ex (\<lambda>b. b = 0) (cbs_data cbs)"

definition CBS_mem_equal :: "CBS \<Rightarrow> bytes \<Rightarrow> bool" where
  "CBS_mem_equal cbs data =
     (if length data \<noteq> CBS_len cbs then False else cbs_data cbs = data)"

section \<open>Integers and length-prefixed strings\<close>

definition cbs_get_u :: "CBS \<Rightarrow> nat \<Rightarrow> u32 option \<times> CBS" where
  "cbs_get_u cbs len =
     (if len < 1 \<or> 4 < len then (None, cbs)
      else case cbs_get cbs len of
        (None, c) \<Rightarrow> (None, c)
      | (Some data, c) \<Rightarrow> (Some (foldl shift_in 0 data), c))"

definition CBS_get_u8 :: "CBS \<Rightarrow> u8 option \<times> CBS" where
  "CBS_get_u8 cbs =
     (case cbs_get cbs 1 of (None, c) \<Rightarrow> (None, c) | (Some v, c) \<Rightarrow> (Some (v ! 0), c))"

definition CBS_get_u16 :: "CBS \<Rightarrow> u16 option \<times> CBS" where
  "CBS_get_u16 cbs =
     (case cbs_get_u cbs 2 of (None, c) \<Rightarrow> (None, c) | (Some v, c) \<Rightarrow> (Some (ucast v), c))"

definition CBS_get_u24 :: "CBS \<Rightarrow> u32 option \<times> CBS" where
  "CBS_get_u24 cbs = cbs_get_u cbs 3"

definition CBS_get_u32 :: "CBS \<Rightarrow> u32 option \<times> CBS" where
  "CBS_get_u32 cbs = cbs_get_u cbs 4"

definition CBS_get_bytes :: "CBS \<Rightarrow> nat \<Rightarrow> CBS option \<times> CBS" where
  "CBS_get_bytes cbs len =
     (case cbs_get cbs len of (None, c) \<Rightarrow> (None, c) | (Some v, c) \<Rightarrow> (Some (CBS_init v), c))"

definition cbs_get_length_prefixed :: "CBS \<Rightarrow> nat \<Rightarrow> CBS option \<times> CBS" where
  "cbs_get_length_prefixed cbs len_len =
     (case cbs_get_u cbs len_len of
        (None, c) \<Rightarrow> (None, c)
      | (Some len, c) \<Rightarrow> CBS_get_bytes c (unat len))"

definition CBS_get_u8_length_prefixed :: "CBS \<Rightarrow> CBS option \<times> CBS" where
  "CBS_get_u8_length_prefixed cbs = cbs_get_length_prefixed cbs 1"

definition CBS_get_u16_length_prefixed :: "CBS \<Rightarrow> CBS option \<times> CBS" where
  "CBS_get_u16_length_prefixed cbs = cbs_get_length_prefixed cbs 2"

definition CBS_get_u24_length_prefixed :: "CBS \<Rightarrow> CBS option \<times> CBS" where
  "CBS_get_u24_length_prefixed cbs = cbs_get_length_prefixed cbs 3"

section \<open>ASN.1 elements\<close>

abbreviation (input) CBS_ASN1_CONSTRUCTED :: "'a::len word" where "CBS_ASN1_CONSTRUCTED \<equiv> 0x20"
abbreviation (input) CBS_ASN1_BOOLEAN :: u32 where "CBS_ASN1_BOOLEAN \<equiv> 0x1"
abbreviation (input) CBS_ASN1_INTEGER :: u32 where "CBS_ASN1_INTEGER \<equiv> 0x2"
abbreviation (input) CBS_ASN1_OCTETSTRING :: u32 where "CBS_ASN1_OCTETSTRING \<equiv> 0x4"
abbreviation (input) CBS_ASN1_SEQUENCE :: u32 where "CBS_ASN1_SEQUENCE \<equiv> 0x30"
abbreviation (input) CBS_ASN1_SET :: u32 where "CBS_ASN1_SET \<equiv> 0x31"

text \<open>The common exit of \<open>cbs_get_any_asn1_element_internal\<close>: \<open>CBS_get_bytes(cbs, out, len)\<close>
  with \<open>*out_tag\<close> and \<open>*out_header_len\<close> already stored.\<close>

definition asn1_element_bytes :: "CBS \<Rightarrow> u8 \<Rightarrow> nat \<Rightarrow> nat \<Rightarrow> (CBS \<times> u32 \<times> nat) option \<times> CBS" where
  "asn1_element_bytes cbs tag len header_len =
     (case CBS_get_bytes cbs len of
        (None, c) \<Rightarrow> (None, c)
      | (Some out, c) \<Rightarrow> (Some (out, ucast tag, header_len), c))"

definition cbs_get_any_asn1_element_internal ::
    "CBS \<Rightarrow> bool \<Rightarrow> (CBS \<times> u32 \<times> nat) option \<times> CBS" where
  "cbs_get_any_asn1_element_internal cbs strict =
     (case CBS_get_u8 cbs of
        (None, _) \<Rightarrow> (None, cbs)
      | (Some tag, header) \<Rightarrow>
     (case CBS_get_u8 header of
        (None, _) \<Rightarrow> (None, cbs)
      | (Some length_byte, header) \<Rightarrow>
        if tag AND 0x1f = 0x1f then (None, cbs)
        else if length_byte AND 0x80 = 0 then asn1_element_bytes cbs tag (unat length_byte + 2) 2
        else let num_bytes = unat (length_byte AND 0x7f) in
          if num_bytes = 0x7f then (None, cbs)
          else if num_bytes = 0 then
            (if strict then (None, cbs)
             else if tag AND CBS_ASN1_CONSTRUCTED = 0 then (None, cbs)
             else asn1_element_bytes cbs tag 2 2)
          else if 4 < num_bytes then (None, cbs)
          else (case cbs_get_u header num_bytes of
              (None, _) \<Rightarrow> (None, cbs)
            | (Some len32, _) \<Rightarrow>
                if len32 < 128 then (None, cbs)
                else if drop_bit ((num_bytes - 1) * 8) len32 = 0 then (None, cbs)
                else let len = unat len32 in
                  if (len + 2 + num_bytes) mod SIZE_MOD < len then (None, cbs)
                  else asn1_element_bytes cbs tag (len + 2 + num_bytes) (2 + num_bytes))))"

definition CBS_get_any_asn1_element :: "CBS \<Rightarrow> (CBS \<times> u32 \<times> nat) option \<times> CBS" where
  "CBS_get_any_asn1_element cbs = cbs_get_any_asn1_element_internal cbs True"

definition cbs_get_asn1 :: "CBS \<Rightarrow> u32 \<Rightarrow> bool \<Rightarrow> CBS option \<times> CBS" where
  "cbs_get_asn1 cbs tag_value skip_header =
     (case CBS_get_any_asn1_element cbs of
        (None, c) \<Rightarrow> (None, c)
      | (Some (out, tag, header_len), c) \<Rightarrow>
          if tag \<noteq> tag_value then (None, c)
          else if skip_header then
            (case CBS_skip out header_len of
               (None, out') \<Rightarrow> (None, c)
             | (Some _, out') \<Rightarrow> (Some out', c))
          else (Some out, c))"

definition CBS_get_asn1 :: "CBS \<Rightarrow> u32 \<Rightarrow> CBS option \<times> CBS" where
  "CBS_get_asn1 cbs tag_value = cbs_get_asn1 cbs tag_value True"

definition CBS_get_asn1_element :: "CBS \<Rightarrow> u32 \<Rightarrow> CBS option \<times> CBS" where
  "CBS_get_asn1_element cbs tag_value = cbs_get_asn1 cbs tag_value False"

definition CBS_peek_asn1_tag :: "CBS \<Rightarrow> u32 \<Rightarrow> bool" where
  "CBS_peek_asn1_tag cbs tag_value =
     (if CBS_len cbs < 1 then False
      else if tag_value AND 0x1f = 0x1f then False
      else ucast (CBS_data cbs ! 0) = tag_value)"

fun asn1_uint64_loop :: "u64 \<Rightarrow> bytes \<Rightarrow> u64 option" where
  "asn1_uint64_loop out [] = Some out"
| "asn1_uint64_loop out (b # bs) =
     (if drop_bit 56 out \<noteq> 0 then None else asn1_uint64_loop (shift_in out b) bs)"

definition CBS_get_asn1_uint64 :: "CBS \<Rightarrow> u64 option \<times> CBS" where
  "CBS_get_asn1_uint64 cbs =
     (case CBS_get_asn1 cbs CBS_ASN1_INTEGER of
        (None, c) \<Rightarrow> (None, c)
      | (Some bytes, c) \<Rightarrow>
          let data = CBS_data bytes; len = CBS_len bytes in
          if len = 0 then (None, c)
          else if data ! 0 AND 0x80 \<noteq> 0 then (None, c)
          else if data ! 0 = 0 \<and> 1 < len \<and> data ! 1 AND 0x80 = 0 then (None, c)
          else (asn1_uint64_loop 0 data, c))"

text \<open>The inner option of \<open>CBS_get_optional_asn1\<close> is \<open>*out_present\<close>: \<open>Some None\<close> is success with
  the element absent, and the caller's \<open>out\<close> is then not written.\<close>

definition CBS_get_optional_asn1 :: "CBS \<Rightarrow> u32 \<Rightarrow> CBS option option \<times> CBS" where
  "CBS_get_optional_asn1 cbs tag =
     (if CBS_peek_asn1_tag cbs tag then
        (case CBS_get_asn1 cbs tag of
           (None, c) \<Rightarrow> (None, c)
         | (Some out, c) \<Rightarrow> (Some (Some out), c))
      else (Some None, cbs))"

definition CBS_get_optional_asn1_octet_string :: "CBS \<Rightarrow> u32 \<Rightarrow> (CBS \<times> bool) option \<times> CBS" where
  "CBS_get_optional_asn1_octet_string cbs tag =
     (case CBS_get_optional_asn1 cbs tag of
        (None, c) \<Rightarrow> (None, c)
      | (Some (Some child), c) \<Rightarrow>
          (case CBS_get_asn1 child CBS_ASN1_OCTETSTRING of
             (None, child') \<Rightarrow> (None, c)
           | (Some out, child') \<Rightarrow>
               if CBS_len child' \<noteq> 0 then (None, c) else (Some (out, True), c))
      | (Some None, c) \<Rightarrow> (Some (CBS_init [], False), c))"

definition CBS_get_optional_asn1_uint64 :: "CBS \<Rightarrow> u32 \<Rightarrow> u64 \<Rightarrow> u64 option \<times> CBS" where
  "CBS_get_optional_asn1_uint64 cbs tag default_value =
     (case CBS_get_optional_asn1 cbs tag of
        (None, c) \<Rightarrow> (None, c)
      | (Some (Some child), c) \<Rightarrow>
          (case CBS_get_asn1_uint64 child of
             (None, child') \<Rightarrow> (None, c)
           | (Some out, child') \<Rightarrow> if CBS_len child' \<noteq> 0 then (None, c) else (Some out, c))
      | (Some None, c) \<Rightarrow> (Some default_value, c))"

definition CBS_get_optional_asn1_bool :: "CBS \<Rightarrow> u32 \<Rightarrow> int \<Rightarrow> int option \<times> CBS" where
  "CBS_get_optional_asn1_bool cbs tag default_value =
     (case CBS_get_optional_asn1 cbs tag of
        (None, c) \<Rightarrow> (None, c)
      | (Some (Some child), c) \<Rightarrow>
          (case CBS_get_asn1 child CBS_ASN1_BOOLEAN of
             (None, child') \<Rightarrow> (None, c)
           | (Some child2, child') \<Rightarrow>
               if CBS_len child2 \<noteq> 1 \<or> CBS_len child' \<noteq> 0 then (None, c)
               else let boolean = CBS_data child2 ! 0 in
                 if boolean = 0 then (Some 0, c)
                 else if boolean = 0xff then (Some 1, c)
                 else (None, c))
      | (Some None, c) \<Rightarrow> (Some default_value, c))"

section \<open>Characterisation of the readers\<close>

text \<open>What a successful read returned and left, as a decomposition of the window.\<close>

lemma cbs_data_update_inject [simp]:
  "c\<lparr>cbs_data := a\<rparr> = c\<lparr>cbs_data := b\<rparr> \<longleftrightarrow> a = b"
  by (cases c) simp

lemma cbs_get_Some_iff:
  "cbs_get c n = (Some d, c') \<longleftrightarrow>
     (\<exists>rest. cbs_data c = d @ rest \<and> length d = n \<and> c' = c\<lparr>cbs_data := rest\<rparr>)"
  by (auto simp: cbs_get_def CBS_len_def)

lemma cbs_get_None_iff: "cbs_get c n = (None, c') \<longleftrightarrow> CBS_len c < n \<and> c' = c"
  by (auto simp: cbs_get_def)

lemma cbs_get_append [reader_simps]:
  "cbs_data c = xs @ ys \<Longrightarrow> length xs = n \<Longrightarrow> cbs_get c n = (Some xs, c\<lparr>cbs_data := ys\<rparr>)"
  by (simp add: cbs_get_Some_iff)

lemma unat_be_val_u32:
  assumes "length d \<le> 4"
  shows "unat (word_of_nat (be_val d) :: u32) = be_val d"
proof -
  have "be_val d < 256 ^ length d" by (rule be_val_less)
  also have "\<dots> \<le> 256 ^ 4" by (rule power_increasing [OF assms]) simp
  finally show ?thesis by (simp add: unsigned_of_nat take_bit_eq_mod)
qed

lemma cbs_get_u_Some_iff:
  "cbs_get_u c k = (Some v, c') \<longleftrightarrow>
     1 \<le> k \<and> k \<le> 4 \<and>
     (\<exists>d rest. cbs_data c = d @ rest \<and> length d = k \<and> v = word_of_nat (be_val d)
        \<and> c' = c\<lparr>cbs_data := rest\<rparr>)"
  by (auto simp: cbs_get_u_def foldl_shift_in_0 cbs_get_Some_iff cbs_get_None_iff CBS_len_def
      split: if_splits prod.splits option.splits)

lemma CBS_get_u8_Some_iff:
  "CBS_get_u8 c = (Some v, c') \<longleftrightarrow> (\<exists>rest. cbs_data c = v # rest \<and> c' = c\<lparr>cbs_data := rest\<rparr>)"
  by (cases "cbs_data c") (auto simp: CBS_get_u8_def cbs_get_def CBS_len_def)

lemma CBS_get_u8_Cons [reader_simps]:
  "cbs_data c = v # rest \<Longrightarrow> CBS_get_u8 c = (Some v, c\<lparr>cbs_data := rest\<rparr>)"
  by (simp add: CBS_get_u8_Some_iff)

lemma CBS_get_u8_None [simp]: "cbs_data c = [] \<Longrightarrow> CBS_get_u8 c = (None, c)"
  by (simp add: CBS_get_u8_def cbs_get_def CBS_len_def)

lemma CBS_get_bytes_Some_iff:
  "CBS_get_bytes c n = (Some out, c') \<longleftrightarrow>
     (\<exists>d rest. cbs_data c = d @ rest \<and> length d = n \<and> out = CBS_init d \<and> c' = c\<lparr>cbs_data := rest\<rparr>)"
  by (auto simp: CBS_get_bytes_def cbs_get_def CBS_len_def) (metis append_take_drop_id length_take
      min.absorb2 not_less)

lemma CBS_get_bytes_append [reader_simps]:
  "cbs_data c = d @ rest \<Longrightarrow> length d = n \<Longrightarrow>
     CBS_get_bytes c n = (Some (CBS_init d), c\<lparr>cbs_data := rest\<rparr>)"
  by (simp add: CBS_get_bytes_def reader_simps)

lemma cbs_get_u_be_bytes [reader_simps]:
  assumes "cbs_data c = be_bytes k v @ rest" and "1 \<le> k" and "k \<le> 4" and "v < 256 ^ k"
  shows "cbs_get_u c k = (Some (word_of_nat v), c\<lparr>cbs_data := rest\<rparr>)"
  using assms by (simp add: cbs_get_u_def cbs_get_append foldl_shift_in_0)

lemma cbs_get_length_prefixed_append [reader_simps]:
  assumes "cbs_data c = be_bytes k (length d) @ d @ rest" and "1 \<le> k" and "k \<le> 4"
    and "length d < 256 ^ k"
  shows "cbs_get_length_prefixed c k = (Some (CBS_init d), c\<lparr>cbs_data := rest\<rparr>)"
proof -
  have "(256::nat) ^ k \<le> 256 ^ 4" using assms(3) by (intro power_increasing) simp_all
  then have "length d < 4294967296" using assms(4) by simp
  then show ?thesis
    using assms cbs_get_u_be_bytes [OF assms(1-4)]
    by (simp add: cbs_get_length_prefixed_def reader_simps)
qed

lemma cbs_get_length_prefixed_Some_iff:
  "cbs_get_length_prefixed c k = (Some out, c') \<longleftrightarrow>
     1 \<le> k \<and> k \<le> 4 \<and>
     (\<exists>d rest. cbs_data c = be_bytes k (length d) @ d @ rest \<and> length d < 256 ^ k
        \<and> out = CBS_init d \<and> c' = c\<lparr>cbs_data := rest\<rparr>)"
  (is "?L \<longleftrightarrow> ?R")
proof
  assume ?L
  then obtain v c1 where u: "cbs_get_u c k = (Some v, c1)"
    and b: "CBS_get_bytes c1 (unat v) = (Some out, c')"
    by (auto simp: cbs_get_length_prefixed_def split: prod.splits option.splits)
  from u obtain h rest1 where h: "1 \<le> k" "k \<le> 4" "cbs_data c = h @ rest1" "length h = k"
    "v = word_of_nat (be_val h)" "c1 = c\<lparr>cbs_data := rest1\<rparr>"
    by (auto simp: cbs_get_u_Some_iff)
  from b h obtain d rest where d: "rest1 = d @ rest" "length d = unat v" "out = CBS_init d"
    "c' = c\<lparr>cbs_data := rest\<rparr>"
    by (auto simp: CBS_get_bytes_Some_iff)
  have v: "unat v = be_val h" using h by (simp add: unat_be_val_u32)
  have "be_bytes k (length d) = h" using d v h by (simp add: be_bytes_be_val')
  moreover have "length d < 256 ^ k" using be_val_less [of h] d v h by simp
  ultimately show ?R using h d by auto
next
  assume ?R
  then show ?L by (auto simp: cbs_get_length_prefixed_append)
qed

section \<open>Octets\<close>

lemma even_div_128: "k < 256 \<Longrightarrow> even (k div 128) \<longleftrightarrow> (k::nat) < 128"
  by (cases "k < 128") (simp_all add: div_if [of k 128])

lemma u8_and_80: "(b :: u8) AND 0x80 = 0 \<longleftrightarrow> unat b < 128"
proof -
  have "(b AND 0x80 = 0) \<longleftrightarrow> \<not> bit b 7"
    using and_exp_eq_0_iff_not_bit [of b 7] by simp
  also have "\<dots> \<longleftrightarrow> \<not> bit (unat b) 7"
    by (simp add: bit_unsigned_iff)
  also have "\<dots> \<longleftrightarrow> even (unat b div 128)"
    by (simp add: bit_iff_odd)
  also have "\<dots> \<longleftrightarrow> unat b < 128"
    using unat_u8_less [of b] even_div_128 by blast
  finally show ?thesis .
qed

lemma unat_u8_and_7f: "unat ((b :: u8) AND 0x7f) = unat b mod 128"
proof -
  have "b AND 0x7f = take_bit 7 b"
    by (simp add: take_bit_eq_mask mask_eq_exp_minus_1)
  then show ?thesis by (simp add: take_bit_eq_mod unat_mod_distrib)
qed

section \<open>The reader contract\<close>

text \<open>
  What every reader promises its callers, whether it succeeds or fails: it moves the start of the
  window forward inside the window and touches nothing else. A strict reader also consumes at
  least one byte when it succeeds, which is what makes the \<open>while (CBS_len(&cbs) > 0)\<close> loops
  of its callers terminate.
\<close>

definition advances :: "CBS \<Rightarrow> CBS \<Rightarrow> bool" where
  "advances c c' \<longleftrightarrow>
     (\<exists>consumed. cbs_data c = consumed @ cbs_data c') \<and> cbs_initial_len c' = cbs_initial_len c"

lemma advances_refl [simp, intro!]: "advances c c"
  by (simp add: advances_def)

lemma advances_trans [trans]: "advances a b \<Longrightarrow> advances b c \<Longrightarrow> advances a c"
  by (auto simp: advances_def)

lemma advances_drop [simp]: "advances c (c\<lparr>cbs_data := drop n (cbs_data c)\<rparr>)"
  by (auto simp: advances_def intro: exI [of _ "take n (cbs_data c)"])

locale cbs_reader =
  fixes rd :: "CBS \<Rightarrow> 'a option \<times> CBS"
  assumes rd_advances: "advances c (snd (rd c))"
begin

lemma rd_initial_len: "cbs_initial_len (snd (rd c)) = cbs_initial_len c"
  using rd_advances [of c] by (auto simp: advances_def)

lemma rd_len_le: "CBS_len (snd (rd c)) \<le> CBS_len c"
  using rd_advances [of c] by (auto simp: advances_def CBS_len_def)

lemma rd_offset:
  "CBS_len c \<le> cbs_initial_len c \<Longrightarrow>
     CBS_offset c \<le> CBS_offset (snd (rd c)) \<and> CBS_offset (snd (rd c)) \<le> cbs_initial_len c"
  using rd_len_le [of c] by (simp add: CBS_offset_def rd_initial_len)

lemma rd_suffix: "\<exists>consumed. cbs_data c = consumed @ cbs_data (snd (rd c))"
  using rd_advances [of c] by (auto simp: advances_def)

end

locale cbs_strict_reader = cbs_reader +
  assumes rd_progress: "fst (rd c) = Some x \<Longrightarrow> CBS_len (snd (rd c)) < CBS_len c"
begin

lemma rd_empty: "CBS_len c = 0 \<Longrightarrow> fst (rd c) = None"
  using rd_progress [of c] by (cases "fst (rd c)") auto

end

lemma cbs_get_advances: "advances c (snd (cbs_get c n))"
  by (simp add: cbs_get_def)

lemma CBS_skip_advances: "advances c (snd (CBS_skip c n))"
  using cbs_get_advances [of c n] by (auto simp: CBS_skip_def split: prod.splits option.splits)

lemma cbs_get_u_advances: "advances c (snd (cbs_get_u c n))"
  using cbs_get_advances [of c n] by (auto simp: cbs_get_u_def split: prod.splits option.splits)

lemma CBS_get_bytes_advances: "advances c (snd (CBS_get_bytes c n))"
  using cbs_get_advances [of c n] by (auto simp: CBS_get_bytes_def split: prod.splits option.splits)

lemma cbs_get_length_prefixed_advances: "advances c (snd (cbs_get_length_prefixed c k))"
  using cbs_get_u_advances [of c k]
  by (auto simp: cbs_get_length_prefixed_def split: prod.splits option.splits
      intro: advances_trans [OF _ CBS_get_bytes_advances])

lemma CBS_get_u8_advances: "advances c (snd (CBS_get_u8 c))"
  using cbs_get_advances [of c 1] by (auto simp: CBS_get_u8_def split: prod.splits option.splits)

lemma asn1_element_bytes_advances [simp]: "advances c (snd (asn1_element_bytes c tag len h))"
  using CBS_get_bytes_advances [of c len]
  by (auto simp: asn1_element_bytes_def split: prod.splits option.splits)

lemma cbs_get_any_asn1_element_internal_advances:
  "advances c (snd (cbs_get_any_asn1_element_internal c strict))"
  by (simp add: cbs_get_any_asn1_element_internal_def Let_def split: prod.split option.split)

lemma cbs_get_asn1_advances: "advances c (snd (cbs_get_asn1 c tag skip))"
  using cbs_get_any_asn1_element_internal_advances [of c True]
  by (auto simp: cbs_get_asn1_def CBS_get_any_asn1_element_def
      split: prod.splits option.splits if_splits)

interpretation u8_reader: cbs_strict_reader CBS_get_u8
proof
  show "advances c (snd (CBS_get_u8 c))" for c by (rule CBS_get_u8_advances)
  show "fst (CBS_get_u8 c) = Some x \<Longrightarrow> CBS_len (snd (CBS_get_u8 c)) < CBS_len c" for c x
    by (cases "cbs_data c") (auto simp: reader_simps CBS_len_def)
qed

interpretation u16_reader: cbs_strict_reader CBS_get_u16
proof
  show "advances c (snd (CBS_get_u16 c))" for c
    using cbs_get_u_advances [of c 2] by (auto simp: CBS_get_u16_def split: prod.splits option.splits)
  show "fst (CBS_get_u16 c) = Some x \<Longrightarrow> CBS_len (snd (CBS_get_u16 c)) < CBS_len c" for c x
    by (auto simp: CBS_get_u16_def cbs_get_u_Some_iff CBS_len_def split: prod.splits option.splits)
qed

interpretation length_prefixed_reader: cbs_strict_reader "\<lambda>c. cbs_get_length_prefixed c k" for k
proof
  show "advances c (snd (cbs_get_length_prefixed c k))" for c
    by (rule cbs_get_length_prefixed_advances)
  fix c x assume "fst (cbs_get_length_prefixed c k) = Some x"
  then have "cbs_get_length_prefixed c k = (Some x, snd (cbs_get_length_prefixed c k))"
    by (simp add: prod_eq_iff)
  then obtain d rest where "cbs_data c = be_bytes k (length d) @ d @ rest" "1 \<le> k"
    "snd (cbs_get_length_prefixed c k) = c\<lparr>cbs_data := rest\<rparr>"
    unfolding cbs_get_length_prefixed_Some_iff by blast
  then show "CBS_len (snd (cbs_get_length_prefixed c k)) < CBS_len c" by (simp add: CBS_len_def)
qed

lemma CBS_get_u16_advances: "advances c (snd (CBS_get_u16 c))"
  by (rule u16_reader.rd_advances)

lemma CBS_get_asn1_uint64_advances: "advances c (snd (CBS_get_asn1_uint64 c))"
  using cbs_get_asn1_advances [of c CBS_ASN1_INTEGER True]
  by (auto simp: CBS_get_asn1_uint64_def CBS_get_asn1_def Let_def split: prod.splits option.splits)

lemma CBS_get_optional_asn1_advances: "advances c (snd (CBS_get_optional_asn1 c tag))"
  using cbs_get_asn1_advances [of c tag True]
  by (auto simp: CBS_get_optional_asn1_def CBS_get_asn1_def split: prod.splits option.splits)

lemma CBS_get_optional_values_advance:
  "advances c (snd (CBS_get_optional_asn1_octet_string c tag))"
  "advances c (snd (CBS_get_optional_asn1_uint64 c tag d))"
  "advances c (snd (CBS_get_optional_asn1_bool c tag b))"
  using CBS_get_optional_asn1_advances [of c tag]
  by (auto simp: CBS_get_optional_asn1_octet_string_def CBS_get_optional_asn1_uint64_def
      CBS_get_optional_asn1_bool_def Let_def split: prod.splits option.splits)

section \<open>Properties\<close>


end
