(* ===== verification/Der_Elements.thy ===== *)
theory Der_Elements
  imports Bytestring_CBS
begin

text \<open>
  What the ASN.1 readers of \<^verbatim>\<open>ssl/bs_cbs.c\<close> accept. \<open>der_element tag content\<close> is the definite-length
  DER encoding of X.690 with a one-octet identifier; the characterisation lemmas say that the strict
  reader accepts exactly these encodings, that the relaxed reader accepts in addition the header of a
  constructed element of indefinite length, and that \<open>CBS_get_asn1_uint64\<close> accepts exactly the minimal
  INTEGER encodings of the numbers below \<open>2 ^ 64\<close>.
\<close>

section \<open>DER elements\<close>

definition der_len_octets :: "nat \<Rightarrow> nat" where
  "der_len_octets n = (if n < 2 ^ 8 then 1 else if n < 2 ^ 16 then 2 else if n < 2 ^ 24 then 3 else 4)"

definition der_length :: "nat \<Rightarrow> bytes" where
  "der_length n =
     (if n < 128 then [word_of_nat n]
      else word_of_nat (128 + der_len_octets n) # be_bytes (der_len_octets n) n)"

definition der_element :: "u8 \<Rightarrow> bytes \<Rightarrow> bytes" where
  "der_element tag content = tag # der_length (length content) @ content"

lemma der_len_octets_bounds [simp]:
  "der_len_octets n \<le> 4" "Suc 0 \<le> der_len_octets n" "0 < der_len_octets n"
  by (simp_all add: der_len_octets_def)

lemma der_len_octets_less: "n < 2 ^ 32 \<Longrightarrow> n < 256 ^ der_len_octets n"
  by (simp add: der_len_octets_def)

lemma der_len_octets_minimal: "128 \<le> n \<Longrightarrow> 256 ^ (der_len_octets n - 1) \<le> n"
  by (simp add: der_len_octets_def)

lemma der_len_octets_unique:
  assumes "256 ^ (k - 1) \<le> n" and "n < 256 ^ k" and "1 \<le> k" and "k \<le> 4"
  shows "der_len_octets n = k"
proof -
  from assms(3,4) have "k = 1 \<or> k = 2 \<or> k = 3 \<or> k = 4" by auto
  then show ?thesis using assms(1,2) by (auto simp: der_len_octets_def)
qed

lemma drop_bit_octets_eq_0:
  assumes "n < 4294967296"
  shows "drop_bit (j * 8) (word_of_nat n :: u32) = 0 \<longleftrightarrow> n < 256 ^ j"
proof -
  have "(2::nat) ^ (j * 8) = 256 ^ j"
    by (simp add: power_mult mult.commute [of j])
  then show ?thesis using assms by (simp add: drop_bit_eq_0_iff_unat)
qed

lemma asn1_element_bytes_append [reader_simps]:
  "cbs_data c = d @ rest \<Longrightarrow> length d = n \<Longrightarrow>
     asn1_element_bytes c tag n h = (Some (CBS_init d, ucast tag, h), c\<lparr>cbs_data := rest\<rparr>)"
  by (simp add: asn1_element_bytes_def reader_simps)

lemma asn1_element_bytes_Some_iff:
  "asn1_element_bytes c tag n h = (Some (out, t, h'), c') \<longleftrightarrow>
     (\<exists>d rest. cbs_data c = d @ rest \<and> length d = n \<and> out = CBS_init d \<and> t = ucast tag \<and> h' = h
        \<and> c' = c\<lparr>cbs_data := rest\<rparr>)"
  by (auto simp: asn1_element_bytes_def CBS_get_bytes_Some_iff reader_simps
      split: prod.splits option.splits)

lemma asn1_definite_element:
  assumes "cbs_data c = der_element tag content @ rest"
    and tag: "tag AND 0x1f \<noteq> 0x1f" and len: "length content < 2 ^ 32"
  shows "cbs_get_any_asn1_element_internal c strict =
    (Some (CBS_init (der_element tag content), ucast tag, length (der_length (length content)) + 1),
     c\<lparr>cbs_data := rest\<rparr>)"
proof (cases "length content < 128")
  case True
  then show ?thesis
    using assms by (simp add: cbs_get_any_asn1_element_internal_def der_element_def der_length_def
        CBS_get_u8_Cons u8_and_80 asn1_element_bytes_append [of _ "tag # word_of_nat (length content) # content" rest])
next
  case False
  define n where "n = length content"
  define k where "k = der_len_octets n"
  have n: "n < 4294967296" "128 \<le> n" using len False by (simp_all add: n_def)
  have k: "1 \<le> k" "k \<le> 4" "n < 256 ^ k" "256 ^ (k - 1) \<le> n"
    using n der_len_octets_less [of n] der_len_octets_minimal [of n] by (simp_all add: k_def)
  have d: "cbs_data c = tag # word_of_nat (128 + k) # be_bytes k n @ content @ rest"
    using assms(1) False by (simp add: der_element_def der_length_def n_def k_def)
  have lb: "unat (word_of_nat (128 + k) :: u8) = 128 + k" using k by (simp del: of_nat_add)
  have "\<not> (word_of_nat n :: u32) < 128"
    using n by (simp add: word_less_nat_alt)
  then show ?thesis
    using d n k tag lb False
    by (simp add: cbs_get_any_asn1_element_internal_def CBS_get_u8_Cons u8_and_80 unat_u8_and_7f
        cbs_get_u_be_bytes drop_bit_octets_eq_0 Let_def not_less der_element_def der_length_def
        asn1_element_bytes_append [of _ "tag # word_of_nat (128 + k) # be_bytes k n @ content" rest]
        flip: n_def k_def del: of_nat_add)
qed


text \<open>Inversion of a successful read, one lemma per form of the length octets.\<close>

definition parsed_definite :: "CBS \<Rightarrow> CBS \<Rightarrow> u32 \<Rightarrow> nat \<Rightarrow> CBS \<Rightarrow> bool" where
  "parsed_definite c out t h c' \<longleftrightarrow>
     (\<exists>tag content rest. cbs_data c = der_element tag content @ rest
        \<and> tag AND 0x1f \<noteq> 0x1f \<and> length content < 2 ^ 32
        \<and> out = CBS_init (der_element tag content) \<and> t = ucast tag
        \<and> h = length (der_length (length content)) + 1 \<and> c' = c\<lparr>cbs_data := rest\<rparr>)"

definition parsed_indefinite :: "CBS \<Rightarrow> CBS \<Rightarrow> u32 \<Rightarrow> nat \<Rightarrow> CBS \<Rightarrow> bool" where
  "parsed_indefinite c out t h c' \<longleftrightarrow>
     (\<exists>tag rest. cbs_data c = tag # 0x80 # rest
        \<and> tag AND 0x1f \<noteq> 0x1f \<and> tag AND CBS_ASN1_CONSTRUCTED \<noteq> 0
        \<and> out = CBS_init [tag, 0x80] \<and> t = ucast tag \<and> h = 2 \<and> c' = c\<lparr>cbs_data := rest\<rparr>)"

lemma asn1_element_header:
  assumes "cbs_get_any_asn1_element_internal c strict = (Some (out, t, h), c')"
  obtains tag lb rest0 where "cbs_data c = tag # lb # rest0" and "tag AND 0x1f \<noteq> 0x1f"
proof -
  obtain tag lb rest0 where c: "cbs_data c = tag # lb # rest0"
    using assms by (cases "cbs_data c"; cases "tl (cbs_data c)")
      (auto simp: cbs_get_any_asn1_element_internal_def reader_simps)
  moreover have "tag AND 0x1f \<noteq> 0x1f"
    using assms c by (auto simp: cbs_get_any_asn1_element_internal_def reader_simps)
  ultimately show thesis by (rule that)
qed

lemma asn1_element_short:
  assumes L: "cbs_get_any_asn1_element_internal c strict = (Some (out, t, h), c')"
    and c: "cbs_data c = tag # lb # rest0" and tag: "tag AND 0x1f \<noteq> 0x1f"
    and short: "unat lb < 128"
  shows "parsed_definite c out t h c'"
proof -
  have "asn1_element_bytes c tag (unat lb + 2) 2 = (Some (out, t, h), c')"
    using L c tag short by (simp add: cbs_get_any_asn1_element_internal_def CBS_get_u8_Cons u8_and_80)
  then obtain d rest where "cbs_data c = d @ rest" "length d = unat lb + 2" "out = CBS_init d"
    "t = ucast tag" "h = 2" "c' = c\<lparr>cbs_data := rest\<rparr>"
    by (auto simp: asn1_element_bytes_Some_iff)
  moreover from this obtain content where "d = tag # lb # content"
    using c by (cases d; cases "tl d") auto
  ultimately show ?thesis using short tag unfolding parsed_definite_def
    by (intro exI [of _ tag] exI [of _ content] exI [of _ rest])
      (simp add: der_element_def der_length_def)
qed

lemma asn1_element_indefinite:
  assumes L: "cbs_get_any_asn1_element_internal c strict = (Some (out, t, h), c')"
    and c: "cbs_data c = tag # lb # rest0" and tag: "tag AND 0x1f \<noteq> 0x1f"
    and "unat lb = 128"
  shows "\<not> strict \<and> parsed_indefinite c out t h c'"
proof -
  have lb: "lb = 0x80" using assms(4) by (simp add: word_unat_eq_iff)
  have "\<not> strict \<and> tag AND CBS_ASN1_CONSTRUCTED \<noteq> 0
    \<and> asn1_element_bytes c tag 2 2 = (Some (out, t, h), c')"
    using L c tag lb by (simp add: cbs_get_any_asn1_element_internal_def CBS_get_u8_Cons
        split: if_splits)
  then show ?thesis
    using c lb tag by (auto simp: parsed_indefinite_def asn1_element_bytes_append [of c "[tag, 0x80]"])
qed

lemma asn1_element_long_length:
  assumes L: "cbs_get_any_asn1_element_internal c strict = (Some (out, t, h), c')"
    and c: "cbs_data c = tag # lb # rest0" and tag: "tag AND 0x1f \<noteq> 0x1f"
    and lb: "unat lb = 128 + k" and k: "k \<noteq> 0"
  obtains ds rest1 where "rest0 = ds @ rest1" and "length ds = k"
    and "128 \<le> be_val ds" and "be_val ds < 2 ^ 32" and "der_len_octets (be_val ds) = k"
    and "asn1_element_bytes c tag (be_val ds + 2 + k) (2 + k) = (Some (out, t, h), c')"
proof -
  have "k < 128" using unat_u8_less [of lb] lb by linarith
  then have "k mod 128 = k" by simp
  then obtain len32 c1 where u: "cbs_get_u (c\<lparr>cbs_data := rest0\<rparr>) k = (Some len32, c1)"
    and ge: "128 \<le> len32" and top: "drop_bit ((k - 1) * 8) len32 \<noteq> 0"
    and e: "asn1_element_bytes c tag (unat len32 + 2 + k) (2 + k) = (Some (out, t, h), c')"
    using L c tag lb k
    by (auto simp: cbs_get_any_asn1_element_internal_def CBS_get_u8_Cons u8_and_80 unat_u8_and_7f
        Let_def not_less split: if_splits option.splits prod.splits)
  from u obtain ds rest1 where ds: "1 \<le> k" "k \<le> 4" "rest0 = ds @ rest1" "length ds = k"
    "len32 = word_of_nat (be_val ds)"
    by (auto simp: cbs_get_u_Some_iff)
  have un: "unat len32 = be_val ds" using ds by (simp add: unat_be_val_u32)
  then have n32: "be_val ds < 4294967296" using unat_u32_less [of len32] by metis
  have n1: "128 \<le> be_val ds" using ge un by (simp add: word_le_nat_alt)
  have "256 ^ (k - 1) \<le> be_val ds"
    using top drop_bit_octets_eq_0 [OF n32, of "k - 1"] ds by (simp add: not_less)
  then have "der_len_octets (be_val ds) = k"
    using be_val_less [of ds] ds by (intro der_len_octets_unique) simp_all
  with ds n1 n32 e un show thesis by (intro that) simp_all
qed

lemma asn1_element_long:
  assumes L: "cbs_get_any_asn1_element_internal c strict = (Some (out, t, h), c')"
    and c: "cbs_data c = tag # lb # rest0" and tag: "tag AND 0x1f \<noteq> 0x1f"
    and "128 < unat lb"
  shows "parsed_definite c out t h c'"
proof -
  obtain k where lb: "unat lb = 128 + k" "k \<noteq> 0"
    using assms(4) by (metis less_imp_add_positive not_gr_zero)
  from asn1_element_long_length [OF L c tag lb] obtain ds rest1 where ds: "rest0 = ds @ rest1"
    "length ds = k" "128 \<le> be_val ds" "be_val ds < 2 ^ 32" "der_len_octets (be_val ds) = k"
    and e: "asn1_element_bytes c tag (be_val ds + 2 + k) (2 + k) = (Some (out, t, h), c')" .
  from e obtain d rest where d: "cbs_data c = d @ rest" "length d = be_val ds + 2 + k"
    "out = CBS_init d" "t = ucast tag" "h = 2 + k" "c' = c\<lparr>cbs_data := rest\<rparr>"
    by (auto simp: asn1_element_bytes_Some_iff)
  have "take (2 + k) d = take (2 + k) (cbs_data c)" using d by simp
  also have "\<dots> = tag # lb # ds" using c ds by simp
  finally have "d = tag # lb # ds @ drop (2 + k) d"
    by (metis append_Cons append_take_drop_id)
  then obtain content where content: "d = tag # lb # ds @ content" ..
  have len: "length content = be_val ds" using d content ds by simp
  have "ds = be_bytes k (be_val ds)" using ds by (simp add: be_bytes_be_val')
  moreover have "lb = word_of_nat (128 + k)" using lb by (metis of_nat_unat ucast_id)
  ultimately have "d = der_element tag content"
    using content ds(3,5) len by (simp add: der_element_def der_length_def del: of_nat_add)
  then show ?thesis using d tag ds(3-5) len unfolding parsed_definite_def
    by (intro exI [of _ tag] exI [of _ content] exI [of _ rest]) (simp add: der_length_def)
qed

lemma asn1_indefinite_element:
  assumes "cbs_data c = tag # 0x80 # rest" and "tag AND 0x1f \<noteq> 0x1f"
    and "tag AND CBS_ASN1_CONSTRUCTED \<noteq> 0"
  shows "cbs_get_any_asn1_element_internal c False =
    (Some (CBS_init [tag, 0x80], ucast tag, 2), c\<lparr>cbs_data := rest\<rparr>)"
  using assms by (simp add: cbs_get_any_asn1_element_internal_def reader_simps
      asn1_element_bytes_append [of c "[tag, 0x80]"])

lemma asn1_element_Some_iff:
  "cbs_get_any_asn1_element_internal c strict = (Some (out, t, h), c') \<longleftrightarrow>
     parsed_definite c out t h c' \<or> (\<not> strict \<and> parsed_indefinite c out t h c')"
  (is "?L \<longleftrightarrow> ?D \<or> ?I")
proof
  assume L: ?L
  then obtain tag lb rest0 where c: "cbs_data c = tag # lb # rest0" "tag AND 0x1f \<noteq> 0x1f"
    by (rule asn1_element_header)
  consider "unat lb < 128" | "unat lb = 128" | "128 < unat lb" by linarith
  then show "?D \<or> ?I"
    by cases (use asn1_element_short [OF L c] asn1_element_indefinite [OF L c]
        asn1_element_long [OF L c] in blast)+
next
  assume "?D \<or> ?I"
  then show ?L
    by (auto simp: parsed_definite_def parsed_indefinite_def asn1_definite_element
        asn1_indefinite_element)
qed


interpretation element_reader: cbs_strict_reader
  "\<lambda>c. cbs_get_any_asn1_element_internal c strict" for strict
proof
  show "advances c (snd (cbs_get_any_asn1_element_internal c strict))" for c
    by (rule cbs_get_any_asn1_element_internal_advances)
  fix c x assume "fst (cbs_get_any_asn1_element_internal c strict) = Some x"
  then have "cbs_get_any_asn1_element_internal c strict
      = (Some (fst x, fst (snd x), snd (snd x)), snd (cbs_get_any_asn1_element_internal c strict))"
    by (simp add: prod_eq_iff)
  then show "CBS_len (snd (cbs_get_any_asn1_element_internal c strict)) < CBS_len c"
    unfolding asn1_element_Some_iff parsed_definite_def parsed_indefinite_def
    by (auto simp: CBS_len_def der_element_def)
qed

lemma CBS_init_data [simp]: "cbs_data (CBS_init d) = d"
  by (simp add: CBS_init_def)

lemma CBS_get_asn1_Some_iff:
  "CBS_get_asn1 c t = (Some out, c') \<longleftrightarrow>
     (\<exists>tag content rest. cbs_data c = der_element tag content @ rest
        \<and> t = ucast tag \<and> tag AND 0x1f \<noteq> 0x1f \<and> length content < 2 ^ 32
        \<and> out = (CBS_init (der_element tag content))\<lparr>cbs_data := content\<rparr>
        \<and> c' = c\<lparr>cbs_data := rest\<rparr>)"
  (is "?L \<longleftrightarrow> ?R")
proof
  have skip: "CBS_skip (CBS_init (der_element tag content)) (Suc (length (der_length (length content))))
      = (Some (), (CBS_init (der_element tag content))\<lparr>cbs_data := content\<rparr>)" for tag content
    by (simp add: CBS_skip_def cbs_get_def CBS_len_def der_element_def)
  {
    assume ?L
    then obtain e t' h where e: "CBS_get_any_asn1_element c = (Some (e, t', h), c')" "t' = t"
      "CBS_skip e h = (Some (), out)"
      by (auto simp: CBS_get_asn1_def cbs_get_asn1_def split: prod.splits option.splits if_splits)
    then show ?R
      by (fastforce simp: CBS_get_any_asn1_element_def asn1_element_Some_iff parsed_definite_def skip)
  next
    assume ?R
    then show ?L
      by (auto simp: CBS_get_asn1_def cbs_get_asn1_def CBS_get_any_asn1_element_def
          asn1_definite_element skip)
  }
qed

lemma CBS_get_asn1_tag_Some_iff:
  assumes "tag AND 0x1f \<noteq> 0x1f"
  shows "CBS_get_asn1 c (ucast tag) = (Some out, c') \<longleftrightarrow>
     (\<exists>content rest. cbs_data c = der_element tag content @ rest \<and> length content < 2 ^ 32
        \<and> out = (CBS_init (der_element tag content))\<lparr>cbs_data := content\<rparr>
        \<and> c' = c\<lparr>cbs_data := rest\<rparr>)"
  using assms by (auto simp: CBS_get_asn1_Some_iff)

lemmas CBS_get_asn1_integer_iff = CBS_get_asn1_tag_Some_iff [of 2, simplified]

section \<open>INTEGER values\<close>

text \<open>The minimal DER content octets of a non-negative integer (X.690, section 8.3).\<close>

definition der_uint_content :: "bytes \<Rightarrow> bool" where
  "der_uint_content bs \<longleftrightarrow>
     bs \<noteq> [] \<and> unat (bs ! 0) < 128 \<and> (bs ! 0 = 0 \<and> 1 < length bs \<longrightarrow> 128 \<le> unat (bs ! 1))"

lemma unat_shift_in_u64:
  assumes "unat (w :: u64) < 72057594037927936"
  shows "unat (shift_in w b) = unat w * 256 + unat b"
proof -
  have *: "unat w * 256 + unat b < 18446744073709551616"
    using assms unat_u8_less [of b] by linarith
  have "shift_in w b = word_of_nat (unat w * 256 + unat b)"
    by (simp add: shift_in_eq)
  then show ?thesis using * by (simp del: of_nat_add of_nat_mult)
qed

lemma asn1_uint64_loop_eq:
  "asn1_uint64_loop w bs =
     (if unat w * 256 ^ length bs + be_val bs < 2 ^ 64
      then Some (word_of_nat (unat w * 256 ^ length bs + be_val bs)) else None)"
proof (induction bs arbitrary: w)
  case Nil
  then show ?case by simp
next
  case (Cons b bs)
  show ?case
  proof (cases "unat w < 2 ^ 56")
    case True
    then show ?thesis
      using Cons by (simp add: drop_bit_eq_0_iff_unat unat_shift_in_u64 be_val_Cons algebra_simps
          del: of_nat_add of_nat_mult)
  next
    case False
    have "2 ^ 56 * 256 \<le> unat w * 256 ^ length (b # bs)"
      using False by (intro mult_le_mono) (simp_all add: not_less)
    with False show ?thesis by (simp add: drop_bit_eq_0_iff_unat)
  qed
qed

lemma CBS_get_asn1_uint64_Some_iff:
  "CBS_get_asn1_uint64 c = (Some v, c') \<longleftrightarrow>
     (\<exists>content rest. cbs_data c = der_element 2 content @ rest \<and> length content < 2 ^ 32
        \<and> der_uint_content content \<and> be_val content < 2 ^ 64 \<and> v = word_of_nat (be_val content)
        \<and> c' = c\<lparr>cbs_data := rest\<rparr>)"
  (is "?L \<longleftrightarrow> ?R")
proof
  assume ?L
  then obtain out where g: "CBS_get_asn1 c CBS_ASN1_INTEGER = (Some out, c')"
    and p: "der_uint_content (cbs_data out)" "asn1_uint64_loop 0 (cbs_data out) = Some v"
    by (auto simp: CBS_get_asn1_uint64_def Let_def CBS_data_def CBS_len_def der_uint_content_def
        u8_and_80 not_less split: prod.splits option.splits if_splits)
  then show ?R
    by (auto simp: CBS_get_asn1_integer_iff asn1_uint64_loop_eq split: if_splits)
next
  assume ?R
  then obtain content rest where *: "cbs_data c = der_element 2 content @ rest"
    "length content < 2 ^ 32" "der_uint_content content" "be_val content < 2 ^ 64"
    "v = word_of_nat (be_val content)" "c' = c\<lparr>cbs_data := rest\<rparr>" by blast
  then have "CBS_get_asn1 c CBS_ASN1_INTEGER =
      (Some ((CBS_init (der_element 2 content))\<lparr>cbs_data := content\<rparr>), c')"
    by (auto simp: CBS_get_asn1_integer_iff)
  with * show ?L
    by (auto simp: CBS_get_asn1_uint64_def Let_def CBS_data_def CBS_len_def der_uint_content_def
        u8_and_80 asn1_uint64_loop_eq)
qed

section \<open>Properties\<close>

text \<open>C9. The strict element reader accepts exactly the DER elements: it succeeds on a window if and
  only if the window starts with the DER encoding of some content shorter than \<open>2 ^ 32\<close> bytes under a
  one-octet identifier, and then it returns the whole element, its identifier and its header length
  and leaves the bytes after the element. Non-minimal lengths, indefinite lengths, reserved length
  octets and truncated input are all refused.\<close>

theorem strict_reader_accepts_exactly_der:
  "CBS_get_any_asn1_element c = (Some (out, t, h), c') \<longleftrightarrow>
     (\<exists>tag content rest. cbs_data c = der_element tag content @ rest
        \<and> tag AND 0x1f \<noteq> 0x1f \<and> length content < 2 ^ 32
        \<and> out = CBS_init (der_element tag content) \<and> t = ucast tag
        \<and> h = length (der_element tag content) - length content
        \<and> c' = c\<lparr>cbs_data := rest\<rparr>)"
  unfolding CBS_get_any_asn1_element_def asn1_element_Some_iff parsed_definite_def
  by (auto simp: der_element_def)

text \<open>C32. \<open>CBS_get_asn1_uint64\<close> accepts exactly the DER INTEGER elements whose content is the minimal
  encoding of a non-negative number below \<open>2 ^ 64\<close>, and returns that number; negative numbers,
  superfluous leading zeros and numbers of more than 64 bits are refused.\<close>

theorem asn1_uint64_reader_exact:
  "CBS_get_asn1_uint64 c = (Some v, c') \<longleftrightarrow>
     (\<exists>content rest. cbs_data c = der_element 2 content @ rest \<and> length content < 2 ^ 32
        \<and> content \<noteq> [] \<and> unat (content ! 0) < 128
        \<and> \<not> (content ! 0 = 0 \<and> 1 < length content \<and> unat (content ! 1) < 128)
        \<and> be_val content < 2 ^ 64 \<and> unat v = be_val content \<and> c' = c\<lparr>cbs_data := rest\<rparr>)"
proof -
  have "v = word_of_nat n \<longleftrightarrow> unat v = n" if "n < 2 ^ 64" for n
    using that by (auto simp: word_unat_eq_iff)
  then show ?thesis
    unfolding CBS_get_asn1_uint64_Some_iff der_uint_content_def
    by (intro iff_exI) (auto simp: not_less)
qed

end
