(* ===== verification/Bytestring_CBB.thy ===== *)
theory Bytestring_CBB
  imports Der_Elements
begin

text \<open>
  The byte string builder of \<^verbatim>\<open>ssl/bs_cbb.c\<close>. All \<open>CBB\<close> structs that are linked through their \<open>child\<close>
  pointers share one buffer, so a builder is that buffer (\<open>cbb_base\<close>, \<open>None\<close> when the pointer is null)
  and the list of linked structs, the top-level one first: the child of an entry is the entry after
  it, and the last entry has no child. A \<open>CBB *\<close> argument is the position of the struct in the list,
  its depth; position 0 is the struct with \<open>is_top_level\<close> set. A struct that \<open>CBB_flush\<close> has
  unlinked has a null \<open>base\<close>: its position is past the end of the list and every operation on it
  fails. An operation returns whether it succeeded and the builder after the call, also after a
  failure.

  The buffer is the array \<open>cbb_buf\<close> of \<open>cap\<close> bytes of which the first \<open>cbb_len\<close> are valid;
  \<open>cbb_grant n\<close> says whether the allocator serves a request for \<open>n\<close> bytes.
\<close>

record cbb_buffer =
  cbb_buf :: bytes
  cbb_len :: nat
  cbb_can_resize :: bool
  cbb_grant :: "nat \<Rightarrow> bool"

record cbb_frame =
  fr_offset :: nat
  fr_pending_len_len :: nat
  fr_pending_is_asn1 :: bool

record CBB =
  cbb_base :: "cbb_buffer option"
  cbb_frames :: "cbb_frame list"

abbreviation (input) CBB_INITIAL_SIZE :: nat where "CBB_INITIAL_SIZE \<equiv> 64"

definition cbb_frame0 :: cbb_frame where
  "cbb_frame0 = \<lparr>fr_offset = 0, fr_pending_len_len = 0, fr_pending_is_asn1 = False\<rparr>"

section \<open>Creation and destruction\<close>

text \<open>The null builder is what \<open>memset(cbb, 0, sizeof(*cbb))\<close> leaves; 32 bytes is the size of a
  \<open>struct cbb_buffer_st\<close>.\<close>

definition CBB_null :: CBB where
  "CBB_null = \<lparr>cbb_base = None, cbb_frames = [cbb_frame0]\<rparr>"

definition cbb_init :: "(nat \<Rightarrow> bool) \<Rightarrow> bytes \<Rightarrow> bool \<times> CBB" where
  "cbb_init grant buf =
     (if \<not> grant 32 then (False, CBB_null)
      else (True, CBB_null\<lparr>cbb_base := Some \<lparr>cbb_buf = buf, cbb_len = 0, cbb_can_resize = True,
              cbb_grant = grant\<rparr>\<rparr>))"

definition CBB_init :: "(nat \<Rightarrow> bool) \<Rightarrow> nat \<Rightarrow> bool \<times> CBB" where
  "CBB_init grant initial_capacity =
     (let cap = (if initial_capacity = 0 then CBB_INITIAL_SIZE else initial_capacity)
      in if \<not> grant cap then (False, CBB_null) else cbb_init grant (replicate cap 0))"

definition CBB_init_fixed :: "(nat \<Rightarrow> bool) \<Rightarrow> bytes \<Rightarrow> bool \<times> CBB" where
  "CBB_init_fixed grant buf =
     (case cbb_init grant buf of
        (False, s) \<Rightarrow> (False, s)
      | (True, s) \<Rightarrow> (True, s\<lparr>cbb_base := map_option (cbb_can_resize_update (\<lambda>_. False)) (cbb_base s)\<rparr>))"

definition CBB_cleanup :: "CBB \<Rightarrow> CBB" where
  "CBB_cleanup s = s\<lparr>cbb_base := None, cbb_frames := take 1 (cbb_frames s)\<rparr>"

section \<open>The buffer\<close>

text \<open>The result is the position \<open>*out\<close> of the added space in the buffer.\<close>

definition cbb_buffer_add :: "cbb_buffer \<Rightarrow> nat \<Rightarrow> nat option \<times> cbb_buffer" where
  "cbb_buffer_add b n =
     (let newlen = (cbb_len b + n) mod SIZE_MOD; cap = length (cbb_buf b) in
      if newlen < cbb_len b then (None, b)
      else if cap < newlen then
        (let newcap = cap * 2 mod SIZE_MOD;
             newcap' = (if newcap < cap \<or> newcap < newlen then newlen else newcap) in
         if \<not> cbb_can_resize b then (None, b)
         else if \<not> cbb_grant b newcap' then (None, b)
         else (Some (cbb_len b),
               b\<lparr>cbb_buf := cbb_buf b @ replicate (newcap' - cap) 0, cbb_len := newlen\<rparr>))
      else (Some (cbb_len b), b\<lparr>cbb_len := newlen\<rparr>))"

text \<open>The loop \<open>for (i = n - 1; i < n; i--) { buf[off + i] = v; v >>= 8; }\<close>, which ends by the
  wrap-around of \<open>i\<close>: the array and the value of \<open>v\<close> after it.\<close>

fun write_be :: "bytes \<Rightarrow> nat \<Rightarrow> nat \<Rightarrow> nat \<Rightarrow> bytes \<times> nat" where
  "write_be buf off 0 v = (buf, v)"
| "write_be buf off (Suc i) v = write_be (buf[off + i := word_of_nat v]) off i (v div 256)"

section \<open>Flushing\<close>

text \<open>The part of \<open>CBB_flush\<close> that writes the length prefix of the struct itself, after its child has
  been flushed; \<open>cbb_flush_asn1\<close> is the ASN.1 branch, which replaces the one length octet written
  before by the short or the long form and returns the remaining \<open>len\<close>.\<close>

definition asn1_len_len :: "nat \<Rightarrow> nat" where
  "asn1_len_len len =
     (if 0xffffff < len then 5 else if 0xffff < len then 4 else if 0xff < len then 3
      else if 0x7f < len then 2 else 1)"

definition cbb_flush_asn1 ::
    "cbb_buffer \<Rightarrow> cbb_frame \<Rightarrow> nat \<Rightarrow> nat \<Rightarrow> (cbb_buffer \<times> cbb_frame \<times> nat) option \<times> cbb_buffer" where
  "cbb_flush_asn1 b f child_start len =
     (if fr_pending_len_len f \<noteq> 1 then (None, b)
      else if 0xfffffffe < len then (None, b)
      else let len_len = asn1_len_len len in
        if len_len = 1 then
          (Some (b\<lparr>cbb_buf := (cbb_buf b)[fr_offset f := word_of_nat len]\<rparr>,
             f\<lparr>fr_offset := fr_offset f + 1, fr_pending_len_len := 0\<rparr>, 0), b)
        else
          let extra_bytes = len_len - 1 in
          case cbb_buffer_add b extra_bytes of
            (None, b') \<Rightarrow> (None, b')
          | (Some _, b') \<Rightarrow>
              let moved = mem_write (cbb_buf b') (child_start + extra_bytes)
                            (take len (drop child_start (cbb_buf b')))
              in (Some (b'\<lparr>cbb_buf := moved[fr_offset f := 0x80 OR word_of_nat (len_len - 1)]\<rparr>,
                   f\<lparr>fr_offset := fr_offset f + 1, fr_pending_len_len := len_len - 1\<rparr>, len), b'))"

definition cbb_flush_own ::
    "cbb_buffer \<Rightarrow> cbb_frame \<Rightarrow> cbb_frame list \<Rightarrow> nat \<Rightarrow> bool \<times> cbb_buffer \<times> cbb_frame list" where
  "cbb_flush_own b f fs child_start =
     (let len = cbb_len b - child_start in
      case (if fr_pending_is_asn1 f then cbb_flush_asn1 b f child_start len
            else (Some (b, f, len), b)) of
        (None, b') \<Rightarrow> (False, b', f # fs)
      | (Some (b', f', len'), _) \<Rightarrow>
          (case write_be (cbb_buf b') (fr_offset f') (fr_pending_len_len f') len' of
             (buf', len'') \<Rightarrow>
               if len'' \<noteq> 0 then (False, b'\<lparr>cbb_buf := buf'\<rparr>, f' # fs)
               else (True, b'\<lparr>cbb_buf := buf'\<rparr>, [cbb_frame0])))"

fun cbb_flush :: "cbb_buffer \<Rightarrow> cbb_frame list \<Rightarrow> bool \<times> cbb_buffer \<times> cbb_frame list" where
  "cbb_flush b [] = (False, b, [])"
| "cbb_flush b [f] = (True, b, [f])"
| "cbb_flush b (f # child # fs) =
     (if fr_pending_len_len f = 0 then (True, b, f # child # fs)
      else let child_start = (fr_offset f + fr_pending_len_len f) mod SIZE_MOD in
        case cbb_flush b (child # fs) of
          (False, b', fs') \<Rightarrow> (False, b', f # fs')
        | (True, b', fs') \<Rightarrow>
            if child_start < fr_offset f \<or> cbb_len b' < child_start then (False, b', f # fs')
            else cbb_flush_own b' f fs' child_start)"

definition CBB_flush :: "CBB \<Rightarrow> nat \<Rightarrow> bool \<times> CBB" where
  "CBB_flush s d =
     (case cbb_base s of
        None \<Rightarrow> (False, s)
      | Some b \<Rightarrow>
          (case cbb_flush b (drop d (cbb_frames s)) of
             (ok, b', fs') \<Rightarrow> (ok, \<lparr>cbb_base = Some b', cbb_frames = take d (cbb_frames s) @ fs'\<rparr>)))"

definition CBB_finish :: "CBB \<Rightarrow> nat \<Rightarrow> bool \<Rightarrow> bool \<Rightarrow> (bytes \<times> nat) option \<times> CBB" where
  "CBB_finish s d want_data want_len =
     (if d \<noteq> 0 then (None, s)
      else case CBB_flush s d of
        (False, s') \<Rightarrow> (None, s')
      | (True, s') \<Rightarrow>
          (case cbb_base s' of
             None \<Rightarrow> (None, s')
           | Some b \<Rightarrow>
               if cbb_can_resize b \<and> (\<not> want_data \<or> \<not> want_len) then (None, s')
               else (Some (cbb_buf b, cbb_len b), CBB_cleanup s')))"

definition CBB_discard_child :: "CBB \<Rightarrow> nat \<Rightarrow> CBB" where
  "CBB_discard_child s d =
     (if length (cbb_frames s) \<le> d + 1 then s
      else \<lparr>cbb_base = map_option (cbb_len_update (\<lambda>_. fr_offset (cbb_frames s ! d))) (cbb_base s),
            cbb_frames = take d (cbb_frames s) @ [cbb_frame0]\<rparr>)"

section \<open>Adding content\<close>

text \<open>\<open>CBB_flush(cbb) && cbb_buffer_add(cbb->base, &out, n)\<close>, the start of every operation that adds
  content.\<close>

definition cbb_flush_add :: "CBB \<Rightarrow> nat \<Rightarrow> nat \<Rightarrow> nat option \<times> CBB" where
  "cbb_flush_add s d n =
     (case CBB_flush s d of
        (False, s') \<Rightarrow> (None, s')
      | (True, s') \<Rightarrow>
          (case cbb_base s' of
             None \<Rightarrow> (None, s')
           | Some b \<Rightarrow>
               (case cbb_buffer_add b n of (r, b') \<Rightarrow> (r, s'\<lparr>cbb_base := Some b'\<rparr>))))"

definition cbb_write :: "CBB \<Rightarrow> nat \<Rightarrow> bytes \<Rightarrow> CBB" where
  "cbb_write s off data =
     s\<lparr>cbb_base := map_option (\<lambda>b. b\<lparr>cbb_buf := mem_write (cbb_buf b) off data\<rparr>) (cbb_base s)\<rparr>"

definition cbb_add_u :: "CBB \<Rightarrow> nat \<Rightarrow> u32 \<Rightarrow> nat \<Rightarrow> bool \<times> CBB" where
  "cbb_add_u s d v len_len =
     (if len_len = 0 then (True, s)
      else if 4 < len_len then (False, s)
      else case cbb_flush_add s d len_len of
        (None, s') \<Rightarrow> (False, s')
      | (Some off, s') \<Rightarrow>
          (True, s'\<lparr>cbb_base := map_option
             (\<lambda>b. b\<lparr>cbb_buf := fst (write_be (cbb_buf b) off len_len (unat v))\<rparr>) (cbb_base s')\<rparr>))"

definition CBB_add_u8 :: "CBB \<Rightarrow> nat \<Rightarrow> nat \<Rightarrow> bool \<times> CBB" where
  "CBB_add_u8 s d value =
     (if 0xff < value then (False, s) else cbb_add_u s d (word_of_nat value) 1)"

definition CBB_add_u16 :: "CBB \<Rightarrow> nat \<Rightarrow> nat \<Rightarrow> bool \<times> CBB" where
  "CBB_add_u16 s d value =
     (if 0xffff < value then (False, s) else cbb_add_u s d (word_of_nat value) 2)"

definition CBB_add_u24 :: "CBB \<Rightarrow> nat \<Rightarrow> nat \<Rightarrow> bool \<times> CBB" where
  "CBB_add_u24 s d value =
     (if 0xffffff < value then (False, s) else cbb_add_u s d (word_of_nat value) 3)"

definition CBB_add_u32 :: "CBB \<Rightarrow> nat \<Rightarrow> nat \<Rightarrow> bool \<times> CBB" where
  "CBB_add_u32 s d value =
     (if 0xffffffff < value then (False, s) else cbb_add_u s d (word_of_nat value) 4)"

definition CBB_add_bytes :: "CBB \<Rightarrow> nat \<Rightarrow> bytes \<Rightarrow> bool \<times> CBB" where
  "CBB_add_bytes s d data =
     (case cbb_flush_add s d (length data) of
        (None, s') \<Rightarrow> (False, s')
      | (Some off, s') \<Rightarrow> (True, cbb_write s' off data))"

definition CBB_add_space :: "CBB \<Rightarrow> nat \<Rightarrow> nat \<Rightarrow> nat option \<times> CBB" where
  "CBB_add_space s d len =
     (case cbb_flush_add s d len of
        (None, s') \<Rightarrow> (None, s')
      | (Some off, s') \<Rightarrow> (Some off, cbb_write s' off (replicate len 0)))"

section \<open>Nested content\<close>

definition cbb_set_offset :: "CBB \<Rightarrow> nat \<Rightarrow> CBB" where
  "cbb_set_offset s d =
     (case cbb_base s of
        None \<Rightarrow> s
      | Some b \<Rightarrow> s\<lparr>cbb_frames := (cbb_frames s)[d := (cbb_frames s ! d)\<lparr>fr_offset := cbb_len b\<rparr>]\<rparr>)"

text \<open>Linking the fresh child \<open>out_contents\<close> behind the struct at depth \<open>d\<close>.\<close>

definition cbb_link_child :: "CBB \<Rightarrow> nat \<Rightarrow> nat \<Rightarrow> bool \<Rightarrow> CBB" where
  "cbb_link_child s d len_len is_asn1 =
     s\<lparr>cbb_frames := take d (cbb_frames s)
         @ [(cbb_frames s ! d)\<lparr>fr_pending_len_len := len_len, fr_pending_is_asn1 := is_asn1\<rparr>, cbb_frame0]\<rparr>"

definition cbb_add_length_prefixed :: "CBB \<Rightarrow> nat \<Rightarrow> nat \<Rightarrow> bool \<times> CBB" where
  "cbb_add_length_prefixed s d len_len =
     (case CBB_flush s d of
        (False, s') \<Rightarrow> (False, s')
      | (True, s') \<Rightarrow>
          let s1 = cbb_set_offset s' d in
          (case cbb_base s1 of
             None \<Rightarrow> (False, s1)
           | Some b \<Rightarrow>
               (case cbb_buffer_add b len_len of
                  (None, b') \<Rightarrow> (False, s1\<lparr>cbb_base := Some b'\<rparr>)
                | (Some off, b') \<Rightarrow>
                    (True, cbb_link_child
                       (cbb_write (s1\<lparr>cbb_base := Some b'\<rparr>) off (replicate len_len 0)) d len_len False))))"

definition CBB_add_u8_length_prefixed :: "CBB \<Rightarrow> nat \<Rightarrow> bool \<times> CBB" where
  "CBB_add_u8_length_prefixed s d = cbb_add_length_prefixed s d 1"

definition CBB_add_u16_length_prefixed :: "CBB \<Rightarrow> nat \<Rightarrow> bool \<times> CBB" where
  "CBB_add_u16_length_prefixed s d = cbb_add_length_prefixed s d 2"

definition CBB_add_u24_length_prefixed :: "CBB \<Rightarrow> nat \<Rightarrow> bool \<times> CBB" where
  "CBB_add_u24_length_prefixed s d = cbb_add_length_prefixed s d 3"

definition CBB_add_asn1 :: "CBB \<Rightarrow> nat \<Rightarrow> u32 \<Rightarrow> bool \<times> CBB" where
  "CBB_add_asn1 s d tag =
     (if 0xff < tag then (False, s)
      else if tag AND 0x1f = 0x1f then (False, s)
      else case CBB_flush s d of
        (False, s') \<Rightarrow> (False, s')
      | (True, s') \<Rightarrow>
     (case CBB_add_u8 s' d (unat tag) of
        (False, s'') \<Rightarrow> (False, s'')
      | (True, s'') \<Rightarrow>
     (case CBB_add_u8 (cbb_set_offset s'' d) d 0 of
        (False, s3) \<Rightarrow> (False, s3)
      | (True, s3) \<Rightarrow> (True, cbb_link_child s3 d 1 True))))"

text \<open>The loop of \<open>CBB_add_asn1_uint64\<close> over the octets of the value, most significant first.\<close>

fun asn1_uint64_octets :: "CBB \<Rightarrow> nat \<Rightarrow> bytes \<Rightarrow> bool \<Rightarrow> (bool \<times> bool) \<times> CBB" where
  "asn1_uint64_octets s d [] started = ((True, started), s)"
| "asn1_uint64_octets s d (byte # bs) started =
     (if \<not> started \<and> byte = 0 then asn1_uint64_octets s d bs started
      else
        case (if \<not> started \<and> byte AND 0x80 \<noteq> 0 then CBB_add_u8 s d 0 else (True, s)) of
          (False, s') \<Rightarrow> ((False, started), s')
        | (True, s') \<Rightarrow>
            (case CBB_add_u8 s' d (unat byte) of
               (False, s'') \<Rightarrow> ((False, True), s'')
             | (True, s'') \<Rightarrow> asn1_uint64_octets s'' d bs True))"

definition CBB_add_asn1_uint64 :: "CBB \<Rightarrow> nat \<Rightarrow> u64 \<Rightarrow> bool \<times> CBB" where
  "CBB_add_asn1_uint64 s d value =
     (case CBB_add_asn1 s d CBS_ASN1_INTEGER of
        (False, s') \<Rightarrow> (False, s')
      | (True, s') \<Rightarrow>
          (case asn1_uint64_octets s' (d + 1)
                  (map (\<lambda>i. ucast (drop_bit (8 * (7 - i)) value)) [0..<8]) False of
             ((False, _), s'') \<Rightarrow> (False, s'')
           | ((True, started), s'') \<Rightarrow>
               (case (if \<not> started then CBB_add_u8 s'' (d + 1) 0 else (True, s'')) of
                  (False, s3) \<Rightarrow> (False, s3)
                | (True, s3) \<Rightarrow> CBB_flush s3 d)))"

end
