(* ===== verification/CBB_Flush.thy ===== *)
theory CBB_Flush
  imports Bytestring_CBB
begin

text \<open>
  Correctness of \<open>CBB_flush\<close>. \<open>render\<close> is what a chain of structs with pending lengths stands for: the
  bytes of the buffer with every pending length prefix written over the place reserved for it, and an
  ASN.1 length in its minimal form, moved contents included. The main lemma, \<open>cbb_flush_spec\<close>, is by
  induction over the chain of children.
\<close>


section \<open>Well-formed buffers\<close>

definition buffer_wf :: "cbb_buffer \<Rightarrow> bool" where
  "buffer_wf b \<longleftrightarrow> cbb_len b \<le> length (cbb_buf b) \<and> length (cbb_buf b) < SIZE_MOD"

definition cbb_data :: "cbb_buffer \<Rightarrow> bytes" where
  "cbb_data b = take (cbb_len b) (cbb_buf b)"

text \<open>Two buffers of one builder: same ownership, same allocator.\<close>

definition same_owner :: "cbb_buffer \<Rightarrow> cbb_buffer \<Rightarrow> bool" where
  "same_owner b b' \<longleftrightarrow> cbb_can_resize b' = cbb_can_resize b \<and> cbb_grant b' = cbb_grant b"

definition ample :: "cbb_buffer \<Rightarrow> bool" where
  "ample b \<longleftrightarrow> cbb_can_resize b \<and> (\<forall>n. cbb_grant b n)"

lemma same_owner_refl [simp]: "same_owner b b"
  by (simp add: same_owner_def)

lemma same_owner_trans [trans]: "same_owner a b \<Longrightarrow> same_owner b c \<Longrightarrow> same_owner a c"
  by (simp add: same_owner_def)

lemma ample_same_owner: "same_owner b b' \<Longrightarrow> ample b' \<longleftrightarrow> ample b"
  by (simp add: same_owner_def ample_def)

lemma length_cbb_data [simp]: "buffer_wf b \<Longrightarrow> length (cbb_data b) = cbb_len b"
  by (simp add: buffer_wf_def cbb_data_def)

lemma cbb_buffer_add_None: "cbb_buffer_add b n = (None, b') \<Longrightarrow> b' = b"
  by (auto simp: cbb_buffer_add_def Let_def split: if_splits)

lemma cbb_buffer_add_Some:
  assumes "cbb_buffer_add b n = (Some off, b')" and wf: "buffer_wf b" and n: "n < SIZE_MOD"
  shows "off = cbb_len b" and "cbb_len b' = cbb_len b + n" and "buffer_wf b'"
    and "take (cbb_len b) (cbb_buf b') = cbb_data b" and "same_owner b b'"
    and "cbb_len b + n < SIZE_MOD"
proof -
  have nw: "\<not> (cbb_len b + n) mod SIZE_MOD < cbb_len b"
    using assms(1) by (auto simp: cbb_buffer_add_def Let_def split: if_splits)
  have lt: "cbb_len b + n < SIZE_MOD"
    using nw n add_mod_wraps [of SIZE_MOD "cbb_len b" n] by (metis linorder_not_less)
  then show "cbb_len b + n < SIZE_MOD" .
  show "off = cbb_len b" "cbb_len b' = cbb_len b + n" "buffer_wf b'"
    "take (cbb_len b) (cbb_buf b') = cbb_data b" "same_owner b b'"
    using assms(1,2) lt
    by (auto simp: cbb_buffer_add_def Let_def buffer_wf_def cbb_data_def same_owner_def
        split: if_splits)
qed

lemma cbb_buffer_add_ample:
  assumes "ample b" and "cbb_len b + n < SIZE_MOD"
  shows "\<exists>off b'. cbb_buffer_add b n = (Some off, b')"
  using assms by (simp add: cbb_buffer_add_def Let_def ample_def)

lemma write_be_eq:
  "off + n \<le> length buf \<Longrightarrow>
     write_be buf off n v = (mem_write buf off (be_bytes n v), v div 256 ^ n)"
proof (induction n arbitrary: buf v)
  case 0
  then show ?case by (simp add: mem_write_def)
next
  case (Suc n)
  have "drop (off + n) (buf[off + n := x]) = x # drop (Suc (off + n)) buf" for x
    using Suc.prems by (simp add: drop_update_swap Cons_nth_drop_Suc [symmetric])
  then have "mem_write (buf[off + n := word_of_nat v]) off (be_bytes n (v div 256))
      = mem_write buf off (be_bytes (Suc n) v)"
    by (simp add: mem_write_def)
  then show ?case using Suc by (simp add: div_mult2_eq mult.commute)
qed

lemma list_update_split: "length pre = off \<Longrightarrow> (pre @ x # rest)[off := y] = pre @ y # rest"
  by (simp add: list_update_append)

section \<open>What a flush computes\<close>

text \<open>The valid bytes after the length prefix of one struct has been written, and after a struct with
  all its descendants has been flushed; \<open>None\<close> where a length does not fit its prefix.\<close>

definition render_own :: "cbb_frame \<Rightarrow> bytes \<Rightarrow> bytes option" where
  "render_own f d =
     (let start = fr_offset f + fr_pending_len_len f; pre = take (fr_offset f) d; body = drop start d in
      if length d < start then None
      else if fr_pending_is_asn1 f then
        (if length body \<le> 0xfffffffe then Some (pre @ der_length (length body) @ body) else None)
      else if length body < 256 ^ fr_pending_len_len f
        then Some (pre @ be_bytes (fr_pending_len_len f) (length body) @ body) else None)"

fun render :: "cbb_frame list \<Rightarrow> bytes \<Rightarrow> bytes option" where
  "render [] d = None"
| "render [f] d = Some d"
| "render (f # child # fs) d = Option.bind (render (child # fs) d) (render_own f)"

definition frame_ok :: "cbb_frame \<Rightarrow> bool" where
  "frame_ok f \<longleftrightarrow> 0 < fr_pending_len_len f \<and> fr_pending_len_len f \<le> 3
     \<and> (fr_pending_is_asn1 f \<longrightarrow> fr_pending_len_len f = 1)"

lemma asn1_len_len_der:
  "len \<le> 0xfffffffe \<Longrightarrow> asn1_len_len len = (if len < 128 then 1 else der_len_octets len + 1)"
  by (auto simp: asn1_len_len_def der_len_octets_def)

lemma long_form_octet: "der_len_octets n = k \<Longrightarrow> (0x80 :: u8) OR word_of_nat k = word_of_nat (128 + k)"
  by (auto simp: der_len_octets_def split: if_splits)

lemma buffer_split:
  assumes "buffer_wf b" and "off + pll \<le> cbb_len b"
  obtains pre old body rest where "cbb_buf b = pre @ old @ body @ rest" and "length pre = off"
    and "length old = pll" and "length body = cbb_len b - (off + pll)"
    and "cbb_data b = pre @ old @ body"
proof
  let ?B = "cbb_buf b"
  show "?B = take off ?B @ take pll (drop off ?B) @ take (cbb_len b - (off + pll)) (drop (off + pll) ?B)
      @ drop (cbb_len b) ?B"
    using assms(2) by (metis (no_types, lifting) add.commute append_take_drop_id drop_drop le_add_diff_inverse2)
  show "cbb_data b = take off ?B @ take pll (drop off ?B)
      @ take (cbb_len b - (off + pll)) (drop (off + pll) ?B)"
    using assms(2) unfolding cbb_data_def
    by (metis add.commute append.assoc le_add_diff_inverse take_add)
  have "cbb_len b \<le> length ?B" using assms(1) by (simp add: buffer_wf_def)
  then show "length (take off ?B) = off" "length (take pll (drop off ?B)) = pll"
    "length (take (cbb_len b - (off + pll)) (drop (off + pll) ?B)) = cbb_len b - (off + pll)"
    using assms(2) by simp_all
qed

text \<open>What one flush step promises: on success the buffer holds the rendered bytes and the child is
  unlinked; with ample memory it succeeds exactly when the length fits its prefix; the buffer stays
  well-formed in any case.\<close>

definition flush_spec ::
    "nat \<Rightarrow> cbb_frame \<Rightarrow> bytes option \<Rightarrow> cbb_buffer \<Rightarrow> bool \<times> cbb_buffer \<times> cbb_frame list \<Rightarrow> bool" where
  "flush_spec extra f r b res \<longleftrightarrow>
     (case res of (ok, b', fs') \<Rightarrow>
        (ok \<longrightarrow> r = Some (cbb_data b') \<and> fs' = [f])
        \<and> (ample b \<longrightarrow> cbb_len b + extra < SIZE_MOD \<longrightarrow> (ok \<longleftrightarrow> r \<noteq> None))
        \<and> (ok \<longrightarrow> cbb_len b' \<le> cbb_len b + extra)
        \<and> buffer_wf b' \<and> same_owner b b')"

lemma cbb_flush_own_prefix:
  assumes wf: "buffer_wf b" and cs: "fr_offset f + fr_pending_len_len f \<le> cbb_len b"
    and na: "\<not> fr_pending_is_asn1 f"
  shows "flush_spec 4 cbb_frame0 (render_own f (cbb_data b)) b
    (cbb_flush_own b f fs (fr_offset f + fr_pending_len_len f))"
proof -
  let ?pll = "fr_pending_len_len f" and ?off = "fr_offset f"
  from wf cs obtain pre old body rest where sp: "cbb_buf b = pre @ old @ body @ rest"
    "length pre = ?off" "length old = ?pll" "length body = cbb_len b - (?off + ?pll)"
    "cbb_data b = pre @ old @ body" by (rule buffer_split)
  define b' where "b' = b\<lparr>cbb_buf := pre @ be_bytes ?pll (length body) @ body @ rest\<rparr>"
  have len: "cbb_len b = ?off + ?pll + length body" using sp cs by simp
  have "write_be (cbb_buf b) ?off ?pll (length body)
      = (pre @ be_bytes ?pll (length body) @ body @ rest, length body div 256 ^ ?pll)"
    using sp by (simp add: write_be_eq mem_write_split)
  then have e: "cbb_flush_own b f fs (?off + ?pll) =
      (length body < 256 ^ ?pll, b', if length body < 256 ^ ?pll then [cbb_frame0] else f # fs)"
    using na len by (simp add: cbb_flush_own_def div_eq_0_iff b'_def)
  have r: "render_own f (cbb_data b) = (if length body < 256 ^ ?pll
      then Some (pre @ be_bytes ?pll (length body) @ body) else None)"
    using sp na by (simp add: render_own_def Let_def)
  have "cbb_data b' = pre @ be_bytes ?pll (length body) @ body"
    using sp len by (simp add: cbb_data_def b'_def)
  moreover have "buffer_wf b'" using wf sp unfolding b'_def buffer_wf_def by simp
  ultimately show ?thesis by (simp add: flush_spec_def e r same_owner_def b'_def)
qed

text \<open>The ASN.1 branch: short form in place, long form after moving the contents.\<close>

lemma cbb_flush_own_short:
  assumes sp: "cbb_buf b = pre @ [old] @ body @ rest" "length pre = fr_offset f"
    "cbb_len b = fr_offset f + 1 + length body"
    and asn1: "fr_pending_is_asn1 f" "fr_pending_len_len f = 1" and short: "length body < 128"
  shows "cbb_flush_own b f fs (fr_offset f + 1) =
    (True, b\<lparr>cbb_buf := pre @ [word_of_nat (length body)] @ body @ rest\<rparr>, [cbb_frame0])"
  using assms by (simp add: cbb_flush_own_def cbb_flush_asn1_def asn1_len_len_def list_update_split)

lemma cbb_flush_own_long:
  assumes wf: "buffer_wf b" and sp: "cbb_data b = pre @ [old] @ body" "length pre = fr_offset f"
    and asn1: "fr_pending_is_asn1 f" "fr_pending_len_len f = 1"
    and long: "128 \<le> length body" "length body \<le> 0xfffffffe"
    and k: "k = der_len_octets (length body)"
    and add: "cbb_buffer_add b k = (Some off, b1)"
  shows "\<exists>rest. cbb_flush_own b f fs (fr_offset f + 1) =
    (True, b1\<lparr>cbb_buf := pre @ word_of_nat (128 + k) # be_bytes k (length body) @ body @ rest\<rparr>,
     [cbb_frame0])
    \<and> length (pre @ word_of_nat (128 + k) # be_bytes k (length body) @ body @ rest) = length (cbb_buf b1)"
proof -
  let ?off = "fr_offset f" and ?len = "length body"
  have k4: "k \<le> 4" "0 < k" "?len < 256 ^ k"
    using der_len_octets_less [of ?len] long der_len_octets_bounds [of ?len] by (simp_all add: k)
  note a = cbb_buffer_add_Some [OF add wf]
  have len: "cbb_len b = ?off + 1 + ?len"
    using sp wf by (metis length_append length_cbb_data One_nat_def add.assoc list.size(3,4) add_0)
  have "take (cbb_len b) (cbb_buf b1) = pre @ [old] @ body" using a(4) k4 sp by simp
  then obtain rest where r: "cbb_buf b1 = pre @ old # body @ rest"
    by (metis append_Cons append_assoc append_take_drop_id append_Nil)
  have "length rest \<ge> k" using a(2,3) k4 r len sp by (simp add: buffer_wf_def)
  then obtain r1 r2 where r12: "rest = r1 @ r2" "length r1 = k" by (rule length_le_takeE)
  define Z where "Z = mem_write (cbb_buf b1) (?off + 1 + k) body"
  have dZ: "drop (?off + 1 + k) Z = body @ drop (?off + 1 + k + ?len) (cbb_buf b1)"
    using r sp r12 by (simp add: Z_def mem_write_def)
  have tZ: "take ?off Z = pre" using r sp by (simp add: Z_def mem_write_def)
  have lZ: "length Z = length (cbb_buf b1)" using r sp r12 by (simp add: Z_def)
  define Y where "Y = Z[?off := word_of_nat (128 + k)]"
  have tY: "take (?off + 1) Y = pre @ [word_of_nat (128 + k)]"
    using tZ lZ r sp by (simp add: Y_def take_Suc_conv_app_nth del: of_nat_add)
  have dY: "drop (?off + 1 + k) Y = body @ drop (?off + 1 + k + ?len) (cbb_buf b1)"
    using dZ by (simp add: Y_def del: of_nat_add)
  have lY: "length Y = length (cbb_buf b1)" using lZ by (simp add: Y_def)
  have w: "write_be Y (?off + 1) k ?len =
      (pre @ word_of_nat (128 + k) # be_bytes k ?len @ body @ drop (?off + 1 + k + ?len) (cbb_buf b1), 0)"
    using tY dY lY r sp r12 k4 by (simp add: write_be_eq mem_write_def div_eq_0_iff)
  have "asn1_len_len ?len = k + 1" using long by (simp add: asn1_len_len_der k)
  moreover have "take ?len (drop (?off + 1) (cbb_buf b1)) = body" using r sp by simp
  moreover have "(0x80 :: u8) OR word_of_nat k = word_of_nat (128 + k)"
    using k by (intro long_form_octet) simp
  ultimately have "cbb_flush_own b f fs (?off + 1) =
    (True, b1\<lparr>cbb_buf := pre @ word_of_nat (128 + k) # be_bytes k ?len @ body
        @ drop (?off + 1 + k + ?len) (cbb_buf b1)\<rparr>, [cbb_frame0])"
    using asn1 long k4 len w add
    by (simp add: cbb_flush_own_def cbb_flush_asn1_def Let_def Z_def Y_def del: of_nat_add)
  then show ?thesis using r sp r12 by (intro exI conjI) (assumption, simp)
qed


lemma cbb_flush_own_short_spec:
  assumes "buffer_wf b" and sp: "cbb_buf b = pre @ [old] @ body @ rest" "length pre = fr_offset f"
    "cbb_len b = fr_offset f + 1 + length body"
    and asn1: "fr_pending_is_asn1 f" "fr_pending_len_len f = 1" and short: "length body < 128"
  shows "flush_spec 4 cbb_frame0 (Some (pre @ der_length (length body) @ body)) b
    (cbb_flush_own b f fs (fr_offset f + 1))"
proof -
  define b' where "b' = b\<lparr>cbb_buf := pre @ [word_of_nat (length body)] @ body @ rest\<rparr>"
  have "cbb_data b' = pre @ der_length (length body) @ body"
    using sp short by (simp add: cbb_data_def b'_def der_length_def)
  moreover have "buffer_wf b'" using assms(1) sp unfolding b'_def buffer_wf_def by simp
  ultimately show ?thesis
    using cbb_flush_own_short [OF sp asn1 short, of fs]
    by (simp add: flush_spec_def same_owner_def b'_def)
qed

lemma cbb_flush_own_long_spec:
  assumes wf: "buffer_wf b" and sp: "cbb_data b = pre @ [old] @ body" "length pre = fr_offset f"
    "cbb_len b = fr_offset f + 1 + length body"
    and asn1: "fr_pending_is_asn1 f" "fr_pending_len_len f = 1"
    and long: "128 \<le> length body" "length body \<le> 0xfffffffe"
  shows "flush_spec 4 cbb_frame0 (Some (pre @ der_length (length body) @ body)) b
    (cbb_flush_own b f fs (fr_offset f + 1))"
proof (cases "cbb_buffer_add b (der_len_octets (length body))")
  case (Pair res b1)
  let ?k = "der_len_octets (length body)"
  have k: "?k \<le> 4" "?k < SIZE_MOD" using der_len_octets_bounds(1) [of "length body"] by linarith+
  show ?thesis
  proof (cases res)
    case None
    then have b1: "cbb_buffer_add b ?k = (None, b)" using Pair cbb_buffer_add_None by metis
    then have "cbb_flush_own b f fs (fr_offset f + 1) = (False, b, f # fs)"
      using asn1 sp(3) long by (simp add: cbb_flush_own_def cbb_flush_asn1_def asn1_len_len_der Let_def)
    moreover have "\<not> (ample b \<and> cbb_len b + 4 < SIZE_MOD)"
    proof
      assume "ample b \<and> cbb_len b + 4 < SIZE_MOD"
      then have "ample b" "cbb_len b + ?k < SIZE_MOD" using k(1) by linarith+
      then show False using b1 cbb_buffer_add_ample by fastforce
    qed
    ultimately show ?thesis using wf by (auto simp: flush_spec_def)
  next
    case (Some off)
    note add = Pair [unfolded Some]
    note a = cbb_buffer_add_Some [OF add wf k(2)]
    from cbb_flush_own_long [OF wf sp(1,2) asn1 long refl add, of fs]
    obtain rest' b' where e: "cbb_flush_own b f fs (fr_offset f + 1) = (True, b', [cbb_frame0])"
      "b' = b1\<lparr>cbb_buf := pre @ word_of_nat (128 + ?k) # be_bytes ?k (length body) @ body @ rest'\<rparr>"
      "length (cbb_buf b') = length (cbb_buf b1)" by auto
    have "cbb_data b' = pre @ der_length (length body) @ body"
      using e(2) a(2) sp long(1) by (simp add: cbb_data_def der_length_def del: of_nat_add)
    moreover have "buffer_wf b'" "same_owner b b'" "cbb_len b' \<le> cbb_len b + 4"
      using e(2,3) a(2,3,5) k by (simp_all add: buffer_wf_def same_owner_def)
    ultimately show ?thesis using e(1) by (simp add: flush_spec_def)
  qed
qed

lemma cbb_flush_own_asn1:
  assumes wf: "buffer_wf b" and cs: "fr_offset f + 1 \<le> cbb_len b"
    and asn1: "fr_pending_is_asn1 f" "fr_pending_len_len f = 1"
  shows "flush_spec 4 cbb_frame0 (render_own f (cbb_data b)) b
    (cbb_flush_own b f fs (fr_offset f + 1))"
proof -
  from wf cs obtain pre old body rest where sp: "cbb_buf b = pre @ old @ body @ rest"
    "length pre = fr_offset f" "length old = 1" "length body = cbb_len b - (fr_offset f + 1)"
    "cbb_data b = pre @ old @ body" by (rule buffer_split)
  then obtain o1 where o1: "old = [o1]" by (auto simp: length_Suc_conv)
  have len: "cbb_len b = fr_offset f + 1 + length body" using sp cs by simp
  have r: "render_own f (cbb_data b) = (if length body \<le> 0xfffffffe
      then Some (pre @ der_length (length body) @ body) else None)"
    using sp asn1 by (simp add: render_own_def Let_def)
  consider "0xfffffffe < length body" | "length body < 128"
    | "128 \<le> length body" "length body \<le> 0xfffffffe" by linarith
  then show ?thesis
  proof cases
    case 1
    then have "cbb_flush_own b f fs (fr_offset f + 1) = (False, b, f # fs)"
      using asn1 len by (simp add: cbb_flush_own_def cbb_flush_asn1_def)
    then show ?thesis using 1 r wf by (simp add: flush_spec_def)
  next
    case 2
    then show ?thesis
      using cbb_flush_own_short_spec [OF wf sp(1) [unfolded o1] sp(2) len asn1] r by simp
  next
    case 3
    then show ?thesis
      using cbb_flush_own_long_spec [OF wf sp(5) [unfolded o1] sp(2) len asn1] r by simp
  qed
qed

lemma cbb_flush_own_spec:
  "buffer_wf b \<Longrightarrow> frame_ok f \<Longrightarrow> fr_offset f + fr_pending_len_len f \<le> cbb_len b \<Longrightarrow>
     flush_spec 4 cbb_frame0 (render_own f (cbb_data b)) b
       (cbb_flush_own b f fs (fr_offset f + fr_pending_len_len f))"
  using cbb_flush_own_prefix [of b f fs] cbb_flush_own_asn1 [of b f fs]
  by (cases "fr_pending_is_asn1 f") (simp_all add: frame_ok_def)


fun chain_ok :: "cbb_frame list \<Rightarrow> bool" where
  "chain_ok [] = False"
| "chain_ok [f] = True"
| "chain_ok (f # child # fs) = (frame_ok f \<and> chain_ok (child # fs))"

definition flushed_frame :: "cbb_frame list \<Rightarrow> cbb_frame" where
  "flushed_frame fs = (if length fs = 1 then hd fs else cbb_frame0)"

lemma flush_step_in_range:
  assumes spec: "flush_spec extra g r b (True, b1, fs1)" and f: "frame_ok f"
    and le: "fr_offset f + fr_pending_len_len f \<le> cbb_len b1"
  shows "flush_spec (extra + 4) cbb_frame0 (Option.bind r (render_own f)) b
    (cbb_flush_own b1 f fs1 (fr_offset f + fr_pending_len_len f))"
proof -
  obtain ok b2 fs2 where e: "cbb_flush_own b1 f fs1 (fr_offset f + fr_pending_len_len f) = (ok, b2, fs2)"
    by (cases "cbb_flush_own b1 f fs1 (fr_offset f + fr_pending_len_len f)")
  have b1: "r = Some (cbb_data b1)" "cbb_len b1 \<le> cbb_len b + extra" "buffer_wf b1" "same_owner b b1"
    using spec by (simp_all add: flush_spec_def)
  have "flush_spec 4 cbb_frame0 (render_own f (cbb_data b1)) b1 (ok, b2, fs2)"
    using cbb_flush_own_spec [OF b1(3) f le, of fs1] e by simp
  moreover have "cbb_len b + (extra + 4) < SIZE_MOD \<Longrightarrow> cbb_len b1 + 4 < SIZE_MOD"
    using b1(2) by linarith
  ultimately show ?thesis
    using b1 ample_same_owner [OF b1(4)]
    by (auto simp: flush_spec_def e intro: same_owner_trans)
qed

lemma cbb_flush_spec:
  "chain_ok fs \<Longrightarrow> buffer_wf b \<Longrightarrow>
     flush_spec (4 * (length fs - 1)) (flushed_frame fs) (render fs (cbb_data b)) b (cbb_flush b fs)"
proof (induction b fs rule: cbb_flush.induct)
  case (1 b)
  then show ?case by simp
next
  case (2 b f)
  then show ?case by (simp add: flush_spec_def flushed_frame_def)
next
  case (3 b f child fs)
  let ?stop = "fr_offset f + fr_pending_len_len f" and ?extra = "4 * length fs"
  have f: "frame_ok f" "0 < fr_pending_len_len f" using 3(2) by (simp_all add: frame_ok_def)
  obtain ok b1 fs1 where c: "cbb_flush b (child # fs) = (ok, b1, fs1)"
    by (cases "cbb_flush b (child # fs)")
  have spec: "flush_spec ?extra (flushed_frame (child # fs)) (render (child # fs) (cbb_data b)) b
      (ok, b1, fs1)"
    using 3 f c by simp
  have fr: "flushed_frame (f # child # fs) = cbb_frame0" by (simp add: flushed_frame_def)
  have fail: "flush_spec (?extra + 4) g (Option.bind (render (child # fs) (cbb_data b)) (render_own f)) b
      (False, b1, fs')" if "ok \<Longrightarrow> cbb_len b1 < ?stop" for g fs'
    using spec that by (auto simp: flush_spec_def render_own_def Let_def)
  have e4: "4 * (length (f # child # fs) - 1) = ?extra + 4" by simp
  show ?case
  proof (cases "ok \<and> ?stop \<le> cbb_len b1")
    case True
    then have "?stop < SIZE_MOD" using spec by (simp add: flush_spec_def buffer_wf_def)
    then have "cbb_flush b (f # child # fs) = cbb_flush_own b1 f fs1 ?stop"
      using c True f by (simp add: Let_def)
    then show ?thesis using flush_step_in_range [of ?extra _ _ b b1 fs1 f] spec f True
      by (simp only: fr e4 render.simps)
  next
    case False
    have "?stop mod SIZE_MOD < fr_offset f \<or> ?stop mod SIZE_MOD = ?stop"
      using f add_mod_wraps [of SIZE_MOD "fr_offset f" "fr_pending_len_len f"]
      by (cases "?stop < SIZE_MOD") (simp_all add: frame_ok_def)
    then have "cbb_flush b (f # child # fs) = (False, b1, f # fs1)"
      using c False f by (cases ok) (auto simp: Let_def)
    then show ?thesis using fail [of cbb_frame0 "f # fs1"] False by (simp only: fr e4 render.simps) auto
  qed
qed


section \<open>Builders\<close>

text \<open>The bytes at depth \<open>d\<close>: what the buffer holds once the struct at depth \<open>d\<close> has been flushed.\<close>

definition cbb_wf :: "CBB \<Rightarrow> bool" where
  "cbb_wf s \<longleftrightarrow> (\<exists>b. cbb_base s = Some b \<and> buffer_wf b) \<and> chain_ok (cbb_frames s)"

definition level :: "CBB \<Rightarrow> nat \<Rightarrow> bytes option" where
  "level s d = Option.bind (cbb_base s) (\<lambda>b. render (drop d (cbb_frames s)) (cbb_data b))"

text \<open>The most a builder can still grow by flushing: four length octets for each pending prefix.\<close>

definition potential :: "CBB \<Rightarrow> nat" where
  "potential s = (case cbb_base s of None \<Rightarrow> 0 | Some b \<Rightarrow> cbb_len b + 4 * (length (cbb_frames s) - 1))"

definition cbb_ample :: "CBB \<Rightarrow> bool" where
  "cbb_ample s \<longleftrightarrow> (case cbb_base s of None \<Rightarrow> False | Some b \<Rightarrow> ample b)"

lemma chain_ok_append: "fs \<noteq> [] \<Longrightarrow> chain_ok (pre @ fs) \<longleftrightarrow> list_all frame_ok pre \<and> chain_ok fs"
  by (induction pre rule: chain_ok.induct) (auto simp: neq_Nil_conv)

lemma chain_ok_split:
  "chain_ok fs \<Longrightarrow> d < length fs \<Longrightarrow> list_all frame_ok (take d fs) \<and> chain_ok (drop d fs)"
  using chain_ok_append [of "drop d fs" "take d fs"] by simp

lemma cbb_flush_total: "\<exists>ok b' fs'. cbb_flush b fs = (ok, b', fs')"
  by (cases "cbb_flush b fs") auto

lemma CBB_flush_True:
  assumes "CBB_flush s d = (True, s')" and wf: "cbb_wf s" and d: "d < length (cbb_frames s)"
  obtains b b' g where "cbb_base s = Some b" and "level s d = Some (cbb_data b')"
    and "s' = \<lparr>cbb_base = Some b', cbb_frames = take d (cbb_frames s) @ [g]\<rparr>"
    and "cbb_wf s'" and "same_owner b b'" and "potential s' \<le> potential s"
proof -
  from wf obtain b where b: "cbb_base s = Some b" "buffer_wf b" "chain_ok (cbb_frames s)"
    by (auto simp: cbb_wf_def)
  let ?fs = "drop d (cbb_frames s)"
  obtain ok b' fs' where fl: "cbb_flush b ?fs = (ok, b', fs')" using cbb_flush_total by blast
  have ok: ok and s': "s' = \<lparr>cbb_base = Some b', cbb_frames = take d (cbb_frames s) @ fs'\<rparr>"
    using assms(1) b fl by (auto simp: CBB_flush_def)
  have ch: "list_all frame_ok (take d (cbb_frames s))" "chain_ok ?fs"
    using chain_ok_split [OF b(3) d] by simp_all
  from cbb_flush_spec [OF ch(2) b(2)] fl ok
  have sp: "render ?fs (cbb_data b) = Some (cbb_data b')" "fs' = [flushed_frame ?fs]"
    "cbb_len b' \<le> cbb_len b + 4 * (length ?fs - 1)" "buffer_wf b'" "same_owner b b'"
    by (simp_all add: flush_spec_def)
  have "cbb_wf s'" using s' sp ch by (simp add: cbb_wf_def chain_ok_append)
  moreover have "potential s' \<le> potential s"
    using s' sp(2,3) b(1) d by (simp add: potential_def)
  ultimately show thesis using that [of b b' "flushed_frame ?fs"] b s' sp by (simp add: level_def)
qed

lemma CBB_flush_ample:
  assumes "cbb_wf s" and "d < length (cbb_frames s)" and "level s d \<noteq> None" and "cbb_ample s"
    and "potential s < SIZE_MOD"
  shows "\<exists>s'. CBB_flush s d = (True, s')"
proof -
  from assms(1) obtain b where b: "cbb_base s = Some b" "buffer_wf b" "chain_ok (cbb_frames s)"
    by (auto simp: cbb_wf_def)
  let ?fs = "drop d (cbb_frames s)"
  obtain ok b' fs' where fl: "cbb_flush b ?fs = (ok, b', fs')" using cbb_flush_total by blast
  have "cbb_len b + 4 * (length ?fs - 1) < SIZE_MOD"
    using assms(2,5) b(1) by (simp add: potential_def)
  then have ok using cbb_flush_spec [of ?fs b] chain_ok_split [OF b(3) assms(2)] b assms(3,4) fl
    by (simp add: flush_spec_def level_def cbb_ample_def)
  then show ?thesis using b fl by (simp add: CBB_flush_def)
qed


end
