(* ===== verification/CBB_Build.thy ===== *)
theory CBB_Build
  imports CBB_Flush
begin

text \<open>
  The contracts of the builder's operations, and the refinement of an abstract description of a
  message, a tree of bytes, numbers and length-prefixed parts, by the sequence of builder calls that
  write it.
\<close>

section \<open>Adding content\<close>

text \<open>The common contract of the operations that add content at depth \<open>d\<close>: the bytes at depth \<open>d\<close>
  are extended by \<open>xs\<close>, everything below \<open>d\<close> has been flushed, and the structs above are untouched.\<close>

definition appended :: "CBB \<Rightarrow> nat \<Rightarrow> bytes \<Rightarrow> CBB \<Rightarrow> bool" where
  "appended s d xs s' \<longleftrightarrow>
     (\<exists>p g b'. level s d = Some p \<and> cbb_base s' = Some b' \<and> cbb_data b' = p @ xs
        \<and> cbb_frames s' = take d (cbb_frames s) @ [g])
     \<and> cbb_wf s' \<and> potential s' \<le> potential s + length xs \<and> cbb_ample s' = cbb_ample s"

definition room :: "CBB \<Rightarrow> nat \<Rightarrow> nat \<Rightarrow> bool" where
  "room s d n \<longleftrightarrow> cbb_wf s \<and> d < length (cbb_frames s) \<and> level s d \<noteq> None \<and> cbb_ample s
     \<and> potential s + n < SIZE_MOD"

lemma appended_level:
  "appended s d xs s' \<Longrightarrow> d < length (cbb_frames s) \<Longrightarrow>
     \<exists>p. level s d = Some p \<and> level s' d = Some (p @ xs)"
  by (auto simp: appended_def level_def)

lemma appended_frames:
  "appended s d xs s' \<Longrightarrow> d < length (cbb_frames s) \<Longrightarrow>
     length (cbb_frames s') = d + 1 \<and> take d (cbb_frames s') = take d (cbb_frames s)"
  by (auto simp: appended_def)

lemma cbb_flush_add_Some:
  assumes "cbb_flush_add s d n = (Some off, s')" and "cbb_wf s" and d: "d < length (cbb_frames s)"
    and n: "n < SIZE_MOD"
  obtains p b' g where "level s d = Some p" and "off = length p"
    and "s' = \<lparr>cbb_base = Some b', cbb_frames = take d (cbb_frames s) @ [g]\<rparr>"
    and "cbb_len b' = off + n" and "take off (cbb_buf b') = p" and "cbb_wf s'"
    and "potential s' \<le> potential s + n" and "cbb_ample s' = cbb_ample s"
proof -
  from assms(1) obtain s1 where fl: "CBB_flush s d = (True, s1)"
    by (auto simp: cbb_flush_add_def split: prod.splits bool.splits)
  from CBB_flush_True [OF fl assms(2,3)] obtain b b1 g where b: "cbb_base s = Some b"
    "level s d = Some (cbb_data b1)" "cbb_wf s1" "same_owner b b1" "potential s1 \<le> potential s"
    "s1 = \<lparr>cbb_base = Some b1, cbb_frames = take d (cbb_frames s) @ [g]\<rparr>" by metis
  then have wf1: "buffer_wf b1" by (simp add: cbb_wf_def)
  from assms(1) b fl obtain b' where a: "cbb_buffer_add b1 n = (Some off, b')"
    and s': "s' = s1\<lparr>cbb_base := Some b'\<rparr>"
    by (auto simp: cbb_flush_add_def split: prod.splits)
  note a = cbb_buffer_add_Some [OF a wf1 n]
  show thesis
  proof (rule that)
    show "level s d = Some (cbb_data b1)" by (rule b)
    show "off = length (cbb_data b1)" using a(1) wf1 by simp
    show "s' = \<lparr>cbb_base = Some b', cbb_frames = take d (cbb_frames s) @ [g]\<rparr>"
      by (simp add: s' b)
    show "cbb_len b' = off + n" "take off (cbb_buf b') = cbb_data b1" using a by simp_all
    show "cbb_wf s'" using b(3,6) a(3) by (simp add: s' cbb_wf_def)
    show "potential s' \<le> potential s + n" using b(5,6) a(2) by (simp add: s' potential_def)
    show "cbb_ample s' = cbb_ample s"
      using b(1,4,6) a(5) ample_same_owner by (simp add: s' cbb_ample_def)
  qed
qed

lemma cbb_flush_add_ample:
  assumes "room s d n"
  shows "\<exists>off s'. cbb_flush_add s d n = (Some off, s')"
proof -
  have r: "cbb_wf s" "d < length (cbb_frames s)" "level s d \<noteq> None" "cbb_ample s"
    "potential s + n < SIZE_MOD" using assms by (simp_all add: room_def)
  then obtain s1 where fl: "CBB_flush s d = (True, s1)" using CBB_flush_ample by fastforce
  from CBB_flush_True [OF fl r(1,2)] obtain b b1 g where b: "cbb_base s = Some b"
    "same_owner b b1" "potential s1 \<le> potential s"
    "s1 = \<lparr>cbb_base = Some b1, cbb_frames = take d (cbb_frames s) @ [g]\<rparr>" by metis
  have "ample b1" using r(4) b(1,2) ample_same_owner by (simp add: cbb_ample_def)
  moreover have "cbb_len b1 \<le> potential s1" by (simp add: b(4) potential_def)
  then have "cbb_len b1 + n < SIZE_MOD" using r(5) b(3) by linarith
  ultimately obtain off b' where "cbb_buffer_add b1 n = (Some off, b')"
    using cbb_buffer_add_ample by blast
  then show ?thesis using fl b(4) by (simp add: cbb_flush_add_def)
qed

lemma appended_write:
  assumes "cbb_flush_add s d n = (Some off, s1)" and "cbb_wf s" and "d < length (cbb_frames s)"
    and "n < SIZE_MOD" and "length xs = n"
  shows "appended s d xs (cbb_write s1 off xs)"
proof -
  from cbb_flush_add_Some [OF assms(1-4)] obtain p b' g where *: "level s d = Some p" "off = length p"
    "s1 = \<lparr>cbb_base = Some b', cbb_frames = take d (cbb_frames s) @ [g]\<rparr>"
    "cbb_len b' = off + n" "take off (cbb_buf b') = p" "cbb_wf s1"
    "potential s1 \<le> potential s + n" "cbb_ample s1 = cbb_ample s" .
  have le: "off + length xs \<le> length (cbb_buf b')"
    using *(3,4,6) assms(5) by (simp add: cbb_wf_def buffer_wf_def)
  then have "take (off + n) (mem_write (cbb_buf b') off xs) = p @ xs"
    using *(5) assms(5) by (simp add: take_mem_write)
  then show ?thesis
    using * le assms(5) by (simp add: appended_def cbb_write_def cbb_data_def cbb_wf_def buffer_wf_def
        potential_def cbb_ample_def ample_def)
qed

lemma CBB_add_bytes_appended:
  assumes "CBB_add_bytes s d xs = (True, s')" and "cbb_wf s" and "d < length (cbb_frames s)"
    and "length xs < SIZE_MOD"
  shows "appended s d xs s'"
  using assms appended_write [of s d "length xs" _ _ xs]
  by (auto simp: CBB_add_bytes_def split: prod.splits option.splits)

lemma CBB_add_bytes_room: "room s d (length xs) \<Longrightarrow> \<exists>s'. CBB_add_bytes s d xs = (True, s')"
  using cbb_flush_add_ample [of s d "length xs"] by (auto simp: CBB_add_bytes_def)

lemma cbb_add_u_appended:
  assumes "cbb_add_u s d v k = (True, s')" and "cbb_wf s" and "d < length (cbb_frames s)"
    and "1 \<le> k" and "k \<le> 4"
  shows "appended s d (be_bytes k (unat v)) s'"
proof -
  from assms obtain off s1 where fa: "cbb_flush_add s d k = (Some off, s1)"
    and s': "s' = s1\<lparr>cbb_base := map_option
             (\<lambda>b. b\<lparr>cbb_buf := fst (write_be (cbb_buf b) off k (unat v))\<rparr>) (cbb_base s1)\<rparr>"
    by (auto simp: cbb_add_u_def split: prod.splits option.splits)
  have k: "k < SIZE_MOD" using assms(5) by simp
  from cbb_flush_add_Some [OF fa assms(2,3) k] obtain b' where
    "cbb_base s1 = Some b'" "cbb_len b' = off + k" "cbb_wf s1" by (metis CBB.select_convs(1))
  then have "s' = cbb_write s1 off (be_bytes k (unat v))"
    by (simp add: s' cbb_write_def write_be_eq cbb_wf_def buffer_wf_def)
  then show ?thesis using appended_write [OF fa assms(2,3) k] by simp
qed

lemma cbb_add_u_room: "room s d k \<Longrightarrow> 1 \<le> k \<Longrightarrow> k \<le> 4 \<Longrightarrow> \<exists>s'. cbb_add_u s d v k = (True, s')"
  using cbb_flush_add_ample [of s d k] by (auto simp: cbb_add_u_def)


section \<open>Opening nested content\<close>

text \<open>The contract of the operations that link a child: \<open>hdr\<close> has been appended, and its last \<open>k\<close>
  bytes are the place of the pending length.\<close>

definition opened :: "CBB \<Rightarrow> nat \<Rightarrow> bytes \<Rightarrow> nat \<Rightarrow> bool \<Rightarrow> CBB \<Rightarrow> bool" where
  "opened s d hdr k is_asn1 s' \<longleftrightarrow>
     (\<exists>p f b'. level s d = Some p \<and> cbb_base s' = Some b' \<and> cbb_data b' = p @ hdr
        \<and> cbb_frames s' = take d (cbb_frames s) @ [f, cbb_frame0]
        \<and> fr_offset f = length p + (length hdr - k)
        \<and> fr_pending_len_len f = k \<and> fr_pending_is_asn1 f = is_asn1)
     \<and> cbb_wf s' \<and> potential s' \<le> potential s + length hdr + 4 \<and> cbb_ample s' = cbb_ample s"

lemma chain_ok_link:
  "list_all frame_ok pre \<Longrightarrow> frame_ok f \<Longrightarrow> chain_ok (pre @ [f, g])"
  by (simp add: chain_ok_append)

lemma cbb_add_length_prefixed_opened:
  assumes "cbb_add_length_prefixed s d k = (True, s')" and "cbb_wf s" and d: "d < length (cbb_frames s)"
    and k: "1 \<le> k" "k \<le> 3"
  shows "opened s d (replicate k 0) k False s'"
proof -
  let ?fs = "take d (cbb_frames s)"
  from assms(1) obtain s1 where fl: "CBB_flush s d = (True, s1)"
    by (auto simp: cbb_add_length_prefixed_def split: prod.splits bool.splits)
  from CBB_flush_True [OF fl assms(2,3)] obtain b b1 g where b: "cbb_base s = Some b"
    "level s d = Some (cbb_data b1)" "cbb_wf s1" "same_owner b b1" "potential s1 \<le> potential s"
    "s1 = \<lparr>cbb_base = Some b1, cbb_frames = ?fs @ [g]\<rparr>" by metis
  have wf1: "buffer_wf b1" "list_all frame_ok ?fs" using b(3,6) by (simp_all add: cbb_wf_def chain_ok_append)
  have set: "cbb_set_offset s1 d = \<lparr>cbb_base = Some b1, cbb_frames = ?fs @ [g\<lparr>fr_offset := cbb_len b1\<rparr>]\<rparr>"
    using d by (simp add: cbb_set_offset_def b(6) list_update_append nth_append)
  from assms(1) fl set obtain off b2 where add: "cbb_buffer_add b1 k = (Some off, b2)"
    by (auto simp: cbb_add_length_prefixed_def Let_def split: prod.splits option.splits)
  have "k < SIZE_MOD" using k by linarith
  note a = cbb_buffer_add_Some [OF add wf1(1) this]
  define b' where "b' = b2\<lparr>cbb_buf := mem_write (cbb_buf b2) off (replicate k 0)\<rparr>"
  define f where "f = g\<lparr>fr_offset := cbb_len b1, fr_pending_len_len := k, fr_pending_is_asn1 := False\<rparr>"
  have s': "s' = \<lparr>cbb_base = Some b', cbb_frames = ?fs @ [f, cbb_frame0]\<rparr>"
    using assms(1) fl set add d
    by (simp add: cbb_add_length_prefixed_def Let_def cbb_link_child_def cbb_write_def b'_def f_def nth_append)
  have le: "off + k \<le> length (cbb_buf b2)" using a(1-3) by (simp add: buffer_wf_def)
  then have wf': "buffer_wf b'" using a(3) by (simp add: b'_def buffer_wf_def)
  moreover have "cbb_data b' = cbb_data b1 @ replicate k 0"
    using a(1,2,4) le by (simp add: b'_def cbb_data_def take_mem_write)
  moreover have "frame_ok f" using k by (simp add: f_def frame_ok_def)
  moreover have "potential s' \<le> potential s + k + 4"
    using b(5,6) a(2) d by (simp add: s' potential_def b'_def)
  moreover have "cbb_ample s' = cbb_ample s"
    using b(1,4) a(5) ample_same_owner by (simp add: s' cbb_ample_def b'_def ample_def same_owner_def)
  ultimately show ?thesis using b(2) wf1 s'
    by (auto simp: opened_def cbb_wf_def f_def intro: chain_ok_link)
qed

lemma cbb_add_length_prefixed_room:
  assumes "room s d k"
  shows "\<exists>s'. cbb_add_length_prefixed s d k = (True, s')"
proof -
  from cbb_flush_add_ample [OF assms] obtain off s' where fa: "cbb_flush_add s d k = (Some off, s')" by blast
  then obtain s1 b1 where "CBB_flush s d = (True, s1)" "cbb_base s1 = Some b1"
    "fst (cbb_buffer_add b1 k) = Some off"
    by (auto simp: cbb_flush_add_def split: prod.splits option.splits bool.splits)
  then show ?thesis
    by (cases "cbb_buffer_add b1 k")
      (simp add: cbb_add_length_prefixed_def cbb_set_offset_def Let_def)
qed

lemma CBB_add_u8_appended:
  assumes "CBB_add_u8 s d v = (True, s')" and "cbb_wf s" and "d < length (cbb_frames s)"
  shows "v < 256 \<and> appended s d [word_of_nat v] s'"
proof -
  have v: "v < 256" "cbb_add_u s d (word_of_nat v) 1 = (True, s')"
    using assms(1) by (auto simp: CBB_add_u8_def split: if_splits)
  from cbb_add_u_appended [OF this(2) assms(2,3)] v(1) show ?thesis by simp
qed


lemma CBB_flush_last:
  assumes "length (cbb_frames s) = d + 1" and "cbb_base s = Some b"
  shows "CBB_flush s d = (True, s)"
proof -
  obtain fs g where "cbb_frames s = fs @ [g]" "length fs = d"
    using assms(1) by (cases "cbb_frames s" rule: rev_cases) auto
  then show ?thesis using assms(2) by (cases s) (simp add: CBB_flush_def)
qed

lemma CBB_add_u8_last:
  assumes "CBB_add_u8 s d v = (True, s')" and wf: "cbb_wf s" and last: "length (cbb_frames s) = d + 1"
    and b: "cbb_base s = Some b"
  obtains b' where "s' = s\<lparr>cbb_base := Some b'\<rparr>" and "cbb_data b' = cbb_data b @ [word_of_nat v]"
    and "buffer_wf b'" and "cbb_len b' = cbb_len b + 1" and "ample b' = ample b"
proof -
  have fl: "CBB_flush s d = (True, s)" using last b by (rule CBB_flush_last)
  obtain b' where b': "s' = s\<lparr>cbb_base := Some b'\<rparr>"
    using assms(1) b fl by (auto simp: CBB_add_u8_def cbb_add_u_def cbb_flush_add_def
        split: if_splits prod.splits option.splits)
  have a: "appended s d [word_of_nat v] s'" using CBB_add_u8_appended [OF assms(1) wf] last by simp
  have l: "level s d = Some (cbb_data b)"
    using fl CBB_flush_True [OF fl wf] last b by (metis CBB.select_convs(1) less_add_one option.inject)
  have "cbb_data b' = cbb_data b @ [word_of_nat v]" "buffer_wf b'" "ample b' = ample b"
    using a b b' l by (auto simp: appended_def cbb_wf_def cbb_ample_def)
  moreover have "buffer_wf b" using wf b by (simp add: cbb_wf_def)
  ultimately show thesis using that [OF b'] length_cbb_data [of b'] by simp
qed

lemma CBB_add_asn1_steps:
  assumes "CBB_add_asn1 s d tag = (True, s')"
  obtains s1 s2 s4 where "CBB_flush s d = (True, s1)" and "CBB_add_u8 s1 d (unat tag) = (True, s2)"
    and "CBB_add_u8 (cbb_set_offset s2 d) d 0 = (True, s4)" and "s' = cbb_link_child s4 d 1 True"
    and "unat tag < 256" and "tag AND 0x1f \<noteq> 0x1f"
  using assms by (auto simp: CBB_add_asn1_def word_less_nat_alt split: prod.splits bool.splits if_splits)

lemma CBB_add_asn1_opened:
  assumes "CBB_add_asn1 s d tag = (True, s')" and wf: "cbb_wf s" and d: "d < length (cbb_frames s)"
  shows "opened s d [ucast tag, 0] 1 True s'"
proof -
  let ?fs = "take d (cbb_frames s)"
  from CBB_add_asn1_steps [OF assms(1)] obtain s1 s2 s4 where fl: "CBB_flush s d = (True, s1)"
    and u1: "CBB_add_u8 s1 d (unat tag) = (True, s2)"
    and u2: "CBB_add_u8 (cbb_set_offset s2 d) d 0 = (True, s4)"
    and s': "s' = cbb_link_child s4 d 1 True" .
  from CBB_flush_True [OF fl wf d] obtain b b1 g where b: "cbb_base s = Some b"
    "level s d = Some (cbb_data b1)" "cbb_wf s1" "same_owner b b1" "potential s1 \<le> potential s"
    "s1 = \<lparr>cbb_base = Some b1, cbb_frames = ?fs @ [g]\<rparr>" by metis
  from CBB_add_u8_last [OF u1 b(3)] b(6) d obtain b2 where b2: "s2 = s1\<lparr>cbb_base := Some b2\<rparr>"
    "cbb_data b2 = cbb_data b1 @ [ucast tag]" "buffer_wf b2" "cbb_len b2 = cbb_len b1 + 1"
    "ample b2 = ample b1" by auto
  define g' where "g' = g\<lparr>fr_offset := cbb_len b2\<rparr>"
  have s3: "cbb_set_offset s2 d = \<lparr>cbb_base = Some b2, cbb_frames = ?fs @ [g']\<rparr>"
    using b(6) b2 d by (simp add: cbb_set_offset_def list_update_append nth_append g'_def)
  moreover have "list_all frame_ok ?fs" using b(3,6) by (simp add: cbb_wf_def chain_ok_append)
  ultimately have wf3: "cbb_wf (cbb_set_offset s2 d)" using b2(3) by (simp add: cbb_wf_def chain_ok_append)
  from CBB_add_u8_last [OF u2 wf3] s3 d obtain b4 where b4: "s4 = (cbb_set_offset s2 d)\<lparr>cbb_base := Some b4\<rparr>"
    "cbb_data b4 = cbb_data b2 @ [0]" "buffer_wf b4" "cbb_len b4 = cbb_len b2 + 1"
    "ample b4 = ample b2" by auto
  have fr: "s' = \<lparr>cbb_base = Some b4, cbb_frames = ?fs @ [g'\<lparr>fr_pending_len_len := 1,
      fr_pending_is_asn1 := True\<rparr>, cbb_frame0]\<rparr>"
    using b4 s3 d by (simp add: s' cbb_link_child_def nth_append)
  moreover have "length (cbb_data b1) = cbb_len b1" using b(3,6) by (simp add: cbb_wf_def)
  moreover have "potential s' \<le> potential s + 6"
    using b(5,6) b2(4) b4(4) d by (simp add: fr potential_def)
  moreover have "cbb_ample s' = cbb_ample s"
    using b(1,4) b2(5) b4(5) ample_same_owner by (simp add: fr cbb_ample_def)
  ultimately show ?thesis
    using \<open>list_all frame_ok ?fs\<close> b(2) b2(2,4) b4(2,3)
    by (simp add: opened_def cbb_wf_def chain_ok_append frame_ok_def g'_def)
qed


lemma CBB_add_u8_room: "room s d 1 \<Longrightarrow> v < 256 \<Longrightarrow> \<exists>s'. CBB_add_u8 s d v = (True, s')"
  using cbb_add_u_room [of s d 1 "word_of_nat v"] by (auto simp: CBB_add_u8_def)

lemma CBB_add_asn1_room:
  assumes r: "room s d 6" and "unat tag < 256" and "tag AND 0x1f \<noteq> 0x1f"
  shows "\<exists>s'. CBB_add_asn1 s d tag = (True, s')"
proof -
  have r': "cbb_wf s" "d < length (cbb_frames s)" "level s d \<noteq> None" "cbb_ample s"
    "potential s + 6 < SIZE_MOD" using r by (simp_all add: room_def)
  then obtain s1 where fl: "CBB_flush s d = (True, s1)" using CBB_flush_ample by fastforce
  from CBB_flush_True [OF fl r'(1,2)] obtain b b1 g where b: "cbb_base s = Some b"
    "level s d = Some (cbb_data b1)" "cbb_wf s1" "same_owner b b1" "potential s1 \<le> potential s"
    "s1 = \<lparr>cbb_base = Some b1, cbb_frames = take d (cbb_frames s) @ [g]\<rparr>" by metis
  have "ample b1" using b(1,4) r'(4) ample_same_owner by (simp add: cbb_ample_def)
  then have "room s1 d 1" using b(3,5,6) r'(2,5) by (simp add: room_def level_def cbb_ample_def)
  then obtain s2 where u1: "CBB_add_u8 s1 d (unat tag) = (True, s2)"
    using CBB_add_u8_room assms(2) by blast
  from CBB_add_u8_last [OF u1 b(3)] b(6) r'(2) obtain b2 where b2: "s2 = s1\<lparr>cbb_base := Some b2\<rparr>"
    "buffer_wf b2" "cbb_len b2 = cbb_len b1 + 1" "ample b2 = ample b1" by auto
  have "cbb_set_offset s2 d = \<lparr>cbb_base = Some b2, cbb_frames = take d (cbb_frames s)
      @ [g\<lparr>fr_offset := cbb_len b2\<rparr>]\<rparr>"
    using b(6) b2 r'(2) by (simp add: cbb_set_offset_def list_update_append nth_append)
  then have "room (cbb_set_offset s2 d) d 1"
    using b(3,5,6) b2 r'(2,5) \<open>ample b1\<close>
    by (simp add: room_def level_def cbb_ample_def cbb_wf_def chain_ok_append potential_def)
  then obtain s4 where "CBB_add_u8 (cbb_set_offset s2 d) d 0 = (True, s4)"
    using CBB_add_u8_room by (metis zero_less_numeral)
  then show ?thesis using fl u1 assms(2,3) by (simp add: CBB_add_asn1_def word_less_nat_alt)
qed

section \<open>The appender interface\<close>

text \<open>The contract the operations that add a fixed byte string share, and what their callers derive
  from it. Every such operation of the builder is an instance.\<close>

locale cbb_appender =
  fixes op :: "CBB \<Rightarrow> nat \<Rightarrow> bool \<times> CBB"
    and out :: bytes
  assumes op_appended: "op s d = (True, s') \<Longrightarrow> cbb_wf s \<Longrightarrow> d < length (cbb_frames s) \<Longrightarrow>
      length out < SIZE_MOD \<Longrightarrow> appended s d out s'"
    and op_room: "room s d (length out) \<Longrightarrow> \<exists>s'. op s d = (True, s')"
begin

lemma op_level:
  assumes "op s d = (True, s')" and "cbb_wf s" and "d < length (cbb_frames s)" and "length out < SIZE_MOD"
  shows "\<exists>p. level s d = Some p \<and> level s' d = Some (p @ out)"
  using appended_level op_appended assms by blast

lemma op_total:
  assumes r: "room s d (length out + n)" and out: "length out < SIZE_MOD"
  shows "\<exists>s'. op s d = (True, s') \<and> room s' d n"
proof -
  have "room s d (length out)" using r by (auto simp: room_def)
  then obtain s' where s': "op s d = (True, s')" using op_room by blast
  have d: "d < length (cbb_frames s)" "cbb_wf s" using r by (simp_all add: room_def)
  have a: "appended s d out s'" by (rule op_appended [OF s' d(2,1) out])
  have "room s' d n"
    using r a appended_level [OF a d(1)] appended_frames [OF a d(1)]
    by (auto simp: room_def appended_def)
  with s' show ?thesis by blast
qed

end

interpretation bytes_appender: cbb_appender "\<lambda>s d. CBB_add_bytes s d xs" xs for xs
  by unfold_locales (auto intro: CBB_add_bytes_appended CBB_add_bytes_room)

interpretation u8_appender: cbb_appender "\<lambda>s d. CBB_add_u8 s d (unat v)" "[v]" for v :: u8
proof
  show "CBB_add_u8 s d (unat v) = (True, s') \<Longrightarrow> cbb_wf s \<Longrightarrow> d < length (cbb_frames s) \<Longrightarrow>
      appended s d [v] s'" for s d s'
    using CBB_add_u8_appended [of s d "unat v" s'] by simp
  show "room s d (length [v]) \<Longrightarrow> \<exists>s'. CBB_add_u8 s d (unat v) = (True, s')" for s d
    using CBB_add_u8_room [of s d "unat v"] by simp
qed

interpretation u16_appender: cbb_appender "\<lambda>s d. CBB_add_u16 s d (unat v)" "be_bytes 2 (unat v)"
  for v :: u16
proof
  have v: "\<not> 65535 < unat v" "unat (word_of_nat (unat v) :: u32) = unat v"
    using unat_u16_less [of v] by (simp_all del: of_nat_unat unat_u16_less)
  show "CBB_add_u16 s d (unat v) = (True, s') \<Longrightarrow> cbb_wf s \<Longrightarrow> d < length (cbb_frames s) \<Longrightarrow>
      appended s d (be_bytes 2 (unat v)) s'" for s d s'
    using cbb_add_u_appended [of s d "word_of_nat (unat v)" 2 s'] v by (simp add: CBB_add_u16_def del: of_nat_unat)
  show "room s d (length (be_bytes 2 (unat v))) \<Longrightarrow> \<exists>s'. CBB_add_u16 s d (unat v) = (True, s')" for s d
    using cbb_add_u_room [of s d 2 "word_of_nat (unat v)"] v by (simp add: CBB_add_u16_def del: of_nat_unat)
qed

interpretation u32_appender: cbb_appender "\<lambda>s d. CBB_add_u32 s d (unat v)" "be_bytes 4 (unat v)"
  for v :: u32
proof
  have v: "\<not> 4294967295 < unat v" "unat (word_of_nat (unat v) :: u32) = unat v"
    using unat_u32_less [of v] by (simp_all del: of_nat_unat unat_u32_less)
  show "CBB_add_u32 s d (unat v) = (True, s') \<Longrightarrow> cbb_wf s \<Longrightarrow> d < length (cbb_frames s) \<Longrightarrow>
      appended s d (be_bytes 4 (unat v)) s'" for s d s'
    using cbb_add_u_appended [of s d "word_of_nat (unat v)" 4 s'] v by (simp add: CBB_add_u32_def del: of_nat_unat)
  show "room s d (length (be_bytes 4 (unat v))) \<Longrightarrow> \<exists>s'. CBB_add_u32 s d (unat v) = (True, s')" for s d
    using cbb_add_u_room [of s d 4 "word_of_nat (unat v)"] v by (simp add: CBB_add_u32_def del: of_nat_unat)
qed

end
