(* ===== verification/CBB_Messages.thy ===== *)
theory CBB_Messages
  imports CBB_Build
begin

text \<open>
  The refinement of abstract messages by builder calls, and the round trips between the builder
  (\<^verbatim>\<open>ssl/bs_cbb.c\<close>) and the reader (\<^verbatim>\<open>ssl/bs_cbs.c\<close>). \<open>items_cost\<close> bounds the bytes the buffer needs for
  a message: its content, and four octets for each nested part, the most a length can grow when its
  part is flushed.
\<close>

section \<open>Closing nested content\<close>

lemma level_Suc:
  assumes "d + 1 < length (cbb_frames s)"
  shows "level s d = Option.bind (level s (d + 1)) (render_own (cbb_frames s ! d))"
proof -
  obtain g gs where g: "drop (d + 1) (cbb_frames s) = g # gs"
    using assms by (metis Cons_nth_drop_Suc)
  have "drop d (cbb_frames s) = cbb_frames s ! d # g # gs"
    using assms g by (metis Cons_nth_drop_Suc Suc_eq_plus1 add_lessD1)
  then show ?thesis using g by (cases "cbb_base s") (simp_all add: level_def)
qed

lemma opened_close:
  assumes op: "opened s d hdr k is_asn1 s1" and d: "d < length (cbb_frames s)"
    and p: "level s d = Some p" and k: "k \<le> length hdr"
    and s2: "d + 1 < length (cbb_frames s2)" "take (d + 1) (cbb_frames s2) = take (d + 1) (cbb_frames s1)"
    and e: "level s2 (d + 1) = Some (p @ hdr @ e)"
  shows "level s2 d =
    (if is_asn1 then
       (if length e \<le> 0xfffffffe
        then Some (p @ take (length hdr - k) hdr @ der_length (length e) @ e) else None)
     else if length e < 256 ^ k
       then Some (p @ take (length hdr - k) hdr @ be_bytes k (length e) @ e) else None)"
proof -
  from op p obtain f where f: "cbb_frames s1 = take d (cbb_frames s) @ [f, cbb_frame0]"
    "fr_offset f = length p + (length hdr - k)" "fr_pending_len_len f = k" "fr_pending_is_asn1 f = is_asn1"
    by (auto simp: opened_def)
  have "cbb_frames s2 ! d = take (d + 1) (cbb_frames s2) ! d" by simp
  also have "\<dots> = f" using d unfolding s2(2) f(1) by (simp add: nth_append)
  finally have "level s2 d = render_own f (p @ hdr @ e)" using level_Suc [OF s2(1)] e by simp
  then show ?thesis using f(2-4) k by (simp add: render_own_def Let_def)
qed

lemma opened_level:
  assumes "opened s d hdr k is_asn1 s1" and "d < length (cbb_frames s)" and "level s d = Some p"
  shows "level s1 (d + 1) = Some (p @ hdr)" and "length (cbb_frames s1) = d + 2"
    and "take d (cbb_frames s1) = take d (cbb_frames s)" and "cbb_wf s1"
    and "potential s1 \<le> potential s + length hdr + 4" and "cbb_ample s1 = cbb_ample s"
  using assms by (auto simp: opened_def level_def)

section \<open>Messages\<close>

text \<open>A message as its author thinks of it, its encoding (\<open>None\<close> where a number or a length does not
  fit), and the calls that write it: a nested part is written through the child, and its length is
  left to the flush that the next call on the parent performs.\<close>

datatype item =
    Raw bytes
  | Num nat nat
  | Prefixed nat "item list"
  | Asn1 u8 "item list"

fun enc_item :: "item \<Rightarrow> bytes option" and enc :: "item list \<Rightarrow> bytes option" where
  "enc_item (Raw xs) = Some xs"
| "enc_item (Num k v) = (if v < 256 ^ k then Some (be_bytes k v) else None)"
| "enc_item (Prefixed k is) =
     (case enc is of
        None \<Rightarrow> None
      | Some e \<Rightarrow> if length e < 256 ^ k then Some (be_bytes k (length e) @ e) else None)"
| "enc_item (Asn1 tag is) =
     (case enc is of
        None \<Rightarrow> None
      | Some e \<Rightarrow> if length e \<le> 0xfffffffe then Some (der_element tag e) else None)"
| "enc [] = Some []"
| "enc (i # is) = Option.bind (enc_item i) (\<lambda>x. map_option (\<lambda>xs. x @ xs) (enc is))"

fun item_ok :: "item \<Rightarrow> bool" and items_ok :: "item list \<Rightarrow> bool" where
  "item_ok (Raw xs) = (length xs < SIZE_MOD)"
| "item_ok (Num k v) = (1 \<le> k \<and> k \<le> 4)"
| "item_ok (Prefixed k is) = (1 \<le> k \<and> k \<le> 3 \<and> items_ok is)"
| "item_ok (Asn1 tag is) = (tag AND 0x1f \<noteq> 0x1f \<and> items_ok is)"
| "items_ok [] = True"
| "items_ok (i # is) = (item_ok i \<and> items_ok is)"

fun item_cost :: "item \<Rightarrow> nat" and items_cost :: "item list \<Rightarrow> nat" where
  "item_cost (Raw xs) = length xs"
| "item_cost (Num k v) = k"
| "item_cost (Prefixed k is) = k + 4 + items_cost is"
| "item_cost (Asn1 tag is) = 6 + items_cost is"
| "items_cost [] = 0"
| "items_cost (i # is) = item_cost i + items_cost is"

definition add_num :: "CBB \<Rightarrow> nat \<Rightarrow> nat \<Rightarrow> nat \<Rightarrow> bool \<times> CBB" where
  "add_num s d k v =
     (if k = 1 then CBB_add_u8 s d v else if k = 2 then CBB_add_u16 s d v
      else if k = 3 then CBB_add_u24 s d v else CBB_add_u32 s d v)"

fun build_item :: "CBB \<Rightarrow> nat \<Rightarrow> item \<Rightarrow> bool \<times> CBB"
  and build :: "CBB \<Rightarrow> nat \<Rightarrow> item list \<Rightarrow> bool \<times> CBB" where
  "build_item s d (Raw xs) = CBB_add_bytes s d xs"
| "build_item s d (Num k v) = add_num s d k v"
| "build_item s d (Prefixed k is) =
     (case cbb_add_length_prefixed s d k of
        (False, s') \<Rightarrow> (False, s')
      | (True, s') \<Rightarrow> build s' (d + 1) is)"
| "build_item s d (Asn1 tag is) =
     (case CBB_add_asn1 s d (ucast tag) of
        (False, s') \<Rightarrow> (False, s')
      | (True, s') \<Rightarrow> build s' (d + 1) is)"
| "build s d [] = (True, s)"
| "build s d (i # is) =
     (case build_item s d i of (False, s') \<Rightarrow> (False, s') | (True, s') \<Rightarrow> build s' d is)"

text \<open>The state after the calls for a part whose encoding is \<open>r\<close>.\<close>

definition built :: "CBB \<Rightarrow> nat \<Rightarrow> nat \<Rightarrow> bytes option \<Rightarrow> CBB \<Rightarrow> bool" where
  "built s d c r s' \<longleftrightarrow>
     cbb_wf s' \<and> d < length (cbb_frames s') \<and> take d (cbb_frames s') = take d (cbb_frames s)
     \<and> cbb_ample s' = cbb_ample s \<and> potential s' \<le> potential s + c
     \<and> (\<exists>p. level s d = Some p \<and> level s' d = map_option (\<lambda>e. p @ e) r)"

lemma appended_built:
  "appended s d xs s' \<Longrightarrow> d < length (cbb_frames s) \<Longrightarrow> built s d (length xs) (Some xs) s'"
  using appended_level [of s d xs s'] appended_frames [of s d xs s']
  by (auto simp: built_def appended_def)

lemma add_num_built:
  assumes "add_num s d k v = (True, s')" and "cbb_wf s" and "d < length (cbb_frames s)"
    and "1 \<le> k" and "k \<le> 4"
  shows "built s d k (enc_item (Num k v)) s'"
proof -
  from assms(4,5) consider "k = 1" | "k = 2" | "k = 3" | "k = 4" by linarith
  then have "v < 256 ^ k \<and> cbb_add_u s d (word_of_nat v) k = (True, s')"
    using assms(1)
    by cases (auto simp: add_num_def CBB_add_u8_def CBB_add_u16_def CBB_add_u24_def CBB_add_u32_def
        split: if_splits)
  then have v: "v < 256 ^ k" "cbb_add_u s d (word_of_nat v) k = (True, s')" by simp_all
  moreover have "(256::nat) ^ k \<le> 256 ^ 4" using assms(5) by (intro power_increasing) simp_all
  ultimately have "unat (word_of_nat v :: u32) = v" by simp
  then have "appended s d (be_bytes k v) s'" using cbb_add_u_appended [OF v(2) assms(2-5)] by simp
  from appended_built [OF this assms(3)] show ?thesis using v(1) by simp
qed

lemma built_child:
  assumes op: "opened s d hdr k is_asn1 s1" and d: "d < length (cbb_frames s)"
    and p: "level s d = Some p" and k: "k \<le> length hdr"
    and ch: "built s1 (d + 1) c (Some e) s2"
  shows "level s2 d =
    (if is_asn1 then
       (if length e \<le> 0xfffffffe
        then Some (p @ take (length hdr - k) hdr @ der_length (length e) @ e) else None)
     else if length e < 256 ^ k
       then Some (p @ take (length hdr - k) hdr @ be_bytes k (length e) @ e) else None)"
  using opened_close [OF op d p k, of s2 e] ch opened_level [OF op d p] by (simp add: built_def)

lemma built_nested:
  assumes op: "opened s d hdr k is_asn1 s1" and d: "d < length (cbb_frames s)" and k: "k \<le> length hdr"
    and ch: "built s1 (d + 1) c r s2"
  shows "built s d (length hdr + 4 + c)
    (Option.bind r (\<lambda>e.
       if is_asn1 then
         (if length e \<le> 0xfffffffe then Some (take (length hdr - k) hdr @ der_length (length e) @ e) else None)
       else if length e < 256 ^ k then Some (take (length hdr - k) hdr @ be_bytes k (length e) @ e) else None)) s2"
proof -
  from op obtain p where p: "level s d = Some p" by (auto simp: opened_def)
  note o = opened_level [OF op d p]
  have fr: "cbb_wf s2" "d + 1 < length (cbb_frames s2)" "cbb_ample s2 = cbb_ample s"
    "potential s2 \<le> potential s + length hdr + 4 + c"
    using ch o by (simp_all add: built_def)
  have "take d (cbb_frames s2) = take d (take (d + 1) (cbb_frames s2))" by simp
  also have "\<dots> = take d (cbb_frames s)" using ch o by (simp add: built_def)
  finally have t: "take d (cbb_frames s2) = take d (cbb_frames s)" .
  have "level s2 d = map_option (\<lambda>e. p @ e) (Option.bind r (\<lambda>e.
       if is_asn1 then
         (if length e \<le> 0xfffffffe then Some (take (length hdr - k) hdr @ der_length (length e) @ e) else None)
       else if length e < 256 ^ k then Some (take (length hdr - k) hdr @ be_bytes k (length e) @ e) else None))"
  proof (cases r)
    case None
    then have "level s2 (d + 1) = None" using ch by (auto simp: built_def)
    then show ?thesis using None level_Suc [OF fr(2)] by simp
  next
    case (Some e)
    then show ?thesis using built_child [OF op d p k, of c e s2] ch by simp
  qed
  then show ?thesis using fr t p by (simp add: built_def)
qed


lemma build_item_level:
  assumes "build_item s d i = (True, s')" and "cbb_wf s" and "d < length (cbb_frames s)" and "item_ok i"
  shows "level s d \<noteq> None"
proof (cases i)
  case (Raw xs)
  then show ?thesis using assms CBB_add_bytes_appended [of s d xs s'] by (auto simp: appended_def)
next
  case (Num k v)
  then show ?thesis using assms add_num_built [of s d k v s'] by (auto simp: built_def)
next
  case (Prefixed k "is")
  then show ?thesis using assms cbb_add_length_prefixed_opened [of s d k]
    by (auto simp: opened_def split: prod.splits bool.splits)
next
  case (Asn1 tag "is")
  then show ?thesis using assms CBB_add_asn1_opened [of s d "ucast tag"]
    by (auto simp: opened_def split: prod.splits bool.splits)
qed

lemma built_seq:
  assumes 1: "built s d c r1 s1" and 2: "level s1 d \<noteq> None \<Longrightarrow> built s1 d c' r2 s2"
    and 3: "level s1 d = None \<Longrightarrow> s2 = s1 \<and> r2 = Some []"
  shows "built s d (c + c') (Option.bind r1 (\<lambda>x. map_option (\<lambda>xs. x @ xs) r2)) s2"
proof (cases r1)
  case None
  then show ?thesis using 1 3 by (auto simp: built_def)
next
  case (Some x)
  then have "built s1 d c' r2 s2" using 1 2 by (auto simp: built_def)
  then show ?thesis using 1 Some by (cases r2) (auto simp: built_def)
qed

lemma build_built:
  "build_item s d i = (True, s') \<Longrightarrow> cbb_wf s \<Longrightarrow> d < length (cbb_frames s) \<Longrightarrow> item_ok i \<Longrightarrow>
     built s d (item_cost i) (enc_item i) s'"
  "build s d is = (True, s') \<Longrightarrow> cbb_wf s \<Longrightarrow> d < length (cbb_frames s) \<Longrightarrow> items_ok is \<Longrightarrow>
     level s d \<noteq> None \<Longrightarrow> built s d (items_cost is) (enc is) s'"
proof (induction s d i and s d "is" arbitrary: s' and s' rule: build_item_build.induct)
  case (1 s d xs)
  then show ?case using CBB_add_bytes_appended [of s d xs s'] appended_built [of s d xs s'] by simp
next
  case (2 s d k v)
  then show ?case using add_num_built [of s d k v s'] by simp
next
  case (3 s d k "is")
  then obtain s1 where s1: "cbb_add_length_prefixed s d k = (True, s1)" "build s1 (d + 1) is = (True, s')"
    by (auto split: prod.splits bool.splits)
  have op: "opened s d (replicate k 0) k False s1"
    using cbb_add_length_prefixed_opened [OF s1(1)] 3 by simp
  then obtain p where p: "level s d = Some p" by (auto simp: opened_def)
  note o = opened_level [OF op 3(4) p]
  have "built s1 (d + 1) (items_cost is) (enc is) s'"
    using "3.IH" [OF s1(1) [symmetric] refl s1(2)] o 3(5) by simp
  from built_nested [OF op 3(4) _ this] show ?case
    by (cases "enc is") (simp_all split: if_splits)
next
  case (4 s d tag "is")
  then obtain s1 where s1: "CBB_add_asn1 s d (ucast tag) = (True, s1)" "build s1 (d + 1) is = (True, s')"
    by (auto split: prod.splits bool.splits)
  have op: "opened s d [tag, 0] 1 True s1"
    using CBB_add_asn1_opened [OF s1(1)] 4 by simp
  then obtain p where p: "level s d = Some p" by (auto simp: opened_def)
  note o = opened_level [OF op 4(4) p]
  have "built s1 (d + 1) (items_cost is) (enc is) s'"
    using "4.IH" [OF s1(1) [symmetric] refl s1(2)] o 4(5) by simp
  from built_nested [OF op 4(4) _ this] show ?case
    by (cases "enc is") (auto simp: der_element_def split: if_splits)
next
  case (5 s d)
  then show ?case by (auto simp: built_def)
next
  case (6 s d i "is")
  then obtain s1 where s1: "build_item s d i = (True, s1)" "build s1 d is = (True, s')"
    by (auto split: prod.splits bool.splits)
  have b1: "built s d (item_cost i) (enc_item i) s1" using 6 s1 by simp
  then have w: "cbb_wf s1" "d < length (cbb_frames s1)" by (simp_all add: built_def)
  have "built s1 d (items_cost is) (enc is) s'" if "level s1 d \<noteq> None"
    using "6.IH"(2) [OF s1(1) [symmetric] refl s1(2) w] 6(6) that by simp
  moreover have "s' = s1 \<and> enc is = Some []" if "level s1 d = None"
    using that s1(2) w 6(6) build_item_level [of s1 d]
    by (cases "is") (fastforce split: prod.splits bool.splits)+
  ultimately show ?case using built_seq [OF b1] by simp
qed


lemma room_mono: "room s d n \<Longrightarrow> m \<le> n \<Longrightarrow> room s d m"
  by (auto simp: room_def)

lemma room_opened:
  assumes "opened s d hdr k a s1" and "room s d (length hdr + 4 + c)"
  shows "room s1 (d + 1) c"
proof -
  from assms(1) obtain p where p: "level s d = Some p" by (auto simp: opened_def)
  have "d < length (cbb_frames s)" using assms(2) by (simp add: room_def)
  note o = opened_level [OF assms(1) this p]
  show ?thesis using o assms(2) by (simp add: room_def)
qed

lemma room_built: "built s d c (Some x) s1 \<Longrightarrow> room s d (c + c') \<Longrightarrow> room s1 d c'"
  by (auto simp: room_def built_def)

lemma add_num_room:
  assumes "room s d k" and "1 \<le> k" and "k \<le> 4" and "v < 256 ^ k"
  shows "\<exists>s'. add_num s d k v = (True, s')"
proof -
  from assms(2,3) consider "k = 1" | "k = 2" | "k = 3" | "k = 4" by linarith
  then show ?thesis
    using assms cbb_add_u_room [OF assms(1-3), of "word_of_nat v"]
    by cases (simp_all add: add_num_def CBB_add_u8_def CBB_add_u16_def CBB_add_u24_def CBB_add_u32_def)
qed

lemma build_succeeds:
  "item_ok i \<Longrightarrow> room s d (item_cost i) \<Longrightarrow> enc_item i \<noteq> None \<Longrightarrow> \<exists>s'. build_item s d i = (True, s')"
  "items_ok is \<Longrightarrow> room s d (items_cost is) \<Longrightarrow> enc is \<noteq> None \<Longrightarrow> \<exists>s'. build s d is = (True, s')"
proof (induction s d i and s d "is" rule: build_item_build.induct)
  case (1 s d xs)
  then show ?case using CBB_add_bytes_room [of s d xs] by simp
next
  case (2 s d k v)
  then show ?case using add_num_room [of s d k v] by (simp split: if_splits)
next
  case (3 s d k "is")
  have r: "room s d (length (replicate k (0::u8)) + 4 + items_cost is)" using 3 by simp
  then obtain s1 where s1: "cbb_add_length_prefixed s d k = (True, s1)"
    using cbb_add_length_prefixed_room room_mono by (metis le_add1 length_replicate add.assoc)
  have "opened s d (replicate k 0) k False s1"
    using cbb_add_length_prefixed_opened [OF s1] 3(2,3) by (simp add: room_def)
  from room_opened [OF this r] show ?case
    using "3.IH" [OF s1 [symmetric] refl] s1 3(2,4) by (simp split: option.splits)
next
  case (4 s d tag "is")
  have r: "room s d (length [tag, 0] + 4 + items_cost is)" using 4 by simp
  have "unat (ucast tag :: u32) < 256" by simp
  moreover have "(ucast tag :: u32) AND 0x1f \<noteq> 0x1f" using 4(2) by (simp add: ucast_tag_number)
  ultimately obtain s1 where s1: "CBB_add_asn1 s d (ucast tag) = (True, s1)"
    using CBB_add_asn1_room [of s d "ucast tag"] room_mono [OF r, of 6] by auto
  have "opened s d [tag, 0] 1 True s1"
    using CBB_add_asn1_opened [OF s1] 4(3) by (simp add: room_def)
  from room_opened [OF this r] show ?case
    using "4.IH" [OF s1 [symmetric] refl] s1 4(2,4) by (simp split: option.splits)
next
  case (5 s d)
  then show ?case by simp
next
  case (6 s d i "is")
  then obtain x where x: "enc_item i = Some x" by (cases "enc_item i") auto
  have "room s d (item_cost i)" using 6(4) by (auto intro: room_mono)
  with 6 x obtain s1 where s1: "build_item s d i = (True, s1)" by auto
  have "built s d (item_cost i) (Some x) s1"
    using build_built(1) [OF s1] 6(3,4) x by (simp add: room_def)
  from room_built [OF this] 6(4) have "room s1 d (items_cost is)" by simp
  then show ?case using "6.IH"(2) [OF s1 [symmetric] refl] s1 6(3,5) x by auto
qed

section \<open>Whole messages\<close>

text \<open>The life of a builder: initialise it, write a message at the top level, take the result.\<close>

definition cbb_message :: "(nat \<Rightarrow> bool) \<Rightarrow> nat \<Rightarrow> item list \<Rightarrow> bytes option" where
  "cbb_message grant cap is =
     (case CBB_init grant cap of
        (False, s) \<Rightarrow> None
      | (True, s) \<Rightarrow>
          (case build s 0 is of
             (False, s') \<Rightarrow> None
           | (True, s') \<Rightarrow>
               map_option (\<lambda>(buf, len). take len buf) (fst (CBB_finish s' 0 True True))))"

lemma CBB_init_True:
  assumes "CBB_init grant cap = (True, s)" and "cap < SIZE_MOD"
  shows "cbb_wf s" and "level s 0 = Some []" and "length (cbb_frames s) = 1" and "potential s = 0"
    and "cbb_ample s \<longleftrightarrow> (\<forall>n. grant n)"
  using assms by (auto simp: CBB_init_def cbb_init_def CBB_null_def Let_def cbb_wf_def level_def
      buffer_wf_def cbb_data_def potential_def cbb_ample_def ample_def split: if_splits)

lemma CBB_finish_Some:
  assumes "fst (CBB_finish s 0 True True) = Some (buf, len)" and "cbb_wf s"
  shows "level s 0 = Some (take len buf)"
proof -
  from assms(1) obtain s' b where f: "CBB_flush s 0 = (True, s')" "cbb_base s' = Some b"
    "buf = cbb_buf b" "len = cbb_len b"
    by (auto simp: CBB_finish_def split: prod.splits bool.splits option.splits if_splits)
  have "0 < length (cbb_frames s)" using assms(2) by (cases "cbb_frames s") (simp_all add: cbb_wf_def)
  from CBB_flush_True [OF f(1) assms(2) this] f(2-4) show ?thesis
    by (metis CBB.select_convs(1) cbb_data_def option.inject)
qed

lemma cbb_message_sound:
  assumes "cbb_message grant cap is = Some e" and "cap < SIZE_MOD" and "items_ok is"
  shows "enc is = Some e"
proof -
  from assms(1) obtain s0 s1 buf len where m: "CBB_init grant cap = (True, s0)" "build s0 0 is = (True, s1)"
    "fst (CBB_finish s1 0 True True) = Some (buf, len)" "e = take len buf"
    by (auto simp: cbb_message_def split: prod.splits bool.splits)
  note i = CBB_init_True [OF m(1) assms(2)]
  have b: "built s0 0 (items_cost is) (enc is) s1"
    using build_built(2) [OF m(2) i(1)] i assms(3) by simp
  then have "level s1 0 = Some e" using CBB_finish_Some [OF m(3)] m(4) by (simp add: built_def)
  then show ?thesis using b i(2) by (cases "enc is") (auto simp: built_def)
qed

lemma cbb_message_complete:
  assumes g: "\<forall>n. grant n" and cap: "cap < SIZE_MOD" and ok: "items_ok is"
    and cost: "items_cost is < SIZE_MOD" and e: "enc is = Some e"
  shows "cbb_message grant cap is = Some e"
proof -
  obtain s0 where s0: "CBB_init grant cap = (True, s0)"
    using g by (auto simp: CBB_init_def cbb_init_def Let_def)
  note i = CBB_init_True [OF s0 cap]
  have "room s0 0 (items_cost is)" using i g cost by (simp add: room_def)
  with build_succeeds(2) [OF ok] e obtain s1 where s1: "build s0 0 is = (True, s1)" by blast
  have b: "built s0 0 (items_cost is) (enc is) s1"
    using build_built(2) [OF s1 i(1)] i ok by simp
  then have w: "cbb_wf s1" "0 < length (cbb_frames s1)" "level s1 0 \<noteq> None" "cbb_ample s1"
    "potential s1 < SIZE_MOD" using i g cost e by (auto simp: built_def)
  then obtain s2 where s2: "CBB_flush s1 0 = (True, s2)" using CBB_flush_ample by blast
  then obtain b2 where b2: "cbb_base s2 = Some b2" using CBB_flush_True [OF s2 w(1,2)]
    by (metis CBB.select_convs(1))
  then have "fst (CBB_finish s1 0 True True) = Some (cbb_buf b2, cbb_len b2)"
    using s2 by (simp add: CBB_finish_def)
  then have "\<exists>e'. cbb_message grant cap is = Some e'" using s0 s1 by (simp add: cbb_message_def)
  then show ?thesis using cbb_message_sound [OF _ cap ok] e by auto
qed


section \<open>INTEGER values\<close>

text \<open>The octets \<open>CBB_add_asn1_uint64\<close> writes for the eight octets of the value.\<close>

fun octets_spec :: "bool \<Rightarrow> bytes \<Rightarrow> bytes" where
  "octets_spec started [] = []"
| "octets_spec started (b # bs) =
     (if started then b # octets_spec True bs
      else if b = 0 then octets_spec False bs
      else (if 128 \<le> unat b then [0] else []) @ b # octets_spec True bs)"

definition uint64_content :: "u64 \<Rightarrow> bytes" where
  "uint64_content v = (let bs = octets_spec False (be_bytes 8 (unat v)) in if bs = [] then [0] else bs)"

abbreviation octet_items :: "bytes \<Rightarrow> item list" where
  "octet_items bs \<equiv> map (\<lambda>b. Num (Suc 0) (unat b)) bs"

lemma enc_octet_items [simp]: "enc (octet_items bs) = Some bs"
  by (induction bs) simp_all

lemma octet_items_ok [simp]: "items_ok (octet_items bs)"
  by (induction bs) simp_all

lemma octets_spec_True [simp]: "octets_spec True bs = bs"
  by (induction bs) simp_all

lemma build_octets:
  assumes "asn1_uint64_octets s d bs started = ((True, started'), s')"
  shows "build s d (octet_items (octets_spec started bs)) = (True, s')
    \<and> (started' \<longleftrightarrow> started \<or> octets_spec started bs \<noteq> [])"
  using assms
proof (induction bs arbitrary: s started)
  case (Cons byte bs)
  show ?case
  proof (cases "\<not> started \<and> byte = 0")
    case True
    then show ?thesis using Cons.IH [of s False] Cons.prems by simp
  next
    case False
    then obtain s1 s2 where
      s1: "(if \<not> started \<and> 128 \<le> unat byte then CBB_add_u8 s d 0 else (True, s)) = (True, s1)"
      and s2: "CBB_add_u8 s1 d (unat byte) = (True, s2)"
      and r: "asn1_uint64_octets s2 d bs True = ((True, started'), s')"
      using Cons(2) by (auto simp: u8_and_80 not_less split: prod.splits bool.splits if_splits)
    have "build s2 d (octet_items bs) = (True, s') \<and> started'"
      using Cons.IH [OF r] by simp
    then show ?thesis using False s1 s2 by (auto simp: add_num_def split: if_splits)
  qed
qed simp

lemma uint64_octets: "map (\<lambda>i. ucast (drop_bit (8 * (7 - i)) v)) [0..<8] = be_bytes 8 (unat (v :: u64))"
proof -
  have "(2::nat) ^ (8 * (7 - i)) = 256 ^ (7 - i)" for i by (simp add: power_mult)
  then show ?thesis by (simp add: be_bytes_map ucast_drop_bit_u8)
qed

lemma CBB_add_asn1_uint64_build:
  assumes "CBB_add_asn1_uint64 s d v = (True, s')"
  shows "\<exists>s1. build s d [Asn1 2 (octet_items (uint64_content v))] = (True, s1) \<and> CBB_flush s1 d = (True, s')"
proof -
  from assms obtain s0 s1 s2 started where
    s0: "CBB_add_asn1 s d CBS_ASN1_INTEGER = (True, s0)"
    and s1: "asn1_uint64_octets s0 (d + 1) (be_bytes 8 (unat v)) False = ((True, started), s1)"
    and s2: "(if \<not> started then CBB_add_u8 s1 (d + 1) 0 else (True, s1)) = (True, s2)"
    and fl: "CBB_flush s2 d = (True, s')"
    by (auto simp: CBB_add_asn1_uint64_def uint64_octets split: prod.splits bool.splits)
  have "build s0 (d + 1) (octet_items (uint64_content v)) = (True, s2)"
    using build_octets [OF s1] s2 by (auto simp: uint64_content_def Let_def add_num_def split: if_splits)
  then show ?thesis using s0 fl by simp
qed

lemma octets_spec_False:
  "octets_spec False bs = [] \<and> be_val bs = 0
   \<or> der_uint_content (octets_spec False bs) \<and> be_val (octets_spec False bs) = be_val bs"
proof (induction bs)
  case (Cons b bs)
  show ?case
  proof (cases "b = 0")
    case True
    then show ?thesis using Cons by (auto simp: be_val_Cons)
  next
    case False
    then show ?thesis by (auto simp: der_uint_content_def be_val_Cons)
  qed
qed simp

lemma uint64_content_minimal: "der_uint_content (uint64_content v)"
  and uint64_content_value: "be_val (uint64_content v) = unat v"
  and uint64_content_length: "length (uint64_content v) \<le> 9"
proof -
  have v: "be_val (be_bytes 8 (unat v)) = unat v" by simp
  show "der_uint_content (uint64_content v)" "be_val (uint64_content v) = unat v"
    using octets_spec_False [of "be_bytes 8 (unat v)"] v
    by (auto simp: uint64_content_def Let_def der_uint_content_def be_val_Cons)
  have "length (octets_spec started bs) \<le> length bs + 1" for started bs
    by (induction bs arbitrary: started) (auto simp: le_SucI)
  from this [of False "be_bytes 8 (unat v)"] show "length (uint64_content v) \<le> 9"
    by (simp add: uint64_content_def Let_def)
qed


lemma CBB_add_asn1_uint64_level:
  assumes "CBB_add_asn1_uint64 s d v = (True, s')" and "cbb_wf s" and "d < length (cbb_frames s)"
  shows "\<exists>p. level s d = Some p \<and> level s' d = Some (p @ der_element 2 (uint64_content v))
    \<and> length (cbb_frames s') = d + 1 \<and> cbb_wf s'"
proof -
  let ?is = "[Asn1 2 (octet_items (uint64_content v))]"
  from CBB_add_asn1_uint64_build [OF assms(1)] obtain s1 where
    s1: "build s d ?is = (True, s1)" "CBB_flush s1 d = (True, s')" by blast
  have ok: "items_ok ?is" by simp
  have "enc ?is = Some (der_element 2 (uint64_content v))"
    using uint64_content_length [of v] by simp
  moreover have "level s d \<noteq> None"
    using build_item_level [OF _ assms(2,3), of "hd ?is"] s1(1) by (auto split: prod.splits bool.splits)
  ultimately have b: "built s d (items_cost ?is) (Some (der_element 2 (uint64_content v))) s1"
    using build_built(2) [OF s1(1) assms(2,3) ok] by simp
  then obtain p where p: "level s d = Some p" "level s1 d = Some (p @ der_element 2 (uint64_content v))"
    "cbb_wf s1" "d < length (cbb_frames s1)" by (auto simp: built_def)
  from CBB_flush_True [OF s1(2) p(3,4)] obtain b b' g where
    "level s1 d = Some (cbb_data b')" "cbb_wf s'"
    "s' = \<lparr>cbb_base = Some b', cbb_frames = take d (cbb_frames s1) @ [g]\<rparr>" by metis
  then show ?thesis using p by (simp add: level_def)
qed

section \<open>Properties\<close>

text \<open>Evaluation of the builder on concrete input.\<close>

lemma write_be_numeral [eval_simps]:
  "write_be buf off (numeral k) v
    = write_be (buf[off + pred_numeral k := word_of_nat v]) off (pred_numeral k) (v div 256)"
  by (simp only: numeral_eq_Suc [of k] write_be.simps)

lemmas cbb_eval = CBB_init_def cbb_init_def CBB_null_def cbb_frame0_def CBB_add_asn1_uint64_def
  uint64_octets CBB_add_asn1_def CBB_flush_def CBB_add_u8_def cbb_add_u_def cbb_flush_add_def
  cbb_buffer_add_def Let_def cbb_set_offset_def cbb_link_child_def cbb_flush_own_def
  cbb_flush_asn1_def asn1_len_len_def render_own_def cbb_data_def der_element_def der_length_def
  mem_write_def

text \<open>C30. \<open>CBB_flush\<close> writes every pending length of the struct and its descendants: on any chain of
  children with pending prefixes of one to three octets or an ASN.1 length, if it succeeds then the
  buffer holds the rendered content (each length the number of bytes that follow it, ASN.1 lengths in
  minimal form with the contents moved to make room), and exactly the struct itself is left linked.
  With a resizable buffer and an allocator that serves every request it succeeds if and only if every
  length fits its prefix. Well-formedness (the valid bytes lie inside the array) survives in any case.\<close>

theorem cbb_flush_correct:
  assumes "chain_ok fs" and "buffer_wf b" and "cbb_flush b fs = (ok, b', fs')"
  shows "(ok \<longrightarrow> render fs (cbb_data b) = Some (cbb_data b') \<and> length fs' = 1)
    \<and> (cbb_can_resize b \<and> (\<forall>n. cbb_grant b n) \<and> cbb_len b + 4 * length fs < SIZE_MOD \<longrightarrow>
        (ok \<longleftrightarrow> render fs (cbb_data b) \<noteq> None))
    \<and> buffer_wf b'"
proof -
  have "cbb_len b + 4 * length fs < SIZE_MOD \<Longrightarrow> cbb_len b + 4 * (length fs - 1) < SIZE_MOD"
    by linarith
  then show ?thesis
    using cbb_flush_spec [OF assms(1,2)] assms(3) by (auto simp: flush_spec_def ample_def)
qed

theorem cbb_flush_correct_witness:
  "\<exists>ok b' fs'. cbb_flush
      \<lparr>cbb_buf = [9, 0, 0, 5, 6], cbb_len = 5, cbb_can_resize = False, cbb_grant = \<lambda>n. False\<rparr>
      [\<lparr>fr_offset = 1, fr_pending_len_len = 2, fr_pending_is_asn1 = False\<rparr>, cbb_frame0] = (ok, b', fs')
    \<and> ok \<and> cbb_data b' = [9, 0, 2, 5, 6]"
proof -
  let ?b = "\<lparr>cbb_buf = [9, 0, 0, 5, 6], cbb_len = 5, cbb_can_resize = False, cbb_grant = \<lambda>n. False\<rparr>"
  let ?fs = "[\<lparr>fr_offset = 1, fr_pending_len_len = 2, fr_pending_is_asn1 = False\<rparr>, cbb_frame0]"
  obtain ok b' fs' where fl: "cbb_flush ?b ?fs = (ok, b', fs')" using cbb_flush_total by blast
  have "fst (cbb_flush ?b ?fs)" by (simp add: cbb_eval eval_simps)
  then have ok: ok using fl by simp
  have "chain_ok ?fs" "buffer_wf ?b" by (simp_all add: frame_ok_def buffer_wf_def)
  from cbb_flush_correct [OF this fl] ok have "render ?fs (cbb_data ?b) = Some (cbb_data b')" by simp
  moreover have "render ?fs (cbb_data ?b) = Some [9, 0, 2, 5, 6]"
    by (simp add: cbb_eval eval_simps)
  ultimately show ?thesis using fl ok by auto
qed

text \<open>C10. The builder refines the abstract encoding: initialising a builder, making the calls that write
  a message of raw bytes, fixed-width numbers, length-prefixed parts and ASN.1 elements, nested to any
  depth, and finishing it yields exactly the encoding of the message, and fails when a number or a
  length does not fit, provided the allocator serves every request and the message stays below the
  size of the address space.\<close>

theorem cbb_message_refines_encoding:
  assumes "\<forall>n. grant n" and "cap < SIZE_MOD" and "items_ok is" and "items_cost is < SIZE_MOD"
  shows "cbb_message grant cap is = enc is"
  using cbb_message_complete [OF assms] cbb_message_sound [OF _ assms(2,3), of grant]
  by (cases "enc is"; cases "cbb_message grant cap is") auto

theorem cbb_message_refines_encoding_witness:
  "cbb_message (\<lambda>n. True) 1 [Num 2 772, Prefixed 2 [Num 1 7, Prefixed 1 [Raw [1, 2]]], Asn1 48 [Raw [5]]]
     = Some [3, 4, 0, 4, 7, 2, 1, 2, 48, 1, 5]"
proof -
  let ?is = "[Num 2 772, Prefixed 2 [Num 1 7, Prefixed 1 [Raw [1, 2]]], Asn1 48 [Raw [5]]] :: item list"
  have "cbb_message (\<lambda>n. True) 1 ?is = enc ?is"
    by (rule cbb_message_refines_encoding) simp_all
  also have "\<dots> = Some [3, 4, 0, 4, 7, 2, 1, 2, 48, 1, 5]"
    by (simp add: cbb_eval eval_simps)
  finally show ?thesis .
qed

text \<open>C21. What the builder writes the reader reads back: if a builder succeeds in writing a
  length-prefixed part, or an ASN.1 element, then reading the result with the matching reader returns
  exactly the bytes written inside the part and leaves exactly the bytes that follow it.\<close>

theorem cbb_cbs_roundtrip:
  assumes "cap < SIZE_MOD" and "items_ok is" and "1 \<le> k" and "k \<le> 3" and "tag AND 0x1f \<noteq> 0x1f"
  shows "(cbb_message grant cap [Prefixed k is] = Some e \<longrightarrow>
       (\<exists>body. enc is = Some body \<and> cbs_get_length_prefixed (CBS_init (e @ rest)) k =
          (Some (CBS_init body), (CBS_init (e @ rest))\<lparr>cbs_data := rest\<rparr>)))
    \<and> (cbb_message grant cap [Asn1 tag is] = Some e \<longrightarrow>
       (\<exists>body c. enc is = Some body \<and> cbs_data c = body \<and> CBS_get_asn1 (CBS_init (e @ rest)) (ucast tag) =
          (Some c, (CBS_init (e @ rest))\<lparr>cbs_data := rest\<rparr>)))"
proof (intro conjI impI)
  assume "cbb_message grant cap [Prefixed k is] = Some e"
  from cbb_message_sound [OF this assms(1)] assms obtain body where
    "enc is = Some body" "length body < 256 ^ k" "e = be_bytes k (length body) @ body"
    by (auto split: option.splits if_splits)
  then show "\<exists>body. enc is = Some body \<and> cbs_get_length_prefixed (CBS_init (e @ rest)) k =
      (Some (CBS_init body), (CBS_init (e @ rest))\<lparr>cbs_data := rest\<rparr>)"
    using assms by (auto intro!: cbs_get_length_prefixed_append)
next
  assume "cbb_message grant cap [Asn1 tag is] = Some e"
  from cbb_message_sound [OF this assms(1)] assms obtain body where
    b: "enc is = Some body" "length body \<le> 0xfffffffe" "e = der_element tag body"
    by (auto split: option.splits if_splits)
  then have "CBS_get_asn1 (CBS_init (e @ rest)) (ucast tag) =
      (Some ((CBS_init e)\<lparr>cbs_data := body\<rparr>), (CBS_init (e @ rest))\<lparr>cbs_data := rest\<rparr>)"
    unfolding CBS_get_asn1_tag_Some_iff [OF assms(5)] by (intro exI [of _ body] exI [of _ rest]) simp
  then show "\<exists>body c. enc is = Some body \<and> cbs_data c = body \<and> CBS_get_asn1 (CBS_init (e @ rest)) (ucast tag) =
      (Some c, (CBS_init (e @ rest))\<lparr>cbs_data := rest\<rparr>)"
    using b by auto
qed

theorem cbb_cbs_roundtrip_witness:
  "\<exists>e. cbb_message (\<lambda>n. True) 8 [Prefixed 2 [Num 1 7]] = Some e
    \<and> fst (cbs_get_length_prefixed (CBS_init (e @ [42])) 2) = Some (CBS_init [7])"
proof -
  have m: "cbb_message (\<lambda>n. True) 8 [Prefixed 2 [Num 1 7]] = Some [0, 1, 7]"
    by (subst cbb_message_complete) (simp_all add: eval_simps)
  with cbb_cbs_roundtrip [of 8 "[Num 1 7]" 2 48 "\<lambda>n. True" "[0, 1, 7]" "[42]"]
  show ?thesis by auto
qed

text \<open>C33. \<open>CBB_add_asn1_uint64\<close> and \<open>CBS_get_asn1_uint64\<close> are inverse: whenever the builder succeeds in
  adding an INTEGER, at any depth and with any pending content, the bytes it appended at that depth
  are read back as the same number, with nothing consumed beyond them.\<close>

theorem asn1_uint64_roundtrip:
  assumes "CBB_add_asn1_uint64 s d v = (True, s')" and "cbb_wf s" and "d < length (cbb_frames s)"
  shows "\<exists>p e. level s d = Some p \<and> level s' d = Some (p @ e)
    \<and> (\<forall>rest. CBS_get_asn1_uint64 (CBS_init (e @ rest)) = (Some v, (CBS_init (e @ rest))\<lparr>cbs_data := rest\<rparr>))"
proof -
  from CBB_add_asn1_uint64_level [OF assms] obtain p where p: "level s d = Some p"
    "level s' d = Some (p @ der_element 2 (uint64_content v))" by blast
  have "CBS_get_asn1_uint64 (CBS_init (der_element 2 (uint64_content v) @ rest))
      = (Some v, (CBS_init (der_element 2 (uint64_content v) @ rest))\<lparr>cbs_data := rest\<rparr>)" for rest
    unfolding CBS_get_asn1_uint64_Some_iff
    using uint64_content_minimal [of v] uint64_content_value [of v] uint64_content_length [of v]
    by (intro exI [of _ "uint64_content v"] exI [of _ rest]) simp
  with p show ?thesis by blast
qed

theorem asn1_uint64_roundtrip_witness:
  "\<exists>s s'. CBB_init (\<lambda>n. True) 16 = (True, s) \<and> CBB_add_asn1_uint64 s 0 200 = (True, s')
    \<and> (\<exists>e. level s' 0 = Some e \<and> fst (CBS_get_asn1_uint64 (CBS_init e)) = Some 200)"
proof -
  define s where "s = snd (CBB_init (\<lambda>n. True) 16)"
  define s' where "s' = snd (CBB_add_asn1_uint64 s 0 200)"
  have "fst (CBB_init (\<lambda>n. True) 16)" by (simp add: cbb_eval eval_simps)
  then have s: "CBB_init (\<lambda>n. True) 16 = (True, s)" by (simp add: s_def prod_eq_iff)
  have i: "cbb_wf s" "level s 0 = Some []" "length (cbb_frames s) = 1"
    using CBB_init_True [OF s] by simp_all
  have "fst (CBB_add_asn1_uint64 s 0 200)" unfolding s_def by (simp add: cbb_eval eval_simps)
  then have s': "CBB_add_asn1_uint64 s 0 200 = (True, s')" by (simp add: s'_def prod_eq_iff)
  from asn1_uint64_roundtrip [OF s' i(1)] i(2,3) obtain e where e: "level s' 0 = Some e"
    "\<forall>rest. CBS_get_asn1_uint64 (CBS_init (e @ rest)) = (Some 200, (CBS_init (e @ rest))\<lparr>cbs_data := rest\<rparr>)"
    by auto
  from e(2) [rule_format, of "[]"] have "fst (CBS_get_asn1_uint64 (CBS_init e)) = Some 200" by simp
  with s s' e(1) show ?thesis by blast
qed

end
