(* ===== verification/Bytestring_BER.thy ===== *)
theory Bytestring_BER
  imports CBB_Messages
begin

text \<open>
  The conversion from indefinite-length BER to DER of \<^verbatim>\<open>ssl/bs_ber.c\<close>: the scan for indefinite lengths,
  the converter, and its entry point. The recursion of the C code over nested elements and its loop
  over the elements of a window are one recursive function each; both terminate because every element
  consumes at least one byte, and for the converter because a nested call never gives back bytes.
\<close>

abbreviation (input) kMaxDepth :: nat where "kMaxDepth \<equiv> 2048"

definition cbs_nonstrict_get_any_asn1_element :: "CBS \<Rightarrow> (CBS \<times> u32 \<times> nat) option \<times> CBS" where
  "cbs_nonstrict_get_any_asn1_element cbs = cbs_get_any_asn1_element_internal cbs False"

text \<open>The result of a reader after success; what termination rests on.\<close>

lemma nonstrict_element_bounds:
  assumes "cbs_nonstrict_get_any_asn1_element c = (Some (contents, tag, header_len), c')"
  shows "CBS_len c' < CBS_len c \<and> 2 \<le> header_len \<and> header_len \<le> CBS_len contents
      \<and> CBS_len contents + CBS_len c' = CBS_len c"
proof -
  have "parsed_definite c contents tag header_len c' \<or> parsed_indefinite c contents tag header_len c'"
    using assms by (simp add: cbs_nonstrict_get_any_asn1_element_def asn1_element_Some_iff)
  then show ?thesis
    by (auto simp: parsed_definite_def parsed_indefinite_def CBS_len_def der_element_def der_length_def)
qed

lemma CBS_skip_Some: "CBS_skip c n = (Some u, c') \<Longrightarrow> CBS_len c' = CBS_len c - n \<and> n \<le> CBS_len c"
  by (auto simp: CBS_skip_def cbs_get_def CBS_len_def split: if_splits)

lemma CBS_len_init [simp]: "length (CBS_data c) = CBS_len c" "CBS_len (CBS_init d) = length d"
  by (simp_all add: CBS_len_def CBS_data_def CBS_init_def)

section \<open>The scan\<close>

text \<open>\<open>None\<close> is the error return; \<open>Some b\<close> is success with \<open>*indefinite_found = b\<close>. \<open>find_loop\<close> is the
  \<open>while\<close> loop of \<open>cbs_find_indefinite\<close>: the value a nested call stores in \<open>*indefinite_found\<close> is
  overwritten by what the rest of the loop stores.\<close>

function cbs_find_indefinite :: "CBS \<Rightarrow> nat \<Rightarrow> bool option"
  and find_loop :: "CBS \<Rightarrow> nat \<Rightarrow> bool option" where
  "cbs_find_indefinite orig_in depth =
     (if kMaxDepth < depth then None else find_loop (CBS_init (CBS_data orig_in)) depth)"
| "find_loop inp depth =
     (if CBS_len inp = 0 then Some False
      else case cbs_nonstrict_get_any_asn1_element inp of
        (None, _) \<Rightarrow> None
      | (Some (contents, tag, header_len), inp') \<Rightarrow>
          if CBS_len contents = header_len \<and> 0 < header_len
             \<and> CBS_data contents ! (header_len - 1) = 0x80 then Some True
          else if tag AND CBS_ASN1_CONSTRUCTED \<noteq> 0 then
            (case CBS_skip contents header_len of
               (None, _) \<Rightarrow> None
             | (Some _, contents') \<Rightarrow>
                 (case cbs_find_indefinite contents' (depth + 1) of
                    None \<Rightarrow> None
                  | Some _ \<Rightarrow> find_loop inp' depth))
          else find_loop inp' depth)"
  by pat_completeness auto
termination cbs_find_indefinite
  by (relation "measure (\<lambda>x. case x of Inl (c, _) \<Rightarrow> 2 * CBS_len c + 1 | Inr (c, _) \<Rightarrow> 2 * CBS_len c)")
    (auto dest!: nonstrict_element_bounds [OF sym] CBS_skip_Some [OF sym])

declare cbs_find_indefinite.simps [simp del] find_loop.simps [simp del]

definition is_primitive_type :: "u32 \<Rightarrow> bool" where
  "is_primitive_type tag \<longleftrightarrow>
     tag AND 0xc0 = 0 \<and> tag AND 0x1f \<noteq> CBS_ASN1_SEQUENCE AND 0x1f \<and> tag AND 0x1f \<noteq> CBS_ASN1_SET AND 0x1f"

definition is_eoc :: "nat \<Rightarrow> CBS \<Rightarrow> bool" where
  "is_eoc header_len contents \<longleftrightarrow> header_len = 2 \<and> CBS_mem_equal contents [0x0, 0x0]"


section \<open>The converter\<close>

text \<open>Whether the children of an element of indefinite length are fragments whose headers are dropped;
  \<open>None\<close> where the look-ahead into a context-specific element fails.\<close>

definition squash_child_headers :: "CBS \<Rightarrow> u32 \<Rightarrow> bool option" where
  "squash_child_headers inp tag =
     (if tag AND 0xc0 = 0x80 \<and> tag AND CBS_ASN1_CONSTRUCTED \<noteq> 0 then
        (case cbs_nonstrict_get_any_asn1_element (CBS_init (CBS_data inp)) of
           (None, _) \<Rightarrow> None
         | (Some (inner_contents, inner_tag, inner_header_len), _) \<Rightarrow>
             Some (is_primitive_type tag
               \<or> inner_header_len < CBS_len inner_contents \<and> is_primitive_type inner_tag))
      else Some (is_primitive_type tag))"

text \<open>The result is the return value, the input after the call and the builder after the call; the
  output \<open>CBB\<close> is the struct at depth \<open>d\<close>. The optional \<open>CBB_add_asn1\<close> and \<open>CBB_flush\<close> around the
  contents of an element are \<open>ber_open\<close> and \<open>ber_close\<close>.\<close>

definition ber_open :: "bool \<Rightarrow> CBB \<Rightarrow> nat \<Rightarrow> u32 \<Rightarrow> bool \<times> CBB" where
  "ber_open squash_header out d tag = (if squash_header then (True, out) else CBB_add_asn1 out d tag)"

definition ber_close :: "bool \<Rightarrow> CBB \<Rightarrow> nat \<Rightarrow> bool \<times> CBB" where
  "ber_close squash_header out d = (if squash_header then (True, out) else CBB_flush out d)"

function cbs_convert_indefinite ::
    "CBS \<Rightarrow> CBB \<Rightarrow> nat \<Rightarrow> bool \<Rightarrow> bool \<Rightarrow> nat \<Rightarrow> bool \<times> CBS \<times> CBB" where
  "cbs_convert_indefinite inp out d squash_header looking_for_eoc depth =
     (if kMaxDepth < depth then (False, inp, out)
      else if CBS_len inp = 0 then (\<not> looking_for_eoc, inp, out)
      else case cbs_nonstrict_get_any_asn1_element inp of
        (None, inp') \<Rightarrow> (False, inp', out)
      | (Some (contents, tag, header_len), inp') \<Rightarrow>
          let d' = (if squash_header then d else d + 1) in
          if CBS_len contents = header_len \<and> is_eoc header_len contents then
            (looking_for_eoc, inp', out)
          else if CBS_len contents = header_len \<and> 0 < header_len
              \<and> CBS_data contents ! (header_len - 1) = 0x80 then
            (case squash_child_headers inp' tag of
               None \<Rightarrow> (False, inp', out)
             | Some squash \<Rightarrow>
            (case ber_open squash_header out d
                    (if squash then tag AND NOT CBS_ASN1_CONSTRUCTED else tag) of
               (False, out1) \<Rightarrow> (False, inp', out1)
             | (True, out1) \<Rightarrow>
            (case cbs_convert_indefinite inp' out1 d' squash True (depth + 1) of
               (False, inp2, out2) \<Rightarrow> (False, inp2, out2)
             | (True, inp2, out2) \<Rightarrow>
            (case ber_close squash_header out2 d of
               (False, out3) \<Rightarrow> (False, inp2, out3)
             | (True, out3) \<Rightarrow>
                 cbs_convert_indefinite inp2 out3 d squash_header looking_for_eoc depth))))
          else
            (case ber_open squash_header out d tag of
               (False, out1) \<Rightarrow> (False, inp', out1)
             | (True, out1) \<Rightarrow>
            (case CBS_skip contents header_len of
               (None, _) \<Rightarrow> (False, inp', out1)
             | (Some _, contents') \<Rightarrow>
            (case (if tag AND CBS_ASN1_CONSTRUCTED \<noteq> 0 then
                     (case cbs_convert_indefinite contents' out1 d' False False (depth + 1) of
                        (ok, _, out2) \<Rightarrow> (ok, out2))
                   else CBB_add_bytes out1 d' (CBS_data contents')) of
               (False, out2) \<Rightarrow> (False, inp', out2)
             | (True, out2) \<Rightarrow>
            (case ber_close squash_header out2 d of
               (False, out3) \<Rightarrow> (False, inp', out3)
             | (True, out3) \<Rightarrow>
                 cbs_convert_indefinite inp' out3 d squash_header looking_for_eoc depth)))))"
  by pat_completeness auto

lemma cbs_convert_indefinite_len:
  "cbs_convert_indefinite_dom (inp, out, d, sq, eoc, depth) \<Longrightarrow>
     CBS_len (fst (snd (cbs_convert_indefinite inp out d sq eoc depth))) \<le> CBS_len inp"
proof (induction rule: cbs_convert_indefinite.pinduct)
  case (1 inp out d sq eoc depth)
  obtain r inp' where e: "cbs_nonstrict_get_any_asn1_element inp = (r, inp')" by force
  have adv: "CBS_len inp' \<le> CBS_len inp"
    using element_reader.rd_len_le [of inp False] e by (simp add: cbs_nonstrict_get_any_asn1_element_def)
  note unf = cbs_convert_indefinite.psimps [OF 1(1)] and IH = 1(2-5) [OF _ _ e [symmetric]]
  show ?case
  proof (cases "kMaxDepth < depth \<or> CBS_len inp = 0 \<or> r = None")
    case True
    then show ?thesis using adv by (auto simp: unf e)
  next
    case False
    then obtain contents tag hl where r: "r = Some (contents, tag, hl)" and
      g: "\<not> kMaxDepth < depth" "CBS_len inp \<noteq> 0" by (cases r) auto
    note IH = IH [OF g r refl refl refl]
    note unf = unf [unfolded e r split option.case if_not_P [OF g(1)] if_not_P [OF g(2)] Let_def]
    consider (eoc) "CBS_len contents = hl \<and> is_eoc hl contents"
      | (indef) "\<not> (CBS_len contents = hl \<and> is_eoc hl contents)"
          "CBS_len contents = hl \<and> 0 < hl \<and> CBS_data contents ! (hl - 1) = 0x80"
      | (def) "\<not> (CBS_len contents = hl \<and> is_eoc hl contents)"
          "\<not> (CBS_len contents = hl \<and> 0 < hl \<and> CBS_data contents ! (hl - 1) = 0x80)" by blast
    then show ?thesis
    proof cases
      case eoc
      then show ?thesis using adv by (simp add: unf)
    next
      case indef
      note unf = unf [unfolded if_not_P [OF indef(1)] if_P [OF indef(2)]]
      show ?thesis
      proof (cases "squash_child_headers inp' tag")
        case None
        then show ?thesis using adv by (simp add: unf)
      next
        case (Some squash)
        obtain ok1 out1 where o1: "ber_open sq out d (if squash then tag AND NOT CBS_ASN1_CONSTRUCTED else tag)
          = (ok1, out1)" by force
        obtain ok2 inp2 out2 where c: "cbs_convert_indefinite inp' out1 (if sq then d else d + 1) squash True
          (depth + 1) = (ok2, inp2, out2)" by (metis prod_cases3)
        obtain ok3 out3 where o3: "ber_close sq out2 d = (ok3, out3)" by force
        have "ok1 \<Longrightarrow> CBS_len inp2 \<le> CBS_len inp'"
          using IH(1) [OF indef Some o1 [symmetric]] c by simp
        moreover have "ok1 \<Longrightarrow> ok2 \<Longrightarrow> ok3 \<Longrightarrow>
            CBS_len (fst (snd (cbs_convert_indefinite inp2 out3 d sq eoc depth))) \<le> CBS_len inp2"
          using IH(2) [OF indef Some o1 [symmetric] _ c [symmetric] _ refl o3 [symmetric]] by simp
        ultimately show ?thesis
          using adv by (cases ok1; cases ok2; cases ok3;
            simp only: unf Some o1 c o3 split option.case bool.case fst_conv snd_conv) simp_all
      qed
    next
      case def
      note unf = unf [unfolded if_not_P [OF def(1)] if_not_P [OF def(2)]]
      obtain ok1 out1 where o1: "ber_open sq out d tag = (ok1, out1)" by force
      obtain u contents' where k: "CBS_skip contents hl = (u, contents')" by force
      obtain ok2 out2 where c: "(if tag AND CBS_ASN1_CONSTRUCTED \<noteq> 0 then
           (case cbs_convert_indefinite contents' out1 (if sq then d else d + 1) False False (depth + 1) of
              (ok, _, out2) \<Rightarrow> (ok, out2))
         else CBB_add_bytes out1 (if sq then d else d + 1) (CBS_data contents')) = (ok2, out2)" by force
      obtain ok3 out3 where o3: "ber_close sq out2 d = (ok3, out3)" by force
      have "ok1 \<Longrightarrow> u \<noteq> None \<Longrightarrow> ok2 \<Longrightarrow> ok3 \<Longrightarrow>
          CBS_len (fst (snd (cbs_convert_indefinite inp' out3 d sq eoc depth))) \<le> CBS_len inp'"
        using IH(4) [OF def o1 [symmetric] _ k [symmetric] _ c [symmetric] _ o3 [symmetric]] by auto
      then show ?thesis
        using adv by (cases ok1; cases ok2; cases ok3; cases u;
            simp only: unf o1 c o3 k split option.case bool.case fst_conv snd_conv) simp_all
    qed
  qed
qed


lemma convert_rest_len:
  "cbs_convert_indefinite_dom (inp, out, d, sq, eoc, depth) \<Longrightarrow>
   (ok, inp2, out2) = cbs_convert_indefinite inp out d sq eoc depth \<Longrightarrow> CBS_len inp2 \<le> CBS_len inp"
  using cbs_convert_indefinite_len [of inp out d sq eoc depth] by (metis fst_conv snd_conv)

termination cbs_convert_indefinite
  apply (relation "measure (\<lambda>(inp, out, d, sq, eoc, depth). CBS_len inp)")
  apply simp
  apply (auto dest!: nonstrict_element_bounds [OF sym])[1]
  apply (auto dest!: nonstrict_element_bounds [OF sym] convert_rest_len)[1]
  apply (auto dest!: nonstrict_element_bounds [OF sym] CBS_skip_Some [OF sym])[1]
  apply (auto dest!: nonstrict_element_bounds [OF sym] CBS_skip_Some [OF sym])[1]
  done

declare cbs_convert_indefinite.simps [simp del]


section \<open>The entry point\<close>

text \<open>\<open>None\<close> is the error return; \<open>Some None\<close> is success with \<open>*out = NULL\<close>, which says that no
  conversion was needed; \<open>Some (Some e)\<close> is success with the converted bytes. The second component is
  the input window after the call.\<close>

definition CBS_asn1_indefinite_to_definite ::
    "(nat \<Rightarrow> bool) \<Rightarrow> CBS \<Rightarrow> bytes option option \<times> CBS" where
  "CBS_asn1_indefinite_to_definite grant inp =
     (case cbs_find_indefinite inp 0 of
        None \<Rightarrow> (None, inp)
      | Some conversion_needed \<Rightarrow>
          if \<not> conversion_needed then (Some None, inp)
          else (case CBB_init grant (CBS_len inp) of
             (False, cbb) \<Rightarrow> (None, inp)
           | (True, cbb) \<Rightarrow>
               (case cbs_convert_indefinite inp cbb 0 False False 0 of
                  (False, inp', cbb') \<Rightarrow> (None, inp')
                | (True, inp', cbb') \<Rightarrow>
                    (map_option (\<lambda>(buf, len). Some (take len buf)) (fst (CBB_finish cbb' 0 True True)),
                     inp'))))"

end
