(* ===== verification/BER_Convert.thy ===== *)
theory BER_Convert
  imports Bytestring_BER
begin

text \<open>
  The correctness of the BER to DER conversion of \<^verbatim>\<open>ssl/bs_ber.c\<close>. \<open>ber\<close> is the abstract syntax of
  the input the converter understands, \<open>ber_enc\<close> its encoding and \<open>ber_der\<close> the DER encoding of the
  same value; the main lemma is a simulation between the recursion of the converter over the input
  and the structure of the value.
\<close>

section \<open>Values and their encodings\<close>

datatype ber =
    Prim u8 bytes
  | Constr u8 "ber list"
  | Indef u8 "ber list"
  | Frags u8 "(u8 \<times> bytes) list"

definition frags_enc :: "(u8 \<times> bytes) list \<Rightarrow> bytes" where
  "frags_enc fs = concat (map (\<lambda>(t, c). der_element t c) fs)"

fun ber_enc :: "ber \<Rightarrow> bytes" and bers_enc :: "ber list \<Rightarrow> bytes" where
  "ber_enc (Prim t c) = der_element t c"
| "ber_enc (Constr t bs) = der_element t (bers_enc bs)"
| "ber_enc (Indef t bs) = t # 0x80 # bers_enc bs @ [0, 0]"
| "ber_enc (Frags t fs) = t # 0x80 # frags_enc fs @ [0, 0]"
| "bers_enc [] = []"
| "bers_enc (b # bs) = ber_enc b @ bers_enc bs"

fun ber_der :: "ber \<Rightarrow> bytes" and bers_der :: "ber list \<Rightarrow> bytes" where
  "ber_der (Prim t c) = der_element t c"
| "ber_der (Constr t bs) = der_element t (bers_der bs)"
| "ber_der (Indef t bs) = der_element t (bers_der bs)"
| "ber_der (Frags t fs) = der_element (t AND NOT 0x20) (concat (map snd fs))"
| "bers_der [] = []"
| "bers_der (b # bs) = ber_der b @ bers_der bs"

text \<open>Well-formed values whose outermost elements are at nesting depth \<open>k\<close>: identifiers of one octet
  with the constructed bit where it belongs, no element that reads as an end-of-contents, contents of
  at most \<open>2 ^ 32 - 2\<close> bytes before and after, and at most \<open>kMaxDepth\<close> levels.\<close>

definition prim_ok :: "u8 \<Rightarrow> bytes \<Rightarrow> bool" where
  "prim_ok t c \<longleftrightarrow> t AND 0x1f \<noteq> 0x1f \<and> t AND 0x20 = 0 \<and> (t \<noteq> 0 \<or> c \<noteq> []) \<and> length c \<le> 0xfffffffe"

fun ber_ok :: "nat \<Rightarrow> ber \<Rightarrow> bool" and bers_ok :: "nat \<Rightarrow> ber list \<Rightarrow> bool" where
  "ber_ok k (Prim t c) = prim_ok t c"
| "ber_ok k (Constr t bs) =
     (t AND 0x1f \<noteq> 0x1f \<and> t AND 0x20 \<noteq> 0 \<and> length (bers_enc bs) \<le> 0xfffffffe
      \<and> length (bers_der bs) \<le> 0xfffffffe \<and> k < kMaxDepth \<and> bers_ok (Suc k) bs)"
| "ber_ok k (Indef t bs) =
     (t AND 0x1f \<noteq> 0x1f \<and> t AND 0x20 \<noteq> 0 \<and> \<not> is_primitive_type (ucast t) \<and> t AND 0xc0 \<noteq> 0x80
      \<and> length (bers_der bs) \<le> 0xfffffffe \<and> k < kMaxDepth \<and> bers_ok (Suc k) bs)"
| "ber_ok k (Frags t fs) =
     (t AND 0x1f \<noteq> 0x1f \<and> t AND 0x20 \<noteq> 0 \<and> is_primitive_type (ucast t)
      \<and> length (concat (map snd fs)) \<le> 0xfffffffe \<and> k < kMaxDepth \<and> list_all (\<lambda>(t, c). prim_ok t c) fs)"
| "bers_ok k [] = True"
| "bers_ok k (b # bs) = (ber_ok k b \<and> bers_ok k bs)"

fun ber_cost :: "ber \<Rightarrow> nat" and bers_cost :: "ber list \<Rightarrow> nat" where
  "ber_cost (Prim t c) = 6 + length c"
| "ber_cost (Constr t bs) = 6 + bers_cost bs"
| "ber_cost (Indef t bs) = 6 + bers_cost bs"
| "ber_cost (Frags t fs) = 6 + length (concat (map snd fs))"
| "bers_cost [] = 0"
| "bers_cost (b # bs) = ber_cost b + bers_cost bs"


section \<open>Reading an element\<close>

lemma ucast_and_eq_0: "(ucast (t :: u8) :: u32) AND 0x20 = 0 \<longleftrightarrow> t AND 0x20 = 0"
proof -
  have "(ucast t :: u32) AND 0x20 = ucast (t AND 0x20)" by (simp add: unsigned_and_eq)
  then show ?thesis by (metis ucast_u8_u32_inject unsigned_0)
qed

lemma ucast_and_c0: "(ucast (t :: u8) :: u32) AND 0xc0 = 0x80 \<longleftrightarrow> t AND 0xc0 = 0x80"
proof -
  have "(ucast t :: u32) AND 0xc0 = ucast (t AND 0xc0)" by (simp add: unsigned_and_eq)
  moreover have "(0x80 :: u32) = ucast (0x80 :: u8)" by simp
  ultimately show ?thesis by (metis ucast_u8_u32_inject)
qed

lemma ucast_and_not: "(ucast (t :: u8) :: u32) AND NOT 0x20 = ucast (t AND NOT 0x20)"
  by (rule bit_word_eqI) (auto simp: bit_simps dest: bit_imp_le_length)

lemma nonstrict_definite:
  assumes "cbs_data inp = der_element t c @ rest" and "t AND 0x1f \<noteq> 0x1f" and "length c \<le> 0xfffffffe"
  shows "cbs_nonstrict_get_any_asn1_element inp =
    (Some (CBS_init (der_element t c), ucast t, length (der_length (length c)) + 1), inp\<lparr>cbs_data := rest\<rparr>)"
  unfolding cbs_nonstrict_get_any_asn1_element_def asn1_element_Some_iff parsed_definite_def
  using assms by (intro disjI1 exI [of _ t] exI [of _ c] exI [of _ rest]) auto

lemma nonstrict_indefinite:
  assumes "cbs_data inp = t # 0x80 # rest" and "t AND 0x1f \<noteq> 0x1f" and "t AND 0x20 \<noteq> 0"
  shows "cbs_nonstrict_get_any_asn1_element inp =
    (Some (CBS_init [t, 0x80], ucast t, 2), inp\<lparr>cbs_data := rest\<rparr>)"
  unfolding cbs_nonstrict_get_any_asn1_element_def asn1_element_Some_iff parsed_indefinite_def
  using assms by auto

lemma nonstrict_eoc:
  assumes "cbs_data inp = 0 # 0 # rest"
  shows "cbs_nonstrict_get_any_asn1_element inp = (Some (CBS_init [0, 0], 0, 2), inp\<lparr>cbs_data := rest\<rparr>)"
  using nonstrict_definite [of inp 0 "[]" rest] assms by (simp add: der_element_def der_length_def)

lemma CBS_skip_header:
  "CBS_skip (CBS_init (der_element t c)) (length (der_length (length c)) + 1) =
     (Some (), (CBS_init (der_element t c))\<lparr>cbs_data := c\<rparr>)"
  by (simp add: CBS_skip_def cbs_get_def CBS_len_def CBS_init_def der_element_def)

text \<open>Neither of the two tests on an element without contents applies to a definite element, unless it
  is the end-of-contents.\<close>

lemma definite_not_eoc:
  assumes "t \<noteq> 0 \<or> c \<noteq> []"
  shows "\<not> (CBS_len (CBS_init (der_element t c)) = length (der_length (length c)) + 1
       \<and> is_eoc (length (der_length (length c)) + 1) (CBS_init (der_element t c)))"
  using assms by (auto simp: CBS_len_def CBS_init_def der_element_def is_eoc_def CBS_mem_equal_def)

lemma definite_not_indefinite:
  "\<not> (CBS_len (CBS_init (der_element t c)) = length (der_length (length c)) + 1
       \<and> 0 < length (der_length (length c)) + 1
       \<and> CBS_data (CBS_init (der_element t c)) ! (length (der_length (length c)) + 1 - 1) = 0x80)"
  by (auto simp: CBS_len_def CBS_init_def CBS_data_def der_element_def der_length_def)


section \<open>Writing an element\<close>

lemma CBB_flush_built:
  assumes "CBB_flush s d = (True, s')" and "cbb_wf s" and "d < length (cbb_frames s)"
  shows "built s d 0 (Some []) s'"
proof -
  from CBB_flush_True [OF assms] obtain b b' g where b: "cbb_base s = Some b" "level s d = Some (cbb_data b')"
    "s' = \<lparr>cbb_base = Some b', cbb_frames = take d (cbb_frames s) @ [g]\<rparr>" "cbb_wf s'" "same_owner b b'"
    "potential s' \<le> potential s" .
  then show ?thesis using assms(3) ample_same_owner by (auto simp: built_def level_def cbb_ample_def)
qed

lemma ber_open_room:
  assumes r: "room s d (6 + c)" and t: "t AND 0x1f \<noteq> 0x1f"
  obtains s1 where "ber_open False s d (ucast t) = (True, s1)" and "opened s d [t, 0] 1 True s1"
    and "room s1 (d + 1) c"
proof -
  have "(ucast t :: u32) AND 0x1f \<noteq> 0x1f" using t by (rule ucast_tag_number)
  moreover have "unat (ucast t :: u32) < 256" by simp
  ultimately obtain s1 where s1: "CBB_add_asn1 s d (ucast t) = (True, s1)"
    using CBB_add_asn1_room [of s d "ucast t"] room_mono [OF r, of 6] by auto
  have op: "opened s d [t, 0] 1 True s1"
    using CBB_add_asn1_opened [OF s1] r by (simp add: room_def)
  moreover have "room s1 (d + 1) c" using room_opened [OF op, of c] r by simp
  ultimately show thesis using that s1 by (simp add: ber_open_def)
qed

lemma ber_close_built:
  assumes op: "opened s d [t, 0] 1 True s1" and r: "room s d (6 + c)"
    and b: "built s1 (d + 1) c (Some e) s2" and e: "length e \<le> 0xfffffffe"
  obtains s3 where "ber_close False s2 d = (True, s3)" and "built s d (6 + c) (Some (der_element t e)) s3"
proof -
  have d: "d < length (cbb_frames s)" using r by (simp add: room_def)
  have b2: "built s d (6 + c) (Some (der_element t e)) s2"
    using built_nested [OF op d _ b] e by (simp add: der_element_def)
  then have "room s2 d 0" using room_built [of s d "6 + c" _ s2 0] r by simp
  then have w: "cbb_wf s2" "d < length (cbb_frames s2)" "level s2 d \<noteq> None" "cbb_ample s2"
    "potential s2 < SIZE_MOD" by (simp_all add: room_def)
  then obtain s3 where s3: "CBB_flush s2 d = (True, s3)" using CBB_flush_ample by blast
  from built_seq [OF b2, of 0 "Some []" s3] CBB_flush_built [OF s3 w(1,2)] w(3)
  have "built s d (6 + c) (Some (der_element t e)) s3" by simp
  then show thesis using that s3 by (simp add: ber_close_def)
qed

lemma add_bytes_built:
  assumes "room s d (length c)" and "length c \<le> 0xfffffffe"
  obtains s' where "CBB_add_bytes s d c = (True, s')" and "built s d (length c) (Some c) s'"
proof -
  obtain s' where s': "CBB_add_bytes s d c = (True, s')" using CBB_add_bytes_room assms(1) by blast
  have "appended s d c s'"
    using CBB_add_bytes_appended [OF s'] assms by (simp add: room_def)
  then show thesis using that [OF s'] appended_built assms(1) by (simp add: room_def)
qed


lemma built_trans:
  "built s d c (Some x) s1 \<Longrightarrow> built s1 d c' (Some y) s2 \<Longrightarrow> built s d (c + c') (Some (x @ y)) s2"
  by (auto simp: built_def)


section \<open>One step of the converter\<close>

text \<open>The converter on a definite element, on an element of indefinite length and on the end of the
  contents, as equations.\<close>

lemma convert_end:
  "depth \<le> kMaxDepth \<Longrightarrow> cbs_data inp = [] \<Longrightarrow>
     cbs_convert_indefinite inp out d sq eoc depth = (\<not> eoc, inp, out)"
  by (subst cbs_convert_indefinite.simps) (simp add: CBS_len_def)

lemma convert_eoc:
  "depth \<le> kMaxDepth \<Longrightarrow> cbs_data inp = 0 # 0 # rest \<Longrightarrow>
     cbs_convert_indefinite inp out d sq eoc depth = (eoc, inp\<lparr>cbs_data := rest\<rparr>, out)"
  by (subst cbs_convert_indefinite.simps)
    (simp add: nonstrict_eoc CBS_len_def CBS_init_def is_eoc_def CBS_mem_equal_def)

lemma convert_definite:
  assumes "depth \<le> kMaxDepth" and data: "cbs_data inp = der_element t c @ rest" and "t AND 0x1f \<noteq> 0x1f"
    and "length c \<le> 0xfffffffe" and "t \<noteq> 0 \<or> c \<noteq> []"
    and "ber_open sq out d (ucast t) = (True, out1)"
    and "(if t AND 0x20 = 0 then CBB_add_bytes out1 (if sq then d else d + 1) c
          else (case cbs_convert_indefinite ((CBS_init (der_element t c))\<lparr>cbs_data := c\<rparr>) out1
                 (if sq then d else d + 1) False False (depth + 1) of (ok, _, out2) \<Rightarrow> (ok, out2))) = (True, out2)"
    and "ber_close sq out2 d = (True, out3)"
  shows "cbs_convert_indefinite inp out d sq eoc depth =
    cbs_convert_indefinite (inp\<lparr>cbs_data := rest\<rparr>) out3 d sq eoc depth"
proof -
  have ne: "\<not> kMaxDepth < depth" "CBS_len inp \<noteq> 0"
    using assms(1) by (simp_all add: data CBS_len_def der_element_def)
  have "(if (ucast t :: u32) AND CBS_ASN1_CONSTRUCTED \<noteq> 0 then
          (case cbs_convert_indefinite ((CBS_init (der_element t c))\<lparr>cbs_data := c\<rparr>) out1
             (if sq then d else d + 1) False False (depth + 1) of (ok, _, out2) \<Rightarrow> (ok, out2))
         else CBB_add_bytes out1 (if sq then d else d + 1)
           (CBS_data ((CBS_init (der_element t c))\<lparr>cbs_data := c\<rparr>))) = (True, out2)"
    using assms(7) by (simp add: ucast_and_eq_0 CBS_data_def split: if_splits)
  then show ?thesis
    by (subst cbs_convert_indefinite.simps)
      (simp only: if_not_P [OF ne(1)] if_not_P [OF ne(2)] nonstrict_definite [OF data assms(3,4)] split
        option.case if_not_P [OF definite_not_eoc [OF assms(5)]] if_not_P [OF definite_not_indefinite]
        assms(6,8) CBS_skip_header Let_def bool.case)
qed

lemma convert_indefinite:
  assumes "depth \<le> kMaxDepth" and data: "cbs_data inp = t # 0x80 # rest" and "t AND 0x1f \<noteq> 0x1f"
    and "t AND 0x20 \<noteq> 0" and ctx: "t AND 0xc0 \<noteq> 0x80"
    and op: "ber_open False out d (ucast (if is_primitive_type (ucast t) then t AND NOT 0x20 else t)) = (True, out1)"
    and rec: "cbs_convert_indefinite (inp\<lparr>cbs_data := rest\<rparr>) out1 (d + 1) (is_primitive_type (ucast t)) True
       (depth + 1) = (True, inp2, out2)"
    and cl: "ber_close False out2 d = (True, out3)"
  shows "cbs_convert_indefinite inp out d False eoc depth = cbs_convert_indefinite inp2 out3 d False eoc depth"
proof -
  have ne: "\<not> kMaxDepth < depth" "CBS_len inp \<noteq> 0"
    "\<not> (CBS_len (CBS_init [t, 0x80]) = 2 \<and> is_eoc 2 (CBS_init [t, 0x80]))"
    using assms(1) by (simp_all add: data CBS_len_def is_eoc_def CBS_mem_equal_def)
  have ind: "CBS_len (CBS_init [t, 0x80]) = 2 \<and> 0 < (2::nat) \<and> CBS_data (CBS_init [t, 0x80]) ! (2 - 1) = 0x80"
    by (simp add: CBS_len_def CBS_data_def)
  have sq: "squash_child_headers (inp\<lparr>cbs_data := rest\<rparr>) (ucast t) = Some (is_primitive_type (ucast t))"
    using ctx by (simp add: squash_child_headers_def ucast_and_c0)
  have op': "ber_open False out d (if is_primitive_type (ucast t) then ucast t AND NOT CBS_ASN1_CONSTRUCTED
      else ucast t) = (True, out1)" using op
    by (cases "is_primitive_type (ucast t)") (simp_all only: if_True if_False ucast_and_not)
  show ?thesis
    by (subst cbs_convert_indefinite.simps)
      (simp only: if_not_P [OF ne(1)] if_not_P [OF ne(2)] nonstrict_indefinite [OF data assms(3,4)] split
        option.case if_not_P [OF ne(3)] if_P [OF ind] sq op' rec cl Let_def bool.case if_False)
qed


section \<open>The simulation\<close>

lemma prim_okD:
  assumes "prim_ok t c"
  shows "t AND 0x1f \<noteq> 0x1f" and "t AND 0x20 = 0" and "t \<noteq> 0 \<or> c \<noteq> []" and "length c \<le> 0xfffffffe"
  using assms by (simp_all add: prim_ok_def)

lemma convert_prim:
  assumes "prim_ok t c" and "k \<le> kMaxDepth" and "cbs_data inp = der_element t c @ rest"
    and r: "room out d (6 + length c)"
  shows "\<exists>out'. cbs_convert_indefinite inp out d False eoc k
      = cbs_convert_indefinite (inp\<lparr>cbs_data := rest\<rparr>) out' d False eoc k
    \<and> built out d (6 + length c) (Some (der_element t c)) out'"
proof -
  note p = prim_okD [OF assms(1)]
  from ber_open_room [OF r p(1)] obtain out1 where o1: "ber_open False out d (ucast t) = (True, out1)"
    "opened out d [t, 0] 1 True out1" "room out1 (d + 1) (length c)" .
  from add_bytes_built [OF o1(3) p(4)] obtain out2 where o2: "CBB_add_bytes out1 (d + 1) c = (True, out2)"
    "built out1 (d + 1) (length c) (Some c) out2" .
  from ber_close_built [OF o1(2) r o2(2) p(4)] obtain out3 where o3: "ber_close False out2 d = (True, out3)"
    "built out d (6 + length c) (Some (der_element t c)) out3" .
  have "cbs_convert_indefinite inp out d False eoc k
      = cbs_convert_indefinite (inp\<lparr>cbs_data := rest\<rparr>) out3 d False eoc k"
    using o2(1) p(2) by (intro convert_definite [OF assms(2,3) p(1,4,3) o1(1) _ o3(1)]) simp
  with o3(2) show ?thesis by blast
qed

lemma convert_frags:
  "list_all (\<lambda>(t, c). prim_ok t c) fs \<Longrightarrow> k \<le> kMaxDepth \<Longrightarrow> cbs_data inp = frags_enc fs @ 0 # 0 # rest \<Longrightarrow>
   room out d (length (concat (map snd fs))) \<Longrightarrow>
   \<exists>out'. cbs_convert_indefinite inp out d True True k = (True, inp\<lparr>cbs_data := rest\<rparr>, out')
     \<and> built out d (length (concat (map snd fs))) (Some (concat (map snd fs))) out'"
proof (induction fs arbitrary: inp out)
  case Nil
  then show ?case by (auto simp: convert_eoc frags_enc_def built_def room_def)
next
  case (Cons f fs)
  obtain t c where f: "f = (t, c)" by force
  let ?n = "length (concat (map snd fs))"
  have p: "prim_ok t c" and r: "room out d (length c + ?n)" using Cons.prems(1,4) by (simp_all add: f)
  note p = prim_okD [OF p]
  from add_bytes_built [OF room_mono [OF r] p(4)] obtain out2 where
    o2: "CBB_add_bytes out d c = (True, out2)" "built out d (length c) (Some c) out2" by auto
  let ?inp = "inp\<lparr>cbs_data := frags_enc fs @ 0 # 0 # rest\<rparr>"
  have "cbs_convert_indefinite inp out d True True k = cbs_convert_indefinite ?inp out2 d True True k"
    using o2(1) p(2) Cons.prems(3)
    by (intro convert_definite [OF Cons.prems(2) _ p(1,4,3)])
      (auto simp: ber_open_def ber_close_def f frags_enc_def)
  moreover from Cons.IH [of ?inp out2] obtain out' where
    o': "cbs_convert_indefinite ?inp out2 d True True k = (True, ?inp\<lparr>cbs_data := rest\<rparr>, out')"
    "built out2 d ?n (Some (concat (map snd fs))) out'"
    using Cons.prems(1,2) room_built [OF o2(2) r] by auto
  ultimately show ?case using built_trans [OF o2(2)] by (simp add: f)
qed

lemma convert_constr:
  assumes ok: "t AND 0x1f \<noteq> 0x1f" "t AND 0x20 \<noteq> 0" "length c \<le> 0xfffffffe" "length e \<le> 0xfffffffe"
    and k: "k \<le> kMaxDepth" and data: "cbs_data inp = der_element t c @ rest" and r: "room out d (6 + n)"
    and rec: "\<And>out1 inp. room out1 (d + 1) n \<Longrightarrow> cbs_data inp = c \<Longrightarrow>
      \<exists>out2. cbs_convert_indefinite inp out1 (d + 1) False False (Suc k) = (True, inp\<lparr>cbs_data := []\<rparr>, out2)
        \<and> built out1 (d + 1) n (Some e) out2"
  shows "\<exists>out'. cbs_convert_indefinite inp out d False eoc k
       = cbs_convert_indefinite (inp\<lparr>cbs_data := rest\<rparr>) out' d False eoc k
     \<and> built out d (6 + n) (Some (der_element t e)) out'"
proof -
  have t0: "t \<noteq> 0 \<or> c \<noteq> []" using ok(2) by auto
  from ber_open_room [OF r ok(1)] obtain out1 where o1: "ber_open False out d (ucast t) = (True, out1)"
    "opened out d [t, 0] 1 True out1" "room out1 (d + 1) n" .
  let ?in = "(CBS_init (der_element t c))\<lparr>cbs_data := c\<rparr>"
  obtain out2 where o2: "cbs_convert_indefinite ?in out1 (d + 1) False False (Suc k)
      = (True, ?in\<lparr>cbs_data := []\<rparr>, out2)" "built out1 (d + 1) n (Some e) out2"
    using rec [OF o1(3), of ?in] by auto
  from ber_close_built [OF o1(2) r o2(2) ok(4)] obtain out3 where o3: "ber_close False out2 d = (True, out3)"
    "built out d (6 + n) (Some (der_element t e)) out3" .
  have "cbs_convert_indefinite inp out d False eoc k
      = cbs_convert_indefinite (inp\<lparr>cbs_data := rest\<rparr>) out3 d False eoc k"
    using o2(1) ok(2) by (intro convert_definite [OF k data ok(1,3) t0 o1(1) _ o3(1)]) simp
  with o3(2) show ?thesis by blast
qed

lemma convert_indef:
  assumes ok: "t AND 0x1f \<noteq> 0x1f" "t AND 0x20 \<noteq> 0" "t AND 0xc0 \<noteq> 0x80" "length e \<le> 0xfffffffe"
    and k: "k \<le> kMaxDepth" and data: "cbs_data inp = t # 0x80 # c @ 0 # 0 # rest"
    and u: "u = (if is_primitive_type (ucast t) then t AND NOT 0x20 else t)" "u AND 0x1f \<noteq> 0x1f"
    and r: "room out d (6 + n)"
    and rec: "\<And>out1 inp. room out1 (d + 1) n \<Longrightarrow> cbs_data inp = c @ 0 # 0 # rest \<Longrightarrow>
      \<exists>out2. cbs_convert_indefinite inp out1 (d + 1) (is_primitive_type (ucast t)) True (Suc k)
          = (True, inp\<lparr>cbs_data := rest\<rparr>, out2)
        \<and> built out1 (d + 1) n (Some e) out2"
  shows "\<exists>out'. cbs_convert_indefinite inp out d False eoc k
       = cbs_convert_indefinite (inp\<lparr>cbs_data := rest\<rparr>) out' d False eoc k
     \<and> built out d (6 + n) (Some (der_element u e)) out'"
proof -
  from ber_open_room [OF r u(2)] obtain out1 where o1: "ber_open False out d (ucast u) = (True, out1)"
    "opened out d [u, 0] 1 True out1" "room out1 (d + 1) n" .
  let ?in = "inp\<lparr>cbs_data := c @ 0 # 0 # rest\<rparr>"
  obtain out2 where o2: "cbs_convert_indefinite ?in out1 (d + 1) (is_primitive_type (ucast t)) True (Suc k)
      = (True, ?in\<lparr>cbs_data := rest\<rparr>, out2)" "built out1 (d + 1) n (Some e) out2"
    using rec [OF o1(3), of ?in] by auto
  from ber_close_built [OF o1(2) r o2(2) ok(4)] obtain out3 where o3: "ber_close False out2 d = (True, out3)"
    "built out d (6 + n) (Some (der_element u e)) out3" .
  have "cbs_convert_indefinite inp out d False eoc k
      = cbs_convert_indefinite (inp\<lparr>cbs_data := rest\<rparr>) out3 d False eoc k"
    using o2(1) o1(1) by (intro convert_indefinite [OF k data ok(1,2,3) _ _ o3(1)]) (simp_all only: u(1), simp)
  with o3(2) show ?thesis by blast
qed

lemma convert_bers:
  "ber_ok k b \<Longrightarrow> k \<le> kMaxDepth \<Longrightarrow> cbs_data inp = ber_enc b @ rest \<Longrightarrow> room out d (ber_cost b) \<Longrightarrow>
   \<exists>out'. cbs_convert_indefinite inp out d False eoc k
       = cbs_convert_indefinite (inp\<lparr>cbs_data := rest\<rparr>) out' d False eoc k
     \<and> built out d (ber_cost b) (Some (ber_der b)) out'"
  "bers_ok k bs \<Longrightarrow> k \<le> kMaxDepth \<Longrightarrow> cbs_data inp = bers_enc bs @ (if eoc then 0 # 0 # rest else []) \<Longrightarrow>
   (eoc \<or> rest = []) \<Longrightarrow> room out d (bers_cost bs) \<Longrightarrow>
   \<exists>out'. cbs_convert_indefinite inp out d False eoc k = (True, inp\<lparr>cbs_data := rest\<rparr>, out')
     \<and> built out d (bers_cost bs) (Some (bers_der bs)) out'"
proof (induction b and bs arbitrary: k inp out d eoc rest and k inp out d eoc rest
    rule: ber_der_bers_der.induct)
  case (1 t c)
  then show ?case using convert_prim [of t c k inp rest out d eoc] by simp
next
  case (2 t bs)
  have "\<exists>out2. cbs_convert_indefinite inp out1 (d + 1) False False (Suc k) = (True, inp\<lparr>cbs_data := []\<rparr>, out2)
      \<and> built out1 (d + 1) (bers_cost bs) (Some (bers_der bs)) out2"
    if "room out1 (d + 1) (bers_cost bs)" "cbs_data inp = bers_enc bs" for out1 inp
    using 2(1) [of "Suc k" inp False "[]" out1 "d + 1"] 2(2) that by simp
  then show ?case using convert_constr [of t "bers_enc bs" "bers_der bs" k inp rest out d] 2(2-5) by simp
next
  case (3 t bs)
  have "\<exists>out2. cbs_convert_indefinite inp out1 (d + 1) False True (Suc k) = (True, inp\<lparr>cbs_data := rest\<rparr>, out2)
      \<and> built out1 (d + 1) (bers_cost bs) (Some (bers_der bs)) out2"
    if "room out1 (d + 1) (bers_cost bs)" "cbs_data inp = bers_enc bs @ 0 # 0 # rest" for out1 inp
    using 3(1) [of "Suc k" inp True rest out1 "d + 1"] 3(2) that by simp
  then show ?case using convert_indef [of t "bers_der bs" k inp "bers_enc bs" rest t out d] 3(2-5) by simp
next
  case (4 t fs)
  have u: "t AND 0xc0 \<noteq> 0x80" using 4(1) ucast_and_c0 [of t] by (auto simp: is_primitive_type_def)
  have t': "(t AND NOT 0x20) AND 0x1f \<noteq> 0x1f" using 4(1) by (simp add: and.assoc)
  show ?case using convert_indef [OF _ _ u, of _ k inp "frags_enc fs" rest "t AND NOT 0x20" out d
        "length (concat (map snd fs))" eoc] convert_frags [of fs "Suc k" _ rest _ "d + 1"] 4 t' by simp
next
  case 5
  then show ?case by (cases eoc) (auto simp: convert_eoc convert_end built_def room_def)
next
  case (6 b bs)
  let ?tl = "bers_enc bs @ (if eoc then 0 # 0 # rest else [])"
  have r: "room out d (ber_cost b + bers_cost bs)" using 6(7) by simp
  obtain out1 where o1: "cbs_convert_indefinite inp out d False eoc k
      = cbs_convert_indefinite (inp\<lparr>cbs_data := ?tl\<rparr>) out1 d False eoc k"
    "built out d (ber_cost b) (Some (ber_der b)) out1"
    using 6(1) [of k inp ?tl out d eoc] 6(3-5) room_mono [OF r, of "ber_cost b"] by auto
  obtain out' where o2: "cbs_convert_indefinite (inp\<lparr>cbs_data := ?tl\<rparr>) out1 d False eoc k
      = (True, inp\<lparr>cbs_data := rest\<rparr>, out')"
    "built out1 d (bers_cost bs) (Some (bers_der bs)) out'"
    using 6(2) [of k "inp\<lparr>cbs_data := ?tl\<rparr>" eoc rest out1 d] 6(3,4,6) room_built [OF o1(2) r] by auto
  then show ?case using built_trans [OF o1(2)] o1(1) by simp
qed


section \<open>The scan\<close>

text \<open>The elements the scan notices: those of indefinite length in the sequence it walks.\<close>

fun indefinite :: "ber \<Rightarrow> bool" where
  "indefinite (Prim t c) = False"
| "indefinite (Constr t bs) = False"
| "indefinite (Indef t bs) = True"
| "indefinite (Frags t fs) = True"

lemma find_loop_definite:
  assumes data: "cbs_data inp = der_element t c @ rest" and "t AND 0x1f \<noteq> 0x1f" and "length c \<le> 0xfffffffe"
    and rec: "t AND 0x20 \<noteq> 0 \<Longrightarrow> \<exists>f. cbs_find_indefinite ((CBS_init (der_element t c))\<lparr>cbs_data := c\<rparr>) (k + 1) = Some f"
  shows "find_loop inp k = find_loop (inp\<lparr>cbs_data := rest\<rparr>) k"
proof -
  have ne: "CBS_len inp \<noteq> 0" by (simp add: data CBS_len_def der_element_def)
  have "t AND 0x20 = 0 \<or> (\<exists>f. cbs_find_indefinite ((CBS_init (der_element t c))\<lparr>cbs_data := c\<rparr>) (k + 1) = Some f)"
    using rec by blast
  then show ?thesis
    by (subst find_loop.simps)
      (auto simp only: if_not_P [OF ne] nonstrict_definite [OF data assms(2,3)] split option.case
        if_not_P [OF definite_not_indefinite] CBS_skip_header ucast_and_eq_0 simp_thms if_True if_False if_cancel)
qed

lemma find_loop_indefinite:
  assumes data: "cbs_data inp = t # 0x80 # rest" and "t AND 0x1f \<noteq> 0x1f" and "t AND 0x20 \<noteq> 0"
  shows "find_loop inp k = Some True"
  by (subst find_loop.simps)
    (simp add: nonstrict_indefinite [OF assms] data CBS_len_def CBS_data_def CBS_init_def)

lemma find_bers:
  "ber_ok k b \<Longrightarrow> k \<le> kMaxDepth \<Longrightarrow> cbs_data inp = ber_enc b @ rest \<Longrightarrow>
     find_loop inp k = (if indefinite b then Some True else find_loop (inp\<lparr>cbs_data := rest\<rparr>) k)"
  "bers_ok k bs \<Longrightarrow> k \<le> kMaxDepth \<Longrightarrow> cbs_data inp = bers_enc bs \<Longrightarrow>
     find_loop inp k = Some (list_ex indefinite bs)"
proof (induction b and bs arbitrary: k inp rest and k inp rule: ber_der_bers_der.induct)
  case (1 t c)
  then show ?case using prim_okD [of t c] by (simp add: find_loop_definite [of inp t c rest])
next
  case (2 t bs)
  have "cbs_find_indefinite ((CBS_init (der_element t (bers_enc bs)))\<lparr>cbs_data := bers_enc bs\<rparr>) (k + 1)
      = Some (list_ex indefinite bs)"
    using 2(1) [of "Suc k"] 2(2) by (simp add: cbs_find_indefinite.simps CBS_data_def)
  then show ?case using 2(2-4) by (simp add: find_loop_definite [of inp t "bers_enc bs" rest])
next
  case (3 t bs)
  then show ?case by (simp add: find_loop_indefinite [of inp t])
next
  case (4 t fs)
  then show ?case by (simp add: find_loop_indefinite [of inp t])
next
  case 5
  then show ?case by (simp add: find_loop.simps CBS_len_def)
next
  case (6 b bs)
  then show ?case using 6(1) [of k inp "bers_enc bs"] 6(2) [of k "inp\<lparr>cbs_data := bers_enc bs\<rparr>"] by simp
qed


section \<open>Properties\<close>

lemma length_der_element_less:
  "length c \<le> 0xfffffffe \<Longrightarrow> length (der_element t c) < SIZE_MOD"
  by (simp add: der_element_def der_length_def add_le_less_mono der_len_octets_def)

lemma indefinite_to_definite_run:
  assumes "bers_ok 0 bs" and "cbs_data inp = bers_enc bs" and "bers_cost bs < SIZE_MOD"
    and "length (bers_enc bs) < SIZE_MOD" and "\<forall>n. grant n"
  shows "CBS_asn1_indefinite_to_definite grant inp =
    (if list_ex indefinite bs then (Some (Some (bers_der bs)), inp\<lparr>cbs_data := []\<rparr>) else (Some None, inp))"
proof (cases "list_ex indefinite bs")
  case False
  then show ?thesis using assms find_bers(2) [of 0 bs]
    by (simp add: CBS_asn1_indefinite_to_definite_def cbs_find_indefinite.simps CBS_data_def)
next
  case True
  have f: "cbs_find_indefinite inp 0 = Some True"
    using assms True find_bers(2) [of 0 bs] by (simp add: cbs_find_indefinite.simps CBS_data_def)
  obtain s0 where s0: "CBB_init grant (CBS_len inp) = (True, s0)"
    using assms(5) by (auto simp: CBB_init_def cbb_init_def Let_def)
  have cap: "CBS_len inp < SIZE_MOD" using assms(2,4) by (simp add: CBS_len_def)
  note i = CBB_init_True [OF s0 cap]
  have "room s0 0 (bers_cost bs)" using i assms(3,5) by (simp add: room_def)
  then obtain s1 where s1: "cbs_convert_indefinite inp s0 0 False False 0 = (True, inp\<lparr>cbs_data := []\<rparr>, s1)"
    "built s0 0 (bers_cost bs) (Some (bers_der bs)) s1"
    using convert_bers(2) [of 0 bs inp False "[]" s0 0] assms(1,2) by auto
  have l: "level s1 0 = Some (bers_der bs)" "cbb_wf s1" using s1(2) i(2) by (auto simp: built_def)
  have "room s1 0 0" using room_built [OF s1(2), of 0] \<open>room s0 0 (bers_cost bs)\<close> by simp
  then obtain s2 b2 where "CBB_flush s1 0 = (True, s2)" "cbb_base s2 = Some b2"
    using CBB_flush_ample [of s1 0] CBB_flush_True [of s1 0] by (auto simp: room_def) (metis CBB.select_convs(1))
  then have "fst (CBB_finish s1 0 True True) = Some (cbb_buf b2, cbb_len b2)" by (simp add: CBB_finish_def)
  then show ?thesis using CBB_finish_Some [OF _ l(2)] l(1) f s0 s1(1) True
    by (simp add: CBS_asn1_indefinite_to_definite_def)
qed

text \<open>C28. The conversion is correct: for the encoding of any sequence of well-formed values, in which
  elements of definite and of indefinite length nest to any admitted depth and strings of indefinite
  length are sequences of fragments, if an element of the sequence itself has indefinite length the
  result is the DER encoding of the same values and all input is consumed; otherwise the call reports
  that no conversion is needed and leaves the input alone. The allocator serves every request, and
  context-specific elements of indefinite length, whose fragments are recognised heuristically, are
  outside the statement.\<close>

theorem indefinite_to_definite_correct:
  assumes "bers_ok 0 bs" and "cbs_data inp = bers_enc bs" and "bers_cost bs < SIZE_MOD"
    and "length (bers_enc bs) < SIZE_MOD" and "\<forall>n. grant n"
  shows "CBS_asn1_indefinite_to_definite grant inp =
    (if list_ex indefinite bs then (Some (Some (bers_der bs)), inp\<lparr>cbs_data := []\<rparr>) else (Some None, inp))"
  using assms by (rule indefinite_to_definite_run)

lemma indefinite_to_definite_correct_witness:
  "CBS_asn1_indefinite_to_definite (\<lambda>_. True)
      (CBS_init (bers_enc [Indef 0x30 [Prim 2 [5], Frags 0x24 [(4, [7]), (4, [8, 9])]]]))
    = (Some (Some [0x30, 8, 2, 1, 5, 4, 3, 7, 8, 9]), \<lparr>cbs_data = [], cbs_initial_len = 18\<rparr>)"
  using indefinite_to_definite_correct [of "[Indef 0x30 [Prim 2 [5], Frags 0x24 [(4, [7]), (4, [8, 9])]]]"
      "CBS_init (bers_enc [Indef 0x30 [Prim 2 [5], Frags 0x24 [(4, [7]), (4, [8, 9])]]])" "\<lambda>_. True"]
  by (simp add: prim_ok_def is_primitive_type_def CBS_init_def frags_enc_def der_element_def der_length_def)

text \<open>C29. An element of indefinite length is missed when it is nested: every value of indefinite length
  that the entry point converts when it stands alone is reported as needing no conversion when it is
  the content of a SEQUENCE of definite length, because the outer walk of the scan overwrites what the
  nested walk stored.\<close>

theorem nested_indefinite_missed:
  assumes "ber_ok 0 b" and "ber_ok 1 b" and "indefinite b" and "length (ber_enc b) \<le> 0xfffffffe"
    and "length (ber_der b) \<le> 0xfffffffe" and "ber_cost b < SIZE_MOD - 6" and "\<forall>n. grant n"
  shows "fst (CBS_asn1_indefinite_to_definite grant (CBS_init (ber_enc b))) = Some (Some (ber_der b))
    \<and> CBS_asn1_indefinite_to_definite grant (CBS_init (der_element 0x30 (ber_enc b)))
      = (Some None, CBS_init (der_element 0x30 (ber_enc b)))"
proof
  let ?i = "CBS_init (ber_enc b)"
  show "fst (CBS_asn1_indefinite_to_definite grant ?i) = Some (Some (ber_der b))"
    using indefinite_to_definite_run [of "[b]" ?i grant] assms by simp
  let ?o = "CBS_init (der_element 0x30 (ber_enc b))"
  show "CBS_asn1_indefinite_to_definite grant ?o = (Some None, ?o)"
    using indefinite_to_definite_run [of "[Constr 0x30 [b]]" ?o grant] assms
    by (simp add: length_der_element_less)
qed

lemma nested_indefinite_missed_witness:
  "CBS_asn1_indefinite_to_definite (\<lambda>_. True) (CBS_init [0x30, 4, 0x30, 0x80, 0, 0])
     = (Some None, CBS_init [0x30, 4, 0x30, 0x80, 0, 0])"
  using nested_indefinite_missed [of "Indef 0x30 []" "\<lambda>_. True"]
  by (simp add: is_primitive_type_def der_element_def der_length_def)

end
