(* ===== verification/Ssl_Methods.thy ===== *)
theory Ssl_Methods
  imports Prelude
begin

text \<open>
  The protocol methods of \<^verbatim>\<open>ssl/ssl_methods.c\<close>: the constant tables that say which versions a method
  speaks and which functions implement it, the functions that return them, and \<open>ssl_get_method\<close>.
  Function pointers are values of the enumeration \<open>ssl_function\<close>; the two feature macros
  \<open>LIBRESSL_HAS_TLS1_3_CLIENT\<close> and \<open>LIBRESSL_HAS_TLS1_3_SERVER\<close> are defined by \<^verbatim>\<open>ssl/ssl_locl.h\<close>.
\<close>

section \<open>Version numbers\<close>

abbreviation (input) TLS1_VERSION :: u16 where "TLS1_VERSION \<equiv> 0x0301"
abbreviation (input) TLS1_1_VERSION :: u16 where "TLS1_1_VERSION \<equiv> 0x0302"
abbreviation (input) TLS1_2_VERSION :: u16 where "TLS1_2_VERSION \<equiv> 0x0303"
abbreviation (input) TLS1_3_VERSION :: u16 where "TLS1_3_VERSION \<equiv> 0x0304"
abbreviation (input) DTLS1_VERSION :: u16 where "DTLS1_VERSION \<equiv> 0xFEFF"
abbreviation (input) DTLS1_2_VERSION :: u16 where "DTLS1_2_VERSION \<equiv> 0xFEFD"

abbreviation (input) TLSV1_ENC_FLAGS :: u32 where "TLSV1_ENC_FLAGS \<equiv> 0"
abbreviation (input) TLSV1_1_ENC_FLAGS :: u32 where "TLSV1_1_ENC_FLAGS \<equiv> 0"
abbreviation (input) TLSV1_2_ENC_FLAGS :: u32 where "TLSV1_2_ENC_FLAGS \<equiv> 0x16"
abbreviation (input) TLSV1_3_ENC_FLAGS :: u32 where "TLSV1_3_ENC_FLAGS \<equiv> 0x22"

section \<open>Methods\<close>

datatype ssl_function =
    F_dtls1_new | F_dtls1_clear | F_dtls1_free | F_ssl3_accept
  | F_ssl3_connect | F_ssl3_shutdown | F_ssl3_renegotiate | F_ssl3_renegotiate_check
  | F_ssl3_pending | F_dtls1_read_bytes | F_dtls1_write_app_data_bytes | F_dtls1_dispatch_alert
  | F_ssl3_num_ciphers | F_dtls1_get_cipher | F_ssl3_get_cipher_by_char | F_ssl3_put_cipher_by_char
  | F_ssl_undefined_function | F_tls1_new | F_tls1_clear | F_tls1_free
  | F_tls13_legacy_accept | F_tls13_legacy_connect | F_tls13_legacy_shutdown | F_ssl_ok
  | F_tls13_legacy_pending | F_tls13_legacy_read_bytes | F_tls13_legacy_write_bytes | F_ssl3_dispatch_alert
  | F_ssl3_get_cipher | F_ssl3_read_bytes | F_ssl3_write_bytes

record SSL_METHOD_INTERNAL =
  meth_dtls :: bool
  meth_server :: bool
  meth_version :: u16
  meth_min_tls_version :: u16
  meth_max_tls_version :: u16
  meth_ssl_new :: ssl_function
  meth_ssl_clear :: ssl_function
  meth_ssl_free :: ssl_function
  meth_ssl_accept :: ssl_function
  meth_ssl_connect :: ssl_function
  meth_ssl_shutdown :: ssl_function
  meth_ssl_renegotiate :: ssl_function
  meth_ssl_renegotiate_check :: ssl_function
  meth_ssl_pending :: ssl_function
  meth_ssl_read_bytes :: ssl_function
  meth_ssl_write_bytes :: ssl_function
  meth_enc_flags :: u32

record SSL_METHOD =
  meth_ssl_dispatch_alert :: ssl_function
  meth_num_ciphers :: ssl_function
  meth_get_cipher :: ssl_function
  meth_get_cipher_by_char :: ssl_function
  meth_put_cipher_by_char :: ssl_function
  meth_internal :: SSL_METHOD_INTERNAL

named_theorems method_defs \<open>the method tables and the functions that return them\<close>

definition DTLS_method_internal_data :: SSL_METHOD_INTERNAL where [method_defs]:
  "DTLS_method_internal_data =
     \<lparr>meth_dtls = True, meth_server = True, meth_version = DTLS1_2_VERSION,
      meth_min_tls_version = TLS1_1_VERSION, meth_max_tls_version = TLS1_2_VERSION, meth_ssl_new = F_dtls1_new,
      meth_ssl_clear = F_dtls1_clear, meth_ssl_free = F_dtls1_free, meth_ssl_accept = F_ssl3_accept,
      meth_ssl_connect = F_ssl3_connect, meth_ssl_shutdown = F_ssl3_shutdown, meth_ssl_renegotiate = F_ssl3_renegotiate,
      meth_ssl_renegotiate_check = F_ssl3_renegotiate_check, meth_ssl_pending = F_ssl3_pending, meth_ssl_read_bytes = F_dtls1_read_bytes,
      meth_ssl_write_bytes = F_dtls1_write_app_data_bytes, meth_enc_flags = TLSV1_2_ENC_FLAGS\<rparr>"

definition DTLS_method_data :: SSL_METHOD where [method_defs]:
  "DTLS_method_data =
     \<lparr>meth_ssl_dispatch_alert = F_dtls1_dispatch_alert, meth_num_ciphers = F_ssl3_num_ciphers, meth_get_cipher = F_dtls1_get_cipher,
      meth_get_cipher_by_char = F_ssl3_get_cipher_by_char, meth_put_cipher_by_char = F_ssl3_put_cipher_by_char, meth_internal = DTLS_method_internal_data\<rparr>"

definition DTLS_client_method_internal_data :: SSL_METHOD_INTERNAL where [method_defs]:
  "DTLS_client_method_internal_data =
     \<lparr>meth_dtls = True, meth_server = False, meth_version = DTLS1_2_VERSION,
      meth_min_tls_version = TLS1_1_VERSION, meth_max_tls_version = TLS1_2_VERSION, meth_ssl_new = F_dtls1_new,
      meth_ssl_clear = F_dtls1_clear, meth_ssl_free = F_dtls1_free, meth_ssl_accept = F_ssl_undefined_function,
      meth_ssl_connect = F_ssl3_connect, meth_ssl_shutdown = F_ssl3_shutdown, meth_ssl_renegotiate = F_ssl3_renegotiate,
      meth_ssl_renegotiate_check = F_ssl3_renegotiate_check, meth_ssl_pending = F_ssl3_pending, meth_ssl_read_bytes = F_dtls1_read_bytes,
      meth_ssl_write_bytes = F_dtls1_write_app_data_bytes, meth_enc_flags = TLSV1_2_ENC_FLAGS\<rparr>"

definition DTLS_client_method_data :: SSL_METHOD where [method_defs]:
  "DTLS_client_method_data =
     \<lparr>meth_ssl_dispatch_alert = F_dtls1_dispatch_alert, meth_num_ciphers = F_ssl3_num_ciphers, meth_get_cipher = F_dtls1_get_cipher,
      meth_get_cipher_by_char = F_ssl3_get_cipher_by_char, meth_put_cipher_by_char = F_ssl3_put_cipher_by_char, meth_internal = DTLS_client_method_internal_data\<rparr>"

definition DTLSv1_method_internal_data :: SSL_METHOD_INTERNAL where [method_defs]:
  "DTLSv1_method_internal_data =
     \<lparr>meth_dtls = True, meth_server = True, meth_version = DTLS1_VERSION,
      meth_min_tls_version = TLS1_1_VERSION, meth_max_tls_version = TLS1_1_VERSION, meth_ssl_new = F_dtls1_new,
      meth_ssl_clear = F_dtls1_clear, meth_ssl_free = F_dtls1_free, meth_ssl_accept = F_ssl3_accept,
      meth_ssl_connect = F_ssl3_connect, meth_ssl_shutdown = F_ssl3_shutdown, meth_ssl_renegotiate = F_ssl3_renegotiate,
      meth_ssl_renegotiate_check = F_ssl3_renegotiate_check, meth_ssl_pending = F_ssl3_pending, meth_ssl_read_bytes = F_dtls1_read_bytes,
      meth_ssl_write_bytes = F_dtls1_write_app_data_bytes, meth_enc_flags = TLSV1_1_ENC_FLAGS\<rparr>"

definition DTLSv1_method_data :: SSL_METHOD where [method_defs]:
  "DTLSv1_method_data =
     \<lparr>meth_ssl_dispatch_alert = F_dtls1_dispatch_alert, meth_num_ciphers = F_ssl3_num_ciphers, meth_get_cipher = F_dtls1_get_cipher,
      meth_get_cipher_by_char = F_ssl3_get_cipher_by_char, meth_put_cipher_by_char = F_ssl3_put_cipher_by_char, meth_internal = DTLSv1_method_internal_data\<rparr>"

definition DTLSv1_client_method_internal_data :: SSL_METHOD_INTERNAL where [method_defs]:
  "DTLSv1_client_method_internal_data =
     \<lparr>meth_dtls = True, meth_server = False, meth_version = DTLS1_VERSION,
      meth_min_tls_version = TLS1_1_VERSION, meth_max_tls_version = TLS1_1_VERSION, meth_ssl_new = F_dtls1_new,
      meth_ssl_clear = F_dtls1_clear, meth_ssl_free = F_dtls1_free, meth_ssl_accept = F_ssl_undefined_function,
      meth_ssl_connect = F_ssl3_connect, meth_ssl_shutdown = F_ssl3_shutdown, meth_ssl_renegotiate = F_ssl3_renegotiate,
      meth_ssl_renegotiate_check = F_ssl3_renegotiate_check, meth_ssl_pending = F_ssl3_pending, meth_ssl_read_bytes = F_dtls1_read_bytes,
      meth_ssl_write_bytes = F_dtls1_write_app_data_bytes, meth_enc_flags = TLSV1_1_ENC_FLAGS\<rparr>"

definition DTLSv1_client_method_data :: SSL_METHOD where [method_defs]:
  "DTLSv1_client_method_data =
     \<lparr>meth_ssl_dispatch_alert = F_dtls1_dispatch_alert, meth_num_ciphers = F_ssl3_num_ciphers, meth_get_cipher = F_dtls1_get_cipher,
      meth_get_cipher_by_char = F_ssl3_get_cipher_by_char, meth_put_cipher_by_char = F_ssl3_put_cipher_by_char, meth_internal = DTLSv1_client_method_internal_data\<rparr>"

definition DTLSv1_2_method_internal_data :: SSL_METHOD_INTERNAL where [method_defs]:
  "DTLSv1_2_method_internal_data =
     \<lparr>meth_dtls = True, meth_server = True, meth_version = DTLS1_2_VERSION,
      meth_min_tls_version = TLS1_2_VERSION, meth_max_tls_version = TLS1_2_VERSION, meth_ssl_new = F_dtls1_new,
      meth_ssl_clear = F_dtls1_clear, meth_ssl_free = F_dtls1_free, meth_ssl_accept = F_ssl3_accept,
      meth_ssl_connect = F_ssl3_connect, meth_ssl_shutdown = F_ssl3_shutdown, meth_ssl_renegotiate = F_ssl3_renegotiate,
      meth_ssl_renegotiate_check = F_ssl3_renegotiate_check, meth_ssl_pending = F_ssl3_pending, meth_ssl_read_bytes = F_dtls1_read_bytes,
      meth_ssl_write_bytes = F_dtls1_write_app_data_bytes, meth_enc_flags = TLSV1_2_ENC_FLAGS\<rparr>"

definition DTLSv1_2_method_data :: SSL_METHOD where [method_defs]:
  "DTLSv1_2_method_data =
     \<lparr>meth_ssl_dispatch_alert = F_dtls1_dispatch_alert, meth_num_ciphers = F_ssl3_num_ciphers, meth_get_cipher = F_dtls1_get_cipher,
      meth_get_cipher_by_char = F_ssl3_get_cipher_by_char, meth_put_cipher_by_char = F_ssl3_put_cipher_by_char, meth_internal = DTLSv1_2_method_internal_data\<rparr>"

definition DTLSv1_2_client_method_internal_data :: SSL_METHOD_INTERNAL where [method_defs]:
  "DTLSv1_2_client_method_internal_data =
     \<lparr>meth_dtls = True, meth_server = False, meth_version = DTLS1_2_VERSION,
      meth_min_tls_version = TLS1_2_VERSION, meth_max_tls_version = TLS1_2_VERSION, meth_ssl_new = F_dtls1_new,
      meth_ssl_clear = F_dtls1_clear, meth_ssl_free = F_dtls1_free, meth_ssl_accept = F_ssl_undefined_function,
      meth_ssl_connect = F_ssl3_connect, meth_ssl_shutdown = F_ssl3_shutdown, meth_ssl_renegotiate = F_ssl3_renegotiate,
      meth_ssl_renegotiate_check = F_ssl3_renegotiate_check, meth_ssl_pending = F_ssl3_pending, meth_ssl_read_bytes = F_dtls1_read_bytes,
      meth_ssl_write_bytes = F_dtls1_write_app_data_bytes, meth_enc_flags = TLSV1_2_ENC_FLAGS\<rparr>"

definition DTLSv1_2_client_method_data :: SSL_METHOD where [method_defs]:
  "DTLSv1_2_client_method_data =
     \<lparr>meth_ssl_dispatch_alert = F_dtls1_dispatch_alert, meth_num_ciphers = F_ssl3_num_ciphers, meth_get_cipher = F_dtls1_get_cipher,
      meth_get_cipher_by_char = F_ssl3_get_cipher_by_char, meth_put_cipher_by_char = F_ssl3_put_cipher_by_char, meth_internal = DTLSv1_2_client_method_internal_data\<rparr>"

definition TLS_method_internal_data :: SSL_METHOD_INTERNAL where [method_defs]:
  "TLS_method_internal_data =
     \<lparr>meth_dtls = False, meth_server = True, meth_version = TLS1_3_VERSION,
      meth_min_tls_version = TLS1_VERSION, meth_max_tls_version = TLS1_3_VERSION, meth_ssl_new = F_tls1_new,
      meth_ssl_clear = F_tls1_clear, meth_ssl_free = F_tls1_free, meth_ssl_accept = F_tls13_legacy_accept,
      meth_ssl_connect = F_tls13_legacy_connect, meth_ssl_shutdown = F_tls13_legacy_shutdown, meth_ssl_renegotiate = F_ssl_undefined_function,
      meth_ssl_renegotiate_check = F_ssl_ok, meth_ssl_pending = F_tls13_legacy_pending, meth_ssl_read_bytes = F_tls13_legacy_read_bytes,
      meth_ssl_write_bytes = F_tls13_legacy_write_bytes, meth_enc_flags = TLSV1_3_ENC_FLAGS\<rparr>"

definition TLS_method_data :: SSL_METHOD where [method_defs]:
  "TLS_method_data =
     \<lparr>meth_ssl_dispatch_alert = F_ssl3_dispatch_alert, meth_num_ciphers = F_ssl3_num_ciphers, meth_get_cipher = F_ssl3_get_cipher,
      meth_get_cipher_by_char = F_ssl3_get_cipher_by_char, meth_put_cipher_by_char = F_ssl3_put_cipher_by_char, meth_internal = TLS_method_internal_data\<rparr>"

definition TLS_legacy_method_internal_data :: SSL_METHOD_INTERNAL where [method_defs]:
  "TLS_legacy_method_internal_data =
     \<lparr>meth_dtls = False, meth_server = True, meth_version = TLS1_2_VERSION,
      meth_min_tls_version = TLS1_VERSION, meth_max_tls_version = TLS1_2_VERSION, meth_ssl_new = F_tls1_new,
      meth_ssl_clear = F_tls1_clear, meth_ssl_free = F_tls1_free, meth_ssl_accept = F_ssl3_accept,
      meth_ssl_connect = F_ssl3_connect, meth_ssl_shutdown = F_ssl3_shutdown, meth_ssl_renegotiate = F_ssl_undefined_function,
      meth_ssl_renegotiate_check = F_ssl_ok, meth_ssl_pending = F_ssl3_pending, meth_ssl_read_bytes = F_ssl3_read_bytes,
      meth_ssl_write_bytes = F_ssl3_write_bytes, meth_enc_flags = TLSV1_2_ENC_FLAGS\<rparr>"

definition TLS_legacy_method_data :: SSL_METHOD where [method_defs]:
  "TLS_legacy_method_data =
     \<lparr>meth_ssl_dispatch_alert = F_ssl3_dispatch_alert, meth_num_ciphers = F_ssl3_num_ciphers, meth_get_cipher = F_ssl3_get_cipher,
      meth_get_cipher_by_char = F_ssl3_get_cipher_by_char, meth_put_cipher_by_char = F_ssl3_put_cipher_by_char, meth_internal = TLS_legacy_method_internal_data\<rparr>"

definition TLS_client_method_internal_data :: SSL_METHOD_INTERNAL where [method_defs]:
  "TLS_client_method_internal_data =
     \<lparr>meth_dtls = False, meth_server = False, meth_version = TLS1_3_VERSION,
      meth_min_tls_version = TLS1_VERSION, meth_max_tls_version = TLS1_3_VERSION, meth_ssl_new = F_tls1_new,
      meth_ssl_clear = F_tls1_clear, meth_ssl_free = F_tls1_free, meth_ssl_accept = F_tls13_legacy_accept,
      meth_ssl_connect = F_tls13_legacy_connect, meth_ssl_shutdown = F_tls13_legacy_shutdown, meth_ssl_renegotiate = F_ssl_undefined_function,
      meth_ssl_renegotiate_check = F_ssl_ok, meth_ssl_pending = F_tls13_legacy_pending, meth_ssl_read_bytes = F_tls13_legacy_read_bytes,
      meth_ssl_write_bytes = F_tls13_legacy_write_bytes, meth_enc_flags = TLSV1_3_ENC_FLAGS\<rparr>"

definition TLS_client_method_data :: SSL_METHOD where [method_defs]:
  "TLS_client_method_data =
     \<lparr>meth_ssl_dispatch_alert = F_ssl3_dispatch_alert, meth_num_ciphers = F_ssl3_num_ciphers, meth_get_cipher = F_ssl3_get_cipher,
      meth_get_cipher_by_char = F_ssl3_get_cipher_by_char, meth_put_cipher_by_char = F_ssl3_put_cipher_by_char, meth_internal = TLS_client_method_internal_data\<rparr>"

definition TLS_legacy_client_method_internal_data :: SSL_METHOD_INTERNAL where [method_defs]:
  "TLS_legacy_client_method_internal_data =
     \<lparr>meth_dtls = False, meth_server = False, meth_version = TLS1_2_VERSION,
      meth_min_tls_version = TLS1_VERSION, meth_max_tls_version = TLS1_2_VERSION, meth_ssl_new = F_tls1_new,
      meth_ssl_clear = F_tls1_clear, meth_ssl_free = F_tls1_free, meth_ssl_accept = F_ssl3_accept,
      meth_ssl_connect = F_ssl3_connect, meth_ssl_shutdown = F_ssl3_shutdown, meth_ssl_renegotiate = F_ssl_undefined_function,
      meth_ssl_renegotiate_check = F_ssl_ok, meth_ssl_pending = F_ssl3_pending, meth_ssl_read_bytes = F_ssl3_read_bytes,
      meth_ssl_write_bytes = F_ssl3_write_bytes, meth_enc_flags = TLSV1_2_ENC_FLAGS\<rparr>"

definition TLS_legacy_client_method_data :: SSL_METHOD where [method_defs]:
  "TLS_legacy_client_method_data =
     \<lparr>meth_ssl_dispatch_alert = F_ssl3_dispatch_alert, meth_num_ciphers = F_ssl3_num_ciphers, meth_get_cipher = F_ssl3_get_cipher,
      meth_get_cipher_by_char = F_ssl3_get_cipher_by_char, meth_put_cipher_by_char = F_ssl3_put_cipher_by_char, meth_internal = TLS_legacy_client_method_internal_data\<rparr>"

definition TLSv1_method_internal_data :: SSL_METHOD_INTERNAL where [method_defs]:
  "TLSv1_method_internal_data =
     \<lparr>meth_dtls = False, meth_server = True, meth_version = TLS1_VERSION,
      meth_min_tls_version = TLS1_VERSION, meth_max_tls_version = TLS1_VERSION, meth_ssl_new = F_tls1_new,
      meth_ssl_clear = F_tls1_clear, meth_ssl_free = F_tls1_free, meth_ssl_accept = F_ssl3_accept,
      meth_ssl_connect = F_ssl3_connect, meth_ssl_shutdown = F_ssl3_shutdown, meth_ssl_renegotiate = F_ssl3_renegotiate,
      meth_ssl_renegotiate_check = F_ssl3_renegotiate_check, meth_ssl_pending = F_ssl3_pending, meth_ssl_read_bytes = F_ssl3_read_bytes,
      meth_ssl_write_bytes = F_ssl3_write_bytes, meth_enc_flags = TLSV1_ENC_FLAGS\<rparr>"

definition TLSv1_method_data :: SSL_METHOD where [method_defs]:
  "TLSv1_method_data =
     \<lparr>meth_ssl_dispatch_alert = F_ssl3_dispatch_alert, meth_num_ciphers = F_ssl3_num_ciphers, meth_get_cipher = F_ssl3_get_cipher,
      meth_get_cipher_by_char = F_ssl3_get_cipher_by_char, meth_put_cipher_by_char = F_ssl3_put_cipher_by_char, meth_internal = TLSv1_method_internal_data\<rparr>"

definition TLSv1_client_method_internal_data :: SSL_METHOD_INTERNAL where [method_defs]:
  "TLSv1_client_method_internal_data =
     \<lparr>meth_dtls = False, meth_server = False, meth_version = TLS1_VERSION,
      meth_min_tls_version = TLS1_VERSION, meth_max_tls_version = TLS1_VERSION, meth_ssl_new = F_tls1_new,
      meth_ssl_clear = F_tls1_clear, meth_ssl_free = F_tls1_free, meth_ssl_accept = F_ssl_undefined_function,
      meth_ssl_connect = F_ssl3_connect, meth_ssl_shutdown = F_ssl3_shutdown, meth_ssl_renegotiate = F_ssl3_renegotiate,
      meth_ssl_renegotiate_check = F_ssl3_renegotiate_check, meth_ssl_pending = F_ssl3_pending, meth_ssl_read_bytes = F_ssl3_read_bytes,
      meth_ssl_write_bytes = F_ssl3_write_bytes, meth_enc_flags = TLSV1_ENC_FLAGS\<rparr>"

definition TLSv1_client_method_data :: SSL_METHOD where [method_defs]:
  "TLSv1_client_method_data =
     \<lparr>meth_ssl_dispatch_alert = F_ssl3_dispatch_alert, meth_num_ciphers = F_ssl3_num_ciphers, meth_get_cipher = F_ssl3_get_cipher,
      meth_get_cipher_by_char = F_ssl3_get_cipher_by_char, meth_put_cipher_by_char = F_ssl3_put_cipher_by_char, meth_internal = TLSv1_client_method_internal_data\<rparr>"

definition TLSv1_1_method_internal_data :: SSL_METHOD_INTERNAL where [method_defs]:
  "TLSv1_1_method_internal_data =
     \<lparr>meth_dtls = False, meth_server = True, meth_version = TLS1_1_VERSION,
      meth_min_tls_version = TLS1_1_VERSION, meth_max_tls_version = TLS1_1_VERSION, meth_ssl_new = F_tls1_new,
      meth_ssl_clear = F_tls1_clear, meth_ssl_free = F_tls1_free, meth_ssl_accept = F_ssl3_accept,
      meth_ssl_connect = F_ssl3_connect, meth_ssl_shutdown = F_ssl3_shutdown, meth_ssl_renegotiate = F_ssl3_renegotiate,
      meth_ssl_renegotiate_check = F_ssl3_renegotiate_check, meth_ssl_pending = F_ssl3_pending, meth_ssl_read_bytes = F_ssl3_read_bytes,
      meth_ssl_write_bytes = F_ssl3_write_bytes, meth_enc_flags = TLSV1_1_ENC_FLAGS\<rparr>"

definition TLSv1_1_method_data :: SSL_METHOD where [method_defs]:
  "TLSv1_1_method_data =
     \<lparr>meth_ssl_dispatch_alert = F_ssl3_dispatch_alert, meth_num_ciphers = F_ssl3_num_ciphers, meth_get_cipher = F_ssl3_get_cipher,
      meth_get_cipher_by_char = F_ssl3_get_cipher_by_char, meth_put_cipher_by_char = F_ssl3_put_cipher_by_char, meth_internal = TLSv1_1_method_internal_data\<rparr>"

definition TLSv1_1_client_method_internal_data :: SSL_METHOD_INTERNAL where [method_defs]:
  "TLSv1_1_client_method_internal_data =
     \<lparr>meth_dtls = False, meth_server = False, meth_version = TLS1_1_VERSION,
      meth_min_tls_version = TLS1_1_VERSION, meth_max_tls_version = TLS1_1_VERSION, meth_ssl_new = F_tls1_new,
      meth_ssl_clear = F_tls1_clear, meth_ssl_free = F_tls1_free, meth_ssl_accept = F_ssl_undefined_function,
      meth_ssl_connect = F_ssl3_connect, meth_ssl_shutdown = F_ssl3_shutdown, meth_ssl_renegotiate = F_ssl3_renegotiate,
      meth_ssl_renegotiate_check = F_ssl3_renegotiate_check, meth_ssl_pending = F_ssl3_pending, meth_ssl_read_bytes = F_ssl3_read_bytes,
      meth_ssl_write_bytes = F_ssl3_write_bytes, meth_enc_flags = TLSV1_1_ENC_FLAGS\<rparr>"

definition TLSv1_1_client_method_data :: SSL_METHOD where [method_defs]:
  "TLSv1_1_client_method_data =
     \<lparr>meth_ssl_dispatch_alert = F_ssl3_dispatch_alert, meth_num_ciphers = F_ssl3_num_ciphers, meth_get_cipher = F_ssl3_get_cipher,
      meth_get_cipher_by_char = F_ssl3_get_cipher_by_char, meth_put_cipher_by_char = F_ssl3_put_cipher_by_char, meth_internal = TLSv1_1_client_method_internal_data\<rparr>"

definition TLSv1_2_method_internal_data :: SSL_METHOD_INTERNAL where [method_defs]:
  "TLSv1_2_method_internal_data =
     \<lparr>meth_dtls = False, meth_server = True, meth_version = TLS1_2_VERSION,
      meth_min_tls_version = TLS1_2_VERSION, meth_max_tls_version = TLS1_2_VERSION, meth_ssl_new = F_tls1_new,
      meth_ssl_clear = F_tls1_clear, meth_ssl_free = F_tls1_free, meth_ssl_accept = F_ssl3_accept,
      meth_ssl_connect = F_ssl3_connect, meth_ssl_shutdown = F_ssl3_shutdown, meth_ssl_renegotiate = F_ssl3_renegotiate,
      meth_ssl_renegotiate_check = F_ssl3_renegotiate_check, meth_ssl_pending = F_ssl3_pending, meth_ssl_read_bytes = F_ssl3_read_bytes,
      meth_ssl_write_bytes = F_ssl3_write_bytes, meth_enc_flags = TLSV1_2_ENC_FLAGS\<rparr>"

definition TLSv1_2_method_data :: SSL_METHOD where [method_defs]:
  "TLSv1_2_method_data =
     \<lparr>meth_ssl_dispatch_alert = F_ssl3_dispatch_alert, meth_num_ciphers = F_ssl3_num_ciphers, meth_get_cipher = F_ssl3_get_cipher,
      meth_get_cipher_by_char = F_ssl3_get_cipher_by_char, meth_put_cipher_by_char = F_ssl3_put_cipher_by_char, meth_internal = TLSv1_2_method_internal_data\<rparr>"

definition TLSv1_2_client_method_internal_data :: SSL_METHOD_INTERNAL where [method_defs]:
  "TLSv1_2_client_method_internal_data =
     \<lparr>meth_dtls = False, meth_server = False, meth_version = TLS1_2_VERSION,
      meth_min_tls_version = TLS1_2_VERSION, meth_max_tls_version = TLS1_2_VERSION, meth_ssl_new = F_tls1_new,
      meth_ssl_clear = F_tls1_clear, meth_ssl_free = F_tls1_free, meth_ssl_accept = F_ssl_undefined_function,
      meth_ssl_connect = F_ssl3_connect, meth_ssl_shutdown = F_ssl3_shutdown, meth_ssl_renegotiate = F_ssl3_renegotiate,
      meth_ssl_renegotiate_check = F_ssl3_renegotiate_check, meth_ssl_pending = F_ssl3_pending, meth_ssl_read_bytes = F_ssl3_read_bytes,
      meth_ssl_write_bytes = F_ssl3_write_bytes, meth_enc_flags = TLSV1_2_ENC_FLAGS\<rparr>"

definition TLSv1_2_client_method_data :: SSL_METHOD where [method_defs]:
  "TLSv1_2_client_method_data =
     \<lparr>meth_ssl_dispatch_alert = F_ssl3_dispatch_alert, meth_num_ciphers = F_ssl3_num_ciphers, meth_get_cipher = F_ssl3_get_cipher,
      meth_get_cipher_by_char = F_ssl3_get_cipher_by_char, meth_put_cipher_by_char = F_ssl3_put_cipher_by_char, meth_internal = TLSv1_2_client_method_internal_data\<rparr>"

definition DTLSv1_client_method :: SSL_METHOD where [method_defs]:
  "DTLSv1_client_method = DTLSv1_client_method_data"

definition DTLSv1_method :: SSL_METHOD where [method_defs]:
  "DTLSv1_method = DTLSv1_method_data"

definition DTLSv1_server_method :: SSL_METHOD where [method_defs]:
  "DTLSv1_server_method = DTLSv1_method_data"

definition DTLSv1_2_client_method :: SSL_METHOD where [method_defs]:
  "DTLSv1_2_client_method = DTLSv1_2_client_method_data"

definition DTLSv1_2_method :: SSL_METHOD where [method_defs]:
  "DTLSv1_2_method = DTLSv1_2_method_data"

definition DTLSv1_2_server_method :: SSL_METHOD where [method_defs]:
  "DTLSv1_2_server_method = DTLSv1_2_method_data"

definition DTLS_client_method :: SSL_METHOD where [method_defs]:
  "DTLS_client_method = DTLS_client_method_data"

definition DTLS_method :: SSL_METHOD where [method_defs]:
  "DTLS_method = DTLS_method_data"

definition DTLS_server_method :: SSL_METHOD where [method_defs]:
  "DTLS_server_method = DTLS_method_data"

definition TLS_client_method :: SSL_METHOD where [method_defs]:
  "TLS_client_method = TLS_client_method_data"

definition TLS_method :: SSL_METHOD where [method_defs]:
  "TLS_method = TLS_method_data"

definition TLS_server_method :: SSL_METHOD where [method_defs]:
  "TLS_server_method = TLS_method"

definition tls_legacy_method :: SSL_METHOD where [method_defs]:
  "tls_legacy_method = TLS_legacy_method_data"

definition SSLv23_client_method :: SSL_METHOD where [method_defs]:
  "SSLv23_client_method = TLS_client_method"

definition SSLv23_method :: SSL_METHOD where [method_defs]:
  "SSLv23_method = TLS_method"

definition SSLv23_server_method :: SSL_METHOD where [method_defs]:
  "SSLv23_server_method = TLS_method"

definition TLSv1_client_method :: SSL_METHOD where [method_defs]:
  "TLSv1_client_method = TLSv1_client_method_data"

definition TLSv1_method :: SSL_METHOD where [method_defs]:
  "TLSv1_method = TLSv1_method_data"

definition TLSv1_server_method :: SSL_METHOD where [method_defs]:
  "TLSv1_server_method = TLSv1_method_data"

definition TLSv1_1_client_method :: SSL_METHOD where [method_defs]:
  "TLSv1_1_client_method = TLSv1_1_client_method_data"

definition TLSv1_1_method :: SSL_METHOD where [method_defs]:
  "TLSv1_1_method = TLSv1_1_method_data"

definition TLSv1_1_server_method :: SSL_METHOD where [method_defs]:
  "TLSv1_1_server_method = TLSv1_1_method_data"

definition TLSv1_2_client_method :: SSL_METHOD where [method_defs]:
  "TLSv1_2_client_method = TLSv1_2_client_method_data"

definition TLSv1_2_method :: SSL_METHOD where [method_defs]:
  "TLSv1_2_method = TLSv1_2_method_data"

definition TLSv1_2_server_method :: SSL_METHOD where [method_defs]:
  "TLSv1_2_server_method = TLSv1_2_method_data"

definition ssl_get_method :: "u16 \<Rightarrow> SSL_METHOD option" where
  "ssl_get_method version =
     (if version = TLS1_3_VERSION then Some TLS_method
      else if version = TLS1_2_VERSION then Some TLSv1_2_method
      else if version = TLS1_1_VERSION then Some TLSv1_1_method
      else if version = TLS1_VERSION then Some TLSv1_method
      else if version = DTLS1_VERSION then Some DTLSv1_method
      else if version = DTLS1_2_VERSION then Some DTLSv1_2_method
      else None)"

end
