(* ===== verification/Ssl_Versions.thy ===== *)
theory Ssl_Versions
  imports Ssl_Methods
begin

text \<open>
  Protocol version negotiation, \<^verbatim>\<open>ssl/ssl_versions.c\<close>, with the setters of \<^verbatim>\<open>ssl/ssl_lib.c\<close> that
  configure it. Versions are 16 bit words; DTLS versions count downwards and are converted to the TLS
  versions they correspond to. A function that returns 0 and leaves its out parameters alone is an
  \<open>option\<close>.
\<close>

record SSL =
  ssl_method :: SSL_METHOD
  ssl_options :: u64
  ssl_min_tls_version :: u16
  ssl_max_tls_version :: u16
  ssl_min_proto_version :: u16
  ssl_max_proto_version :: u16
  hs_negotiated_tls_version :: u16
  hs_our_max_tls_version :: u16

abbreviation (input) SSL_OP_NO_TLSv1 :: u64 where "SSL_OP_NO_TLSv1 \<equiv> 0x04000000"
abbreviation (input) SSL_OP_NO_TLSv1_2 :: u64 where "SSL_OP_NO_TLSv1_2 \<equiv> 0x08000000"
abbreviation (input) SSL_OP_NO_TLSv1_1 :: u64 where "SSL_OP_NO_TLSv1_1 \<equiv> 0x10000000"
abbreviation (input) SSL_OP_NO_TLSv1_3 :: u64 where "SSL_OP_NO_TLSv1_3 \<equiv> 0x20000000"
abbreviation (input) SSL_OP_NO_DTLSv1 :: u64 where "SSL_OP_NO_DTLSv1 \<equiv> 0x40000000"
abbreviation (input) SSL_OP_NO_DTLSv1_2 :: u64 where "SSL_OP_NO_DTLSv1_2 \<equiv> 0x80000000"

definition SSL_is_dtls :: "SSL \<Rightarrow> bool" where
  "SSL_is_dtls s = meth_dtls (meth_internal (ssl_method s))"

definition ssl_dtls_to_tls_version :: "u16 \<Rightarrow> u16" where
  "ssl_dtls_to_tls_version dtls_ver =
     (if dtls_ver = DTLS1_VERSION then TLS1_1_VERSION
      else if dtls_ver = DTLS1_2_VERSION then TLS1_2_VERSION else 0)"

definition ssl_tls_to_dtls_version :: "u16 \<Rightarrow> u16" where
  "ssl_tls_to_dtls_version tls_ver =
     (if tls_ver = TLS1_1_VERSION then DTLS1_VERSION
      else if tls_ver = TLS1_2_VERSION then DTLS1_2_VERSION else 0)"

definition ssl_clamp_tls_version_range :: "u16 \<Rightarrow> u16 \<Rightarrow> u16 \<Rightarrow> u16 \<Rightarrow> (u16 \<times> u16) option" where
  "ssl_clamp_tls_version_range min_ver max_ver clamp_min clamp_max =
     (if clamp_max < clamp_min \<or> max_ver < min_ver then None
      else if clamp_max < min_ver \<or> max_ver < clamp_min then None
      else Some (if min_ver < clamp_min then clamp_min else min_ver,
                 if clamp_max < max_ver then clamp_max else max_ver))"

text \<open>The result of the setters is \<open>(*out_tls_ver, *out_proto_ver)\<close>.\<close>

definition ssl_version_set_min :: "SSL_METHOD_INTERNAL \<Rightarrow> u16 \<Rightarrow> u16 \<Rightarrow> (u16 \<times> u16) option" where
  "ssl_version_set_min meth proto_ver max_tls_ver =
     (if proto_ver = 0 then Some (meth_min_tls_version meth, 0)
      else
        let min_version = (if meth_dtls meth then ssl_dtls_to_tls_version proto_ver else proto_ver) in
        if meth_dtls meth \<and> min_version = 0 then None
        else case ssl_clamp_tls_version_range min_version max_tls_ver
               (meth_min_tls_version meth) (meth_max_tls_version meth) of
          None \<Rightarrow> None
        | Some (min_version, max_version) \<Rightarrow>
            let min_proto = (if meth_dtls meth then ssl_tls_to_dtls_version min_version else min_version) in
            if meth_dtls meth \<and> min_proto = 0 then None else Some (min_version, min_proto))"

definition ssl_version_set_max :: "SSL_METHOD_INTERNAL \<Rightarrow> u16 \<Rightarrow> u16 \<Rightarrow> (u16 \<times> u16) option" where
  "ssl_version_set_max meth proto_ver min_tls_ver =
     (if proto_ver = 0 then Some (meth_max_tls_version meth, 0)
      else
        let max_version = (if meth_dtls meth then ssl_dtls_to_tls_version proto_ver else proto_ver) in
        if meth_dtls meth \<and> max_version = 0 then None
        else case ssl_clamp_tls_version_range min_tls_ver max_version
               (meth_min_tls_version meth) (meth_max_tls_version meth) of
          None \<Rightarrow> None
        | Some (min_version, max_version) \<Rightarrow>
            let max_proto = (if meth_dtls meth then ssl_tls_to_dtls_version max_version else max_version) in
            if meth_dtls meth \<and> max_proto = 0 then None else Some (max_version, max_proto))"

definition SSL_set_min_proto_version :: "SSL \<Rightarrow> u16 \<Rightarrow> bool \<times> SSL" where
  "SSL_set_min_proto_version s version =
     (case ssl_version_set_min (meth_internal (ssl_method s)) version (ssl_max_tls_version s) of
        None \<Rightarrow> (False, s)
      | Some (tls, proto) \<Rightarrow> (True, s\<lparr>ssl_min_tls_version := tls, ssl_min_proto_version := proto\<rparr>))"

definition SSL_set_max_proto_version :: "SSL \<Rightarrow> u16 \<Rightarrow> bool \<times> SSL" where
  "SSL_set_max_proto_version s version =
     (case ssl_version_set_max (meth_internal (ssl_method s)) version (ssl_min_tls_version s) of
        None \<Rightarrow> (False, s)
      | Some (tls, proto) \<Rightarrow> (True, s\<lparr>ssl_max_tls_version := tls, ssl_max_proto_version := proto\<rparr>))"

text \<open>The options that apply: for DTLS the two DTLS flags, translated to the flags of the TLS versions.\<close>

definition version_options :: "SSL \<Rightarrow> u64" where
  "version_options s =
     (if SSL_is_dtls s then
        (if ssl_options s AND SSL_OP_NO_DTLSv1 \<noteq> 0 then SSL_OP_NO_TLSv1_1 else 0)
        OR (if ssl_options s AND SSL_OP_NO_DTLSv1_2 \<noteq> 0 then SSL_OP_NO_TLSv1_2 else 0)
      else ssl_options s)"

text \<open>\<open>min_version\<close> and \<open>max_version\<close> before they are clamped to the configured range.\<close>

definition options_min_version :: "u64 \<Rightarrow> u16" where
  "options_min_version options =
     (if options AND SSL_OP_NO_TLSv1 = 0 then TLS1_VERSION
      else if options AND SSL_OP_NO_TLSv1_1 = 0 then TLS1_1_VERSION
      else if options AND SSL_OP_NO_TLSv1_2 = 0 then TLS1_2_VERSION
      else if options AND SSL_OP_NO_TLSv1_3 = 0 then TLS1_3_VERSION
      else 0)"

definition options_max_version :: "u64 \<Rightarrow> u16 \<Rightarrow> u16" where
  "options_max_version options min_version =
     (let max_version = TLS1_3_VERSION;
          max_version = (if options AND SSL_OP_NO_TLSv1_3 \<noteq> 0 \<and> min_version < TLS1_3_VERSION
                         then TLS1_2_VERSION else max_version);
          max_version = (if options AND SSL_OP_NO_TLSv1_2 \<noteq> 0 \<and> min_version < TLS1_2_VERSION
                         then TLS1_1_VERSION else max_version);
          max_version = (if options AND SSL_OP_NO_TLSv1_1 \<noteq> 0 \<and> min_version < TLS1_1_VERSION
                         then TLS1_VERSION else max_version)
      in (if options AND SSL_OP_NO_TLSv1 \<noteq> 0 \<and> min_version < TLS1_VERSION then 0 else max_version))"

definition ssl_enabled_tls_version_range :: "SSL \<Rightarrow> (u16 \<times> u16) option" where
  "ssl_enabled_tls_version_range s =
     (let options = version_options s;
          min_version = options_min_version options;
          max_version = options_max_version options min_version in
      if min_version = 0 \<or> max_version = 0 then None
      else ssl_clamp_tls_version_range min_version max_version (ssl_min_tls_version s) (ssl_max_tls_version s))"

definition ssl_supported_tls_version_range :: "SSL \<Rightarrow> (u16 \<times> u16) option" where
  "ssl_supported_tls_version_range s =
     (case ssl_enabled_tls_version_range s of
        None \<Rightarrow> None
      | Some (min_version, max_version) \<Rightarrow>
          ssl_clamp_tls_version_range min_version max_version
            (meth_min_tls_version (meth_internal (ssl_method s)))
            (meth_max_tls_version (meth_internal (ssl_method s))))"

definition ssl_tls_version :: "u16 \<Rightarrow> u16" where
  "ssl_tls_version version =
     (if version = TLS1_VERSION \<or> version = TLS1_1_VERSION \<or> version = TLS1_2_VERSION
         \<or> version = TLS1_3_VERSION then version
      else if version = DTLS1_VERSION then TLS1_1_VERSION
      else if version = DTLS1_2_VERSION then TLS1_2_VERSION else 0)"

definition ssl_effective_tls_version :: "SSL \<Rightarrow> u16" where
  "ssl_effective_tls_version s =
     (if 0 < hs_negotiated_tls_version s then hs_negotiated_tls_version s else hs_our_max_tls_version s)"

definition ssl_max_supported_version :: "SSL \<Rightarrow> u16 option" where
  "ssl_max_supported_version s =
     (case ssl_supported_tls_version_range s of
        None \<Rightarrow> None
      | Some (min_version, max_version) \<Rightarrow>
          if SSL_is_dtls s then
            (if ssl_tls_to_dtls_version max_version = 0 then None
             else Some (ssl_tls_to_dtls_version max_version))
          else Some max_version)"

text \<open>\<open>peer_tls_version\<close>: the TLS version a peer's version stands for; \<open>None\<close> where the major version
  of a DTLS peer is wrong.\<close>

definition peer_to_tls_version :: "SSL \<Rightarrow> u16 \<Rightarrow> u16 option" where
  "peer_to_tls_version s peer_ver =
     (if SSL_is_dtls s then
        (if drop_bit 8 peer_ver \<noteq> 0xFE then None
         else if ssl_dtls_to_tls_version peer_ver = 0 \<and> peer_ver < DTLS1_2_VERSION then Some TLS1_2_VERSION
         else Some (ssl_dtls_to_tls_version peer_ver))
      else Some peer_ver)"

definition ssl_max_shared_version :: "SSL \<Rightarrow> u16 \<Rightarrow> u16 option" where
  "ssl_max_shared_version s peer_ver =
     (case peer_to_tls_version s peer_ver of
        None \<Rightarrow> None
      | Some peer_tls_version \<Rightarrow>
          if peer_tls_version < TLS1_VERSION then None
          else
            let shared_version =
              (if TLS1_3_VERSION \<le> peer_tls_version then TLS1_3_VERSION
               else if TLS1_2_VERSION \<le> peer_tls_version then TLS1_2_VERSION
               else if TLS1_1_VERSION \<le> peer_tls_version then TLS1_1_VERSION
               else TLS1_VERSION) in
            (case ssl_supported_tls_version_range s of
               None \<Rightarrow> None
             | Some (min_version, max_version) \<Rightarrow>
                 if shared_version < min_version then None
                 else
                   let shared_version = (if max_version < shared_version then max_version else shared_version) in
                   if SSL_is_dtls s then
                     (if ssl_tls_to_dtls_version shared_version = 0 then None
                      else Some (ssl_tls_to_dtls_version shared_version))
                   else Some shared_version))"

definition ssl_check_version_from_server :: "SSL \<Rightarrow> u16 \<Rightarrow> bool" where
  "ssl_check_version_from_server s server_version =
     (let server_tls_version =
        (if SSL_is_dtls s then ssl_dtls_to_tls_version server_version else server_version) in
      if SSL_is_dtls s \<and> server_tls_version = 0 then False
      else case ssl_supported_tls_version_range s of
        None \<Rightarrow> False
      | Some (min_tls_version, max_tls_version) \<Rightarrow>
          min_tls_version \<le> server_tls_version \<and> server_tls_version \<le> max_tls_version)"

definition ssl_legacy_stack_version :: "SSL \<Rightarrow> u16 \<Rightarrow> bool" where
  "ssl_legacy_stack_version s version =
     (if SSL_is_dtls s then version = DTLS1_VERSION \<or> version = DTLS1_2_VERSION
      else version = TLS1_VERSION \<or> version = TLS1_1_VERSION \<or> version = TLS1_2_VERSION)"


section \<open>Ranges\<close>

definition tls_versions :: "u16 set" where
  "tls_versions = {TLS1_VERSION, TLS1_1_VERSION, TLS1_2_VERSION, TLS1_3_VERSION}"

definition in_range :: "(u16 \<times> u16) option \<Rightarrow> u16 \<Rightarrow> bool" where
  "in_range r v \<longleftrightarrow> (case r of None \<Rightarrow> False | Some (lo, hi) \<Rightarrow> lo \<le> v \<and> v \<le> hi)"

lemma in_range_clamp:
  "in_range (ssl_clamp_tls_version_range lo hi a b) v \<longleftrightarrow> lo \<le> v \<and> v \<le> hi \<and> a \<le> v \<and> v \<le> b"
  by (auto simp: in_range_def ssl_clamp_tls_version_range_def not_less not_le)

lemma clamp_Some:
  assumes "ssl_clamp_tls_version_range lo hi a b = Some (x, y)"
  shows "x \<le> y" and "x = lo \<or> x = a" and "y = hi \<or> y = b" and "lo \<le> x" and "a \<le> x" and "y \<le> hi" and "y \<le> b"
  using assms by (auto simp: ssl_clamp_tls_version_range_def not_less split: if_splits)

text \<open>The flags: \<open>disabled o v\<close> is the flag of the version \<open>v\<close>, and \<open>first_run o v\<close> says that \<open>v\<close> is in
  the lowest run of consecutive enabled versions.\<close>

definition disabled :: "u64 \<Rightarrow> u16 \<Rightarrow> bool" where
  "disabled options v \<longleftrightarrow> options AND
     (if v = TLS1_VERSION then SSL_OP_NO_TLSv1 else if v = TLS1_1_VERSION then SSL_OP_NO_TLSv1_1
      else if v = TLS1_2_VERSION then SSL_OP_NO_TLSv1_2 else SSL_OP_NO_TLSv1_3) \<noteq> 0"

definition first_run :: "u64 \<Rightarrow> u16 \<Rightarrow> bool" where
  "first_run options v \<longleftrightarrow> \<not> disabled options v
     \<and> (\<forall>w\<in>tls_versions. w < v \<and> disabled options w \<longrightarrow> (\<forall>u\<in>tls_versions. u < w \<longrightarrow> disabled options u))"

lemma options_range:
  assumes "v \<in> tls_versions"
  shows "options_min_version opts \<noteq> 0 \<and> options_max_version opts (options_min_version opts) \<noteq> 0
      \<and> options_min_version opts \<le> v \<and> v \<le> options_max_version opts (options_min_version opts)
    \<longleftrightarrow> first_run opts v"
  using assms
  by (cases "opts AND SSL_OP_NO_TLSv1 = 0"; cases "opts AND SSL_OP_NO_TLSv1_1 = 0";
      cases "opts AND SSL_OP_NO_TLSv1_2 = 0"; cases "opts AND SSL_OP_NO_TLSv1_3 = 0")
    (auto simp: tls_versions_def first_run_def disabled_def options_min_version_def options_max_version_def Let_def)

lemma in_supported_range_iff:
  assumes "v \<in> tls_versions"
  shows "in_range (ssl_supported_tls_version_range s) v \<longleftrightarrow>
     first_run (version_options s) v \<and> ssl_min_tls_version s \<le> v \<and> v \<le> ssl_max_tls_version s
     \<and> meth_min_tls_version (meth_internal (ssl_method s)) \<le> v
     \<and> v \<le> meth_max_tls_version (meth_internal (ssl_method s))"
proof -
  have "in_range (ssl_enabled_tls_version_range s) v \<longleftrightarrow>
      first_run (version_options s) v \<and> ssl_min_tls_version s \<le> v \<and> v \<le> ssl_max_tls_version s"
    using options_range [OF assms, of "version_options s"]
    by (auto simp: ssl_enabled_tls_version_range_def Let_def in_range_clamp) (auto simp: in_range_def)
  moreover have "in_range (ssl_supported_tls_version_range s) v \<longleftrightarrow>
      in_range (ssl_enabled_tls_version_range s) v \<and> meth_min_tls_version (meth_internal (ssl_method s)) \<le> v
     \<and> v \<le> meth_max_tls_version (meth_internal (ssl_method s))"
    by (auto simp: ssl_supported_tls_version_range_def in_range_clamp split: option.split)
      (auto simp: in_range_def)
  ultimately show ?thesis by simp
qed


section \<open>Well-formed configurations\<close>

definition method_wf :: "SSL_METHOD_INTERNAL \<Rightarrow> bool" where
  "method_wf m \<longleftrightarrow> meth_min_tls_version m \<in> tls_versions \<and> meth_max_tls_version m \<in> tls_versions
     \<and> meth_min_tls_version m \<le> meth_max_tls_version m
     \<and> (meth_dtls m \<longrightarrow> TLS1_1_VERSION \<le> meth_min_tls_version m \<and> meth_max_tls_version m \<le> TLS1_2_VERSION)"

definition version_wf :: "SSL \<Rightarrow> bool" where
  "version_wf s \<longleftrightarrow>
     (let m = meth_internal (ssl_method s) in
      method_wf m \<and> ssl_min_tls_version s \<in> tls_versions \<and> ssl_max_tls_version s \<in> tls_versions
      \<and> meth_min_tls_version m \<le> ssl_min_tls_version s \<and> ssl_min_tls_version s \<le> ssl_max_tls_version s
      \<and> ssl_max_tls_version s \<le> meth_max_tls_version m)"

lemma tls_versions_between:
  assumes "a \<in> tls_versions" and "b \<in> tls_versions" and "a \<le> v" and "v \<le> b"
  shows "v \<in> tls_versions"
proof -
  have "unat v = 0x301 \<or> unat v = 0x302 \<or> unat v = 0x303 \<or> unat v = 0x304"
    using assms by (auto simp: tls_versions_def word_le_nat_alt)
  then show ?thesis by (auto simp: tls_versions_def word_unat_eq_iff)
qed

lemma clamp_versions:
  "ssl_clamp_tls_version_range lo hi a b = Some (x, y) \<Longrightarrow> lo \<in> tls_versions \<Longrightarrow> hi \<in> tls_versions \<Longrightarrow>
   a \<in> tls_versions \<Longrightarrow> b \<in> tls_versions \<Longrightarrow> x \<in> tls_versions \<and> y \<in> tls_versions \<and> x \<le> y"
  using clamp_Some(1-3) [of lo hi a b x y] by auto

lemma options_versions:
  "options_min_version opts \<noteq> 0 \<Longrightarrow> options_min_version opts \<in> tls_versions"
  "options_max_version opts m \<noteq> 0 \<Longrightarrow> options_max_version opts m \<in> tls_versions"
  by (auto simp: options_min_version_def options_max_version_def tls_versions_def Let_def split: if_splits)

text \<open>What the functions that choose a version rely on: a range, where there is one, is an interval of
  known versions.\<close>

locale tls_version_range =
  fixes rng :: "'s \<Rightarrow> (u16 \<times> u16) option" and ok :: "'s \<Rightarrow> bool"
  assumes range_versions:
    "ok s \<Longrightarrow> rng s = Some (lo, hi) \<Longrightarrow> lo \<in> tls_versions \<and> hi \<in> tls_versions \<and> lo \<le> hi"
begin

lemma in_range_versions: "ok s \<Longrightarrow> in_range (rng s) v \<Longrightarrow> v \<in> tls_versions"
  using range_versions [of s] by (auto simp: in_range_def split: option.splits intro: tls_versions_between)

lemma common_version:
  assumes "ok c" and "ok s" and "rng c = Some (lo, hi)" and "rng s = Some (lo', hi')"
  shows "(\<exists>v. in_range (rng c) v \<and> in_range (rng s) v) \<longleftrightarrow> lo' \<le> hi \<and> lo \<le> hi'"
proof -
  have "lo \<le> hi" "lo' \<le> hi'" using assms range_versions by blast+
  then show ?thesis using assms
    by (auto simp: in_range_def intro!: exI [of _ "max lo lo'"])
qed

lemma highest_common:
  assumes "ok c" and "ok s" and "rng c = Some (lo, hi)" and "rng s = Some (lo', hi')"
    and "lo' \<le> hi" and "lo \<le> hi'"
  shows "Max {v. in_range (rng c) v \<and> in_range (rng s) v} = min hi hi'"
proof (rule Max_eqI)
  show "finite {v. in_range (rng c) v \<and> in_range (rng s) v}" by simp
  have "lo \<le> hi" "lo' \<le> hi'" using assms range_versions by blast+
  then show "min hi hi' \<in> {v. in_range (rng c) v \<and> in_range (rng s) v}"
    using assms by (auto simp: in_range_def)
  show "v \<le> min hi hi'" if "v \<in> {v. in_range (rng c) v \<and> in_range (rng s) v}" for v
    using that assms by (auto simp: in_range_def)
qed

end

interpretation enabled_range: tls_version_range ssl_enabled_tls_version_range version_wf
proof
  fix s lo hi
  assume "version_wf s" and "ssl_enabled_tls_version_range s = Some (lo, hi)"
  then show "lo \<in> tls_versions \<and> hi \<in> tls_versions \<and> lo \<le> hi"
    using clamp_versions options_versions
    by (auto simp: ssl_enabled_tls_version_range_def Let_def version_wf_def split: if_splits)
qed

interpretation supported_range: tls_version_range ssl_supported_tls_version_range version_wf
proof
  fix s lo hi
  assume wf: "version_wf s" and "ssl_supported_tls_version_range s = Some (lo, hi)"
  then obtain a b where "ssl_enabled_tls_version_range s = Some (a, b)"
    "ssl_clamp_tls_version_range a b (meth_min_tls_version (meth_internal (ssl_method s)))
       (meth_max_tls_version (meth_internal (ssl_method s))) = Some (lo, hi)"
    by (auto simp: ssl_supported_tls_version_range_def split: option.splits)
  then show "lo \<in> tls_versions \<and> hi \<in> tls_versions \<and> lo \<le> hi"
    using clamp_versions enabled_range.range_versions [OF wf] wf
    by (auto simp: version_wf_def method_wf_def Let_def)
qed

text \<open>For DTLS the range lies between the two versions that have a DTLS number.\<close>

lemma supported_dtls:
  assumes "version_wf s" and "SSL_is_dtls s" and "ssl_supported_tls_version_range s = Some (lo, hi)"
  shows "lo \<in> {TLS1_1_VERSION, TLS1_2_VERSION} \<and> hi \<in> {TLS1_1_VERSION, TLS1_2_VERSION}"
proof -
  have "lo \<in> tls_versions" "hi \<in> tls_versions" "lo \<le> hi"
    using supported_range.range_versions [OF assms(1,3)] by auto
  moreover have "TLS1_1_VERSION \<le> lo" "hi \<le> TLS1_2_VERSION"
    using assms clamp_Some(5,7)
    by (fastforce simp: ssl_supported_tls_version_range_def version_wf_def method_wf_def SSL_is_dtls_def Let_def
        split: option.splits)+
  ultimately show ?thesis by (auto simp: tls_versions_def)
qed


section \<open>Properties\<close>


lemma version_set_min_range:
  assumes "method_wf m" and "mx \<in> tls_versions" and "meth_min_tls_version m \<le> mx"
    and "ssl_version_set_min m v mx = Some (x, p)"
  shows "x \<in> tls_versions \<and> meth_min_tls_version m \<le> x \<and> x \<le> mx"
proof (cases "v = 0")
  case True
  then show ?thesis using assms by (auto simp: ssl_version_set_min_def method_wf_def)
next
  case False
  then obtain w y where c: "ssl_clamp_tls_version_range w mx (meth_min_tls_version m) (meth_max_tls_version m) = Some (x, y)"
    using assms(4) by (auto simp: ssl_version_set_min_def Let_def split: if_splits option.splits)
  then have "meth_min_tls_version m \<le> x" "x \<le> mx" using clamp_Some(1,5,6) [OF c] by auto
  then show ?thesis using tls_versions_between [of "meth_min_tls_version m" mx x] assms by (auto simp: method_wf_def)
qed

lemma version_set_max_range:
  assumes "method_wf m" and "mn \<in> tls_versions" and "mn \<le> meth_max_tls_version m"
    and "ssl_version_set_max m v mn = Some (x, p)"
  shows "x \<in> tls_versions \<and> mn \<le> x \<and> x \<le> meth_max_tls_version m"
proof (cases "v = 0")
  case True
  then show ?thesis using assms by (auto simp: ssl_version_set_max_def method_wf_def)
next
  case False
  then obtain w y where c: "ssl_clamp_tls_version_range mn w (meth_min_tls_version m) (meth_max_tls_version m) = Some (y, x)"
    using assms(4) by (auto simp: ssl_version_set_max_def Let_def split: if_splits option.splits)
  then have "mn \<le> x" "x \<le> meth_max_tls_version m" using clamp_Some(1,4,7) [OF c] by auto
  then show ?thesis using tls_versions_between [of mn "meth_max_tls_version m" x] assms by (auto simp: method_wf_def)
qed

text \<open>C35. The configuration stays well formed: whatever version number is asked for, setting the minimal
  or the maximal version leaves an interval of known versions inside the range of the method, for TLS
  and for DTLS, and a refused request changes nothing.\<close>

theorem set_proto_version_keeps_wf:
  assumes "version_wf s"
  shows "(\<forall>v. version_wf (snd (SSL_set_min_proto_version s v)) \<and> version_wf (snd (SSL_set_max_proto_version s v)))
    \<and> (\<forall>v. \<not> fst (SSL_set_min_proto_version s v) \<longrightarrow> snd (SSL_set_min_proto_version s v) = s)
    \<and> (\<forall>v. \<not> fst (SSL_set_max_proto_version s v) \<longrightarrow> snd (SSL_set_max_proto_version s v) = s)"
proof (intro conjI allI impI)
  fix v
  let ?m = "meth_internal (ssl_method s)"
  have wf: "method_wf ?m" "ssl_min_tls_version s \<in> tls_versions" "ssl_max_tls_version s \<in> tls_versions"
    "meth_min_tls_version ?m \<le> ssl_min_tls_version s" "ssl_min_tls_version s \<le> ssl_max_tls_version s"
    "ssl_max_tls_version s \<le> meth_max_tls_version ?m"
    using assms by (simp_all add: version_wf_def Let_def)
  have mn: "x \<in> tls_versions \<and> meth_min_tls_version ?m \<le> x \<and> x \<le> ssl_max_tls_version s"
    if "ssl_version_set_min ?m v (ssl_max_tls_version s) = Some (x, p)" for x p
    using version_set_min_range [OF wf(1,3) order_trans [OF wf(4,5)] that] .
  have mx: "x \<in> tls_versions \<and> ssl_min_tls_version s \<le> x \<and> x \<le> meth_max_tls_version ?m"
    if "ssl_version_set_max ?m v (ssl_min_tls_version s) = Some (x, p)" for x p
    using version_set_max_range [OF wf(1,2) order_trans [OF wf(5,6)] that] .
  show "version_wf (snd (SSL_set_min_proto_version s v))"
  proof (cases "ssl_version_set_min ?m v (ssl_max_tls_version s)")
    case None
    then show ?thesis using assms by (simp add: SSL_set_min_proto_version_def)
  next
    case (Some r)
    moreover obtain x p where "r = (x, p)" by force
    ultimately show ?thesis using mn [of x p] wf
      by (simp add: SSL_set_min_proto_version_def version_wf_def Let_def)
  qed
  show "version_wf (snd (SSL_set_max_proto_version s v))"
  proof (cases "ssl_version_set_max ?m v (ssl_min_tls_version s)")
    case None
    then show ?thesis using assms by (simp add: SSL_set_max_proto_version_def)
  next
    case (Some r)
    moreover obtain x p where "r = (x, p)" by force
    ultimately show ?thesis using mx [of x p] wf
      by (simp add: SSL_set_max_proto_version_def version_wf_def Let_def)
  qed
qed (auto simp: SSL_set_min_proto_version_def SSL_set_max_proto_version_def split: option.splits prod.splits)

lemma set_proto_version_keeps_wf_witness:
  "version_wf (snd (SSL_set_max_proto_version
     \<lparr>ssl_method = TLS_method, ssl_options = 0, ssl_min_tls_version = TLS1_VERSION,
      ssl_max_tls_version = TLS1_3_VERSION, ssl_min_proto_version = 0, ssl_max_proto_version = 0,
      hs_negotiated_tls_version = 0, hs_our_max_tls_version = 0\<rparr> 0x0399))"
  using set_proto_version_keeps_wf [of "\<lparr>ssl_method = TLS_method, ssl_options = 0,
      ssl_min_tls_version = TLS1_VERSION, ssl_max_tls_version = TLS1_3_VERSION, ssl_min_proto_version = 0,
      ssl_max_proto_version = 0, hs_negotiated_tls_version = 0, hs_our_max_tls_version = 0\<rparr>"]
  by (simp add: version_wf_def method_wf_def tls_versions_def method_defs)

text \<open>The version a server picks for a client that offers \<open>m\<close>, as a TLS version.\<close>

lemma max_supported_version_eq:
  assumes "version_wf s" and "ssl_supported_tls_version_range s = Some (lo, hi)"
  shows "\<exists>m. ssl_max_supported_version s = Some m \<and> ssl_tls_version m = hi
    \<and> (if SSL_is_dtls s then m = ssl_tls_to_dtls_version hi else m = hi)"
  using supported_range.range_versions [OF assms] supported_dtls [OF assms(1) _ assms(2)] assms(2)
  by (auto simp: ssl_max_supported_version_def ssl_tls_to_dtls_version_def ssl_tls_version_def tls_versions_def)

text \<open>The highest known version up to a known version is that version.\<close>

lemma known_version_floor:
  "v \<in> tls_versions \<Longrightarrow>
     (if TLS1_3_VERSION \<le> v then TLS1_3_VERSION else if TLS1_2_VERSION \<le> v then TLS1_2_VERSION
      else if TLS1_1_VERSION \<le> v then TLS1_1_VERSION else TLS1_VERSION) = v"
  by (auto simp: tls_versions_def)

lemma not_less_TLS1: "v \<in> tls_versions \<Longrightarrow> \<not> v < TLS1_VERSION"
  by (auto simp: tls_versions_def)

lemma max_shared_version_eq:
  assumes "version_wf s" and "ssl_supported_tls_version_range s = Some (lo', hi')"
    and "hi \<in> tls_versions" and d: "SSL_is_dtls s \<Longrightarrow> hi \<in> {TLS1_1_VERSION, TLS1_2_VERSION}"
    and m: "m = (if SSL_is_dtls s then ssl_tls_to_dtls_version hi else hi)"
  shows "ssl_max_shared_version s m = (if hi < lo' then None
    else Some (if SSL_is_dtls s then ssl_tls_to_dtls_version (min hi hi') else min hi hi'))"
proof (cases "SSL_is_dtls s")
  case False
  then have "peer_to_tls_version s m = Some hi" by (simp add: m peer_to_tls_version_def)
  then show ?thesis using False assms(2) known_version_floor [OF assms(3)] not_less_TLS1 [OF assms(3)]
    by (simp add: ssl_max_shared_version_def min_def flip: not_le)
next
  case True
  note hi = d [OF True] and hi' = supported_dtls [OF assms(1) True assms(2)]
  have "peer_to_tls_version s m = Some hi"
    using hi True by (auto simp: m peer_to_tls_version_def ssl_tls_to_dtls_version_def ssl_dtls_to_tls_version_def)
  moreover have "ssl_tls_to_dtls_version hi \<noteq> 0" "ssl_tls_to_dtls_version hi' \<noteq> 0"
    using hi hi' by (auto simp: ssl_tls_to_dtls_version_def)
  ultimately show ?thesis using True assms(2) known_version_floor [OF assms(3)] not_less_TLS1 [OF assms(3)]
    by (simp add: ssl_max_shared_version_def min_def flip: not_le)
qed

text \<open>The version a server picks below a client's maximum, back as a TLS version and as the client checks
  it.\<close>

lemma picked_version_tls:
  assumes "hi \<in> tls_versions" and "hi' \<in> tls_versions"
    and "SSL_is_dtls s \<Longrightarrow> hi \<in> {TLS1_1_VERSION, TLS1_2_VERSION} \<and> hi' \<in> {TLS1_1_VERSION, TLS1_2_VERSION}"
  shows "ssl_tls_version (if SSL_is_dtls s then ssl_tls_to_dtls_version (min hi hi') else min hi hi') = min hi hi'"
proof (cases "SSL_is_dtls s")
  case True
  then have "min hi hi' \<in> {TLS1_1_VERSION, TLS1_2_VERSION}" using assms(3) by (auto simp: min_def)
  then show ?thesis using True by (auto simp: ssl_tls_version_def ssl_tls_to_dtls_version_def)
next
  case False
  have "min hi hi' \<in> tls_versions" using assms by (auto simp: min_def)
  then show ?thesis using False by (auto simp: ssl_tls_version_def tls_versions_def)
qed

lemma check_picked_version:
  assumes "version_wf c" and rc: "ssl_supported_tls_version_range c = Some (lo, hi)"
    and "SSL_is_dtls c \<Longrightarrow> hi' \<in> {TLS1_1_VERSION, TLS1_2_VERSION}"
  shows "ssl_check_version_from_server c (if SSL_is_dtls c then ssl_tls_to_dtls_version (min hi hi') else min hi hi')
    \<longleftrightarrow> lo \<le> hi'"
proof -
  have le: "lo \<le> hi" using supported_range.range_versions [OF assms(1,2)] by simp
  have "min hi hi' \<in> {TLS1_1_VERSION, TLS1_2_VERSION}" if "SSL_is_dtls c"
    using supported_dtls [OF assms(1) that rc] assms(3) [OF that] by (auto simp: min_def)
  then have "SSL_is_dtls c \<Longrightarrow> ssl_dtls_to_tls_version (ssl_tls_to_dtls_version (min hi hi')) = min hi hi'
      \<and> min hi hi' \<noteq> 0"
    by (auto simp: ssl_dtls_to_tls_version_def ssl_tls_to_dtls_version_def)
  then show ?thesis using le rc by (auto simp: ssl_check_version_from_server_def)
qed

text \<open>C20. Client and server agree on the best version: when a client offers the highest version it
  supports and the server answers with the highest version it shares, the handshake gets a version
  both accept if and only if they have a supported version in common, and then it is the highest one,
  for TLS and for DTLS.\<close>

theorem negotiation_picks_highest_common:
  assumes "version_wf c" and "version_wf s" and "SSL_is_dtls c \<longleftrightarrow> SSL_is_dtls s"
    and "common = {v \<in> tls_versions. in_range (ssl_supported_tls_version_range c) v
           \<and> in_range (ssl_supported_tls_version_range s) v}"
    and "ssl_max_supported_version c = Some m"
  shows "(case ssl_max_shared_version s m of
            None \<Rightarrow> common = {}
          | Some v \<Rightarrow>
              (ssl_check_version_from_server c v \<longleftrightarrow> common \<noteq> {})
              \<and> (common \<noteq> {} \<longrightarrow> ssl_tls_version v = Max common))"
proof -
  from assms(5) obtain lo hi where rc: "ssl_supported_tls_version_range c = Some (lo, hi)"
    by (auto simp: ssl_max_supported_version_def split: option.splits)
  note vc = supported_range.range_versions [OF assms(1) rc]
  have m: "m = (if SSL_is_dtls s then ssl_tls_to_dtls_version hi else hi)"
    using max_supported_version_eq [OF assms(1) rc] assms(3,5) by (auto split: if_splits)
  have common: "common = {v. in_range (ssl_supported_tls_version_range c) v
      \<and> in_range (ssl_supported_tls_version_range s) v}"
    using supported_range.in_range_versions [OF assms(1)] by (auto simp: assms(4))
  show ?thesis
  proof (cases "ssl_supported_tls_version_range s")
    case None
    then have "ssl_max_shared_version s m = None"
      by (simp add: ssl_max_shared_version_def Let_def split: option.split)
    then show ?thesis using None by (simp add: common in_range_def)
  next
    case (Some r)
    then obtain lo' hi' where rs: "ssl_supported_tls_version_range s = Some (lo', hi')" by (cases r) auto
    note vs = supported_range.range_versions [OF assms(2) rs]
    let ?v = "if SSL_is_dtls s then ssl_tls_to_dtls_version (min hi hi') else min hi hi'"
    have sh: "ssl_max_shared_version s m = (if hi < lo' then None else Some ?v)"
      using vc supported_dtls [OF assms(1) _ rc] assms(3)
      by (intro max_shared_version_eq [OF assms(2) rs _ _ m]) auto
    have ne: "common \<noteq> {} \<longleftrightarrow> lo' \<le> hi \<and> lo \<le> hi'"
      using supported_range.common_version [OF assms(1,2) rc rs] by (auto simp: common)
    have "ssl_check_version_from_server c ?v \<longleftrightarrow> lo \<le> hi'" "ssl_tls_version ?v = min hi hi'"
      using check_picked_version [OF assms(1) rc] picked_version_tls [of hi hi' s] vc vs assms(3)
        supported_dtls [OF assms(1) _ rc] supported_dtls [OF assms(2) _ rs] by auto
    moreover have "Max common = min hi hi'" if "common \<noteq> {}"
      using supported_range.highest_common [OF assms(1,2) rc rs] ne that by (simp add: common)
    ultimately show ?thesis using sh ne by (auto simp: not_less)
  qed
qed

lemma negotiation_picks_highest_common_witness:
  "ssl_max_shared_version
     \<lparr>ssl_method = TLS_method, ssl_options = 0, ssl_min_tls_version = TLS1_VERSION,
      ssl_max_tls_version = TLS1_2_VERSION, ssl_min_proto_version = 0, ssl_max_proto_version = 0,
      hs_negotiated_tls_version = 0, hs_our_max_tls_version = 0\<rparr> TLS1_3_VERSION = Some TLS1_2_VERSION
   \<and> ssl_check_version_from_server
     \<lparr>ssl_method = TLS_method, ssl_options = 0, ssl_min_tls_version = TLS1_2_VERSION,
      ssl_max_tls_version = TLS1_3_VERSION, ssl_min_proto_version = 0, ssl_max_proto_version = 0,
      hs_negotiated_tls_version = 0, hs_our_max_tls_version = 0\<rparr> TLS1_2_VERSION"
proof -
  let ?c = "\<lparr>ssl_method = TLS_method, ssl_options = 0, ssl_min_tls_version = TLS1_2_VERSION,
      ssl_max_tls_version = TLS1_3_VERSION, ssl_min_proto_version = 0, ssl_max_proto_version = 0,
      hs_negotiated_tls_version = 0, hs_our_max_tls_version = 0\<rparr>"
  let ?s = "\<lparr>ssl_method = TLS_method, ssl_options = 0, ssl_min_tls_version = TLS1_VERSION,
      ssl_max_tls_version = TLS1_2_VERSION, ssl_min_proto_version = 0, ssl_max_proto_version = 0,
      hs_negotiated_tls_version = 0, hs_our_max_tls_version = 0\<rparr>"
  have "version_wf ?c" "version_wf ?s" "SSL_is_dtls ?c = SSL_is_dtls ?s"
    by (simp_all add: version_wf_def method_wf_def tls_versions_def SSL_is_dtls_def method_defs)
  moreover have r: "ssl_supported_tls_version_range ?c = Some (TLS1_2_VERSION, TLS1_3_VERSION)"
    "ssl_supported_tls_version_range ?s = Some (TLS1_VERSION, TLS1_2_VERSION)" "\<not> SSL_is_dtls ?c" "\<not> SSL_is_dtls ?s"
    by (simp_all add: ssl_supported_tls_version_range_def ssl_enabled_tls_version_range_def version_options_def
        options_min_version_def options_max_version_def ssl_clamp_tls_version_range_def SSL_is_dtls_def method_defs Let_def)
  moreover have "ssl_max_supported_version ?c = Some TLS1_3_VERSION" "ssl_max_shared_version ?s TLS1_3_VERSION = Some TLS1_2_VERSION"
    using r by (simp_all add: ssl_max_supported_version_def ssl_max_shared_version_def peer_to_tls_version_def)
  moreover have "{v \<in> tls_versions. in_range (ssl_supported_tls_version_range ?c) v
      \<and> in_range (ssl_supported_tls_version_range ?s) v} \<noteq> {}"
    using r by (auto simp: tls_versions_def in_range_def)
  ultimately show ?thesis using negotiation_picks_highest_common [of ?c ?s _ TLS1_3_VERSION] by simp
qed

text \<open>On a DTLS connection the option that disables DTLS 1.0 disables DTLS 1.2 as well: the flag is
  translated to the flag of TLS 1.1, and TLS 1.0, which no DTLS method speaks, counts as enabled below
  it, so that no version is left whatever the configuration.\<close>

theorem no_dtlsv1_disables_all_dtls:
  assumes "version_wf s" and "SSL_is_dtls s" and "ssl_options s AND SSL_OP_NO_DTLSv1 \<noteq> 0"
  shows "ssl_supported_tls_version_range s = None \<and> ssl_max_supported_version s = None"
proof -
  have "version_options s AND SSL_OP_NO_TLSv1 = 0" "version_options s AND SSL_OP_NO_TLSv1_1 \<noteq> 0"
    using assms(2,3) by (simp_all add: version_options_def)
  then have e: "options_min_version (version_options s) = TLS1_VERSION"
    "options_max_version (version_options s) TLS1_VERSION = TLS1_VERSION"
    by (simp_all add: options_min_version_def options_max_version_def)
  have "TLS1_1_VERSION \<le> meth_min_tls_version (meth_internal (ssl_method s))"
    "meth_min_tls_version (meth_internal (ssl_method s)) \<le> ssl_min_tls_version s"
    using assms(1,2) by (simp_all add: version_wf_def method_wf_def SSL_is_dtls_def Let_def)
  then have "TLS1_VERSION < ssl_min_tls_version s" by (simp add: word_less_nat_alt word_le_nat_alt)
  then have "ssl_enabled_tls_version_range s = None"
    by (simp add: ssl_enabled_tls_version_range_def e ssl_clamp_tls_version_range_def)
  then show ?thesis by (simp add: ssl_supported_tls_version_range_def ssl_max_supported_version_def)
qed

lemma no_dtlsv1_disables_all_dtls_witness:
  "ssl_max_supported_version
     \<lparr>ssl_method = DTLS_method, ssl_options = SSL_OP_NO_DTLSv1, ssl_min_tls_version = TLS1_1_VERSION,
      ssl_max_tls_version = TLS1_2_VERSION, ssl_min_proto_version = 0, ssl_max_proto_version = 0,
      hs_negotiated_tls_version = 0, hs_our_max_tls_version = 0\<rparr> = None"
  using no_dtlsv1_disables_all_dtls [of "\<lparr>ssl_method = DTLS_method, ssl_options = SSL_OP_NO_DTLSv1,
      ssl_min_tls_version = TLS1_1_VERSION, ssl_max_tls_version = TLS1_2_VERSION, ssl_min_proto_version = 0,
      ssl_max_proto_version = 0, hs_negotiated_tls_version = 0, hs_our_max_tls_version = 0\<rparr>"]
  by (simp add: version_wf_def method_wf_def tls_versions_def method_defs SSL_is_dtls_def)

text \<open>Every method the library hands out is well formed, has its highest version as its version and,
  if it is a server method, an accept function, and \<open>ssl_get_method\<close> returns a method for
  exactly the six known versions, whose highest TLS version is the version asked for and which is a
  DTLS method exactly for the DTLS versions.\<close>

theorem methods_match_versions:
  "(\<forall>m\<in>{TLS_method, TLS_client_method, TLS_server_method, tls_legacy_method, SSLv23_method,
         SSLv23_client_method, SSLv23_server_method, TLSv1_method, TLSv1_client_method, TLSv1_server_method,
         TLSv1_1_method, TLSv1_1_client_method, TLSv1_1_server_method, TLSv1_2_method, TLSv1_2_client_method,
         TLSv1_2_server_method, DTLS_method, DTLS_client_method, DTLS_server_method, DTLSv1_method,
         DTLSv1_client_method, DTLSv1_server_method, DTLSv1_2_method, DTLSv1_2_client_method,
         DTLSv1_2_server_method}.
      method_wf (meth_internal m)
      \<and> ssl_tls_version (meth_version (meth_internal m)) = meth_max_tls_version (meth_internal m)
      \<and> \<not> (meth_server (meth_internal m) \<and> meth_ssl_accept (meth_internal m) = F_ssl_undefined_function))
   \<and> (ssl_get_method v \<noteq> None \<longleftrightarrow> ssl_tls_version v \<noteq> 0)
   \<and> (\<forall>m. ssl_get_method v = Some m \<longrightarrow>
        meth_max_tls_version (meth_internal m) = ssl_tls_version v
        \<and> (meth_dtls (meth_internal m) \<longleftrightarrow> v \<in> {DTLS1_VERSION, DTLS1_2_VERSION}))"
  by (simp add: method_defs method_wf_def tls_versions_def ssl_tls_version_def ssl_get_method_def)

lemma methods_match_versions_witness:
  "ssl_tls_version (meth_version (meth_internal TLS_method)) = meth_max_tls_version (meth_internal TLS_method)
   \<and> meth_max_tls_version (meth_internal DTLSv1_method) = TLS1_1_VERSION"
  using methods_match_versions [of DTLS1_VERSION]
  by (simp add: ssl_get_method_def ssl_tls_version_def)

end
