(* ===== verification/Tls13_Buffer.thy ===== *)
theory Tls13_Buffer
  imports CBB_Flush
begin

text \<open>
  The growing input buffer of the TLS 1.3 stack, \<^verbatim>\<open>ssl/tls13_buffer.c\<close>, and the contract of the
  read callbacks it is filled from.

  A read callback takes the state of its source and the number of bytes there is room for, and
  returns the \<open>ssize_t\<close> result, the bytes it stored and the new state of the source. \<open>grant n\<close> says
  whether the allocator serves a request for \<open>n\<close> bytes.
\<close>

abbreviation (input) TLS13_IO_SUCCESS :: int where "TLS13_IO_SUCCESS \<equiv> 1"
abbreviation (input) TLS13_IO_EOF :: int where "TLS13_IO_EOF \<equiv> 0"
abbreviation (input) TLS13_IO_FAILURE :: int where "TLS13_IO_FAILURE \<equiv> - 1"
abbreviation (input) TLS13_IO_ALERT :: int where "TLS13_IO_ALERT \<equiv> - 2"
abbreviation (input) TLS13_IO_WANT_POLLIN :: int where "TLS13_IO_WANT_POLLIN \<equiv> - 3"
abbreviation (input) TLS13_IO_WANT_POLLOUT :: int where "TLS13_IO_WANT_POLLOUT \<equiv> - 4"
abbreviation (input) TLS13_IO_WANT_RETRY :: int where "TLS13_IO_WANT_RETRY \<equiv> - 5"
abbreviation (input) TLS13_IO_USE_LEGACY :: int where "TLS13_IO_USE_LEGACY \<equiv> - 6"
abbreviation (input) TLS13_IO_RECORD_VERSION :: int where "TLS13_IO_RECORD_VERSION \<equiv> - 7"
abbreviation (input) TLS13_IO_RECORD_OVERFLOW :: int where "TLS13_IO_RECORD_OVERFLOW \<equiv> - 8"

type_synonym 'w read_cb = "'w \<Rightarrow> nat \<Rightarrow> int \<times> bytes \<times> 'w"
type_synonym 'w write_cb = "'w \<Rightarrow> bytes \<Rightarrow> int \<times> 'w"

record tls13_buffer =
  tb_capacity :: nat
  tb_data :: "bytes option"
  tb_len :: nat
  tb_offset :: nat

text \<open>The bytes of a block, none for the null pointer.\<close>

definition tb_mem :: "tls13_buffer \<Rightarrow> bytes" where
  "tb_mem buf = (case tb_data buf of None \<Rightarrow> [] | Some d \<Rightarrow> d)"

text \<open>\<open>recallocarray\<close> keeps the bytes that fit and clears what it adds.\<close>

definition tls13_buffer_resize :: "(nat \<Rightarrow> bool) \<Rightarrow> tls13_buffer \<Rightarrow> nat \<Rightarrow> bool \<times> tls13_buffer" where
  "tls13_buffer_resize grant buf capacity =
     (if tb_capacity buf = capacity then (True, buf)
      else if \<not> grant capacity then (False, buf)
      else (True, buf\<lparr>tb_data := Some (take capacity (tb_mem buf) @ replicate (capacity - tb_capacity buf) 0),
                      tb_capacity := capacity\<rparr>))"

definition tls13_buffer_new :: "(nat \<Rightarrow> bool) \<Rightarrow> nat \<Rightarrow> tls13_buffer option" where
  "tls13_buffer_new grant init_size =
     (case tls13_buffer_resize grant \<lparr>tb_capacity = 0, tb_data = None, tb_len = 0, tb_offset = 0\<rparr> init_size of
        (False, _) \<Rightarrow> None
      | (True, buf) \<Rightarrow> Some buf)"

definition tls13_buffer_set_data :: "(nat \<Rightarrow> bool) \<Rightarrow> tls13_buffer \<Rightarrow> CBS \<Rightarrow> bool \<times> tls13_buffer" where
  "tls13_buffer_set_data grant buf data =
     (case tls13_buffer_resize grant buf (CBS_len data) of
        (False, buf') \<Rightarrow> (False, buf')
      | (True, buf') \<Rightarrow> (True, buf'\<lparr>tb_data := map_option (\<lambda>d. mem_write d 0 (CBS_data data)) (tb_data buf')\<rparr>))"

text \<open>The loop of \<open>tls13_buffer_extend\<close>.\<close>

function buffer_fill :: "'w read_cb \<Rightarrow> tls13_buffer \<Rightarrow> 'w \<Rightarrow> int \<times> tls13_buffer \<times> 'w" where
  "buffer_fill read_cb buf w =
     (case read_cb w (tb_capacity buf - tb_len buf) of
        (ret, bs, w') \<Rightarrow>
          let buf' = buf\<lparr>tb_data := map_option (\<lambda>d. mem_write d (tb_len buf) bs) (tb_data buf)\<rparr> in
          if ret \<le> 0 then (ret, buf', w')
          else if int (tb_capacity buf - tb_len buf) < ret then (TLS13_IO_FAILURE, buf', w')
          else
            let buf'' = buf'\<lparr>tb_len := tb_len buf + nat ret\<rparr> in
            if tb_len buf'' = tb_capacity buf'' then (int (tb_len buf''), buf'', w')
            else buffer_fill read_cb buf'' w')"
  by pat_completeness auto
termination buffer_fill
  by (relation "measure (\<lambda>(read_cb, buf, w). tb_capacity buf - tb_len buf)") auto

declare buffer_fill.simps [simp del]

definition tls13_buffer_extend ::
    "(nat \<Rightarrow> bool) \<Rightarrow> 'w read_cb \<Rightarrow> tls13_buffer \<Rightarrow> nat \<Rightarrow> 'w \<Rightarrow> int \<times> tls13_buffer \<times> 'w" where
  "tls13_buffer_extend grant read_cb buf len w =
     (if len = tb_len buf then (int (tb_len buf), buf, w)
      else if len < tb_len buf then (TLS13_IO_FAILURE, buf, w)
      else case tls13_buffer_resize grant buf len of
        (False, buf') \<Rightarrow> (TLS13_IO_FAILURE, buf', w)
      | (True, buf') \<Rightarrow> buffer_fill read_cb buf' w)"

definition tls13_buffer_cbs :: "tls13_buffer \<Rightarrow> CBS" where
  "tls13_buffer_cbs buf = CBS_init (take (tb_len buf) (tb_mem buf))"

text \<open>The out pointers are never null in the callers: the result is the block, its length and the
  emptied buffer.\<close>

definition tls13_buffer_finish :: "tls13_buffer \<Rightarrow> (bytes option \<times> nat) \<times> tls13_buffer" where
  "tls13_buffer_finish buf =
     ((tb_data buf, tb_len buf), buf\<lparr>tb_capacity := 0, tb_data := None, tb_len := 0\<rparr>)"

section \<open>The buffer invariant\<close>

definition buffer_ok :: "tls13_buffer \<Rightarrow> bool" where
  "buffer_ok buf \<longleftrightarrow> length (tb_mem buf) = tb_capacity buf \<and> tb_len buf \<le> tb_capacity buf"

definition tb_bytes :: "tls13_buffer \<Rightarrow> bytes" where
  "tb_bytes buf = take (tb_len buf) (tb_mem buf)"

lemma length_tb_bytes [simp]: "buffer_ok buf \<Longrightarrow> length (tb_bytes buf) = tb_len buf"
  by (simp add: buffer_ok_def tb_bytes_def)

lemma buffer_new_ok:
  "tls13_buffer_new grant n = Some buf \<Longrightarrow> buffer_ok buf \<and> tb_bytes buf = [] \<and> tb_len buf = 0"
  by (auto simp: tls13_buffer_new_def tls13_buffer_resize_def buffer_ok_def tb_bytes_def tb_mem_def
      split: if_splits)

lemma buffer_resize_ok:
  assumes "tls13_buffer_resize grant buf n = (r, buf')" and "buffer_ok buf" and "tb_len buf \<le> n"
  shows "buffer_ok buf' \<and> tb_bytes buf' = tb_bytes buf \<and> tb_len buf' = tb_len buf \<and> (r \<longrightarrow> tb_capacity buf' = n)"
proof (cases "tb_capacity buf = n \<or> \<not> grant n")
  case True
  then show ?thesis using assms by (auto simp: tls13_buffer_resize_def split: if_splits)
next
  case False
  then have "buf' = buf\<lparr>tb_data := Some (take n (tb_mem buf) @ replicate (n - tb_capacity buf) 0),
      tb_capacity := n\<rparr>" "r" using assms(1) by (auto simp: tls13_buffer_resize_def)
  then show ?thesis using assms(2,3)
    by (auto simp: buffer_ok_def tb_bytes_def tb_mem_def min_def)
qed


section \<open>Sources of bytes\<close>

text \<open>What the buffer and its clients rely on: a callback that returns a positive number has stored that
  many bytes, not more than it was offered, and they are the next bytes of the source; any other
  result leaves the source as it is and may have scribbled on the offered room only.\<close>

locale byte_source =
  fixes read_cb :: "'w read_cb" and stream :: "'w \<Rightarrow> bytes"
  assumes read_room: "read_cb w n = (ret, bs, w') \<Longrightarrow> length bs \<le> n"
    and read_bytes: "read_cb w n = (ret, bs, w') \<Longrightarrow> 0 < ret \<Longrightarrow> ret = int (length bs) \<and> stream w = bs @ stream w'"
    and read_none: "read_cb w n = (ret, bs, w') \<Longrightarrow> ret \<le> 0 \<Longrightarrow> stream w' = stream w"
begin

lemma fill_spec:
  assumes "buffer_fill read_cb buf w = (ret, buf', w')" and "buffer_ok buf" and "tb_len buf < tb_capacity buf"
  shows "buffer_ok buf' \<and> tb_bytes buf' @ stream w' = tb_bytes buf @ stream w
    \<and> tb_capacity buf' = tb_capacity buf \<and> tb_len buf \<le> tb_len buf'
    \<and> (0 < ret \<longrightarrow> tb_len buf' = tb_capacity buf \<and> ret = int (tb_len buf'))"
  using assms
proof (induction "tb_capacity buf - tb_len buf" arbitrary: buf w rule: less_induct)
  case less
  let ?n = "tb_capacity buf - tb_len buf"
  obtain r bs w1 where rd: "read_cb w ?n = (r, bs, w1)" by (metis prod_cases3)
  have room: "length bs \<le> ?n" using read_room rd by blast
  obtain d where d: "tb_data buf = Some d" "length d = tb_capacity buf"
    using less.prems(2,3) by (cases "tb_data buf") (auto simp: buffer_ok_def tb_mem_def)
  define b1 where "b1 = buf\<lparr>tb_data := Some (mem_write d (tb_len buf) bs)\<rparr>"
  have b1: "buffer_ok b1" "tb_bytes b1 = tb_bytes buf" "tb_len b1 = tb_len buf" "tb_capacity b1 = tb_capacity buf"
    using room d less.prems(3) by (simp_all add: b1_def buffer_ok_def tb_bytes_def tb_mem_def mem_write_def)
  show ?case
  proof (cases "0 < r")
    case False
    then have "(ret, buf', w') = (r, b1, w1)"
      using less.prems(1) rd d by (simp add: buffer_fill.simps [of read_cb buf] b1_def)
    then show ?thesis using b1 False read_none [OF rd] by simp
  next
    case True
    note r = read_bytes [OF rd True]
    define b2 where "b2 = b1\<lparr>tb_len := tb_len buf + length bs\<rparr>"
    have b2: "buffer_ok b2" "tb_bytes b2 = tb_bytes buf @ bs" "tb_len b2 = tb_len buf + length bs"
      "tb_capacity b2 = tb_capacity buf"
      using room d less.prems(3)
      by (simp_all add: b2_def b1_def buffer_ok_def tb_bytes_def tb_mem_def take_mem_write)
    have str: "tb_bytes b2 @ stream w1 = tb_bytes buf @ stream w" using b2(2) r by simp
    have eq: "buffer_fill read_cb buf w =
        (if tb_len b2 = tb_capacity b2 then (int (tb_len b2), b2, w1) else buffer_fill read_cb b2 w1)"
      using rd True r room d by (subst buffer_fill.simps) (simp add: Let_def b2_def b1_def)
    show ?thesis
    proof (cases "tb_len b2 = tb_capacity b2")
      case True
      then have "(ret, buf', w') = (int (tb_len b2), b2, w1)" using eq less.prems(1) by simp
      then show ?thesis using b2 str True by simp
    next
      case False
      have "0 < length bs" using r True by auto
      then have "tb_capacity b2 - tb_len b2 < ?n" "tb_len b2 < tb_capacity b2"
        using b2 less.prems(3) room False by linarith+
      moreover have "buffer_fill read_cb b2 w1 = (ret, buf', w')" using eq False less.prems(1) by simp
      ultimately show ?thesis using less.hyps [of b2 w1] b2 str by auto
    qed
  qed
qed

lemma extend_spec:
  assumes "tls13_buffer_extend grant read_cb buf len w = (ret, buf', w')" and "buffer_ok buf" and "0 < len"
  shows "buffer_ok buf' \<and> tb_bytes buf' @ stream w' = tb_bytes buf @ stream w \<and> tb_len buf \<le> tb_len buf'
    \<and> (tb_len buf \<le> len \<longrightarrow> tb_len buf' \<le> len) \<and> (0 < ret \<longrightarrow> tb_len buf' = len \<and> ret = int len)"
proof (cases "tb_len buf < len")
  case False
  then show ?thesis using assms by (auto simp: tls13_buffer_extend_def split: if_splits)
next
  case True
  obtain ok b1 where rs: "tls13_buffer_resize grant buf len = (ok, b1)" by force
  note b1 = buffer_resize_ok [OF rs assms(2) less_imp_le [OF True]]
  show ?thesis
  proof (cases ok)
    case False
    then show ?thesis using assms(1) rs True b1 by (auto simp: tls13_buffer_extend_def)
  next
    case True': True
    then have "buffer_fill read_cb b1 w = (ret, buf', w')"
      using assms(1) rs True by (simp add: tls13_buffer_extend_def)
    from fill_spec [OF this] show ?thesis using b1 True True' by (auto simp: buffer_ok_def)
  qed
qed

end


section \<open>A scripted transport\<close>

text \<open>The environment of the stack as a sequence of events: bytes arrive in chunks, and a read may fail
  or find nothing. Reading hands out at most one chunk at a time, as far as there is room.\<close>

datatype wire_event = Chunk bytes | Stall int

fun script_read :: "wire_event list read_cb" where
  "script_read [] n = (TLS13_IO_EOF, [], [])"
| "script_read (Stall r # es) n = ((if 0 < r then TLS13_IO_FAILURE else r), [], es)"
| "script_read (Chunk bs # es) n =
     (if bs = [] \<or> n = 0 then (TLS13_IO_WANT_POLLIN, [], (if bs = [] then es else Chunk bs # es))
      else if length bs \<le> n then (int (length bs), bs, es)
      else (int n, take n bs, Chunk (drop n bs) # es))"

fun script_bytes :: "wire_event list \<Rightarrow> bytes" where
  "script_bytes [] = []"
| "script_bytes (Stall r # es) = script_bytes es"
| "script_bytes (Chunk bs # es) = bs @ script_bytes es"

interpretation script: byte_source script_read script_bytes
proof
  fix w n ret bs w'
  assume rd: "script_read w n = (ret, bs, w')"
  show "length bs \<le> n" using rd by (cases "(w, n)" rule: script_read.cases) (auto split: if_splits)
  show "0 < ret \<Longrightarrow> ret = int (length bs) \<and> script_bytes w = bs @ script_bytes w'"
    using rd by (cases "(w, n)" rule: script_read.cases) (auto split: if_splits)
  show "ret \<le> 0 \<Longrightarrow> script_bytes w' = script_bytes w"
    using rd by (cases "(w, n)" rule: script_read.cases) (auto split: if_splits)
qed


section \<open>Progress\<close>

text \<open>On a transport that still has the bytes, an interrupted read has used up an event.\<close>

lemma script_read_progress:
  assumes "script_read w n = (ret, bs, w')" and "0 < n" and "script_bytes w \<noteq> []"
  shows "length w' \<le> length w \<and> (ret \<le> 0 \<longrightarrow> length w' < length w)"
  using assms by (cases "(w, n)" rule: script_read.cases) (auto split: if_splits)

lemma script_fill_progress:
  assumes "buffer_fill script_read buf w = (ret, buf', w')" and "buffer_ok buf" and "tb_len buf < tb_capacity buf"
    and "tb_capacity buf - tb_len buf \<le> length (script_bytes w)"
  shows "length w' \<le> length w \<and> (ret \<le> 0 \<longrightarrow> length w' < length w)"
  using assms
proof (induction "tb_capacity buf - tb_len buf" arbitrary: buf w rule: less_induct)
  case less
  let ?n = "tb_capacity buf - tb_len buf"
  obtain r bs w1 where rd: "script_read w ?n = (r, bs, w1)" by (metis prod_cases3)
  have p: "length w1 \<le> length w" "r \<le> 0 \<Longrightarrow> length w1 < length w"
    using script_read_progress [OF rd] less.prems(3,4) by fastforce+
  show ?case
  proof (cases "0 < r")
    case False
    then have "ret = r \<and> w' = w1" using less.prems(1) rd by (simp add: buffer_fill.simps [of script_read buf] Let_def)
    then show ?thesis using p by simp
  next
    case True
    note r = script.read_bytes [OF rd True] and room = script.read_room [OF rd]
    let ?b = "buf\<lparr>tb_data := map_option (\<lambda>d. mem_write d (tb_len buf) bs) (tb_data buf),
        tb_len := tb_len buf + length bs\<rparr>"
    have eq: "buffer_fill script_read buf w = (if tb_len ?b = tb_capacity ?b then (int (tb_len ?b), ?b, w1)
        else buffer_fill script_read ?b w1)"
      using rd True r room by (subst buffer_fill.simps) (simp add: Let_def)
    show ?thesis
    proof (cases "tb_len ?b = tb_capacity ?b")
      case True
      then show ?thesis using eq less.prems(1,3) p by auto
    next
      case False
      have "0 < length bs" using r True by auto
      moreover have "tb_capacity ?b = tb_capacity buf" "tb_len ?b = tb_len buf + length bs" by simp_all
      ultimately have m: "tb_capacity ?b - tb_len ?b < ?n" using less.prems(3) by linarith
      have "buffer_ok ?b" using less.prems(2,3) room
        by (cases "tb_data buf") (auto simp: buffer_ok_def tb_mem_def)
      then have "length w' \<le> length w1 \<and> (ret \<le> 0 \<longrightarrow> length w' < length w1)"
        using eq False less.prems room r by (intro less.hyps [OF m]) auto
      then show ?thesis using p by auto
    qed
  qed
qed

lemma script_extend_progress:
  assumes "tls13_buffer_extend grant script_read buf len w = (ret, buf', w')" and "buffer_ok buf"
    and "\<forall>n. grant n" and "tb_len buf \<le> len" and "len - tb_len buf \<le> length (script_bytes w)" and "0 < len"
  shows "length w' \<le> length w \<and> (ret \<le> 0 \<longrightarrow> length w' < length w)"
proof (cases "tb_len buf = len")
  case True
  then show ?thesis using assms(1,6) by (auto simp: tls13_buffer_extend_def)
next
  case False
  obtain ok b1 where rs: "tls13_buffer_resize grant buf len = (ok, b1)" by force
  moreover have ok using rs assms(3) by (auto simp: tls13_buffer_resize_def split: if_splits)
  ultimately have "buffer_fill script_read b1 w = (ret, buf', w')"
    using assms(1,4) False by (simp add: tls13_buffer_extend_def)
  moreover have "buffer_ok b1" "tb_len b1 = tb_len buf" "tb_capacity b1 = len"
    using buffer_resize_ok [OF rs assms(2,4)] \<open>ok\<close> by auto
  ultimately show ?thesis using script_fill_progress [of b1 w ret buf' w'] assms(4,5) False by simp
qed


section \<open>Receivers that can be resumed\<close>

text \<open>The caller's loop around a receive function that may return before the message is complete, because
  the transport has nothing to offer: it calls it again, up to \<open>n\<close> times.\<close>

fun retry :: "('m \<Rightarrow> 'w \<Rightarrow> int \<times> 'm \<times> 'w) \<Rightarrow> nat \<Rightarrow> 'm \<Rightarrow> 'w \<Rightarrow> ('m \<times> 'w) option" where
  "retry recv 0 m w = None"
| "retry recv (Suc n) m w =
     (case recv m w of (ret, m', w') \<Rightarrow> if 0 < ret then Some (m', w') else retry recv n m' w')"

text \<open>The contract of the receive functions for records and for handshake messages: they lose no byte of
  the source and invent none, and what they deliver is one frame.\<close>

locale resumable_receiver =
  fixes recv :: "'m \<Rightarrow> 'w \<Rightarrow> int \<times> 'm \<times> 'w" and stream :: "'w \<Rightarrow> bytes"
    and inv :: "'m \<Rightarrow> bool" and held :: "'m \<Rightarrow> bytes" and framed :: "bytes \<Rightarrow> bool"
  assumes conserve: "inv m \<Longrightarrow> recv m w = (ret, m', w') \<Longrightarrow> ret \<le> 0 \<Longrightarrow>
      inv m' \<and> held m' @ stream w' = held m @ stream w"
    and deliver: "inv m \<Longrightarrow> recv m w = (ret, m', w') \<Longrightarrow> 0 < ret \<Longrightarrow>
      held m' @ stream w' = held m @ stream w \<and> framed (held m')"
    and framed_unique: "framed d \<Longrightarrow> framed e \<Longrightarrow> d @ x = e @ y \<Longrightarrow> d = e"
begin

lemma retry_delivers:
  "retry recv n m w = Some (m', w') \<Longrightarrow> inv m \<Longrightarrow>
     framed (held m') \<and> held m' @ stream w' = held m @ stream w"
proof (induction n arbitrary: m w)
  case 0
  then show ?case by simp
next
  case (Suc n)
  obtain ret m1 w1 where rc: "recv m w = (ret, m1, w1)" by (metis prod_cases3)
  show ?case
  proof (cases "0 < ret")
    case True
    then show ?thesis using Suc.prems deliver [OF Suc.prems(2) rc] rc by simp
  next
    case False
    then show ?thesis using Suc.IH [of m1 w1] Suc.prems conserve [OF Suc.prems(2) rc] rc by simp
  qed
qed

lemma retry_last:
  "retry recv n m w = Some (m', w') \<Longrightarrow> inv m \<Longrightarrow> \<exists>m0 w0 ret. inv m0 \<and> recv m0 w0 = (ret, m', w') \<and> 0 < ret"
proof (induction n arbitrary: m w)
  case (Suc n)
  obtain ret m1 w1 where rc: "recv m w = (ret, m1, w1)" by (metis prod_cases3)
  show ?case
  proof (cases "0 < ret")
    case True
    then show ?thesis using Suc.prems rc by auto
  next
    case False
    then show ?thesis using Suc.IH [of m1 w1] Suc.prems conserve [OF Suc.prems(2) rc] rc by simp
  qed
qed simp

lemma retry_unique:
  assumes "retry recv n m w = Some (m1, w1)" and "retry recv k m v = Some (m2, v2)" and "inv m"
    and "stream w = stream v"
  shows "held m1 = held m2 \<and> stream w1 = stream v2"
proof -
  have 1: "framed (held m1)" "held m1 @ stream w1 = held m @ stream w"
    and 2: "framed (held m2)" "held m2 @ stream v2 = held m @ stream v"
    using retry_delivers assms by blast+
  then have "held m1 = held m2" using framed_unique [OF 1(1) 2(1)] assms(4) by metis
  then show ?thesis using 1 2 assms(4) by (metis same_append_eq)
qed

end

lemma retry_mono: "retry f n m w = Some r \<Longrightarrow> n \<le> k \<Longrightarrow> retry f k m w = Some r"
proof (induction n arbitrary: k m w)
  case (Suc n)
  then obtain k' where "k = Suc k'" "n \<le> k'" by (cases k) auto
  with Suc show ?case by (auto split: prod.splits if_splits)
qed simp

text \<open>A receiver on the scripted transport that makes progress: while the transport still has the bytes
  of a frame \<open>d\<close>, every interrupted call has used up an event of the transport.\<close>

locale progressing_receiver = resumable_receiver recv script_bytes inv held framed
  for recv :: "'m \<Rightarrow> wire_event list \<Rightarrow> int \<times> 'm \<times> wire_event list" and inv held framed +
  fixes awaiting :: "bytes \<Rightarrow> 'm \<Rightarrow> wire_event list \<Rightarrow> bool"
  assumes await_step: "awaiting d m w \<Longrightarrow> recv m w = (ret, m', w') \<Longrightarrow> ret \<le> 0 \<Longrightarrow>
      awaiting d m' w' \<and> length w' < length w"
    and await_inv: "awaiting d m w \<Longrightarrow> inv m \<and> framed d"
begin

lemma retry_completes:
  "awaiting d m w \<Longrightarrow> \<exists>m' w'. retry recv (Suc (length w)) m w = Some (m', w')"
proof (induction "length w" arbitrary: m w rule: less_induct)
  case less
  obtain ret m1 w1 where rc: "recv m w = (ret, m1, w1)" by (metis prod_cases3)
  show ?case
  proof (cases "0 < ret")
    case True
    then show ?thesis using rc by simp
  next
    case False
    have a: "awaiting d m1 w1" "length w1 < length w" using await_step [OF less.prems rc] False by auto
    from less.hyps [OF a(2,1)] obtain m' w' where "retry recv (Suc (length w1)) m1 w1 = Some (m', w')" by blast
    then have "retry recv (length w) m1 w1 = Some (m', w')" using retry_mono a(2) by (metis Suc_leI)
    then show ?thesis using rc False by simp
  qed
qed

lemma delivers:
  assumes "awaiting d m w" and "held m @ script_bytes w = d @ rest"
  shows "\<exists>m' w'. retry recv (Suc (length w)) m w = Some (m', w') \<and> held m' = d \<and> script_bytes w' = rest"
proof -
  from retry_completes [OF assms(1)] obtain m' w' where r: "retry recv (Suc (length w)) m w = Some (m', w')" by blast
  have "inv m" "framed d" using await_inv [OF assms(1)] by simp_all
  with retry_delivers [OF r] have "framed (held m')" "held m' @ script_bytes w' = d @ rest" using assms(2) by auto
  then show ?thesis using r framed_unique \<open>framed d\<close> by (metis same_append_eq)
qed

end

end
