(* ===== verification/Tls13_Record.thy ===== *)
theory Tls13_Record
  imports Tls13_Buffer
begin

text \<open>
  TLS 1.3 records on the wire, \<^verbatim>\<open>ssl/tls13_record.c\<close>: a record is received through the buffer in two
  steps, its header and then its payload, and both may be interrupted and resumed.
\<close>

abbreviation (input) TLS13_RECORD_HEADER_LEN :: nat where "TLS13_RECORD_HEADER_LEN \<equiv> 5"
abbreviation (input) TLS13_RECORD_MAX_CIPHERTEXT_LEN :: nat where "TLS13_RECORD_MAX_CIPHERTEXT_LEN \<equiv> 16640"
abbreviation (input) TLS13_RECORD_MAX_LEN :: nat where "TLS13_RECORD_MAX_LEN \<equiv> 16645"
abbreviation (input) SSL3_VERSION_MAJOR :: u16 where "SSL3_VERSION_MAJOR \<equiv> 3"

record tls13_record =
  rec_version :: u16
  rec_content_type :: u8
  rec_rec_len :: nat
  rec_data :: "bytes option"
  rec_data_len :: nat
  rec_cbs :: CBS
  rec_buf :: tls13_buffer

definition tls13_record_new :: "(nat \<Rightarrow> bool) \<Rightarrow> tls13_record option" where
  "tls13_record_new grant =
     map_option (\<lambda>buf. \<lparr>rec_version = 0, rec_content_type = 0, rec_rec_len = 0, rec_data = None,
       rec_data_len = 0, rec_cbs = CBS_init [], rec_buf = buf\<rparr>) (tls13_buffer_new grant TLS13_RECORD_MAX_LEN)"

definition tls13_record_version :: "tls13_record \<Rightarrow> u16" where
  "tls13_record_version rcd = rec_version rcd"

definition tls13_record_content_type :: "tls13_record \<Rightarrow> u8" where
  "tls13_record_content_type rcd = rec_content_type rcd"

text \<open>The bytes of \<open>rec->data\<close>, of which the first \<open>rec->data_len\<close> count.\<close>

definition rec_mem :: "tls13_record \<Rightarrow> bytes" where
  "rec_mem rcd = (case rec_data rcd of None \<Rightarrow> [] | Some d \<Rightarrow> d)"

definition tls13_record_header :: "tls13_record \<Rightarrow> CBS option" where
  "tls13_record_header rcd =
     (if rec_data_len rcd < TLS13_RECORD_HEADER_LEN then None
      else Some (CBS_init (take TLS13_RECORD_HEADER_LEN (rec_mem rcd))))"

definition tls13_record_data :: "tls13_record \<Rightarrow> CBS" where
  "tls13_record_data rcd = CBS_init (take (rec_data_len rcd) (rec_mem rcd))"

definition tls13_record_content :: "tls13_record \<Rightarrow> CBS option" where
  "tls13_record_content rcd =
     (case CBS_skip (tls13_record_data rcd) TLS13_RECORD_HEADER_LEN of
        (None, _) \<Rightarrow> None
      | (Some _, content) \<Rightarrow> Some (CBS_dup content))"

definition tls13_record_set_data :: "tls13_record \<Rightarrow> bytes \<Rightarrow> bool \<times> tls13_record" where
  "tls13_record_set_data rcd data =
     (if TLS13_RECORD_MAX_LEN < length data then (False, rcd)
      else (True, rcd\<lparr>rec_data := Some data, rec_data_len := length data, rec_cbs := CBS_init data\<rparr>))"

text \<open>The two halves of \<open>tls13_record_recv\<close>: the header, parsed when \<open>content_type\<close> is not yet known, and
  the payload.\<close>

definition record_recv_header ::
    "(nat \<Rightarrow> bool) \<Rightarrow> 'w read_cb \<Rightarrow> tls13_record \<Rightarrow> 'w \<Rightarrow> int \<times> tls13_record \<times> 'w" where
  "record_recv_header grant wire_read rcd w =
     (case tls13_buffer_extend grant wire_read (rec_buf rcd) TLS13_RECORD_HEADER_LEN w of
        (ret, buf, w') \<Rightarrow>
          let rcd = rcd\<lparr>rec_buf := buf\<rparr> in
          if ret \<le> 0 then (ret, rcd, w')
          else case CBS_get_u8 (tls13_buffer_cbs buf) of
            (None, _) \<Rightarrow> (TLS13_IO_FAILURE, rcd, w')
          | (Some content_type, cbs) \<Rightarrow>
              (case CBS_get_u16 cbs of
                 (None, _) \<Rightarrow> (TLS13_IO_FAILURE, rcd, w')
               | (Some vers, cbs) \<Rightarrow>
                   (case CBS_get_u16 cbs of
                      (None, _) \<Rightarrow> (TLS13_IO_FAILURE, rcd, w')
                    | (Some rec_len, cbs) \<Rightarrow>
                        if drop_bit 8 vers \<noteq> SSL3_VERSION_MAJOR then (TLS13_IO_RECORD_VERSION, rcd, w')
                        else if TLS13_RECORD_MAX_CIPHERTEXT_LEN < unat rec_len
                        then (TLS13_IO_RECORD_OVERFLOW, rcd, w')
                        else (TLS13_IO_SUCCESS, rcd\<lparr>rec_content_type := content_type,
                               rec_version := vers, rec_rec_len := unat rec_len\<rparr>, w'))))"

definition record_recv_payload ::
    "(nat \<Rightarrow> bool) \<Rightarrow> 'w read_cb \<Rightarrow> tls13_record \<Rightarrow> 'w \<Rightarrow> int \<times> tls13_record \<times> 'w" where
  "record_recv_payload grant wire_read rcd w =
     (case tls13_buffer_extend grant wire_read (rec_buf rcd) (TLS13_RECORD_HEADER_LEN + rec_rec_len rcd) w of
        (ret, buf, w') \<Rightarrow>
          if ret \<le> 0 then (ret, rcd\<lparr>rec_buf := buf\<rparr>, w')
          else case tls13_buffer_finish buf of
            ((data, data_len), buf') \<Rightarrow>
              (int data_len, rcd\<lparr>rec_data := data, rec_data_len := data_len, rec_buf := buf'\<rparr>, w'))"

definition tls13_record_recv ::
    "(nat \<Rightarrow> bool) \<Rightarrow> 'w read_cb \<Rightarrow> tls13_record \<Rightarrow> 'w \<Rightarrow> int \<times> tls13_record \<times> 'w" where
  "tls13_record_recv grant wire_read rcd w =
     (if rec_data rcd \<noteq> None then (TLS13_IO_FAILURE, rcd, w)
      else if rec_content_type rcd = 0 then
        (case record_recv_header grant wire_read rcd w of
           (ret, rcd', w') \<Rightarrow>
             if ret \<le> 0 then (ret, rcd', w') else record_recv_payload grant wire_read rcd' w')
      else record_recv_payload grant wire_read rcd w)"

text \<open>The loop of \<open>tls13_record_send\<close>: it stops when the window is empty, when the transport does not
  take more, and when the transport claims to have taken more than it was offered.\<close>

function send_loop :: "'w write_cb \<Rightarrow> CBS \<Rightarrow> 'w \<Rightarrow> int option \<times> CBS \<times> 'w" where
  "send_loop wire_write cbs w =
     (if CBS_len cbs = 0 then (None, cbs, w)
      else case wire_write w (CBS_data cbs) of
        (ret, w') \<Rightarrow>
          if ret \<le> 0 then (Some ret, cbs, w')
          else case CBS_skip cbs (nat ret) of
            (None, cbs') \<Rightarrow> (Some TLS13_IO_FAILURE, cbs', w')
          | (Some _, cbs') \<Rightarrow> send_loop wire_write cbs' w')"
  by pat_completeness auto
termination send_loop
  by (relation "measure (\<lambda>(f, cbs, w). CBS_len cbs)")
    (auto simp: CBS_skip_def cbs_get_def CBS_len_def split: if_splits)

declare send_loop.simps [simp del]

definition tls13_record_send :: "'w write_cb \<Rightarrow> tls13_record \<Rightarrow> 'w \<Rightarrow> int \<times> tls13_record \<times> 'w" where
  "tls13_record_send wire_write rcd w =
     (if rec_data rcd = None then (TLS13_IO_FAILURE, rcd, w)
      else case send_loop wire_write (rec_cbs rcd) w of
        (Some ret, cbs, w') \<Rightarrow> (ret, rcd\<lparr>rec_cbs := cbs\<rparr>, w')
      | (None, cbs, w') \<Rightarrow> (int (rec_data_len rcd), rcd\<lparr>rec_cbs := cbs\<rparr>, w'))"

section \<open>Receiving\<close>

text \<open>The frame of a record, the bytes a record has taken from its source, and the invariant that ties
  its fields to them.\<close>

definition record_frame :: "bytes \<Rightarrow> bool" where
  "record_frame d \<longleftrightarrow> 5 \<le> length d \<and> d ! 1 = 3 \<and> length d = 5 + be_val (take 2 (drop 3 d))
     \<and> be_val (take 2 (drop 3 d)) \<le> 16640"

definition record_held :: "tls13_record \<Rightarrow> bytes" where
  "record_held rcd = (case rec_data rcd of None \<Rightarrow> tb_bytes (rec_buf rcd) | Some d \<Rightarrow> take (rec_data_len rcd) d)"

definition header_matches :: "tls13_record \<Rightarrow> bytes \<Rightarrow> bool" where
  "header_matches rcd d \<longleftrightarrow> 5 \<le> length d \<and> rec_content_type rcd = d ! 0 \<and> d ! 1 = 3
     \<and> unat (rec_version rcd) = be_val (take 2 (drop 1 d))
     \<and> rec_rec_len rcd = be_val (take 2 (drop 3 d)) \<and> rec_rec_len rcd \<le> 16640"

definition record_inv :: "tls13_record \<Rightarrow> bool" where
  "record_inv rcd \<longleftrightarrow> rec_data rcd = None \<and> buffer_ok (rec_buf rcd)
     \<and> (rec_content_type rcd \<noteq> 0 \<longrightarrow> header_matches rcd (tb_bytes (rec_buf rcd)))"

lemma ucast_u16_of_nat:
  assumes "n < 65536"
  shows "(ucast (word_of_nat n :: u32) :: u16) = word_of_nat n"
proof -
  have "(ucast (word_of_nat n :: u32) :: u16) = word_of_nat (unat (word_of_nat n :: u32))" by simp
  also have "\<dots> = word_of_nat n" using assms by (simp del: of_nat_unat)
  finally show ?thesis .
qed

lemma drop_bit_u16_of_nat: "n < 65536 \<Longrightarrow> unat (drop_bit 8 (word_of_nat n :: u16)) = n div 256"
  by (simp only: unat_drop_bit_eq unat_word_of_nat_u16) (simp add: drop_bit_eq_div)

lemma get_u16_Cons:
  assumes "cbs_data c = a # b # rest"
  shows "CBS_get_u16 c = (Some (word_of_nat (be_val [a, b])), c\<lparr>cbs_data := rest\<rparr>)"
proof -
  have "cbs_get_u c 2 = (Some (word_of_nat (be_val [a, b])), c\<lparr>cbs_data := rest\<rparr>)"
    using assms by (auto simp: cbs_get_u_Some_iff intro!: exI [of _ "[a, b]"])
  moreover have "be_val [a, b] < 65536" using be_val_less [of "[a, b]"] by simp
  ultimately show ?thesis by (simp add: CBS_get_u16_def ucast_u16_of_nat)
qed

lemma get_u16_cases:
  assumes "cbs_data c = a # b # rest"
  obtains v where "CBS_get_u16 c = (Some v, c\<lparr>cbs_data := rest\<rparr>)" and "unat v = be_val [a, b]"
    and "drop_bit 8 v = 3 \<longleftrightarrow> a = 3"
proof -
  have n: "be_val [a, b] < 65536" using be_val_less [of "[a, b]"] by simp
  have "unat (drop_bit 8 (word_of_nat (be_val [a, b]) :: u16)) = be_val [a, b] div 256"
    using n by (rule drop_bit_u16_of_nat)
  also have "\<dots> = unat a" by (simp add: be_val_def)
  finally have "drop_bit 8 (word_of_nat (be_val [a, b]) :: u16) = 3 \<longleftrightarrow> a = 3"
    by (simp only: word_unat_eq_iff) simp
  then show thesis using that [OF get_u16_Cons [OF assms]] n by simp
qed

lemma header_matches_prefix:
  "header_matches rcd d \<Longrightarrow> d @ x = e @ y \<Longrightarrow> length d \<le> length e \<Longrightarrow> header_matches rcd e"
  by (auto simp: header_matches_def append_eq_append_conv2 nth_append)

lemma record_frameI:
  "header_matches rcd d \<Longrightarrow> length d = 5 + rec_rec_len rcd \<Longrightarrow> record_frame d"
  unfolding record_frame_def header_matches_def by metis

lemma record_frame_unique:
  assumes "record_frame d" and "record_frame e" and "d @ x = e @ y"
  shows "d = e"
proof -
  have "5 \<le> length d" "5 \<le> length e" using assms(1,2) unfolding record_frame_def by blast+
  then have "take 5 d = take 5 e" using arg_cong [OF assms(3), of "take 5"] by simp
  then have "drop 3 (take 5 d) = drop 3 (take 5 e)" by simp
  then have "take 2 (drop 3 d) = take 2 (drop 3 e)" by (simp add: drop_take)
  then have "length d = length e" using assms(1,2) unfolding record_frame_def by metis
  then show ?thesis using assms(3) by simp
qed

lemma five_bytes: "length d = 5 \<Longrightarrow> \<exists>t a b p q. d = [t, a, b, p, q]"
  by (auto simp: length_Suc_conv numeral_eq_Suc)

lemma record_header_parse:
  assumes ex: "tls13_buffer_extend grant rd (rec_buf rcd) 5 w = (r, buf, w1)" and pos: "0 < r"
    and d: "tb_bytes buf = [t, a, b, p, q]"
  obtains v :: u16 and l :: u16 where "record_recv_header grant rd rcd w =
      (if a \<noteq> 3 then (TLS13_IO_RECORD_VERSION, rcd\<lparr>rec_buf := buf\<rparr>, w1)
       else if 16640 < unat l then (TLS13_IO_RECORD_OVERFLOW, rcd\<lparr>rec_buf := buf\<rparr>, w1)
       else (1, rcd\<lparr>rec_buf := buf, rec_content_type := t, rec_version := v, rec_rec_len := unat l\<rparr>, w1))"
    and "unat v = be_val [a, b]" and "unat l = be_val [p, q]"
proof -
  let ?c = "CBS_init [t, a, b, p, q]"
  obtain v where v: "CBS_get_u16 (?c\<lparr>cbs_data := [a, b, p, q]\<rparr>) = (Some v, ?c\<lparr>cbs_data := [p, q]\<rparr>)"
    "unat v = be_val [a, b]" "drop_bit 8 v = 3 \<longleftrightarrow> a = 3"
    by (rule get_u16_cases [of "?c\<lparr>cbs_data := [a, b, p, q]\<rparr>" a b "[p, q]"]) auto
  obtain l where l: "CBS_get_u16 (?c\<lparr>cbs_data := [p, q]\<rparr>) = (Some l, ?c\<lparr>cbs_data := []\<rparr>)" "unat l = be_val [p, q]"
    by (rule get_u16_cases [of "?c\<lparr>cbs_data := [p, q]\<rparr>" p q "[]"]) auto
  have "CBS_get_u8 ?c = (Some t, ?c\<lparr>cbs_data := [a, b, p, q]\<rparr>)" by (simp add: CBS_get_u8_Cons CBS_init_def)
  moreover have "tls13_buffer_cbs buf = ?c" using d by (simp add: tls13_buffer_cbs_def tb_bytes_def)
  ultimately have "record_recv_header grant rd rcd w =
      (if a \<noteq> 3 then (TLS13_IO_RECORD_VERSION, rcd\<lparr>rec_buf := buf\<rparr>, w1)
       else if 16640 < unat l then (TLS13_IO_RECORD_OVERFLOW, rcd\<lparr>rec_buf := buf\<rparr>, w1)
       else (1, rcd\<lparr>rec_buf := buf, rec_content_type := t, rec_version := v, rec_rec_len := unat l\<rparr>, w1))"
    using pos v(3) by (simp add: record_recv_header_def ex Let_def v(1) l(1))
  then show thesis using that v(2) l(2) by blast
qed

context byte_source
begin

lemma record_header_spec:
  assumes "record_recv_header grant read_cb rcd w = (ret, rcd', w')" and "record_inv rcd"
  shows "buffer_ok (rec_buf rcd') \<and> rec_data rcd' = None
    \<and> tb_bytes (rec_buf rcd') @ stream w' = tb_bytes (rec_buf rcd) @ stream w
    \<and> (0 < ret \<longrightarrow> header_matches rcd' (tb_bytes (rec_buf rcd')))
    \<and> (ret \<le> 0 \<longrightarrow> rec_content_type rcd' = rec_content_type rcd)"
proof -
  obtain r buf w1 where ex: "tls13_buffer_extend grant read_cb (rec_buf rcd) 5 w = (r, buf, w1)"
    by (metis prod_cases3)
  have inv: "rec_data rcd = None" "buffer_ok (rec_buf rcd)" using assms(2) by (simp_all add: record_inv_def)
  note sp = extend_spec [OF ex inv(2)]
  show ?thesis
  proof (cases "0 < r")
    case False
    then show ?thesis using assms(1) ex inv sp by (auto simp: record_recv_header_def Let_def)
  next
    case True
    then have "length (tb_bytes buf) = 5" using sp by simp
    then obtain t a b p q where d: "tb_bytes buf = [t, a, b, p, q]" using five_bytes by metis
    from record_header_parse [OF ex True this] obtain v :: u16 and l :: u16 where
      h: "record_recv_header grant read_cb rcd w =
        (if a \<noteq> 3 then (TLS13_IO_RECORD_VERSION, rcd\<lparr>rec_buf := buf\<rparr>, w1)
         else if 16640 < unat l then (TLS13_IO_RECORD_OVERFLOW, rcd\<lparr>rec_buf := buf\<rparr>, w1)
         else (1, rcd\<lparr>rec_buf := buf, rec_content_type := t, rec_version := v, rec_rec_len := unat l\<rparr>, w1))"
      "unat v = be_val [a, b]" "unat l = be_val [p, q]" .
    then show ?thesis using sp inv d assms(1) by (auto simp: header_matches_def split: if_splits)
  qed
qed

lemma record_payload_spec:
  assumes "record_recv_payload grant read_cb rcd w = (ret, rcd', w')" and "rec_data rcd = None"
    and "buffer_ok (rec_buf rcd)" and "header_matches rcd (tb_bytes (rec_buf rcd))"
  shows "record_held rcd' @ stream w' = tb_bytes (rec_buf rcd) @ stream w
    \<and> header_matches rcd' (record_held rcd')
    \<and> (ret \<le> 0 \<longrightarrow> record_inv rcd')
    \<and> (0 < ret \<longrightarrow> record_frame (record_held rcd') \<and> ret = int (length (record_held rcd')) \<and> rec_data rcd' \<noteq> None)"
proof -
  obtain r buf w1 where ex: "tls13_buffer_extend grant read_cb (rec_buf rcd) (5 + rec_rec_len rcd) w = (r, buf, w1)"
    by (metis prod_cases3)
  note sp = extend_spec [OF ex assms(3)]
  have hm: "header_matches rcd (tb_bytes buf)"
    using header_matches_prefix [OF assms(4), of "stream w" "tb_bytes buf" "stream w1"] sp assms(3) by simp
  show ?thesis
  proof (cases "0 < r")
    case False
    then have "(ret, rcd', w') = (r, rcd\<lparr>rec_buf := buf\<rparr>, w1)"
      using assms(1) ex by (simp add: record_recv_payload_def)
    then show ?thesis using sp assms(2) hm False
      by (simp add: record_held_def record_inv_def header_matches_def)
  next
    case True
    then have e: "ret = int (tb_len buf)" "w' = w1"
      "rcd' = rcd\<lparr>rec_data := tb_data buf, rec_data_len := tb_len buf,
         rec_buf := buf\<lparr>tb_capacity := 0, tb_data := None, tb_len := 0\<rparr>\<rparr>"
      using assms(1) ex by (simp_all add: record_recv_payload_def tls13_buffer_finish_def)
    have len: "tb_len buf = 5 + rec_rec_len rcd" using sp True by simp
    then have nn: "tb_data buf \<noteq> None" using sp by (cases "tb_data buf") (auto simp: buffer_ok_def tb_mem_def)
    then have held: "record_held rcd' = tb_bytes buf" using nn by (auto simp: e record_held_def tb_bytes_def tb_mem_def)
    have "header_matches rcd' (tb_bytes buf)" using hm by (simp add: e header_matches_def)
    moreover have "record_frame (tb_bytes buf)" using record_frameI [OF hm] sp len by simp
    moreover have "rec_data rcd' \<noteq> None" using nn by (simp add: e)
    ultimately show ?thesis using sp True e(1,2) unfolding held by simp
  qed
qed

lemma record_recv_spec:
  assumes "tls13_record_recv grant read_cb rcd w = (ret, rcd', w')" and "record_inv rcd"
  shows "record_held rcd' @ stream w' = record_held rcd @ stream w
    \<and> (ret \<le> 0 \<longrightarrow> record_inv rcd')
    \<and> (0 < ret \<longrightarrow> record_frame (record_held rcd') \<and> header_matches rcd' (record_held rcd')
         \<and> ret = int (length (record_held rcd')) \<and> rec_data rcd' \<noteq> None)"
proof -
  have inv: "rec_data rcd = None" "buffer_ok (rec_buf rcd)" "record_held rcd = tb_bytes (rec_buf rcd)"
    using assms(2) by (simp_all add: record_inv_def record_held_def)
  show ?thesis
  proof (cases "rec_content_type rcd = 0")
    case False
    then have "record_recv_payload grant read_cb rcd w = (ret, rcd', w')"
      using assms(1) inv by (simp add: tls13_record_recv_def)
    from record_payload_spec [OF this inv(1,2)] show ?thesis
      using assms(2) False inv(3) by (simp add: record_inv_def)
  next
    case True
    obtain r rcd1 w1 where h: "record_recv_header grant read_cb rcd w = (r, rcd1, w1)" by (metis prod_cases3)
    note hs = record_header_spec [OF h assms(2)]
    show ?thesis
    proof (cases "0 < r")
      case False
      then have "(ret, rcd', w') = (r, rcd1, w1)" using assms(1) inv True h by (simp add: tls13_record_recv_def)
      then show ?thesis using hs True False inv(3) by (simp add: record_inv_def record_held_def)
    next
      case pos: True
      then have "record_recv_payload grant read_cb rcd1 w1 = (ret, rcd', w')"
        using assms(1) inv True h by (simp add: tls13_record_recv_def)
      from record_payload_spec [OF this] show ?thesis using hs pos inv(3) by simp
    qed
  qed
qed

end

interpretation script_record: resumable_receiver "tls13_record_recv grant script_read" script_bytes
    record_inv record_held record_frame for grant
proof
  show "record_inv m \<Longrightarrow> tls13_record_recv grant script_read m w = (ret, m', w') \<Longrightarrow> ret \<le> 0 \<Longrightarrow>
      record_inv m' \<and> record_held m' @ script_bytes w' = record_held m @ script_bytes w" for m w ret m' w'
    using script.record_recv_spec [of grant m w ret m' w'] by simp
  show "record_inv m \<Longrightarrow> tls13_record_recv grant script_read m w = (ret, m', w') \<Longrightarrow> 0 < ret \<Longrightarrow>
      record_held m' @ script_bytes w' = record_held m @ script_bytes w \<and> record_frame (record_held m')"
    for m w ret m' w'
    using script.record_recv_spec [of grant m w ret m' w'] by simp
qed (rule record_frame_unique)


section \<open>Progress\<close>

text \<open>The states of a record that is being received from a transport whose bytes start with the frame \<open>d\<close>.\<close>

definition awaiting :: "bytes \<Rightarrow> tls13_record \<Rightarrow> wire_event list \<Rightarrow> bool" where
  "awaiting d rcd w \<longleftrightarrow> record_inv rcd \<and> record_frame d \<and> d ! 0 \<noteq> 0 \<and> (\<exists>rest. record_held rcd @ script_bytes w = d @ rest)
     \<and> length (record_held rcd) \<le> length d \<and> (rec_content_type rcd = 0 \<longrightarrow> length (record_held rcd) \<le> 5)"

lemma header_matches_frame:
  assumes "header_matches rcd h" and "h @ x = d @ y" and "record_frame d"
  shows "rec_content_type rcd = d ! 0 \<and> 5 + rec_rec_len rcd = length d"
proof -
  have l: "5 \<le> length h" "5 \<le> length d" "length d = 5 + be_val (take 2 (drop 3 d))"
    using assms(1,3) unfolding header_matches_def record_frame_def by blast+
  have t: "take 5 h = take 5 d" using arg_cong [OF assms(2), of "take 5"] l(1,2) by simp
  then have "drop 3 (take 5 h) = drop 3 (take 5 d)" by simp
  then have b: "take 2 (drop 3 h) = take 2 (drop 3 d)" by (simp add: drop_take)
  have "h ! 0 = d ! 0" using t l(1,2) by (metis nth_take zero_less_numeral)
  moreover have "rec_content_type rcd = h ! 0" "rec_rec_len rcd = be_val (take 2 (drop 3 h))"
    using assms(1) unfolding header_matches_def by blast+
  ultimately have "rec_content_type rcd = d ! 0" "rec_rec_len rcd = be_val (take 2 (drop 3 d))"
    by (simp_all only: b)
  then show ?thesis by (simp only: l(3) [symmetric])
qed

lemma script_payload_progress:
  assumes "record_recv_payload grant script_read rcd w = (ret, rcd', w')" and "\<forall>n. grant n"
    and "rec_data rcd = None" and "buffer_ok (rec_buf rcd)" and "header_matches rcd (tb_bytes (rec_buf rcd))"
    and "tb_bytes (rec_buf rcd) @ script_bytes w = d @ rest" and "record_frame d" and "tb_len (rec_buf rcd) \<le> length d"
    and "ret \<le> 0"
  shows "length w' < length w \<and> length (record_held rcd') \<le> length d \<and> rec_content_type rcd' = rec_content_type rcd"
proof -
  let ?len = "5 + rec_rec_len rcd"
  have len: "?len = length d" using header_matches_frame [OF assms(5,6,7)] by simp
  obtain r buf w1 where ex: "tls13_buffer_extend grant script_read (rec_buf rcd) ?len w = (r, buf, w1)"
    by (metis prod_cases3)
  have "length (tb_bytes (rec_buf rcd)) + length (script_bytes w) = length d + length rest"
    using arg_cong [OF assms(6), of length] by simp
  then have "?len - tb_len (rec_buf rcd) \<le> length (script_bytes w)" "tb_len (rec_buf rcd) \<le> ?len"
    using length_tb_bytes [OF assms(4)] assms(8) len by linarith+
  then have p: "length w1 \<le> length w \<and> (r \<le> 0 \<longrightarrow> length w1 < length w)"
    by (intro script_extend_progress [OF ex assms(4,2)]) simp_all
  have "0 < ?len" by simp
  have e: "r \<le> 0" "rcd' = rcd\<lparr>rec_buf := buf\<rparr>" "w' = w1"
    using assms(1,9) script.extend_spec [OF ex assms(4)]
    by (auto simp: record_recv_payload_def ex tls13_buffer_finish_def split: if_splits)
  have "tb_len buf \<le> ?len" "buffer_ok buf" 
    using script.extend_spec [OF ex assms(4) \<open>0 < ?len\<close>] assms(8) len by auto
  then show ?thesis using e p assms(3) len by (simp add: record_held_def)
qed

lemma drop_3_take_5: "take 2 (drop 3 d) = drop 3 (take 5 d)"
  by (simp add: drop_take)

lemma script_header_progress:
  assumes "record_recv_header grant script_read rcd w = (ret, rcd', w')" and "\<forall>n. grant n" and inv: "record_inv rcd"
    and st: "tb_bytes (rec_buf rcd) @ script_bytes w = d @ rest" and fr: "record_frame d" and l: "tb_len (rec_buf rcd) \<le> 5"
  shows "length w' \<le> length w \<and> (ret \<le> 0 \<longrightarrow> length w' < length w) \<and> tb_len (rec_buf rcd') \<le> 5"
proof -
  obtain r buf w1 where ex: "tls13_buffer_extend grant script_read (rec_buf rcd) 5 w = (r, buf, w1)"
    by (metis prod_cases3)
  have bok: "buffer_ok (rec_buf rcd)" using inv by (simp add: record_inv_def)
  have "5 \<le> length d" using fr unfolding record_frame_def by blast
  moreover have "length (tb_bytes (rec_buf rcd)) + length (script_bytes w) = length d + length rest"
    using arg_cong [OF st, of length] by simp
  ultimately have p: "length w1 \<le> length w \<and> (r \<le> 0 \<longrightarrow> length w1 < length w)"
    using script_extend_progress [OF ex bok assms(2) l] bok by simp
  note sp = script.extend_spec [OF ex bok]
  have bw: "rec_buf rcd' = buf" "w' = w1"
    using assms(1) by (auto simp: record_recv_header_def ex Let_def split: if_splits prod.splits option.splits)
  have "0 < ret" if "0 < r"
  proof -
    have "length (tb_bytes buf) = 5" using sp that by simp
    then obtain t a b p q where h: "tb_bytes buf = [t, a, b, p, q]" using five_bytes by metis
    have "take 5 (tb_bytes buf @ script_bytes w1) = take 5 (d @ rest)" using sp st by simp
    then have hd: "take 5 d = [t, a, b, p, q]" using \<open>5 \<le> length d\<close> h by simp
    then have "take 2 (drop 3 d) = [p, q]" by (simp add: drop_3_take_5)
    moreover have "d ! 1 = a" using arg_cong [OF hd, of "\<lambda>x. x ! 1"] by simp
    ultimately have "a = 3" "be_val [p, q] \<le> 16640" using fr unfolding record_frame_def by metis+
    then show ?thesis using assms(1) record_header_parse [OF ex that h] by (metis fst_conv not_le zero_less_one)
  qed
  then show ?thesis using p sp l bw by auto
qed

lemma awaiting_recv:
  assumes "tls13_record_recv grant script_read rcd w = (ret, rcd', w')" and "\<forall>n. grant n" and aw: "awaiting d rcd w"
    and neg: "ret \<le> 0"
  shows "awaiting d rcd' w' \<and> length w' < length w"
proof -
  have fr: "record_frame d" and t: "d ! 0 \<noteq> 0" using aw by (simp_all add: awaiting_def)
  obtain rest where st: "record_held rcd @ script_bytes w = d @ rest" using aw by (auto simp: awaiting_def)
  have inv: "record_inv rcd" "rec_data rcd = None" "buffer_ok (rec_buf rcd)" "record_held rcd = tb_bytes (rec_buf rcd)"
    "length (record_held rcd) \<le> length d" "rec_content_type rcd = 0 \<Longrightarrow> tb_len (rec_buf rcd) \<le> 5"
    using aw by (auto simp: awaiting_def record_inv_def record_held_def)
  note sp = script.record_recv_spec [OF assms(1) inv(1)]
  have "length w' < length w \<and> length (record_held rcd') \<le> length d
      \<and> (rec_content_type rcd' = 0 \<longrightarrow> length (record_held rcd') \<le> 5)"
  proof (cases "rec_content_type rcd = 0")
    case False
    then have "record_recv_payload grant script_read rcd w = (ret, rcd', w')"
      using assms(1) inv by (simp add: tls13_record_recv_def)
    then show ?thesis using script_payload_progress [of grant rcd w ret rcd' w' d rest] assms(2) inv st fr neg False
      by (simp add: record_inv_def)
  next
    case True
    obtain r rcd1 w1 where h: "record_recv_header grant script_read rcd w = (r, rcd1, w1)" by (metis prod_cases3)
    note hs = script.record_header_spec [OF h inv(1)]
    have hp: "length w1 \<le> length w" "r \<le> 0 \<Longrightarrow> length w1 < length w" "tb_len (rec_buf rcd1) \<le> 5"
      using script_header_progress [OF h assms(2) inv(1)] st fr inv True by auto
    have "5 \<le> length d" using fr unfolding record_frame_def by blast
    show ?thesis
    proof (cases "0 < r")
      case False
      then have "(ret, rcd', w') = (r, rcd1, w1)" using assms(1) inv True h by (simp add: tls13_record_recv_def)
      then show ?thesis using hs hp False \<open>5 \<le> length d\<close> by (simp add: record_held_def)
    next
      case pos: True
      then have p: "record_recv_payload grant script_read rcd1 w1 = (ret, rcd', w')"
        using assms(1) inv True h by (simp add: tls13_record_recv_def)
      have st1: "tb_bytes (rec_buf rcd1) @ script_bytes w1 = d @ rest" using hs st inv(4) by simp
      have hm: "header_matches rcd1 (tb_bytes (rec_buf rcd1))" using hs pos by simp
      have "rec_content_type rcd1 \<noteq> 0" using header_matches_frame [OF hm st1 fr] t by simp
      then show ?thesis
        using script_payload_progress [OF p assms(2) _ _ hm st1 fr _ neg] hs hp \<open>5 \<le> length d\<close> by auto
    qed
  qed
  then show ?thesis using sp neg st fr t by (auto simp: awaiting_def)
qed

interpretation script_record_progress: progressing_receiver "tls13_record_recv (\<lambda>_. True) script_read"
    record_inv record_held record_frame awaiting
proof
  show "awaiting d m w \<Longrightarrow> tls13_record_recv (\<lambda>_. True) script_read m w = (ret, m', w') \<Longrightarrow> ret \<le> 0 \<Longrightarrow>
      awaiting d m' w' \<and> length w' < length w" for d m w ret m' w'
    using awaiting_recv [of "\<lambda>_. True" m w ret m' w' d] by simp
  show "awaiting d m w \<Longrightarrow> record_inv m \<and> record_frame d" for d m w by (simp add: awaiting_def)
qed


section \<open>Sending\<close>

text \<open>A sink of bytes: a write that returns a positive number has taken that many of the offered bytes,
  from the front.\<close>

locale byte_sink =
  fixes write_cb :: "'w write_cb" and written :: "'w \<Rightarrow> bytes"
  assumes write_some: "write_cb w bs = (ret, w') \<Longrightarrow> 0 < ret \<Longrightarrow>
      nat ret \<le> length bs \<and> written w' = written w @ take (nat ret) bs"
    and write_none: "write_cb w bs = (ret, w') \<Longrightarrow> ret \<le> 0 \<Longrightarrow> written w' = written w"
begin

lemma send_loop_spec:
  "send_loop write_cb cbs w = (r, cbs', w') \<Longrightarrow>
     written w' @ CBS_data cbs' = written w @ CBS_data cbs \<and> (r = None \<longleftrightarrow> CBS_len cbs' = 0)
     \<and> (\<forall>x. r = Some x \<longrightarrow> x \<le> 0)"
proof (induction "CBS_len cbs" arbitrary: cbs w rule: less_induct)
  case less
  obtain ret w1 where wr: "write_cb w (CBS_data cbs) = (ret, w1)" by force
  consider "CBS_len cbs = 0" | "CBS_len cbs \<noteq> 0" "ret \<le> 0" | "CBS_len cbs \<noteq> 0" "0 < ret" by linarith
  then show ?case
  proof cases
    case 1
    then show ?thesis using less.prems by (simp add: send_loop.simps [of write_cb cbs])
  next
    case 2
    then show ?thesis using less.prems wr write_none [OF wr] by (auto simp: send_loop.simps [of write_cb cbs])
  next
    case 3
    let ?c = "cbs\<lparr>cbs_data := drop (nat ret) (cbs_data cbs)\<rparr>"
    have w: "nat ret \<le> CBS_len cbs" "written w1 = written w @ take (nat ret) (cbs_data cbs)"
      using write_some [OF wr 3(2)] by (simp_all add: CBS_data_def CBS_len_def)
    have "send_loop write_cb cbs w = send_loop write_cb ?c w1"
      using wr 3 w(1) by (subst send_loop.simps) (simp add: CBS_skip_def cbs_get_def)
    then have e: "send_loop write_cb ?c w1 = (r, cbs', w')" using less.prems by simp
    have "CBS_len ?c < CBS_len cbs" using 3 w(1) by (simp add: CBS_len_def)
    note ih = less.hyps [OF this e]
    have "written w1 @ CBS_data ?c = written w @ CBS_data cbs" using w(2) by (simp add: CBS_data_def)
    with ih show ?thesis by metis
  qed
qed

end

text \<open>A scripted sink: the number of bytes each write takes, and what has been written.\<close>

fun script_write :: "(int list \<times> bytes) write_cb" where
  "script_write ([], out) bs = (int (length bs), ([], out @ bs))"
| "script_write (n # ns, out) bs =
     (if n \<le> 0 then (n, (ns, out)) else (int (length (take (nat n) bs)), (ns, out @ take (nat n) bs)))"

interpretation script_sink: byte_sink script_write snd
proof
  fix w bs ret w'
  assume wr: "script_write w bs = (ret, w')"
  show "0 < ret \<Longrightarrow> nat ret \<le> length bs \<and> snd w' = snd w @ take (nat ret) bs"
    using wr by (cases "(w, bs)" rule: script_write.cases) (auto simp: min_def split: if_splits)
  show "ret \<le> 0 \<Longrightarrow> snd w' = snd w"
    using wr by (cases "(w, bs)" rule: script_write.cases) (auto simp: min_def split: if_splits)
qed


section \<open>Properties\<close>

text \<open>C23. Receiving a record loses and invents nothing: for every read callback that keeps its contract,
  the bytes held by the record and those still in the source together never change; an interrupted
  call leaves a record that can be resumed; and a successful call returns one whole frame, a header
  with a version 3.x and a length of at most 16640 and exactly that many bytes, with the fields of the
  record read from it.\<close>

theorem record_recv_exact:
  assumes "byte_source read_cb stream" and "record_inv rcd"
    and "tls13_record_recv grant read_cb rcd w = (ret, rcd', w')"
  shows "record_held rcd' @ stream w' = record_held rcd @ stream w
    \<and> (ret \<le> 0 \<longrightarrow> record_inv rcd')
    \<and> (0 < ret \<longrightarrow> record_frame (record_held rcd') \<and> header_matches rcd' (record_held rcd')
         \<and> ret = int (length (record_held rcd')) \<and> CBS_data (tls13_record_data rcd') = record_held rcd')"
proof -
  note sp = byte_source.record_recv_spec [OF assms(1,3,2)]
  moreover have "CBS_data (tls13_record_data rcd') = record_held rcd'" if "0 < ret"
  proof -
    have "rec_data rcd' \<noteq> None" using sp that by simp
    then show ?thesis by (auto simp: tls13_record_data_def record_held_def CBS_data_def rec_mem_def)
  qed
  ultimately show ?thesis by blast
qed

lemma record_recv_exact_witness:
  "case tls13_record_recv (\<lambda>_. True) script_read
     \<lparr>rec_version = 0, rec_content_type = 0, rec_rec_len = 0, rec_data = None, rec_data_len = 0,
      rec_cbs = CBS_init [], rec_buf = \<lparr>tb_capacity = 0, tb_data = None, tb_len = 0, tb_offset = 0\<rparr>\<rparr>
     [Chunk [22, 3, 3, 0], Chunk [2, 7, 8]] of
     (ret, rcd', w') \<Rightarrow> record_held rcd' @ script_bytes w' = [22, 3, 3, 0, 2, 7, 8]"
proof -
  let ?r = "\<lparr>rec_version = 0, rec_content_type = 0, rec_rec_len = 0, rec_data = None, rec_data_len = 0,
      rec_cbs = CBS_init [], rec_buf = \<lparr>tb_capacity = 0, tb_data = None, tb_len = 0, tb_offset = 0\<rparr>\<rparr>"
  obtain ret rcd' w' where e: "tls13_record_recv (\<lambda>_. True) script_read ?r [Chunk [22, 3, 3, 0], Chunk [2, 7, 8]]
      = (ret, rcd', w')" by (metis prod_cases3)
  have "record_inv ?r" "record_held ?r = []"
    by (simp_all add: record_inv_def record_held_def buffer_ok_def tb_bytes_def tb_mem_def)
  then show ?thesis using record_recv_exact [OF script.byte_source_axioms _ e] e by simp
qed

text \<open>C24. However the transport cuts the bytes up and however often it stalls, a record arrives: if the
  bytes that come in start with a frame of non-zero type, calling \<open>tls13_record_recv\<close> again after every
  interruption, at most once more than the transport has events, completes with exactly that frame
  and leaves exactly the bytes behind it.\<close>

theorem record_delivery:
  assumes "\<forall>n. grant n" and "tls13_record_new grant = Some rcd" and "script_bytes w = d @ rest"
    and "record_frame d" and "d ! 0 \<noteq> 0"
  shows "\<exists>rcd' w'. retry (tls13_record_recv grant script_read) (Suc (length w)) rcd w = Some (rcd', w')
     \<and> record_held rcd' = d \<and> script_bytes w' = rest"
proof -
  obtain buf where buf: "tls13_buffer_new grant 16645 = Some buf" and rec: "rec_data rcd = None" "rec_buf rcd = buf"
    "rec_content_type rcd = 0" using assms(2) by (auto simp: tls13_record_new_def)
  note b = buffer_new_ok [OF buf]
  have inv: "record_inv rcd" "record_held rcd = []" using b rec by (simp_all add: record_inv_def record_held_def)
  then have "awaiting d rcd w" using assms(3-5) by (simp add: awaiting_def)
  moreover have "grant = (\<lambda>_. True)" using assms(1) by auto
  ultimately show ?thesis using script_record_progress.delivers [of d rcd w rest] inv(2) assms(3) by simp
qed

lemma record_delivery_witness:
  "\<exists>rcd' w'. retry (tls13_record_recv (\<lambda>_. True) script_read)
       (Suc (length [Chunk [22, 3], Stall (- 3), Chunk [3, 0, 2, 7, 8, 9]]))
       (the (tls13_record_new (\<lambda>_. True))) [Chunk [22, 3], Stall (- 3), Chunk [3, 0, 2, 7, 8, 9]] = Some (rcd', w')
     \<and> record_held rcd' = [22, 3, 3, 0, 2, 7, 8] \<and> script_bytes w' = [9]"
proof (rule record_delivery)
  show "tls13_record_new (\<lambda>_. True) = Some (the (tls13_record_new (\<lambda>_. True)))"
    by (simp add: tls13_record_new_def tls13_buffer_new_def tls13_buffer_resize_def)
  show "record_frame [22, 3, 3, 0, 2, 7, 8]" by (simp add: record_frame_def be_val_def)
qed simp_all

text \<open>C25. Sending a record writes its bytes once and in order: for every write callback that keeps its
  contract, what has been written and what is left to write together never change, an interrupted
  send can be resumed, and the send succeeds, returning the length of the record, exactly when
  nothing is left.\<close>

theorem record_send_exact:
  assumes "byte_sink write_cb written" and "rec_data rcd \<noteq> None" and "0 < rec_data_len rcd"
    and "tls13_record_send write_cb rcd w = (ret, rcd', w')"
  shows "written w' @ CBS_data (rec_cbs rcd') = written w @ CBS_data (rec_cbs rcd)
    \<and> (0 < ret \<longleftrightarrow> CBS_len (rec_cbs rcd') = 0) \<and> (0 < ret \<longrightarrow> ret = int (rec_data_len rcd))"
proof -
  obtain r cbs' w1 where l: "send_loop write_cb (rec_cbs rcd) w = (r, cbs', w1)" by (metis prod_cases3)
  note sp = byte_sink.send_loop_spec [OF assms(1) l]
  show ?thesis
  proof (cases r)
    case None
    then show ?thesis using sp assms(2-4) l by (auto simp: tls13_record_send_def)
  next
    case (Some x)
    then show ?thesis using sp assms(2-4) l by (auto simp: tls13_record_send_def)
  qed
qed

lemma record_send_exact_witness:
  "case tls13_record_send script_write
     \<lparr>rec_version = 3, rec_content_type = 22, rec_rec_len = 2, rec_data = Some [22, 3, 3], rec_data_len = 3,
      rec_cbs = CBS_init [22, 3, 3], rec_buf = \<lparr>tb_capacity = 0, tb_data = None, tb_len = 0, tb_offset = 0\<rparr>\<rparr>
     ([2, - 4], []) of
     (ret, rcd', w') \<Rightarrow> snd w' @ CBS_data (rec_cbs rcd') = [22, 3, 3]"
proof -
  let ?r = "\<lparr>rec_version = 3, rec_content_type = 22, rec_rec_len = 2, rec_data = Some [22, 3, 3], rec_data_len = 3,
      rec_cbs = CBS_init [22, 3, 3], rec_buf = \<lparr>tb_capacity = 0, tb_data = None, tb_len = 0, tb_offset = 0\<rparr>\<rparr>"
  obtain ret rcd' w' where e: "tls13_record_send script_write ?r ([2, - 4], []) = (ret, rcd', w')"
    by (metis prod_cases3)
  show ?thesis using record_send_exact [OF script_sink.byte_sink_axioms _ _ e] e by (simp add: CBS_data_def)
qed

end
