(* ===== verification/Tls13_Handshake_Msg.thy ===== *)
theory Tls13_Handshake_Msg
  imports Tls13_Record CBB_Messages
begin

text \<open>
  TLS 1.3 handshake messages, \<^verbatim>\<open>ssl/tls13_handshake_msg.c\<close>: a message is built with a \<open>CBB\<close> behind a
  header of type and length, sent through the record layer, and received through the buffer in two
  steps that may be interrupted.
\<close>

abbreviation (input) TLS13_HANDSHAKE_MSG_HEADER_LEN :: nat where "TLS13_HANDSHAKE_MSG_HEADER_LEN \<equiv> 4"
abbreviation (input) TLS13_HANDSHAKE_MSG_INITIAL_LEN :: nat where "TLS13_HANDSHAKE_MSG_INITIAL_LEN \<equiv> 256"
abbreviation (input) TLS13_HANDSHAKE_MSG_MAX_LEN :: nat where "TLS13_HANDSHAKE_MSG_MAX_LEN \<equiv> 262144"

record tls13_handshake_msg =
  hm_msg_type :: u8
  hm_msg_len :: nat
  hm_data :: "bytes option"
  hm_data_len :: nat
  hm_buf :: tls13_buffer
  hm_cbs :: CBS
  hm_cbb :: CBB

definition tls13_handshake_msg_new :: "(nat \<Rightarrow> bool) \<Rightarrow> tls13_handshake_msg option" where
  "tls13_handshake_msg_new grant =
     map_option (\<lambda>buf. \<lparr>hm_msg_type = 0, hm_msg_len = 0, hm_data = None, hm_data_len = 0, hm_buf = buf,
       hm_cbs = CBS_init [], hm_cbb = CBB_null\<rparr>) (tls13_buffer_new grant 0)"

definition tls13_handshake_msg_data :: "tls13_handshake_msg \<Rightarrow> CBS" where
  "tls13_handshake_msg_data msg =
     CBS_init (take (hm_data_len msg) (case hm_data msg of None \<Rightarrow> [] | Some d \<Rightarrow> d))"

definition tls13_handshake_msg_set_buffer ::
    "(nat \<Rightarrow> bool) \<Rightarrow> tls13_handshake_msg \<Rightarrow> CBS \<Rightarrow> bool \<times> tls13_handshake_msg" where
  "tls13_handshake_msg_set_buffer grant msg cbs =
     (case tls13_buffer_set_data grant (hm_buf msg) cbs of (ok, buf) \<Rightarrow> (ok, msg\<lparr>hm_buf := buf\<rparr>))"

definition tls13_handshake_msg_type :: "tls13_handshake_msg \<Rightarrow> u8" where
  "tls13_handshake_msg_type msg = hm_msg_type msg"

definition tls13_handshake_msg_content :: "tls13_handshake_msg \<Rightarrow> CBS option" where
  "tls13_handshake_msg_content msg =
     (case CBS_skip (tls13_handshake_msg_data msg) TLS13_HANDSHAKE_MSG_HEADER_LEN of
        (None, _) \<Rightarrow> None
      | (Some _, cbs) \<Rightarrow> Some cbs)"

text \<open>After a successful start the body is the struct at depth 1 of \<open>hm_cbb\<close>.\<close>

definition tls13_handshake_msg_start ::
    "(nat \<Rightarrow> bool) \<Rightarrow> tls13_handshake_msg \<Rightarrow> u8 \<Rightarrow> bool \<times> tls13_handshake_msg" where
  "tls13_handshake_msg_start grant msg msg_type =
     (case CBB_init grant TLS13_HANDSHAKE_MSG_INITIAL_LEN of
        (False, cbb) \<Rightarrow> (False, msg\<lparr>hm_cbb := cbb\<rparr>)
      | (True, cbb) \<Rightarrow>
          (case CBB_add_u8 cbb 0 (unat msg_type) of
             (False, cbb) \<Rightarrow> (False, msg\<lparr>hm_cbb := cbb\<rparr>)
           | (True, cbb) \<Rightarrow>
               (case CBB_add_u24_length_prefixed cbb 0 of (ok, cbb) \<Rightarrow> (ok, msg\<lparr>hm_cbb := cbb\<rparr>))))"

definition tls13_handshake_msg_finish :: "tls13_handshake_msg \<Rightarrow> bool \<times> tls13_handshake_msg" where
  "tls13_handshake_msg_finish msg =
     (case CBB_finish (hm_cbb msg) 0 True True of
        (None, cbb) \<Rightarrow> (False, msg\<lparr>hm_cbb := cbb\<rparr>)
      | (Some (buf, len), cbb) \<Rightarrow>
          (True, msg\<lparr>hm_cbb := cbb, hm_data := Some buf, hm_data_len := len, hm_cbs := CBS_init (take len buf)\<rparr>))"

text \<open>The two halves of \<open>tls13_handshake_msg_recv\<close>; the read callback stands for
  \<open>tls13_read_handshake_data\<close> on the record layer.\<close>

definition msg_recv_header ::
    "(nat \<Rightarrow> bool) \<Rightarrow> 'w read_cb \<Rightarrow> tls13_handshake_msg \<Rightarrow> 'w \<Rightarrow> int \<times> tls13_handshake_msg \<times> 'w" where
  "msg_recv_header grant read_cb msg w =
     (case tls13_buffer_extend grant read_cb (hm_buf msg) TLS13_HANDSHAKE_MSG_HEADER_LEN w of
        (ret, buf, w') \<Rightarrow>
          let msg = msg\<lparr>hm_buf := buf\<rparr> in
          if ret \<le> 0 then (ret, msg, w')
          else case CBS_get_u8 (tls13_buffer_cbs buf) of
            (None, _) \<Rightarrow> (TLS13_IO_FAILURE, msg, w')
          | (Some msg_type, cbs) \<Rightarrow>
              (case CBS_get_u24 cbs of
                 (None, _) \<Rightarrow> (TLS13_IO_FAILURE, msg, w')
               | (Some msg_len, cbs) \<Rightarrow>
                   if TLS13_HANDSHAKE_MSG_MAX_LEN < unat msg_len then (TLS13_IO_FAILURE, msg, w')
                   else (TLS13_IO_SUCCESS, msg\<lparr>hm_msg_type := msg_type, hm_msg_len := unat msg_len\<rparr>, w')))"

definition msg_recv_body ::
    "(nat \<Rightarrow> bool) \<Rightarrow> 'w read_cb \<Rightarrow> tls13_handshake_msg \<Rightarrow> 'w \<Rightarrow> int \<times> tls13_handshake_msg \<times> 'w" where
  "msg_recv_body grant read_cb msg w =
     (case tls13_buffer_extend grant read_cb (hm_buf msg) (TLS13_HANDSHAKE_MSG_HEADER_LEN + hm_msg_len msg) w of
        (ret, buf, w') \<Rightarrow>
          if ret \<le> 0 then (ret, msg\<lparr>hm_buf := buf\<rparr>, w')
          else case tls13_buffer_finish buf of
            ((data, data_len), buf') \<Rightarrow>
              (TLS13_IO_SUCCESS, msg\<lparr>hm_data := data, hm_data_len := data_len, hm_buf := buf'\<rparr>, w'))"

definition tls13_handshake_msg_recv ::
    "(nat \<Rightarrow> bool) \<Rightarrow> 'w read_cb \<Rightarrow> tls13_handshake_msg \<Rightarrow> 'w \<Rightarrow> int \<times> tls13_handshake_msg \<times> 'w" where
  "tls13_handshake_msg_recv grant read_cb msg w =
     (if hm_data msg \<noteq> None then (TLS13_IO_FAILURE, msg, w)
      else if hm_msg_type msg = 0 then
        (case msg_recv_header grant read_cb msg w of
           (ret, msg', w') \<Rightarrow>
             if ret \<le> 0 then (ret, msg', w') else msg_recv_body grant read_cb msg' w')
      else msg_recv_body grant read_cb msg w)"

text \<open>The loop is that of \<open>tls13_record_send\<close>, over \<open>tls13_write_handshake_data\<close>.\<close>

definition tls13_handshake_msg_send ::
    "'w write_cb \<Rightarrow> tls13_handshake_msg \<Rightarrow> 'w \<Rightarrow> int \<times> tls13_handshake_msg \<times> 'w" where
  "tls13_handshake_msg_send write_cb msg w =
     (if hm_data msg = None then (TLS13_IO_FAILURE, msg, w)
      else if CBS_len (hm_cbs msg) = 0 then (TLS13_IO_FAILURE, msg, w)
      else case send_loop write_cb (hm_cbs msg) w of
        (Some ret, cbs, w') \<Rightarrow> (ret, msg\<lparr>hm_cbs := cbs\<rparr>, w')
      | (None, cbs, w') \<Rightarrow> (TLS13_IO_SUCCESS, msg\<lparr>hm_cbs := cbs\<rparr>, w'))"

section \<open>Receiving\<close>

definition msg_frame :: "bytes \<Rightarrow> bool" where
  "msg_frame d \<longleftrightarrow> 4 \<le> length d \<and> length d = 4 + be_val (take 3 (drop 1 d)) \<and> be_val (take 3 (drop 1 d)) \<le> 262144"

definition msg_held :: "tls13_handshake_msg \<Rightarrow> bytes" where
  "msg_held msg = (case hm_data msg of None \<Rightarrow> tb_bytes (hm_buf msg) | Some d \<Rightarrow> take (hm_data_len msg) d)"

definition msg_header_matches :: "tls13_handshake_msg \<Rightarrow> bytes \<Rightarrow> bool" where
  "msg_header_matches msg d \<longleftrightarrow> 4 \<le> length d \<and> hm_msg_type msg = d ! 0
     \<and> hm_msg_len msg = be_val (take 3 (drop 1 d)) \<and> hm_msg_len msg \<le> 262144"

definition msg_inv :: "tls13_handshake_msg \<Rightarrow> bool" where
  "msg_inv msg \<longleftrightarrow> hm_data msg = None \<and> buffer_ok (hm_buf msg)
     \<and> (hm_msg_type msg \<noteq> 0 \<longrightarrow> msg_header_matches msg (tb_bytes (hm_buf msg)))"

lemma get_u24_Cons:
  assumes "cbs_data c = [a, b, e]"
  obtains l where "CBS_get_u24 c = (Some l, c\<lparr>cbs_data := []\<rparr>)" and "unat l = be_val [a, b, e]"
proof -
  have "CBS_get_u24 c = (Some (word_of_nat (be_val [a, b, e])), c\<lparr>cbs_data := []\<rparr>)"
    using assms by (auto simp: CBS_get_u24_def cbs_get_u_Some_iff intro!: exI [of _ "[a, b, e]"])
  moreover have "be_val [a, b, e] < 4294967296" using be_val_less [of "[a, b, e]"] by simp
  ultimately show thesis using that by simp
qed

lemma msg_header_matches_prefix:
  "msg_header_matches m d \<Longrightarrow> d @ x = e @ y \<Longrightarrow> length d \<le> length e \<Longrightarrow> msg_header_matches m e"
  by (auto simp: msg_header_matches_def append_eq_append_conv2 nth_append)

lemma msg_frameI: "msg_header_matches m d \<Longrightarrow> length d = 4 + hm_msg_len m \<Longrightarrow> msg_frame d"
  unfolding msg_frame_def msg_header_matches_def by metis

lemma drop_1_take_4: "take 3 (drop 1 d) = drop 1 (take 4 d)"
  by (simp add: drop_take)

lemma msg_header_matches_frame:
  assumes "msg_header_matches m h" and "h @ x = d @ y" and "msg_frame d"
  shows "hm_msg_type m = d ! 0 \<and> 4 + hm_msg_len m = length d"
proof -
  have l: "4 \<le> length h" "4 \<le> length d" "length d = 4 + be_val (take 3 (drop 1 d))"
    using assms(1,3) unfolding msg_header_matches_def msg_frame_def by blast+
  have t: "take 4 h = take 4 d" using arg_cong [OF assms(2), of "take 4"] l(1,2) by simp
  have "h ! 0 = d ! 0" using t l(1,2) by (metis nth_take zero_less_numeral)
  moreover have "hm_msg_type m = h ! 0" "hm_msg_len m = be_val (take 3 (drop 1 h))"
    using assms(1) unfolding msg_header_matches_def by blast+
  ultimately have "hm_msg_type m = d ! 0" "hm_msg_len m = be_val (take 3 (drop 1 d))"
    by (simp_all only: drop_1_take_4 t)
  then show ?thesis by (simp only: l(3) [symmetric])
qed

lemma msg_frame_unique:
  assumes "msg_frame d" and "msg_frame e" and "d @ x = e @ y"
  shows "d = e"
proof -
  have "4 \<le> length d" "4 \<le> length e" using assms(1,2) unfolding msg_frame_def by blast+
  then have "take 4 d = take 4 e" using arg_cong [OF assms(3), of "take 4"] by simp
  then have "length d = length e" using assms(1,2) unfolding msg_frame_def drop_1_take_4 by metis
  then show ?thesis using assms(3) by simp
qed

lemma msg_header_parse:
  assumes ex: "tls13_buffer_extend grant rd (hm_buf msg) 4 w = (r, buf, w1)" and pos: "0 < r"
    and d: "tb_bytes buf = [t, a, b, e]"
  obtains l :: u32 where "msg_recv_header grant rd msg w =
      (if 262144 < unat l then (TLS13_IO_FAILURE, msg\<lparr>hm_buf := buf\<rparr>, w1)
       else (1, msg\<lparr>hm_buf := buf, hm_msg_type := t, hm_msg_len := unat l\<rparr>, w1))"
    and "unat l = be_val [a, b, e]"
proof -
  let ?c = "CBS_init [t, a, b, e]"
  obtain l where l: "CBS_get_u24 (?c\<lparr>cbs_data := [a, b, e]\<rparr>) = (Some l, ?c\<lparr>cbs_data := []\<rparr>)" "unat l = be_val [a, b, e]"
    by (rule get_u24_Cons [of "?c\<lparr>cbs_data := [a, b, e]\<rparr>" a b e]) auto
  have "CBS_get_u8 ?c = (Some t, ?c\<lparr>cbs_data := [a, b, e]\<rparr>)" by (simp add: CBS_get_u8_Cons CBS_init_def)
  moreover have "tls13_buffer_cbs buf = ?c" using d by (simp add: tls13_buffer_cbs_def tb_bytes_def)
  ultimately have "msg_recv_header grant rd msg w =
      (if 262144 < unat l then (TLS13_IO_FAILURE, msg\<lparr>hm_buf := buf\<rparr>, w1)
       else (1, msg\<lparr>hm_buf := buf, hm_msg_type := t, hm_msg_len := unat l\<rparr>, w1))"
    using pos by (simp add: msg_recv_header_def ex Let_def l(1))
  then show thesis using that l(2) by blast
qed

lemma four_bytes: "length d = 4 \<Longrightarrow> \<exists>t a b e. d = [t, a, b, e]"
  by (auto simp: length_Suc_conv numeral_eq_Suc)

context byte_source
begin

lemma msg_header_spec:
  assumes "msg_recv_header grant read_cb msg w = (ret, msg', w')" and "msg_inv msg"
  shows "buffer_ok (hm_buf msg') \<and> hm_data msg' = None
    \<and> tb_bytes (hm_buf msg') @ stream w' = tb_bytes (hm_buf msg) @ stream w
    \<and> (0 < ret \<longrightarrow> msg_header_matches msg' (tb_bytes (hm_buf msg')))
    \<and> (ret \<le> 0 \<longrightarrow> hm_msg_type msg' = hm_msg_type msg)"
proof -
  obtain r buf w1 where ex: "tls13_buffer_extend grant read_cb (hm_buf msg) 4 w = (r, buf, w1)"
    by (metis prod_cases3)
  have inv: "hm_data msg = None" "buffer_ok (hm_buf msg)" using assms(2) by (simp_all add: msg_inv_def)
  note sp = extend_spec [OF ex inv(2)]
  show ?thesis
  proof (cases "0 < r")
    case False
    then show ?thesis using assms(1) ex inv sp by (auto simp: msg_recv_header_def Let_def)
  next
    case True
    then have "length (tb_bytes buf) = 4" using sp by simp
    then obtain t a b e where d: "tb_bytes buf = [t, a, b, e]" using four_bytes by metis
    from msg_header_parse [OF ex True this] obtain l :: u32 where
      "msg_recv_header grant read_cb msg w =
        (if 262144 < unat l then (TLS13_IO_FAILURE, msg\<lparr>hm_buf := buf\<rparr>, w1)
         else (1, msg\<lparr>hm_buf := buf, hm_msg_type := t, hm_msg_len := unat l\<rparr>, w1))"
      "unat l = be_val [a, b, e]" .
    then show ?thesis using sp inv d assms(1) by (auto simp: msg_header_matches_def split: if_splits)
  qed
qed

lemma msg_body_spec:
  assumes "msg_recv_body grant read_cb msg w = (ret, msg', w')" and "hm_data msg = None"
    and "buffer_ok (hm_buf msg)" and "msg_header_matches msg (tb_bytes (hm_buf msg))"
  shows "msg_held msg' @ stream w' = tb_bytes (hm_buf msg) @ stream w
    \<and> msg_header_matches msg' (msg_held msg')
    \<and> (ret \<le> 0 \<longrightarrow> msg_inv msg')
    \<and> (0 < ret \<longrightarrow> msg_frame (msg_held msg') \<and> ret = 1 \<and> hm_data msg' \<noteq> None)"
proof -
  obtain r buf w1 where ex: "tls13_buffer_extend grant read_cb (hm_buf msg) (4 + hm_msg_len msg) w = (r, buf, w1)"
    by (metis prod_cases3)
  note sp = extend_spec [OF ex assms(3)]
  have hm: "msg_header_matches msg (tb_bytes buf)"
    using msg_header_matches_prefix [OF assms(4), of "stream w" "tb_bytes buf" "stream w1"] sp assms(3) by simp
  show ?thesis
  proof (cases "0 < r")
    case False
    then have "(ret, msg', w') = (r, msg\<lparr>hm_buf := buf\<rparr>, w1)"
      using assms(1) ex by (simp add: msg_recv_body_def)
    then show ?thesis using sp assms(2) hm False
      by (simp add: msg_held_def msg_inv_def msg_header_matches_def)
  next
    case True
    then have e: "ret = 1" "w' = w1"
      "msg' = msg\<lparr>hm_data := tb_data buf, hm_data_len := tb_len buf,
         hm_buf := buf\<lparr>tb_capacity := 0, tb_data := None, tb_len := 0\<rparr>\<rparr>"
      using assms(1) ex by (simp_all add: msg_recv_body_def tls13_buffer_finish_def)
    have len: "tb_len buf = 4 + hm_msg_len msg" using sp True by simp
    then have nn: "tb_data buf \<noteq> None" using sp by (cases "tb_data buf") (auto simp: buffer_ok_def tb_mem_def)
    then have held: "msg_held msg' = tb_bytes buf" by (auto simp: e msg_held_def tb_bytes_def tb_mem_def)
    have "msg_header_matches msg' (tb_bytes buf)" using hm by (simp add: e msg_header_matches_def)
    moreover have "msg_frame (tb_bytes buf)" using msg_frameI [OF hm] sp len by simp
    moreover have "hm_data msg' \<noteq> None" using nn by (simp add: e)
    ultimately show ?thesis using sp e(1,2) unfolding held by simp
  qed
qed

lemma msg_recv_spec:
  assumes "tls13_handshake_msg_recv grant read_cb msg w = (ret, msg', w')" and "msg_inv msg"
  shows "msg_held msg' @ stream w' = msg_held msg @ stream w
    \<and> (ret \<le> 0 \<longrightarrow> msg_inv msg')
    \<and> (0 < ret \<longrightarrow> msg_frame (msg_held msg') \<and> msg_header_matches msg' (msg_held msg')
         \<and> ret = 1 \<and> hm_data msg' \<noteq> None)"
proof -
  have inv: "hm_data msg = None" "buffer_ok (hm_buf msg)" "msg_held msg = tb_bytes (hm_buf msg)"
    using assms(2) by (simp_all add: msg_inv_def msg_held_def)
  show ?thesis
  proof (cases "hm_msg_type msg = 0")
    case False
    then have "msg_recv_body grant read_cb msg w = (ret, msg', w')"
      using assms(1) inv by (simp add: tls13_handshake_msg_recv_def)
    from msg_body_spec [OF this inv(1,2)] show ?thesis
      using assms(2) False inv(3) by (simp add: msg_inv_def)
  next
    case True
    obtain r msg1 w1 where h: "msg_recv_header grant read_cb msg w = (r, msg1, w1)" by (metis prod_cases3)
    note hs = msg_header_spec [OF h assms(2)]
    show ?thesis
    proof (cases "0 < r")
      case False
      then have "(ret, msg', w') = (r, msg1, w1)" using assms(1) inv True h by (simp add: tls13_handshake_msg_recv_def)
      then show ?thesis using hs True False inv(3) by (simp add: msg_inv_def msg_held_def)
    next
      case pos: True
      then have "msg_recv_body grant read_cb msg1 w1 = (ret, msg', w')"
        using assms(1) inv True h by (simp add: tls13_handshake_msg_recv_def)
      from msg_body_spec [OF this] show ?thesis using hs pos inv(3) by simp
    qed
  qed
qed

end


section \<open>Progress\<close>

definition msg_awaiting :: "bytes \<Rightarrow> tls13_handshake_msg \<Rightarrow> wire_event list \<Rightarrow> bool" where
  "msg_awaiting d msg w \<longleftrightarrow> msg_inv msg \<and> msg_frame d \<and> d ! 0 \<noteq> 0
     \<and> (\<exists>rest. msg_held msg @ script_bytes w = d @ rest)
     \<and> length (msg_held msg) \<le> length d \<and> (hm_msg_type msg = 0 \<longrightarrow> length (msg_held msg) \<le> 4)"

lemma script_body_progress:
  assumes "msg_recv_body grant script_read msg w = (ret, msg', w')" and "\<forall>n. grant n"
    and "hm_data msg = None" and "buffer_ok (hm_buf msg)" and "msg_header_matches msg (tb_bytes (hm_buf msg))"
    and "tb_bytes (hm_buf msg) @ script_bytes w = d @ rest" and "msg_frame d" and "tb_len (hm_buf msg) \<le> length d"
    and "ret \<le> 0"
  shows "length w' < length w \<and> length (msg_held msg') \<le> length d \<and> hm_msg_type msg' = hm_msg_type msg"
proof -
  let ?len = "4 + hm_msg_len msg"
  have len: "?len = length d" using msg_header_matches_frame [OF assms(5,6,7)] by simp
  obtain r buf w1 where ex: "tls13_buffer_extend grant script_read (hm_buf msg) ?len w = (r, buf, w1)"
    by (metis prod_cases3)
  have "length (tb_bytes (hm_buf msg)) + length (script_bytes w) = length d + length rest"
    using arg_cong [OF assms(6), of length] by simp
  then have "?len - tb_len (hm_buf msg) \<le> length (script_bytes w)" "tb_len (hm_buf msg) \<le> ?len"
    using length_tb_bytes [OF assms(4)] assms(8) len by linarith+
  then have p: "length w1 \<le> length w \<and> (r \<le> 0 \<longrightarrow> length w1 < length w)"
    by (intro script_extend_progress [OF ex assms(4,2)]) simp_all
  have "0 < ?len" by simp
  have e: "r \<le> 0" "msg' = msg\<lparr>hm_buf := buf\<rparr>" "w' = w1"
    using assms(1,9) by (auto simp: msg_recv_body_def ex tls13_buffer_finish_def split: if_splits)
  have "tb_len buf \<le> ?len" "buffer_ok buf"
    using script.extend_spec [OF ex assms(4) \<open>0 < ?len\<close>] assms(8) len by auto
  then show ?thesis using e p assms(3) len by (simp add: msg_held_def)
qed

lemma script_msg_header_progress:
  assumes "msg_recv_header grant script_read msg w = (ret, msg', w')" and "\<forall>n. grant n" and inv: "msg_inv msg"
    and st: "tb_bytes (hm_buf msg) @ script_bytes w = d @ rest" and fr: "msg_frame d" and l: "tb_len (hm_buf msg) \<le> 4"
  shows "length w' \<le> length w \<and> (ret \<le> 0 \<longrightarrow> length w' < length w) \<and> tb_len (hm_buf msg') \<le> 4"
proof -
  obtain r buf w1 where ex: "tls13_buffer_extend grant script_read (hm_buf msg) 4 w = (r, buf, w1)"
    by (metis prod_cases3)
  have bok: "buffer_ok (hm_buf msg)" using inv by (simp add: msg_inv_def)
  have "4 \<le> length d" using fr unfolding msg_frame_def by blast
  moreover have "length (tb_bytes (hm_buf msg)) + length (script_bytes w) = length d + length rest"
    using arg_cong [OF st, of length] by simp
  ultimately have p: "length w1 \<le> length w \<and> (r \<le> 0 \<longrightarrow> length w1 < length w)"
    using script_extend_progress [OF ex bok assms(2) l] bok by simp
  note sp = script.extend_spec [OF ex bok]
  have bw: "hm_buf msg' = buf" "w' = w1"
    using assms(1) by (auto simp: msg_recv_header_def ex Let_def split: if_splits prod.splits option.splits)
  have "0 < ret" if "0 < r"
  proof -
    have "length (tb_bytes buf) = 4" using sp that by simp
    then obtain t a b e where h: "tb_bytes buf = [t, a, b, e]" using four_bytes by metis
    have "take 4 (tb_bytes buf @ script_bytes w1) = take 4 (d @ rest)" using sp st by simp
    then have hd: "take 4 d = [t, a, b, e]" using \<open>4 \<le> length d\<close> h by simp
    then have "take 3 (drop 1 d) = [a, b, e]" by (simp only: drop_1_take_4) simp
    then have "be_val [a, b, e] \<le> 262144" using fr unfolding msg_frame_def by metis
    then show ?thesis using assms(1) msg_header_parse [OF ex that h] by (metis fst_conv not_le zero_less_one)
  qed
  then show ?thesis using p sp l bw by auto
qed

lemma msg_awaiting_recv:
  assumes "tls13_handshake_msg_recv grant script_read msg w = (ret, msg', w')" and "\<forall>n. grant n"
    and aw: "msg_awaiting d msg w" and neg: "ret \<le> 0"
  shows "msg_awaiting d msg' w' \<and> length w' < length w"
proof -
  have fr: "msg_frame d" and t: "d ! 0 \<noteq> 0" using aw by (simp_all add: msg_awaiting_def)
  obtain rest where st: "msg_held msg @ script_bytes w = d @ rest" using aw by (auto simp: msg_awaiting_def)
  have inv: "msg_inv msg" "hm_data msg = None" "buffer_ok (hm_buf msg)" "msg_held msg = tb_bytes (hm_buf msg)"
    "length (msg_held msg) \<le> length d" "hm_msg_type msg = 0 \<Longrightarrow> tb_len (hm_buf msg) \<le> 4"
    using aw by (auto simp: msg_awaiting_def msg_inv_def msg_held_def)
  note sp = script.msg_recv_spec [OF assms(1) inv(1)]
  have "length w' < length w \<and> length (msg_held msg') \<le> length d
      \<and> (hm_msg_type msg' = 0 \<longrightarrow> length (msg_held msg') \<le> 4)"
  proof (cases "hm_msg_type msg = 0")
    case False
    then have "msg_recv_body grant script_read msg w = (ret, msg', w')"
      using assms(1) inv by (simp add: tls13_handshake_msg_recv_def)
    then show ?thesis using script_body_progress [of grant msg w ret msg' w' d rest] assms(2) inv st fr neg False
      by (simp add: msg_inv_def)
  next
    case True
    obtain r msg1 w1 where h: "msg_recv_header grant script_read msg w = (r, msg1, w1)" by (metis prod_cases3)
    note hs = script.msg_header_spec [OF h inv(1)]
    have hp: "length w1 \<le> length w" "r \<le> 0 \<Longrightarrow> length w1 < length w" "tb_len (hm_buf msg1) \<le> 4"
      using script_msg_header_progress [OF h assms(2) inv(1)] st fr inv True by auto
    have "4 \<le> length d" using fr unfolding msg_frame_def by blast
    show ?thesis
    proof (cases "0 < r")
      case False
      then have "(ret, msg', w') = (r, msg1, w1)" using assms(1) inv True h by (simp add: tls13_handshake_msg_recv_def)
      then show ?thesis using hs hp False \<open>4 \<le> length d\<close> by (simp add: msg_held_def)
    next
      case pos: True
      then have p: "msg_recv_body grant script_read msg1 w1 = (ret, msg', w')"
        using assms(1) inv True h by (simp add: tls13_handshake_msg_recv_def)
      have st1: "tb_bytes (hm_buf msg1) @ script_bytes w1 = d @ rest" using hs st inv(4) by simp
      have hm: "msg_header_matches msg1 (tb_bytes (hm_buf msg1))" using hs pos by simp
      have "hm_msg_type msg1 \<noteq> 0" using msg_header_matches_frame [OF hm st1 fr] t by simp
      then show ?thesis
        using script_body_progress [OF p assms(2) _ _ hm st1 fr _ neg] hs hp \<open>4 \<le> length d\<close> by auto
    qed
  qed
  then show ?thesis using sp neg st fr t by (auto simp: msg_awaiting_def)
qed

interpretation script_msg: resumable_receiver "tls13_handshake_msg_recv grant script_read" script_bytes
    msg_inv msg_held msg_frame for grant
proof
  show "msg_inv m \<Longrightarrow> tls13_handshake_msg_recv grant script_read m w = (ret, m', w') \<Longrightarrow> ret \<le> 0 \<Longrightarrow>
      msg_inv m' \<and> msg_held m' @ script_bytes w' = msg_held m @ script_bytes w" for m w ret m' w'
    using script.msg_recv_spec [of grant m w ret m' w'] by simp
  show "msg_inv m \<Longrightarrow> tls13_handshake_msg_recv grant script_read m w = (ret, m', w') \<Longrightarrow> 0 < ret \<Longrightarrow>
      msg_held m' @ script_bytes w' = msg_held m @ script_bytes w \<and> msg_frame (msg_held m')"
    for m w ret m' w'
    using script.msg_recv_spec [of grant m w ret m' w'] by simp
qed (rule msg_frame_unique)

interpretation script_msg_progress: progressing_receiver "tls13_handshake_msg_recv (\<lambda>_. True) script_read"
    msg_inv msg_held msg_frame msg_awaiting
proof
  show "msg_awaiting d m w \<Longrightarrow> tls13_handshake_msg_recv (\<lambda>_. True) script_read m w = (ret, m', w') \<Longrightarrow> ret \<le> 0 \<Longrightarrow>
      msg_awaiting d m' w' \<and> length w' < length w" for d m w ret m' w'
    using msg_awaiting_recv [of "\<lambda>_. True" m w ret m' w' d] by simp
  show "msg_awaiting d m w \<Longrightarrow> msg_inv m \<and> msg_frame d" for d m w by (simp add: msg_awaiting_def)
qed


section \<open>Building\<close>

text \<open>What the send handlers do: start a message, write its body through the builder, finish it. The body
  is described by the items of the builder's message language.\<close>

definition hs_msg_build :: "(nat \<Rightarrow> bool) \<Rightarrow> u8 \<Rightarrow> item list \<Rightarrow> tls13_handshake_msg option" where
  "hs_msg_build grant msg_type body =
     (case tls13_handshake_msg_new grant of
        None \<Rightarrow> None
      | Some msg \<Rightarrow>
          (case tls13_handshake_msg_start grant msg msg_type of
             (False, _) \<Rightarrow> None
           | (True, msg) \<Rightarrow>
               (case build (hm_cbb msg) 1 body of
                  (False, _) \<Rightarrow> None
                | (True, cbb) \<Rightarrow>
                    (case tls13_handshake_msg_finish (msg\<lparr>hm_cbb := cbb\<rparr>) of
                       (False, _) \<Rightarrow> None
                     | (True, msg) \<Rightarrow> Some msg))))"

lemma hs_msg_build_cbb:
  assumes "\<forall>n. grant n"
  shows "map_option (\<lambda>m. CBS_data (tls13_handshake_msg_data m)) (hs_msg_build grant t body) =
    cbb_message grant 256 [Num 1 (unat t), Prefixed 3 body]"
proof -
  obtain m where m: "tls13_handshake_msg_new grant = Some m" "hm_data m = None"
    by (auto simp: tls13_handshake_msg_new_def tls13_buffer_new_def tls13_buffer_resize_def)
  show ?thesis
    by (auto simp: hs_msg_build_def m tls13_handshake_msg_start_def cbb_message_def add_num_def
        CBB_add_u24_length_prefixed_def tls13_handshake_msg_finish_def tls13_handshake_msg_data_def CBS_data_def
        split: prod.split bool.split option.split)
qed

lemma hs_msg_build_bytes:
  assumes "\<forall>n. grant n" and "items_ok body" and "items_cost body < 2 ^ 32" and "enc body = Some e"
    and "length e < 2 ^ 24"
  obtains m where "hs_msg_build grant t body = Some m"
    and "CBS_data (tls13_handshake_msg_data m) = t # be_bytes 3 (length e) @ e"
proof -
  have "enc [Num 1 (unat t), Prefixed 3 body] = Some (t # be_bytes 3 (length e) @ e)"
    using assms(4,5) by simp
  then have "cbb_message grant 256 [Num 1 (unat t), Prefixed 3 body] = Some (t # be_bytes 3 (length e) @ e)"
    using assms(1-3) by (intro cbb_message_complete) auto
  then show thesis using hs_msg_build_cbb [OF assms(1), of t body] that
    by (cases "hs_msg_build grant t body") auto
qed


section \<open>Properties\<close>

text \<open>C22. Handshake messages survive the wire: a message of any type but 0 and any body of at most
  256 kB that the builder can write is built with the right header, and a peer that receives these
  bytes, cut up and interrupted in whatever way, gets a message of the same type with the same
  content, and the bytes that follow are left for the next message.\<close>

theorem handshake_msg_roundtrip:
  assumes "\<forall>n. grant n" and "items_ok body" and "items_cost body < 2 ^ 32" and "enc body = Some e"
    and "length e \<le> 262144" and "t \<noteq> 0" and "tls13_handshake_msg_new grant = Some peer"
  shows "\<exists>m. hs_msg_build grant t body = Some m
    \<and> (\<forall>w rest. script_bytes w = CBS_data (tls13_handshake_msg_data m) @ rest \<longrightarrow>
         (\<exists>m' w' c. retry (tls13_handshake_msg_recv grant script_read) (Suc (length w)) peer w = Some (m', w')
            \<and> tls13_handshake_msg_type m' = t \<and> tls13_handshake_msg_content m' = Some c \<and> CBS_data c = e
            \<and> script_bytes w' = rest))"
proof -
  let ?d = "t # be_bytes 3 (length e) @ e"
  have len: "length e < 256 ^ 3" using assms(5) by simp
  obtain m where m: "hs_msg_build grant t body = Some m" "CBS_data (tls13_handshake_msg_data m) = ?d"
    using hs_msg_build_bytes [OF assms(1-4), of t] len by auto
  have fr: "msg_frame ?d" using len assms(5) by (simp add: msg_frame_def be_val_be_bytes)
  have g: "grant = (\<lambda>_. True)" using assms(1) by auto
  have p: "msg_inv peer" "msg_held peer = []" "hm_msg_type peer = 0"
    using assms(7) buffer_new_ok [of grant 0] by (auto simp: tls13_handshake_msg_new_def msg_inv_def msg_held_def)
  have "\<exists>m' w' c. retry (tls13_handshake_msg_recv grant script_read) (Suc (length w)) peer w = Some (m', w')
      \<and> tls13_handshake_msg_type m' = t \<and> tls13_handshake_msg_content m' = Some c \<and> CBS_data c = e
      \<and> script_bytes w' = rest" if st: "script_bytes w = ?d @ rest" for w rest
  proof -
    have "msg_awaiting ?d peer w" using p fr assms(6) st by (simp add: msg_awaiting_def)
    then obtain m' w' where r: "retry (tls13_handshake_msg_recv grant script_read) (Suc (length w)) peer w = Some (m', w')"
      "msg_held m' = ?d" "script_bytes w' = rest"
      using script_msg_progress.delivers [of ?d peer w rest] p(2) st g by auto
    obtain m0 w0 ret where l: "msg_inv m0" "tls13_handshake_msg_recv grant script_read m0 w0 = (ret, m', w')" "0 < ret"
      using script_msg.retry_last [OF r(1) p(1)] by blast
    have h: "msg_header_matches m' (msg_held m')" "hm_data m' \<noteq> None"
      using script.msg_recv_spec [OF l(2,1)] l(3) by simp_all
    have data: "tls13_handshake_msg_data m' = CBS_init ?d"
      using h(2) r(2) by (auto simp: tls13_handshake_msg_data_def msg_held_def)
    have "tls13_handshake_msg_content m' = Some (CBS_init ?d\<lparr>cbs_data := e\<rparr>)"
      by (simp add: tls13_handshake_msg_content_def data CBS_skip_def cbs_get_def CBS_len_def)
    moreover have "tls13_handshake_msg_type m' = t"
      using h(1) r(2) by (simp add: tls13_handshake_msg_type_def msg_header_matches_def)
    ultimately show ?thesis using r by (auto simp: CBS_data_def)
  qed
  then show ?thesis using m by auto
qed

lemma handshake_msg_roundtrip_witness:
  "\<exists>m. hs_msg_build (\<lambda>_. True) 20 [Raw [1, 2], Num 2 772] = Some m
    \<and> (\<forall>w rest. script_bytes w = CBS_data (tls13_handshake_msg_data m) @ rest \<longrightarrow>
         (\<exists>m' w' c. retry (tls13_handshake_msg_recv (\<lambda>_. True) script_read) (Suc (length w))
              (the (tls13_handshake_msg_new (\<lambda>_. True))) w = Some (m', w')
            \<and> tls13_handshake_msg_type m' = 20 \<and> tls13_handshake_msg_content m' = Some c
            \<and> CBS_data c = [1, 2] @ be_bytes 2 772 \<and> script_bytes w' = rest))"
proof (rule handshake_msg_roundtrip)
  show "tls13_handshake_msg_new (\<lambda>_. True) = Some (the (tls13_handshake_msg_new (\<lambda>_. True)))"
    by (simp add: tls13_handshake_msg_new_def tls13_buffer_new_def tls13_buffer_resize_def)
qed simp_all

end
