(* ===== verification/Tls13_Handshake.thy ===== *)
theory Tls13_Handshake
  imports Tls13_Handshake_Msg Ssl_Methods
begin

text \<open>
  The TLS 1.3 handshake state machine, \<^verbatim>\<open>ssl/tls13_handshake.c\<close>: the table of actions, the table of
  message sequences, and the loop that performs a handshake. The state of the machine is the pair of
  \<open>hs_type\<close>, a set of flags that selects a sequence, and \<open>message_number\<close>, the position in it.

  The functions of other files that the loop calls, the record layer, the transcript and the message
  handlers that the action table points to, are the fields of an environment record, over an
  arbitrary state \<open>'w\<close> of what they keep. What the handlers do to
  \<open>hs_type\<close> is in the theory \<^verbatim>\<open>Tls13_Handshake_Runs\<close>.
\<close>

section \<open>Tables\<close>

datatype tls13_message_type =
    INVALID | CLIENT_HELLO | SERVER_HELLO_RETRY_REQUEST | CLIENT_HELLO_RETRY | SERVER_HELLO
  | SERVER_ENCRYPTED_EXTENSIONS | SERVER_CERTIFICATE_REQUEST | SERVER_CERTIFICATE
  | SERVER_CERTIFICATE_VERIFY | SERVER_FINISHED | CLIENT_END_OF_EARLY_DATA | CLIENT_CERTIFICATE
  | CLIENT_CERTIFICATE_VERIFY | CLIENT_FINISHED | APPLICATION_DATA

abbreviation (input) TLS13_NUM_MESSAGE_TYPES :: nat where "TLS13_NUM_MESSAGE_TYPES \<equiv> 15"

abbreviation (input) INITIAL :: u8 where "INITIAL \<equiv> 0x00"
abbreviation (input) NEGOTIATED :: u8 where "NEGOTIATED \<equiv> 0x01"
abbreviation (input) WITHOUT_HRR :: u8 where "WITHOUT_HRR \<equiv> 0x02"
abbreviation (input) WITHOUT_CR :: u8 where "WITHOUT_CR \<equiv> 0x04"
abbreviation (input) WITH_PSK :: u8 where "WITH_PSK \<equiv> 0x08"
abbreviation (input) WITH_CCV :: u8 where "WITH_CCV \<equiv> 0x10"

abbreviation (input) TLS13_HS_CLIENT :: u8 where "TLS13_HS_CLIENT \<equiv> 1"
abbreviation (input) TLS13_HS_SERVER :: u8 where "TLS13_HS_SERVER \<equiv> 2"

abbreviation (input) TLS13_MT_CLIENT_HELLO :: u8 where "TLS13_MT_CLIENT_HELLO \<equiv> 1"
abbreviation (input) TLS13_MT_SERVER_HELLO :: u8 where "TLS13_MT_SERVER_HELLO \<equiv> 2"
abbreviation (input) TLS13_MT_END_OF_EARLY_DATA :: u8 where "TLS13_MT_END_OF_EARLY_DATA \<equiv> 5"
abbreviation (input) TLS13_MT_ENCRYPTED_EXTENSIONS :: u8 where "TLS13_MT_ENCRYPTED_EXTENSIONS \<equiv> 8"
abbreviation (input) TLS13_MT_CERTIFICATE :: u8 where "TLS13_MT_CERTIFICATE \<equiv> 11"
abbreviation (input) TLS13_MT_CERTIFICATE_REQUEST :: u8 where "TLS13_MT_CERTIFICATE_REQUEST \<equiv> 13"
abbreviation (input) TLS13_MT_CERTIFICATE_VERIFY :: u8 where "TLS13_MT_CERTIFICATE_VERIFY \<equiv> 15"
abbreviation (input) TLS13_MT_FINISHED :: u8 where "TLS13_MT_FINISHED \<equiv> 20"

abbreviation (input) TLS13_ALERT_UNEXPECTED_MESSAGE :: u8 where "TLS13_ALERT_UNEXPECTED_MESSAGE \<equiv> 10"
abbreviation (input) TLS13_ALERT_DECODE_ERROR :: u8 where "TLS13_ALERT_DECODE_ERROR \<equiv> 50"

text \<open>An action; the handlers \<open>send\<close> and \<open>recv\<close> are identified by the message type, \<open>act_sent\<close> says whether
  there is a \<open>sent\<close> handler.\<close>

record tls13_handshake_action =
  act_handshake_type :: u8
  act_sender :: u8
  act_handshake_complete :: bool
  act_send_preserve_transcript_hash :: bool
  act_recv_preserve_transcript_hash :: bool
  act_message :: tls13_message_type
  act_sent :: bool

definition hs_action :: "u8 \<Rightarrow> u8 \<Rightarrow> tls13_message_type \<Rightarrow> tls13_handshake_action" where
  "hs_action handshake_type sender mt =
     \<lparr>act_handshake_type = handshake_type, act_sender = sender, act_handshake_complete = False,
      act_send_preserve_transcript_hash = False, act_recv_preserve_transcript_hash = False,
      act_message = mt, act_sent = False\<rparr>"

fun state_machine :: "tls13_message_type \<Rightarrow> tls13_handshake_action" where
  "state_machine CLIENT_HELLO =
     (hs_action TLS13_MT_CLIENT_HELLO TLS13_HS_CLIENT CLIENT_HELLO)\<lparr>act_sent := True\<rparr>"
| "state_machine CLIENT_HELLO_RETRY = hs_action TLS13_MT_CLIENT_HELLO TLS13_HS_CLIENT CLIENT_HELLO_RETRY"
| "state_machine CLIENT_END_OF_EARLY_DATA =
     hs_action TLS13_MT_END_OF_EARLY_DATA TLS13_HS_CLIENT CLIENT_END_OF_EARLY_DATA"
| "state_machine CLIENT_CERTIFICATE =
     (hs_action TLS13_MT_CERTIFICATE TLS13_HS_CLIENT CLIENT_CERTIFICATE)
       \<lparr>act_send_preserve_transcript_hash := True\<rparr>"
| "state_machine CLIENT_CERTIFICATE_VERIFY =
     (hs_action TLS13_MT_CERTIFICATE_VERIFY TLS13_HS_CLIENT CLIENT_CERTIFICATE_VERIFY)
       \<lparr>act_recv_preserve_transcript_hash := True\<rparr>"
| "state_machine CLIENT_FINISHED =
     (hs_action TLS13_MT_FINISHED TLS13_HS_CLIENT CLIENT_FINISHED)
       \<lparr>act_recv_preserve_transcript_hash := True, act_sent := True\<rparr>"
| "state_machine SERVER_HELLO =
     (hs_action TLS13_MT_SERVER_HELLO TLS13_HS_SERVER SERVER_HELLO)\<lparr>act_sent := True\<rparr>"
| "state_machine SERVER_HELLO_RETRY_REQUEST =
     (hs_action TLS13_MT_SERVER_HELLO TLS13_HS_SERVER SERVER_HELLO_RETRY_REQUEST)\<lparr>act_sent := True\<rparr>"
| "state_machine SERVER_ENCRYPTED_EXTENSIONS =
     hs_action TLS13_MT_ENCRYPTED_EXTENSIONS TLS13_HS_SERVER SERVER_ENCRYPTED_EXTENSIONS"
| "state_machine SERVER_CERTIFICATE =
     (hs_action TLS13_MT_CERTIFICATE TLS13_HS_SERVER SERVER_CERTIFICATE)
       \<lparr>act_send_preserve_transcript_hash := True\<rparr>"
| "state_machine SERVER_CERTIFICATE_REQUEST =
     hs_action TLS13_MT_CERTIFICATE_REQUEST TLS13_HS_SERVER SERVER_CERTIFICATE_REQUEST"
| "state_machine SERVER_CERTIFICATE_VERIFY =
     (hs_action TLS13_MT_CERTIFICATE_VERIFY TLS13_HS_SERVER SERVER_CERTIFICATE_VERIFY)
       \<lparr>act_recv_preserve_transcript_hash := True\<rparr>"
| "state_machine SERVER_FINISHED =
     (hs_action TLS13_MT_FINISHED TLS13_HS_SERVER SERVER_FINISHED)
       \<lparr>act_recv_preserve_transcript_hash := True, act_send_preserve_transcript_hash := True, act_sent := True\<rparr>"
| "state_machine APPLICATION_DATA = (hs_action 0 0 APPLICATION_DATA)\<lparr>act_handshake_complete := True\<rparr>"
| "state_machine INVALID = hs_action 0 0 INVALID"

text \<open>The rows of \<open>handshakes\<close> as far as they are written out; the rest of a row, and the rows that are not
  written out, are zero, which is \<open>INVALID\<close>.\<close>

definition handshakes :: "u8 \<Rightarrow> tls13_message_type list" where
  "handshakes hs_type =
     (if hs_type = INITIAL then
        [CLIENT_HELLO, SERVER_HELLO_RETRY_REQUEST, CLIENT_HELLO_RETRY, SERVER_HELLO]
      else if hs_type = NEGOTIATED then
        [CLIENT_HELLO, SERVER_HELLO_RETRY_REQUEST, CLIENT_HELLO_RETRY, SERVER_HELLO,
         SERVER_ENCRYPTED_EXTENSIONS, SERVER_CERTIFICATE_REQUEST, SERVER_CERTIFICATE,
         SERVER_CERTIFICATE_VERIFY, SERVER_FINISHED, CLIENT_CERTIFICATE, CLIENT_FINISHED, APPLICATION_DATA]
      else if hs_type = NEGOTIATED OR WITHOUT_HRR then
        [CLIENT_HELLO, SERVER_HELLO, SERVER_ENCRYPTED_EXTENSIONS, SERVER_CERTIFICATE_REQUEST,
         SERVER_CERTIFICATE, SERVER_CERTIFICATE_VERIFY, SERVER_FINISHED, CLIENT_CERTIFICATE,
         CLIENT_FINISHED, APPLICATION_DATA]
      else if hs_type = NEGOTIATED OR WITHOUT_CR then
        [CLIENT_HELLO, SERVER_HELLO_RETRY_REQUEST, CLIENT_HELLO_RETRY, SERVER_HELLO,
         SERVER_ENCRYPTED_EXTENSIONS, SERVER_CERTIFICATE, SERVER_CERTIFICATE_VERIFY, SERVER_FINISHED,
         CLIENT_FINISHED, APPLICATION_DATA]
      else if hs_type = NEGOTIATED OR WITHOUT_HRR OR WITHOUT_CR then
        [CLIENT_HELLO, SERVER_HELLO, SERVER_ENCRYPTED_EXTENSIONS, SERVER_CERTIFICATE,
         SERVER_CERTIFICATE_VERIFY, SERVER_FINISHED, CLIENT_FINISHED, APPLICATION_DATA]
      else if hs_type = NEGOTIATED OR WITH_PSK then
        [CLIENT_HELLO, SERVER_HELLO_RETRY_REQUEST, CLIENT_HELLO_RETRY, SERVER_HELLO,
         SERVER_ENCRYPTED_EXTENSIONS, SERVER_FINISHED, CLIENT_FINISHED, APPLICATION_DATA]
      else if hs_type = NEGOTIATED OR WITHOUT_HRR OR WITH_PSK then
        [CLIENT_HELLO, SERVER_HELLO, SERVER_ENCRYPTED_EXTENSIONS, SERVER_FINISHED, CLIENT_FINISHED,
         APPLICATION_DATA]
      else if hs_type = NEGOTIATED OR WITH_CCV then
        [CLIENT_HELLO, SERVER_HELLO_RETRY_REQUEST, CLIENT_HELLO_RETRY, SERVER_HELLO,
         SERVER_ENCRYPTED_EXTENSIONS, SERVER_CERTIFICATE_REQUEST, SERVER_CERTIFICATE,
         SERVER_CERTIFICATE_VERIFY, SERVER_FINISHED, CLIENT_CERTIFICATE, CLIENT_CERTIFICATE_VERIFY,
         CLIENT_FINISHED, APPLICATION_DATA]
      else if hs_type = NEGOTIATED OR WITHOUT_HRR OR WITH_CCV then
        [CLIENT_HELLO, SERVER_HELLO, SERVER_ENCRYPTED_EXTENSIONS, SERVER_CERTIFICATE_REQUEST,
         SERVER_CERTIFICATE, SERVER_CERTIFICATE_VERIFY, SERVER_FINISHED, CLIENT_CERTIFICATE,
         CLIENT_CERTIFICATE_VERIFY, CLIENT_FINISHED, APPLICATION_DATA]
      else [])"

abbreviation (input) handshake_count :: nat where "handshake_count \<equiv> 20"

definition stage_message :: "u8 \<Rightarrow> nat \<Rightarrow> tls13_message_type" where
  "stage_message hs_type message_number =
     (if handshake_count \<le> unat hs_type then INVALID
      else if TLS13_NUM_MESSAGE_TYPES \<le> message_number then INVALID
      else if message_number < length (handshakes hs_type) then handshakes hs_type ! message_number
      else INVALID)"

section \<open>The handshake loop\<close>

record 'w tls13_ctx =
  ctx_mode :: u8
  ctx_hs_type :: u8
  ctx_message_number :: u8
  ctx_handshake_started :: bool
  ctx_handshake_completed :: bool
  ctx_send_dummy_ccs :: bool
  ctx_send_dummy_ccs_after :: bool
  ctx_alert :: u8
  ctx_hs_msg :: "tls13_handshake_msg option"
  ctx_version :: u16
  ctx_world :: 'w

text \<open>The environment: the allocator, \<open>tls13_read_handshake_data\<close>, \<open>tls13_write_handshake_data\<close>,
  \<open>tls13_send_dummy_ccs\<close>, \<open>tls13_send_alert\<close>, \<open>tls13_record_layer_handshake_completed\<close>,
  \<open>tls1_transcript_record\<close>, \<open>tls1_transcript_hash_value\<close> into \<open>hs->tls13.transcript_hash\<close>, the three
  callbacks, and the handlers of the action table.\<close>

record 'w hs_env =
  env_grant :: "nat \<Rightarrow> bool"
  env_read :: "'w read_cb"
  env_write :: "'w write_cb"
  env_dummy_ccs :: "'w \<Rightarrow> int \<times> 'w"
  env_send_alert :: "'w \<Rightarrow> u8 \<Rightarrow> int \<times> 'w"
  env_completed :: "'w \<Rightarrow> 'w"
  env_transcript_record :: "'w \<Rightarrow> bytes \<Rightarrow> bool \<times> 'w"
  env_transcript_hash :: "'w \<Rightarrow> bool \<times> 'w"
  env_info_cb :: "'w \<Rightarrow> bool \<Rightarrow> 'w"
  env_sent_cb :: "'w \<Rightarrow> 'w"
  env_recv_cb :: "'w \<Rightarrow> 'w"
  env_send :: "tls13_message_type \<Rightarrow> 'w tls13_ctx \<Rightarrow> bool \<times> 'w tls13_ctx"
  env_sent :: "tls13_message_type \<Rightarrow> 'w tls13_ctx \<Rightarrow> bool \<times> 'w tls13_ctx"
  env_recv :: "tls13_message_type \<Rightarrow> 'w tls13_ctx \<Rightarrow> CBS \<Rightarrow> bool \<times> CBS \<times> 'w tls13_ctx"

definition tls13_handshake_active_state :: "'w tls13_ctx \<Rightarrow> tls13_message_type" where
  "tls13_handshake_active_state ctx = stage_message (ctx_hs_type ctx) (unat (ctx_message_number ctx))"

definition tls13_handshake_active_action :: "'w tls13_ctx \<Rightarrow> tls13_handshake_action option" where
  "tls13_handshake_active_action ctx =
     (let mt = tls13_handshake_active_state ctx in if mt = INVALID then None else Some (state_machine mt))"

definition tls13_handshake_advance_state_machine :: "'w tls13_ctx \<Rightarrow> bool \<times> 'w tls13_ctx" where
  "tls13_handshake_advance_state_machine ctx =
     (let ctx' = ctx\<lparr>ctx_message_number := ctx_message_number ctx + 1\<rparr> in
      (unat (ctx_message_number ctx') < TLS13_NUM_MESSAGE_TYPES, ctx'))"

definition tls13_handshake_msg_record :: "'w hs_env \<Rightarrow> 'w tls13_ctx \<Rightarrow> bool \<times> 'w tls13_ctx" where
  "tls13_handshake_msg_record env ctx =
     (case ctx_hs_msg ctx of
        None \<Rightarrow> (False, ctx)
      | Some msg \<Rightarrow>
          (case env_transcript_record env (ctx_world ctx) (CBS_data (tls13_handshake_msg_data msg)) of
             (ok, w) \<Rightarrow> (ok, ctx\<lparr>ctx_world := w\<rparr>)))"

definition ctx_transcript_hash :: "'w hs_env \<Rightarrow> bool \<Rightarrow> 'w tls13_ctx \<Rightarrow> bool \<times> 'w tls13_ctx" where
  "ctx_transcript_hash env preserve ctx =
     (if preserve then
        (case env_transcript_hash env (ctx_world ctx) of (ok, w) \<Rightarrow> (ok, ctx\<lparr>ctx_world := w\<rparr>))
      else (True, ctx))"

definition ctx_dummy_ccs :: "'w hs_env \<Rightarrow> 'w tls13_ctx \<Rightarrow> int \<times> 'w tls13_ctx" where
  "ctx_dummy_ccs env ctx =
     (case env_dummy_ccs env (ctx_world ctx) of (ret, w) \<Rightarrow> (ret, ctx\<lparr>ctx_world := w\<rparr>))"

definition ctx_send_alert :: "'w hs_env \<Rightarrow> u8 \<Rightarrow> 'w tls13_ctx \<Rightarrow> int \<times> 'w tls13_ctx" where
  "ctx_send_alert env alert ctx =
     (case env_send_alert env (ctx_world ctx) alert of (ret, w) \<Rightarrow> (ret, ctx\<lparr>ctx_world := w\<rparr>))"

text \<open>The four parts of \<open>tls13_handshake_send_action\<close>: a dummy CCS left over from an interrupted call,
  building the message, sending and recording it, and what follows a sent message. The first part
  returns \<open>Inl\<close> where the function returns.\<close>

definition send_pending_ccs :: "'w hs_env \<Rightarrow> 'w tls13_ctx \<Rightarrow> (int \<times> 'w tls13_ctx) + 'w tls13_ctx" where
  "send_pending_ccs env ctx =
     (if ctx_send_dummy_ccs ctx then
        (case ctx_dummy_ccs env ctx of
           (ret, ctx) \<Rightarrow>
             if ret \<noteq> TLS13_IO_SUCCESS then Inl (ret, ctx)
             else
               let ctx = ctx\<lparr>ctx_send_dummy_ccs := False\<rparr> in
               if ctx_send_dummy_ccs_after ctx
               then Inl (TLS13_IO_SUCCESS, ctx\<lparr>ctx_send_dummy_ccs_after := False\<rparr>)
               else Inr ctx)
      else Inr ctx)"

definition send_build_msg ::
    "'w hs_env \<Rightarrow> tls13_handshake_action \<Rightarrow> 'w tls13_ctx \<Rightarrow> bool \<times> 'w tls13_ctx" where
  "send_build_msg env action ctx =
     (case ctx_hs_msg ctx of
        Some msg \<Rightarrow> (True, ctx)
      | None \<Rightarrow>
          (case tls13_handshake_msg_new (env_grant env) of
             None \<Rightarrow> (False, ctx)
           | Some msg \<Rightarrow>
               (case tls13_handshake_msg_start (env_grant env) msg (act_handshake_type action) of
                  (False, msg) \<Rightarrow> (False, ctx\<lparr>ctx_hs_msg := Some msg\<rparr>)
                | (True, msg) \<Rightarrow>
                    (case env_send env (act_message action) (ctx\<lparr>ctx_hs_msg := Some msg\<rparr>) of
                       (False, ctx) \<Rightarrow> (False, ctx)
                     | (True, ctx) \<Rightarrow>
                         (case ctx_hs_msg ctx of
                            None \<Rightarrow> (False, ctx)
                          | Some msg \<Rightarrow>
                              (case tls13_handshake_msg_finish msg of
                                 (ok, msg) \<Rightarrow> (ok, ctx\<lparr>ctx_hs_msg := Some msg\<rparr>)))))))"

definition send_after_msg ::
    "'w hs_env \<Rightarrow> tls13_handshake_action \<Rightarrow> 'w tls13_ctx \<Rightarrow> int \<times> 'w tls13_ctx" where
  "send_after_msg env action ctx =
     (let ctx = ctx\<lparr>ctx_world := env_sent_cb env (ctx_world ctx), ctx_hs_msg := None\<rparr> in
      case (if act_sent action then env_sent env (act_message action) ctx else (True, ctx)) of
        (False, ctx) \<Rightarrow> (TLS13_IO_FAILURE, ctx)
      | (True, ctx) \<Rightarrow>
          if ctx_send_dummy_ccs_after ctx then
            (case ctx_dummy_ccs env (ctx\<lparr>ctx_send_dummy_ccs := True\<rparr>) of
               (ret, ctx) \<Rightarrow>
                 if ret \<noteq> TLS13_IO_SUCCESS then (ret, ctx)
                 else (TLS13_IO_SUCCESS,
                       ctx\<lparr>ctx_send_dummy_ccs := False, ctx_send_dummy_ccs_after := False\<rparr>))
          else (TLS13_IO_SUCCESS, ctx))"

definition tls13_handshake_send_action ::
    "'w hs_env \<Rightarrow> tls13_handshake_action \<Rightarrow> 'w tls13_ctx \<Rightarrow> int \<times> 'w tls13_ctx" where
  "tls13_handshake_send_action env action ctx =
     (case send_pending_ccs env ctx of
        Inl result \<Rightarrow> result
      | Inr ctx \<Rightarrow>
          (case send_build_msg env action ctx of
             (False, ctx) \<Rightarrow> (TLS13_IO_FAILURE, ctx)
           | (True, ctx) \<Rightarrow>
               (case ctx_hs_msg ctx of
                  None \<Rightarrow> (TLS13_IO_FAILURE, ctx)
                | Some msg \<Rightarrow>
                    (case tls13_handshake_msg_send (env_write env) msg (ctx_world ctx) of
                       (ret, msg, w) \<Rightarrow>
                         let ctx = ctx\<lparr>ctx_hs_msg := Some msg, ctx_world := w\<rparr> in
                         if ret \<le> 0 then (ret, ctx)
                         else case tls13_handshake_msg_record env ctx of
                           (False, ctx) \<Rightarrow> (TLS13_IO_FAILURE, ctx)
                         | (True, ctx) \<Rightarrow>
                             (case ctx_transcript_hash env (act_send_preserve_transcript_hash action) ctx of
                                (False, ctx) \<Rightarrow> (TLS13_IO_FAILURE, ctx)
                              | (True, ctx) \<Rightarrow> send_after_msg env action ctx)))))"

text \<open>The second half of \<open>tls13_handshake_recv_action\<close>: the handler runs on the content of a message that
  has arrived.\<close>

definition recv_handle_msg ::
    "'w hs_env \<Rightarrow> tls13_handshake_action \<Rightarrow> tls13_handshake_msg \<Rightarrow> 'w tls13_ctx \<Rightarrow> int \<times> 'w tls13_ctx" where
  "recv_handle_msg env action msg ctx =
     (case tls13_handshake_msg_content msg of
        None \<Rightarrow> (TLS13_IO_FAILURE, ctx)
      | Some cbs \<Rightarrow>
          (case env_recv env (act_message action) ctx cbs of
             (ok, cbs, ctx) \<Rightarrow>
               let (ret, ctx) =
                 (if ok then
                    (if CBS_len cbs \<noteq> 0 then (TLS13_IO_FAILURE, ctx\<lparr>ctx_alert := TLS13_ALERT_DECODE_ERROR\<rparr>)
                     else (TLS13_IO_SUCCESS, ctx))
                  else (TLS13_IO_FAILURE, ctx));
                   ctx = ctx\<lparr>ctx_hs_msg := None\<rparr>
               in if ctx_version ctx < TLS1_3_VERSION then (TLS13_IO_USE_LEGACY, ctx) else (ret, ctx)))"

definition tls13_handshake_recv_action ::
    "'w hs_env \<Rightarrow> tls13_handshake_action \<Rightarrow> 'w tls13_ctx \<Rightarrow> int \<times> 'w tls13_ctx" where
  "tls13_handshake_recv_action env action ctx =
     (case (case ctx_hs_msg ctx of None \<Rightarrow> tls13_handshake_msg_new (env_grant env) | Some msg \<Rightarrow> Some msg) of
        None \<Rightarrow> (TLS13_IO_FAILURE, ctx)
      | Some msg \<Rightarrow>
          (case tls13_handshake_msg_recv (env_grant env) (env_read env) msg (ctx_world ctx) of
             (ret, msg, w) \<Rightarrow>
               let ctx = ctx\<lparr>ctx_hs_msg := Some msg, ctx_world := w\<rparr> in
               if ret \<le> 0 then (ret, ctx)
               else case ctx_transcript_hash env (act_recv_preserve_transcript_hash action) ctx of
                 (False, ctx) \<Rightarrow> (TLS13_IO_FAILURE, ctx)
               | (True, ctx) \<Rightarrow>
                   (case tls13_handshake_msg_record env ctx of
                      (False, ctx) \<Rightarrow> (TLS13_IO_FAILURE, ctx)
                    | (True, ctx) \<Rightarrow>
                        let ctx = ctx\<lparr>ctx_world := env_recv_cb env (ctx_world ctx)\<rparr>;
                            msg_type = tls13_handshake_msg_type msg
                        in if msg_type \<noteq> act_handshake_type action
                              \<and> (msg_type \<noteq> TLS13_MT_CERTIFICATE
                                 \<or> act_handshake_type action \<noteq> TLS13_MT_CERTIFICATE_REQUEST)
                           then ctx_send_alert env TLS13_ALERT_UNEXPECTED_MESSAGE ctx
                           else recv_handle_msg env action msg ctx)))"

text \<open>The loop of \<open>tls13_handshake_perform\<close>, with fuel for the iterations; \<open>None\<close> is fuel exhausted.\<close>

fun perform_loop :: "'w hs_env \<Rightarrow> nat \<Rightarrow> 'w tls13_ctx \<Rightarrow> (int \<times> 'w tls13_ctx) option" where
  "perform_loop env 0 ctx = None"
| "perform_loop env (Suc fuel) ctx =
     (case tls13_handshake_active_action ctx of
        None \<Rightarrow> Some (TLS13_IO_FAILURE, ctx)
      | Some action \<Rightarrow>
          if act_handshake_complete action then
            Some (TLS13_IO_SUCCESS,
              ctx\<lparr>ctx_handshake_completed := True,
                  ctx_world := env_info_cb env (env_completed env (ctx_world ctx)) True\<rparr>)
          else if ctx_alert ctx \<noteq> 0 then Some (ctx_send_alert env (ctx_alert ctx) ctx)
          else
            (case (if act_sender action = ctx_mode ctx then tls13_handshake_send_action env action ctx
                   else tls13_handshake_recv_action env action ctx) of
               (ret, ctx) \<Rightarrow>
                 if ctx_alert ctx \<noteq> 0 then Some (ctx_send_alert env (ctx_alert ctx) ctx)
                 else if ret \<le> 0 then Some (ret, ctx)
                 else case tls13_handshake_advance_state_machine ctx of
                   (False, ctx) \<Rightarrow> Some (TLS13_IO_FAILURE, ctx)
                 | (True, ctx) \<Rightarrow> perform_loop env fuel ctx))"

definition tls13_handshake_perform :: "'w hs_env \<Rightarrow> nat \<Rightarrow> 'w tls13_ctx \<Rightarrow> (int \<times> 'w tls13_ctx) option" where
  "tls13_handshake_perform env fuel ctx =
     (let ctx = (if ctx_handshake_started ctx then ctx
        else ctx\<lparr>ctx_handshake_started := True, ctx_world := env_info_cb env (ctx_world ctx) False\<rparr>)
      in perform_loop env fuel ctx)"

end
