(* ===== verification/Tls13_Handshake_Runs.thy ===== *)
theory Tls13_Handshake_Runs
  imports Tls13_Handshake
begin

text \<open>
  The runs of the TLS 1.3 handshake: the flags that the message handlers of \<^verbatim>\<open>ssl/tls13_client.c\<close> and
  \<^verbatim>\<open>ssl/tls13_server.c\<close> set, the step relation on pairs of flags and message number that results from
  them, the flows of RFC 8446 it implements, and the simulation of the loop of \<^verbatim>\<open>tls13_handshake_perform\<close>
  by this relation.
\<close>

section \<open>The flags set by the handlers\<close>

text \<open>What the handlers do to \<open>hs_type\<close> when they succeed: on the client, the receive handlers for
  HelloRetryRequest (which may turn out to be a ServerHello), ServerHello and CertificateRequest (which
  may turn out to be a Certificate), and the send handler for the client Certificate.\<close>

definition server_hello_recv_stage :: "u8 \<Rightarrow> u8" where
  "server_hello_recv_stage hs_type = hs_type OR NEGOTIATED"

definition server_hello_retry_request_recv_stage :: "bool \<Rightarrow> u8 \<Rightarrow> u8" where
  "server_hello_retry_request_recv_stage is_retry hs_type =
     (if \<not> is_retry then server_hello_recv_stage (hs_type OR WITHOUT_HRR) else hs_type)"

definition server_certificate_request_recv_stage :: "bool \<Rightarrow> u8 \<Rightarrow> u8" where
  "server_certificate_request_recv_stage is_certificate hs_type =
     (if is_certificate then hs_type OR WITHOUT_CR else hs_type)"

definition client_certificate_send_stage :: "bool \<Rightarrow> u8 \<Rightarrow> u8" where
  "client_certificate_send_stage have_cert hs_type = (if have_cert then hs_type OR WITH_CCV else hs_type)"

text \<open>On the server, the receive handlers for ClientHello and the client Certificate and the sent handler
  of ServerHello.\<close>

definition client_hello_recv_stage :: "bool \<Rightarrow> u8 \<Rightarrow> u8" where
  "client_hello_recv_stage have_key_share hs_type =
     (if have_key_share then hs_type OR NEGOTIATED OR WITHOUT_HRR else hs_type)"

definition server_engage_stage :: "bool \<Rightarrow> u8 \<Rightarrow> u8" where
  "server_engage_stage verify_peer hs_type =
     (let hs_type = hs_type OR NEGOTIATED in if \<not> verify_peer then hs_type OR WITHOUT_CR else hs_type)"

definition client_certificate_recv_stage :: "bool \<Rightarrow> u8 \<Rightarrow> u8" where
  "client_certificate_recv_stage have_cert hs_type = (if have_cert then hs_type OR WITH_CCV else hs_type)"

text \<open>The outcomes of an action: the message that was processed and the flags after it.\<close>

definition stage_outcomes :: "u8 \<Rightarrow> tls13_message_type \<Rightarrow> u8 \<Rightarrow> (tls13_message_type \<times> u8) list" where
  "stage_outcomes mode mt t =
     (if mode = TLS13_HS_CLIENT then
        (case mt of
           SERVER_HELLO_RETRY_REQUEST \<Rightarrow>
             [(SERVER_HELLO_RETRY_REQUEST, server_hello_retry_request_recv_stage True t),
              (SERVER_HELLO, server_hello_retry_request_recv_stage False t)]
         | SERVER_HELLO \<Rightarrow> [(SERVER_HELLO, server_hello_recv_stage t)]
         | SERVER_CERTIFICATE_REQUEST \<Rightarrow>
             [(SERVER_CERTIFICATE_REQUEST, server_certificate_request_recv_stage False t),
              (SERVER_CERTIFICATE, server_certificate_request_recv_stage True t)]
         | CLIENT_CERTIFICATE \<Rightarrow>
             [(CLIENT_CERTIFICATE, client_certificate_send_stage False t),
              (CLIENT_CERTIFICATE, client_certificate_send_stage True t)]
         | _ \<Rightarrow> [(mt, t)])
      else
        (case mt of
           CLIENT_HELLO \<Rightarrow>
             [(CLIENT_HELLO, client_hello_recv_stage False t), (CLIENT_HELLO, client_hello_recv_stage True t)]
         | SERVER_HELLO \<Rightarrow> [(SERVER_HELLO, server_engage_stage True t), (SERVER_HELLO, server_engage_stage False t)]
         | CLIENT_CERTIFICATE \<Rightarrow>
             [(CLIENT_CERTIFICATE, client_certificate_recv_stage False t),
              (CLIENT_CERTIFICATE, client_certificate_recv_stage True t)]
         | _ \<Rightarrow> [(mt, t)]))"

type_synonym hs_run = "u8 \<times> nat \<times> tls13_message_type list"

definition hs_next :: "u8 \<Rightarrow> hs_run \<Rightarrow> hs_run list" where
  "hs_next mode s =
     (case s of (t, n, tr) \<Rightarrow>
        let mt = stage_message t n in
        if mt = INVALID \<or> mt = APPLICATION_DATA then []
        else map (\<lambda>(m, t'). (t', n + 1, tr @ [m])) (stage_outcomes mode mt t))"

text \<open>The runs of the machine of one endpoint, with the messages processed so far.\<close>

inductive hs_reachable :: "u8 \<Rightarrow> hs_run \<Rightarrow> bool" for mode :: u8 where
  start: "hs_reachable mode (INITIAL, 0, [])"
| step: "hs_reachable mode s \<Longrightarrow> s' \<in> set (hs_next mode s) \<Longrightarrow> hs_reachable mode s'"

inductive_cases hs_reachableE: "hs_reachable mode s"

text \<open>The message flow of a full handshake in RFC 8446: with or without a HelloRetryRequest, a
  CertificateRequest, and a client certificate.\<close>

definition rfc8446_flow :: "bool \<Rightarrow> bool \<Rightarrow> bool \<Rightarrow> tls13_message_type list" where
  "rfc8446_flow hrr cr ccv =
     [CLIENT_HELLO] @ (if hrr then [SERVER_HELLO_RETRY_REQUEST, CLIENT_HELLO_RETRY] else [])
     @ [SERVER_HELLO, SERVER_ENCRYPTED_EXTENSIONS] @ (if cr then [SERVER_CERTIFICATE_REQUEST] else [])
     @ [SERVER_CERTIFICATE, SERVER_CERTIFICATE_VERIFY, SERVER_FINISHED]
     @ (if cr then CLIENT_CERTIFICATE # (if ccv then [CLIENT_CERTIFICATE_VERIFY] else []) else [])
     @ [CLIENT_FINISHED]"

text \<open>A run is legal when its trace starts one of these flows, is complete exactly when the machine has
  reached application data, and when flags that a send handler sets do not change the action that is
  being performed.\<close>

definition bools :: "bool list" where "bools = [False, True]"

definition rfc8446_flows :: "tls13_message_type list list" where
  "rfc8446_flows =
     concat (map (\<lambda>hrr. concat (map (\<lambda>cr. map (\<lambda>ccv. rfc8446_flow hrr cr ccv) bools) bools)) bools)"

definition run_legal :: "u8 \<Rightarrow> hs_run \<Rightarrow> bool" where
  "run_legal mode s =
     (case s of (t, n, tr) \<Rightarrow>
        n = length tr \<and> stage_message t n \<noteq> INVALID
        \<and> list_ex (\<lambda>flow. take n flow = tr \<and> (stage_message t n = APPLICATION_DATA \<longleftrightarrow> tr = flow)) rfc8446_flows
        \<and> (act_sender (state_machine (stage_message t n)) = mode \<longrightarrow>
           list_all (\<lambda>(m, t'). stage_message t' n = stage_message t n) (stage_outcomes mode (stage_message t n) t)))"

definition run_done :: "hs_run \<Rightarrow> bool" where
  "run_done s = (case s of (t, n, tr) \<Rightarrow> stage_message t n = APPLICATION_DATA)"

text \<open>The runs of the machine are finitely many; \<open>hs_explore\<close> visits those that extend a list of runs,
  checks that each is legal and collects the complete ones.\<close>

fun hs_explore :: "u8 \<Rightarrow> nat \<Rightarrow> hs_run list \<Rightarrow> hs_run list option" where
  "hs_explore mode 0 runs = (if runs = [] then Some [] else None)"
| "hs_explore mode (Suc k) runs =
     (if list_all (run_legal mode) runs then
        map_option ((@) (filter run_done runs)) (hs_explore mode k (concat (map (hs_next mode) runs)))
      else None)"

fun hs_level :: "u8 \<Rightarrow> nat \<Rightarrow> hs_run list" where
  "hs_level mode 0 = [(INITIAL, 0, [])]"
| "hs_level mode (Suc n) = concat (map (hs_next mode) (hs_level mode n))"

lemma hs_reachable_level: "hs_reachable mode s \<Longrightarrow> \<exists>n. s \<in> set (hs_level mode n)"
proof (induction rule: hs_reachable.induct)
  case start
  show ?case by (rule exI [of _ 0]) simp
next
  case (step s s')
  then obtain n where "s \<in> set (hs_level mode n)" by blast
  with step.hyps(2) show ?case by (intro exI [of _ "Suc n"]) auto
qed

lemma hs_level_reachable: "s \<in> set (hs_level mode n) \<Longrightarrow> hs_reachable mode s"
  by (induction n arbitrary: s) (auto intro: hs_reachable.intros)

lemma hs_level_empty: "hs_level mode n = [] \<Longrightarrow> hs_level mode (n + j) = []"
  by (induction j) simp_all

lemma hs_explore_legal:
  "hs_explore mode k (hs_level mode n) = Some runs \<Longrightarrow> s \<in> set (hs_level mode (n + j)) \<Longrightarrow> run_legal mode s"
proof (induction k arbitrary: n j runs)
  case 0
  then show ?case using hs_level_empty [of mode n j] by (simp split: if_splits)
next
  case (Suc k)
  have legal: "list_all (run_legal mode) (hs_level mode n)"
    and more: "\<exists>r. hs_explore mode k (hs_level mode (Suc n)) = Some r"
    using Suc.prems(1) by (auto split: if_splits)
  show ?case
  proof (cases j)
    case 0
    with legal Suc.prems(2) show ?thesis by (simp add: list_all_iff)
  next
    case (Suc i)
    with more Suc.prems(2) Suc.IH [of "Suc n" _ i] show ?thesis by auto
  qed
qed

lemma hs_explore_reachable:
  "hs_explore mode k (hs_level mode n) = Some runs \<Longrightarrow> s \<in> set runs \<Longrightarrow> hs_reachable mode s \<and> run_done s"
proof (induction k arbitrary: n runs)
  case 0
  then show ?case by (simp split: if_splits)
next
  case (Suc k)
  then obtain r where "hs_explore mode k (hs_level mode (Suc n)) = Some r"
    and "runs = filter run_done (hs_level mode n) @ r"
    by (auto split: if_splits)
  with Suc.IH [of "Suc n" r] Suc.prems(2) hs_level_reachable [of s mode n] show ?case by auto
qed

definition explored :: "u8 \<Rightarrow> bool" where
  "explored mode =
     (case hs_explore mode 14 [(INITIAL, 0, [])] of
        None \<Rightarrow> False
      | Some runs \<Rightarrow> list_all (\<lambda>flow. list_ex (\<lambda>s. snd (snd s) = flow) runs) rfc8446_flows)"

lemma client_explored: "explored 1" by code_simp

lemma server_explored: "explored 2" by code_simp

lemma hs_explored:
  assumes "mode = TLS13_HS_CLIENT \<or> mode = TLS13_HS_SERVER"
  shows "hs_reachable mode s \<Longrightarrow> run_legal mode s"
    and "flow \<in> set rfc8446_flows \<Longrightarrow> \<exists>t n. hs_reachable mode (t, n, flow) \<and> stage_message t n = APPLICATION_DATA"
proof -
  have "explored mode" using assms client_explored server_explored by auto
  then obtain runs where runs: "hs_explore mode 14 (hs_level mode 0) = Some runs"
    and all: "list_all (\<lambda>flow. list_ex (\<lambda>s. snd (snd s) = flow) runs) rfc8446_flows"
    by (auto simp: explored_def split: option.splits)
  show "hs_reachable mode s \<Longrightarrow> run_legal mode s"
    using hs_reachable_level [of mode s] hs_explore_legal [OF runs, of s] by auto
  show "\<exists>t n. hs_reachable mode (t, n, flow) \<and> stage_message t n = APPLICATION_DATA"
    if flow: "flow \<in> set rfc8446_flows"
  proof -
    from all flow obtain s where "s \<in> set runs" "snd (snd s) = flow"
      by (auto simp: list_all_iff list_ex_iff)
    with hs_explore_reachable [OF runs, of s] show ?thesis
      by (cases s) (auto simp: run_done_def)
  qed
qed

lemma rfc8446_flows_iff: "flow \<in> set rfc8446_flows \<longleftrightarrow> (\<exists>hrr cr ccv. flow = rfc8446_flow hrr cr ccv)"
  by (auto simp: rfc8446_flows_def bools_def) (metis (full_types))


section \<open>The loop performs runs of the machine\<close>

definition stage_outs :: "u8 \<Rightarrow> tls13_message_type \<Rightarrow> u8 \<Rightarrow> u8 set" where
  "stage_outs mode mt t = snd ` set (stage_outcomes mode mt t)"

lemmas stage_defs = server_hello_recv_stage_def server_hello_retry_request_recv_stage_def
  server_certificate_request_recv_stage_def client_certificate_send_stage_def client_hello_recv_stage_def
  server_engage_stage_def client_certificate_recv_stage_def

lemma stage_outs_idem: "t1 \<in> stage_outs mode mt t0 \<Longrightarrow> t2 \<in> stage_outs mode mt t1 \<Longrightarrow> t2 \<in> stage_outs mode mt t0"
  by (cases mt; cases "mode = 1")
    (auto simp: stage_outs_def stage_outcomes_def stage_defs Let_def or.assoc or.left_commute)

lemma stage_outs_self:
  "act_sender (state_machine mt) = mode \<Longrightarrow> \<not> act_sent (state_machine mt) \<Longrightarrow> t \<in> stage_outs mode mt t"
  by (cases mt) (auto simp: stage_outs_def stage_outcomes_def stage_defs hs_action_def)

lemma act_message_state_machine [simp]: "act_message (state_machine mt) = mt"
  by (cases mt) (simp_all add: hs_action_def)

lemma act_sender_application_data [simp]: "act_sender (state_machine APPLICATION_DATA) = 0"
  by (simp add: hs_action_def)

lemma act_complete_iff [simp]: "act_handshake_complete (state_machine mt) \<longleftrightarrow> mt = APPLICATION_DATA"
  by (cases mt) (simp_all add: hs_action_def)

definition both_ccs :: "'w tls13_ctx \<Rightarrow> bool" where
  "both_ccs ctx = (ctx_send_dummy_ccs ctx \<and> ctx_send_dummy_ccs_after ctx)"

definition kept :: "'w tls13_ctx \<Rightarrow> 'w tls13_ctx \<Rightarrow> bool" where
  "kept ctx ctx' \<longleftrightarrow> ctx_message_number ctx' = ctx_message_number ctx \<and> ctx_mode ctx' = ctx_mode ctx
     \<and> ctx_handshake_completed ctx' = ctx_handshake_completed ctx"

text \<open>What the loop relies on: no handler moves the machine or declares the handshake complete; a handler
  that succeeds sets only flags that its stage function sets, unless it has switched to an older protocol
  version; and the transport never reports success
  for an alert that ends the connection.\<close>

definition handlers_conform :: "u8 \<Rightarrow> 'w hs_env \<Rightarrow> bool" where
  "handlers_conform mode env \<longleftrightarrow>
     (\<forall>mt ctx ok ctx'. env_send env mt ctx = (ok, ctx') \<longrightarrow> kept ctx ctx' \<and>
        (ok \<longrightarrow> ctx_hs_type ctx' \<in> insert (ctx_hs_type ctx) (stage_outs mode mt (ctx_hs_type ctx))
               \<and> (both_ccs ctx' \<longrightarrow> both_ccs ctx))) \<and>
     (\<forall>mt ctx ok ctx'. env_sent env mt ctx = (ok, ctx') \<longrightarrow> kept ctx ctx' \<and>
        (ok \<longrightarrow> ctx_hs_type ctx' \<in> stage_outs mode mt (ctx_hs_type ctx))) \<and>
     (\<forall>mt ctx cbs ok cbs' ctx'. env_recv env mt ctx cbs = (ok, cbs', ctx') \<longrightarrow> kept ctx ctx' \<and>
        (ok \<and> TLS1_3_VERSION \<le> ctx_version ctx' \<longrightarrow> ctx_hs_type ctx' \<in> stage_outs mode mt (ctx_hs_type ctx)
               \<and> (both_ccs ctx' \<longrightarrow> both_ccs ctx))) \<and>
     (\<forall>w. fst (env_send_alert env w TLS13_ALERT_UNEXPECTED_MESSAGE) \<le> 0) \<and>
     (\<forall>w. fst (env_dummy_ccs env w) \<le> TLS13_IO_SUCCESS)"

lemma conform_send:
  "handlers_conform mode env \<Longrightarrow> env_send env mt ctx = (ok, ctx') \<Longrightarrow> kept ctx ctx'"
  "handlers_conform mode env \<Longrightarrow> env_send env mt ctx = (True, ctx') \<Longrightarrow>
     ctx_hs_type ctx' \<in> insert (ctx_hs_type ctx) (stage_outs mode mt (ctx_hs_type ctx))"
  "handlers_conform mode env \<Longrightarrow> env_send env mt ctx = (True, ctx') \<Longrightarrow> both_ccs ctx' \<Longrightarrow> both_ccs ctx"
  by (simp_all add: handlers_conform_def)

lemma conform_sent:
  "handlers_conform mode env \<Longrightarrow> env_sent env mt ctx = (ok, ctx') \<Longrightarrow> kept ctx ctx'"
  "handlers_conform mode env \<Longrightarrow> env_sent env mt ctx = (True, ctx') \<Longrightarrow>
     ctx_hs_type ctx' \<in> stage_outs mode mt (ctx_hs_type ctx)"
  by (simp_all add: handlers_conform_def)

lemma conform_recv:
  "handlers_conform mode env \<Longrightarrow> env_recv env mt ctx cbs = (ok, cbs', ctx') \<Longrightarrow> kept ctx ctx'"
  "handlers_conform mode env \<Longrightarrow> env_recv env mt ctx cbs = (True, cbs', ctx') \<Longrightarrow> TLS1_3_VERSION \<le> ctx_version ctx' \<Longrightarrow>
     ctx_hs_type ctx' \<in> stage_outs mode mt (ctx_hs_type ctx)"
  "handlers_conform mode env \<Longrightarrow> env_recv env mt ctx cbs = (True, cbs', ctx') \<Longrightarrow> TLS1_3_VERSION \<le> ctx_version ctx' \<Longrightarrow>
     both_ccs ctx' \<Longrightarrow> both_ccs ctx"
  unfolding handlers_conform_def by metis+

lemma conform_alert:
  "handlers_conform mode env \<Longrightarrow> ctx_send_alert env TLS13_ALERT_UNEXPECTED_MESSAGE ctx = (ret, ctx') \<Longrightarrow> ret \<le> 0"
  unfolding handlers_conform_def ctx_send_alert_def
  by (cases "env_send_alert env (ctx_world ctx) TLS13_ALERT_UNEXPECTED_MESSAGE") (auto dest: spec [of _ "ctx_world ctx"])

lemma conform_ccs:
  "handlers_conform mode env \<Longrightarrow> ctx_dummy_ccs env ctx = (ret, ctx') \<Longrightarrow> ret \<le> 1"
  unfolding handlers_conform_def ctx_dummy_ccs_def
  by (cases "env_dummy_ccs env (ctx_world ctx)") (auto dest: spec [of _ "ctx_world ctx"])

text \<open>Functions that change nothing but the world or the message under construction.\<close>

definition same_stage :: "'w tls13_ctx \<Rightarrow> 'w tls13_ctx \<Rightarrow> bool" where
  "same_stage ctx ctx' \<longleftrightarrow> kept ctx ctx' \<and> ctx_hs_type ctx' = ctx_hs_type ctx
     \<and> ctx_send_dummy_ccs ctx' = ctx_send_dummy_ccs ctx
     \<and> ctx_send_dummy_ccs_after ctx' = ctx_send_dummy_ccs_after ctx"

lemmas kept_defs = same_stage_def kept_def

lemma msg_record_same: "tls13_handshake_msg_record env ctx = (ok, ctx') \<Longrightarrow> same_stage ctx ctx'"
  by (auto simp: tls13_handshake_msg_record_def kept_defs split: option.splits prod.splits)

lemma transcript_hash_same: "ctx_transcript_hash env b ctx = (ok, ctx') \<Longrightarrow> same_stage ctx ctx'"
  by (auto simp: ctx_transcript_hash_def kept_defs split: if_splits prod.splits)

lemma dummy_ccs_same: "ctx_dummy_ccs env ctx = (ret, ctx') \<Longrightarrow> same_stage ctx ctx'"
  by (auto simp: ctx_dummy_ccs_def kept_defs split: prod.splits)

lemma send_alert_same: "ctx_send_alert env a ctx = (ret, ctx') \<Longrightarrow> same_stage ctx ctx'"
  by (auto simp: ctx_send_alert_def kept_defs split: prod.splits)

text \<open>While an action runs: the flags are those before the action or already those after it, and a closing
  CCS is pending only when they are those after it; a receive action changes them only when it is
  finished.\<close>

definition in_action :: "u8 \<Rightarrow> tls13_message_type \<Rightarrow> u8 \<Rightarrow> 'w tls13_ctx \<Rightarrow> bool" where
  "in_action mode mt t0 ctx \<longleftrightarrow> ctx_hs_type ctx \<in> insert t0 (stage_outs mode mt t0)
     \<and> (both_ccs ctx \<longrightarrow> ctx_hs_type ctx \<in> stage_outs mode mt t0)
     \<and> (act_sender (state_machine mt) \<noteq> mode \<longrightarrow> ctx_hs_type ctx = t0 \<and> \<not> both_ccs ctx)"

definition resumable :: "int \<Rightarrow> bool" where
  "resumable ret \<longleftrightarrow> ret \<in> {TLS13_IO_WANT_POLLIN, TLS13_IO_WANT_POLLOUT, TLS13_IO_WANT_RETRY}"

definition action_post :: "u8 \<Rightarrow> tls13_message_type \<Rightarrow> u8 \<Rightarrow> 'w tls13_ctx \<Rightarrow> int \<times> 'w tls13_ctx \<Rightarrow> bool" where
  "action_post mode mt t0 ctx result \<longleftrightarrow> (case result of (ret, ctx') \<Rightarrow>
     kept ctx ctx' \<and> (0 < ret \<longrightarrow> ctx_hs_type ctx' \<in> stage_outs mode mt t0 \<and> \<not> both_ccs ctx')
     \<and> (resumable ret \<longrightarrow> in_action mode mt t0 ctx'))"

lemma kept_trans: "kept a b \<Longrightarrow> kept b c \<Longrightarrow> kept a c"
  by (simp add: kept_def)

lemma action_post_kept: "kept ctx ctx1 \<Longrightarrow> action_post mode mt t0 ctx1 r \<Longrightarrow> action_post mode mt t0 ctx r"
  by (cases r) (auto simp: action_post_def intro: kept_trans)

lemma action_post_fail: "kept ctx ctx' \<Longrightarrow> ret = TLS13_IO_FAILURE \<or> ret = TLS13_IO_USE_LEGACY \<Longrightarrow> action_post mode mt t0 ctx (ret, ctx')"
  by (auto simp: action_post_def resumable_def)

lemma action_post_stall: "kept ctx ctx' \<Longrightarrow> in_action mode mt t0 ctx' \<Longrightarrow> ret \<le> 0 \<Longrightarrow> action_post mode mt t0 ctx (ret, ctx')"
  by (auto simp: action_post_def)

lemma same_stage_kept: "same_stage ctx ctx' \<Longrightarrow> kept ctx ctx'"
  by (simp add: same_stage_def)

lemma same_stage_in_action: "same_stage ctx ctx' \<Longrightarrow> in_action mode mt t0 ctx \<Longrightarrow> in_action mode mt t0 ctx'"
  by (auto simp: same_stage_def in_action_def both_ccs_def)

lemma in_action_world [simp]:
  "in_action mode mt t0 (ctx\<lparr>ctx_hs_msg := m, ctx_world := w\<rparr>) = in_action mode mt t0 ctx"
  "in_action mode mt t0 (ctx\<lparr>ctx_hs_msg := m\<rparr>) = in_action mode mt t0 ctx"
  "in_action mode mt t0 (ctx\<lparr>ctx_world := w\<rparr>) = in_action mode mt t0 ctx"
  by (simp_all add: in_action_def both_ccs_def)

lemma kept_world [simp]:
  "kept ctx (ctx1\<lparr>ctx_hs_msg := m, ctx_world := w\<rparr>) = kept ctx ctx1"
  "kept ctx (ctx1\<lparr>ctx_hs_msg := m\<rparr>) = kept ctx ctx1"
  "kept ctx (ctx1\<lparr>ctx_world := w\<rparr>) = kept ctx ctx1"
  "kept (ctx\<lparr>ctx_hs_msg := m\<rparr>) ctx1 = kept ctx ctx1"
  "kept (ctx\<lparr>ctx_hs_msg := m, ctx_world := w\<rparr>) ctx1 = kept ctx ctx1"
  "kept ctx (ctx1\<lparr>ctx_alert := a\<rparr>) = kept ctx ctx1"
  "kept ctx ctx"
  by (simp_all add: kept_def)

lemma send_pending_ccs_post:
  assumes conform: "handlers_conform mode env" and inv: "in_action mode mt t0 ctx"
    and sender: "act_sender (state_machine mt) = mode"
  shows "send_pending_ccs env ctx = Inl r \<Longrightarrow> action_post mode mt t0 ctx r"
    and "send_pending_ccs env ctx = Inr ctx' \<Longrightarrow>
      in_action mode mt t0 ctx' \<and> kept ctx ctx' \<and> \<not> both_ccs ctx'"
proof -
  obtain ret ctx1 where ccs: "ctx_dummy_ccs env ctx = (ret, ctx1)" by fastforce
  note same = dummy_ccs_same [OF ccs]
  show "action_post mode mt t0 ctx r" if r: "send_pending_ccs env ctx = Inl r"
  proof (cases "ret = 1")
    case True
    with r ccs same inv sender show ?thesis
      by (auto simp: send_pending_ccs_def Let_def action_post_def resumable_def same_stage_def kept_def
          in_action_def both_ccs_def split: if_splits)
  next
    case False
    with r ccs have "r = (ret, ctx1)" by (auto simp: send_pending_ccs_def split: if_splits)
    moreover have "ret \<le> 0" using conform_ccs [OF conform ccs] False by simp
    ultimately show ?thesis
      using action_post_stall [OF same_stage_kept [OF same] same_stage_in_action [OF same inv]] by simp
  qed
  show "in_action mode mt t0 ctx' \<and> kept ctx ctx' \<and> \<not> both_ccs ctx'" if "send_pending_ccs env ctx = Inr ctx'"
    using that same inv ccs sender
    by (auto simp: send_pending_ccs_def Let_def same_stage_def kept_def
        in_action_def both_ccs_def split: if_splits)
qed

lemma send_build_msg_post:
  assumes conform: "handlers_conform mode env" and inv: "in_action mode mt t0 ctx" "\<not> both_ccs ctx"
    and sender: "act_sender (state_machine mt) = mode"
    and build: "send_build_msg env (state_machine mt) ctx = (ok, ctx')"
  shows "kept ctx ctx' \<and> (ok \<longrightarrow> in_action mode mt t0 ctx' \<and> \<not> both_ccs ctx')"
proof (cases "ctx_hs_msg ctx = None \<and> tls13_handshake_msg_new (env_grant env) \<noteq> None")
  case False
  with build inv show ?thesis by (auto simp: send_build_msg_def split: option.splits)
next
  case True
  then obtain msg started msg1 where msg: "tls13_handshake_msg_new (env_grant env) = Some msg"
    and start: "tls13_handshake_msg_start (env_grant env) msg (act_handshake_type (state_machine mt)) = (started, msg1)"
    by fastforce
  obtain sent ctx1 where send: "env_send env mt (ctx\<lparr>ctx_hs_msg := Some msg1\<rparr>) = (sent, ctx1)" by fastforce
  have k: "kept ctx ctx1" using conform_send(1) [OF conform send] by simp
  show ?thesis
  proof (cases "started \<and> sent")
    case False
    with build True msg start send k show ?thesis
      by (auto simp: send_build_msg_def split: bool.splits)
  next
    case ok: True
    then have sent: "env_send env mt (ctx\<lparr>ctx_hs_msg := Some msg1\<rparr>) = (True, ctx1)" using send by simp
    have "in_action mode mt t0 ctx1 \<and> \<not> both_ccs ctx1"
      using conform_send(2,3) [OF conform sent] inv sender stage_outs_idem [of "ctx_hs_type ctx" mode mt t0]
      by (auto simp: in_action_def both_ccs_def)
    moreover have "\<exists>m. ctx' = ctx1\<lparr>ctx_hs_msg := m\<rparr> \<or> \<not> ok \<and> ctx' = ctx1"
      using build True msg start sent ok
      by (auto simp: send_build_msg_def split: option.splits prod.splits)
    ultimately show ?thesis using k by (auto simp: both_ccs_def)
  qed
qed

lemma send_after_msg_post:
  assumes conform: "handlers_conform mode env" and inv: "in_action mode mt t0 ctx" "\<not> both_ccs ctx"
    and sender: "act_sender (state_machine mt) = mode"
  shows "action_post mode mt t0 ctx (send_after_msg env (state_machine mt) ctx)"
proof -
  define ctx1 where "ctx1 = ctx\<lparr>ctx_world := env_sent_cb env (ctx_world ctx), ctx_hs_msg := None\<rparr>"
  obtain ok ctx2 where sent:
    "(if act_sent (state_machine mt) then env_sent env mt ctx1 else (True, ctx1)) = (ok, ctx2)" by fastforce
  have k: "kept ctx ctx2"
    using sent conform_sent(1) [OF conform, of mt ctx1 ok ctx2] by (auto simp: ctx1_def kept_def split: if_splits)
  have outs: "ctx_hs_type ctx2 \<in> stage_outs mode mt t0" if ok
    using sent that inv(1) conform_sent(2) [OF conform, of mt ctx1 ctx2] stage_outs_idem [of "ctx_hs_type ctx" mode mt t0]
      stage_outs_self [OF sender, of t0]
    by (auto simp: ctx1_def in_action_def split: if_splits)
  obtain ret ctx3 where ccs: "ctx_dummy_ccs env (ctx2\<lparr>ctx_send_dummy_ccs := True\<rparr>) = (ret, ctx3)" by fastforce
  note same = dummy_ccs_same [OF ccs] and le = conform_ccs [OF conform ccs]
  have after: "send_after_msg env (state_machine mt) ctx =
    (if \<not> ok then (TLS13_IO_FAILURE, ctx2)
     else if ctx_send_dummy_ccs_after ctx2 then
       (if ret \<noteq> 1 then (ret, ctx3)
        else (1, ctx3\<lparr>ctx_send_dummy_ccs := False, ctx_send_dummy_ccs_after := False\<rparr>))
     else (1, ctx2))"
    unfolding send_after_msg_def Let_def ctx1_def [symmetric] act_message_state_machine sent
    using ccs by (cases ok) simp_all
  show ?thesis
  proof (cases "ok \<and> ctx_send_dummy_ccs_after ctx2 \<and> ret = 1")
    case True
    with outs same k show ?thesis
      unfolding after by (simp add: action_post_def resumable_def same_stage_def kept_def both_ccs_def)
  next
    case False
    with outs same k le sender show ?thesis
      unfolding after
      by (auto simp: action_post_def resumable_def same_stage_def kept_def both_ccs_def in_action_def)
  qed
qed

lemma send_action_post:
  assumes conform: "handlers_conform mode env" and inv: "in_action mode mt t0 ctx"
    and sender: "act_sender (state_machine mt) = mode"
  shows "action_post mode mt t0 ctx (tls13_handshake_send_action env (state_machine mt) ctx)"
proof (cases "send_pending_ccs env ctx")
  case (Inl r)
  with send_pending_ccs_post(1) [OF conform inv sender] show ?thesis by (simp add: tls13_handshake_send_action_def)
next
  case (Inr ctx1)
  then have inv1: "in_action mode mt t0 ctx1" "\<not> both_ccs ctx1" and k1: "kept ctx ctx1"
    using send_pending_ccs_post(2) [OF conform inv sender] by blast+
  obtain ok ctx2 where build: "send_build_msg env (state_machine mt) ctx1 = (ok, ctx2)" by fastforce
  note post2 = send_build_msg_post [OF conform inv1 sender build]
  note k2 = kept_trans [OF k1 conjunct1 [OF post2]]
  show ?thesis
  proof (cases "ok \<and> ctx_hs_msg ctx2 \<noteq> None")
    case False
    with k2 Inr build show ?thesis
      by (auto simp: tls13_handshake_send_action_def intro: action_post_fail split: bool.splits)
  next
    case True
    then obtain msg ret msg' w where msg: "ctx_hs_msg ctx2 = Some msg"
      and send: "tls13_handshake_msg_send (env_write env) msg (ctx_world ctx2) = (ret, msg', w)"
      by (metis not_Some_eq prod_cases3)
    define ctx3 where "ctx3 = ctx2\<lparr>ctx_hs_msg := Some msg', ctx_world := w\<rparr>"
    have inv3: "in_action mode mt t0 ctx3" "\<not> both_ccs ctx3" and k3: "kept ctx ctx3"
      using True post2 k2 by (auto simp: ctx3_def both_ccs_def)
    obtain ok4 ctx4 where rec: "tls13_handshake_msg_record env ctx3 = (ok4, ctx4)" by fastforce
    obtain ok5 ctx5 where hash: "ctx_transcript_hash env (act_send_preserve_transcript_hash (state_machine mt)) ctx4 = (ok5, ctx5)"
      by fastforce
    note same4 = msg_record_same [OF rec] and same5 = transcript_hash_same [OF hash]
    note k4 = kept_trans [OF k3 same_stage_kept [OF same4]]
    note k5 = kept_trans [OF k4 same_stage_kept [OF same5]]
    have inv5: "in_action mode mt t0 ctx5" "\<not> both_ccs ctx5"
      using same4 same5 inv3 same_stage_in_action by (blast, simp add: same_stage_def both_ccs_def)
    have "tls13_handshake_send_action env (state_machine mt) ctx =
      (if ret \<le> 0 then (ret, ctx3) else if \<not> ok4 then (TLS13_IO_FAILURE, ctx4)
       else if \<not> ok5 then (TLS13_IO_FAILURE, ctx5) else send_after_msg env (state_machine mt) ctx5)"
      using Inr build True msg send rec hash by (simp add: tls13_handshake_send_action_def Let_def ctx3_def split: bool.splits)
    then show ?thesis
      using k3 k4 k5 inv3 action_post_kept [OF k5 send_after_msg_post [OF conform inv5 sender]]
      by (auto intro: action_post_fail action_post_stall)
  qed
qed

lemma recv_handle_msg_post:
  assumes conform: "handlers_conform mode env" and pre: "ctx_hs_type ctx = t0" "\<not> both_ccs ctx"
  shows "action_post mode mt t0 ctx (recv_handle_msg env (state_machine mt) msg ctx)"
proof (cases "tls13_handshake_msg_content msg")
  case None
  then show ?thesis by (simp add: recv_handle_msg_def action_post_fail)
next
  case (Some cbs)
  obtain ok cbs' ctx1 where recv: "env_recv env mt ctx cbs = (ok, cbs', ctx1)" by (metis prod_cases3)
  have k: "kept ctx ctx1" by (rule conform_recv(1) [OF conform recv])
  have "ctx_hs_type ctx1 \<in> stage_outs mode mt t0 \<and> \<not> both_ccs ctx1" if ok "TLS1_3_VERSION \<le> ctx_version ctx1"
    using that recv pre conform_recv(2,3) [OF conform, of mt ctx cbs cbs' ctx1] by auto
  with k recv Some show ?thesis
    by (auto simp: recv_handle_msg_def Let_def action_post_def resumable_def both_ccs_def not_less split: bool.splits)
qed

lemma recv_action_post:
  assumes conform: "handlers_conform mode env" and pre: "ctx_hs_type ctx = t0" "\<not> both_ccs ctx"
  shows "action_post mode mt t0 ctx (tls13_handshake_recv_action env (state_machine mt) ctx)"
proof (cases "case ctx_hs_msg ctx of None \<Rightarrow> tls13_handshake_msg_new (env_grant env) | Some msg \<Rightarrow> Some msg")
  case None
  then show ?thesis by (simp add: tls13_handshake_recv_action_def action_post_fail)
next
  case (Some msg)
  obtain ret msg' w where recv:
    "tls13_handshake_msg_recv (env_grant env) (env_read env) msg (ctx_world ctx) = (ret, msg', w)"
    by (metis prod_cases3)
  define ctx1 where "ctx1 = ctx\<lparr>ctx_hs_msg := Some msg', ctx_world := w\<rparr>"
  obtain ok2 ctx2 where hash: "ctx_transcript_hash env (act_recv_preserve_transcript_hash (state_machine mt)) ctx1 = (ok2, ctx2)"
    by fastforce
  obtain ok3 ctx3 where rec: "tls13_handshake_msg_record env ctx2 = (ok3, ctx3)" by fastforce
  define ctx4 where "ctx4 = ctx3\<lparr>ctx_world := env_recv_cb env (ctx_world ctx3)\<rparr>"
  obtain r5 ctx5 where alert: "ctx_send_alert env TLS13_ALERT_UNEXPECTED_MESSAGE ctx4 = (r5, ctx5)" by fastforce
  have same: "same_stage ctx ctx1" "same_stage ctx ctx2" "same_stage ctx ctx3" "same_stage ctx ctx4" "same_stage ctx ctx5"
    using transcript_hash_same [OF hash] msg_record_same [OF rec] send_alert_same [OF alert]
    by (simp_all add: ctx1_def ctx4_def same_stage_def kept_def)
  have inv: "in_action mode mt t0 ctx" using pre by (simp add: in_action_def)
  have pre4: "ctx_hs_type ctx4 = t0" "\<not> both_ccs ctx4"
    using same(4) pre by (simp_all add: same_stage_def both_ccs_def)
  have eq: "tls13_handshake_recv_action env (state_machine mt) ctx =
    (if ret \<le> 0 then (ret, ctx1) else if \<not> ok2 then (TLS13_IO_FAILURE, ctx2)
     else if \<not> ok3 then (TLS13_IO_FAILURE, ctx3)
     else if tls13_handshake_msg_type msg' \<noteq> act_handshake_type (state_machine mt)
       \<and> (tls13_handshake_msg_type msg' \<noteq> TLS13_MT_CERTIFICATE
          \<or> act_handshake_type (state_machine mt) \<noteq> TLS13_MT_CERTIFICATE_REQUEST) then (r5, ctx5)
     else recv_handle_msg env (state_machine mt) msg' ctx4)"
    unfolding tls13_handshake_recv_action_def Some
    using recv hash rec alert
    by (simp add: Let_def ctx1_def [symmetric] ctx4_def [symmetric] split: bool.splits)
  show ?thesis
    unfolding eq
    using same inv conform_alert [OF conform alert]
      action_post_kept [OF same_stage_kept [OF same(4)] recv_handle_msg_post [OF conform pre4]]
    by (auto intro: action_post_fail action_post_stall same_stage_kept same_stage_in_action)
qed

text \<open>The position of a handshake that may go on: a reachable state of the machine, or a send action
  under way there.\<close>

definition hs_position :: "u8 \<Rightarrow> 'w tls13_ctx \<Rightarrow> bool" where
  "hs_position mode ctx \<longleftrightarrow> ctx_mode ctx = mode \<and>
     (\<exists>t0 tr. hs_reachable mode (t0, unat (ctx_message_number ctx), tr)
        \<and> in_action mode (stage_message t0 (unat (ctx_message_number ctx))) t0 ctx)"

lemma hs_position_active:
  assumes mode: "mode = TLS13_HS_CLIENT \<or> mode = TLS13_HS_SERVER" and pos: "hs_position mode ctx"
  obtains t0 tr mt where "hs_reachable mode (t0, unat (ctx_message_number ctx), tr)"
    and "mt = stage_message t0 (unat (ctx_message_number ctx))" and "mt \<noteq> INVALID"
    and "tls13_handshake_active_state ctx = mt" and "in_action mode mt t0 ctx"
proof -
  from pos obtain t0 tr where reach: "hs_reachable mode (t0, unat (ctx_message_number ctx), tr)"
    and inv: "in_action mode (stage_message t0 (unat (ctx_message_number ctx))) t0 ctx"
    unfolding hs_position_def by blast
  note legal = hs_explored(1) [OF mode reach]
  have "tls13_handshake_active_state ctx = stage_message t0 (unat (ctx_message_number ctx))"
  proof (cases "ctx_hs_type ctx = t0")
    case False
    with inv legal show ?thesis
      by (auto simp: run_legal_def tls13_handshake_active_state_def in_action_def stage_outs_def list_all_iff)
  qed (simp add: tls13_handshake_active_state_def)
  with reach inv legal show thesis
    by (intro that [of t0 tr "stage_message t0 (unat (ctx_message_number ctx))"]) (auto simp: run_legal_def)
qed

lemma stage_message_bound: "stage_message t n \<noteq> INVALID \<Longrightarrow> n < 15"
  by (simp add: stage_message_def split: if_splits)

text \<open>A finished action takes the machine to the next state.\<close>

lemma hs_position_advance:
  assumes mode: "mode = TLS13_HS_CLIENT \<or> mode = TLS13_HS_SERVER"
    and reach: "hs_reachable mode (t0, unat (ctx_message_number ctx), tr)"
    and mt: "mt = stage_message t0 (unat (ctx_message_number ctx))" "mt \<noteq> INVALID" "mt \<noteq> APPLICATION_DATA"
    and post: "action_post mode mt t0 ctx (ret, ctx1)" "0 < ret" and ctx_mode: "ctx_mode ctx = mode"
  obtains ctx2 where "tls13_handshake_advance_state_machine ctx1 = (True, ctx2)" and "hs_position mode ctx2"
    and "unat (ctx_message_number ctx2) = Suc (unat (ctx_message_number ctx))"
    and "ctx_handshake_completed ctx2 = ctx_handshake_completed ctx"
proof -
  define n where "n = unat (ctx_message_number ctx)"
  have k: "kept ctx ctx1" and outs: "ctx_hs_type ctx1 \<in> stage_outs mode mt t0" and ccs: "\<not> both_ccs ctx1"
    using post by (simp_all add: action_post_def)
  from outs obtain m where m: "(m, ctx_hs_type ctx1) \<in> set (stage_outcomes mode mt t0)"
    by (auto simp: stage_outs_def)
  have next_state: "hs_reachable mode (ctx_hs_type ctx1, Suc n, tr @ [m])"
  proof (rule hs_reachable.step [OF reach])
    show "(ctx_hs_type ctx1, Suc n, tr @ [m]) \<in> set (hs_next mode (t0, unat (ctx_message_number ctx), tr))"
      using m mt by (force simp: hs_next_def Let_def n_def)
  qed
  have "Suc n < 15"
    using hs_explored(1) [OF mode next_state]
    by (intro stage_message_bound [of "ctx_hs_type ctx1"]) (auto simp: run_legal_def)
  moreover from this have "unat (ctx_message_number ctx + 1) = Suc n"
    unfolding n_def by (simp add: unat_word_ariths)
  ultimately show thesis
    using k ccs next_state ctx_mode
    by (intro that [of "ctx1\<lparr>ctx_message_number := ctx_message_number ctx1 + 1\<rparr>"])
      (auto simp: tls13_handshake_advance_state_machine_def Let_def kept_def hs_position_def in_action_def
        both_ccs_def n_def)
qed

text \<open>What a call of the loop promises.\<close>

definition perform_post :: "u8 \<Rightarrow> int \<times> 'w tls13_ctx \<Rightarrow> bool" where
  "perform_post mode result \<longleftrightarrow> (case result of (ret, ctx) \<Rightarrow>
     (ctx_handshake_completed ctx \<longrightarrow> ret = TLS13_IO_SUCCESS
        \<and> (\<exists>flow. flow \<in> set rfc8446_flows
             \<and> hs_reachable mode (ctx_hs_type ctx, unat (ctx_message_number ctx), flow)))
     \<and> (\<not> ctx_handshake_completed ctx \<and> resumable ret \<and> ctx_alert ctx = 0 \<longrightarrow> hs_position mode ctx))"

lemma perform_post_alert:
  "ctx_alert ctx \<noteq> 0 \<Longrightarrow> \<not> ctx_handshake_completed ctx \<Longrightarrow> perform_post mode (ctx_send_alert env a ctx)"
  by (cases "env_send_alert env (ctx_world ctx) a") (simp add: perform_post_def ctx_send_alert_def)

lemma perform_post_stall:
  assumes post: "action_post mode mt t0 ctx (ret, ctx1)"
    and reach: "hs_reachable mode (t0, unat (ctx_message_number ctx), tr)"
    and mt: "mt = stage_message t0 (unat (ctx_message_number ctx))"
    and ctx: "ctx_mode ctx = mode" "\<not> ctx_handshake_completed ctx"
  shows "perform_post mode (ret, ctx1)"
  using assms by (auto simp: perform_post_def action_post_def kept_def hs_position_def)

definition perform_action :: "'w hs_env \<Rightarrow> tls13_message_type \<Rightarrow> 'w tls13_ctx \<Rightarrow> int \<times> 'w tls13_ctx" where
  "perform_action env mt ctx =
     (if act_sender (state_machine mt) = ctx_mode ctx then tls13_handshake_send_action env (state_machine mt) ctx
      else tls13_handshake_recv_action env (state_machine mt) ctx)"

lemma perform_action_post:
  assumes "handlers_conform mode env" and "in_action mode mt t0 ctx" and "ctx_mode ctx = mode"
  shows "action_post mode mt t0 ctx (perform_action env mt ctx)"
  using assms send_action_post [of mode env mt t0 ctx] recv_action_post [of mode env ctx t0 mt]
  by (simp add: perform_action_def in_action_def)

lemma perform_loop_step:
  assumes "tls13_handshake_active_state ctx = mt" and "mt \<noteq> INVALID" and "perform_action env mt ctx = (ret, ctx1)"
  shows "perform_loop env (Suc fuel) ctx =
    (if mt = APPLICATION_DATA then Some (TLS13_IO_SUCCESS, ctx\<lparr>ctx_handshake_completed := True,
       ctx_world := env_info_cb env (env_completed env (ctx_world ctx)) True\<rparr>)
     else if ctx_alert ctx \<noteq> 0 then Some (ctx_send_alert env (ctx_alert ctx) ctx)
     else if ctx_alert ctx1 \<noteq> 0 then Some (ctx_send_alert env (ctx_alert ctx1) ctx1)
     else if ret \<le> 0 then Some (ret, ctx1)
     else case tls13_handshake_advance_state_machine ctx1 of
       (False, ctx) \<Rightarrow> Some (TLS13_IO_FAILURE, ctx) | (True, ctx) \<Rightarrow> perform_loop env fuel ctx)"
  using assms by (simp add: tls13_handshake_active_action_def perform_action_def)

lemma perform_post_complete:
  assumes mode: "mode = TLS13_HS_CLIENT \<or> mode = TLS13_HS_SERVER"
    and reach: "hs_reachable mode (ctx_hs_type ctx, unat (ctx_message_number ctx), tr)"
    and app: "stage_message (ctx_hs_type ctx) (unat (ctx_message_number ctx)) = APPLICATION_DATA"
  shows "perform_post mode (TLS13_IO_SUCCESS, ctx\<lparr>ctx_handshake_completed := True, ctx_world := w\<rparr>)"
proof -
  have "tr \<in> set rfc8446_flows"
    using hs_explored(1) [OF mode reach] app by (auto simp: run_legal_def list_ex_iff)
  with reach show ?thesis by (auto simp: perform_post_def)
qed

text \<open>A call of the loop from a position of a handshake returns after at most as many iterations as there
  are messages left, and keeps its promise.\<close>

lemma perform_loop_post:
  assumes mode: "mode = TLS13_HS_CLIENT \<or> mode = TLS13_HS_SERVER" and conform: "handlers_conform mode env"
  shows "hs_position mode ctx \<Longrightarrow> \<not> ctx_handshake_completed ctx \<Longrightarrow> 15 \<le> unat (ctx_message_number ctx) + fuel
    \<Longrightarrow> \<exists>r. perform_loop env fuel ctx = Some r \<and> perform_post mode r"
proof (induction fuel arbitrary: ctx)
  case 0
  from hs_position_active [OF mode 0(1)] obtain t where "stage_message t (unat (ctx_message_number ctx)) \<noteq> INVALID"
    by metis
  from stage_message_bound [OF this] 0(3) show ?case by simp
next
  case (Suc fuel)
  from hs_position_active [OF mode Suc.prems(1)] obtain t0 tr mt
    where reach: "hs_reachable mode (t0, unat (ctx_message_number ctx), tr)"
      and mt: "mt = stage_message t0 (unat (ctx_message_number ctx))" "mt \<noteq> INVALID"
      and active: "tls13_handshake_active_state ctx = mt" and inv: "in_action mode mt t0 ctx" by blast
  have ctx_mode: "ctx_mode ctx = mode" using Suc.prems(1) by (simp add: hs_position_def)
  obtain ret ctx1 where result: "perform_action env mt ctx = (ret, ctx1)" by fastforce
  have post: "action_post mode mt t0 ctx (ret, ctx1)"
    using perform_action_post [OF conform inv ctx_mode] result by simp
  have open1: "\<not> ctx_handshake_completed ctx1" using post Suc.prems(2) by (simp add: action_post_def kept_def)
  note loop = perform_loop_step [OF active mt(2) result, of fuel]
  consider "mt = APPLICATION_DATA" | "mt \<noteq> APPLICATION_DATA" "ret \<le> 0 \<or> ctx_alert ctx \<noteq> 0 \<or> ctx_alert ctx1 \<noteq> 0"
    | "mt \<noteq> APPLICATION_DATA" "0 < ret" "ctx_alert ctx = 0" "ctx_alert ctx1 = 0" by linarith
  then show ?case
  proof cases
    case 1
    then have "ctx_hs_type ctx = t0" using inv mode by (auto simp: in_action_def hs_action_def)
    with 1 loop reach mt show ?thesis using perform_post_complete [OF mode, of ctx tr] by simp
  next
    case 2
    then show ?thesis
      using loop perform_post_alert [of ctx] perform_post_alert [OF _ open1] Suc.prems(2)
        perform_post_stall [OF post reach mt(1) ctx_mode Suc.prems(2)]
      by (cases "ctx_alert ctx = 0"; cases "ctx_alert ctx1 = 0") simp_all
  next
    case 3
    obtain ctx2 where adv: "tls13_handshake_advance_state_machine ctx1 = (True, ctx2)" and pos2: "hs_position mode ctx2"
      and n2: "unat (ctx_message_number ctx2) = Suc (unat (ctx_message_number ctx))"
      and open2: "ctx_handshake_completed ctx2 = ctx_handshake_completed ctx"
      by (rule hs_position_advance [OF mode reach mt 3(1) post 3(2) ctx_mode])
    have "perform_loop env (Suc fuel) ctx = perform_loop env fuel ctx2" using loop 3 adv by simp
    with Suc.IH [OF pos2] open2 n2 Suc.prems(2,3) show ?thesis by simp
  qed
qed

text \<open>A handshake of one endpoint: it starts on a fresh context, and a call that returned because the
  transport could not go on is followed by another, before which the world may have changed.\<close>

definition fresh_ctx :: "u8 \<Rightarrow> 'w tls13_ctx \<Rightarrow> bool" where
  "fresh_ctx mode ctx \<longleftrightarrow> ctx_mode ctx = mode \<and> ctx_hs_type ctx = INITIAL \<and> ctx_message_number ctx = 0
     \<and> \<not> ctx_handshake_completed ctx \<and> \<not> ctx_send_dummy_ccs ctx \<and> \<not> ctx_send_dummy_ccs_after ctx"

inductive hs_session :: "u8 \<Rightarrow> 'w hs_env \<Rightarrow> 'w tls13_ctx \<Rightarrow> bool" for mode :: u8 and env :: "'w hs_env" where
  fresh: "fresh_ctx mode ctx \<Longrightarrow> hs_session mode env ctx"
| resume: "hs_session mode env ctx \<Longrightarrow> tls13_handshake_perform env fuel ctx = Some (ret, ctx') \<Longrightarrow>
    resumable ret \<Longrightarrow> ctx_alert ctx' = 0 \<Longrightarrow> hs_session mode env (ctx'\<lparr>ctx_world := w\<rparr>)"

lemma hs_position_world [simp]:
  "hs_position mode (ctx\<lparr>ctx_world := w\<rparr>) = hs_position mode ctx"
  "hs_position mode (ctx\<lparr>ctx_handshake_started := b\<rparr>) = hs_position mode ctx"
  by (simp_all add: hs_position_def in_action_def both_ccs_def)

lemma fresh_position: "fresh_ctx mode ctx \<Longrightarrow> hs_position mode ctx"
  using hs_reachable.start [of mode]
  by (auto simp: fresh_ctx_def hs_position_def in_action_def both_ccs_def)

lemma perform_post_ctx:
  assumes mode: "mode = TLS13_HS_CLIENT \<or> mode = TLS13_HS_SERVER" and conform: "handlers_conform mode env"
    and pos: "hs_position mode ctx" "\<not> ctx_handshake_completed ctx"
  shows "\<exists>r. tls13_handshake_perform env 15 ctx = Some r \<and> perform_post mode r"
  unfolding tls13_handshake_perform_def Let_def
  by (rule perform_loop_post [OF mode conform]) (use pos in simp_all)

lemma perform_loop_more:
  "perform_loop env fuel ctx = Some r \<Longrightarrow> fuel \<le> fuel' \<Longrightarrow> perform_loop env fuel' ctx = Some r"
proof (induction fuel arbitrary: ctx fuel')
  case (Suc fuel)
  then obtain more where "fuel' = Suc more" "fuel \<le> more" by (cases fuel') auto
  moreover obtain mt ret ctx1 adv ctx2 where "tls13_handshake_active_state ctx = mt"
    and "perform_action env mt ctx = (ret, ctx1)"
    and "tls13_handshake_advance_state_machine ctx1 = (adv, ctx2)" by (metis prod.exhaust)
  ultimately show ?case
    using Suc.prems(1) Suc.IH [of ctx2 more] perform_loop_step [of ctx mt env ret ctx1]
    by (cases "mt = INVALID"; cases adv)
      (simp_all add: tls13_handshake_active_action_def split: if_splits)
qed simp

lemma perform_unique:
  "tls13_handshake_perform env f ctx = Some r \<Longrightarrow> tls13_handshake_perform env f' ctx = Some r' \<Longrightarrow> r = r'"
  unfolding tls13_handshake_perform_def Let_def
  by (metis perform_loop_more linear option.inject)

lemma hs_session_position:
  assumes mode: "mode = TLS13_HS_CLIENT \<or> mode = TLS13_HS_SERVER" and conform: "handlers_conform mode env"
    and "hs_session mode env ctx"
  shows "hs_position mode ctx \<and> \<not> ctx_handshake_completed ctx"
  using assms(3)
proof (induction rule: hs_session.induct)
  case (fresh ctx)
  then show ?case using fresh_position by (auto simp: fresh_ctx_def)
next
  case (resume ctx fuel ret ctx' w)
  then have "perform_post mode (ret, ctx')"
    using perform_post_ctx [OF mode conform] perform_unique by metis
  with resume.hyps show ?case by (auto simp: perform_post_def resumable_def)
qed

section \<open>Properties\<close>

text \<open>C1. The tables of \<^verbatim>\<open>tls13_handshake.c\<close> together with the flags the handlers set implement the message
  flow of RFC 8446 on both sides: every run of the machine processes a prefix of a legal flow, is never
  at an undefined state, and is at application data exactly when the flow is complete; and every legal
  flow is a run that ends at application data.\<close>

theorem handshake_runs_are_rfc8446:
  assumes "mode = TLS13_HS_CLIENT \<or> mode = TLS13_HS_SERVER"
  shows "(\<forall>t n tr. hs_reachable mode (t, n, tr) \<longrightarrow>
            stage_message t n \<noteq> INVALID \<and> n = length tr \<and>
            (\<exists>hrr cr ccv. take n (rfc8446_flow hrr cr ccv) = tr \<and>
               (stage_message t n = APPLICATION_DATA \<longleftrightarrow> tr = rfc8446_flow hrr cr ccv)))
         \<and> (\<exists>t n. hs_reachable mode (t, n, rfc8446_flow hrr cr ccv) \<and> stage_message t n = APPLICATION_DATA)"
proof (intro conjI allI impI)
  fix t n tr
  assume "hs_reachable mode (t, n, tr)"
  note legal = hs_explored(1) [OF assms this]
  from legal show "stage_message t n \<noteq> INVALID" "n = length tr" by (auto simp: run_legal_def)
  from legal obtain flow where "flow \<in> set rfc8446_flows" "take n flow = tr"
    "stage_message t n = APPLICATION_DATA \<longleftrightarrow> tr = flow" by (auto simp: run_legal_def list_ex_iff)
  then show "\<exists>hrr cr ccv. take n (rfc8446_flow hrr cr ccv) = tr \<and>
       (stage_message t n = APPLICATION_DATA \<longleftrightarrow> tr = rfc8446_flow hrr cr ccv)"
    unfolding rfc8446_flows_iff by blast
next
  show "\<exists>t n. hs_reachable mode (t, n, rfc8446_flow hrr cr ccv) \<and> stage_message t n = APPLICATION_DATA"
    using hs_explored(2) [OF assms] rfc8446_flows_iff by blast
qed

theorem handshake_runs_are_rfc8446_witness:
  "\<exists>t n. hs_reachable 2 (t, n, rfc8446_flow True False False) \<and> stage_message t n = APPLICATION_DATA"
  using handshake_runs_are_rfc8446 [of 2 True False False] by simp


definition example_env :: "u8 \<Rightarrow> nat hs_env" where
  "example_env mode =
     \<lparr>env_grant = (\<lambda>n. True), env_read = (\<lambda>w n. (TLS13_IO_WANT_POLLIN, [], w)),
      env_write = (\<lambda>w d. (int (length d), w)),
      env_dummy_ccs = (\<lambda>w. (1, w)), env_send_alert = (\<lambda>w a. (- 2, w)), env_completed = (\<lambda>w. w),
      env_transcript_record = (\<lambda>w d. (True, w + length d)), env_transcript_hash = (\<lambda>w. (True, w)),
      env_info_cb = (\<lambda>w b. w), env_sent_cb = (\<lambda>w. w), env_recv_cb = (\<lambda>w. w),
      env_send = (\<lambda>mt ctx. (True, ctx)),
      env_sent = (\<lambda>mt ctx. (True, ctx\<lparr>ctx_hs_type := snd (hd (stage_outcomes mode mt (ctx_hs_type ctx)))\<rparr>)),
      env_recv = (\<lambda>mt ctx cbs. (True, CBS_init [],
        ctx\<lparr>ctx_hs_type := snd (hd (stage_outcomes mode mt (ctx_hs_type ctx)))\<rparr>))\<rparr>"

definition example_ctx :: "u8 \<Rightarrow> nat tls13_ctx" where
  "example_ctx mode =
     \<lparr>ctx_mode = mode, ctx_hs_type = INITIAL, ctx_message_number = 0, ctx_handshake_started = False,
      ctx_handshake_completed = False, ctx_send_dummy_ccs = False, ctx_send_dummy_ccs_after = False,
      ctx_alert = 0, ctx_hs_msg = None, ctx_version = TLS1_3_VERSION, ctx_world = 0\<rparr>"

lemma stage_outcomes_nonempty: "stage_outcomes mode mt t \<noteq> []"
  by (cases mt) (simp_all add: stage_outcomes_def)

lemma example_conform: "handlers_conform mode (example_env mode)"
  using hd_in_set [OF stage_outcomes_nonempty]
  by (auto simp: handlers_conform_def example_env_def kept_def stage_outs_def both_ccs_def)

lemma example_session: "hs_session mode env (example_ctx mode)"
  by (rule hs_session.fresh) (simp add: fresh_ctx_def example_ctx_def)


end
