(* ===== verification/Md32_Common.thy ===== *)
theory Md32_Common
  imports Prelude
begin

text \<open>
  The buffering of the 32-bit message digests, \<^verbatim>\<open>crypto/md32_common.h\<close>. The header is a template: a digest
  includes it with its own context type, block function and byte order. Here they are the arguments
  \<open>blk\<close>, which updates the chaining value \<open>'h\<close> with one block of 64 bytes, and \<open>len_bytes\<close>, the eight
  octets in which the message length \<open>Nh\<close>, \<open>Nl\<close> ends the last block.

  \<open>md32_spec\<close> is the reference: the padded message as one string, cut into blocks. The context
  represents the message absorbed so far (\<open>md32_rep\<close>), however it was split among the calls.
\<close>

abbreviation (input) HASH_CBLOCK :: nat where "HASH_CBLOCK \<equiv> 64"

record 'h md32_ctx =
  md_h :: 'h
  md_Nl :: u32
  md_Nh :: u32
  md_data :: bytes
  md_num :: nat

text \<open>\<open>HASH_BLOCK_DATA_ORDER(c, p, num)\<close>\<close>

fun block_data_order :: "('h \<Rightarrow> bytes \<Rightarrow> 'h) \<Rightarrow> nat \<Rightarrow> 'h \<Rightarrow> bytes \<Rightarrow> 'h" where
  "block_data_order blk 0 h p = h"
| "block_data_order blk (Suc num) h p = block_data_order blk num (blk h (take 64 p)) (drop 64 p)"

text \<open>The three parts of \<open>HASH_UPDATE\<close>: counting the bits, filling a block that is under way, and
  the whole blocks and the rest of the input.\<close>

definition md32_count :: "('h, 'z) md32_ctx_scheme \<Rightarrow> nat \<Rightarrow> ('h, 'z) md32_ctx_scheme" where
  "md32_count c len =
     (let l = md_Nl c + push_bit 3 (word_of_nat len);
          Nh = (if l < md_Nl c then md_Nh c + 1 else md_Nh c)
      in c\<lparr>md_Nh := Nh + word_of_nat (len div 2 ^ 29), md_Nl := l\<rparr>)"

definition md32_absorb :: "('h \<Rightarrow> bytes \<Rightarrow> 'h) \<Rightarrow> ('h, 'z) md32_ctx_scheme \<Rightarrow> bytes \<Rightarrow> ('h, 'z) md32_ctx_scheme" where
  "md32_absorb blk c data =
     (let n = length data div HASH_CBLOCK;
          c = (if 0 < n then c\<lparr>md_h := block_data_order blk n (md_h c) data\<rparr> else c);
          data = drop (n * HASH_CBLOCK) data
      in if data \<noteq> [] then c\<lparr>md_num := length data, md_data := mem_write (md_data c) 0 data\<rparr> else c)"

definition HASH_UPDATE :: "('h \<Rightarrow> bytes \<Rightarrow> 'h) \<Rightarrow> ('h, 'z) md32_ctx_scheme \<Rightarrow> bytes \<Rightarrow> ('h, 'z) md32_ctx_scheme" where
  "HASH_UPDATE blk c data =
     (if data = [] then c
      else
        let len = length data; c = md32_count c len; n = md_num c in
        if n \<noteq> 0 then
          (if HASH_CBLOCK \<le> len \<or> HASH_CBLOCK \<le> len + n then
             let p = mem_write (md_data c) n (take (HASH_CBLOCK - n) data);
                 c = c\<lparr>md_h := blk (md_h c) p, md_num := 0, md_data := replicate HASH_CBLOCK 0\<rparr>
             in md32_absorb blk c (drop (HASH_CBLOCK - n) data)
           else c\<lparr>md_data := mem_write (md_data c) n data, md_num := n + len\<rparr>)
        else md32_absorb blk c data)"

text \<open>\<open>HASH_FINAL\<close> up to the digest string, which the digest makes of the chaining value.\<close>

definition HASH_FINAL :: "('h \<Rightarrow> bytes \<Rightarrow> 'h) \<Rightarrow> (u32 \<Rightarrow> u32 \<Rightarrow> bytes) \<Rightarrow> ('h, 'z) md32_ctx_scheme \<Rightarrow> ('h, 'z) md32_ctx_scheme" where
  "HASH_FINAL blk len_bytes c =
     (let p = (md_data c)[md_num c := 0x80]; n = md_num c + 1;
          (h, p, n) =
            (if HASH_CBLOCK - 8 < n then
               (let p = mem_write p n (replicate (HASH_CBLOCK - n) 0) in (blk (md_h c) p, p, 0))
             else (md_h c, p, n));
          p = mem_write p n (replicate (HASH_CBLOCK - 8 - n) 0);
          p = mem_write p (HASH_CBLOCK - 8) (len_bytes (md_Nh c) (md_Nl c))
      in c\<lparr>md_h := blk h p, md_num := 0, md_data := replicate HASH_CBLOCK 0\<rparr>)"

section \<open>The reference\<close>

definition md32_pad :: "(u32 \<Rightarrow> u32 \<Rightarrow> bytes) \<Rightarrow> bytes \<Rightarrow> bytes" where
  "md32_pad len_bytes m =
     [0x80] @ replicate ((119 - length m mod 64) mod 64) 0
     @ len_bytes (word_of_nat (8 * length m div 2 ^ 32)) (word_of_nat (8 * length m))"

definition md32_spec :: "('h \<Rightarrow> bytes \<Rightarrow> 'h) \<Rightarrow> (u32 \<Rightarrow> u32 \<Rightarrow> bytes) \<Rightarrow> 'h \<Rightarrow> bytes \<Rightarrow> 'h" where
  "md32_spec blk len_bytes iv m =
     (let x = m @ md32_pad len_bytes m in block_data_order blk (length x div 64) iv x)"

definition md32_rep :: "('h \<Rightarrow> bytes \<Rightarrow> 'h) \<Rightarrow> 'h \<Rightarrow> bytes \<Rightarrow> ('h, 'z) md32_ctx_scheme \<Rightarrow> bool" where
  "md32_rep blk iv m c \<longleftrightarrow>
     length (md_data c) = 64 \<and> md_num c = length m mod 64
     \<and> take (md_num c) (md_data c) = drop (64 * (length m div 64)) m
     \<and> md_h c = block_data_order blk (length m div 64) iv m
     \<and> md_Nl c = word_of_nat (8 * length m) \<and> md_Nh c = word_of_nat (8 * length m div 2 ^ 32)"

section \<open>Blocks\<close>

lemma block_data_order_add:
  "block_data_order blk (a + b) h xs = block_data_order blk b (block_data_order blk a h xs) (drop (64 * a) xs)"
  by (induction a arbitrary: h xs) (simp_all add: algebra_simps)

lemma block_data_order_append:
  "64 * n \<le> length xs \<Longrightarrow> block_data_order blk n h (xs @ ys) = block_data_order blk n h xs"
  by (induction n arbitrary: h xs) simp_all

lemma block_data_order_two:
  "length x = 64 \<Longrightarrow> length y = 64 \<Longrightarrow> block_data_order blk 2 h (x @ y) = blk (blk h x) y"
  by (simp add: numeral_2_eq_2)

text \<open>A message of which the first blocks have been processed.\<close>

lemma block_data_order_rest:
  assumes "xs = ys @ zs" and "length ys = 64 * a"
  shows "block_data_order blk (a + b) h xs = block_data_order blk b (block_data_order blk a h ys) zs"
  using assms by (simp add: block_data_order_add block_data_order_append)

section \<open>The length\<close>

lemma add_div_carry:
  fixes p q M :: nat
  assumes "p < M" and "q < M"
  shows "(p + q) div M = (if (p + q) mod M < p then 1 else 0)"
proof (cases "p + q < M")
  case False
  then have "(p + q) div M = 1" "(p + q) mod M = p + q - M"
    using assms by (simp_all add: div_if le_mod_geq)
  then show ?thesis using assms False by simp
qed simp

lemma md32_count_rep:
  assumes Nl: "md_Nl c = word_of_nat a" and Nh: "md_Nh c = word_of_nat (a div 2 ^ 32)"
  shows "md_Nl (md32_count c len) = word_of_nat (a + 8 * len)"
    and "md_Nh (md32_count c len) = word_of_nat ((a + 8 * len) div 2 ^ 32)"
proof -
  define x where "x = 8 * len mod 2 ^ 32"
  define l where "l = (word_of_nat a + push_bit 3 (word_of_nat len) :: u32)"
  have l: "l = word_of_nat (a + 8 * len)" by (simp add: l_def push_bit_eq_mult mult.commute)
  then show "md_Nl (md32_count c len) = word_of_nat (a + 8 * len)"
    by (simp add: md32_count_def Let_def Nl l_def)
  have "unat l = (a + 8 * len) mod 2 ^ 32" by (simp add: l unsigned_of_nat take_bit_eq_mod del: of_nat_add)
  also have "\<dots> = (a mod 2 ^ 32 + x) mod 2 ^ 32" by (simp add: x_def mod_add_eq)
  finally have ul: "unat l = (a mod 2 ^ 32 + x) mod 2 ^ 32" .
  have ua: "unat (word_of_nat a :: u32) = a mod 2 ^ 32" by (simp add: unsigned_of_nat take_bit_eq_mod)
  have bounds: "a mod 2 ^ 32 < (2 ^ 32 :: nat)" "x < 2 ^ 32" by (simp_all add: x_def)
  have carry: "(a mod 2 ^ 32 + x) div 2 ^ 32 = (if l < word_of_nat a then 1 else 0)"
    unfolding word_less_nat_alt ul ua by (rule add_div_carry [OF bounds])
  have eight: "8 * len div 2 ^ 32 = len div 2 ^ 29" by simp
  have "(a + 8 * len) div 2 ^ 32 = a div 2 ^ 32 + len div 2 ^ 29 + (a mod 2 ^ 32 + x) div 2 ^ 32"
    unfolding x_def by (metis div_add1_eq eight)
  then show "md_Nh (md32_count c len) = word_of_nat ((a + 8 * len) div 2 ^ 32)"
    unfolding carry by (simp add: md32_count_def Let_def Nl Nh l_def add.commute)
qed

section \<open>Absorbing a message\<close>

lemma md32_count_simps [simp]:
  "md_h (md32_count c len) = md_h c" "md_data (md32_count c len) = md_data c"
  "md_num (md32_count c len) = md_num c"
  by (simp_all add: md32_count_def Let_def)

lemma md32_absorb_rep:
  assumes data: "length (md_data c) = 64" and num: "md_num c = 0" and ys: "length ys = 64 * a"
    and h: "md_h c = block_data_order blk a iv ys"
    and Nl: "md_Nl c = word_of_nat (8 * length (ys @ zs))"
    and Nh: "md_Nh c = word_of_nat (8 * length (ys @ zs) div 2 ^ 32)"
  shows "md32_rep blk iv (ys @ zs) (md32_absorb blk c zs)"
proof -
  define n where "n = length zs div 64"
  define rest where "rest = drop (n * 64) zs"
  have len: "length (ys @ zs) div 64 = a + n" "length (ys @ zs) mod 64 = length rest"
    by (simp_all add: n_def rest_def ys minus_div_mult_eq_mod)
  have rest: "drop (64 * (a + n)) (ys @ zs) = rest" "length rest < 64"
    by (simp_all add: rest_def ys algebra_simps n_def minus_div_mult_eq_mod minus_mult_div_eq_mod)
  have "block_data_order blk n (md_h c) zs = block_data_order blk (a + n) iv (ys @ zs)"
    using block_data_order_rest [OF refl ys] h by metis
  then have h': "md_h (md32_absorb blk c zs) = block_data_order blk (a + n) iv (ys @ zs)"
    by (cases "n = 0") (auto simp: md32_absorb_def Let_def n_def [symmetric])
  have num': "md_num (md32_absorb blk c zs) = length rest"
    using num by (auto simp: md32_absorb_def Let_def rest_def n_def)
  have data': "length (md_data (md32_absorb blk c zs)) = 64"
    "take (length rest) (md_data (md32_absorb blk c zs)) = rest"
    using data rest(2) take_mem_write [of 0 rest "length rest" "md_data c"]
    unfolding md32_absorb_def Let_def n_def [symmetric] rest_def [symmetric]
    by (cases "rest = []"; simp)+
  have "md_Nl (md32_absorb blk c zs) = md_Nl c" "md_Nh (md32_absorb blk c zs) = md_Nh c"
    by (simp_all add: md32_absorb_def Let_def)
  then show ?thesis
    unfolding md32_rep_def len num' data'(2) rest(1) using Nl Nh h' data'(1) by simp
qed

lemma HASH_UPDATE_rep:
  assumes rep: "md32_rep blk iv m c"
  shows "md32_rep blk iv (m @ data) (HASH_UPDATE blk c data)"
proof (cases "data = []")
  case False
  define c1 where "c1 = md32_count c (length data)"
  define a where "a = length m div 64"
  define ys where "ys = take (64 * a) m"
  define n where "n = md_num c"
  have m: "m = ys @ drop (64 * a) m" and ys: "length ys = 64 * a" by (simp_all add: ys_def a_def)
  have n: "n = length m mod 64" "length (drop (64 * a) m) = n" "n < 64"
    using rep by (simp_all add: n_def md32_rep_def a_def minus_mult_div_eq_mod)
  have c1: "length (md_data c1) = 64" "md_num c1 = n" "take n (md_data c1) = drop (64 * a) m"
    "md_h c1 = block_data_order blk a iv ys"
    using rep m ys block_data_order_append [of a ys blk iv "drop (64 * a) m"]
    unfolding md32_rep_def by (auto simp: c1_def n_def a_def)
  have cnt: "md_Nl c1 = word_of_nat (8 * length (m @ data))" "md_Nh c1 = word_of_nat (8 * length (m @ data) div 2 ^ 32)"
    using md32_count_rep [of c "8 * length m" "length data"] rep
    by (simp_all add: c1_def md32_rep_def algebra_simps)
  consider "n = 0" | "n \<noteq> 0" "64 \<le> length data + n" | "n \<noteq> 0" "length data + n < 64" by linarith
  then show ?thesis
  proof cases
    case 1
    then have "HASH_UPDATE blk c data = md32_absorb blk c1 data"
      using False c1(2) unfolding HASH_UPDATE_def Let_def c1_def [symmetric] by simp
    moreover have "m = ys" using m n(2) 1 by simp
    ultimately show ?thesis using 1 md32_absorb_rep [OF c1(1) _ ys c1(4), of data] c1(2) cnt by simp
  next
    case 2
    define blk1 where "blk1 = drop (64 * a) m @ take (64 - n) data"
    define c2 where "c2 = c1\<lparr>md_h := blk (md_h c1) blk1, md_num := 0, md_data := replicate 64 0\<rparr>"
    have len1: "length blk1 = 64" using 2 n by (simp add: blk1_def)
    have "mem_write (md_data c1) n (take (64 - n) data) = blk1"
      using 2 c1(1,3) n(3) by (simp add: mem_write_def blk1_def)
    then have upd: "HASH_UPDATE blk c data = md32_absorb blk c2 (drop (64 - n) data)"
      using False 2 c1(2) unfolding HASH_UPDATE_def Let_def c1_def [symmetric] by (simp add: c2_def)
    have split: "m @ data = (ys @ blk1) @ drop (64 - n) data" using m by (simp add: blk1_def)
    have "md_h c2 = block_data_order blk (a + 1) iv (ys @ blk1)"
      using c1(4) len1 block_data_order_rest [OF refl ys, of blk 1 iv blk1] by (simp add: c2_def)
    moreover have "length (ys @ blk1) = 64 * (a + 1)" using ys len1 by simp
    moreover have "length (md_data c2) = 64" "md_num c2 = 0" "md_Nl c2 = md_Nl c1" "md_Nh c2 = md_Nh c1"
      by (simp_all add: c2_def)
    ultimately show ?thesis
      using md32_absorb_rep [of c2 "ys @ blk1" "a + 1" blk iv "drop (64 - n) data"] cnt
      unfolding upd split by metis
  next
    case 3
    then have upd: "HASH_UPDATE blk c data = c1\<lparr>md_data := mem_write (md_data c1) n data, md_num := n + length data\<rparr>"
      using False c1(2) unfolding HASH_UPDATE_def Let_def c1_def [symmetric] by simp
    have "length (m @ data) = 64 * a + (n + length data)"
      using n(1) by (simp add: a_def)
    then have len: "length (m @ data) div 64 = a" "length (m @ data) mod 64 = n + length data"
      using 3(2) by (simp_all only: div_mult_self4 mod_mult_self4) simp_all
    have "block_data_order blk a iv (m @ data) = block_data_order blk a iv ys"
      using m ys block_data_order_append [of a ys blk iv "drop (64 * a) m @ data"] by (metis append.assoc order_refl)
    moreover have "take (n + length data) (mem_write (md_data c1) n data) = drop (64 * a) (m @ data)"
      using 3 c1(1,3) take_mem_write [of n data "n + length data" "md_data c1"] n(2) m ys
      by (metis add.commute append.assoc append_eq_conv_conj less_imp_le)
    ultimately show ?thesis
      using 3 c1 cnt len unfolding upd md32_rep_def by simp
  qed
qed (simp add: HASH_UPDATE_def rep)

section \<open>The last blocks\<close>

lemma length_md32_pad:
  assumes "\<And>a b. length (len_bytes a b) = 8"
  shows "length m mod 64 + length (md32_pad len_bytes m) = (if 55 < length m mod 64 then 128 else 64)"
proof -
  define n where "n = length m mod 64"
  have "n < 64" by (simp add: n_def)
  then have "(119 - n) mod 64 = (if 55 < n then 119 - n else 55 - n)" by (auto simp: mod_if)
  then show ?thesis using assms \<open>n < 64\<close> unfolding md32_pad_def n_def [symmetric] by simp
qed

lemma HASH_FINAL_block:
  assumes data: "length (md_data c) = 64" and num: "md_num c < 56"
    and len: "length (len_bytes (md_Nh c) (md_Nl c)) = 8"
  shows "md_h (HASH_FINAL blk len_bytes c) = blk (md_h c) (take (md_num c) (md_data c) @ [0x80]
    @ replicate (55 - md_num c) 0 @ len_bytes (md_Nh c) (md_Nl c))"
proof -
  define n where "n = md_num c"
  have "mem_write (mem_write ((md_data c)[n := 0x80]) (n + 1) (replicate (56 - (n + 1)) 0)) 56 (len_bytes (md_Nh c) (md_Nl c))
    = take n (md_data c) @ [0x80] @ replicate (55 - n) 0 @ len_bytes (md_Nh c) (md_Nl c)"
  proof -
    have "(md_data c)[n := 0x80] = take n (md_data c) @ [0x80] @ drop (n + 1) (md_data c)"
      using data num by (simp add: n_def upd_conv_take_nth_drop)
    then have "mem_write ((md_data c)[n := 0x80]) (n + 1) (replicate (56 - (n + 1)) 0)
      = (take n (md_data c) @ [0x80] @ replicate (55 - n) 0) @ drop 56 (md_data c)"
      using data num by (simp add: n_def mem_write_def drop_Cons')
    moreover have "length (take n (md_data c) @ [0x80 :: u8] @ replicate (55 - n) 0) = 56"
      using data num by (simp add: n_def)
    then have "mem_write ((take n (md_data c) @ [0x80] @ replicate (55 - n) 0) @ drop 56 (md_data c) @ []) 56
        (len_bytes (md_Nh c) (md_Nl c))
      = (take n (md_data c) @ [0x80] @ replicate (55 - n) 0) @ len_bytes (md_Nh c) (md_Nl c) @ []"
      using data len by (intro mem_write_split) simp_all
    ultimately show ?thesis by simp
  qed
  then show ?thesis
    using num by (simp add: HASH_FINAL_def Let_def n_def)
qed

lemma HASH_FINAL_two_blocks:
  assumes data: "length (md_data c) = 64" and num: "56 \<le> md_num c" "md_num c < 64"
    and len: "length (len_bytes (md_Nh c) (md_Nl c)) = 8"
  shows "md_h (HASH_FINAL blk len_bytes c) =
    blk (blk (md_h c) (take (md_num c) (md_data c) @ [0x80] @ replicate (63 - md_num c) 0))
      (replicate 56 0 @ len_bytes (md_Nh c) (md_Nl c))"
proof -
  define n where "n = md_num c"
  have p: "mem_write ((md_data c)[n := 0x80]) (n + 1) (replicate (64 - (n + 1)) 0)
    = take n (md_data c) @ [0x80] @ replicate (63 - n) 0"
    using data num by (simp add: n_def mem_write_def upd_conv_take_nth_drop)
  have "mem_write (mem_write q 0 (replicate 56 0)) 56 (len_bytes (md_Nh c) (md_Nl c))
    = replicate 56 0 @ len_bytes (md_Nh c) (md_Nl c)" if "length q = 64" for q
    using that len by (simp add: mem_write_def)
  then show ?thesis
    using num data p by (simp add: HASH_FINAL_def Let_def n_def)
qed

lemma HASH_FINAL_spec:
  assumes rep: "md32_rep blk iv m c" and len: "\<And>a b. length (len_bytes a b) = 8"
  shows "md_h (HASH_FINAL blk len_bytes c) = md32_spec blk len_bytes iv m"
proof -
  define a where "a = length m div 64"
  define n where "n = length m mod 64"
  define ys where "ys = take (64 * a) m"
  define tail where "tail = drop (64 * a) m @ md32_pad len_bytes m"
  have c: "length (md_data c) = 64" "md_num c = n" "take n (md_data c) = drop (64 * a) m" "n < 64"
    "md_h c = block_data_order blk a iv m" "md_Nl c = word_of_nat (8 * length m)"
    "md_Nh c = word_of_nat (8 * length m div 2 ^ 32)"
    using rep unfolding md32_rep_def by (auto simp: n_def a_def)
  have ys: "length ys = 64 * a" and x: "m @ md32_pad len_bytes m = ys @ tail" by (simp_all add: ys_def a_def tail_def)
  have h: "md_h c = block_data_order blk a iv ys"
    using c(5) ys block_data_order_append [of a ys blk iv "drop (64 * a) m"] by (simp add: ys_def)
  have lt: "length tail = (if 55 < n then 128 else 64)"
    using length_md32_pad [OF len, of m] by (simp add: tail_def n_def a_def minus_mult_div_eq_mod)
  have spec: "md32_spec blk len_bytes iv m = block_data_order blk (length tail div 64) (md_h c) tail"
    using block_data_order_rest [OF refl ys] ys unfolding md32_spec_def Let_def x h by simp
  have pad: "tail = take n (md_data c) @ [0x80] @ replicate ((119 - n) mod 64) 0 @ len_bytes (md_Nh c) (md_Nl c)"
    unfolding tail_def c(3) c(6,7) md32_pad_def n_def [symmetric] by simp
  show ?thesis
  proof (cases "55 < n")
    case True
    have "(119 - n) mod 64 = 63 - n + 56" using True c(4) by simp
    then have "tail = (take n (md_data c) @ [0x80] @ replicate (63 - n) 0) @ replicate 56 0 @ len_bytes (md_Nh c) (md_Nl c)"
      unfolding pad by (simp only: replicate_add append_assoc)
    moreover have "length (take n (md_data c) @ [0x80 :: u8] @ replicate (63 - n) 0) = 64" using c(1,4) by simp
    moreover have "length (replicate 56 0 @ len_bytes (md_Nh c) (md_Nl c)) = 64" using len by simp
    ultimately have "block_data_order blk 2 (md_h c) tail = md_h (HASH_FINAL blk len_bytes c)"
      using True c(1,2,4) len HASH_FINAL_two_blocks [of c len_bytes blk]
      by (simp only: block_data_order_two)
    then show ?thesis using True lt spec by simp
  next
    case False
    have "(119 - n) mod 64 = 55 - n" using False by (auto simp: mod_if)
    then show ?thesis
      using False c(1,2,4) lt spec len pad HASH_FINAL_block [of c len_bytes blk] by simp
  qed
qed

end
