(* ===== verification/Sha256.thy ===== *)
theory Sha256
  imports Md32_Common
begin

text \<open>
  SHA-256 and SHA-224, \<^verbatim>\<open>crypto/sha/sha256.c\<close> on top of \<^verbatim>\<open>crypto/md32_common.h\<close>. The block function is the
  unrolled one: the eight working variables stay where they are and the macros permute their roles,
  and the message schedule lives in a circular buffer of sixteen words. The reference \<open>fips_compress\<close>
  is the compression function of FIPS 180-4, with its shifting variables, the full schedule, and right
  rotations.
\<close>

section \<open>The program\<close>

definition ROTATE :: "u32 \<Rightarrow> nat \<Rightarrow> u32" where
  "ROTATE a n = push_bit n a OR drop_bit (32 - n) a"

definition HOST_c2l :: "bytes \<Rightarrow> u32" where
  "HOST_c2l c = push_bit 24 (ucast (c ! 0)) OR push_bit 16 (ucast (c ! 1)) OR push_bit 8 (ucast (c ! 2)) OR ucast (c ! 3)"

definition HOST_l2c :: "u32 \<Rightarrow> bytes" where
  "HOST_l2c l = [ucast (drop_bit 24 l), ucast (drop_bit 16 l), ucast (drop_bit 8 l), ucast l]"

definition K256 :: "u32 list" where
  "K256 =
     [0x428a2f98, 0x71374491, 0xb5c0fbcf, 0xe9b5dba5, 0x3956c25b, 0x59f111f1, 0x923f82a4, 0xab1c5ed5,
      0xd807aa98, 0x12835b01, 0x243185be, 0x550c7dc3, 0x72be5d74, 0x80deb1fe, 0x9bdc06a7, 0xc19bf174,
      0xe49b69c1, 0xefbe4786, 0x0fc19dc6, 0x240ca1cc, 0x2de92c6f, 0x4a7484aa, 0x5cb0a9dc, 0x76f988da,
      0x983e5152, 0xa831c66d, 0xb00327c8, 0xbf597fc7, 0xc6e00bf3, 0xd5a79147, 0x06ca6351, 0x14292967,
      0x27b70a85, 0x2e1b2138, 0x4d2c6dfc, 0x53380d13, 0x650a7354, 0x766a0abb, 0x81c2c92e, 0x92722c85,
      0xa2bfe8a1, 0xa81a664b, 0xc24b8b70, 0xc76c51a3, 0xd192e819, 0xd6990624, 0xf40e3585, 0x106aa070,
      0x19a4c116, 0x1e376c08, 0x2748774c, 0x34b0bcb5, 0x391c0cb3, 0x4ed8aa4a, 0x5b9cca4f, 0x682e6ff3,
      0x748f82ee, 0x78a5636f, 0x84c87814, 0x8cc70208, 0x90befffa, 0xa4506ceb, 0xbef9a3f7, 0xc67178f2]"

definition Sigma0 :: "u32 \<Rightarrow> u32" where "Sigma0 x = ROTATE x 30 XOR ROTATE x 19 XOR ROTATE x 10"
definition Sigma1 :: "u32 \<Rightarrow> u32" where "Sigma1 x = ROTATE x 26 XOR ROTATE x 21 XOR ROTATE x 7"
definition sigma0 :: "u32 \<Rightarrow> u32" where "sigma0 x = ROTATE x 25 XOR ROTATE x 14 XOR drop_bit 3 x"
definition sigma1 :: "u32 \<Rightarrow> u32" where "sigma1 x = ROTATE x 15 XOR ROTATE x 13 XOR drop_bit 10 x"
definition Ch :: "u32 \<Rightarrow> u32 \<Rightarrow> u32 \<Rightarrow> u32" where "Ch x y z = (x AND y) XOR (NOT x AND z)"
definition Maj :: "u32 \<Rightarrow> u32 \<Rightarrow> u32 \<Rightarrow> u32" where "Maj x y z = (x AND y) XOR (x AND z) XOR (y AND z)"

text \<open>The variables \<open>a\<close>, \<dots>, \<open>h\<close> are a list of eight words. The \<open>j\<close>-th argument of the macro in round
  \<open>i\<close> is the variable \<open>role i j\<close>: each round passes them rotated by one place.\<close>

definition role :: "nat \<Rightarrow> nat \<Rightarrow> nat" where
  "role i j = (j + 8 - i mod 8) mod 8"

definition ROUND_00_15 :: "nat \<Rightarrow> u32 \<Rightarrow> u32 list \<Rightarrow> u32 list" where
  "ROUND_00_15 i T1 r =
     (let a = r ! role i 0; b = r ! role i 1; c = r ! role i 2; d = r ! role i 3;
          e = r ! role i 4; f = r ! role i 5; g = r ! role i 6; h = r ! role i 7;
          T1 = T1 + h + Sigma1 e + Ch e f g + K256 ! i
      in r[role i 7 := Sigma0 a + Maj a b c + T1, role i 3 := d + T1])"

definition ROUND_16_63 :: "nat \<Rightarrow> u32 list \<times> u32 list \<Rightarrow> u32 list \<times> u32 list" where
  "ROUND_16_63 i s =
     (case s of (r, X) \<Rightarrow>
        let s0 = sigma0 (X ! ((i + 1) mod 16)); s1 = sigma1 (X ! ((i + 14) mod 16));
            T1 = X ! (i mod 16) + (s0 + s1 + X ! ((i + 9) mod 16))
        in (ROUND_00_15 i T1 r, X[i mod 16 := T1]))"

definition sha256_block :: "u32 list \<Rightarrow> bytes \<Rightarrow> u32 list" where
  "sha256_block h p =
     (let X = map (\<lambda>i. HOST_c2l (take 4 (drop (4 * i) p))) [0..<16];
          r = foldl (\<lambda>r i. ROUND_00_15 i (X ! i) r) h [0..<16];
          r = fst (foldl (\<lambda>s i. ROUND_16_63 i s) (r, X) [16..<64])
      in map2 (+) h r)"

record SHA256_CTX = "u32 list md32_ctx" +
  md_len :: nat

abbreviation (input) SHA224_DIGEST_LENGTH :: nat where "SHA224_DIGEST_LENGTH \<equiv> 28"
abbreviation (input) SHA256_DIGEST_LENGTH :: nat where "SHA256_DIGEST_LENGTH \<equiv> 32"

definition SHA224_Init :: SHA256_CTX where
  "SHA224_Init =
     \<lparr>md_h = [0xc1059ed8, 0x367cd507, 0x3070dd17, 0xf70e5939, 0xffc00b31, 0x68581511, 0x64f98fa7, 0xbefa4fa4],
      md_Nl = 0, md_Nh = 0, md_data = replicate 64 0, md_num = 0, md_len = SHA224_DIGEST_LENGTH\<rparr>"

definition SHA256_Init :: SHA256_CTX where
  "SHA256_Init =
     \<lparr>md_h = [0x6a09e667, 0xbb67ae85, 0x3c6ef372, 0xa54ff53a, 0x510e527f, 0x9b05688c, 0x1f83d9ab, 0x5be0cd19],
      md_Nl = 0, md_Nh = 0, md_data = replicate 64 0, md_num = 0, md_len = SHA256_DIGEST_LENGTH\<rparr>"

definition SHA256_Update :: "SHA256_CTX \<Rightarrow> bytes \<Rightarrow> SHA256_CTX" where
  "SHA256_Update c data = HASH_UPDATE sha256_block c data"

text \<open>\<open>SHA256_Final\<close>, with \<open>HASH_MAKE_STRING\<close>; no digest when it returns 0.\<close>

definition SHA256_Final :: "SHA256_CTX \<Rightarrow> bytes option \<times> SHA256_CTX" where
  "SHA256_Final c =
     (let c = HASH_FINAL sha256_block (\<lambda>Nh Nl. HOST_l2c Nh @ HOST_l2c Nl) c in
      (if SHA256_DIGEST_LENGTH < md_len c then None
       else Some (concat (map (\<lambda>nn. HOST_l2c (md_h c ! nn)) [0..<md_len c div 4])), c))"

definition SHA224_fn :: "bytes \<Rightarrow> bytes option" where
  "SHA224_fn d = fst (SHA256_Final (SHA256_Update SHA224_Init d))"

definition SHA256_fn :: "bytes \<Rightarrow> bytes option" where
  "SHA256_fn d = fst (SHA256_Final (SHA256_Update SHA256_Init d))"

section \<open>The compression function of FIPS 180-4\<close>

lemma ROTATE_eq: "0 < n \<Longrightarrow> n < 32 \<Longrightarrow> ROTATE x n = word_rotr (32 - n) x"
proof (rule bit_word_eqI)
  fix k
  assume n: "0 < n" "n < 32" and k: "k < LENGTH(32)"
  show "bit (ROTATE x n) k = bit (word_rotr (32 - n) x) k"
  proof (cases "n \<le> k")
    case True
    then have "(k + (32 - n)) mod 32 = k - n" using n k by (simp add: mod_if)
    then show ?thesis using n k True
      by (auto simp: ROTATE_def bit_simps bit_word_rotr_iff dest: bit_imp_le_length)
  next
    case False
    then have "(k + (32 - n)) mod 32 = k + (32 - n)" using n by simp
    then show ?thesis using n k False
      by (auto simp: ROTATE_def bit_simps bit_word_rotr_iff add.commute)
  qed
qed

fun fips_W :: "u32 list \<Rightarrow> nat \<Rightarrow> u32" where
  "fips_W M t =
     (if t < 16 then M ! t
      else (word_rotr 17 (fips_W M (t - 2)) XOR word_rotr 19 (fips_W M (t - 2)) XOR drop_bit 10 (fips_W M (t - 2)))
        + fips_W M (t - 7)
        + (word_rotr 7 (fips_W M (t - 15)) XOR word_rotr 18 (fips_W M (t - 15)) XOR drop_bit 3 (fips_W M (t - 15)))
        + fips_W M (t - 16))"

declare fips_W.simps [simp del]

type_synonym u32x8 = "u32 \<times> u32 \<times> u32 \<times> u32 \<times> u32 \<times> u32 \<times> u32 \<times> u32"

definition fips_round :: "u32 \<Rightarrow> u32 \<Rightarrow> u32x8 \<Rightarrow> u32x8" where
  "fips_round K W s =
     (case s of (a, b, c, d, e, f, g, h) \<Rightarrow>
        let T1 = h + (word_rotr 6 e XOR word_rotr 11 e XOR word_rotr 25 e) + ((e AND f) XOR (NOT e AND g)) + K + W;
            T2 = (word_rotr 2 a XOR word_rotr 13 a XOR word_rotr 22 a) + ((a AND b) XOR (a AND c) XOR (b AND c))
        in (T1 + T2, a, b, c, d + T1, e, f, g))"

definition fips_compress :: "u32 list \<Rightarrow> bytes \<Rightarrow> u32 list" where
  "fips_compress H p =
     (let M = map (\<lambda>i. word_of_nat (be_val (take 4 (drop (4 * i) p)))) [0..<16];
          s0 = (H ! 0, H ! 1, H ! 2, H ! 3, H ! 4, H ! 5, H ! 6, H ! 7)
      in case foldl (\<lambda>s t. fips_round (K256 ! t) (fips_W M t) s) s0 [0..<64] of
           (a, b, c, d, e, f, g, h) \<Rightarrow>
             [H ! 0 + a, H ! 1 + b, H ! 2 + c, H ! 3 + d, H ! 4 + e, H ! 5 + f, H ! 6 + g, H ! 7 + h])"

definition roles :: "nat \<Rightarrow> u32 list \<Rightarrow> u32x8" where
  "roles i r = (r ! role i 0, r ! role i 1, r ! role i 2, r ! role i 3,
     r ! role i 4, r ! role i 5, r ! role i 6, r ! role i 7)"

lemma length_ROUND_00_15 [simp]: "length (ROUND_00_15 i T1 r) = length r"
  by (simp add: ROUND_00_15_def Let_def)

lemma list8E:
  assumes "length r = 8"
  obtains a b c d e f g h where "r = [a, b, c, d, e, f, g, h]"
  using assms by (auto simp: eval_nat_numeral length_Suc_conv)

text \<open>A round of the unrolled code is a round of the standard, seen through the roles.\<close>

lemma ROUND_00_15_fips:
  assumes "length r = 8"
  shows "roles (Suc i) (ROUND_00_15 i T1 r) = fips_round (K256 ! i) T1 (roles i r)"
proof -
  from assms obtain a b c d e f g h where r: "r = [a, b, c, d, e, f, g, h]" by (rule list8E)
  have "i mod 8 < 8" by simp
  then consider "i mod 8 = 0" | "i mod 8 = 1" | "i mod 8 = 2" | "i mod 8 = 3"
    | "i mod 8 = 4" | "i mod 8 = 5" | "i mod 8 = 6" | "i mod 8 = 7" by linarith
  then show ?thesis
    by cases (simp_all add: r roles_def role_def mod_Suc ROUND_00_15_def Let_def fips_round_def
        Sigma0_def Sigma1_def Ch_def Maj_def ROTATE_eq algebra_simps)
qed

lemma rounds_00_15_fips:
  assumes "length r = 8"
  shows "length (foldl (\<lambda>r i. ROUND_00_15 i (X ! i) r) r [0..<n]) = 8
    \<and> roles n (foldl (\<lambda>r i. ROUND_00_15 i (X ! i) r) r [0..<n])
        = foldl (\<lambda>s t. fips_round (K256 ! t) (X ! t) s) (roles 0 r) [0..<n]"
  using assms by (induction n) (simp_all add: ROUND_00_15_fips)

text \<open>The circular buffer holds the last sixteen words of the schedule.\<close>

definition schedule_inv :: "u32 list \<Rightarrow> nat \<Rightarrow> u32 list \<Rightarrow> bool" where
  "schedule_inv M i X \<longleftrightarrow> length X = 16 \<and> (\<forall>j<16. X ! ((i + j) mod 16) = fips_W M (i - 16 + j))"

lemma schedule_word:
  assumes inv: "schedule_inv M i X" and i: "16 \<le> i"
  shows "X ! (i mod 16) + (sigma0 (X ! ((i + 1) mod 16)) + sigma1 (X ! ((i + 14) mod 16)) + X ! ((i + 9) mod 16))
    = fips_W M i"
proof -
  have X: "X ! ((i + j) mod 16) = fips_W M (i - 16 + j)" if "j < 16" for j
    using inv that by (simp add: schedule_inv_def)
  have "X ! (i mod 16) = fips_W M (i - 16)" "X ! ((i + 1) mod 16) = fips_W M (i - 15)"
    "X ! ((i + 9) mod 16) = fips_W M (i - 7)" "X ! ((i + 14) mod 16) = fips_W M (i - 2)"
    using X [of 0] X [of 1] X [of 9] X [of 14] i Suc_diff_le [of 15 "i - 1"] by simp_all
  then show ?thesis
    using i unfolding fips_W.simps [of M i] by (simp add: sigma0_def sigma1_def ROTATE_eq algebra_simps)
qed

lemma schedule_inv_Suc:
  assumes inv: "schedule_inv M i X" and i: "16 \<le> i"
  shows "schedule_inv M (Suc i) (X[i mod 16 := fips_W M i])"
  unfolding schedule_inv_def
proof (intro conjI allI impI)
  show "length (X[i mod 16 := fips_W M i]) = 16" using inv by (simp add: schedule_inv_def)
  fix j :: nat
  assume j: "j < 16"
  show "X[i mod 16 := fips_W M i] ! ((Suc i + j) mod 16) = fips_W M (Suc i - 16 + j)"
  proof (cases "j = 15")
    case True
    then have "(Suc i + j) mod 16 = i mod 16" "Suc i - 16 + j = i" using i by simp_all
    then show ?thesis using inv by (simp add: schedule_inv_def)
  next
    case False
    then have "Suc j < 16" using j by simp
    have "(i + Suc j) mod 16 \<noteq> i mod 16"
    proof
      assume "(i + Suc j) mod 16 = i mod 16"
      then have "16 dvd i + Suc j - i" using mod_eq_dvd_iff_nat [of i "i + Suc j" 16] by simp
      then show False using \<open>Suc j < 16\<close> by (auto dest: dvd_imp_le)
    qed
    moreover have "X ! ((i + Suc j) mod 16) = fips_W M (i - 16 + Suc j)"
      using inv \<open>Suc j < 16\<close> by (simp add: schedule_inv_def del: add_Suc_right)
    moreover have "Suc i - 16 + j = i - 16 + Suc j" using i by simp
    moreover have "Suc i + j = i + Suc j" by simp
    ultimately show ?thesis by (simp only: nth_list_update_neq not_False_eq_True)
  qed
qed

lemma rounds_16_63_fips:
  assumes r: "length r = 8" and X: "schedule_inv M 16 X"
  shows "case foldl (\<lambda>s i. ROUND_16_63 i s) (r, X) [16..<16 + n] of (r', X') \<Rightarrow>
    length r' = 8 \<and> schedule_inv M (16 + n) X'
    \<and> roles (16 + n) r' = foldl (\<lambda>s t. fips_round (K256 ! t) (fips_W M t) s) (roles 16 r) [16..<16 + n]"
proof (induction n)
  case 0
  then show ?case using assms by simp
next
  case (Suc n)
  define s where "s = foldl (\<lambda>s i. ROUND_16_63 i s) (r, X) [16..<16 + n]"
  obtain r' X' where s: "s = (r', X')" by fastforce
  from Suc s have IH: "length r' = 8" "schedule_inv M (16 + n) X'"
    "roles (16 + n) r' = foldl (\<lambda>s t. fips_round (K256 ! t) (fips_W M t) s) (roles 16 r) [16..<16 + n]"
    unfolding s_def by simp_all
  have "ROUND_16_63 (16 + n) s = (ROUND_00_15 (16 + n) (fips_W M (16 + n)) r', X'[(16 + n) mod 16 := fips_W M (16 + n)])"
    using schedule_word [OF IH(2)] unfolding s ROUND_16_63_def Let_def by (simp add: ac_simps)
  moreover have "foldl (\<lambda>s i. ROUND_16_63 i s) (r, X) [16..<16 + Suc n] = ROUND_16_63 (16 + n) s"
    unfolding s_def add_Suc_right by (simp only: upt_Suc_append le_add1 foldl_append foldl.simps)
  moreover have "[16..<16 + Suc n] = [16..<16 + n] @ [16 + n]"
    by (simp only: add_Suc_right upt_Suc_append le_add1)
  ultimately show ?case
    using IH schedule_inv_Suc [OF IH(2)] ROUND_00_15_fips [OF IH(1), of "16 + n"] by simp
qed

lemma HOST_c2l_eq:
  assumes "length c = 4"
  shows "HOST_c2l c = word_of_nat (be_val c)"
proof -
  from assms obtain c0 c1 c2 c3 where c: "c = [c0, c1, c2, c3]"
    by (auto simp: eval_nat_numeral length_Suc_conv)
  have "HOST_c2l c = foldl shift_in 0 c"
    by (rule bit_word_eqI) (auto simp: c HOST_c2l_def shift_in_def bit_simps)
  then show ?thesis by (simp add: foldl_shift_in_0)
qed

lemma sha256_block_fips:
  assumes "length h = 8" and "length p = 64"
  shows "sha256_block h p = fips_compress h p"
proof -
  define M where "M = map (\<lambda>i. HOST_c2l (take 4 (drop (4 * i) p))) [0..<16]"
  have M: "map (\<lambda>i. word_of_nat (be_val (take 4 (drop (4 * i) p)))) [0..<16] = M"
    using assms(2) by (auto simp: M_def HOST_c2l_eq)
  define r where "r = foldl (\<lambda>r i. ROUND_00_15 i (M ! i) r) h [0..<16]"
  have W: "fips_W M t = M ! t" if "t < 16" for t using that by (simp add: fips_W.simps)
  have r: "length r = 8" "roles 16 r = foldl (\<lambda>s t. fips_round (K256 ! t) (M ! t) s) (roles 0 h) [0..<16]"
    using rounds_00_15_fips [OF assms(1), of M 16] by (simp_all add: r_def)
  have inv: "schedule_inv M 16 M"
    using W by (auto simp: schedule_inv_def M_def mod_if)
  obtain r' X' where r': "foldl (\<lambda>s i. ROUND_16_63 i s) (r, M) [16..<64] = (r', X')" by fastforce
  have all: "roles 64 r' = foldl (\<lambda>s t. fips_round (K256 ! t) (fips_W M t) s) (roles 0 h) [0..<64]"
    and len: "length r' = 8"
  proof -
    have "[0..<64] = [0..<16] @ [16..<64]" using upt_add_eq_append [of 0 16 48] by simp
    moreover have "foldl (\<lambda>s t. fips_round (K256 ! t) (M ! t) s) s [0..<16]
        = foldl (\<lambda>s t. fips_round (K256 ! t) (fips_W M t) s) s [0..<16]" for s
      using W by (intro foldl_cong) auto
    ultimately show "roles 64 r' = foldl (\<lambda>s t. fips_round (K256 ! t) (fips_W M t) s) (roles 0 h) [0..<64]"
      and "length r' = 8"
      using rounds_16_63_fips [OF r(1) inv, of 48] r(2) r' by simp_all
  qed
  from len obtain a b c d e f g k where l: "r' = [a, b, c, d, e, f, g, k]" by (rule list8E)
  from assms(1) obtain h0 h1 h2 h3 h4 h5 h6 h7 where h: "h = [h0, h1, h2, h3, h4, h5, h6, h7]" by (rule list8E)
  have "sha256_block h p = map2 (+) h r'"
    unfolding sha256_block_def Let_def M_def [symmetric] r_def [symmetric] r' by simp
  moreover have "roles 64 r' = (a, b, c, d, e, f, g, k)" by (simp add: roles_def role_def l)
  moreover have "roles 0 h = (h0, h1, h2, h3, h4, h5, h6, h7)" by (simp add: roles_def role_def h)
  ultimately show ?thesis
    unfolding fips_compress_def Let_def M using all [symmetric] by (simp add: h l)
qed

section \<open>The digests of FIPS 180-4\<close>

definition fips_pad :: "bytes \<Rightarrow> bytes" where
  "fips_pad m = m @ [0x80] @ replicate ((119 - length m mod 64) mod 64) 0 @ be_bytes 8 (8 * length m)"

definition fips_hash :: "u32 list \<Rightarrow> nat \<Rightarrow> bytes \<Rightarrow> bytes" where
  "fips_hash H0 words m =
     concat (map (\<lambda>w. be_bytes 4 (unat w))
       (take words (block_data_order fips_compress (length (fips_pad m) div 64) H0 (fips_pad m))))"

definition fips_sha256 :: "bytes \<Rightarrow> bytes" where
  "fips_sha256 m = fips_hash
     [0x6a09e667, 0xbb67ae85, 0x3c6ef372, 0xa54ff53a, 0x510e527f, 0x9b05688c, 0x1f83d9ab, 0x5be0cd19] 8 m"

definition fips_sha224 :: "bytes \<Rightarrow> bytes" where
  "fips_sha224 m = fips_hash
     [0xc1059ed8, 0x367cd507, 0x3070dd17, 0xf70e5939, 0xffc00b31, 0x68581511, 0x64f98fa7, 0xbefa4fa4] 7 m"

lemma be_bytes_u32: "be_bytes 4 (unat (word_of_nat v :: u32)) = be_bytes 4 v"
proof -
  have "be_bytes n (v mod 256 ^ n) = be_bytes n v" for n
    by (rule be_val_inj) (simp_all add: be_val_be_bytes_mod)
  from this [of 4] show ?thesis by (simp add: unsigned_of_nat take_bit_eq_mod)
qed

lemma HOST_l2c_eq: "HOST_l2c w = be_bytes 4 (unat w)"
  using ucast_drop_bit_u8 [of 24 w] ucast_drop_bit_u8 [of 16 w] ucast_drop_bit_u8 [of 8 w] ucast_drop_bit_u8 [of 0 w]
  by (simp add: HOST_l2c_def be_bytes_map upt_rec)

lemma be_bytes_8: "be_bytes 8 v = be_bytes 4 (v div 2 ^ 32) @ be_bytes 4 v"
  by (simp add: be_bytes_map upt_rec div_mult2_eq [symmetric])

lemma md32_pad_fips: "m @ md32_pad (\<lambda>Nh Nl. HOST_l2c Nh @ HOST_l2c Nl) m = fips_pad m"
  unfolding md32_pad_def fips_pad_def HOST_l2c_eq be_bytes_u32 be_bytes_8 by simp

lemma length_fips_compress: "length (fips_compress h p) = 8"
  by (simp add: fips_compress_def Let_def split: prod.splits)

lemma block_data_order_fips:
  assumes "length h = 8" and "64 * n \<le> length p"
  shows "block_data_order sha256_block n h p = block_data_order fips_compress n h p
    \<and> length (block_data_order fips_compress n h p) = 8"
  using assms by (induction n arbitrary: h p) (simp_all add: sha256_block_fips length_fips_compress)

lemma length_fips_pad: "64 * (length (fips_pad m) div 64) = length (fips_pad m)"
proof -
  have "length m mod 64 + length (md32_pad (\<lambda>Nh Nl. HOST_l2c Nh @ HOST_l2c Nl) m) \<in> {64, 128}"
    using length_md32_pad [of "\<lambda>Nh Nl. HOST_l2c Nh @ HOST_l2c Nl" m] by (simp add: HOST_l2c_eq)
  then have "64 dvd length m mod 64 + length (md32_pad (\<lambda>Nh Nl. HOST_l2c Nh @ HOST_l2c Nl) m)" by auto
  then have "64 dvd length (fips_pad m)"
    unfolding md32_pad_fips [symmetric] length_append by (simp add: dvd_eq_mod_eq_0 mod_add_left_eq)
  then show ?thesis by simp
qed

lemma SHA256_Final_spec:
  assumes rep: "md32_rep sha256_block iv m c" and iv: "length iv = 8" and len: "md_len c = 4 * k" "k \<le> 8"
  shows "fst (SHA256_Final c) = Some (fips_hash iv k m)"
proof -
  define c1 where "c1 = HASH_FINAL sha256_block (\<lambda>Nh Nl. HOST_l2c Nh @ HOST_l2c Nl) c"
  have "md_h c1 = md32_spec sha256_block (\<lambda>Nh Nl. HOST_l2c Nh @ HOST_l2c Nl) iv m"
    unfolding c1_def by (rule HASH_FINAL_spec [OF rep]) (simp add: HOST_l2c_eq)
  also have "\<dots> = block_data_order fips_compress (length (fips_pad m) div 64) iv (fips_pad m)"
    unfolding md32_spec_def md32_pad_fips Let_def
    using block_data_order_fips [OF iv] length_fips_pad by (metis order_refl)
  finally have h: "md_h c1 = block_data_order fips_compress (length (fips_pad m) div 64) iv (fips_pad m)" .
  have "length (md_h c1) = 8" unfolding h using block_data_order_fips [OF iv] length_fips_pad by (metis order_refl)
  then have "map (\<lambda>nn. HOST_l2c (md_h c1 ! nn)) [0..<k] = map HOST_l2c (take k (md_h c1))"
    using len(2) by (auto intro!: nth_equalityI)
  moreover have "md_len c1 = md_len c" by (simp add: c1_def HASH_FINAL_def Let_def split: prod.splits)
  moreover have "HOST_l2c = (\<lambda>w. be_bytes 4 (unat w))" by (rule ext) (rule HOST_l2c_eq)
  ultimately show ?thesis
    unfolding SHA256_Final_def Let_def c1_def [symmetric] using len h by (simp add: fips_hash_def)
qed

lemma length_fips_hash: "length H0 = 8 \<Longrightarrow> k \<le> 8 \<Longrightarrow> length (fips_hash H0 k m) = 4 * k"
  using block_data_order_fips [of H0 "length (fips_pad m) div 64" "fips_pad m"] length_fips_pad [of m]
  by (simp add: fips_hash_def length_concat o_def sum_list_triv)

section \<open>The interface of a message digest\<close>

text \<open>What the users of a digest rely on: \<open>rep m c\<close> says that the context \<open>c\<close> has absorbed the message
  \<open>m\<close>, and the final value depends on nothing else.\<close>

locale streaming_digest =
  fixes rep :: "bytes \<Rightarrow> 'c \<Rightarrow> bool"
    and init :: 'c
    and update :: "'c \<Rightarrow> bytes \<Rightarrow> 'c"
    and final :: "'c \<Rightarrow> bytes option"
    and size :: nat
    and hash :: "bytes \<Rightarrow> bytes"
  assumes rep_init: "rep [] init"
    and rep_update: "rep m c \<Longrightarrow> rep (m @ d) (update c d)"
    and final_hash: "rep m c \<Longrightarrow> final c = Some (hash m)"
    and length_hash: "length (hash m) = size"
begin

lemma rep_updates: "rep m c \<Longrightarrow> rep (m @ concat ds) (foldl update c ds)"
  by (induction ds arbitrary: m c) (auto dest: rep_update simp flip: append_assoc)

lemma digest_of_pieces: "final (foldl update init ds) = Some (hash (concat ds))"
  using final_hash [OF rep_updates [OF rep_init]] by simp

lemma digest_of_string: "final (update init m) = Some (hash m)"
  using digest_of_pieces [of "[m]"] by simp

lemma split_irrelevant: "concat ds = concat es \<Longrightarrow> final (foldl update init ds) = final (foldl update init es)"
  by (simp add: digest_of_pieces)

end

definition sha256_rep :: "SHA256_CTX \<Rightarrow> bytes \<Rightarrow> SHA256_CTX \<Rightarrow> bool" where
  "sha256_rep c0 m c \<longleftrightarrow> md32_rep sha256_block (md_h c0) m c \<and> md_len c = md_len c0"

lemma md_len_update: "md_len (SHA256_Update c d) = md_len c"
  by (simp add: SHA256_Update_def HASH_UPDATE_def md32_absorb_def md32_count_def Let_def)

lemma sha256_rep_update: "sha256_rep c0 m c \<Longrightarrow> sha256_rep c0 (m @ d) (SHA256_Update c d)"
  by (simp add: sha256_rep_def md_len_update) (simp add: SHA256_Update_def HASH_UPDATE_rep)

interpretation sha256: streaming_digest "sha256_rep SHA256_Init" SHA256_Init SHA256_Update
  "\<lambda>c. fst (SHA256_Final c)" 32 fips_sha256
proof
  show "sha256_rep SHA256_Init [] SHA256_Init" by (simp add: sha256_rep_def md32_rep_def SHA256_Init_def)
  show "sha256_rep SHA256_Init m c \<Longrightarrow> sha256_rep SHA256_Init (m @ d) (SHA256_Update c d)" for m c d
    by (rule sha256_rep_update)
  show "sha256_rep SHA256_Init m c \<Longrightarrow> fst (SHA256_Final c) = Some (fips_sha256 m)" for m c
    using SHA256_Final_spec [of "md_h SHA256_Init" m c 8] by (simp add: sha256_rep_def SHA256_Init_def fips_sha256_def)
  show "length (fips_sha256 m) = 32" for m by (simp add: fips_sha256_def length_fips_hash)
qed

interpretation sha224: streaming_digest "sha256_rep SHA224_Init" SHA224_Init SHA256_Update
  "\<lambda>c. fst (SHA256_Final c)" 28 fips_sha224
proof
  show "sha256_rep SHA224_Init [] SHA224_Init" by (simp add: sha256_rep_def md32_rep_def SHA224_Init_def)
  show "sha256_rep SHA224_Init m c \<Longrightarrow> sha256_rep SHA224_Init (m @ d) (SHA256_Update c d)" for m c d
    by (rule sha256_rep_update)
  show "sha256_rep SHA224_Init m c \<Longrightarrow> fst (SHA256_Final c) = Some (fips_sha224 m)" for m c
    using SHA256_Final_spec [of "md_h SHA224_Init" m c 7] by (simp add: sha256_rep_def SHA224_Init_def fips_sha224_def)
  show "length (fips_sha224 m) = 28" for m by (simp add: fips_sha224_def length_fips_hash)
qed

text \<open>C13. SHA-256 and SHA-224 are those of FIPS 180-4: a context that absorbs a message in any pieces,
  empty ones and ones that straddle block boundaries included, yields the digest of the whole message
  in the standard's padding, schedule and round functions; so do the one-shot functions.\<close>

theorem sha256_implements_fips180:
  "fst (SHA256_Final (foldl SHA256_Update SHA256_Init ds)) = Some (fips_sha256 (concat ds))
   \<and> fst (SHA256_Final (foldl SHA256_Update SHA224_Init ds)) = Some (fips_sha224 (concat ds))
   \<and> SHA256_fn m = Some (fips_sha256 m) \<and> SHA224_fn m = Some (fips_sha224 m)"
  by (simp add: sha256.digest_of_pieces sha224.digest_of_pieces SHA256_fn_def SHA224_fn_def
      sha256.digest_of_string sha224.digest_of_string)

end
