(* ===== verification/Hmac.thy ===== *)
theory Hmac
  imports Sha256
begin

text \<open>
  The EVP interface of message digests (\<^verbatim>\<open>crypto/evp/digest.c\<close>, \<^verbatim>\<open>crypto/evp/m_sha1.c\<close>) and HMAC
  (\<^verbatim>\<open>crypto/hmac/hmac.c\<close>) on top of it, and the equivalence of the streaming HMAC with the definition of
  RFC 2104. An \<open>EVP_MD\<close> is a record of functions over a context type \<open>'c\<close>; two method tables are the
  same when their \<open>type\<close> is. Contexts have no engine, no public key context and no flags set. \<open>grant n\<close>
  says whether the allocator serves a request for \<open>n\<close> bytes; an operation on a context without
  \<open>md_data\<close>, which dereferences a null pointer, fails.
\<close>

section \<open>Digests behind EVP\<close>

record 'c EVP_MD =
  evp_type :: nat
  evp_md_size :: nat
  evp_block_size :: nat
  evp_ctx_size :: nat
  evp_init :: 'c
  evp_update :: "'c \<Rightarrow> bytes \<Rightarrow> 'c"
  evp_final :: "'c \<Rightarrow> bytes option"
  evp_zero :: 'c

record 'c EVP_MD_CTX =
  mc_digest :: "'c EVP_MD option"
  mc_data :: "'c option"

definition SHA256_zero :: SHA256_CTX where
  "SHA256_zero = \<lparr>md_h = replicate 8 0, md_Nl = 0, md_Nh = 0, md_data = replicate 64 0, md_num = 0, md_len = 0\<rparr>"

definition sha224_md :: "SHA256_CTX EVP_MD" where
  "sha224_md = \<lparr>evp_type = 675, evp_md_size = SHA224_DIGEST_LENGTH, evp_block_size = 64, evp_ctx_size = 120,
     evp_init = SHA224_Init, evp_update = SHA256_Update, evp_final = (\<lambda>c. fst (SHA256_Final c)), evp_zero = SHA256_zero\<rparr>"

definition sha256_md :: "SHA256_CTX EVP_MD" where
  "sha256_md = \<lparr>evp_type = 672, evp_md_size = SHA256_DIGEST_LENGTH, evp_block_size = 64, evp_ctx_size = 120,
     evp_init = SHA256_Init, evp_update = SHA256_Update, evp_final = (\<lambda>c. fst (SHA256_Final c)), evp_zero = SHA256_zero\<rparr>"

abbreviation (input) EVP_MAX_MD_SIZE :: nat where "EVP_MAX_MD_SIZE \<equiv> 64"

definition EVP_MD_CTX_init :: "'c EVP_MD_CTX" where
  "EVP_MD_CTX_init = \<lparr>mc_digest = None, mc_data = None\<rparr>"

definition same_md :: "'c EVP_MD option \<Rightarrow> 'c EVP_MD option \<Rightarrow> bool" where
  "same_md a b \<longleftrightarrow> map_option evp_type a = map_option evp_type b"

definition EVP_DigestInit_ex :: "(nat \<Rightarrow> bool) \<Rightarrow> 'c EVP_MD_CTX \<Rightarrow> 'c EVP_MD \<Rightarrow> bool \<times> 'c EVP_MD_CTX" where
  "EVP_DigestInit_ex grant ctx type =
     (if same_md (mc_digest ctx) (Some type) then
        (if mc_data ctx = None then (False, ctx) else (True, ctx\<lparr>mc_data := Some (evp_init type)\<rparr>))
      else if \<not> grant (evp_ctx_size type) then (False, \<lparr>mc_digest = Some type, mc_data = None\<rparr>)
      else (True, \<lparr>mc_digest = Some type, mc_data = Some (evp_init type)\<rparr>))"

definition EVP_DigestUpdate :: "'c EVP_MD_CTX \<Rightarrow> bytes \<Rightarrow> bool \<times> 'c EVP_MD_CTX" where
  "EVP_DigestUpdate ctx data =
     (case (mc_digest ctx, mc_data ctx) of
        (Some md, Some c) \<Rightarrow> (True, ctx\<lparr>mc_data := Some (evp_update md c data)\<rparr>)
      | _ \<Rightarrow> (False, ctx))"

definition EVP_DigestFinal_ex :: "'c EVP_MD_CTX \<Rightarrow> bytes option \<times> 'c EVP_MD_CTX" where
  "EVP_DigestFinal_ex ctx =
     (case (mc_digest ctx, mc_data ctx) of
        (Some md, Some c) \<Rightarrow>
          if EVP_MAX_MD_SIZE < evp_md_size md then (None, ctx)
          else (evp_final md c, ctx\<lparr>mc_data := Some (evp_zero md)\<rparr>)
      | _ \<Rightarrow> (None, ctx))"

definition EVP_MD_CTX_copy_ex ::
    "(nat \<Rightarrow> bool) \<Rightarrow> 'c EVP_MD_CTX \<Rightarrow> 'c EVP_MD_CTX \<Rightarrow> bool \<times> 'c EVP_MD_CTX" where
  "EVP_MD_CTX_copy_ex grant out src =
     (case mc_digest src of
        None \<Rightarrow> (False, out)
      | Some md \<Rightarrow>
          (case mc_data src of
             None \<Rightarrow> (True, src)
           | Some c \<Rightarrow>
               if same_md (mc_digest out) (mc_digest src) \<and> mc_data out \<noteq> None then (True, src)
               else if \<not> grant (evp_ctx_size md) then (False, src\<lparr>mc_data := None\<rparr>)
               else (True, src)))"

definition EVP_Digest :: "(nat \<Rightarrow> bool) \<Rightarrow> bytes \<Rightarrow> 'c EVP_MD \<Rightarrow> bytes option" where
  "EVP_Digest grant data type =
     (case EVP_DigestInit_ex grant EVP_MD_CTX_init type of
        (False, ctx) \<Rightarrow> None
      | (True, ctx) \<Rightarrow>
          (case EVP_DigestUpdate ctx data of
             (False, ctx) \<Rightarrow> None
           | (True, ctx) \<Rightarrow> fst (EVP_DigestFinal_ex ctx)))"

section \<open>HMAC\<close>

abbreviation (input) HMAC_MAX_MD_CBLOCK :: nat where "HMAC_MAX_MD_CBLOCK \<equiv> 128"

record 'c HMAC_CTX =
  hm_md :: "'c EVP_MD option"
  hm_md_ctx :: "'c EVP_MD_CTX"
  hm_i_ctx :: "'c EVP_MD_CTX"
  hm_o_ctx :: "'c EVP_MD_CTX"
  hm_key_length :: nat
  hm_key :: bytes

definition HMAC_CTX_init :: "'c HMAC_CTX \<Rightarrow> 'c HMAC_CTX" where
  "HMAC_CTX_init ctx = ctx\<lparr>hm_i_ctx := EVP_MD_CTX_init, hm_o_ctx := EVP_MD_CTX_init, hm_md_ctx := EVP_MD_CTX_init, hm_md := None\<rparr>"

text \<open>The two parts of \<open>HMAC_Init_ex\<close> that may fail half way: storing the key, hashed when it is longer
  than a block, and hashing the padded key for the inner and the outer digest.\<close>

definition hmac_set_key :: "(nat \<Rightarrow> bool) \<Rightarrow> 'c EVP_MD \<Rightarrow> bytes \<Rightarrow> 'c HMAC_CTX \<Rightarrow> bool \<times> 'c HMAC_CTX" where
  "hmac_set_key grant md key ctx =
     (let j = evp_block_size md;
          pad = (\<lambda>k ctx. ctx\<lparr>hm_key_length := length k, hm_key := k @ replicate (HMAC_MAX_MD_CBLOCK - length k) 0\<rparr>)
      in if HMAC_MAX_MD_CBLOCK < j then (False, ctx)
      else if j < length key then
        (case EVP_DigestInit_ex grant (hm_md_ctx ctx) md of
           (False, c) \<Rightarrow> (False, ctx\<lparr>hm_md_ctx := c\<rparr>)
         | (True, c) \<Rightarrow>
             (case EVP_DigestUpdate c key of
                (False, c) \<Rightarrow> (False, ctx\<lparr>hm_md_ctx := c\<rparr>)
              | (True, c) \<Rightarrow>
                  (case EVP_DigestFinal_ex c of
                     (None, c) \<Rightarrow> (False, ctx\<lparr>hm_md_ctx := c\<rparr>)
                   | (Some k, c) \<Rightarrow> (True, pad k (ctx\<lparr>hm_md_ctx := c\<rparr>)))))
      else if HMAC_MAX_MD_CBLOCK < length key then (False, ctx)
      else (True, pad key ctx))"

definition hmac_pad_ctx :: "(nat \<Rightarrow> bool) \<Rightarrow> 'c EVP_MD \<Rightarrow> u8 \<Rightarrow> bytes \<Rightarrow> 'c EVP_MD_CTX \<Rightarrow> bool \<times> 'c EVP_MD_CTX" where
  "hmac_pad_ctx grant md x key c =
     (let pad = map (\<lambda>b. x XOR b) key in
      case EVP_DigestInit_ex grant c md of
        (False, c) \<Rightarrow> (False, c)
      | (True, c) \<Rightarrow> EVP_DigestUpdate c (take (evp_block_size md) pad))"

definition hmac_reset :: "(nat \<Rightarrow> bool) \<Rightarrow> 'c EVP_MD \<Rightarrow> 'c HMAC_CTX \<Rightarrow> bool \<times> 'c HMAC_CTX" where
  "hmac_reset grant md ctx =
     (case hmac_pad_ctx grant md 0x36 (hm_key ctx) (hm_i_ctx ctx) of
        (False, c) \<Rightarrow> (False, ctx\<lparr>hm_i_ctx := c\<rparr>)
      | (True, c) \<Rightarrow>
          let ctx = ctx\<lparr>hm_i_ctx := c\<rparr> in
          (case hmac_pad_ctx grant md 0x5c (hm_key ctx) (hm_o_ctx ctx) of
             (ok, c) \<Rightarrow> (ok, ctx\<lparr>hm_o_ctx := c\<rparr>)))"

definition HMAC_Init_ex ::
    "(nat \<Rightarrow> bool) \<Rightarrow> 'c HMAC_CTX \<Rightarrow> bytes option \<Rightarrow> 'c EVP_MD option \<Rightarrow> bool \<times> 'c HMAC_CTX" where
  "HMAC_Init_ex grant ctx key md =
     (if md \<noteq> None \<and> \<not> same_md md (hm_md ctx) \<and> key = None then (False, ctx)
      else
        case (if md \<noteq> None then md else hm_md ctx) of
          None \<Rightarrow> (False, ctx)
        | Some m \<Rightarrow>
            let ctx = (if md \<noteq> None then ctx\<lparr>hm_md := md\<rparr> else ctx);
                keyed = (case key of None \<Rightarrow> (True, ctx) | Some k \<Rightarrow> hmac_set_key grant m k ctx)
            in case keyed of
              (False, ctx) \<Rightarrow> (False, ctx)
            | (True, ctx) \<Rightarrow>
                (case (if md \<noteq> None \<or> key \<noteq> None then hmac_reset grant m ctx else (True, ctx)) of
                   (False, ctx) \<Rightarrow> (False, ctx)
                 | (True, ctx) \<Rightarrow>
                     (case EVP_MD_CTX_copy_ex grant (hm_md_ctx ctx) (hm_i_ctx ctx) of
                        (ok, c) \<Rightarrow> (ok, ctx\<lparr>hm_md_ctx := c\<rparr>))))"

definition HMAC_Init ::
    "(nat \<Rightarrow> bool) \<Rightarrow> 'c HMAC_CTX \<Rightarrow> bytes option \<Rightarrow> 'c EVP_MD option \<Rightarrow> bool \<times> 'c HMAC_CTX" where
  "HMAC_Init grant ctx key md =
     HMAC_Init_ex grant (if key \<noteq> None \<and> md \<noteq> None then HMAC_CTX_init ctx else ctx) key md"

definition HMAC_Update :: "'c HMAC_CTX \<Rightarrow> bytes \<Rightarrow> bool \<times> 'c HMAC_CTX" where
  "HMAC_Update ctx data =
     (if hm_md ctx = None then (False, ctx)
      else case EVP_DigestUpdate (hm_md_ctx ctx) data of (ok, c) \<Rightarrow> (ok, ctx\<lparr>hm_md_ctx := c\<rparr>))"

definition HMAC_Final :: "(nat \<Rightarrow> bool) \<Rightarrow> 'c HMAC_CTX \<Rightarrow> bytes option \<times> 'c HMAC_CTX" where
  "HMAC_Final grant ctx =
     (if hm_md ctx = None then (None, ctx)
      else
        case EVP_DigestFinal_ex (hm_md_ctx ctx) of
          (None, c) \<Rightarrow> (None, ctx\<lparr>hm_md_ctx := c\<rparr>)
        | (Some buf, c) \<Rightarrow>
            (case EVP_MD_CTX_copy_ex grant c (hm_o_ctx ctx) of
               (False, c) \<Rightarrow> (None, ctx\<lparr>hm_md_ctx := c\<rparr>)
             | (True, c) \<Rightarrow>
                 (case EVP_DigestUpdate c buf of
                    (False, c) \<Rightarrow> (None, ctx\<lparr>hm_md_ctx := c\<rparr>)
                  | (True, c) \<Rightarrow>
                      (case EVP_DigestFinal_ex c of (r, c) \<Rightarrow> (r, ctx\<lparr>hm_md_ctx := c\<rparr>)))))"

text \<open>A context on the stack, before it is initialised.\<close>

definition HMAC_CTX_raw :: "'c HMAC_CTX" where
  "HMAC_CTX_raw = \<lparr>hm_md = None, hm_md_ctx = EVP_MD_CTX_init, hm_i_ctx = EVP_MD_CTX_init, hm_o_ctx = EVP_MD_CTX_init,
     hm_key_length = 0, hm_key = []\<rparr>"

definition HMAC :: "(nat \<Rightarrow> bool) \<Rightarrow> 'c EVP_MD \<Rightarrow> bytes option \<Rightarrow> bytes \<Rightarrow> bytes option" where
  "HMAC grant md key d =
     (case HMAC_Init grant (HMAC_CTX_init HMAC_CTX_raw) key (Some md) of
        (False, c) \<Rightarrow> None
      | (True, c) \<Rightarrow>
          (case HMAC_Update c d of (False, c) \<Rightarrow> None | (True, c) \<Rightarrow> fst (HMAC_Final grant c)))"

text \<open>A caller that computes the MACs of several messages, each in pieces, with one key.\<close>

fun hmac_updates :: "'c HMAC_CTX \<Rightarrow> bytes list \<Rightarrow> 'c HMAC_CTX option" where
  "hmac_updates ctx [] = Some ctx"
| "hmac_updates ctx (d # ds) =
     (case HMAC_Update ctx d of (False, ctx) \<Rightarrow> None | (True, ctx) \<Rightarrow> hmac_updates ctx ds)"

fun hmac_messages :: "(nat \<Rightarrow> bool) \<Rightarrow> 'c HMAC_CTX \<Rightarrow> bytes list list \<Rightarrow> bytes list option" where
  "hmac_messages grant ctx [] = Some []"
| "hmac_messages grant ctx (ds # rest) =
     (case HMAC_Init_ex grant ctx None None of
        (False, ctx) \<Rightarrow> None
      | (True, ctx) \<Rightarrow>
          (case hmac_updates ctx ds of
             None \<Rightarrow> None
           | Some ctx \<Rightarrow>
               (case HMAC_Final grant ctx of
                  (None, ctx) \<Rightarrow> None
                | (Some mac, ctx) \<Rightarrow> map_option ((#) mac) (hmac_messages grant ctx rest))))"

definition hmac_session :: "(nat \<Rightarrow> bool) \<Rightarrow> 'c EVP_MD \<Rightarrow> bytes \<Rightarrow> bytes list list \<Rightarrow> bytes list option" where
  "hmac_session grant md key msgs =
     (case HMAC_Init_ex grant (HMAC_CTX_init HMAC_CTX_raw) (Some key) (Some md) of
        (False, ctx) \<Rightarrow> None
      | (True, ctx) \<Rightarrow> hmac_messages grant ctx msgs)"

section \<open>HMAC is that of RFC 2104\<close>

definition hmac_key :: "(bytes \<Rightarrow> bytes) \<Rightarrow> nat \<Rightarrow> bytes \<Rightarrow> bytes" where
  "hmac_key H B key = (let k = (if B < length key then H key else key) in k @ replicate (B - length k) 0)"

definition hmac_spec :: "(bytes \<Rightarrow> bytes) \<Rightarrow> nat \<Rightarrow> bytes \<Rightarrow> bytes \<Rightarrow> bytes" where
  "hmac_spec H B key text =
     (let k = hmac_key H B key in H (map (\<lambda>b. 0x5c XOR b) k @ H (map (\<lambda>b. 0x36 XOR b) k @ text)))"

text \<open>A digest behind EVP, with the sizes HMAC relies on.\<close>

locale evp_digest =
  streaming_digest rep "evp_init md" "evp_update md" "evp_final md" "evp_md_size md" hash
  for rep :: "bytes \<Rightarrow> 'c \<Rightarrow> bool" and md :: "'c EVP_MD" and hash :: "bytes \<Rightarrow> bytes" +
  assumes md_size: "evp_md_size md \<le> evp_block_size md" "evp_md_size md \<le> 64"
    and block_size: "evp_block_size md \<le> 128"
begin

definition absorbed :: "bytes \<Rightarrow> 'c EVP_MD_CTX \<Rightarrow> bool" where
  "absorbed m c \<longleftrightarrow> (\<exists>x. c = \<lparr>mc_digest = Some md, mc_data = Some x\<rparr> \<and> rep m x)"

definition usable :: "'c EVP_MD_CTX \<Rightarrow> bool" where
  "usable c \<longleftrightarrow> mc_digest c = None \<or> mc_digest c = Some md \<and> mc_data c \<noteq> None"

lemma absorbed_usable: "absorbed m c \<Longrightarrow> usable c"
  by (auto simp: absorbed_def usable_def)

lemma digest_init: "grant (evp_ctx_size md) \<Longrightarrow> usable c \<Longrightarrow> \<exists>c'. EVP_DigestInit_ex grant c md = (True, c') \<and> absorbed [] c'"
  using rep_init by (cases c) (auto simp: EVP_DigestInit_ex_def usable_def absorbed_def same_md_def)

lemma digest_update: "absorbed m c \<Longrightarrow> \<exists>c'. EVP_DigestUpdate c d = (True, c') \<and> absorbed (m @ d) c'"
  using rep_update by (auto simp: EVP_DigestUpdate_def absorbed_def)

lemma digest_final: "absorbed m c \<Longrightarrow> \<exists>c'. EVP_DigestFinal_ex c = (Some (hash m), c') \<and> mc_digest c' = Some md \<and> mc_data c' \<noteq> None"
  using final_hash md_size by (auto simp: EVP_DigestFinal_ex_def absorbed_def)

lemma digest_copy:
  "grant (evp_ctx_size md) \<Longrightarrow> absorbed m src \<Longrightarrow> EVP_MD_CTX_copy_ex grant dst src = (True, src)"
  by (auto simp: EVP_MD_CTX_copy_ex_def absorbed_def)

lemma evp_digest_total: "grant (evp_ctx_size md) \<Longrightarrow> EVP_Digest grant data md = Some (hash data)"
  using digest_init [of grant EVP_MD_CTX_init] digest_update [of "[]" _ data] digest_final [of data]
  by (fastforce simp: EVP_Digest_def EVP_MD_CTX_init_def usable_def)

text \<open>A context with the key \<open>key\<close> that has absorbed \<open>text\<close>; \<open>keyed\<close> leaves open what was absorbed.\<close>

definition keyed :: "bytes \<Rightarrow> 'c HMAC_CTX \<Rightarrow> bool" where
  "keyed key ctx \<longleftrightarrow> hm_md ctx = Some md
     \<and> absorbed (map (\<lambda>b. 0x36 XOR b) (hmac_key hash (evp_block_size md) key)) (hm_i_ctx ctx)
     \<and> absorbed (map (\<lambda>b. 0x5c XOR b) (hmac_key hash (evp_block_size md) key)) (hm_o_ctx ctx)"

definition macs :: "bytes \<Rightarrow> bytes \<Rightarrow> 'c HMAC_CTX \<Rightarrow> bool" where
  "macs key msg ctx \<longleftrightarrow> keyed key ctx
     \<and> absorbed (map (\<lambda>b. 0x36 XOR b) (hmac_key hash (evp_block_size md) key) @ msg) (hm_md_ctx ctx)"

lemma length_hmac_key: "length (hmac_key hash (evp_block_size md) key) = evp_block_size md"
  using md_size by (simp add: hmac_key_def Let_def length_hash)

lemma set_key:
  assumes "grant (evp_ctx_size md)" and "usable (hm_md_ctx ctx)"
  shows "\<exists>c k. hmac_set_key grant md key ctx = (True, ctx\<lparr>hm_md_ctx := c, hm_key_length := length k, hm_key := k @ replicate (128 - length k) 0\<rparr>)
    \<and> hmac_key hash (evp_block_size md) key = k @ replicate (evp_block_size md - length k) 0"
proof (cases "evp_block_size md < length key")
  case True
  then show ?thesis
    using assms digest_init [of grant "hm_md_ctx ctx"] digest_update [of "[]" _ key] digest_final [of key] block_size
    by (fastforce simp: hmac_set_key_def hmac_key_def Let_def)
next
  case False
  then have "hmac_set_key grant md key ctx = (True, ctx\<lparr>hm_md_ctx := hm_md_ctx ctx, hm_key_length := length key,
      hm_key := key @ replicate (128 - length key) 0\<rparr>)"
    using block_size by (simp add: hmac_set_key_def Let_def)
  moreover have "hmac_key hash (evp_block_size md) key = key @ replicate (evp_block_size md - length key) 0"
    using False by (simp add: hmac_key_def)
  ultimately show ?thesis by blast
qed

lemma pad_ctx:
  assumes "grant (evp_ctx_size md)" and "usable c"
  shows "\<exists>c'. hmac_pad_ctx grant md x key c = (True, c') \<and> absorbed (map (\<lambda>b. x XOR b) (take (evp_block_size md) key)) c'"
  using assms digest_init [of grant c] digest_update [of "[]"] by (fastforce simp: hmac_pad_ctx_def take_map)

lemma init_key:
  assumes grant: "grant (evp_ctx_size md)"
    and ctx: "usable (hm_md_ctx ctx)" "usable (hm_i_ctx ctx)" "usable (hm_o_ctx ctx)"
  shows "\<exists>ctx'. HMAC_Init_ex grant ctx (Some key) (Some md) = (True, ctx') \<and> macs key [] ctx'"
proof -
  define ctx0 where "ctx0 = ctx\<lparr>hm_md := Some md\<rparr>"
  from set_key [of grant ctx0 key, OF grant] ctx obtain c k where
    sk: "hmac_set_key grant md key ctx0 = (True, ctx0\<lparr>hm_md_ctx := c, hm_key_length := length k, hm_key := k @ replicate (128 - length k) 0\<rparr>)"
    and k: "hmac_key hash (evp_block_size md) key = k @ replicate (evp_block_size md - length k) 0"
    by (auto simp: ctx0_def)
  define ctx1 where "ctx1 = ctx0\<lparr>hm_md_ctx := c, hm_key_length := length k, hm_key := k @ replicate (128 - length k) 0\<rparr>"
  have "length k \<le> evp_block_size md" using length_hmac_key [of key] k by simp
  then have key: "take (evp_block_size md) (hm_key ctx1) = hmac_key hash (evp_block_size md) key"
    using block_size k by (simp add: ctx1_def take_replicate min_def)
  have usable1: "usable (hm_i_ctx ctx1)" "usable (hm_o_ctx ctx1)" using ctx by (simp_all add: ctx1_def ctx0_def)
  from pad_ctx [of grant "hm_i_ctx ctx1" "0x36" "hm_key ctx1", OF grant usable1(1)] key obtain ci where
    i: "hmac_pad_ctx grant md 0x36 (hm_key ctx1) (hm_i_ctx ctx1) = (True, ci)"
      "absorbed (map (\<lambda>b. 0x36 XOR b) (hmac_key hash (evp_block_size md) key)) ci"
    by auto
  from pad_ctx [of grant "hm_o_ctx ctx1" "0x5c" "hm_key ctx1", OF grant usable1(2)] key obtain co where
    outer: "hmac_pad_ctx grant md 0x5c (hm_key ctx1) (hm_o_ctx ctx1) = (True, co)"
      "absorbed (map (\<lambda>b. 0x5c XOR b) (hmac_key hash (evp_block_size md) key)) co"
    by auto
  define ctx2 where "ctx2 = ctx1\<lparr>hm_i_ctx := ci, hm_o_ctx := co\<rparr>"
  have "hmac_reset grant md ctx1 = (True, ctx2)"
    using i(1) outer(1) by (simp add: hmac_reset_def ctx2_def)
  moreover have "EVP_MD_CTX_copy_ex grant (hm_md_ctx ctx2) (hm_i_ctx ctx2) = (True, ci)"
    using digest_copy [of grant] grant i(2) by (simp add: ctx2_def)
  ultimately have "HMAC_Init_ex grant ctx (Some key) (Some md) = (True, ctx2\<lparr>hm_md_ctx := ci\<rparr>)"
    using sk by (simp add: HMAC_Init_ex_def Let_def ctx0_def ctx1_def)
  moreover have "macs key [] (ctx2\<lparr>hm_md_ctx := ci\<rparr>)"
    using i(2) outer(2) by (simp add: macs_def keyed_def ctx2_def ctx1_def ctx0_def)
  ultimately show ?thesis by blast
qed

lemma init_again:
  assumes "grant (evp_ctx_size md)" and "keyed key ctx"
  shows "\<exists>ctx'. HMAC_Init_ex grant ctx None None = (True, ctx') \<and> macs key [] ctx'"
  using assms digest_copy [of grant _ "hm_i_ctx ctx"]
  by (auto simp: HMAC_Init_ex_def keyed_def macs_def Let_def)

lemma mac_update: "macs key msg ctx \<Longrightarrow> \<exists>ctx'. HMAC_Update ctx d = (True, ctx') \<and> macs key (msg @ d) ctx'"
  using digest_update [of _ "hm_md_ctx ctx" d]
  by (fastforce simp: macs_def keyed_def HMAC_Update_def)

lemma mac_final:
  assumes "grant (evp_ctx_size md)" and "macs key msg ctx"
  shows "\<exists>ctx'. HMAC_Final grant ctx = (Some (hmac_spec hash (evp_block_size md) key msg), ctx') \<and> keyed key ctx'"
proof -
  let ?k = "hmac_key hash (evp_block_size md) key"
  from assms(2) have ctx: "hm_md ctx = Some md" "absorbed (map (\<lambda>b. 0x36 XOR b) ?k @ msg) (hm_md_ctx ctx)"
    "absorbed (map (\<lambda>b. 0x5c XOR b) ?k) (hm_o_ctx ctx)" by (simp_all add: macs_def keyed_def)
  from digest_final [OF ctx(2)] obtain c1 where
    f: "EVP_DigestFinal_ex (hm_md_ctx ctx) = (Some (hash (map (\<lambda>b. 0x36 XOR b) ?k @ msg)), c1)" by blast
  from digest_update [OF ctx(3)] obtain c2 where
    u: "EVP_DigestUpdate (hm_o_ctx ctx) (hash (map (\<lambda>b. 0x36 XOR b) ?k @ msg)) = (True, c2)"
    "absorbed (map (\<lambda>b. 0x5c XOR b) ?k @ hash (map (\<lambda>b. 0x36 XOR b) ?k @ msg)) c2" by blast
  from digest_final [OF u(2)] obtain c3 where
    g: "EVP_DigestFinal_ex c2 = (Some (hmac_spec hash (evp_block_size md) key msg), c3)"
    by (auto simp: hmac_spec_def Let_def)
  have "HMAC_Final grant ctx = (Some (hmac_spec hash (evp_block_size md) key msg), ctx\<lparr>hm_md_ctx := c3\<rparr>)"
    using ctx f u(1) g digest_copy [of grant, OF assms(1) ctx(3)] by (simp add: HMAC_Final_def)
  moreover have "keyed key (ctx\<lparr>hm_md_ctx := c3\<rparr>)" using assms(2) by (simp add: macs_def keyed_def)
  ultimately show ?thesis by blast
qed

lemma mac_updates: "macs key msg ctx \<Longrightarrow> \<exists>ctx'. hmac_updates ctx ds = Some ctx' \<and> macs key (msg @ concat ds) ctx'"
proof (induction ds arbitrary: msg ctx)
  case (Cons d ds)
  from mac_update [OF Cons.prems, of d] obtain ctx1 where "HMAC_Update ctx d = (True, ctx1)" "macs key (msg @ d) ctx1" by blast
  with Cons.IH [of "msg @ d" ctx1] show ?case by simp
qed simp

lemma mac_messages:
  assumes "grant (evp_ctx_size md)"
  shows "keyed key ctx \<Longrightarrow> hmac_messages grant ctx msgs = Some (map (\<lambda>ds. hmac_spec hash (evp_block_size md) key (concat ds)) msgs)"
proof (induction msgs arbitrary: ctx)
  case (Cons ds msgs)
  from init_again [of grant, OF assms Cons.prems] obtain c1 where 1: "HMAC_Init_ex grant ctx None None = (True, c1)" "macs key [] c1" by blast
  from mac_updates [OF 1(2), of ds] obtain c2 where 2: "hmac_updates c1 ds = Some c2" "macs key (concat ds) c2" by auto
  from mac_final [of grant, OF assms 2(2)] obtain c3 where
    "HMAC_Final grant c2 = (Some (hmac_spec hash (evp_block_size md) key (concat ds)), c3)" "keyed key c3" by blast
  with 1(1) 2(1) Cons.IH [of c3] show ?case by simp
qed simp

lemma usable_init: "usable EVP_MD_CTX_init"
  by (simp add: usable_def EVP_MD_CTX_init_def)

lemma hmac_correct:
  assumes grant: "grant (evp_ctx_size md)"
  shows "HMAC grant md (Some key) d = Some (hmac_spec hash (evp_block_size md) key d)"
proof -
  from init_key [of grant "HMAC_CTX_init (HMAC_CTX_init HMAC_CTX_raw)" key, OF grant] usable_init
  obtain c1 where 1: "HMAC_Init grant (HMAC_CTX_init HMAC_CTX_raw) (Some key) (Some md) = (True, c1)" "macs key [] c1"
    by (auto simp: HMAC_Init_def HMAC_CTX_init_def)
  from mac_update [OF 1(2), of d] obtain c2 where 2: "HMAC_Update c1 d = (True, c2)" "macs key d c2" by auto
  from mac_final [of grant key d c2, OF grant 2(2)] show ?thesis using 1(1) 2(1) by (auto simp: HMAC_def)
qed

lemma session_correct:
  assumes grant: "grant (evp_ctx_size md)"
  shows "hmac_session grant md key msgs = Some (map (\<lambda>ds. hmac_spec hash (evp_block_size md) key (concat ds)) msgs)"
proof -
  from init_key [of grant "HMAC_CTX_init HMAC_CTX_raw" key, OF grant] usable_init
  obtain c1 where "HMAC_Init_ex grant (HMAC_CTX_init HMAC_CTX_raw) (Some key) (Some md) = (True, c1)" "macs key [] c1"
    by (auto simp: HMAC_CTX_init_def)
  with mac_messages [of grant key c1, OF grant] show ?thesis by (simp add: hmac_session_def macs_def)
qed

end

interpretation sha256_evp: evp_digest "sha256_rep SHA256_Init" sha256_md fips_sha256
proof -
  have "streaming_digest (sha256_rep SHA256_Init) (evp_init sha256_md) (evp_update sha256_md)
      (evp_final sha256_md) (evp_md_size sha256_md) fips_sha256"
    using sha256.streaming_digest_axioms by (simp add: sha256_md_def)
  then show "evp_digest (sha256_rep SHA256_Init) sha256_md fips_sha256"
    by (rule evp_digest.intro) (unfold_locales, simp_all add: sha256_md_def)
qed

interpretation sha224_evp: evp_digest "sha256_rep SHA224_Init" sha224_md fips_sha224
proof -
  have "streaming_digest (sha256_rep SHA224_Init) (evp_init sha224_md) (evp_update sha224_md)
      (evp_final sha224_md) (evp_md_size sha224_md) fips_sha224"
    using sha224.streaming_digest_axioms by (simp add: sha224_md_def)
  then show "evp_digest (sha256_rep SHA224_Init) sha224_md fips_sha224"
    by (rule evp_digest.intro) (unfold_locales, simp_all add: sha224_md_def)
qed

text \<open>C14. HMAC with SHA-256 is that of RFC 2104 and FIPS 198, for keys shorter and longer than a block, when
  memory for the digest contexts is available; and a context that has finished one message and is
  reinitialised without a key computes the MAC of the next one, in any pieces, under the same key.\<close>

theorem hmac_sha256_implements_rfc2104:
  assumes "grant 120"
  shows "HMAC grant sha256_md (Some key) d = Some (hmac_spec fips_sha256 64 key d)
    \<and> HMAC grant sha224_md (Some key) d = Some (hmac_spec fips_sha224 64 key d)
    \<and> hmac_session grant sha256_md key msgs = Some (map (\<lambda>ds. hmac_spec fips_sha256 64 key (concat ds)) msgs)"
  using sha256_evp.hmac_correct [of grant key d] sha224_evp.hmac_correct [of grant key d]
    sha256_evp.session_correct [of grant key msgs] assms
  by (simp add: sha256_md_def sha224_md_def)

theorem hmac_sha256_implements_rfc2104_witness:
  "HMAC (\<lambda>n. n \<le> 200) sha256_md (Some [1, 2, 3]) [4, 5] = Some (hmac_spec fips_sha256 64 [1, 2, 3] [4, 5])"
  using hmac_sha256_implements_rfc2104 [of "\<lambda>n. n \<le> 200" "[1, 2, 3]" "[4, 5]"] by simp

end
