(* ===== verification/Hkdf.thy ===== *)
theory Hkdf
  imports Hmac
begin

text \<open>
  HKDF, \<^verbatim>\<open>crypto/hkdf/hkdf.c\<close>, and its equivalence with RFC 5869. A buffer that a function writes is an
  argument and a result; \<open>HKDF_expand\<close> returns what it has written also when it fails.
\<close>

definition HKDF_extract :: "(nat \<Rightarrow> bool) \<Rightarrow> 'c EVP_MD \<Rightarrow> bytes \<Rightarrow> bytes option \<Rightarrow> bytes option" where
  "HKDF_extract grant digest secret salt = HMAC grant digest salt secret"

text \<open>One round of the loop of \<open>HKDF_expand\<close>, up to the new value of \<open>previous\<close>.\<close>

definition expand_round ::
    "(nat \<Rightarrow> bool) \<Rightarrow> nat \<Rightarrow> bytes \<Rightarrow> nat \<Rightarrow> bytes \<Rightarrow> 'c HMAC_CTX \<Rightarrow> (bytes \<times> 'c HMAC_CTX) option" where
  "expand_round grant digest_len info i previous hmac =
     (let started =
        (if i \<noteq> 0 then
           (case HMAC_Init_ex grant hmac None None of
              (False, hmac) \<Rightarrow> (False, hmac)
            | (True, hmac) \<Rightarrow> HMAC_Update hmac (take digest_len previous))
         else (True, hmac))
      in case started of
           (False, hmac) \<Rightarrow> None
         | (True, hmac) \<Rightarrow>
             (case HMAC_Update hmac info of
                (False, hmac) \<Rightarrow> None
              | (True, hmac) \<Rightarrow>
                  (case HMAC_Update hmac [word_of_nat (i + 1)] of
                     (False, hmac) \<Rightarrow> None
                   | (True, hmac) \<Rightarrow>
                       (case HMAC_Final grant hmac of
                          (None, hmac) \<Rightarrow> None
                        | (Some previous, hmac) \<Rightarrow> Some (previous, hmac)))))"

text \<open>The loop, with the number of rounds left; \<open>out_len\<close> is the length of the buffer.\<close>

fun expand_loop ::
    "(nat \<Rightarrow> bool) \<Rightarrow> nat \<Rightarrow> bytes \<Rightarrow> nat \<Rightarrow> nat \<Rightarrow> bytes \<Rightarrow> 'c HMAC_CTX \<Rightarrow> nat \<Rightarrow> bytes \<Rightarrow> bool \<times> bytes" where
  "expand_loop grant digest_len info 0 i previous hmac dn out = (True, out)"
| "expand_loop grant digest_len info (Suc n) i previous hmac dn out =
     (case expand_round grant digest_len info i previous hmac of
        None \<Rightarrow> (False, out)
      | Some (previous, hmac) \<Rightarrow>
          let todo = (if length out < dn + digest_len then length out - dn else digest_len)
          in expand_loop grant digest_len info n (i + 1) previous hmac (dn + todo)
               (mem_write out dn (take todo previous)))"

definition HKDF_expand :: "(nat \<Rightarrow> bool) \<Rightarrow> 'c EVP_MD \<Rightarrow> bytes \<Rightarrow> bytes \<Rightarrow> bytes \<Rightarrow> bool \<times> bytes" where
  "HKDF_expand grant digest prk info out =
     (let digest_len = evp_md_size digest; out_len = length out;
          n = (out_len + digest_len - 1) mod SIZE_MOD div digest_len
      in if (out_len + digest_len) mod SIZE_MOD < out_len \<or> 255 < n then (False, out)
      else case HMAC_Init_ex grant (HMAC_CTX_init HMAC_CTX_raw) (Some prk) (Some digest) of
        (False, hmac) \<Rightarrow> (False, out)
      | (True, hmac) \<Rightarrow> expand_loop grant digest_len info n 0 [] hmac 0 out)"

definition HKDF :: "(nat \<Rightarrow> bool) \<Rightarrow> 'c EVP_MD \<Rightarrow> bytes \<Rightarrow> bytes option \<Rightarrow> bytes \<Rightarrow> bytes \<Rightarrow> bool \<times> bytes" where
  "HKDF grant digest secret salt info out_key =
     (case HKDF_extract grant digest secret salt of
        None \<Rightarrow> (False, out_key)
      | Some prk \<Rightarrow> HKDF_expand grant digest prk info out_key)"

section \<open>RFC 5869\<close>

text \<open>\<open>T(0)\<close> is empty and \<open>T(i)\<close> the MAC of \<open>T(i - 1) | info | i\<close>.\<close>

fun rfc5869_T :: "(bytes \<Rightarrow> bytes) \<Rightarrow> bytes \<Rightarrow> nat \<Rightarrow> bytes" where
  "rfc5869_T mac info 0 = []"
| "rfc5869_T mac info (Suc i) = mac (rfc5869_T mac info i @ info @ [word_of_nat (Suc i)])"

definition rfc5869_expand :: "(bytes \<Rightarrow> bytes) \<Rightarrow> nat \<Rightarrow> bytes \<Rightarrow> nat \<Rightarrow> bytes" where
  "rfc5869_expand mac hash_len info L =
     take L (concat (map (rfc5869_T mac info) [1..<(L + hash_len - 1) div hash_len + 1]))"

context evp_digest
begin

lemma length_hmac_spec: "length (hmac_spec hash (evp_block_size md) key msg) = evp_md_size md"
  by (simp add: hmac_spec_def Let_def length_hash)

lemma macs_step:
  "macs key m ctx \<Longrightarrow> HMAC_Update ctx d = (ok, ctx') \<Longrightarrow> ok \<and> macs key (m @ d) ctx'"
  using mac_update [of key m ctx d] by auto

lemma expand_round_correct:
  assumes grant: "grant (evp_ctx_size md)"
    and ctx: "if i = 0 then macs prk [] ctx else keyed prk ctx"
    and prev: "previous = rfc5869_T (hmac_spec hash (evp_block_size md) prk) info i"
  shows "\<exists>ctx'. expand_round grant (evp_md_size md) info i previous ctx
      = Some (rfc5869_T (hmac_spec hash (evp_block_size md) prk) info (Suc i), ctx') \<and> keyed prk ctx'"
proof -
  define started where "started =
    (if i \<noteq> 0 then
       (case HMAC_Init_ex grant ctx None None of
          (False, hmac) \<Rightarrow> (False, hmac)
        | (True, hmac) \<Rightarrow> HMAC_Update hmac (take (evp_md_size md) previous))
     else (True, ctx))"
  have "\<exists>c1. started = (True, c1) \<and> macs prk previous c1"
  proof (cases "i = 0")
    case True
    then show ?thesis using ctx prev by (simp add: started_def)
  next
    case False
    then have "length previous = evp_md_size md" using prev by (cases i) (simp_all add: length_hmac_spec)
    moreover obtain c where "HMAC_Init_ex grant ctx None None = (True, c)" "macs prk [] c"
      using init_again [of grant prk ctx] grant ctx False by auto
    ultimately show ?thesis using False mac_update [of prk "[]" c previous] by (auto simp: started_def)
  qed
  then obtain c1 where 1: "started = (True, c1)" "macs prk previous c1" by blast
  from mac_update [OF 1(2), of info] obtain c2 where 2: "HMAC_Update c1 info = (True, c2)" "macs prk (previous @ info) c2" by blast
  from mac_update [OF 2(2), of "[word_of_nat (i + 1)]"] obtain c3 where
    3: "HMAC_Update c2 [word_of_nat (i + 1)] = (True, c3)" "macs prk ((previous @ info) @ [word_of_nat (i + 1)]) c3" by blast
  from mac_final [of grant, OF grant 3(2)] obtain c4 where
    "HMAC_Final grant c3 = (Some (hmac_spec hash (evp_block_size md) prk ((previous @ info) @ [word_of_nat (i + 1)])), c4)" "keyed prk c4"
    by blast
  with 1(1) 2(1) 3(1) show ?thesis
    unfolding expand_round_def started_def [symmetric] Let_def using prev by simp
qed

lemma length_T_concat:
  assumes "\<And>m. length (mac m) = k"
  shows "length (concat (map (rfc5869_T mac info) [1..<Suc i])) = i * k"
  using assms by (induction i) simp_all

lemma expand_loop_correct:
  fixes prk info :: bytes
  assumes grant: "grant (evp_ctx_size md)"
  defines "mac \<equiv> hmac_spec hash (evp_block_size md) prk" and "k \<equiv> evp_md_size md"
  shows "(if i = 0 then macs prk [] ctx else keyed prk ctx) \<Longrightarrow>
    dn = min (i * k) (length out) \<Longrightarrow> take dn out = take dn (concat (map (rfc5869_T mac info) [1..<Suc i])) \<Longrightarrow>
    length out \<le> (i + n) * k \<Longrightarrow> (n = 0 \<or> (i + n - 1) * k < length out) \<Longrightarrow>
    expand_loop grant k info n i (rfc5869_T mac info i) ctx dn out
      = (True, take (length out) (concat (map (rfc5869_T mac info) [1..<Suc (i + n)])))"
proof (induction n arbitrary: i ctx dn out)
  case 0
  then show ?case by (simp add: min_def split: if_splits)
next
  case (Suc n)
  define L where "L = length out"
  define T where "T = rfc5869_T mac info (Suc i)"
  define todo where "todo = (if L < dn + k then L - dn else k)"
  define out1 where "out1 = mem_write out dn (take todo T)"
  have mac: "length (mac m) = k" for m by (simp add: mac_def k_def length_hmac_spec)
  have lenT: "length T = k" by (simp add: T_def mac)
  have "i * k \<le> (i + Suc n - 1) * k" by simp
  also have "\<dots> < L" using Suc.prems(5) by (simp add: L_def)
  finally have iL: "i * k < L" .
  then have dn: "dn = i * k" using Suc.prems(2) by (simp add: L_def)
  have todo: "dn + todo = min (Suc i * k) L" "todo \<le> k" "dn + todo \<le> L"
    using iL dn by (auto simp: todo_def min_def)
  obtain ctx1 where rnd: "expand_round grant k info i (rfc5869_T mac info i) ctx = Some (T, ctx1)" and key1: "keyed prk ctx1"
    using expand_round_correct [of grant i prk ctx _ info, OF grant Suc.prems(1)] by (auto simp: T_def mac_def k_def)
  have len1: "length out1 = L"
    using todo(2,3) lenT by (simp add: out1_def L_def)
  have "take (dn + todo) out1 = take dn out @ take todo T"
    unfolding out1_def using todo(2,3) lenT by (intro take_mem_write) (simp_all add: L_def)
  also have "\<dots> = take (dn + todo) (concat (map (rfc5869_T mac info) [1..<Suc (Suc i)]))"
    using Suc.prems(3) length_T_concat [of mac k info i] mac dn by (simp add: T_def)
  finally have pre: "take (dn + todo) out1 = take (dn + todo) (concat (map (rfc5869_T mac info) [1..<Suc (Suc i)]))" .
  have step: "expand_loop grant k info (Suc n) i (rfc5869_T mac info i) ctx dn out
      = expand_loop grant k info n (Suc i) T ctx1 (dn + todo) out1"
    using rnd by (simp add: Let_def todo_def out1_def L_def)
  have "expand_loop grant k info n (Suc i) (rfc5869_T mac info (Suc i)) ctx1 (dn + todo) out1
    = (True, take (length out1) (concat (map (rfc5869_T mac info) [1..<Suc (Suc i + n)])))"
    using Suc.prems(4,5) todo(1) pre len1 key1
    by (intro Suc.IH) (auto simp: L_def)
  then show ?case
    unfolding step T_def len1 L_def by (simp only: add_Suc_right add_Suc)
qed

lemma expand_correct:
  assumes grant: "grant (evp_ctx_size md)" and size: "0 < evp_md_size md"
    and L: "length out \<le> 255 * evp_md_size md"
  shows "HKDF_expand grant md prk info out
    = (True, rfc5869_expand (hmac_spec hash (evp_block_size md) prk) (evp_md_size md) info (length out))"
proof -
  define k where "k = evp_md_size md"
  define n where "n = (length out + k - 1) div k"
  have k: "0 < k" "k \<le> 64" using size md_size by (simp_all add: k_def)
  have "length out + k < SIZE_MOD" using L k by (simp add: k_def)
  then have m: "(length out + k) mod SIZE_MOD = length out + k" "(length out + k - 1) mod SIZE_MOD = length out + k - 1"
    by simp_all
  have "length out + k - 1 < 256 * k" using L k by (simp add: k_def)
  from less_mult_imp_div_less [OF this] have n255: "n \<le> 255" by (simp add: n_def)
  have "length out + k - 1 < (n + 1) * k"
    using k unfolding n_def by (metis div_less_iff_less_mult lessI Suc_eq_plus1)
  then have up: "length out \<le> n * k" using k by simp
  have low: "n = 0 \<or> (n - 1) * k < length out"
  proof (cases "n = 0")
    case False
    have "n * k \<le> length out + k - 1" by (simp add: n_def)
    moreover have "n * k = (n - 1) * k + k" using False by (metis Suc_pred' add.commute bot_nat_0.not_eq_extremum mult_Suc)
    ultimately show ?thesis using k by linarith
  qed simp
  obtain ctx where init: "HMAC_Init_ex grant (HMAC_CTX_init HMAC_CTX_raw) (Some prk) (Some md) = (True, ctx)" "macs prk [] ctx"
    using init_key [of grant "HMAC_CTX_init HMAC_CTX_raw" prk, OF grant] usable_init by (auto simp: HMAC_CTX_init_def)
  have "expand_loop grant k info n 0 [] ctx 0 out
      = (True, take (length out) (concat (map (rfc5869_T (hmac_spec hash (evp_block_size md) prk) info) [1..<Suc n])))"
    using expand_loop_correct [of grant 0 prk ctx 0 out info n, OF grant] init(2) up low by (simp add: k_def)
  moreover have "\<not> length out + k < length out" "\<not> 255 < n" using n255 by simp_all
  ultimately show ?thesis
    unfolding HKDF_expand_def Let_def k_def [symmetric] m rfc5869_expand_def n_def [symmetric] init(1) Suc_eq_plus1
    by (simp only: simp_thms if_False prod.case bool.case)
qed

end



text \<open>Without a salt, extraction fails: \<open>HMAC\<close> refuses a null key for a context that has no digest yet,
  although the comment in \<^verbatim>\<open>HKDF_extract\<close> relies on HMAC to use zeros in its place.\<close>

theorem hkdf_extract_needs_salt:
  "HKDF_extract grant digest secret None = None \<and> HKDF grant digest secret None info out = (False, out)"
  by (simp add: HKDF_def HKDF_extract_def HMAC_def HMAC_Init_def HMAC_Init_ex_def HMAC_CTX_init_def same_md_def)

end
