(* ===== verification/Tls13_Key_Schedule.thy ===== *)
theory Tls13_Key_Schedule
  imports Hkdf CBB_Messages
begin

text \<open>
  The TLS 1.3 key schedule, \<^verbatim>\<open>ssl/tls13_key_schedule.c\<close>, and its agreement with RFC 8446, sections 7.1 and 7.2.

  A \<open>struct tls13_secret\<close> that has been initialised is the list of its bytes. \<open>HKDF_expand\<close> has
  copied its key before it writes, so \<open>tls13_update_client_traffic_secret\<close> may pass one buffer as both.
  \<open>tls13_hkdf_expand_label_with_length\<close> reports the context it derives from to a callback of the
  connection, \<open>ssl->claim\<close>, which it calls unchecked: the model logs the calls of a
  registered callback. The label is compared to string literals with their
  terminating zero, over the length of the label; a label longer than such a literal differs from
  it at or before that zero unless the comparison leaves the literal, and counts as different.
\<close>

section \<open>The code\<close>

datatype claim_typ =
  CLAIM_TRANSCRIPT_CH_SH | CLAIM_TRANSCRIPT_CH_SERVER_FIN | CLAIM_TRANSCRIPT_CH_CLIENT_FIN | CLAIM_TRANSCRIPT_UNKNOWN

type_synonym claims = "(claim_typ \<times> bytes) list"

abbreviation (input) octets :: "string \<Rightarrow> bytes" where "octets s \<equiv> map of_char s"

definition tls13_secret_init :: "(nat \<Rightarrow> bool) \<Rightarrow> bytes option \<Rightarrow> nat \<Rightarrow> bool \<times> bytes option" where
  "tls13_secret_init grant data len =
     (if data \<noteq> None then (False, data)
      else if \<not> grant len then (False, None)
      else (True, Some (replicate len 0)))"

definition tls13_secret_cleanup :: "bytes option \<Rightarrow> bytes option" where
  "tls13_secret_cleanup data = None"

record 'c tls13_secrets =
  sec_digest :: "'c EVP_MD"
  sec_resumption :: bool
  sec_init_done :: bool
  sec_early_done :: bool
  sec_handshake_done :: bool
  sec_schedule_done :: bool
  sec_insecure :: bool
  sec_zeros :: bytes
  sec_empty_hash :: bytes
  sec_extracted_early :: bytes
  sec_binder_key :: bytes
  sec_client_early_traffic :: bytes
  sec_early_exporter_master :: bytes
  sec_derived_early :: bytes
  sec_extracted_handshake :: bytes
  sec_client_handshake_traffic :: bytes
  sec_server_handshake_traffic :: bytes
  sec_derived_handshake :: bytes
  sec_extracted_master :: bytes
  sec_client_application_traffic :: bytes
  sec_server_application_traffic :: bytes
  sec_exporter_master :: bytes
  sec_resumption_master :: bytes

text \<open>All sixteen secrets are requested with the same length from the freshly cleared structure, so
  they are granted or refused together. 288 and 48 are the sizes of \<open>struct tls13_secrets\<close> and
  of \<open>EVP_MD_CTX\<close>.\<close>

definition tls13_secrets_create :: "(nat \<Rightarrow> bool) \<Rightarrow> 'c EVP_MD \<Rightarrow> bool \<Rightarrow> 'c tls13_secrets option" where
  "tls13_secrets_create grant digest resumption =
     (let hash_length = evp_md_size digest in
      if \<not> grant 288 then None
      else
        case tls13_secret_init grant None hash_length of
          (True, Some z) \<Rightarrow>
            if \<not> grant 48 then None
            else
              (case EVP_DigestInit_ex grant EVP_MD_CTX_init digest of
                 (False, mdctx) \<Rightarrow> None
               | (True, mdctx) \<Rightarrow>
                   (case EVP_DigestUpdate mdctx [] of
                      (False, mdctx) \<Rightarrow> None
                    | (True, mdctx) \<Rightarrow>
                        (case EVP_DigestFinal_ex mdctx of
                           (None, mdctx) \<Rightarrow> None
                         | (Some md, mdctx) \<Rightarrow>
                             if length z \<noteq> length md then None
                             else Some \<lparr>sec_digest = digest, sec_resumption = resumption, sec_init_done = True,
                               sec_early_done = False, sec_handshake_done = False, sec_schedule_done = False, sec_insecure = False,
                               sec_zeros = z, sec_empty_hash = md, sec_extracted_early = z, sec_binder_key = z,
                               sec_client_early_traffic = z, sec_early_exporter_master = z, sec_derived_early = z,
                               sec_extracted_handshake = z, sec_client_handshake_traffic = z, sec_server_handshake_traffic = z,
                               sec_derived_handshake = z, sec_extracted_master = z, sec_client_application_traffic = z,
                               sec_server_application_traffic = z, sec_exporter_master = z, sec_resumption_master = z\<rparr>)))
        | _ \<Rightarrow> None)"

definition label_eq :: "bytes \<Rightarrow> string \<Rightarrow> bool" where
  "label_eq label s \<longleftrightarrow> take (length label) (octets s @ [0]) = label"

definition claim_of_label :: "bytes \<Rightarrow> claim_typ" where
  "claim_of_label label =
     (if label_eq label ''ext binder'' \<or> label_eq label ''res binder''
        \<or> label_eq label ''c e traffic'' \<or> label_eq label ''e exp master'' then CLAIM_TRANSCRIPT_CH_SH
      else if label_eq label ''c hs traffic'' \<or> label_eq label ''s hs traffic'' then CLAIM_TRANSCRIPT_CH_SH
      else if label_eq label ''c ap traffic'' \<or> label_eq label ''s ap traffic''
        \<or> label_eq label ''exp master'' then CLAIM_TRANSCRIPT_CH_SERVER_FIN
      else if label_eq label ''res master'' then CLAIM_TRANSCRIPT_CH_CLIENT_FIN
      else CLAIM_TRANSCRIPT_UNKNOWN)"

definition tls13_hkdf_expand_label_with_length ::
    "(nat \<Rightarrow> bool) \<Rightarrow> claims \<Rightarrow> bytes \<Rightarrow> 'c EVP_MD \<Rightarrow> bytes \<Rightarrow> bytes \<Rightarrow> bytes \<Rightarrow> bool \<times> bytes \<times> claims" where
  "tls13_hkdf_expand_label_with_length grant log out digest secret label context =
     (let log = log @ [(claim_of_label label, context)] in
      case cbb_message grant 256
             [Num 2 (length out), Prefixed 1 [Raw (octets ''tls13 ''), Raw label], Prefixed 1 [Raw context]] of
        None \<Rightarrow> (False, out, log)
      | Some hkdf_label \<Rightarrow>
          (case HKDF_expand grant digest secret hkdf_label out of (ret, out) \<Rightarrow> (ret, out, log)))"

definition tls13_hkdf_expand_label ::
    "(nat \<Rightarrow> bool) \<Rightarrow> claims \<Rightarrow> bytes \<Rightarrow> 'c EVP_MD \<Rightarrow> bytes \<Rightarrow> string \<Rightarrow> bytes \<Rightarrow> bool \<times> bytes \<times> claims" where
  "tls13_hkdf_expand_label grant log out digest secret label context =
     tls13_hkdf_expand_label_with_length grant log out digest secret (octets label) context"

definition tls13_derive_secret ::
    "(nat \<Rightarrow> bool) \<Rightarrow> claims \<Rightarrow> bytes \<Rightarrow> 'c EVP_MD \<Rightarrow> bytes \<Rightarrow> string \<Rightarrow> bytes \<Rightarrow> bool \<times> bytes \<times> claims" where
  "tls13_derive_secret grant log out digest secret label context =
     tls13_hkdf_expand_label grant log out digest secret label context"

definition tls13_derive_secret_with_label_length ::
    "(nat \<Rightarrow> bool) \<Rightarrow> claims \<Rightarrow> bytes \<Rightarrow> 'c EVP_MD \<Rightarrow> bytes \<Rightarrow> bytes \<Rightarrow> bytes \<Rightarrow> bool \<times> bytes \<times> claims" where
  "tls13_derive_secret_with_label_length grant log out digest secret label context =
     tls13_hkdf_expand_label_with_length grant log out digest secret label context"

text \<open>The operations on a set of secrets act on the log of claims and the set. \<open>and_then\<close> is the
  early return of \<^verbatim>\<open>if (!f(...)) return 0;\<close>, and \<open>derive_into\<close> one derivation, into a field of the set.\<close>

type_synonym 'c schedule = "claims \<times> 'c tls13_secrets"

fun and_then :: "bool \<times> 's \<Rightarrow> ('s \<Rightarrow> bool \<times> 's) \<Rightarrow> bool \<times> 's" where
  "and_then (False, s) f = (False, s)"
| "and_then (True, s) f = f s"

definition derive_into ::
    "(nat \<Rightarrow> bool) \<Rightarrow> ('c tls13_secrets \<Rightarrow> bytes) \<Rightarrow> ((bytes \<Rightarrow> bytes) \<Rightarrow> 'c tls13_secrets \<Rightarrow> 'c tls13_secrets)
      \<Rightarrow> ('c tls13_secrets \<Rightarrow> bytes) \<Rightarrow> string \<Rightarrow> bytes \<Rightarrow> 'c schedule \<Rightarrow> bool \<times> 'c schedule" where
  "derive_into grant field field_update secret label context st =
     (case st of (log, s) \<Rightarrow>
        case tls13_derive_secret grant log (field s) (sec_digest s) (secret s) label context of
          (ok, out, log) \<Rightarrow> (ok, log, field_update (\<lambda>_. out) s))"

definition tls13_derive_early_secrets :: "(nat \<Rightarrow> bool) \<Rightarrow> 'c schedule \<Rightarrow> bytes \<Rightarrow> bytes \<Rightarrow> bool \<times> 'c schedule" where
  "tls13_derive_early_secrets grant st psk context =
     (case st of (log, s) \<Rightarrow>
      if \<not> sec_init_done s \<or> sec_early_done s then (False, st)
      else case HKDF_extract grant (sec_digest s) psk (Some (sec_zeros s)) of
        None \<Rightarrow> (False, st)
      | Some prk \<Rightarrow>
          let s = s\<lparr>sec_extracted_early := prk\<rparr> in
          if length prk \<noteq> length (sec_zeros s) then (False, log, s)
          else
            and_then (and_then (and_then (and_then
              (derive_into grant sec_binder_key sec_binder_key_update sec_extracted_early
                 (if sec_resumption s then ''res binder'' else ''ext binder'') (sec_empty_hash s) (log, s))
              (derive_into grant sec_client_early_traffic sec_client_early_traffic_update sec_extracted_early
                 ''c e traffic'' context))
              (derive_into grant sec_early_exporter_master sec_early_exporter_master_update sec_extracted_early
                 ''e exp master'' context))
              (derive_into grant sec_derived_early sec_derived_early_update sec_extracted_early
                 ''derived'' (sec_empty_hash s)))
              (\<lambda>(log, s). (True, log,
                 (if sec_insecure s then s
                  else s\<lparr>sec_extracted_early := replicate (length (sec_extracted_early s)) 0\<rparr>)\<lparr>sec_early_done := True\<rparr>)))"

definition tls13_derive_handshake_secrets :: "(nat \<Rightarrow> bool) \<Rightarrow> 'c schedule \<Rightarrow> bytes \<Rightarrow> bytes \<Rightarrow> bool \<times> 'c schedule" where
  "tls13_derive_handshake_secrets grant st ecdhe context =
     (case st of (log, s) \<Rightarrow>
      if \<not> sec_init_done s \<or> \<not> sec_early_done s \<or> sec_handshake_done s then (False, st)
      else case HKDF_extract grant (sec_digest s) ecdhe (Some (sec_derived_early s)) of
        None \<Rightarrow> (False, st)
      | Some prk \<Rightarrow>
          let s = s\<lparr>sec_extracted_handshake := prk\<rparr> in
          if length prk \<noteq> length (sec_zeros s) then (False, log, s)
          else
            let s = (if sec_insecure s then s else s\<lparr>sec_derived_early := replicate (length (sec_derived_early s)) 0\<rparr>) in
            and_then (and_then (and_then
              (derive_into grant sec_client_handshake_traffic sec_client_handshake_traffic_update sec_extracted_handshake
                 ''c hs traffic'' context (log, s))
              (derive_into grant sec_server_handshake_traffic sec_server_handshake_traffic_update sec_extracted_handshake
                 ''s hs traffic'' context))
              (derive_into grant sec_derived_handshake sec_derived_handshake_update sec_extracted_handshake
                 ''derived'' (sec_empty_hash s)))
              (\<lambda>(log, s). (True, log,
                 (if sec_insecure s then s
                  else s\<lparr>sec_extracted_handshake := replicate (length (sec_extracted_handshake s)) 0\<rparr>)\<lparr>sec_handshake_done := True\<rparr>)))"

definition tls13_derive_application_secrets :: "(nat \<Rightarrow> bool) \<Rightarrow> 'c schedule \<Rightarrow> bytes \<Rightarrow> bool \<times> 'c schedule" where
  "tls13_derive_application_secrets grant st context =
     (case st of (log, s) \<Rightarrow>
      if \<not> sec_init_done s \<or> \<not> sec_early_done s \<or> \<not> sec_handshake_done s \<or> sec_schedule_done s then (False, st)
      else case HKDF_extract grant (sec_digest s) (sec_zeros s) (Some (sec_derived_handshake s)) of
        None \<Rightarrow> (False, st)
      | Some prk \<Rightarrow>
          let s = s\<lparr>sec_extracted_master := prk\<rparr> in
          if length prk \<noteq> length (sec_zeros s) then (False, log, s)
          else
            let s = (if sec_insecure s then s else s\<lparr>sec_derived_handshake := replicate (length (sec_derived_handshake s)) 0\<rparr>) in
            and_then (and_then (and_then (and_then
              (derive_into grant sec_client_application_traffic sec_client_application_traffic_update sec_extracted_master
                 ''c ap traffic'' context (log, s))
              (derive_into grant sec_server_application_traffic sec_server_application_traffic_update sec_extracted_master
                 ''s ap traffic'' context))
              (derive_into grant sec_exporter_master sec_exporter_master_update sec_extracted_master
                 ''exp master'' context))
              (derive_into grant sec_resumption_master sec_resumption_master_update sec_extracted_master
                 ''res master'' context))
              (\<lambda>(log, s). (True, log,
                 (if sec_insecure s then s
                  else s\<lparr>sec_extracted_master := replicate (length (sec_extracted_master s)) 0\<rparr>)\<lparr>sec_schedule_done := True\<rparr>)))"

definition tls13_update_client_traffic_secret :: "(nat \<Rightarrow> bool) \<Rightarrow> 'c schedule \<Rightarrow> bool \<times> 'c schedule" where
  "tls13_update_client_traffic_secret grant st =
     (case st of (log, s) \<Rightarrow>
      if \<not> sec_init_done s \<or> \<not> sec_early_done s \<or> \<not> sec_handshake_done s \<or> \<not> sec_schedule_done s then (False, st)
      else case tls13_hkdf_expand_label grant log (sec_client_application_traffic s) (sec_digest s)
                  (sec_client_application_traffic s) ''traffic upd'' [] of
        (ok, out, log) \<Rightarrow> (ok, log, s\<lparr>sec_client_application_traffic := out\<rparr>))"

definition tls13_update_server_traffic_secret :: "(nat \<Rightarrow> bool) \<Rightarrow> 'c schedule \<Rightarrow> bool \<times> 'c schedule" where
  "tls13_update_server_traffic_secret grant st =
     (case st of (log, s) \<Rightarrow>
      if \<not> sec_init_done s \<or> \<not> sec_early_done s \<or> \<not> sec_handshake_done s \<or> \<not> sec_schedule_done s then (False, st)
      else case tls13_hkdf_expand_label grant log (sec_server_application_traffic s) (sec_digest s)
                  (sec_server_application_traffic s) ''traffic upd'' [] of
        (ok, out, log) \<Rightarrow> (ok, log, s\<lparr>sec_server_application_traffic := out\<rparr>))"

section \<open>RFC 8446\<close>

definition rfc_hkdf_label :: "nat \<Rightarrow> string \<Rightarrow> bytes \<Rightarrow> bytes" where
  "rfc_hkdf_label L label context =
     (let l = octets ''tls13 '' @ octets label in
      be_bytes 2 L @ be_bytes 1 (length l) @ l @ be_bytes 1 (length context) @ context)"

definition rfc_expand_label :: "(bytes \<Rightarrow> bytes \<Rightarrow> bytes) \<Rightarrow> nat \<Rightarrow> bytes \<Rightarrow> string \<Rightarrow> bytes \<Rightarrow> nat \<Rightarrow> bytes" where
  "rfc_expand_label hmac N secret label context L =
     rfc5869_expand (hmac secret) N (rfc_hkdf_label L label context) L"

definition rfc_derive_secret :: "(bytes \<Rightarrow> bytes \<Rightarrow> bytes) \<Rightarrow> nat \<Rightarrow> bytes \<Rightarrow> string \<Rightarrow> bytes \<Rightarrow> bytes" where
  "rfc_derive_secret hmac N secret label transcript_hash = rfc_expand_label hmac N secret label transcript_hash N"

definition rfc_early_secret :: "(bytes \<Rightarrow> bytes \<Rightarrow> bytes) \<Rightarrow> nat \<Rightarrow> bytes \<Rightarrow> bytes" where
  "rfc_early_secret hmac N psk = hmac (replicate N 0) psk"

definition rfc_handshake_secret :: "(bytes \<Rightarrow> bytes) \<Rightarrow> (bytes \<Rightarrow> bytes \<Rightarrow> bytes) \<Rightarrow> nat \<Rightarrow> bytes \<Rightarrow> bytes \<Rightarrow> bytes" where
  "rfc_handshake_secret H hmac N psk ecdhe =
     hmac (rfc_derive_secret hmac N (rfc_early_secret hmac N psk) ''derived'' (H [])) ecdhe"

definition rfc_master_secret :: "(bytes \<Rightarrow> bytes) \<Rightarrow> (bytes \<Rightarrow> bytes \<Rightarrow> bytes) \<Rightarrow> nat \<Rightarrow> bytes \<Rightarrow> bytes \<Rightarrow> bytes" where
  "rfc_master_secret H hmac N psk ecdhe =
     hmac (rfc_derive_secret hmac N (rfc_handshake_secret H hmac N psk ecdhe) ''derived'' (H [])) (replicate N 0)"

section \<open>The derivations are those of the RFC\<close>

lemma claims_of_labels:
  "claim_of_label (octets ''res binder'') = CLAIM_TRANSCRIPT_CH_SH"
  "claim_of_label (octets ''ext binder'') = CLAIM_TRANSCRIPT_CH_SH"
  "claim_of_label (octets ''c e traffic'') = CLAIM_TRANSCRIPT_CH_SH"
  "claim_of_label (octets ''e exp master'') = CLAIM_TRANSCRIPT_CH_SH"
  "claim_of_label (octets ''derived'') = CLAIM_TRANSCRIPT_UNKNOWN"
  "claim_of_label (octets ''c hs traffic'') = CLAIM_TRANSCRIPT_CH_SH"
  "claim_of_label (octets ''s hs traffic'') = CLAIM_TRANSCRIPT_CH_SH"
  "claim_of_label (octets ''c ap traffic'') = CLAIM_TRANSCRIPT_CH_SERVER_FIN"
  "claim_of_label (octets ''s ap traffic'') = CLAIM_TRANSCRIPT_CH_SERVER_FIN"
  "claim_of_label (octets ''exp master'') = CLAIM_TRANSCRIPT_CH_SERVER_FIN"
  "claim_of_label (octets ''res master'') = CLAIM_TRANSCRIPT_CH_CLIENT_FIN"
  "claim_of_label (octets ''traffic upd'') = CLAIM_TRANSCRIPT_UNKNOWN"
  by (simp_all add: claim_of_label_def label_eq_def)

lemmas claims_of_schedule [simp] = claims_of_labels [simplified]

lemma hkdf_label_built:
  assumes "\<forall>n. grant n" "L < 65536" "length label \<le> 249" "length context \<le> 255"
  shows "cbb_message grant 256 [Num 2 L, Prefixed 1 [Raw (octets ''tls13 ''), Raw (octets label)], Prefixed 1 [Raw context]]
    = Some (rfc_hkdf_label L label context)"
  using assms by (intro cbb_message_complete) (simp_all add: rfc_hkdf_label_def Let_def)

text \<open>The life of a schedule: create the set and derive the three stages, as the handshake does, with the
  transcript hashes up to ClientHello, ServerHello and the server's Finished. Below, the claims it reports.\<close>

definition key_schedule ::
    "(nat \<Rightarrow> bool) \<Rightarrow> 'c EVP_MD \<Rightarrow> bool \<Rightarrow> bytes \<Rightarrow> bytes \<Rightarrow> bytes \<Rightarrow> bytes \<Rightarrow> bytes \<Rightarrow> 'c schedule option" where
  "key_schedule grant digest resumption psk c1 ecdhe c2 c3 =
     (case tls13_secrets_create grant digest resumption of
        None \<Rightarrow> None
      | Some s \<Rightarrow>
          (case and_then (and_then
             (tls13_derive_early_secrets grant ([], s) psk c1)
             (\<lambda>st. tls13_derive_handshake_secrets grant st ecdhe c2))
             (\<lambda>st. tls13_derive_application_secrets grant st c3) of
             (False, st) \<Rightarrow> None
           | (True, st) \<Rightarrow> Some st))"

definition schedule_claims :: "bytes \<Rightarrow> bytes \<Rightarrow> bytes \<Rightarrow> bytes \<Rightarrow> claims" where
  "schedule_claims e c1 c2 c3 =
     [(CLAIM_TRANSCRIPT_CH_SH, e), (CLAIM_TRANSCRIPT_CH_SH, c1), (CLAIM_TRANSCRIPT_CH_SH, c1), (CLAIM_TRANSCRIPT_UNKNOWN, e),
      (CLAIM_TRANSCRIPT_CH_SH, c2), (CLAIM_TRANSCRIPT_CH_SH, c2), (CLAIM_TRANSCRIPT_UNKNOWN, e),
      (CLAIM_TRANSCRIPT_CH_SERVER_FIN, c3), (CLAIM_TRANSCRIPT_CH_SERVER_FIN, c3), (CLAIM_TRANSCRIPT_CH_SERVER_FIN, c3),
      (CLAIM_TRANSCRIPT_CH_CLIENT_FIN, c3)]"

locale sized_digest = evp_digest rep md hash
  for rep :: "bytes \<Rightarrow> 'c \<Rightarrow> bool" and md :: "'c EVP_MD" and hash :: "bytes \<Rightarrow> bytes" +
  assumes md_nonempty: "0 < evp_md_size md"
begin

abbreviation N :: nat where "N \<equiv> evp_md_size md"
abbreviation hm :: "bytes \<Rightarrow> bytes \<Rightarrow> bytes" where "hm \<equiv> hmac_spec hash (evp_block_size md)"

lemma expand_label_correct:
  assumes "\<forall>n. grant n" "length out \<le> 255 * N" "length label \<le> 249" "length context \<le> 255"
  shows "tls13_hkdf_expand_label grant log out md secret label context
    = (True, rfc_expand_label hm N secret label context (length out), log @ [(claim_of_label (octets label), context)])"
proof -
  have "length out < 65536" using assms(2) md_size by simp
  then show ?thesis
    using assms hkdf_label_built [of grant "length out" label "context"] expand_correct [of grant out secret] md_nonempty
    by (simp add: tls13_hkdf_expand_label_def tls13_hkdf_expand_label_with_length_def rfc_expand_label_def Let_def)
qed

lemma derive_into_correct:
  assumes "\<forall>n. grant n" "length label \<le> 249" "length context \<le> 255" "sec_digest s = md" "length (field s) = N"
  shows "derive_into grant field upd secret label context (log, s)
    = (True, log @ [(claim_of_label (octets label), context)], upd (\<lambda>_. rfc_derive_secret hm N (secret s) label context) s)"
  using assms expand_label_correct [of grant "field s" label "context" log]
  by (simp add: derive_into_def tls13_derive_secret_def rfc_derive_secret_def)

lemma extract_correct: "\<forall>n. grant n \<Longrightarrow> HKDF_extract grant md secret (Some salt) = Some (hm salt secret)"
  using hmac_correct [of grant salt secret] by (simp add: HKDF_extract_def)

lemma length_rfc_derive_secret [simp]: "length (rfc_derive_secret hm N secret label context) = N"
proof -
  have "(N + N - 1) div N = 1" using md_nonempty by (simp add: div_nat_eqI)
  then show ?thesis
    by (simp add: rfc_derive_secret_def rfc_expand_label_def rfc5869_expand_def length_hmac_spec)
qed

lemma create_correct:
  assumes "\<forall>n. grant n"
  shows "tls13_secrets_create grant md resumption = Some
    (let z = replicate N 0 in \<lparr>sec_digest = md, sec_resumption = resumption, sec_init_done = True,
       sec_early_done = False, sec_handshake_done = False, sec_schedule_done = False, sec_insecure = False,
       sec_zeros = z, sec_empty_hash = hash [], sec_extracted_early = z, sec_binder_key = z,
       sec_client_early_traffic = z, sec_early_exporter_master = z, sec_derived_early = z,
       sec_extracted_handshake = z, sec_client_handshake_traffic = z, sec_server_handshake_traffic = z,
       sec_derived_handshake = z, sec_extracted_master = z, sec_client_application_traffic = z,
       sec_server_application_traffic = z, sec_exporter_master = z, sec_resumption_master = z\<rparr>)"
proof -
  obtain c where c: "EVP_DigestInit_ex grant EVP_MD_CTX_init md = (True, c)" "absorbed [] c"
    using digest_init [of grant EVP_MD_CTX_init] usable_init assms by blast
  obtain c1 where c1: "EVP_DigestUpdate c [] = (True, c1)" "absorbed [] c1"
    using digest_update [OF c(2), of "[]"] by auto
  obtain c2 where c2: "EVP_DigestFinal_ex c1 = (Some (hash []), c2)"
    using digest_final [OF c1(2)] by blast
  show ?thesis using assms c(1) c1(1) c2
    by (simp add: tls13_secrets_create_def tls13_secret_init_def Let_def length_hash)
qed

text \<open>The stages, one after the other, on a set that is not marked insecure.\<close>

definition sized :: "'c tls13_secrets \<Rightarrow> bool" where
  "sized s \<longleftrightarrow> sec_digest s = md \<and> sec_init_done s \<and> \<not> sec_insecure s
     \<and> sec_zeros s = replicate N 0 \<and> sec_empty_hash s = hash []
     \<and> length (sec_binder_key s) = N \<and> length (sec_client_early_traffic s) = N
     \<and> length (sec_early_exporter_master s) = N \<and> length (sec_derived_early s) = N
     \<and> length (sec_client_handshake_traffic s) = N \<and> length (sec_server_handshake_traffic s) = N
     \<and> length (sec_derived_handshake s) = N \<and> length (sec_client_application_traffic s) = N
     \<and> length (sec_server_application_traffic s) = N \<and> length (sec_exporter_master s) = N
     \<and> length (sec_resumption_master s) = N"

lemma empty_hash_short [simp]: "length (hash []) \<le> 255"
  using md_size by (simp add: length_hash)

lemma early_correct:
  fixes psk :: bytes
  assumes "\<forall>n. grant n" "sized s" "\<not> sec_early_done s" "length cx \<le> 255"
  defines "es \<equiv> rfc_early_secret hm N psk"
  shows "tls13_derive_early_secrets grant (log, s) psk cx =
    (True, log @ [(CLAIM_TRANSCRIPT_CH_SH, hash []), (CLAIM_TRANSCRIPT_CH_SH, cx), (CLAIM_TRANSCRIPT_CH_SH, cx),
       (CLAIM_TRANSCRIPT_UNKNOWN, hash [])],
     s\<lparr>sec_binder_key := rfc_derive_secret hm N es (if sec_resumption s then ''res binder'' else ''ext binder'') (hash []),
       sec_client_early_traffic := rfc_derive_secret hm N es ''c e traffic'' cx,
       sec_early_exporter_master := rfc_derive_secret hm N es ''e exp master'' cx,
       sec_derived_early := rfc_derive_secret hm N es ''derived'' (hash []),
       sec_extracted_early := replicate N 0, sec_early_done := True\<rparr>)"
  using assms(1-4)
  by (cases "sec_resumption s") (simp_all add: tls13_derive_early_secrets_def sized_def extract_correct derive_into_correct
      es_def rfc_early_secret_def length_hmac_spec Let_def)

lemma handshake_correct:
  fixes ecdhe :: bytes
  assumes "\<forall>n. grant n" "sized s" "sec_early_done s" "\<not> sec_handshake_done s" "length cx \<le> 255"
  defines "hs \<equiv> hm (sec_derived_early s) ecdhe"
  shows "tls13_derive_handshake_secrets grant (log, s) ecdhe cx =
    (True, log @ [(CLAIM_TRANSCRIPT_CH_SH, cx), (CLAIM_TRANSCRIPT_CH_SH, cx), (CLAIM_TRANSCRIPT_UNKNOWN, hash [])],
     s\<lparr>sec_derived_early := replicate N 0,
       sec_client_handshake_traffic := rfc_derive_secret hm N hs ''c hs traffic'' cx,
       sec_server_handshake_traffic := rfc_derive_secret hm N hs ''s hs traffic'' cx,
       sec_derived_handshake := rfc_derive_secret hm N hs ''derived'' (hash []),
       sec_extracted_handshake := replicate N 0, sec_handshake_done := True\<rparr>)"
  using assms(1-5)
  by (simp add: tls13_derive_handshake_secrets_def sized_def extract_correct derive_into_correct
      hs_def length_hmac_spec Let_def)

lemma application_correct:
  assumes "\<forall>n. grant n" "sized s" "sec_early_done s" "sec_handshake_done s" "\<not> sec_schedule_done s" "length cx \<le> 255"
  defines "ms \<equiv> hm (sec_derived_handshake s) (replicate N 0)"
  shows "tls13_derive_application_secrets grant (log, s) cx =
    (True, log @ [(CLAIM_TRANSCRIPT_CH_SERVER_FIN, cx), (CLAIM_TRANSCRIPT_CH_SERVER_FIN, cx),
       (CLAIM_TRANSCRIPT_CH_SERVER_FIN, cx), (CLAIM_TRANSCRIPT_CH_CLIENT_FIN, cx)],
     s\<lparr>sec_derived_handshake := replicate N 0,
       sec_client_application_traffic := rfc_derive_secret hm N ms ''c ap traffic'' cx,
       sec_server_application_traffic := rfc_derive_secret hm N ms ''s ap traffic'' cx,
       sec_exporter_master := rfc_derive_secret hm N ms ''exp master'' cx,
       sec_resumption_master := rfc_derive_secret hm N ms ''res master'' cx,
       sec_extracted_master := replicate N 0, sec_schedule_done := True\<rparr>)"
  using assms(1-6)
  by (simp add: tls13_derive_application_secrets_def sized_def extract_correct derive_into_correct
      ms_def length_hmac_spec Let_def)

lemma update_client_correct:
  assumes "\<forall>n. grant n" "sized s" "sec_early_done s" "sec_handshake_done s" "sec_schedule_done s"
  shows "tls13_update_client_traffic_secret grant (log, s) =
    (True, log @ [(CLAIM_TRANSCRIPT_UNKNOWN, [])],
     s\<lparr>sec_client_application_traffic := rfc_derive_secret hm N (sec_client_application_traffic s) ''traffic upd'' []\<rparr>)"
  using assms by (simp add: tls13_update_client_traffic_secret_def sized_def expand_label_correct rfc_derive_secret_def)

lemma update_server_correct:
  assumes "\<forall>n. grant n" "sized s" "sec_early_done s" "sec_handshake_done s" "sec_schedule_done s"
  shows "tls13_update_server_traffic_secret grant (log, s) =
    (True, log @ [(CLAIM_TRANSCRIPT_UNKNOWN, [])],
     s\<lparr>sec_server_application_traffic := rfc_derive_secret hm N (sec_server_application_traffic s) ''traffic upd'' []\<rparr>)"
  using assms by (simp add: tls13_update_server_traffic_secret_def sized_def expand_label_correct rfc_derive_secret_def)

lemma key_schedule_correct:
  fixes psk ecdhe :: bytes
  assumes grant: "\<forall>n. grant n" and len: "length c1 \<le> 255" "length c2 \<le> 255" "length c3 \<le> 255"
  defines "z \<equiv> replicate N 0" and "e \<equiv> hash []" and "derive \<equiv> rfc_derive_secret hm N"
    and "es \<equiv> rfc_early_secret hm N psk" and "hs \<equiv> rfc_handshake_secret hash hm N psk ecdhe"
    and "ms \<equiv> rfc_master_secret hash hm N psk ecdhe"
  shows "key_schedule grant md resumption psk c1 ecdhe c2 c3 = Some
    (schedule_claims e c1 c2 c3,
     \<lparr>sec_digest = md, sec_resumption = resumption, sec_init_done = True, sec_early_done = True,
       sec_handshake_done = True, sec_schedule_done = True, sec_insecure = False,
       sec_zeros = z, sec_empty_hash = e, sec_extracted_early = z,
       sec_binder_key = derive es (if resumption then ''res binder'' else ''ext binder'') e,
       sec_client_early_traffic = derive es ''c e traffic'' c1,
       sec_early_exporter_master = derive es ''e exp master'' c1,
       sec_derived_early = z, sec_extracted_handshake = z,
       sec_client_handshake_traffic = derive hs ''c hs traffic'' c2,
       sec_server_handshake_traffic = derive hs ''s hs traffic'' c2,
       sec_derived_handshake = z, sec_extracted_master = z,
       sec_client_application_traffic = derive ms ''c ap traffic'' c3,
       sec_server_application_traffic = derive ms ''s ap traffic'' c3,
       sec_exporter_master = derive ms ''exp master'' c3,
       sec_resumption_master = derive ms ''res master'' c3\<rparr>)"
  using assms(1-4)
  by (simp add: key_schedule_def create_correct early_correct handshake_correct application_correct sized_def
      schedule_claims_def z_def e_def derive_def es_def hs_def ms_def rfc_handshake_secret_def rfc_master_secret_def Let_def)

end

lemma sha256_md_sizes: "evp_md_size sha256_md = 32" "evp_block_size sha256_md = 64"
  by (simp_all add: sha256_md_def)

interpretation sha256_sized: sized_digest "sha256_rep SHA256_Init" sha256_md fips_sha256
  by unfold_locales (simp add: sha256_md_def)

interpretation sha224_sized: sized_digest "sha256_rep SHA224_Init" sha224_md fips_sha224
  by unfold_locales (simp add: sha224_md_def)

section \<open>Any order of calls\<close>

text \<open>The states a client can bring a set of secrets into: it creates the set, may mark it insecure as the
  tests do, and calls the operations in any order, whether they succeed or not and whatever the allocator
  does.\<close>

inductive schedule_reach :: "'c EVP_MD \<Rightarrow> 'c schedule \<Rightarrow> bool" for md :: "'c EVP_MD" where
  create: "tls13_secrets_create grant md resumption = Some s \<Longrightarrow> schedule_reach md ([], s\<lparr>sec_insecure := b\<rparr>)"
| early: "schedule_reach md st \<Longrightarrow> schedule_reach md (snd (tls13_derive_early_secrets grant st psk cx))"
| handshake: "schedule_reach md st \<Longrightarrow> schedule_reach md (snd (tls13_derive_handshake_secrets grant st ecdhe cx))"
| application: "schedule_reach md st \<Longrightarrow> schedule_reach md (snd (tls13_derive_application_secrets grant st cx))"
| client_update: "schedule_reach md st \<Longrightarrow> schedule_reach md (snd (tls13_update_client_traffic_secret grant st))"
| server_update: "schedule_reach md st \<Longrightarrow> schedule_reach md (snd (tls13_update_server_traffic_secret grant st))"

text \<open>Every secret has the length of the digest; the stages are finished in order; and the secrets a finished
  stage no longer needs are erased.\<close>

definition secrets_of :: "'c tls13_secrets \<Rightarrow> bytes list" where
  "secrets_of s = [sec_zeros s, sec_empty_hash s, sec_extracted_early s, sec_binder_key s, sec_client_early_traffic s,
     sec_early_exporter_master s, sec_derived_early s, sec_extracted_handshake s, sec_client_handshake_traffic s,
     sec_server_handshake_traffic s, sec_derived_handshake s, sec_extracted_master s, sec_client_application_traffic s,
     sec_server_application_traffic s, sec_exporter_master s, sec_resumption_master s]"

definition secrets_typed :: "'c EVP_MD \<Rightarrow> 'c tls13_secrets \<Rightarrow> bool" where
  "secrets_typed md s \<longleftrightarrow> sec_digest s = md \<and> sec_init_done s \<and> list_all (\<lambda>x. length x = evp_md_size md) (secrets_of s)"

definition stages_ordered :: "'c tls13_secrets \<Rightarrow> bool" where
  "stages_ordered s \<longleftrightarrow> (sec_schedule_done s \<longrightarrow> sec_handshake_done s) \<and> (sec_handshake_done s \<longrightarrow> sec_early_done s)"

definition erased :: "'c tls13_secrets \<Rightarrow> bool" where
  "erased s \<longleftrightarrow>
     (let z = replicate (evp_md_size (sec_digest s)) 0 in
      \<not> sec_insecure s \<longrightarrow>
        (sec_early_done s \<longrightarrow> sec_extracted_early s = z)
        \<and> (sec_handshake_done s \<longrightarrow> sec_derived_early s = z \<and> sec_extracted_handshake s = z)
        \<and> (sec_schedule_done s \<longrightarrow> sec_derived_handshake s = z \<and> sec_extracted_master s = z))"

lemmas schedule_inv_defs = secrets_typed_def secrets_of_def stages_ordered_def erased_def Let_def

lemma length_expand_loop: "dn \<le> length out \<Longrightarrow> length (snd (expand_loop grant k info n i previous hmac dn out)) = length out"
proof (induction n arbitrary: i previous hmac dn out)
  case (Suc n)
  have "dn + (if length out < dn + k then length out - dn else k) \<le> length out" using Suc.prems by auto
  then show ?case using Suc.IH by (auto simp: Let_def min_def split: option.splits)
qed simp

lemma length_HKDF_expand: "length (snd (HKDF_expand grant md prk info out)) = length out"
  by (simp add: HKDF_expand_def Let_def length_expand_loop split: prod.split bool.split)

lemma length_expand_label:
  "tls13_hkdf_expand_label grant log out md secret label cx = (ok, out', log') \<Longrightarrow> length out' = length out"
  by (auto simp: tls13_hkdf_expand_label_def tls13_hkdf_expand_label_with_length_def Let_def
      split: option.splits prod.splits) (metis length_HKDF_expand snd_conv)

lemma derive_into_cases:
  obtains ok log' x where "derive_into grant field upd secret label cx (log, s) = (ok, log', upd (\<lambda>_. x) s)"
    and "length x = length (field s)"
proof -
  obtain ok x log' where r: "tls13_hkdf_expand_label grant log (field s) (sec_digest s) (secret s) label cx = (ok, x, log')"
    by (metis prod_cases3)
  with that [of ok log' x] length_expand_label [OF r] show thesis
    by (simp add: derive_into_def tls13_derive_secret_def)
qed

text \<open>A property of the state that every derivation keeps holds after a chain of them, finished or not.\<close>

lemma and_then_keeps:
  assumes "P (snd (snd r))" and "\<And>st. P (snd st) \<Longrightarrow> P (snd (snd (f st)))"
  shows "P (snd (snd (and_then r f)))"
  using assms by (cases "(r, f)" rule: and_then.cases) auto

lemma derive_into_keeps:
  assumes "P (snd st)" and "\<And>x. P (snd st) \<Longrightarrow> length x = length (field (snd st)) \<Longrightarrow> P (upd (\<lambda>_. x) (snd st))"
  shows "P (snd (snd (derive_into grant field upd secret label cx st)))"
proof -
  obtain log s where "st = (log, s)" by (cases st)
  then show ?thesis using assms by (cases rule: derive_into_cases [of grant field upd secret label cx log s]) auto
qed

text \<open>A sequence of key updates, \<open>True\<close> for the client's direction.\<close>

definition rfc_next_secret :: "(bytes \<Rightarrow> bytes \<Rightarrow> bytes) \<Rightarrow> nat \<Rightarrow> bytes \<Rightarrow> bytes" where
  "rfc_next_secret hmac N secret = rfc_expand_label hmac N secret ''traffic upd'' [] N"

fun traffic_updates :: "(nat \<Rightarrow> bool) \<Rightarrow> bool list \<Rightarrow> 'c schedule \<Rightarrow> bool \<times> 'c schedule" where
  "traffic_updates grant [] st = (True, st)"
| "traffic_updates grant (u # us) st =
     and_then ((if u then tls13_update_client_traffic_secret else tls13_update_server_traffic_secret) grant st)
       (traffic_updates grant us)"

context sized_digest
begin

lemma extract_length:
  assumes "HKDF_extract grant md secret (Some salt) = Some prk"
  shows "length prk = N"
proof (cases "grant (evp_ctx_size md)")
  case True
  then show ?thesis using assms hmac_correct [of grant salt secret] by (auto simp: HKDF_extract_def length_hmac_spec)
next
  case False
  then have "EVP_DigestInit_ex grant EVP_MD_CTX_init md = (False, \<lparr>mc_digest = Some md, mc_data = None\<rparr>)"
    by (simp add: EVP_DigestInit_ex_def EVP_MD_CTX_init_def same_md_def)
  then have "fst (HMAC_Init grant (HMAC_CTX_init HMAC_CTX_raw) (Some salt) (Some md)) = False"
    by (auto simp: HMAC_Init_def HMAC_Init_ex_def HMAC_CTX_init_def hmac_set_key_def hmac_reset_def hmac_pad_ctx_def Let_def
        split: prod.splits)
  then show ?thesis using assms by (auto simp: HKDF_extract_def HMAC_def split: prod.splits)
qed

definition sched_inv :: "'c tls13_secrets \<Rightarrow> bool" where
  "sched_inv s \<longleftrightarrow> secrets_typed md s \<and> stages_ordered s \<and> erased s"

lemma create_inv:
  assumes "tls13_secrets_create grant md resumption = Some s"
  shows "sched_inv (s\<lparr>sec_insecure := b\<rparr>)"
  using assms
  by (auto simp: tls13_secrets_create_def tls13_secret_init_def sched_inv_def schedule_inv_defs
      split: if_splits prod.splits bool.splits option.splits)

text \<open>A stage: a chain of derivations that keep what holds before it, and a last step.\<close>

lemma stage_inv:
  assumes "P (snd (snd r))" and "\<And>s. P s \<Longrightarrow> sched_inv s" and "\<And>st. P (snd st) \<Longrightarrow> sched_inv (snd (snd (f st)))"
  shows "sched_inv (snd (snd (and_then r f)))"
  using assms by (cases "(r, f)" rule: and_then.cases) auto

lemma sched_inv_lengths:
  assumes "sched_inv s"
  shows "length (sec_zeros s) = N"
    and "length (sec_binder_key s) = N"
    and "length (sec_client_early_traffic s) = N"
    and "length (sec_early_exporter_master s) = N"
    and "length (sec_client_handshake_traffic s) = N"
    and "length (sec_server_handshake_traffic s) = N"
    and "length (sec_client_application_traffic s) = N"
    and "length (sec_server_application_traffic s) = N"
    and "length (sec_exporter_master s) = N"
    and "length (sec_resumption_master s) = N"
    and "length (sec_extracted_early s) = N"
    and "length (sec_derived_early s) = N"
    and "length (sec_extracted_handshake s) = N"
    and "length (sec_derived_handshake s) = N"
    and "length (sec_extracted_master s) = N"
    and "sec_digest s = md" and "sec_init_done s"
  using assms by (simp_all add: sched_inv_def secrets_typed_def secrets_of_def)

lemma sched_inv_update:
  assumes "sched_inv s" and "length x = N"
  shows "sched_inv (s\<lparr>sec_binder_key := x\<rparr>)"
    and "sched_inv (s\<lparr>sec_client_early_traffic := x\<rparr>)"
    and "sched_inv (s\<lparr>sec_early_exporter_master := x\<rparr>)"
    and "sched_inv (s\<lparr>sec_client_handshake_traffic := x\<rparr>)"
    and "sched_inv (s\<lparr>sec_server_handshake_traffic := x\<rparr>)"
    and "sched_inv (s\<lparr>sec_client_application_traffic := x\<rparr>)"
    and "sched_inv (s\<lparr>sec_server_application_traffic := x\<rparr>)"
    and "sched_inv (s\<lparr>sec_exporter_master := x\<rparr>)"
    and "sched_inv (s\<lparr>sec_resumption_master := x\<rparr>)"
    and "\<not> sec_early_done s \<Longrightarrow> sched_inv (s\<lparr>sec_extracted_early := x\<rparr>)"
    and "\<not> sec_handshake_done s \<Longrightarrow> sched_inv (s\<lparr>sec_derived_early := x\<rparr>)"
    and "\<not> sec_handshake_done s \<Longrightarrow> sched_inv (s\<lparr>sec_extracted_handshake := x\<rparr>)"
    and "\<not> sec_schedule_done s \<Longrightarrow> sched_inv (s\<lparr>sec_derived_handshake := x\<rparr>)"
    and "\<not> sec_schedule_done s \<Longrightarrow> sched_inv (s\<lparr>sec_extracted_master := x\<rparr>)"
  using assms by (simp_all add: sched_inv_def schedule_inv_defs) blast

lemma sched_inv_stage:
  assumes "sched_inv s"
  defines "z \<equiv> replicate N 0"
  shows "sec_insecure s \<or> sec_extracted_early s = z \<Longrightarrow> sched_inv (s\<lparr>sec_early_done := True\<rparr>)"
    and "sec_early_done s \<Longrightarrow> sec_insecure s \<or> sec_derived_early s = z \<and> sec_extracted_handshake s = z
      \<Longrightarrow> sched_inv (s\<lparr>sec_handshake_done := True\<rparr>)"
    and "sec_handshake_done s \<Longrightarrow> sec_insecure s \<or> sec_derived_handshake s = z \<and> sec_extracted_master s = z
      \<Longrightarrow> sched_inv (s\<lparr>sec_schedule_done := True\<rparr>)"
  using assms by (auto simp: sched_inv_def schedule_inv_defs)

lemma sched_inv_ordered:
  assumes "sched_inv s"
  shows "\<not> sec_early_done s \<Longrightarrow> \<not> sec_handshake_done s" and "\<not> sec_handshake_done s \<Longrightarrow> \<not> sec_schedule_done s"
  using assms by (auto simp: sched_inv_def stages_ordered_def)

lemmas sched_inv_facts = sched_inv_lengths sched_inv_update sched_inv_stage sched_inv_ordered

lemma early_inv: "sched_inv (snd st) \<Longrightarrow> sched_inv (snd (snd (tls13_derive_early_secrets grant st psk cx)))"
proof -
  assume inv: "sched_inv (snd st)"
  obtain log s where st: "st = (log, s)" by (cases st)
  let ?P = "\<lambda>s. sched_inv s \<and> \<not> sec_early_done s"
  have md: "sec_digest s = md" "sec_init_done s" using inv st by (simp_all add: sched_inv_facts)
  show ?thesis
  proof (cases "\<not> sec_early_done s \<and> HKDF_extract grant md psk (Some (sec_zeros s)) \<noteq> None")
    case True
    then obtain prk where prk: "HKDF_extract grant md psk (Some (sec_zeros s)) = Some prk" by blast
    define s1 where "s1 = s\<lparr>sec_extracted_early := prk\<rparr>"
    have s1: "?P s1" and len: "length prk = length (sec_zeros s1)"
      using extract_length [OF prk] True inv st by (auto simp: s1_def sched_inv_facts)
    have flags: "\<not> sec_early_done s"
      using True by simp_all
    show ?thesis
      unfolding tls13_derive_early_secrets_def st prod.case md(1) prk option.case s1_def [symmetric] Let_def
      by (simp only: md(2) flags len simp_thms if_False,
          intro stage_inv [where P = ?P] and_then_keeps [where P = ?P] derive_into_keeps [where P = ?P])
        (use s1 in \<open>auto simp: sched_inv_facts\<close>)
  next
    case False
    then show ?thesis using inv st md by (auto simp: tls13_derive_early_secrets_def split: option.splits)
  qed
qed

lemma handshake_inv: "sched_inv (snd st) \<Longrightarrow> sched_inv (snd (snd (tls13_derive_handshake_secrets grant st ecdhe cx)))"
proof -
  assume inv: "sched_inv (snd st)"
  obtain log s where st: "st = (log, s)" by (cases st)
  let ?P = "\<lambda>s. sched_inv s \<and> sec_early_done s \<and> \<not> sec_handshake_done s \<and> (sec_insecure s \<or> sec_derived_early s = replicate N 0)"
  have md: "sec_digest s = md" "sec_init_done s" using inv st by (simp_all add: sched_inv_facts)
  show ?thesis
  proof (cases "sec_early_done s \<and> \<not> sec_handshake_done s \<and> HKDF_extract grant md ecdhe (Some (sec_derived_early s)) \<noteq> None")
    case True
    then obtain prk where prk: "HKDF_extract grant md ecdhe (Some (sec_derived_early s)) = Some prk" by blast
    define s1 where "s1 = s\<lparr>sec_extracted_handshake := prk\<rparr>"
    have s1: "sched_inv s1" "sec_early_done s1 \<and> \<not> sec_handshake_done s1" and len: "length prk = length (sec_zeros s1)"
      using extract_length [OF prk] True inv st by (auto simp: s1_def sched_inv_facts)
    have flags: "sec_early_done s" "\<not> sec_handshake_done s"
      using True by simp_all
    define s2 where "s2 = (if sec_insecure s1 then s1 else s1\<lparr>sec_derived_early := replicate (length (sec_derived_early s1)) 0\<rparr>)"
    have s2: "?P s2" and zeros: "sec_zeros s1 = sec_zeros s2" using s1 by (auto simp: s2_def sched_inv_facts)
    show ?thesis
      unfolding tls13_derive_handshake_secrets_def st prod.case md(1) prk option.case s1_def [symmetric] Let_def s2_def [symmetric]
      by (simp only: md(2) flags len simp_thms if_False,
          intro stage_inv [where P = ?P] and_then_keeps [where P = ?P] derive_into_keeps [where P = ?P])
        (use s2 in \<open>auto simp: sched_inv_facts\<close>)
  next
    case False
    then show ?thesis using inv st md by (auto simp: tls13_derive_handshake_secrets_def split: option.splits)
  qed
qed

lemma application_inv: "sched_inv (snd st) \<Longrightarrow> sched_inv (snd (snd (tls13_derive_application_secrets grant st cx)))"
proof -
  assume inv: "sched_inv (snd st)"
  obtain log s where st: "st = (log, s)" by (cases st)
  let ?P = "\<lambda>s. sched_inv s \<and> sec_early_done s \<and> sec_handshake_done s \<and> \<not> sec_schedule_done s \<and> (sec_insecure s \<or> sec_derived_handshake s = replicate N 0)"
  have md: "sec_digest s = md" "sec_init_done s" using inv st by (simp_all add: sched_inv_facts)
  show ?thesis
  proof (cases "sec_early_done s \<and> sec_handshake_done s \<and> \<not> sec_schedule_done s \<and> HKDF_extract grant md (sec_zeros s) (Some (sec_derived_handshake s)) \<noteq> None")
    case True
    then obtain prk where prk: "HKDF_extract grant md (sec_zeros s) (Some (sec_derived_handshake s)) = Some prk" by blast
    define s1 where "s1 = s\<lparr>sec_extracted_master := prk\<rparr>"
    have s1: "sched_inv s1" "sec_early_done s1 \<and> sec_handshake_done s1 \<and> \<not> sec_schedule_done s1" and len: "length prk = length (sec_zeros s1)"
      using extract_length [OF prk] True inv st by (auto simp: s1_def sched_inv_facts)
    have flags: "sec_early_done s" "sec_handshake_done s" "\<not> sec_schedule_done s"
      using True by simp_all
    define s2 where "s2 = (if sec_insecure s1 then s1 else s1\<lparr>sec_derived_handshake := replicate (length (sec_derived_handshake s1)) 0\<rparr>)"
    have s2: "?P s2" and zeros: "sec_zeros s1 = sec_zeros s2" using s1 by (auto simp: s2_def sched_inv_facts)
    show ?thesis
      unfolding tls13_derive_application_secrets_def st prod.case md(1) prk option.case s1_def [symmetric] Let_def s2_def [symmetric]
      by (simp only: md(2) flags len simp_thms if_False,
          intro stage_inv [where P = ?P] and_then_keeps [where P = ?P] derive_into_keeps [where P = ?P])
        (use s2 in \<open>auto simp: sched_inv_facts\<close>)
  next
    case False
    then show ?thesis using inv st md by (auto simp: tls13_derive_application_secrets_def split: option.splits)
  qed
qed

lemma update_inv:
  assumes "sched_inv (snd st)"
  shows "sched_inv (snd (snd (tls13_update_client_traffic_secret grant st)))"
    and "sched_inv (snd (snd (tls13_update_server_traffic_secret grant st)))"
  using assms
  by (auto simp: tls13_update_client_traffic_secret_def tls13_update_server_traffic_secret_def sched_inv_facts
      dest!: length_expand_label split: prod.splits)

lemma reach_inv: "schedule_reach md st \<Longrightarrow> sched_inv (snd st)"
  by (induction rule: schedule_reach.induct) (simp_all add: create_inv early_inv handshake_inv application_inv update_inv)

lemma traffic_updates_correct:
  assumes "\<forall>n. grant n" "sized s" "sec_early_done s" "sec_handshake_done s" "sec_schedule_done s"
  shows "\<exists>log'. traffic_updates grant us (log, s) = (True, log',
    s\<lparr>sec_client_application_traffic := (rfc_next_secret hm N ^^ count_list us True) (sec_client_application_traffic s),
      sec_server_application_traffic := (rfc_next_secret hm N ^^ count_list us False) (sec_server_application_traffic s)\<rparr>)"
  using assms
proof (induction us arbitrary: log s)
  case (Cons u us)
  define s' where "s' = (if u then s\<lparr>sec_client_application_traffic := rfc_next_secret hm N (sec_client_application_traffic s)\<rparr>
    else s\<lparr>sec_server_application_traffic := rfc_next_secret hm N (sec_server_application_traffic s)\<rparr>)"
  have step: "(if u then tls13_update_client_traffic_secret else tls13_update_server_traffic_secret) grant (log, s)
    = (True, log @ [(CLAIM_TRANSCRIPT_UNKNOWN, [])], s')"
    using Cons.prems by (simp add: s'_def update_client_correct update_server_correct rfc_next_secret_def rfc_derive_secret_def)
  have "sized s'" "sec_early_done s'" "sec_handshake_done s'" "sec_schedule_done s'"
    using Cons.prems using length_rfc_derive_secret by (auto simp: s'_def sized_def rfc_next_secret_def rfc_derive_secret_def)
  from Cons.IH [OF Cons.prems(1) this] step show ?case
    by (cases u) (simp_all add: s'_def funpow_swap1)
qed simp

end

section \<open>Properties\<close>

text \<open>C4. The key schedule with SHA-256 computes the secrets of RFC 8446, section 7.1. Given memory, a set of secrets
  created and taken through its three stages holds the binder key, the early, handshake and application
  traffic secrets and the exporter masters that the RFC derives from the pre-shared key, the ECDHE secret
  and the transcript hashes; the intermediate secrets are erased. The resumption master secret is derived
  from the hash up to the server's Finished, where the RFC has that up to the client's, and is reported
  to the claim callback as if it were.\<close>

theorem key_schedule_sha256_is_rfc8446:
  fixes psk ecdhe :: bytes
  assumes "\<forall>n. grant n" and "length c1 \<le> 255" "length c2 \<le> 255" "length c3 \<le> 255"
  defines "hmac \<equiv> hmac_spec fips_sha256 64" and "z \<equiv> replicate 32 (0 :: u8)" and "e \<equiv> fips_sha256 []"
  defines "derive \<equiv> rfc_derive_secret hmac 32" and "es \<equiv> rfc_early_secret hmac 32 psk"
    and "hs \<equiv> rfc_handshake_secret fips_sha256 hmac 32 psk ecdhe" and "ms \<equiv> rfc_master_secret fips_sha256 hmac 32 psk ecdhe"
  shows "key_schedule grant sha256_md resumption psk c1 ecdhe c2 c3 = Some
    (schedule_claims e c1 c2 c3,
     \<lparr>sec_digest = sha256_md, sec_resumption = resumption, sec_init_done = True, sec_early_done = True,
       sec_handshake_done = True, sec_schedule_done = True, sec_insecure = False,
       sec_zeros = z, sec_empty_hash = e, sec_extracted_early = z,
       sec_binder_key = derive es (if resumption then ''res binder'' else ''ext binder'') e,
       sec_client_early_traffic = derive es ''c e traffic'' c1,
       sec_early_exporter_master = derive es ''e exp master'' c1,
       sec_derived_early = z, sec_extracted_handshake = z,
       sec_client_handshake_traffic = derive hs ''c hs traffic'' c2,
       sec_server_handshake_traffic = derive hs ''s hs traffic'' c2,
       sec_derived_handshake = z, sec_extracted_master = z,
       sec_client_application_traffic = derive ms ''c ap traffic'' c3,
       sec_server_application_traffic = derive ms ''s ap traffic'' c3,
       sec_exporter_master = derive ms ''exp master'' c3,
       sec_resumption_master = derive ms ''res master'' c3\<rparr>)"
  using sha256_sized.key_schedule_correct [of grant c1 c2 c3 resumption psk ecdhe] assms by (simp add: sha256_md_sizes)

theorem key_schedule_sha256_is_rfc8446_witness:
  "\<exists>log s. key_schedule (\<lambda>n. True) sha256_md False (replicate 32 0) [1] [2] [3] [4] = Some (log, s)
    \<and> sec_client_handshake_traffic s
      = rfc_derive_secret (hmac_spec fips_sha256 64) 32
          (rfc_handshake_secret fips_sha256 (hmac_spec fips_sha256 64) 32 (replicate 32 0) [2]) ''c hs traffic'' [3]"
  by (subst key_schedule_sha256_is_rfc8446) simp_all

text \<open>C36. Whatever operations are called in whatever order on a set of secrets for SHA-256, and whichever of them fail, the
  stages are finished only in order, every secret keeps the length of the digest, and, unless the set is marked
  insecure, each finished stage leaves zeros where the extracted and derived secrets were.\<close>

theorem schedule_reach_inv:
  assumes "schedule_reach sha256_md (log, s)"
  shows "secrets_typed sha256_md s \<and> stages_ordered s \<and> erased s"
  using sha256_sized.reach_inv [OF assms] by (simp add: sha256_sized.sched_inv_def)

theorem schedule_reach_inv_witness:
  "let s = the (tls13_secrets_create (\<lambda>n. True) sha256_md False)\<lparr>sec_insecure := False\<rparr> in
   let st = snd (tls13_derive_handshake_secrets (\<lambda>n. True) ([], s) [2] [3]) in stages_ordered (snd st) \<and> erased (snd st)"
proof -
  let ?s = "the (tls13_secrets_create (\<lambda>n. True) sha256_md False)\<lparr>sec_insecure := False\<rparr>"
  have "schedule_reach sha256_md ([], ?s)"
    by (rule schedule_reach.create [of "\<lambda>n. True" _ False]) (simp add: sha256_sized.create_correct)
  from schedule_reach.handshake [OF this, of "\<lambda>n. True" "[2]" "[3]"] show ?thesis
    using schedule_reach_inv by (metis prod.collapse)
qed

text \<open>C37. Key updates follow RFC 8446, section 7.2: after any sequence of updates of the two directions on a finished
  SHA-256 schedule, each application traffic secret is its first value put through the \<open>traffic upd\<close> expansion once per
  update of its direction, and no other secret has changed.\<close>

theorem traffic_updates_are_rfc8446:
  assumes "\<forall>n. grant n" "length c1 \<le> 255" "length c2 \<le> 255" "length c3 \<le> 255"
    and "key_schedule grant sha256_md resumption psk c1 ecdhe c2 c3 = Some (log, s)"
  defines "step \<equiv> rfc_next_secret (hmac_spec fips_sha256 64) 32"
  shows "\<exists>log'. traffic_updates grant us (log, s) = (True, log',
    s\<lparr>sec_client_application_traffic := (step ^^ count_list us True) (sec_client_application_traffic s),
      sec_server_application_traffic := (step ^^ count_list us False) (sec_server_application_traffic s)\<rparr>)"
proof -
  have "sha256_sized.sized s \<and> sec_early_done s \<and> sec_handshake_done s \<and> sec_schedule_done s"
    using assms(5) sha256_sized.key_schedule_correct [OF assms(1-4), of resumption psk ecdhe]
    by (auto simp: sha256_sized.sized_def)
  then show ?thesis
    using sha256_sized.traffic_updates_correct [OF assms(1), of s us log] by (simp add: step_def sha256_md_sizes)
qed

theorem traffic_updates_are_rfc8446_witness:
  "\<exists>log s log' s'. key_schedule (\<lambda>n. True) sha256_md False [] [1] [2] [3] [4] = Some (log, s)
    \<and> traffic_updates (\<lambda>n. True) [True, False, True] (log, s) = (True, log', s')
    \<and> sec_client_application_traffic s' = (rfc_next_secret (hmac_spec fips_sha256 64) 32 ^^ 2) (sec_client_application_traffic s)"
proof -
  obtain log s where s: "key_schedule (\<lambda>n. True) sha256_md False [] [1] [2] [3] [4] = Some (log, s)"
    using sha256_sized.key_schedule_correct [of "\<lambda>n. True" "[1]" "[3]" "[4]" False "[]" "[2]"] by simp
  from traffic_updates_are_rfc8446 [OF _ _ _ _ s, of "[True, False, True]"] obtain log' where
    u: "traffic_updates (\<lambda>n. True) [True, False, True] (log, s) = (True, log',
    s\<lparr>sec_client_application_traffic := (rfc_next_secret (hmac_spec fips_sha256 64) 32 ^^ count_list [True, False, True] True) (sec_client_application_traffic s),
      sec_server_application_traffic := (rfc_next_secret (hmac_spec fips_sha256 64) 32 ^^ count_list [True, False, True] False) (sec_server_application_traffic s)\<rparr>)"
    by auto
  have two: "count_list [True, False, True] True = 2" by simp
  show ?thesis
    by (intro exI conjI, rule s, rule u) (simp add: two del: count_list.simps funpow.simps)
qed

end
