(* ===== verification/Poly1305.thy ===== *)
theory Poly1305
  imports Sha256
begin

unbundle bit_operations_syntax

text \<open>
  The Poly1305 authenticator, \<^verbatim>\<open>crypto/poly1305/poly1305-donna.c\<close> and \<^verbatim>\<open>crypto/poly1305/poly1305.c\<close>, and its
  agreement with RFC 8439: the accumulator and the key are kept in five limbs of 26 bits in machine words, reduced
  lazily modulo \<open>2 ^ 130 - 5\<close>. \<open>unsigned long\<close> is taken to have 64 bits.
\<close>

section \<open>The code\<close>

record poly1305_state =
  ps_r :: "u64 list"
  ps_h :: "u64 list"
  ps_pad :: "u64 list"
  ps_leftover :: nat
  ps_buffer :: bytes
  ps_final :: bool

definition U8TO32 :: "bytes \<Rightarrow> u64" where
  "U8TO32 p = ucast (p ! 0) OR push_bit 8 (ucast (p ! 1)) OR push_bit 16 (ucast (p ! 2)) OR push_bit 24 (ucast (p ! 3))"

definition U32TO8 :: "u64 \<Rightarrow> bytes" where
  "U32TO8 v = [ucast (v AND 0xff), ucast (drop_bit 8 v AND 0xff), ucast (drop_bit 16 v AND 0xff), ucast (drop_bit 24 v AND 0xff)]"

definition poly1305_init :: "poly1305_state \<Rightarrow> bytes \<Rightarrow> poly1305_state" where
  "poly1305_init st key =
     st\<lparr>ps_r := [U8TO32 key AND 0x3ffffff, drop_bit 2 (U8TO32 (drop 3 key)) AND 0x3ffff03,
          drop_bit 4 (U8TO32 (drop 6 key)) AND 0x3ffc0ff, drop_bit 6 (U8TO32 (drop 9 key)) AND 0x3f03fff,
          drop_bit 8 (U8TO32 (drop 12 key)) AND 0x00fffff],
        ps_h := [0, 0, 0, 0, 0],
        ps_pad := [U8TO32 (drop 16 key), U8TO32 (drop 20 key), U8TO32 (drop 24 key), U8TO32 (drop 28 key)],
        ps_leftover := 0, ps_final := False\<rparr>"

text \<open>The body of the loop of \<open>poly1305_blocks\<close>.\<close>

definition poly1305_block :: "u64 \<Rightarrow> u64 list \<Rightarrow> u64 list \<Rightarrow> bytes \<Rightarrow> u64 list" where
  "poly1305_block hibit r h m =
     (let r0 = r ! 0; r1 = r ! 1; r2 = r ! 2; r3 = r ! 3; r4 = r ! 4;
          s1 = r1 * 5; s2 = r2 * 5; s3 = r3 * 5; s4 = r4 * 5;
          h0 = h ! 0 + (U8TO32 m AND 0x3ffffff);
          h1 = h ! 1 + (drop_bit 2 (U8TO32 (drop 3 m)) AND 0x3ffffff);
          h2 = h ! 2 + (drop_bit 4 (U8TO32 (drop 6 m)) AND 0x3ffffff);
          h3 = h ! 3 + (drop_bit 6 (U8TO32 (drop 9 m)) AND 0x3ffffff);
          h4 = h ! 4 + (drop_bit 8 (U8TO32 (drop 12 m)) OR hibit);
          d0 = h0 * r0 + h1 * s4 + h2 * s3 + h3 * s2 + h4 * s1;
          d1 = h0 * r1 + h1 * r0 + h2 * s4 + h3 * s3 + h4 * s2;
          d2 = h0 * r2 + h1 * r1 + h2 * r0 + h3 * s4 + h4 * s3;
          d3 = h0 * r3 + h1 * r2 + h2 * r1 + h3 * r0 + h4 * s4;
          d4 = h0 * r4 + h1 * r3 + h2 * r2 + h3 * r1 + h4 * r0;
          c = drop_bit 26 d0; h0 = d0 AND 0x3ffffff; d1 = d1 + c;
          c = drop_bit 26 d1; h1 = d1 AND 0x3ffffff; d2 = d2 + c;
          c = drop_bit 26 d2; h2 = d2 AND 0x3ffffff; d3 = d3 + c;
          c = drop_bit 26 d3; h3 = d3 AND 0x3ffffff; d4 = d4 + c;
          c = drop_bit 26 d4; h4 = d4 AND 0x3ffffff; h0 = h0 + c * 5;
          c = drop_bit 26 h0; h0 = h0 AND 0x3ffffff; h1 = h1 + c
      in [h0, h1, h2, h3, h4])"

function poly1305_loop :: "u64 \<Rightarrow> u64 list \<Rightarrow> u64 list \<Rightarrow> bytes \<Rightarrow> nat \<Rightarrow> u64 list" where
  "poly1305_loop hibit r h m n =
     (if 16 \<le> n then poly1305_loop hibit r (poly1305_block hibit r h m) (drop 16 m) (n - 16) else h)"
  by pat_completeness auto
termination by (relation "measure (\<lambda>(hibit, r, h, m, n). n)") auto

declare poly1305_loop.simps [simp del]

definition poly1305_blocks :: "poly1305_state \<Rightarrow> bytes \<Rightarrow> nat \<Rightarrow> poly1305_state" where
  "poly1305_blocks st m n =
     st\<lparr>ps_h := poly1305_loop (if ps_final st then 0 else push_bit 24 1) (ps_r st) (ps_h st) m n\<rparr>"

text \<open>The rest of \<open>poly1305_update\<close>, after the leftover bytes of earlier calls have been dealt with.\<close>

definition poly1305_update_rest :: "poly1305_state \<Rightarrow> bytes \<Rightarrow> poly1305_state" where
  "poly1305_update_rest st m =
     (let want = (if 16 \<le> length m then length m div 16 * 16 else 0);
          st = (if 16 \<le> length m then poly1305_blocks st m want else st);
          m = drop want m
      in if m \<noteq> [] then st\<lparr>ps_buffer := mem_write (ps_buffer st) (ps_leftover st) m, ps_leftover := ps_leftover st + length m\<rparr>
         else st)"

definition poly1305_update :: "poly1305_state \<Rightarrow> bytes \<Rightarrow> poly1305_state" where
  "poly1305_update st m =
     (if ps_leftover st \<noteq> 0 then
        let want = min (16 - ps_leftover st) (length m);
            st = st\<lparr>ps_buffer := mem_write (ps_buffer st) (ps_leftover st) (take want m), ps_leftover := ps_leftover st + want\<rparr>
        in if ps_leftover st < 16 then st
           else poly1305_update_rest ((poly1305_blocks st (ps_buffer st) 16)\<lparr>ps_leftover := 0\<rparr>) (drop want m)
      else poly1305_update_rest st m)"

definition poly1305_last :: "poly1305_state \<Rightarrow> poly1305_state" where
  "poly1305_last st =
     (if ps_leftover st \<noteq> 0 then
        let i = ps_leftover st;
            st = st\<lparr>ps_buffer := mem_write (ps_buffer st) i (1 # replicate (16 - (i + 1)) 0), ps_final := True\<rparr>
        in poly1305_blocks st (ps_buffer st) 16
      else st)"

text \<open>The parts of \<open>poly1305_finish\<close> after the last block: the carries, the reduction modulo \<open>p\<close>, and the
  addition of the pad.\<close>

definition poly1305_carry :: "u64 list \<Rightarrow> u64 list" where
  "poly1305_carry h =
     (let h0 = h ! 0; h1 = h ! 1; h2 = h ! 2; h3 = h ! 3; h4 = h ! 4;
          c = drop_bit 26 h1; h1 = h1 AND 0x3ffffff; h2 = h2 + c;
          c = drop_bit 26 h2; h2 = h2 AND 0x3ffffff; h3 = h3 + c;
          c = drop_bit 26 h3; h3 = h3 AND 0x3ffffff; h4 = h4 + c;
          c = drop_bit 26 h4; h4 = h4 AND 0x3ffffff; h0 = h0 + c * 5;
          c = drop_bit 26 h0; h0 = h0 AND 0x3ffffff; h1 = h1 + c
      in [h0, h1, h2, h3, h4])"

definition poly1305_reduce :: "u64 list \<Rightarrow> u64 list" where
  "poly1305_reduce h =
     (let h0 = h ! 0; h1 = h ! 1; h2 = h ! 2; h3 = h ! 3; h4 = h ! 4;
          g0 = h0 + 5; c = drop_bit 26 g0; g0 = g0 AND 0x3ffffff;
          g1 = h1 + c; c = drop_bit 26 g1; g1 = g1 AND 0x3ffffff;
          g2 = h2 + c; c = drop_bit 26 g2; g2 = g2 AND 0x3ffffff;
          g3 = h3 + c; c = drop_bit 26 g3; g3 = g3 AND 0x3ffffff;
          g4 = h4 + c - push_bit 26 1;
          mask = drop_bit 63 g4 - 1;
          g0 = g0 AND mask; g1 = g1 AND mask; g2 = g2 AND mask; g3 = g3 AND mask; g4 = g4 AND mask;
          mask = NOT mask
      in [(h0 AND mask) OR g0, (h1 AND mask) OR g1, (h2 AND mask) OR g2, (h3 AND mask) OR g3, (h4 AND mask) OR g4])"

definition poly1305_tag :: "u64 list \<Rightarrow> u64 list \<Rightarrow> bytes" where
  "poly1305_tag h pad =
     (let h0 = h ! 0; h1 = h ! 1; h2 = h ! 2; h3 = h ! 3; h4 = h ! 4;
          h0 = (h0 OR push_bit 26 h1) AND 0xffffffff;
          h1 = (drop_bit 6 h1 OR push_bit 20 h2) AND 0xffffffff;
          h2 = (drop_bit 12 h2 OR push_bit 14 h3) AND 0xffffffff;
          h3 = (drop_bit 18 h3 OR push_bit 8 h4) AND 0xffffffff;
          f = h0 + pad ! 0; h0 = f;
          f = h1 + pad ! 1 + drop_bit 32 f; h1 = f;
          f = h2 + pad ! 2 + drop_bit 32 f; h2 = f;
          f = h3 + pad ! 3 + drop_bit 32 f; h3 = f
      in U32TO8 h0 @ U32TO8 h1 @ U32TO8 h2 @ U32TO8 h3)"

definition poly1305_finish :: "poly1305_state \<Rightarrow> bytes \<times> poly1305_state" where
  "poly1305_finish st =
     (let st = poly1305_last st;
          mac = poly1305_tag (poly1305_reduce (poly1305_carry (ps_h st))) (ps_pad st)
      in (mac, st\<lparr>ps_h := [0, 0, 0, 0, 0], ps_r := [0, 0, 0, 0, 0], ps_pad := [0, 0, 0, 0]\<rparr>))"

definition CRYPTO_poly1305_init :: "poly1305_state \<Rightarrow> bytes \<Rightarrow> poly1305_state" where
  "CRYPTO_poly1305_init ctx key = poly1305_init ctx key"

definition CRYPTO_poly1305_update :: "poly1305_state \<Rightarrow> bytes \<Rightarrow> poly1305_state" where
  "CRYPTO_poly1305_update ctx m = poly1305_update ctx m"

definition CRYPTO_poly1305_finish :: "poly1305_state \<Rightarrow> bytes \<times> poly1305_state" where
  "CRYPTO_poly1305_finish ctx = poly1305_finish ctx"

text \<open>A context before its initialisation.\<close>

definition poly1305_raw :: poly1305_state where
  "poly1305_raw = \<lparr>ps_r = [], ps_h = [], ps_pad = [], ps_leftover = 0, ps_buffer = replicate 16 0, ps_final = False\<rparr>"

section \<open>RFC 8439\<close>

abbreviation le_val :: "bytes \<Rightarrow> nat" where "le_val bs \<equiv> be_val (rev bs)"
abbreviation le_bytes :: "nat \<Rightarrow> nat \<Rightarrow> bytes" where "le_bytes n v \<equiv> rev (be_bytes n v)"

definition poly_p :: nat where
  "poly_p = 2 ^ 130 - 5"

definition rfc_clamp :: "nat \<Rightarrow> nat" where
  "rfc_clamp r = r AND 0x0ffffffc0ffffffc0ffffffc0fffffff"

function rfc_poly :: "nat \<Rightarrow> nat \<Rightarrow> bytes \<Rightarrow> nat" where
  "rfc_poly r a m =
     (if m = [] then a else rfc_poly r ((a + le_val (take 16 m @ [1])) * r mod poly_p) (drop 16 m))"
  by pat_completeness auto
termination by (relation "measure (\<lambda>(r, a, m). length m)") auto

declare rfc_poly.simps [simp del]

definition rfc_poly1305 :: "bytes \<Rightarrow> bytes \<Rightarrow> bytes" where
  "rfc_poly1305 key m =
     le_bytes 16 ((rfc_poly (rfc_clamp (le_val (take 16 key))) 0 m + le_val (take 16 (drop 16 key))) mod 2 ^ 128)"

end
