(* ===== verification/Poly1305_Limbs.thy ===== *)
theory Poly1305_Limbs
  imports Poly1305
begin

unbundle bit_operations_syntax

text \<open>
  Arithmetic of the five limbs: what the machine operations of \<open>poly1305_block\<close> and \<open>poly1305_finish\<close> do to the
  number the limbs stand for, and that none of them overflows.
\<close>

section \<open>Words as numbers\<close>

lemma unat_add_u64: "unat a + unat b < 2 ^ 64 \<Longrightarrow> unat (a + b) = unat a + unat b" for a b :: u64
  by (simp add: unat_word_ariths)

lemma unat_mult_u64: "unat a * unat b < 2 ^ 64 \<Longrightarrow> unat (a * b) = unat a * unat b" for a b :: u64
  by (simp add: unat_word_ariths)

lemma unat_drop_bit_div: "unat (drop_bit n a) = unat a div 2 ^ n" for a :: u64
  by (subst unat_drop_bit_eq) (rule drop_bit_eq_div)

lemma unat_and_mask: "unat (a AND mask n) = unat a mod 2 ^ n" for a :: u64
  unfolding take_bit_eq_mask [symmetric] unsigned_take_bit_eq by (rule take_bit_eq_mod)

lemma mask_literals: "(0x3ffffff :: u64) = mask 26" "(0xffffffff :: u64) = mask 32" "(0xff :: u64) = mask 8"
  by (simp_all add: mask_eq_exp_minus_1)

lemmas unat_masked = unat_and_mask [of _ 26, folded mask_literals] unat_and_mask [of _ 32, folded mask_literals]
  unat_and_mask [of _ 8, folded mask_literals]

lemma unat_push_bit_u64:
  fixes a :: u64
  assumes "unat a * 2 ^ n < 2 ^ 64"
  shows "unat (push_bit n a) = unat a * 2 ^ n"
proof -
  have "unat (push_bit n a) = take_bit 64 (push_bit n (unat a))" by (subst unsigned_push_bit_eq) simp
  also have "\<dots> = unat a * 2 ^ n mod 2 ^ 64" by (simp only: take_bit_eq_mod push_bit_eq_mult)
  finally show ?thesis using assms by simp
qed

lemma unat_or_disjoint: "a AND b = 0 \<Longrightarrow> unat a + unat b < 2 ^ 64 \<Longrightarrow> unat (a OR b) = unat a + unat b" for a b :: u64
  by (metis disjunctive_add_eq_or unat_add_u64)

lemma and_push_bit_0:
  fixes a b :: u64
  assumes "unat a < 2 ^ n"
  shows "a AND push_bit n b = 0"
proof (rule bit_word_eqI)
  fix k
  have "drop_bit n a = 0" using assms by (simp add: drop_bit_eq_0_iff_unat)
  then have "\<not> bit (drop_bit n a) (k - n)" by simp
  then have "n \<le> k \<Longrightarrow> \<not> bit a k" by (simp add: bit_drop_bit_eq)
  then show "bit (a AND push_bit n b) k = bit 0 k" by (auto simp: bit_simps)
qed

lemma U8TO32_eq:
  assumes "4 \<le> length p"
  shows "unat (U8TO32 p) = le_val (take 4 p)"
proof -
  obtain a b c d q where p: "p = a # b # c # d # q"
    using assms by (auto simp: numeral_eq_Suc Suc_le_length_iff)
  have "foldl shift_in 0 [d, c, b, a] = (word_of_nat (be_val [d, c, b, a]) :: u64)"
    by (rule foldl_shift_in_0) simp_all
  moreover have "foldl shift_in 0 [d, c, b, a] = U8TO32 p"
    by (simp add: p U8TO32_def shift_in_def numeral_eq_Suc push_bit_or or.assoc or.commute or.left_commute)
  moreover have "be_val [d, c, b, a] < 256 ^ 4" using be_val_less [of "[d, c, b, a]"] by simp
  then have "unat (word_of_nat (be_val [d, c, b, a]) :: u64) = be_val [d, c, b, a]" by (intro unat_word_of_nat_u64) simp
  ultimately have "unat (U8TO32 p) = be_val [d, c, b, a]" by metis
  then show ?thesis by (simp add: p)
qed

lemma le_val_append: "le_val (a @ b) = le_val a + 256 ^ length a * le_val b"
  by (simp add: be_val_append)

lemma le_val_split: "i \<le> length p \<Longrightarrow> le_val p = le_val (take i p) + 256 ^ i * le_val (drop i p)"
  using le_val_append [of "take i p" "drop i p"] by (simp only: append_take_drop_id length_take min.absorb2)

lemma U8TO32_drop:
  assumes "i + 4 \<le> length p"
  shows "unat (U8TO32 (drop i p)) = le_val p div 256 ^ i mod 2 ^ 32"
proof -
  have "le_val p = le_val (take i p) + 256 ^ i * le_val (drop i p)"
    using le_val_split [of i p] assms by simp
  moreover have "le_val (take i p) < 256 ^ i" using be_val_less [of "rev (take i p)"] assms by simp
  ultimately have "le_val p div 256 ^ i = le_val (drop i p)" by simp
  moreover have "le_val (drop i p) = le_val (take 4 (drop i p)) + 256 ^ 4 * le_val (drop 4 (drop i p))"
    using le_val_split [of 4 "drop i p"] assms by simp
  moreover have "le_val (take 4 (drop i p)) < 256 ^ 4" using be_val_less [of "rev (take 4 (drop i p))"] assms by simp
  ultimately show ?thesis using U8TO32_eq [of "drop i p"] assms by simp
qed

section \<open>Limbs\<close>

definition limbs :: "u64 list \<Rightarrow> nat" where
  "limbs h = unat (h ! 0) + 2 ^ 26 * unat (h ! 1) + 2 ^ 52 * unat (h ! 2) + 2 ^ 78 * unat (h ! 3) + 2 ^ 104 * unat (h ! 4)"

lemma horner4:
  fixes n :: nat
  assumes "n = 2 ^ 26 * a + n0" "a = 2 ^ 26 * b + a0" "b = 2 ^ 26 * c + b0" "c = 2 ^ 26 * d + c0"
  shows "n0 + 2 ^ 26 * a0 + 2 ^ 52 * b0 + 2 ^ 78 * c0 + 2 ^ 104 * d = n"
  unfolding assms by (simp add: algebra_simps)

lemma split_limbs:
  "n mod 2 ^ 26 + 2 ^ 26 * (n div 2 ^ 26 mod 2 ^ 26) + 2 ^ 52 * (n div 2 ^ 52 mod 2 ^ 26)
    + 2 ^ 78 * (n div 2 ^ 78 mod 2 ^ 26) + 2 ^ 104 * (n div 2 ^ 104) = (n :: nat)"
proof -
  define a b c d where "a = n div 2 ^ 26" and "b = a div 2 ^ 26" and "c = b div 2 ^ 26" and "d = c div 2 ^ 26"
  have e: "n div 2 ^ 52 = b" "n div 2 ^ 78 = c" "n div 2 ^ 104 = d"
    by (simp_all add: a_def b_def c_def d_def div_mult2_eq [symmetric])
  have "n = 2 ^ 26 * a + n mod 2 ^ 26" "a = 2 ^ 26 * b + a mod 2 ^ 26" "b = 2 ^ 26 * c + b mod 2 ^ 26" "c = 2 ^ 26 * d + c mod 2 ^ 26"
    by (simp_all add: a_def b_def c_def d_def)
  then show ?thesis unfolding a_def [symmetric] e by (rule horner4)
qed

text \<open>The limbs of a block of sixteen bytes.\<close>

lemma block_limbs:
  fixes m :: bytes
  assumes "length m = 16"
  defines "n \<equiv> le_val m"
  shows "unat (U8TO32 m AND 0x3ffffff) = n mod 2 ^ 26"
    and "unat (drop_bit 2 (U8TO32 (drop 3 m)) AND 0x3ffffff) = n div 2 ^ 26 mod 2 ^ 26"
    and "unat (drop_bit 4 (U8TO32 (drop 6 m)) AND 0x3ffffff) = n div 2 ^ 52 mod 2 ^ 26"
    and "unat (drop_bit 6 (U8TO32 (drop 9 m)) AND 0x3ffffff) = n div 2 ^ 78 mod 2 ^ 26"
    and "unat (drop_bit 8 (U8TO32 (drop 12 m))) = n div 2 ^ 104"
    and "n < 2 ^ 128"
proof -
  show n: "n < 2 ^ 128" using be_val_less [of "rev m"] assms by simp
  have cut: "n div 256 ^ i mod 2 ^ 32 div 2 ^ k mod 2 ^ 26 = n div 2 ^ (8 * i + k) mod 2 ^ 26" if "k \<le> 6" for i k
  proof -
    have "n div 256 ^ i mod 2 ^ 32 div 2 ^ k mod 2 ^ 26 = take_bit 26 (drop_bit k (take_bit 32 (drop_bit (8 * i) n)))"
      by (simp only: take_bit_eq_mod drop_bit_eq_div power_mult) simp
    also have "\<dots> = take_bit 26 (drop_bit (8 * i + k) n)"
      using that by (intro bit_eqI) (auto simp: bit_simps ac_simps)
    finally show ?thesis by (simp only: take_bit_eq_mod drop_bit_eq_div)
  qed
  have limb: "unat (drop_bit k (U8TO32 (drop i m)) AND 0x3ffffff) = n div 2 ^ (8 * i + k) mod 2 ^ 26" if "k \<le> 6" "i \<le> 12" for i k
  proof -
    have "unat (U8TO32 (drop i m)) = n div 256 ^ i mod 2 ^ 32"
      unfolding n_def using that(2) assms(1) by (intro U8TO32_drop) simp
    then show ?thesis unfolding unat_masked unat_drop_bit_div using cut [OF that(1), of i] by (simp only:)
  qed
  show "unat (U8TO32 m AND 0x3ffffff) = n mod 2 ^ 26" using limb [of 0 0] by simp
  show "unat (drop_bit 2 (U8TO32 (drop 3 m)) AND 0x3ffffff) = n div 2 ^ 26 mod 2 ^ 26" using limb [of 2 3] by simp
  show "unat (drop_bit 4 (U8TO32 (drop 6 m)) AND 0x3ffffff) = n div 2 ^ 52 mod 2 ^ 26" using limb [of 4 6] by simp
  show "unat (drop_bit 6 (U8TO32 (drop 9 m)) AND 0x3ffffff) = n div 2 ^ 78 mod 2 ^ 26" using limb [of 6 9] by simp
  have "n div 2 ^ 96 mod 2 ^ 32 = n div 2 ^ 96" using n by (simp add: less_mult_imp_div_less)
  then show "unat (drop_bit 8 (U8TO32 (drop 12 m))) = n div 2 ^ 104"
    using U8TO32_drop [of 12 m] assms by (simp add: unat_drop_bit_div div_mult2_eq [symmetric])
qed

section \<open>A block\<close>

lemma limb_product:
  fixes B p a0 a1 a2 a3 a4 r0 r1 r2 r3 r4 :: nat
  assumes "B ^ 5 = p + 5"
  shows "(a0 + B * a1 + B ^ 2 * a2 + B ^ 3 * a3 + B ^ 4 * a4) * (r0 + B * r1 + B ^ 2 * r2 + B ^ 3 * r3 + B ^ 4 * r4)
    = (a0 * r0 + a1 * (r4 * 5) + a2 * (r3 * 5) + a3 * (r2 * 5) + a4 * (r1 * 5))
      + B * (a0 * r1 + a1 * r0 + a2 * (r4 * 5) + a3 * (r3 * 5) + a4 * (r2 * 5))
      + B ^ 2 * (a0 * r2 + a1 * r1 + a2 * r0 + a3 * (r4 * 5) + a4 * (r3 * 5))
      + B ^ 3 * (a0 * r3 + a1 * r2 + a2 * r1 + a3 * r0 + a4 * (r4 * 5))
      + B ^ 4 * (a0 * r4 + a1 * r3 + a2 * r2 + a3 * r1 + a4 * r0)
      + p * (a1 * r4 + a2 * r3 + a3 * r2 + a4 * r1 + B * (a2 * r4 + a3 * r3 + a4 * r2)
          + B ^ 2 * (a3 * r4 + a4 * r3) + B ^ 3 * (a4 * r4))" (is "?P = ?D + p * ?E")
proof -
  define L where "L = a0 * r0 + B * (a0 * r1 + a1 * r0) + B ^ 2 * (a0 * r2 + a1 * r1 + a2 * r0)
    + B ^ 3 * (a0 * r3 + a1 * r2 + a2 * r1 + a3 * r0) + B ^ 4 * (a0 * r4 + a1 * r3 + a2 * r2 + a3 * r1 + a4 * r0)"
  have "?P = L + B ^ 5 * ?E" by (simp add: L_def algebra_simps power_numeral_reduce)
  moreover have "?D = L + 5 * ?E" by (simp add: L_def algebra_simps power_numeral_reduce)
  ultimately show ?thesis unfolding assms by (simp only: add_mult_distrib add.assoc add.commute [of "p * ?E"])
qed

text \<open>A sum of five products of a limb of at most 28 bits and a limb of the key, perhaps times five.\<close>

lemma unat_dot5:
  fixes a0 a1 a2 a3 a4 b0 b1 b2 b3 b4 :: u64
  assumes "\<forall>a\<in>{a0, a1, a2, a3, a4}. unat a < 2 ^ 28" "\<forall>b\<in>{b0, b1, b2, b3, b4}. unat b < 2 ^ 29"
  shows "unat (a0 * b0 + a1 * b1 + a2 * b2 + a3 * b3 + a4 * b4)
      = unat a0 * unat b0 + unat a1 * unat b1 + unat a2 * unat b2 + unat a3 * unat b3 + unat a4 * unat b4"
    and "unat (a0 * b0 + a1 * b1 + a2 * b2 + a3 * b3 + a4 * b4) < 2 ^ 60"
proof -
  have m: "unat (a * b) = unat a * unat b \<and> unat (a * b) < 2 ^ 57" if "unat a < 2 ^ 28" "unat b < 2 ^ 29" for a b :: u64
  proof -
    have "unat a * unat b < 2 ^ 28 * 2 ^ 29" using that by (intro mult_strict_mono) simp_all
    then show ?thesis by (simp add: unat_mult_u64)
  qed
  have bounds: "unat (a0 * b0) < 2 ^ 57" "unat (a1 * b1) < 2 ^ 57" "unat (a2 * b2) < 2 ^ 57" "unat (a3 * b3) < 2 ^ 57" "unat (a4 * b4) < 2 ^ 57"
    using assms m by blast+
  have "unat (a0 * b0 + a1 * b1 + a2 * b2 + a3 * b3 + a4 * b4)
      = unat (a0 * b0) + unat (a1 * b1) + unat (a2 * b2) + unat (a3 * b3) + unat (a4 * b4)"
    using bounds by (simp add: unat_add_u64)
  then show "unat (a0 * b0 + a1 * b1 + a2 * b2 + a3 * b3 + a4 * b4) < 2 ^ 60"
    and "unat (a0 * b0 + a1 * b1 + a2 * b2 + a3 * b3 + a4 * b4)
      = unat a0 * unat b0 + unat a1 * unat b1 + unat a2 * unat b2 + unat a3 * unat b3 + unat a4 * unat b4"
    using bounds assms m by simp_all
qed

text \<open>The chain of carries after the multiplication.\<close>

definition carry_chain :: "u64 \<Rightarrow> u64 \<Rightarrow> u64 \<Rightarrow> u64 \<Rightarrow> u64 \<Rightarrow> u64 list" where
  "carry_chain d0 d1 d2 d3 d4 =
     (let c = drop_bit 26 d0; h0 = d0 AND 0x3ffffff; d1 = d1 + c;
          c = drop_bit 26 d1; h1 = d1 AND 0x3ffffff; d2 = d2 + c;
          c = drop_bit 26 d2; h2 = d2 AND 0x3ffffff; d3 = d3 + c;
          c = drop_bit 26 d3; h3 = d3 AND 0x3ffffff; d4 = d4 + c;
          c = drop_bit 26 d4; h4 = d4 AND 0x3ffffff; h0 = h0 + c * 5;
          c = drop_bit 26 h0; h0 = h0 AND 0x3ffffff; h1 = h1 + c
      in [h0, h1, h2, h3, h4])"

definition tight :: "u64 list \<Rightarrow> bool" where
  "tight h \<longleftrightarrow> length h = 5 \<and> unat (h ! 0) < 2 ^ 26 \<and> unat (h ! 1) < 2 ^ 26 + 2 ^ 16 \<and> unat (h ! 2) < 2 ^ 26
     \<and> unat (h ! 3) < 2 ^ 26 \<and> unat (h ! 4) < 2 ^ 26"

lemma poly_p_eq: "(2 ^ 26) ^ 5 = poly_p + 5" "(2 :: nat) ^ 130 = poly_p + 5"
  by (simp_all add: poly_p_def)

lemma carry_fold: "P * (e mod B) + P * B * (d + e div B) = P * e + P * B * d" for P e B d :: nat
proof -
  have "P * (e mod B) + P * B * (d + e div B) = P * (B * (e div B) + e mod B) + P * B * d"
    by (simp only: distrib_left ac_simps)
  then show ?thesis by simp
qed

lemma carry_value:
  fixes B p d0 d1 d2 d3 d4 e1 e2 e3 e4 x0 :: nat
  assumes p: "B ^ 5 = p + 5"
    and e: "e1 = d1 + d0 div B" "e2 = d2 + e1 div B" "e3 = d3 + e2 div B" "e4 = d4 + e3 div B" "x0 = d0 mod B + e4 div B * 5"
  shows "x0 mod B + B * (e1 mod B + x0 div B) + B ^ 2 * (e2 mod B) + B ^ 3 * (e3 mod B) + B ^ 4 * (e4 mod B) + p * (e4 div B)
    = d0 + B * d1 + B ^ 2 * d2 + B ^ 3 * d3 + B ^ 4 * d4" (is "?V + _ = ?D")
proof -
  have V: "?V = x0 + B * (e1 mod B) + B ^ 2 * (e2 mod B) + B ^ 3 * (e3 mod B) + B ^ 4 * (e4 mod B)"
    using mult_div_mod_eq [of B x0] by (simp add: distrib_left)
  have "x0 + p * (e4 div B) = d0 mod B + B ^ 5 * (e4 div B)" unfolding p e(5) by (simp add: algebra_simps)
  moreover have "B ^ 4 * (e4 mod B) + B ^ 5 * (e4 div B) = B ^ 4 * e4"
    using carry_fold [of "B ^ 4" e4 B 0] by (simp add: power_numeral_reduce)
  moreover have "B ^ 3 * (e3 mod B) + B ^ 4 * e4 = B ^ 3 * e3 + B ^ 4 * d4"
    using carry_fold [of "B ^ 3" e3 B d4] by (simp add: e(4) power_numeral_reduce mult.assoc)
  moreover have "B ^ 2 * (e2 mod B) + B ^ 3 * e3 = B ^ 2 * e2 + B ^ 3 * d3"
    using carry_fold [of "B ^ 2" e2 B d3] by (simp add: e(3) power_numeral_reduce mult.assoc)
  moreover have "B * (e1 mod B) + B ^ 2 * e2 = B * e1 + B ^ 2 * d2"
    using carry_fold [of B e1 B d2] by (simp add: e(2) power_numeral_reduce mult.assoc)
  moreover have "d0 mod B + B * e1 = d0 + B * d1"
    using carry_fold [of 1 d0 B d1] by (simp add: e(1))
  ultimately show ?thesis using V by linarith
qed

lemma div_bound: "n < 2 ^ (k + 26) \<Longrightarrow> n div 2 ^ 26 < 2 ^ k" for n :: nat
  by (simp add: less_mult_imp_div_less power_add)

lemma carry_chain_spec:
  assumes "\<forall>d\<in>{d0, d1, d2, d3, d4}. unat d < 2 ^ 60"
  shows "tight (carry_chain d0 d1 d2 d3 d4)"
    and "limbs (carry_chain d0 d1 d2 d3 d4) mod poly_p
      = (unat d0 + 2 ^ 26 * unat d1 + 2 ^ 52 * unat d2 + 2 ^ 78 * unat d3 + 2 ^ 104 * unat d4) mod poly_p"
proof -
  define e1 where "e1 = d1 + drop_bit 26 d0"
  define e2 where "e2 = d2 + drop_bit 26 e1"
  define e3 where "e3 = d3 + drop_bit 26 e2"
  define e4 where "e4 = d4 + drop_bit 26 e3"
  define x0 where "x0 = (d0 AND 0x3ffffff) + drop_bit 26 e4 * 5"
  define h1 where "h1 = (e1 AND 0x3ffffff) + drop_bit 26 x0"
  have chain: "carry_chain d0 d1 d2 d3 d4 = [x0 AND 0x3ffffff, h1, e2 AND 0x3ffffff, e3 AND 0x3ffffff, e4 AND 0x3ffffff]"
    by (simp only: carry_chain_def Let_def e1_def e2_def e3_def e4_def x0_def h1_def)
  have step: "unat (d + drop_bit 26 e) = unat d + unat e div 2 ^ 26 \<and> unat (d + drop_bit 26 e) < 2 ^ 61"
    if "unat d < 2 ^ 60" "unat e < 2 ^ 61" for d e :: u64
    using that div_bound [of "unat e" 35] by (simp add: unat_add_u64 unat_drop_bit_div)
  have d: "unat d0 < 2 ^ 60" "unat d1 < 2 ^ 60" "unat d2 < 2 ^ 60" "unat d3 < 2 ^ 60" "unat d4 < 2 ^ 60" using assms by auto
  have e1: "unat e1 = unat d1 + unat d0 div 2 ^ 26" "unat e1 < 2 ^ 61"
    using step [OF d(2), of d0] d(1) by (simp_all add: e1_def)
  have e2: "unat e2 = unat d2 + unat e1 div 2 ^ 26" "unat e2 < 2 ^ 61" using step [OF d(3) e1(2)] by (simp_all add: e2_def)
  have e3: "unat e3 = unat d3 + unat e2 div 2 ^ 26" "unat e3 < 2 ^ 61" using step [OF d(4) e2(2)] by (simp_all add: e3_def)
  have e4: "unat e4 = unat d4 + unat e3 div 2 ^ 26" "unat e4 < 2 ^ 61" using step [OF d(5) e3(2)] by (simp_all add: e4_def)
  have c4: "unat (drop_bit 26 e4) < 2 ^ 35" using div_bound [of "unat e4" 35] e4(2) by (simp add: unat_drop_bit_div)
  then have c45: "unat (drop_bit 26 e4 * 5) = unat e4 div 2 ^ 26 * 5" by (subst unat_mult_u64) (simp_all add: unat_drop_bit_div)
  have x0: "unat x0 = unat d0 mod 2 ^ 26 + unat e4 div 2 ^ 26 * 5" "unat x0 < 2 ^ 38"
    using c4 c45 mod_less_divisor [of "2 ^ 26" "unat d0"] by (simp_all add: x0_def unat_add_u64 unat_masked unat_drop_bit_div)
  have h1: "unat h1 = unat e1 mod 2 ^ 26 + unat x0 div 2 ^ 26" "unat h1 < 2 ^ 26 + 2 ^ 16"
    using div_bound [of "unat x0" 12] x0(2) mod_less_divisor [of "2 ^ 26" "unat e1"]
    by (simp_all add: h1_def unat_add_u64 unat_masked unat_drop_bit_div)
  show "tight (carry_chain d0 d1 d2 d3 d4)"
    using h1(2) by (simp add: chain tight_def unat_masked)
  have "limbs (carry_chain d0 d1 d2 d3 d4) + poly_p * (unat e4 div 2 ^ 26)
      = unat d0 + 2 ^ 26 * unat d1 + 2 ^ 52 * unat d2 + 2 ^ 78 * unat d3 + 2 ^ 104 * unat d4"
    using carry_value [OF poly_p_eq(1) e1(1) e2(1) e3(1) e4(1) x0(1)]
    by (simp add: chain limbs_def unat_masked h1(1) power_mult [symmetric])
  then show "limbs (carry_chain d0 d1 d2 d3 d4) mod poly_p
      = (unat d0 + 2 ^ 26 * unat d1 + 2 ^ 52 * unat d2 + 2 ^ 78 * unat d3 + 2 ^ 104 * unat d4) mod poly_p"
    by (metis mod_mult_self2)
qed

text \<open>Reading a block from the front of a longer message.\<close>

lemma U8TO32_take: "i \<le> 12 \<Longrightarrow> 16 \<le> length m \<Longrightarrow> U8TO32 (drop i (take 16 m)) = U8TO32 (drop i m)"
  by (simp add: U8TO32_def)

lemma list5:
  assumes "length xs = 5"
  obtains a b c d e where "xs = [a, b, c, d, e]"
  using assms by (auto simp: numeral_eq_Suc length_Suc_conv)

lemma nth_list5:
  "[a, b, c, d, e] ! 0 = a" "[a, b, c, d, e] ! 1 = b" "[a, b, c, d, e] ! 2 = c" "[a, b, c, d, e] ! 3 = d" "[a, b, c, d, e] ! 4 = e"
  by simp_all

text \<open>The product of the accumulator and the key, with the carries that follow.\<close>

definition mult_chain :: "u64 list \<Rightarrow> u64 list \<Rightarrow> u64 list" where
  "mult_chain a r =
     (let r0 = r ! 0; r1 = r ! 1; r2 = r ! 2; r3 = r ! 3; r4 = r ! 4; s1 = r1 * 5; s2 = r2 * 5; s3 = r3 * 5; s4 = r4 * 5 in
      carry_chain (a ! 0 * r0 + a ! 1 * s4 + a ! 2 * s3 + a ! 3 * s2 + a ! 4 * s1)
        (a ! 0 * r1 + a ! 1 * r0 + a ! 2 * s4 + a ! 3 * s3 + a ! 4 * s2)
        (a ! 0 * r2 + a ! 1 * r1 + a ! 2 * r0 + a ! 3 * s4 + a ! 4 * s3)
        (a ! 0 * r3 + a ! 1 * r2 + a ! 2 * r1 + a ! 3 * r0 + a ! 4 * s4)
        (a ! 0 * r4 + a ! 1 * r3 + a ! 2 * r2 + a ! 3 * r1 + a ! 4 * r0))"

definition add_block :: "u64 \<Rightarrow> u64 list \<Rightarrow> bytes \<Rightarrow> u64 list" where
  "add_block hibit h m =
     [h ! 0 + (U8TO32 m AND 0x3ffffff), h ! 1 + (drop_bit 2 (U8TO32 (drop 3 m)) AND 0x3ffffff),
      h ! 2 + (drop_bit 4 (U8TO32 (drop 6 m)) AND 0x3ffffff), h ! 3 + (drop_bit 6 (U8TO32 (drop 9 m)) AND 0x3ffffff),
      h ! 4 + (drop_bit 8 (U8TO32 (drop 12 m)) OR hibit)]"

lemma poly1305_block_eq: "poly1305_block hibit r h m = mult_chain (add_block hibit h m) r"
  unfolding poly1305_block_def mult_chain_def add_block_def carry_chain_def Let_def nth_list5 by (rule refl)

lemma mult_chain_spec:
  assumes a: "length a = 5" "\<forall>x\<in>set a. unat x < 2 ^ 28" and r: "length r = 5" "\<forall>x\<in>set r. unat x < 2 ^ 26"
  shows "tight (mult_chain a r)" and "limbs (mult_chain a r) mod poly_p = limbs a * limbs r mod poly_p"
proof -
  obtain r0 r1 r2 r3 r4 where rs: "r = [r0, r1, r2, r3, r4]" using list5 [OF r(1)] .
  obtain a0 a1 a2 a3 a4 where as: "a = [a0, a1, a2, a3, a4]" using list5 [OF a(1)] .
  have s5: "unat (x * 5) = unat x * 5" "unat (x * 5) < 2 ^ 29" "unat x < 2 ^ 29" if "x \<in> set r" for x
    using r(2) that by (auto simp: unat_mult_u64)
  have ab: "\<forall>x\<in>{a0, a1, a2, a3, a4}. unat x < 2 ^ 28" using a(2) by (simp add: as)
  have key: "\<forall>b\<in>{b0, b1, b2, b3, b4}. unat b < 2 ^ 29" if "{b0, b1, b2, b3, b4} \<subseteq> set r \<union> (\<lambda>x. x * 5) ` set r" for b0 b1 b2 b3 b4
    using that s5(2,3) by auto
  have k: "{r0, r4 * 5, r3 * 5, r2 * 5, r1 * 5} \<subseteq> set r \<union> (\<lambda>x. x * 5) ` set r"
    "{r1, r0, r4 * 5, r3 * 5, r2 * 5} \<subseteq> set r \<union> (\<lambda>x. x * 5) ` set r"
    "{r2, r1, r0, r4 * 5, r3 * 5} \<subseteq> set r \<union> (\<lambda>x. x * 5) ` set r"
    "{r3, r2, r1, r0, r4 * 5} \<subseteq> set r \<union> (\<lambda>x. x * 5) ` set r"
    "{r4, r3, r2, r1, r0} \<subseteq> set r \<union> (\<lambda>x. x * 5) ` set r" by (simp_all add: rs)
  note dots = unat_dot5 [OF ab key, OF k(1)] unat_dot5 [OF ab key, OF k(2)] unat_dot5 [OF ab key, OF k(3)]
    unat_dot5 [OF ab key, OF k(4)] unat_dot5 [OF ab key, OF k(5)]
  have bounds: "\<forall>d\<in>{a0 * r0 + a1 * (r4 * 5) + a2 * (r3 * 5) + a3 * (r2 * 5) + a4 * (r1 * 5),
      a0 * r1 + a1 * r0 + a2 * (r4 * 5) + a3 * (r3 * 5) + a4 * (r2 * 5),
      a0 * r2 + a1 * r1 + a2 * r0 + a3 * (r4 * 5) + a4 * (r3 * 5),
      a0 * r3 + a1 * r2 + a2 * r1 + a3 * r0 + a4 * (r4 * 5), a0 * r4 + a1 * r3 + a2 * r2 + a3 * r1 + a4 * r0}. unat d < 2 ^ 60"
    unfolding ball_simps using dots(2,4,6,8,10) by (intro conjI) simp_all
  show "tight (mult_chain a r)"
    unfolding mult_chain_def as rs Let_def nth_list5 by (rule carry_chain_spec(1) [OF bounds])
  have s: "unat (r1 * 5) = unat r1 * 5" "unat (r2 * 5) = unat r2 * 5" "unat (r3 * 5) = unat r3 * 5" "unat (r4 * 5) = unat r4 * 5"
    using s5(1) by (simp_all add: rs)
  have pow: "(2 :: nat) ^ 52 = (2 ^ 26) ^ 2" "(2 :: nat) ^ 78 = (2 ^ 26) ^ 3" "(2 :: nat) ^ 104 = (2 ^ 26) ^ 4" by simp_all
  show "limbs (mult_chain a r) mod poly_p = limbs a * limbs r mod poly_p"
    unfolding mult_chain_def as rs Let_def nth_list5 carry_chain_spec(2) [OF bounds]
    unfolding limbs_def as rs nth_list5 dots(1,3,5,7,9) s pow limb_product [OF poly_p_eq(1)]
    by (rule mod_mult_self2 [symmetric])
qed

lemma limb_add:
  fixes x y :: u64
  assumes "unat x < 2 ^ 27" "unat y = k mod 2 ^ 26"
  shows "unat (x + y) = unat x + k mod 2 ^ 26" and "unat (x + y) < 2 ^ 28"
  using assms mod_less_divisor [of "2 ^ 26" k] by (simp_all add: unat_add_u64)

lemma top_limb:
  assumes "16 \<le> length m" "unat b \<le> 1"
  shows "unat (drop_bit 8 (U8TO32 (drop 12 m)) OR push_bit 24 b) = le_val (take 16 m) div 2 ^ 104 + unat b * 2 ^ 24"
    and "le_val (take 16 m) div 2 ^ 104 + unat b * 2 ^ 24 < 2 ^ 26"
proof -
  define n where "n = le_val (take 16 m)"
  have x4: "unat (drop_bit 8 (U8TO32 (drop 12 m))) = n div 2 ^ 104" "n div 2 ^ 104 < 2 ^ 24"
    using block_limbs(5,6) [of "take 16 m"] U8TO32_take [of 12 m] assms by (simp_all add: n_def less_mult_imp_div_less)
  have top: "unat (push_bit 24 b) = unat b * 2 ^ 24" using assms(2) by (intro unat_push_bit_u64) simp
  show "unat (drop_bit 8 (U8TO32 (drop 12 m)) OR push_bit 24 b) = le_val (take 16 m) div 2 ^ 104 + unat b * 2 ^ 24"
    unfolding n_def [symmetric] using x4 top assms(2) by (subst unat_or_disjoint) (simp_all add: and_push_bit_0)
  show "le_val (take 16 m) div 2 ^ 104 + unat b * 2 ^ 24 < 2 ^ 26"
    unfolding n_def [symmetric] using x4(2) assms(2) by simp
qed

lemma add_block_spec:
  assumes h: "tight h" and m: "16 \<le> length m" and b: "unat b \<le> 1"
  shows "limbs (add_block (push_bit 24 b) h m) = limbs h + (le_val (take 16 m) + 2 ^ 128 * unat b)"
    and "\<forall>x\<in>set (add_block (push_bit 24 b) h m). unat x < 2 ^ 28"
proof -
  define n where "n = le_val (take 16 m)"
  have len: "length (take 16 m) = 16" using m by simp
  note fl = block_limbs [OF len, folded n_def] and dr = U8TO32_take [OF _ m]
  have hb: "unat (h ! 0) < 2 ^ 27" "unat (h ! 1) < 2 ^ 27" "unat (h ! 2) < 2 ^ 27" "unat (h ! 3) < 2 ^ 27" "unat (h ! 4) < 2 ^ 27"
    using h by (simp_all add: tight_def)
  have f0: "unat (U8TO32 m AND 0x3ffffff) = n mod 2 ^ 26" using fl(1) dr [of 0] by simp
  have f1: "unat (drop_bit 2 (U8TO32 (drop 3 m)) AND 0x3ffffff) = n div 2 ^ 26 mod 2 ^ 26" using fl(2) dr [of 3] by simp
  have f2: "unat (drop_bit 4 (U8TO32 (drop 6 m)) AND 0x3ffffff) = n div 2 ^ 52 mod 2 ^ 26" using fl(3) dr [of 6] by simp
  have f3: "unat (drop_bit 6 (U8TO32 (drop 9 m)) AND 0x3ffffff) = n div 2 ^ 78 mod 2 ^ 26" using fl(4) dr [of 9] by simp
  note l = limb_add [OF hb(1) f0] limb_add [OF hb(2) f1] limb_add [OF hb(3) f2] limb_add [OF hb(4) f3]
  have t: "unat (h ! 4 + (drop_bit 8 (U8TO32 (drop 12 m)) OR push_bit 24 b)) = unat (h ! 4) + (n div 2 ^ 104 + unat b * 2 ^ 24)"
    "unat (h ! 4 + (drop_bit 8 (U8TO32 (drop 12 m)) OR push_bit 24 b)) < 2 ^ 28"
    using hb(5) top_limb [OF m b] by (simp_all add: unat_add_u64 n_def)
  show "\<forall>x\<in>set (add_block (push_bit 24 b) h m). unat x < 2 ^ 28"
    unfolding add_block_def list.set ball_simps using l(2,4,6,8) t(2) by (intro conjI) simp_all
  have "limbs (add_block (push_bit 24 b) h m) = limbs h + (n mod 2 ^ 26 + 2 ^ 26 * (n div 2 ^ 26 mod 2 ^ 26) + 2 ^ 52 * (n div 2 ^ 52 mod 2 ^ 26)
    + 2 ^ 78 * (n div 2 ^ 78 mod 2 ^ 26) + 2 ^ 104 * (n div 2 ^ 104)) + 2 ^ 104 * (unat b * 2 ^ 24)"
    unfolding limbs_def add_block_def nth_list5 l(1,3,5,7) t(1) by (simp only: distrib_left ac_simps)
  then show "limbs (add_block (push_bit 24 b) h m) = limbs h + (le_val (take 16 m) + 2 ^ 128 * unat b)"
    unfolding split_limbs n_def by simp
qed

lemma block_spec:
  assumes "tight h" "length r = 5" "\<forall>x\<in>set r. unat x < 2 ^ 26" "16 \<le> length m" "unat b \<le> 1"
  shows "tight (poly1305_block (push_bit 24 b) r h m)"
    and "limbs (poly1305_block (push_bit 24 b) r h m) mod poly_p
      = (limbs h + (le_val (take 16 m) + 2 ^ 128 * unat b)) * limbs r mod poly_p"
  unfolding poly1305_block_eq add_block_spec(1) [OF assms(1,4,5), symmetric]
  by (rule mult_chain_spec; use assms add_block_spec(2) [OF assms(1,4,5)] in \<open>simp add: add_block_def\<close>)+

section \<open>The end of the message\<close>

definition canonical :: "u64 list \<Rightarrow> bool" where
  "canonical h \<longleftrightarrow> length h = 5 \<and> (\<forall>x\<in>set h. unat x < 2 ^ 26)"

lemma canonical_list: "canonical [a, b, c, d, e] \<longleftrightarrow> unat a < 2 ^ 26 \<and> unat b < 2 ^ 26 \<and> unat c < 2 ^ 26 \<and> unat d < 2 ^ 26 \<and> unat e < 2 ^ 26"
  by (simp add: canonical_def)

text \<open>The second limb stays below 26 bits: a carry into it comes round only when it has just overflowed itself.\<close>

lemma carry_second:
  fixes h0 h1 h2 h3 h4 :: nat
  assumes "h0 < 2 ^ 26" "h1 < 2 ^ 26 + 2 ^ 16" "h2 < 2 ^ 26" "h3 < 2 ^ 26" "h4 < 2 ^ 26"
    and e: "e2 = h2 + h1 div 2 ^ 26" "e3 = h3 + e2 div 2 ^ 26" "e4 = h4 + e3 div 2 ^ 26" "x0 = h0 + e4 div 2 ^ 26 * 5"
  shows "h1 mod 2 ^ 26 + x0 div 2 ^ 26 < 2 ^ 26" and "x0 < 2 ^ 27" and "e2 < 2 ^ 27" and "e3 < 2 ^ 27" and "e4 < 2 ^ 27"
proof -
  have small: "y < 2 ^ 27 \<Longrightarrow> y div 2 ^ 26 \<le> 1" for y :: nat using div_bound [of y 1] by simp
  show e2: "e2 < 2 ^ 27" using small [of h1] assms(2,3) e(1) by simp
  show e3: "e3 < 2 ^ 27" using small [OF e2] assms(4) e(2) by simp
  show e4: "e4 < 2 ^ 27" using small [OF e3] assms(5) e(3) by simp
  show x0: "x0 < 2 ^ 27" using small [OF e4] assms(1) e(4) by simp
  show "h1 mod 2 ^ 26 + x0 div 2 ^ 26 < 2 ^ 26"
  proof (cases "h1 < 2 ^ 26")
    case True
    then have "h1 div 2 ^ 26 = 0" by simp
    then have "e2 div 2 ^ 26 = 0" using e(1) assms(3) by simp
    then have "e3 div 2 ^ 26 = 0" using e(2) assms(4) by simp
    then have "e4 div 2 ^ 26 = 0" using e(3) assms(5) by simp
    then have "x0 div 2 ^ 26 = 0" using e(4) assms(1) by simp
    then show ?thesis using True by simp
  next
    case False
    then have "h1 mod 2 ^ 26 = h1 - 2 ^ 26" using assms(2) by (subst mod_if) simp
    then have "h1 mod 2 ^ 26 < 2 ^ 16" using assms(2) False by simp
    then show ?thesis using small [OF x0] by simp
  qed
qed

lemma carry_spec:
  assumes "tight h"
  shows "canonical (poly1305_carry h)" and "limbs (poly1305_carry h) mod poly_p = limbs h mod poly_p"
proof -
  obtain h0 h1 h2 h3 h4 where hs: "h = [h0, h1, h2, h3, h4]" using assms list5 unfolding tight_def by blast
  have hb: "unat h0 < 2 ^ 26" "unat h1 < 2 ^ 26 + 2 ^ 16" "unat h2 < 2 ^ 26" "unat h3 < 2 ^ 26" "unat h4 < 2 ^ 26"
    using assms by (simp_all add: tight_def hs)
  have h0: "drop_bit 26 h0 = 0" "h0 AND 0x3ffffff = h0"
    using hb(1) unat_masked(1) [of h0] by (simp_all add: drop_bit_eq_0_iff_unat word_unat_eq_iff [of "h0 AND 0x3ffffff"])
  have chain: "poly1305_carry h = carry_chain h0 h1 h2 h3 h4"
    unfolding poly1305_carry_def carry_chain_def hs Let_def nth_list5 h0 add_0_right by (rule refl)
  have bounds: "\<forall>d\<in>{h0, h1, h2, h3, h4}. unat d < 2 ^ 60" using hb by simp
  show "limbs (poly1305_carry h) mod poly_p = limbs h mod poly_p"
    unfolding chain carry_chain_spec(2) [OF bounds] unfolding limbs_def hs nth_list5 ..
  define e2 where "e2 = h2 + drop_bit 26 h1"
  define e3 where "e3 = h3 + drop_bit 26 e2"
  define e4 where "e4 = h4 + drop_bit 26 e3"
  define x0 where "x0 = h0 + drop_bit 26 e4 * 5"
  have step: "unat (d + drop_bit 26 e) = unat d + unat e div 2 ^ 26" if "unat d < 2 ^ 26" for d e :: u64
    using that div_bound [of "unat e" 38] by (simp add: unat_add_u64 unat_drop_bit_div)
  have e: "unat e2 = unat h2 + unat h1 div 2 ^ 26" "unat e3 = unat h3 + unat e2 div 2 ^ 26" "unat e4 = unat h4 + unat e3 div 2 ^ 26"
    using step [OF hb(3)] step [OF hb(4)] step [OF hb(5)] by (simp_all add: e2_def e3_def e4_def)
  have c5: "unat (drop_bit 26 e4 * 5) = unat e4 div 2 ^ 26 * 5"
    using div_bound [of "unat e4" 38] by (subst unat_mult_u64) (simp_all add: unat_drop_bit_div)
  have x: "unat x0 = unat h0 + unat e4 div 2 ^ 26 * 5"
    using hb(1) div_bound [of "unat e4" 38] c5 by (simp add: x0_def unat_add_u64)
  note s = carry_second [OF hb e x]
  have "unat (h1 AND 0x3ffffff) + unat (drop_bit 26 x0) < 2 ^ 26" using s(1) by (simp add: unat_masked unat_drop_bit_div)
  then have "unat ((h1 AND 0x3ffffff) + drop_bit 26 x0) < 2 ^ 26" by (subst unat_add_u64) simp_all
  then show "canonical (poly1305_carry h)"
    using carry_chain_spec(1) [OF bounds] unfolding chain
    unfolding carry_chain_def Let_def h0 add_0_right e2_def [symmetric] e3_def [symmetric] e4_def [symmetric] x0_def [symmetric]
    by (simp add: tight_def canonical_list)
qed

text \<open>The addition of five to the limbs, with its carries; the top limb is left as it is.\<close>

lemma plus_five:
  fixes B h0 h1 h2 h3 h4 :: nat
  assumes "g0 = h0 + 5" "g1 = h1 + g0 div B" "g2 = h2 + g1 div B" "g3 = h3 + g2 div B" "u = h4 + g3 div B"
  shows "g0 mod B + B * (g1 mod B) + B ^ 2 * (g2 mod B) + B ^ 3 * (g3 mod B) + B ^ 4 * u
    = h0 + B * h1 + B ^ 2 * h2 + B ^ 3 * h3 + B ^ 4 * h4 + 5"
proof -
  have "B ^ 3 * (g3 mod B) + B ^ 4 * u = B ^ 3 * g3 + B ^ 4 * h4"
    using carry_fold [of "B ^ 3" g3 B h4] by (simp add: assms(5) power_numeral_reduce mult.assoc)
  moreover have "B ^ 2 * (g2 mod B) + B ^ 3 * g3 = B ^ 2 * g2 + B ^ 3 * h3"
    using carry_fold [of "B ^ 2" g2 B h3] by (simp add: assms(4) power_numeral_reduce mult.assoc)
  moreover have "B * (g1 mod B) + B ^ 2 * g2 = B * g1 + B ^ 2 * h2"
    using carry_fold [of B g1 B h2] by (simp add: assms(3) power_numeral_reduce mult.assoc)
  moreover have "g0 mod B + B * g1 = g0 + B * h1"
    using carry_fold [of 1 g0 B h1] by (simp add: assms(2))
  ultimately show ?thesis using assms(1) by linarith
qed

lemma limbs_less:
  assumes "canonical h"
  shows "limbs h < 2 ^ 130"
proof -
  obtain a b c d e where h: "h = [a, b, c, d, e]" using assms list5 unfolding canonical_def by blast
  show ?thesis using assms unfolding h canonical_list limbs_def nth_list5 by simp
qed

lemma reduce_mask:
  fixes u :: u64
  assumes "unat u \<le> 2 ^ 26"
  shows "drop_bit 63 (u - push_bit 26 1) - 1 = (if unat u < 2 ^ 26 then 0 else - 1 :: u64)"
    and "unat u = 2 ^ 26 \<Longrightarrow> u - push_bit 26 1 = 0"
proof -
  have one: "push_bit 26 1 = (word_of_nat (2 ^ 26) :: u64)" by simp
  show "u - push_bit 26 1 = 0" if "unat u = 2 ^ 26"
    using arg_cong [OF that, of "word_of_nat :: nat \<Rightarrow> u64"] by simp
  then show "drop_bit 63 (u - push_bit 26 1) - 1 = (if unat u < 2 ^ 26 then 0 else - 1 :: u64)"
  proof (cases "unat u < 2 ^ 26")
    case True
    then have "unat (u - push_bit 26 1) = 2 ^ 64 + unat u - 2 ^ 26"
      by (simp add: one unat_sub_if_size word_size)
    then have "unat (drop_bit 63 (u - push_bit 26 1)) = 1"
      using True by (simp add: unat_drop_bit_div div_nat_eqI)
    then have "drop_bit 63 (u - push_bit 26 1) = 1" by (metis unat_1 word_unat_eq_iff)
    then show ?thesis using True by simp
  qed (use assms in simp)
qed

lemma reduce_cases:
  assumes "canonical h"
  obtains g u where "canonical g" "g ! 4 = 0" "u \<le> 2 ^ 26" "limbs g + 2 ^ 104 * u = limbs h + 5"
    and "poly1305_reduce h = (if u < 2 ^ 26 then h else g)"
proof -
  obtain h0 h1 h2 h3 h4 where hs: "h = [h0, h1, h2, h3, h4]" using assms list5 unfolding canonical_def by blast
  have hb: "unat h0 < 2 ^ 26" "unat h1 < 2 ^ 26" "unat h2 < 2 ^ 26" "unat h3 < 2 ^ 26" "unat h4 < 2 ^ 26"
    using assms unfolding hs canonical_list by blast+
  define g0 where "g0 = h0 + 5"
  define g1 where "g1 = h1 + drop_bit 26 g0"
  define g2 where "g2 = h2 + drop_bit 26 g1"
  define g3 where "g3 = h3 + drop_bit 26 g2"
  define u where "u = h4 + drop_bit 26 g3"
  have small: "y < 2 ^ 27 \<Longrightarrow> y div 2 ^ 26 \<le> 1" for y :: nat using div_bound [of y 1] by simp
  have step: "unat (h + drop_bit 26 g) = unat h + unat g div 2 ^ 26" "unat (h + drop_bit 26 g) \<le> 2 ^ 26" "unat (h + drop_bit 26 g) < 2 ^ 27"
    if "unat h < 2 ^ 26" "unat g < 2 ^ 27" for h g :: u64
    using that small [OF that(2)] by (simp_all add: unat_add_u64 unat_drop_bit_div)
  have g0: "unat g0 = unat h0 + 5" "unat g0 < 2 ^ 27" using hb(1) by (simp_all add: g0_def unat_add_u64)
  note g1 = step [OF hb(2) g0(2), folded g1_def] note g2 = step [OF hb(3) g1(3), folded g2_def]
  note g3 = step [OF hb(4) g2(3), folded g3_def] note u = step [OF hb(5) g3(3), folded u_def]
  define G where "G = [g0 AND 0x3ffffff, g1 AND 0x3ffffff, g2 AND 0x3ffffff, g3 AND 0x3ffffff, 0]"
  have "poly1305_reduce h = (if unat u < 2 ^ 26 then h else G)"
    using reduce_mask [OF u(2)] u(2)
    by (simp only: poly1305_reduce_def Let_def hs nth_list5 G_def g0_def [symmetric] g1_def [symmetric] g2_def [symmetric] g3_def [symmetric]
        u_def [symmetric] split: if_split) simp
  moreover have "limbs G + 2 ^ 104 * unat u = limbs h + 5"
    using plus_five [OF g0(1) g1(1) g2(1) g3(1) u(1)]
    by (simp add: limbs_def hs G_def unat_masked power_mult [symmetric] del: One_nat_def)
  moreover have "canonical G" "G ! 4 = 0" by (simp_all add: G_def canonical_list unat_masked)
  ultimately show thesis using that u(2) by blast
qed

lemma reduce_spec:
  assumes "canonical h"
  shows "canonical (poly1305_reduce h)" and "limbs (poly1305_reduce h) = limbs h mod poly_p"
proof -
  obtain g u where g: "canonical g" "g ! 4 = 0" "u \<le> 2 ^ 26" "limbs g + 2 ^ 104 * u = limbs h + 5"
    and red: "poly1305_reduce h = (if u < 2 ^ 26 then h else g)" using reduce_cases [OF assms] .
  show "canonical (poly1305_reduce h)" using red g(1) assms by simp
  have low: "limbs g < 2 ^ 104"
  proof -
    obtain a b c d e where "g = [a, b, c, d, e]" using g(1) list5 unfolding canonical_def by blast
    then show ?thesis using g(1,2) by (simp add: canonical_list limbs_def)
  qed
  show "limbs (poly1305_reduce h) = limbs h mod poly_p"
  proof (cases "u < 2 ^ 26")
    case True
    then have "limbs h < poly_p" using g(4) low by (simp add: poly_p_def)
    then show ?thesis using red True by simp
  next
    case False
    then have "limbs h = limbs g + poly_p" using g(3,4) by (simp add: poly_p_def)
    moreover have "limbs g < poly_p" using low by (simp add: poly_p_def)
    ultimately show ?thesis using red False by simp
  qed
qed

section \<open>The tag\<close>

lemma U32TO8_eq: "U32TO8 v = le_bytes 4 (unat v)"
proof -
  have "ucast (drop_bit n v AND 0xff) = (word_of_nat (unat v div 2 ^ n) :: u8)" for n
  proof -
    have "ucast (drop_bit n v AND 0xff) = (ucast (drop_bit n v) :: u8)"
      by (rule bit_word_eqI) (auto simp: bit_simps mask_literals)
    then show ?thesis by (simp add: ucast_drop_bit_u8)
  qed
  from this [of 0] this [of 8] this [of 16] this [of 24] show ?thesis
    by (simp add: U32TO8_def be_bytes_numeral div_mult2_eq [symmetric])
qed

lemma le_bytes_mod: "le_bytes n (v mod 256 ^ n) = le_bytes n v"
  by (simp add: be_bytes_be_val' be_val_be_bytes_mod [symmetric])

lemma le_bytes_append: "le_bytes (a + b) v = le_bytes a v @ le_bytes b (v div 256 ^ a)"
proof (induction a arbitrary: v)
  case (Suc a)
  then show ?case by (simp add: div_mult2_eq [symmetric] mult.commute)
qed simp

lemma le_bytes_low: "x mod 2 ^ 32 = y mod 2 ^ 32 \<Longrightarrow> le_bytes 4 x = le_bytes 4 y"
  using le_bytes_mod [of 4 x] le_bytes_mod [of 4 y] by simp

text \<open>Four words with carries, as the sixteen bytes of a number.\<close>

lemma le_bytes_16:
  fixes v g0 g1 g2 g3 p0 p1 p2 p3 :: nat
  assumes v: "v mod 2 ^ 128 = (g0 + p0 + 2 ^ 32 * (g1 + p1) + 2 ^ 64 * (g2 + p2) + 2 ^ 96 * (g3 + p3)) mod 2 ^ 128"
    and f: "f0 = g0 + p0" "f1 = g1 + p1 + f0 div 2 ^ 32" "f2 = g2 + p2 + f1 div 2 ^ 32" "f3 = g3 + p3 + f2 div 2 ^ 32"
  shows "le_bytes 4 f0 @ le_bytes 4 f1 @ le_bytes 4 f2 @ le_bytes 4 f3 = le_bytes 16 v"
proof -
  define w where "w = g0 + p0 + 2 ^ 32 * (g1 + p1) + 2 ^ 64 * (g2 + p2) + 2 ^ 96 * (g3 + p3)"
  have w0: "w = f0 + 2 ^ 32 * (g1 + p1 + 2 ^ 32 * (g2 + p2 + 2 ^ 32 * (g3 + p3)))" by (simp add: w_def f(1) algebra_simps)
  have w1: "w div 2 ^ 32 = f1 + 2 ^ 32 * (g2 + p2 + 2 ^ 32 * (g3 + p3))" unfolding w0 f(2) by (subst div_mult_self2) (simp_all add: algebra_simps)
  have w2: "w div 2 ^ 32 div 2 ^ 32 = f2 + 2 ^ 32 * (g3 + p3)" unfolding w1 f(3) by (subst div_mult_self2) (simp_all add: algebra_simps)
  have w3: "w div 2 ^ 32 div 2 ^ 32 div 2 ^ 32 = f3" unfolding w2 f(4) by (subst div_mult_self2) (simp_all add: algebra_simps)
  have "le_bytes 16 v = le_bytes 16 w"
    using le_bytes_mod [of 16 v] le_bytes_mod [of 16 w] v by (simp add: w_def)
  also have "\<dots> = le_bytes 4 w @ le_bytes 4 (w div 2 ^ 32) @ le_bytes 4 (w div 2 ^ 32 div 2 ^ 32) @ le_bytes 4 (w div 2 ^ 32 div 2 ^ 32 div 2 ^ 32)"
    using le_bytes_append [of 4 12 w] le_bytes_append [of 4 8] le_bytes_append [of 4 4] by simp
  also have "\<dots> = le_bytes 4 f0 @ le_bytes 4 f1 @ le_bytes 4 f2 @ le_bytes 4 f3"
    unfolding w3 unfolding w2 unfolding w1 using le_bytes_low [of w f0] le_bytes_low [of "f1 + 2 ^ 32 * (g2 + p2 + 2 ^ 32 * (g3 + p3))" f1]
      le_bytes_low [of "f2 + 2 ^ 32 * (g3 + p3)" f2] by (simp only: w0 mod_mult_self2)
  finally show ?thesis ..
qed

lemma pack_mod:
  fixes a x :: nat
  assumes "a < 2 ^ k" "k \<le> 32"
  shows "(a + x * 2 ^ k) mod 2 ^ 32 = a + 2 ^ k * (x mod 2 ^ (32 - k))"
proof -
  have "(2 :: nat) ^ 32 = 2 ^ k * 2 ^ (32 - k)" using assms(2) by (simp flip: power_add)
  then have "(a + x * 2 ^ k) mod 2 ^ 32 = 2 ^ k * ((a + x * 2 ^ k) div 2 ^ k mod 2 ^ (32 - k)) + (a + x * 2 ^ k) mod 2 ^ k"
    by (simp only: mod_mult2_eq)
  then show ?thesis using assms(1) by simp
qed

lemma pack_words:
  fixes f0 f1 f2 f3 f4 :: nat
  assumes "f0 < 2 ^ 26" "f1 < 2 ^ 26" "f2 < 2 ^ 26" "f3 < 2 ^ 26"
  shows "f0 + 2 ^ 26 * f1 + 2 ^ 52 * f2 + 2 ^ 78 * f3 + 2 ^ 104 * f4
    = (f0 + f1 * 2 ^ 26) mod 2 ^ 32 + 2 ^ 32 * ((f1 div 2 ^ 6 + f2 * 2 ^ 20) mod 2 ^ 32)
      + 2 ^ 64 * ((f2 div 2 ^ 12 + f3 * 2 ^ 14) mod 2 ^ 32) + 2 ^ 96 * ((f3 div 2 ^ 18 + f4 * 2 ^ 8) mod 2 ^ 32)
      + 2 ^ 128 * (f4 div 2 ^ 24)"
proof -
  have g: "(f0 + f1 * 2 ^ 26) mod 2 ^ 32 = f0 + 2 ^ 26 * (f1 mod 2 ^ 6)"
    "(f1 div 2 ^ 6 + f2 * 2 ^ 20) mod 2 ^ 32 = f1 div 2 ^ 6 + 2 ^ 20 * (f2 mod 2 ^ 12)"
    "(f2 div 2 ^ 12 + f3 * 2 ^ 14) mod 2 ^ 32 = f2 div 2 ^ 12 + 2 ^ 14 * (f3 mod 2 ^ 18)"
    "(f3 div 2 ^ 18 + f4 * 2 ^ 8) mod 2 ^ 32 = f3 div 2 ^ 18 + 2 ^ 8 * (f4 mod 2 ^ 24)"
    using assms pack_mod [of f0 26 f1] pack_mod [of "f1 div 2 ^ 6" 20 f2] pack_mod [of "f2 div 2 ^ 12" 14 f3] pack_mod [of "f3 div 2 ^ 18" 8 f4]
    by (simp_all add: less_mult_imp_div_less)
  define a1 b1 a2 b2 a3 b3 a4 b4 where "a1 = f1 div 2 ^ 6" and "b1 = f1 mod 2 ^ 6" and "a2 = f2 div 2 ^ 12" and "b2 = f2 mod 2 ^ 12"
    and "a3 = f3 div 2 ^ 18" and "b3 = f3 mod 2 ^ 18" and "a4 = f4 div 2 ^ 24" and "b4 = f4 mod 2 ^ 24"
  note ab = a1_def b1_def a2_def b2_def a3_def b3_def a4_def b4_def
  have "f1 = 2 ^ 6 * a1 + b1" "f2 = 2 ^ 12 * a2 + b2" "f3 = 2 ^ 18 * a3 + b3" "f4 = 2 ^ 24 * a4 + b4"
    by (simp_all add: ab)
  then show ?thesis unfolding g unfolding ab [symmetric] by (simp add: algebra_simps)
qed

lemma or_push_mask:
  fixes a b :: u64
  assumes "unat a < 2 ^ k" "unat b < 2 ^ 26" "k \<le> 26"
  shows "unat ((a OR push_bit k b) AND 0xffffffff) = (unat a + unat b * 2 ^ k) mod 2 ^ 32"
proof -
  have "unat b * 2 ^ k < 2 ^ 26 * 2 ^ k" using assms(2) by simp
  also have "\<dots> \<le> 2 ^ 52" using assms(3) power_increasing [of "26 + k" 52 "2 :: nat"] by (simp add: power_add)
  finally have b: "unat b * 2 ^ k < 2 ^ 52" .
  have a: "unat a < 2 ^ 26" using assms(1,3) power_increasing [of k 26 "2 :: nat"] by simp
  have p: "unat (push_bit k b) = unat b * 2 ^ k" using b by (intro unat_push_bit_u64) simp
  have "unat (a OR push_bit k b) = unat a + unat b * 2 ^ k"
    using a b p and_push_bit_0 [OF assms(1), of b] by (simp add: unat_or_disjoint)
  then show ?thesis by (simp only: unat_masked)
qed

lemma pack_spec:
  fixes f0 f1 f2 f3 f4 :: u64
  assumes "canonical [f0, f1, f2, f3, f4]"
  defines "g0 \<equiv> (f0 OR push_bit 26 f1) AND 0xffffffff" and "g1 \<equiv> (drop_bit 6 f1 OR push_bit 20 f2) AND 0xffffffff"
    and "g2 \<equiv> (drop_bit 12 f2 OR push_bit 14 f3) AND 0xffffffff" and "g3 \<equiv> (drop_bit 18 f3 OR push_bit 8 f4) AND 0xffffffff"
  shows "unat g0 < 2 ^ 32" "unat g1 < 2 ^ 32" "unat g2 < 2 ^ 32" "unat g3 < 2 ^ 32"
    and "limbs [f0, f1, f2, f3, f4]
      = unat g0 + 2 ^ 32 * unat g1 + 2 ^ 64 * unat g2 + 2 ^ 96 * unat g3 + 2 ^ 128 * (unat f4 div 2 ^ 24)"
proof -
  have fb: "unat f0 < 2 ^ 26" "unat f1 < 2 ^ 26" "unat f2 < 2 ^ 26" "unat f3 < 2 ^ 26" "unat f4 < 2 ^ 26"
    using assms(1) unfolding canonical_list by blast+
  have g: "unat g0 = (unat f0 + unat f1 * 2 ^ 26) mod 2 ^ 32" "unat g1 = (unat f1 div 2 ^ 6 + unat f2 * 2 ^ 20) mod 2 ^ 32"
    "unat g2 = (unat f2 div 2 ^ 12 + unat f3 * 2 ^ 14) mod 2 ^ 32" "unat g3 = (unat f3 div 2 ^ 18 + unat f4 * 2 ^ 8) mod 2 ^ 32"
    unfolding g0_def g1_def g2_def g3_def unat_drop_bit_div [symmetric]
    by (rule or_push_mask; use fb in \<open>simp add: unat_drop_bit_div less_mult_imp_div_less\<close>)+
  show "unat g0 < 2 ^ 32" "unat g1 < 2 ^ 32" "unat g2 < 2 ^ 32" "unat g3 < 2 ^ 32" unfolding g by simp_all
  show "limbs [f0, f1, f2, f3, f4]
      = unat g0 + 2 ^ 32 * unat g1 + 2 ^ 64 * unat g2 + 2 ^ 96 * unat g3 + 2 ^ 128 * (unat f4 div 2 ^ 24)"
    unfolding limbs_def nth_list5 g by (rule pack_words [OF fb(1-4)])
qed

lemma tag_spec:
  assumes "canonical f" "length pad = 4" "\<forall>x\<in>set pad. unat x < 2 ^ 32"
  shows "poly1305_tag f pad = le_bytes 16
    (limbs f + (unat (pad ! 0) + 2 ^ 32 * unat (pad ! 1) + 2 ^ 64 * unat (pad ! 2) + 2 ^ 96 * unat (pad ! 3)))"
proof -
  obtain f0 f1 f2 f3 f4 where fs: "f = [f0, f1, f2, f3, f4]" using assms(1) list5 unfolding canonical_def by blast
  have pb: "unat (pad ! 0) < 2 ^ 32" "unat (pad ! 1) < 2 ^ 32" "unat (pad ! 2) < 2 ^ 32" "unat (pad ! 3) < 2 ^ 32"
    using assms(2,3) by simp_all
  define g0 where "g0 = (f0 OR push_bit 26 f1) AND 0xffffffff"
  define g1 where "g1 = (drop_bit 6 f1 OR push_bit 20 f2) AND 0xffffffff"
  define g2 where "g2 = (drop_bit 12 f2 OR push_bit 14 f3) AND 0xffffffff"
  define g3 where "g3 = (drop_bit 18 f3 OR push_bit 8 f4) AND 0xffffffff"
  note g = pack_spec [OF assms(1) [unfolded fs], folded g0_def g1_def g2_def g3_def fs]
  define x0 where "x0 = g0 + pad ! 0"
  define x1 where "x1 = g1 + pad ! 1 + drop_bit 32 x0"
  define x2 where "x2 = g2 + pad ! 2 + drop_bit 32 x1"
  define x3 where "x3 = g3 + pad ! 3 + drop_bit 32 x2"
  have tag: "poly1305_tag f pad = U32TO8 x0 @ U32TO8 x1 @ U32TO8 x2 @ U32TO8 x3"
    unfolding poly1305_tag_def fs Let_def nth_list5 x3_def x2_def x1_def x0_def g0_def g1_def g2_def g3_def by (rule refl)
  have step: "unat (g + p + drop_bit 32 x) = unat g + unat p + unat x div 2 ^ 32" if "unat g < 2 ^ 32" "unat p < 2 ^ 32" for g p x :: u64
    using that less_mult_imp_div_less [of "unat x" "2 ^ 32" "2 ^ 32"] by (simp add: unat_add_u64 unat_drop_bit_div)
  have x: "unat x0 = unat g0 + unat (pad ! 0)" "unat x1 = unat g1 + unat (pad ! 1) + unat x0 div 2 ^ 32"
    "unat x2 = unat g2 + unat (pad ! 2) + unat x1 div 2 ^ 32" "unat x3 = unat g3 + unat (pad ! 3) + unat x2 div 2 ^ 32"
    using step [OF g(2) pb(2)] step [OF g(3) pb(3)] step [OF g(4) pb(4)] g(1) pb(1)
    by (simp_all add: x0_def x1_def x2_def x3_def unat_add_u64)
  have "limbs f + (unat (pad ! 0) + 2 ^ 32 * unat (pad ! 1) + 2 ^ 64 * unat (pad ! 2) + 2 ^ 96 * unat (pad ! 3))
    = unat g0 + unat (pad ! 0) + 2 ^ 32 * (unat g1 + unat (pad ! 1)) + 2 ^ 64 * (unat g2 + unat (pad ! 2))
      + 2 ^ 96 * (unat g3 + unat (pad ! 3)) + 2 ^ 128 * (unat f4 div 2 ^ 24)"
    unfolding g(5) by (simp only: distrib_left add_ac)
  then show ?thesis
    unfolding tag U32TO8_eq by (intro le_bytes_16 [OF _ x]) (simp only: mod_mult_self2)
qed

end
