(* ===== verification/Poly1305_Correct.thy ===== *)
theory Poly1305_Correct
  imports Poly1305_Limbs
begin

unbundle bit_operations_syntax

text \<open>
  The operations of \<^verbatim>\<open>poly1305-donna.c\<close> on a message that comes in pieces, and their agreement with RFC 8439.
\<close>

section \<open>The key\<close>

lemma and_limb: "(n AND M) div 2 ^ k mod 2 ^ 26 = (n div 2 ^ k mod 2 ^ 26) AND (M div 2 ^ k mod 2 ^ 26)" for n M :: nat
  by (simp only: drop_bit_eq_div [symmetric] take_bit_eq_mod [symmetric] drop_bit_and take_bit_and)

lemma and_top: "(n AND M) div 2 ^ k = (n div 2 ^ k) AND (M div 2 ^ k)" for n M :: nat
  by (simp only: drop_bit_eq_div [symmetric] drop_bit_and)

lemma unat_and_submask: "unat (x AND y) = unat (x AND 0x3ffffff) AND unat y" if "y AND 0x3ffffff = y" for x y :: u64
proof -
  have "x AND y = (x AND 0x3ffffff) AND y" using that by (metis and.assoc and.commute)
  then show ?thesis by (simp only: unsigned_and_eq)
qed

lemma submask_less: "unat (x AND y) < 2 ^ 26" if "y AND 0x3ffffff = y" for x y :: u64
proof -
  have "x AND y = (x AND y) AND 0x3ffffff" using that by (metis and.assoc)
  then have "unat (x AND y) = unat (x AND y) mod 2 ^ 26" by (metis unat_masked(1))
  then show ?thesis by (metis mod_less_divisor zero_less_power zero_less_numeral)
qed

definition key_r :: "bytes \<Rightarrow> u64 list" where
  "key_r key = ps_r (poly1305_init \<lparr>ps_r = [], ps_h = [], ps_pad = [], ps_leftover = 0, ps_buffer = [], ps_final = False\<rparr> key)"

definition key_pad :: "bytes \<Rightarrow> u64 list" where
  "key_pad key = ps_pad (poly1305_init \<lparr>ps_r = [], ps_h = [], ps_pad = [], ps_leftover = 0, ps_buffer = [], ps_final = False\<rparr> key)"

lemma key_r_spec:
  assumes "length key = 32"
  shows "length (key_r key) = 5" "\<forall>x\<in>set (key_r key). unat x < 2 ^ 26" "limbs (key_r key) = rfc_clamp (le_val (take 16 key))"
proof -
  define n where "n = le_val (take 16 key)"
  have len: "length (take 16 key) = 16" and m: "16 \<le> length key" using assms by simp_all
  note fl = block_limbs [OF len, folded n_def] and dr = U8TO32_take [OF _ m]
  have top: "n div 2 ^ 104 < 2 ^ 24" using fl(6) by (simp add: less_mult_imp_div_less)
  have r0: "unat (U8TO32 key AND 0x3ffffff) = (n mod 2 ^ 26) AND 0x3ffffff"
    using unat_and_submask [of "0x3ffffff" "U8TO32 key"] fl(1) dr [of 0] by simp
  have r1: "unat (drop_bit 2 (U8TO32 (drop 3 key)) AND 0x3ffff03) = (n div 2 ^ 26 mod 2 ^ 26) AND 0x3ffff03"
    using unat_and_submask [of "0x3ffff03" "drop_bit 2 (U8TO32 (drop 3 key))"] fl(2) dr [of 3] by simp
  have r2: "unat (drop_bit 4 (U8TO32 (drop 6 key)) AND 0x3ffc0ff) = (n div 2 ^ 52 mod 2 ^ 26) AND 0x3ffc0ff"
    using unat_and_submask [of "0x3ffc0ff" "drop_bit 4 (U8TO32 (drop 6 key))"] fl(3) dr [of 6] by simp
  have r3: "unat (drop_bit 6 (U8TO32 (drop 9 key)) AND 0x3f03fff) = (n div 2 ^ 78 mod 2 ^ 26) AND 0x3f03fff"
    using unat_and_submask [of "0x3f03fff" "drop_bit 6 (U8TO32 (drop 9 key))"] fl(4) dr [of 9] by simp
  have r4: "unat (drop_bit 8 (U8TO32 (drop 12 key)) AND 0x00fffff) = (n div 2 ^ 104) AND 0x00fffff"
    using fl(5) dr [of 12] by (simp add: unsigned_and_eq)
  have list: "key_r key = [U8TO32 key AND 0x3ffffff, drop_bit 2 (U8TO32 (drop 3 key)) AND 0x3ffff03,
    drop_bit 4 (U8TO32 (drop 6 key)) AND 0x3ffc0ff, drop_bit 6 (U8TO32 (drop 9 key)) AND 0x3f03fff,
    drop_bit 8 (U8TO32 (drop 12 key)) AND 0x00fffff]" by (simp add: key_r_def poly1305_init_def)
  then show "length (key_r key) = 5" by simp
  show "\<forall>x\<in>set (key_r key). unat x < 2 ^ 26"
    unfolding list list.set ball_simps by (intro conjI TrueI; rule submask_less) simp_all
  define M :: nat where "M = 0x0ffffffc0ffffffc0ffffffc0fffffff"
  have M: "M mod 2 ^ 26 = 0x3ffffff" "M div 2 ^ 26 mod 2 ^ 26 = 0x3ffff03" "M div 2 ^ 52 mod 2 ^ 26 = 0x3ffc0ff"
    "M div 2 ^ 78 mod 2 ^ 26 = 0x3f03fff" "M div 2 ^ 104 = 0x00fffff" by (simp_all add: M_def)
  have "limbs (key_r key) = n AND M"
    unfolding limbs_def list nth_list5 r0 r1 r2 r3 r4 M [symmetric] and_limb [symmetric] and_top [symmetric]
    using and_limb [of n M 0] split_limbs [of "n AND M"] by simp
  then show "limbs (key_r key) = rfc_clamp (le_val (take 16 key))" by (simp add: rfc_clamp_def M_def n_def)
qed

lemma horner3:
  fixes n :: nat
  assumes "n = 2 ^ 32 * a + n0" "a = 2 ^ 32 * b + a0" "b = 2 ^ 32 * c + b0"
  shows "n0 + 2 ^ 32 * a0 + 2 ^ 64 * b0 + 2 ^ 96 * c = n"
  unfolding assms by (simp add: algebra_simps)

lemma key_pad_spec:
  assumes "length key = 32"
  shows "length (key_pad key) = 4" "\<forall>x\<in>set (key_pad key). unat x < 2 ^ 32"
    and "unat (key_pad key ! 0) + 2 ^ 32 * unat (key_pad key ! 1) + 2 ^ 64 * unat (key_pad key ! 2) + 2 ^ 96 * unat (key_pad key ! 3)
      = le_val (take 16 (drop 16 key))"
proof -
  define p where "p = take 16 (drop 16 key)"
  have u: "unat (U8TO32 (drop (16 + i) key)) = le_val p div 256 ^ i mod 2 ^ 32" if "i \<le> 12" for i
    using U8TO32_take [of i "drop 16 key"] U8TO32_drop [of i p] that assms by (simp add: p_def add.commute)
  have list: "key_pad key = [U8TO32 (drop (16 + 0) key), U8TO32 (drop (16 + 4) key), U8TO32 (drop (16 + 8) key), U8TO32 (drop (16 + 12) key)]"
    by (simp add: key_pad_def poly1305_init_def)
  then show "length (key_pad key) = 4" by simp
  show "\<forall>x\<in>set (key_pad key). unat x < 2 ^ 32"
    unfolding list list.set ball_simps using u [of 0] u [of 4] u [of 8] u [of 12] by simp
  define s a b c where "s = le_val p" and "a = s div 2 ^ 32" and "b = a div 2 ^ 32" and "c = b div 2 ^ 32"
  have "s < 2 ^ 128" using be_val_less [of "rev p"] assms by (simp add: s_def p_def)
  then have "c < 2 ^ 32" by (simp add: a_def b_def c_def less_mult_imp_div_less div_mult2_eq [symmetric])
  then have c: "c mod 2 ^ 32 = c" by simp
  have d: "s div 256 ^ 4 = a" "s div 256 ^ 8 = b" "s div 256 ^ 12 = c" by (simp_all add: a_def b_def c_def div_mult2_eq [symmetric])
  have h: "s = 2 ^ 32 * a + s mod 2 ^ 32" "a = 2 ^ 32 * b + a mod 2 ^ 32" "b = 2 ^ 32 * c + b mod 2 ^ 32" by (simp_all add: a_def b_def c_def)
  have "s mod 2 ^ 32 + 2 ^ 32 * (a mod 2 ^ 32) + 2 ^ 64 * (b mod 2 ^ 32) + 2 ^ 96 * c = s"
    by (rule horner3 [OF h])
  then show "unat (key_pad key ! 0) + 2 ^ 32 * unat (key_pad key ! 1) + 2 ^ 64 * unat (key_pad key ! 2) + 2 ^ 96 * unat (key_pad key ! 3)
      = le_val (take 16 (drop 16 key))"
    unfolding list p_def [symmetric] using u [of 0] u [of 4] u [of 8] u [of 12] d c by (simp add: s_def)
qed

section \<open>Blocks\<close>

lemma rfc_poly_append: "16 dvd length x \<Longrightarrow> rfc_poly r a (x @ y) = rfc_poly r (rfc_poly r a x) y"
proof (induction x arbitrary: a rule: length_induct)
  case (1 x)
  show ?case
  proof (cases "x = []")
    case True
    then show ?thesis by (simp add: rfc_poly.simps [of r a "[]"])
  next
    case False
    then have x: "16 \<le> length x" using 1(2) by (simp add: dvd_imp_le)
    then have "16 dvd length (drop 16 x)" using 1(2) by (simp add: dvd_diff_nat)
    then have "rfc_poly r b (drop 16 x @ y) = rfc_poly r (rfc_poly r b (drop 16 x)) y" for b using 1(1) False by simp
    then show ?thesis using False x by (simp add: rfc_poly.simps [of r a x] rfc_poly.simps [of r a "x @ y"])
  qed
qed

lemma rfc_poly_block: "x \<noteq> [] \<Longrightarrow> length x \<le> 16 \<Longrightarrow> rfc_poly r a x = (a + le_val (x @ [1])) * r mod poly_p"
  by (simp add: rfc_poly.simps [of r a x] rfc_poly.simps [of r _ "[]"])

lemma mod_fold: "(a mod p + b) * r mod p = (a + b) * r mod p" for a b r p :: nat
  by (metis mod_add_left_eq mod_mult_left_eq)

lemma le_val_one: "be_val (1 # rev x) = le_val x + 256 ^ length x"
  using le_val_append [of x "[1]"] be_val_snoc [of "[]" 1] by (simp add: mult.commute)

lemma loop_spec:
  assumes r: "length r = 5" "\<forall>x\<in>set r. unat x < 2 ^ 26"
  shows "tight h \<Longrightarrow> 16 dvd n \<Longrightarrow> n \<le> length m \<Longrightarrow>
    tight (poly1305_loop (push_bit 24 1) r h m n)
    \<and> limbs (poly1305_loop (push_bit 24 1) r h m n) mod poly_p = rfc_poly (limbs r) (limbs h mod poly_p) (take n m) mod poly_p"
proof (induction n arbitrary: h m rule: less_induct)
  case (less n)
  show ?case
  proof (cases "16 \<le> n")
    case False
    then have "n = 0" using less.prems(2) by (auto elim!: dvdE)
    then show ?thesis using less.prems by (simp add: poly1305_loop.simps [of _ r h m 0] rfc_poly.simps [of _ _ "[]"])
  next
    case True
    define h' where "h' = poly1305_block (push_bit 24 1) r h m"
    have h': "tight h'" "limbs h' mod poly_p = (limbs h + (le_val (take 16 m) + 2 ^ 128)) * limbs r mod poly_p"
      using block_spec [OF less.prems(1) r, of m 1] less.prems(3) True by (simp_all add: h'_def)
    have "rfc_poly (limbs r) (limbs h mod poly_p) (take n m)
        = rfc_poly (limbs r) (rfc_poly (limbs r) (limbs h mod poly_p) (take 16 m)) (take (n - 16) (drop 16 m))"
      using rfc_poly_append [of "take 16 m" "limbs r" _ "take (n - 16) (drop 16 m)"] True less.prems(3)
      by (simp add: take_add [symmetric])
    also have "rfc_poly (limbs r) (limbs h mod poly_p) (take 16 m) = limbs h' mod poly_p"
      using True less.prems(3) by (subst rfc_poly_block) (auto simp: h'(2) le_val_one mod_fold)
    finally have e: "rfc_poly (limbs r) (limbs h mod poly_p) (take n m) = rfc_poly (limbs r) (limbs h' mod poly_p) (take (n - 16) (drop 16 m))" .
    have "16 dvd n - 16" using less.prems(2) by (simp add: dvd_diff_nat)
    then show ?thesis
      unfolding poly1305_loop.simps [of _ r h m n] e h'_def [symmetric]
      using less.IH [of "n - 16" h' "drop 16 m"] h'(1) less.prems(3) True by simp
  qed
qed

section \<open>Pieces\<close>

text \<open>A state that has absorbed the blocks \<open>a\<close> and holds the bytes \<open>b\<close> of an unfinished one.\<close>

definition poly_holds :: "bytes \<Rightarrow> bytes \<Rightarrow> bytes \<Rightarrow> poly1305_state \<Rightarrow> bool" where
  "poly_holds key a b st \<longleftrightarrow> length key = 32 \<and> ps_r st = key_r key \<and> ps_pad st = key_pad key \<and> tight (ps_h st)
     \<and> length (ps_buffer st) = 16 \<and> \<not> ps_final st \<and> 16 dvd length a \<and> ps_leftover st = length b \<and> take (length b) (ps_buffer st) = b
     \<and> limbs (ps_h st) mod poly_p = rfc_poly (limbs (key_r key)) 0 a mod poly_p"

definition poly_rep :: "bytes \<Rightarrow> bytes \<Rightarrow> poly1305_state \<Rightarrow> bool" where
  "poly_rep key m st \<longleftrightarrow> (\<exists>a b. m = a @ b \<and> length b < 16 \<and> poly_holds key a b st)"

lemma rfc_poly_mod: "rfc_poly r (a mod poly_p) x mod poly_p = rfc_poly r a x mod poly_p"
  by (cases "x = []") (simp_all add: rfc_poly.simps [of r _ x] rfc_poly.simps [of r _ "[]"] mod_fold)

lemma blocks_holds:
  assumes "poly_holds key a b st" "16 dvd n" "n \<le> length m" "ps_leftover st' = length b'" "take (length b') (ps_buffer st') = b'"
    and "st' = (poly1305_blocks st m n)\<lparr>ps_leftover := ps_leftover st', ps_buffer := ps_buffer st'\<rparr>" "length (ps_buffer st') = 16"
  shows "poly_holds key (a @ take n m) b' st'"
proof -
  have st: "length key = 32" "tight (ps_h st)" "ps_r st = key_r key" "\<not> ps_final st" "16 dvd length a"
    "limbs (ps_h st) mod poly_p = rfc_poly (limbs (key_r key)) 0 a mod poly_p" using assms(1) by (simp_all add: poly_holds_def)
  have h: "ps_h st' = poly1305_loop (push_bit 24 1) (key_r key) (ps_h st) m n"
    using st by (subst assms(6)) (simp add: poly1305_blocks_def)
  have other: "ps_r st' = ps_r st" "ps_pad st' = ps_pad st" "ps_final st' = ps_final st"
    by (subst assms(6), simp add: poly1305_blocks_def)+
  note l = loop_spec [OF key_r_spec(1,2) [OF st(1)] st(2) assms(2,3)]
  have "limbs (ps_h st') mod poly_p = rfc_poly (limbs (key_r key)) (rfc_poly (limbs (key_r key)) 0 a) (take n m) mod poly_p"
    using l st(6) by (simp add: h rfc_poly_mod)
  then show ?thesis
    using l assms st other by (simp add: poly_holds_def h rfc_poly_append)
qed

lemma update_rest_rep:
  assumes "poly_holds key a [] st"
  shows "poly_rep key (a @ m) (poly1305_update_rest st m)"
proof -
  define n where "n = length m div 16 * 16"
  have n: "16 dvd n" "n \<le> length m" "length (drop n m) < 16"
    using mod_less_divisor [of 16 "length m"] by (simp_all add: n_def minus_div_mult_eq_mod)
  have want: "(if 16 \<le> length m then length m div 16 * 16 else 0) = n" by (simp add: n_def)
  have blocks: "(if 16 \<le> length m then poly1305_blocks st m n else st) = poly1305_blocks st m n"
    by (simp add: n_def poly1305_blocks_def poly1305_loop.simps [of _ _ _ _ 0])
  define st' where "st' = poly1305_update_rest st m"
  have b: "ps_leftover st = 0" "length (ps_buffer st) = 16" using assms by (simp_all add: poly_holds_def)
  have st': "st' = (poly1305_blocks st m n)\<lparr>ps_buffer := mem_write (ps_buffer st) 0 (drop n m), ps_leftover := length (drop n m)\<rparr>"
    using b by (simp add: st'_def poly1305_update_rest_def Let_def want blocks n_def [symmetric] mem_write_def poly1305_blocks_def)
  have "poly_holds key (a @ take n m) (drop n m) st'"
    by (rule blocks_holds [OF assms n(1,2)]) (use n b in \<open>simp_all add: st' mem_write_def poly1305_blocks_def\<close>)
  then show ?thesis using n(3) unfolding poly_rep_def st'_def [symmetric]
    by (intro exI [of _ "a @ take n m"] exI [of _ "drop n m"]) simp
qed

lemma update_rep:
  assumes "poly_rep key m st"
  shows "poly_rep key (m @ d) (poly1305_update st d)"
proof -
  obtain a b where ab: "m = a @ b" "length b < 16" "poly_holds key a b st" using assms by (auto simp: poly_rep_def)
  then have b: "ps_leftover st = length b" "length (ps_buffer st) = 16" "take (length b) (ps_buffer st) = b" by (simp_all add: poly_holds_def)
  show ?thesis
  proof (cases "b = []")
    case True
    then show ?thesis using ab b update_rest_rep [of key a st d] by (simp add: poly1305_update_def)
  next
    case False
    define n where "n = min (16 - length b) (length d)"
    define st1 where "st1 = st\<lparr>ps_buffer := mem_write (ps_buffer st) (length b) (take n d), ps_leftover := length b + n\<rparr>"
    have buf: "length (ps_buffer st1) = 16" "take (length b + n) (ps_buffer st1) = b @ take n d"
      using b ab(2) take_mem_write [of "length b" "take n d" "length b + n" "ps_buffer st"] by (simp_all add: st1_def n_def)
    have upd: "poly1305_update st d = (if length b + n < 16 then st1
        else poly1305_update_rest ((poly1305_blocks st1 (ps_buffer st1) 16)\<lparr>ps_leftover := 0\<rparr>) (drop n d))"
      using False b by (simp add: poly1305_update_def Let_def n_def st1_def)
    show ?thesis
    proof (cases "length b + n < 16")
      case True
      then have "n = length d" using ab(2) by (simp add: n_def)
      then have "poly_holds key a (b @ d) st1" "length (b @ d) < 16" using ab(3) buf True by (simp_all add: poly_holds_def st1_def)
      then show ?thesis
        using upd True ab(1) unfolding poly_rep_def by (intro exI [of _ a] exI [of _ "b @ d"]) simp
    next
      case full: False
      then have n: "length b + n = 16" using ab(2) by (simp add: n_def)
      define st2 where "st2 = (poly1305_blocks st1 (ps_buffer st1) 16)\<lparr>ps_leftover := 0\<rparr>"
      have "poly_holds key (a @ take 16 (ps_buffer st1)) [] st2"
        by (rule blocks_holds [OF ab(3)]) (use buf in \<open>simp_all add: st2_def st1_def poly1305_blocks_def\<close>)
      then have "poly_holds key (a @ b @ take n d) [] st2" using buf n by simp
      from update_rest_rep [OF this, of "drop n d"] show ?thesis
        using upd full ab(1) by (simp add: st2_def)
    qed
  qed
qed

section \<open>The result\<close>

lemma last_spec:
  assumes "poly_rep key m st"
  defines "st' \<equiv> poly1305_last st"
  shows "tight (ps_h st')" and "ps_pad st' = key_pad key"
    and "limbs (ps_h st') mod poly_p = rfc_poly (limbs (key_r key)) 0 m mod poly_p"
proof -
  obtain a b where m: "m = a @ b" "length b < 16" and st: "poly_holds key a b st" using assms(1) by (auto simp: poly_rep_def)
  then have b: "ps_leftover st = length b" "length (ps_buffer st) = 16" "take (length b) (ps_buffer st) = b"
    and h: "tight (ps_h st)" "ps_pad st = key_pad key" "ps_r st = key_r key" "length key = 32" "16 dvd length a"
      "limbs (ps_h st) mod poly_p = rfc_poly (limbs (key_r key)) 0 a mod poly_p" by (simp_all add: poly_holds_def)
  have "tight (ps_h st') \<and> ps_pad st' = key_pad key \<and> limbs (ps_h st') mod poly_p = rfc_poly (limbs (key_r key)) 0 m mod poly_p"
  proof (cases "b = []")
    case True
    then show ?thesis using b h m by (simp add: st'_def poly1305_last_def)
  next
    case False
    define buf where "buf = mem_write (ps_buffer st) (length b) (1 # replicate (16 - (length b + 1)) 0)"
    have buf: "buf = b @ 1 # replicate (15 - length b) 0" using b m(2) by (simp add: buf_def mem_write_def)
    have zero: "le_val (b @ 1 # replicate k 0) = be_val (1 # rev b)" for k
      using le_val_append [of "b @ [1]" "replicate k 0"] be_val_eq_0_iff [of "replicate k 0"] by simp
    have h': "ps_h st' = poly1305_block (push_bit 24 0) (key_r key) (ps_h st) buf" "ps_pad st' = key_pad key"
      using False b h by (simp_all add: st'_def poly1305_last_def Let_def poly1305_blocks_def buf_def poly1305_loop.simps)
    have "length buf = 16" using m(2) by (simp add: buf)
    then have "tight (ps_h st')" "limbs (ps_h st') mod poly_p = (limbs (ps_h st) + be_val (1 # rev b)) * limbs (key_r key) mod poly_p"
      unfolding h' using block_spec [OF h(1) key_r_spec(1,2) [OF h(4)], of buf 0] zero by (simp_all add: buf)
    moreover have "rfc_poly (limbs (key_r key)) 0 m mod poly_p
        = (rfc_poly (limbs (key_r key)) 0 a mod poly_p + be_val (1 # rev b)) * limbs (key_r key) mod poly_p"
      using rfc_poly_append [OF h(5)] rfc_poly_block [OF False, of "limbs (key_r key)"] m by (simp add: mod_fold)
    ultimately show ?thesis using h(6) h'(2) by (metis mod_fold)
  qed
  then show "tight (ps_h st')" "ps_pad st' = key_pad key" "limbs (ps_h st') mod poly_p = rfc_poly (limbs (key_r key)) 0 m mod poly_p"
    by blast+
qed

lemma rfc_poly_less: "a < poly_p \<Longrightarrow> rfc_poly r a m < poly_p"
  by (induction r a m rule: rfc_poly.induct) (simp add: rfc_poly.simps [of _ _ m for m] poly_p_def)

lemma finish_spec:
  assumes "poly_rep key m st"
  shows "fst (poly1305_finish st) = rfc_poly1305 key m"
proof -
  define h where "h = ps_h (poly1305_last st)"
  have key: "length key = 32" using assms by (auto simp: poly_rep_def poly_holds_def)
  note l = last_spec [OF assms, folded h_def]
  note c = carry_spec [OF l(1)] note r = reduce_spec [OF c(1)]
  have "limbs (poly1305_reduce (poly1305_carry h)) = rfc_poly (rfc_clamp (le_val (take 16 key))) 0 m mod poly_p"
    unfolding r(2) c(2) l(3) key_r_spec(3) [OF key] ..
  also have "\<dots> = rfc_poly (rfc_clamp (le_val (take 16 key))) 0 m"
    using rfc_poly_less [of 0 "rfc_clamp (le_val (take 16 key))" m] by (simp add: poly_p_def)
  finally have "poly1305_tag (poly1305_reduce (poly1305_carry h)) (key_pad key)
      = le_bytes 16 (rfc_poly (rfc_clamp (le_val (take 16 key))) 0 m + le_val (take 16 (drop 16 key)))"
    unfolding tag_spec [OF r(1) key_pad_spec(1,2) [OF key]] key_pad_spec(3) [OF key] by simp
  then show ?thesis
    unfolding poly1305_finish_def Let_def l(2) h_def [symmetric] fst_conv rfc_poly1305_def
    using le_bytes_mod [of 16 "rfc_poly (rfc_clamp (le_val (take 16 key))) 0 m + le_val (take 16 (drop 16 key))"] by simp
qed

lemma init_rep: "length key = 32 \<Longrightarrow> length (ps_buffer st) = 16 \<Longrightarrow> poly_rep key [] (poly1305_init st key)"
  by (simp add: poly_rep_def poly_holds_def poly1305_init_def key_r_def key_pad_def tight_def limbs_def rfc_poly.simps [of _ _ "[]"])

text \<open>A Poly1305 context is a message digest whose initial state depends on the 32 bytes of the key.\<close>

definition poly_key :: "bytes \<Rightarrow> bytes" where
  "poly_key key = take 32 (key @ replicate 32 0)"

interpretation poly1305: streaming_digest "poly_rep (poly_key key)"
  "CRYPTO_poly1305_init poly1305_raw (poly_key key)"
  CRYPTO_poly1305_update "\<lambda>st. Some (fst (CRYPTO_poly1305_finish st))" 16 "rfc_poly1305 (poly_key key)"
  by unfold_locales (simp_all add: init_rep poly_key_def poly1305_raw_def CRYPTO_poly1305_init_def CRYPTO_poly1305_update_def
      CRYPTO_poly1305_finish_def update_rep finish_spec rfc_poly1305_def)

text \<open>C17. Poly1305 is that of RFC 8439. For a key of 32 bytes and any message, absorbed in any pieces, the limb
  arithmetic in 64-bit words yields the tag that the RFC defines with unbounded integers: the polynomial in the clamped
  half of the key over the blocks, modulo \<open>2 ^ 130 - 5\<close>, plus the other half, modulo \<open>2 ^ 128\<close>.\<close>

theorem poly1305_is_rfc8439:
  assumes "length key = 32"
  shows "fst (CRYPTO_poly1305_finish (foldl CRYPTO_poly1305_update (CRYPTO_poly1305_init poly1305_raw key) ds))
    = rfc_poly1305 key (concat ds)"
  using poly1305.digest_of_pieces [of key ds] assms by (simp add: poly_key_def)

theorem poly1305_is_rfc8439_witness:
  "fst (CRYPTO_poly1305_finish (foldl CRYPTO_poly1305_update (CRYPTO_poly1305_init poly1305_raw (replicate 32 7)) [[1, 2], [], [3]]))
    = rfc_poly1305 (replicate 32 7) [1, 2, 3]"
  using poly1305_is_rfc8439 [of "replicate 32 7" "[[1, 2], [], [3]]"] by simp

text \<open>The five sums of products of a block, as the code forms them from the accumulator and the rows of key limbs.\<close>

definition dot5 :: "u64 list \<Rightarrow> u64 list \<Rightarrow> u64" where
  "dot5 a b = a ! 0 * b ! 0 + a ! 1 * b ! 1 + a ! 2 * b ! 2 + a ! 3 * b ! 3 + a ! 4 * b ! 4"

definition key_rows :: "u64 list \<Rightarrow> u64 list list" where
  "key_rows r = [[r ! 0, r ! 4 * 5, r ! 3 * 5, r ! 2 * 5, r ! 1 * 5], [r ! 1, r ! 0, r ! 4 * 5, r ! 3 * 5, r ! 2 * 5],
     [r ! 2, r ! 1, r ! 0, r ! 4 * 5, r ! 3 * 5], [r ! 3, r ! 2, r ! 1, r ! 0, r ! 4 * 5], [r ! 4, r ! 3, r ! 2, r ! 1, r ! 0]]"

lemma poly1305_block_rows:
  "poly1305_block hibit r h m =
    (let d = map (dot5 (add_block hibit h m)) (key_rows r) in carry_chain (d ! 0) (d ! 1) (d ! 2) (d ! 3) (d ! 4))"
  unfolding poly1305_block_eq mult_chain_def dot5_def key_rows_def Let_def list.map nth_list5 by (rule refl)

lemma rows_exact:
  assumes "length a = 5" "\<forall>x\<in>set a. unat x < 2 ^ 28" "length r = 5" "\<forall>x\<in>set r. unat x < 2 ^ 26"
  shows "\<forall>b\<in>set (key_rows r). unat (dot5 a b) = (\<Sum>i<5. unat (a ! i) * unat (b ! i)) \<and> unat (dot5 a b) < 2 ^ 60"
proof
  fix b assume b: "b \<in> set (key_rows r)"
  have r: "unat (r ! i) < 2 ^ 29 \<and> unat (r ! i * 5) < 2 ^ 29" if "i < 5" for i
  proof -
    have "unat (r ! i) < 2 ^ 26" using assms(3,4) that by simp
    then show ?thesis by (simp add: unat_mult_u64)
  qed
  have bb: "\<forall>x\<in>{b ! 0, b ! 1, b ! 2, b ! 3, b ! 4}. unat x < 2 ^ 29"
    using b r [of 0] r [of 1] r [of 2] r [of 3] r [of 4] unfolding key_rows_def by auto
  have aa: "\<forall>x\<in>{a ! 0, a ! 1, a ! 2, a ! 3, a ! 4}. unat x < 2 ^ 28" using assms(1,2) by simp
  have "(\<Sum>i<5. unat (a ! i) * unat (b ! i)) = unat (a ! 0) * unat (b ! 0) + unat (a ! 1) * unat (b ! 1) + unat (a ! 2) * unat (b ! 2)
      + unat (a ! 3) * unat (b ! 3) + unat (a ! 4) * unat (b ! 4)" by (simp add: eval_nat_numeral)
  then show "unat (dot5 a b) = (\<Sum>i<5. unat (a ! i) * unat (b ! i)) \<and> unat (dot5 a b) < 2 ^ 60"
    unfolding dot5_def using unat_dot5 [OF aa bb] by simp
qed

lemma reached_rep:
  assumes "length key = 32"
  shows "poly_rep key (concat ds) (foldl CRYPTO_poly1305_update (CRYPTO_poly1305_init poly1305_raw key) ds)"
  using poly1305.rep_updates [OF poly1305.rep_init, of key ds] assms by (simp add: poly_key_def)

text \<open>C39. No machine word overflows. Whatever a context with a key of 32 bytes has absorbed, its limbs are below
  \<open>2 ^ 26\<close>, but for the second, which may exceed it by less than \<open>2 ^ 16\<close>; and when the next block is added, each of
  the five sums of products in the words of the machine is the sum of products of the integers, below \<open>2 ^ 60\<close>.\<close>

theorem poly1305_no_overflow:
  fixes ds :: "bytes list"
  assumes "length key = 32" "16 \<le> length m"
  defines "st \<equiv> foldl CRYPTO_poly1305_update (CRYPTO_poly1305_init poly1305_raw key) ds"
  defines "a \<equiv> add_block (push_bit 24 1) (ps_h st) m"
  shows "tight (ps_h st) \<and> (\<forall>b\<in>set (key_rows (ps_r st)). unat (dot5 a b) = (\<Sum>i<5. unat (a ! i) * unat (b ! i)) \<and> unat (dot5 a b) < 2 ^ 60)"
proof -
  have st: "tight (ps_h st)" "ps_r st = key_r key"
    using reached_rep [OF assms(1), of ds] by (auto simp: st_def poly_rep_def poly_holds_def)
  have "length a = 5" by (simp add: a_def add_block_def)
  moreover have "\<forall>x\<in>set a. unat x < 2 ^ 28" unfolding a_def by (rule add_block_spec(2) [OF st(1) assms(2)]) simp
  ultimately show ?thesis
    unfolding st(2) using rows_exact key_r_spec(1,2) [OF assms(1)] st(1) by blast
qed

theorem poly1305_no_overflow_witness:
  "tight (ps_h (foldl CRYPTO_poly1305_update (CRYPTO_poly1305_init poly1305_raw (replicate 32 7)) [replicate 40 9, [1]]))"
  using poly1305_no_overflow [of "replicate 32 7" "replicate 16 0" "[replicate 40 9, [1]]"] by simp

end
