(* ===== verification/Chacha.thy ===== *)
theory Chacha
  imports Prelude
begin

unbundle bit_operations_syntax

text \<open>
  The ChaCha20 stream cipher, \<^verbatim>\<open>crypto/chacha/chacha-merged.c\<close> and \<^verbatim>\<open>crypto/chacha/chacha.c\<close>, and its agreement
  with RFC 8439. The sixteen words \<open>x0\<close> to \<open>x15\<close>, and \<open>j0\<close> to \<open>j15\<close>, are lists. A pointer that is advanced is the
  rest of the list, and an operation that writes to a buffer returns what it writes.
  The bytes of \<open>tmp\<close> that are not set before they are read are an argument.
\<close>

section \<open>The code\<close>

definition ROTL32 :: "u32 \<Rightarrow> nat \<Rightarrow> u32" where
  "ROTL32 v n = push_bit n v OR drop_bit (32 - n) v"

definition U8TO32_LITTLE :: "bytes \<Rightarrow> u32" where
  "U8TO32_LITTLE p = ucast (p ! 0) OR push_bit 8 (ucast (p ! 1)) OR push_bit 16 (ucast (p ! 2)) OR push_bit 24 (ucast (p ! 3))"

definition U32TO8_LITTLE :: "u32 \<Rightarrow> bytes" where
  "U32TO8_LITTLE v = [ucast v, ucast (drop_bit 8 v), ucast (drop_bit 16 v), ucast (drop_bit 24 v)]"

definition QUARTERROUND :: "nat \<Rightarrow> nat \<Rightarrow> nat \<Rightarrow> nat \<Rightarrow> u32 list \<Rightarrow> u32 list" where
  "QUARTERROUND a b c d x =
     (let x = x[a := x ! a + x ! b]; x = x[d := ROTL32 (x ! d XOR x ! a) 16];
          x = x[c := x ! c + x ! d]; x = x[b := ROTL32 (x ! b XOR x ! c) 12];
          x = x[a := x ! a + x ! b]; x = x[d := ROTL32 (x ! d XOR x ! a) 8];
          x = x[c := x ! c + x ! d]; x = x[b := ROTL32 (x ! b XOR x ! c) 7]
      in x)"

definition sigma :: bytes where
  "sigma = [0x65, 0x78, 0x70, 0x61, 0x6e, 0x64, 0x20, 0x33, 0x32, 0x2d, 0x62, 0x79, 0x74, 0x65, 0x20, 0x6b]"

definition tau :: bytes where
  "tau = [0x65, 0x78, 0x70, 0x61, 0x6e, 0x64, 0x20, 0x31, 0x36, 0x2d, 0x62, 0x79, 0x74, 0x65, 0x20, 0x6b]"

record chacha_ctx =
  cc_input :: "u32 list"
  cc_ks :: bytes
  cc_unused :: nat

definition chacha_keysetup :: "chacha_ctx \<Rightarrow> bytes \<Rightarrow> nat \<Rightarrow> chacha_ctx" where
  "chacha_keysetup x k kbits =
     (let inp = cc_input x;
          inp = inp[4 := U8TO32_LITTLE k, 5 := U8TO32_LITTLE (drop 4 k),
            6 := U8TO32_LITTLE (drop 8 k), 7 := U8TO32_LITTLE (drop 12 k)];
          k2 = (if kbits = 256 then drop 16 k else k);
          constants = (if kbits = 256 then sigma else tau);
          inp = inp[8 := U8TO32_LITTLE k2, 9 := U8TO32_LITTLE (drop 4 k2),
            10 := U8TO32_LITTLE (drop 8 k2), 11 := U8TO32_LITTLE (drop 12 k2)];
          inp = inp[0 := U8TO32_LITTLE constants, 1 := U8TO32_LITTLE (drop 4 constants),
            2 := U8TO32_LITTLE (drop 8 constants), 3 := U8TO32_LITTLE (drop 12 constants)]
      in x\<lparr>cc_input := inp\<rparr>)"

definition chacha_ivsetup :: "chacha_ctx \<Rightarrow> bytes \<Rightarrow> bytes option \<Rightarrow> chacha_ctx" where
  "chacha_ivsetup x iv counter =
     x\<lparr>cc_input := (cc_input x)
        [12 := (case counter of None \<Rightarrow> 0 | Some c \<Rightarrow> U8TO32_LITTLE c),
         13 := (case counter of None \<Rightarrow> 0 | Some c \<Rightarrow> U8TO32_LITTLE (drop 4 c)),
         14 := U8TO32_LITTLE iv, 15 := U8TO32_LITTLE (drop 4 iv)]\<rparr>"

text \<open>The two rounds in the body of the inner loop, the loop, and the loop followed by the addition of the
  input.\<close>

definition chacha_double_round :: "u32 list \<Rightarrow> u32 list" where
  "chacha_double_round x =
     (let x = QUARTERROUND 0 4 8 12 x; x = QUARTERROUND 1 5 9 13 x;
          x = QUARTERROUND 2 6 10 14 x; x = QUARTERROUND 3 7 11 15 x;
          x = QUARTERROUND 0 5 10 15 x; x = QUARTERROUND 1 6 11 12 x;
          x = QUARTERROUND 2 7 8 13 x; x = QUARTERROUND 3 4 9 14 x
      in x)"

definition chacha_rounds :: "u32 list \<Rightarrow> u32 list" where
  "chacha_rounds x = (chacha_double_round ^^ 10) x"

definition chacha_core :: "u32 list \<Rightarrow> u32 list" where
  "chacha_core j = map2 (+) (chacha_rounds j) j"

definition chacha_words :: "bytes \<Rightarrow> u32 list" where
  "chacha_words m = map (\<lambda>i. U8TO32_LITTLE (drop (4 * i) m)) [0..<16]"

definition next_counter :: "u32 list \<Rightarrow> u32 list" where
  "next_counter j =
     (let j12 = j ! 12 + 1; j13 = (if j12 = 0 then j ! 13 + 1 else j ! 13) in j[12 := j12, 13 := j13])"

text \<open>The loop \<^verbatim>\<open>for (;;)\<close> returns what it has written to \<open>c\<close>, the final \<open>j12\<close> and \<open>j13\<close>, what it has stored in
  \<open>ks\<close>, if the last block is partial, and in \<open>unused\<close>.\<close>

function chacha_loop :: "bytes \<Rightarrow> u32 list \<Rightarrow> bytes \<Rightarrow> nat \<Rightarrow> bytes \<times> u32 list \<times> bytes option \<times> nat" where
  "chacha_loop tmp j m n =
     (let m1 = (if n < 64 then take n m @ drop n tmp else m);
          x = chacha_core j;
          ks = (if n < 64 then Some (concat (map U32TO8_LITTLE x)) else None);
          c = concat (map U32TO8_LITTLE (map2 (XOR) x (chacha_words m1)));
          j = next_counter j
      in if n \<le> 64 then (take n c, j, ks, 64 - n)
         else case chacha_loop tmp j (drop 64 m) (n - 64) of (cs, j, ks, unused) \<Rightarrow> (c @ cs, j, ks, unused))"
  by pat_completeness auto
termination by (relation "measure (\<lambda>(tmp, j, m, n). n)") auto

declare chacha_loop.simps [simp del]

definition chacha_encrypt_bytes :: "bytes \<Rightarrow> chacha_ctx \<Rightarrow> bytes \<Rightarrow> u32 \<Rightarrow> bytes \<times> chacha_ctx" where
  "chacha_encrypt_bytes tmp x m n =
     (if n = 0 then ([], x)
      else case chacha_loop tmp (cc_input x) m (unat n) of
        (c, j, ks, unused) \<Rightarrow>
          (c, x\<lparr>cc_input := (cc_input x)[12 := j ! 12, 13 := j ! 13],
                cc_ks := (case ks of None \<Rightarrow> cc_ks x | Some k \<Rightarrow> k),
                cc_unused := unused\<rparr>))"

definition CRYPTO_hchacha_20 :: "bytes \<Rightarrow> bytes \<Rightarrow> bytes" where
  "CRYPTO_hchacha_20 key nonce =
     (let x = [U8TO32_LITTLE sigma, U8TO32_LITTLE (drop 4 sigma), U8TO32_LITTLE (drop 8 sigma), U8TO32_LITTLE (drop 12 sigma),
            U8TO32_LITTLE key, U8TO32_LITTLE (drop 4 key), U8TO32_LITTLE (drop 8 key), U8TO32_LITTLE (drop 12 key),
            U8TO32_LITTLE (drop 16 key), U8TO32_LITTLE (drop 20 key), U8TO32_LITTLE (drop 24 key), U8TO32_LITTLE (drop 28 key),
            U8TO32_LITTLE nonce, U8TO32_LITTLE (drop 4 nonce), U8TO32_LITTLE (drop 8 nonce), U8TO32_LITTLE (drop 12 nonce)];
          x = chacha_rounds x
      in U32TO8_LITTLE (x ! 0) @ U32TO8_LITTLE (x ! 1) @ U32TO8_LITTLE (x ! 2) @ U32TO8_LITTLE (x ! 3)
         @ U32TO8_LITTLE (x ! 12) @ U32TO8_LITTLE (x ! 13) @ U32TO8_LITTLE (x ! 14) @ U32TO8_LITTLE (x ! 15))"

definition ChaCha_set_key :: "chacha_ctx \<Rightarrow> bytes \<Rightarrow> nat \<Rightarrow> chacha_ctx" where
  "ChaCha_set_key ctx key keybits = (chacha_keysetup ctx key keybits)\<lparr>cc_unused := 0\<rparr>"

definition ChaCha_set_iv :: "chacha_ctx \<Rightarrow> bytes \<Rightarrow> bytes option \<Rightarrow> chacha_ctx" where
  "ChaCha_set_iv ctx iv counter = (chacha_ivsetup ctx iv counter)\<lparr>cc_unused := 0\<rparr>"

definition ChaCha :: "bytes \<Rightarrow> chacha_ctx \<Rightarrow> bytes \<Rightarrow> bytes \<times> chacha_ctx" where
  "ChaCha tmp ctx inp =
     (let l = (if 0 < cc_unused ctx then min (length inp) (cc_unused ctx) else 0);
          k = drop (64 - cc_unused ctx) (cc_ks ctx);
          out = map2 (XOR) (take l inp) k;
          ctx = ctx\<lparr>cc_unused := cc_unused ctx - l\<rparr>
      in case chacha_encrypt_bytes tmp ctx (drop l inp) (word_of_nat (length inp - l)) of
           (c, ctx) \<Rightarrow> (out @ c, ctx))"

text \<open>The context of \<open>CRYPTO_chacha_20\<close> is a local variable, every word of which is set. The length is cast to
  32 bits.\<close>

definition chacha_ctx_raw :: chacha_ctx where
  "chacha_ctx_raw = \<lparr>cc_input = replicate 16 0, cc_ks = replicate 64 0, cc_unused = 0\<rparr>"

definition CRYPTO_chacha_20 :: "bytes \<Rightarrow> bytes \<Rightarrow> bytes \<Rightarrow> bytes \<Rightarrow> bytes \<Rightarrow> u64 \<Rightarrow> bytes" where
  "CRYPTO_chacha_20 tmp out inp key iv counter =
     (let ctx = chacha_ivsetup (chacha_keysetup chacha_ctx_raw key 256) iv None;
          ctx = (if counter \<noteq> 0
                 then ctx\<lparr>cc_input := (cc_input ctx)[12 := ucast counter, 13 := ucast (drop_bit 32 counter)]\<rparr>
                 else ctx)
      in mem_write out 0 (fst (chacha_encrypt_bytes tmp ctx inp (word_of_nat (length inp)))))"

definition CRYPTO_xchacha_20 :: "bytes \<Rightarrow> bytes \<Rightarrow> bytes \<Rightarrow> bytes \<Rightarrow> bytes \<Rightarrow> bytes" where
  "CRYPTO_xchacha_20 tmp out inp key iv =
     CRYPTO_chacha_20 tmp out inp (CRYPTO_hchacha_20 key iv) (drop 16 iv) 0"

section \<open>RFC 8439\<close>

text \<open>The state as its four rows: a column round works on the rows as vectors, and a diagonal round is a
  column round on the rows rotated by zero, one, two and three places.\<close>

type_synonym rows = "u32 list \<times> u32 list \<times> u32 list \<times> u32 list"

definition rfc_quarter :: "u32 \<times> u32 \<times> u32 \<times> u32 \<Rightarrow> u32 \<times> u32 \<times> u32 \<times> u32" where
  "rfc_quarter q = (case q of (a, b, c, d) \<Rightarrow>
     let a = a + b; d = word_rotl 16 (d XOR a);
         c = c + d; b = word_rotl 12 (b XOR c);
         a = a + b; d = word_rotl 8 (d XOR a);
         c = c + d; b = word_rotl 7 (b XOR c)
     in (a, b, c, d))"

definition rfc_columns :: "rows \<Rightarrow> rows" where
  "rfc_columns r = (case r of (A, B, C, D) \<Rightarrow>
     let q = map rfc_quarter (zip A (zip B (zip C D)))
     in (map fst q, map (fst \<circ> snd) q, map (fst \<circ> snd \<circ> snd) q, map (snd \<circ> snd \<circ> snd) q))"

definition rfc_inner_block :: "rows \<Rightarrow> rows" where
  "rfc_inner_block r =
     (case rfc_columns r of (A, B, C, D) \<Rightarrow>
      case rfc_columns (A, rotate 1 B, rotate 2 C, rotate 3 D) of (A, B, C, D) \<Rightarrow>
        (A, rotate 3 B, rotate 2 C, rotate 1 D))"

definition le_words :: "bytes \<Rightarrow> u32 list" where
  "le_words p = map (\<lambda>i. word_of_nat (be_val (rev (take 4 (drop (4 * i) p))))) [0..<length p div 4]"

definition le_octets :: "u32 list \<Rightarrow> bytes" where
  "le_octets ws = concat (map (\<lambda>w. rev (be_bytes 4 (unat w))) ws)"

definition rfc_rounds :: "bytes \<Rightarrow> bytes \<Rightarrow> u32 list" where
  "rfc_rounds key tail =
     (let k = le_words key in
      case (rfc_inner_block ^^ 10) (le_words (map of_char ''expand 32-byte k''), take 4 k, drop 4 k, le_words tail) of
        (A, B, C, D) \<Rightarrow> A @ B @ C @ D)"

definition rfc_block :: "bytes \<Rightarrow> u32 \<Rightarrow> bytes \<Rightarrow> bytes" where
  "rfc_block key counter nonce =
     (let tail = rev (be_bytes 4 (unat counter)) @ nonce
      in le_octets (map2 (+) (rfc_rounds key tail) (le_words (map of_char ''expand 32-byte k'' @ key @ tail))))"

definition rfc_chacha20 :: "bytes \<Rightarrow> u32 \<Rightarrow> bytes \<Rightarrow> bytes \<Rightarrow> bytes" where
  "rfc_chacha20 key counter nonce m =
     map2 (XOR) m (concat (map (\<lambda>i. rfc_block key (counter + word_of_nat i) nonce) [0..<(length m + 63) div 64]))"

section \<open>Rounds\<close>

lemma ROTL32_eq:
  assumes "0 < n" "n < 32"
  shows "ROTL32 v n = word_rotl n v"
proof (rule bit_word_eqI)
  fix k assume k: "k < LENGTH(32)"
  have "(k + (32 - n)) mod 32 = (if n \<le> k then k - n else k + (32 - n))" using assms k by (simp add: mod_if)
  then have "bit (word_rotl n v) k = bit v (if n \<le> k then k - n else k + (32 - n))"
    using assms k by (simp add: bit_word_rotl_iff)
  also have "\<dots> = bit (ROTL32 v n) k"
    using assms k by (auto simp: ROTL32_def bit_simps add.commute dest: bit_imp_le_length)
  finally show "bit (ROTL32 v n) k = bit (word_rotl n v) k" ..
qed

lemma QUARTERROUND_eq:
  assumes "distinct [a, b, c, d]" "a < length x" "b < length x" "c < length x" "d < length x"
  shows "QUARTERROUND a b c d x =
    (case rfc_quarter (x ! a, x ! b, x ! c, x ! d) of (p, q, r, s) \<Rightarrow> x[a := p, b := q, c := r, d := s])"
  using assms
  by (intro nth_equalityI)
    (auto simp: QUARTERROUND_def rfc_quarter_def Let_def ROTL32_eq nth_list_update)

lemma list16:
  assumes "length x = 16"
  obtains x0 x1 x2 x3 x4 x5 x6 x7 x8 x9 x10 x11 x12 x13 x14 x15 where
    "x = [x0, x1, x2, x3, x4, x5, x6, x7, x8, x9, x10, x11, x12, x13, x14, x15]"
  using assms by (auto simp: numeral_eq_Suc length_Suc_conv)

definition rows_of :: "u32 list \<Rightarrow> rows" where
  "rows_of x = (take 4 x, take 4 (drop 4 x), take 4 (drop 8 x), drop 12 x)"

lemma QUARTERROUND_list16:
  "rfc_quarter (x0, x4, x8, x12) = (p, q, r, s) \<Longrightarrow>
    QUARTERROUND 0 4 8 12 [x0, x1, x2, x3, x4, x5, x6, x7, x8, x9, x10, x11, x12, x13, x14, x15]
      = [p, x1, x2, x3, q, x5, x6, x7, r, x9, x10, x11, s, x13, x14, x15]"
  "rfc_quarter (x1, x5, x9, x13) = (p, q, r, s) \<Longrightarrow>
    QUARTERROUND 1 5 9 13 [x0, x1, x2, x3, x4, x5, x6, x7, x8, x9, x10, x11, x12, x13, x14, x15]
      = [x0, p, x2, x3, x4, q, x6, x7, x8, r, x10, x11, x12, s, x14, x15]"
  "rfc_quarter (x2, x6, x10, x14) = (p, q, r, s) \<Longrightarrow>
    QUARTERROUND 2 6 10 14 [x0, x1, x2, x3, x4, x5, x6, x7, x8, x9, x10, x11, x12, x13, x14, x15]
      = [x0, x1, p, x3, x4, x5, q, x7, x8, x9, r, x11, x12, x13, s, x15]"
  "rfc_quarter (x3, x7, x11, x15) = (p, q, r, s) \<Longrightarrow>
    QUARTERROUND 3 7 11 15 [x0, x1, x2, x3, x4, x5, x6, x7, x8, x9, x10, x11, x12, x13, x14, x15]
      = [x0, x1, x2, p, x4, x5, x6, q, x8, x9, x10, r, x12, x13, x14, s]"
  "rfc_quarter (x0, x5, x10, x15) = (p, q, r, s) \<Longrightarrow>
    QUARTERROUND 0 5 10 15 [x0, x1, x2, x3, x4, x5, x6, x7, x8, x9, x10, x11, x12, x13, x14, x15]
      = [p, x1, x2, x3, x4, q, x6, x7, x8, x9, r, x11, x12, x13, x14, s]"
  "rfc_quarter (x1, x6, x11, x12) = (p, q, r, s) \<Longrightarrow>
    QUARTERROUND 1 6 11 12 [x0, x1, x2, x3, x4, x5, x6, x7, x8, x9, x10, x11, x12, x13, x14, x15]
      = [x0, p, x2, x3, x4, x5, q, x7, x8, x9, x10, r, s, x13, x14, x15]"
  "rfc_quarter (x2, x7, x8, x13) = (p, q, r, s) \<Longrightarrow>
    QUARTERROUND 2 7 8 13 [x0, x1, x2, x3, x4, x5, x6, x7, x8, x9, x10, x11, x12, x13, x14, x15]
      = [x0, x1, p, x3, x4, x5, x6, q, r, x9, x10, x11, x12, s, x14, x15]"
  "rfc_quarter (x3, x4, x9, x14) = (p, q, r, s) \<Longrightarrow>
    QUARTERROUND 3 4 9 14 [x0, x1, x2, x3, x4, x5, x6, x7, x8, x9, x10, x11, x12, x13, x14, x15]
      = [x0, x1, x2, p, q, x5, x6, x7, x8, r, x10, x11, x12, x13, s, x15]"
  by (simp_all add: QUARTERROUND_eq)

lemma rfc_columns_list:
  "rfc_columns ([a0, a1, a2, a3], [b0, b1, b2, b3], [c0, c1, c2, c3], [d0, d1, d2, d3]) =
    (case (rfc_quarter (a0, b0, c0, d0), rfc_quarter (a1, b1, c1, d1), rfc_quarter (a2, b2, c2, d2), rfc_quarter (a3, b3, c3, d3)) of
      ((p0, q0, r0, s0), (p1, q1, r1, s1), (p2, q2, r2, s2), (p3, q3, r3, s3)) \<Rightarrow>
        ([p0, p1, p2, p3], [q0, q1, q2, q3], [r0, r1, r2, r3], [s0, s1, s2, s3]))"
  by (simp add: rfc_columns_def Let_def split: prod.split)

lemma rows_of_list16:
  "rows_of [x0, x1, x2, x3, x4, x5, x6, x7, x8, x9, x10, x11, x12, x13, x14, x15]
    = ([x0, x1, x2, x3], [x4, x5, x6, x7], [x8, x9, x10, x11], [x12, x13, x14, x15])"
  by (simp add: rows_of_def)

lemma rotate_list4:
  "rotate 1 [a, b, c, d] = [b, c, d, a]" "rotate 2 [a, b, c, d] = [c, d, a, b]" "rotate 3 [a, b, c, d] = [d, a, b, c]"
  for a b c d :: u32
  by (simp_all add: numeral_eq_Suc)

lemma double_round_eq:
  assumes "length x = 16"
  shows "rows_of (chacha_double_round x) = rfc_inner_block (rows_of x)" and "length (chacha_double_round x) = 16"
proof -
  obtain x0 x1 x2 x3 x4 x5 x6 x7 x8 x9 x10 x11 x12 x13 x14 x15 where
    x: "x = [x0, x1, x2, x3, x4, x5, x6, x7, x8, x9, x10, x11, x12, x13, x14, x15]"
    using list16 [OF assms] .
  obtain p0 q0 r0 s0 where 0: "rfc_quarter (x0, x4, x8, x12) = (p0, q0, r0, s0)" using prod_cases4 .
  obtain p1 q1 r1 s1 where 1: "rfc_quarter (x1, x5, x9, x13) = (p1, q1, r1, s1)" using prod_cases4 .
  obtain p2 q2 r2 s2 where 2: "rfc_quarter (x2, x6, x10, x14) = (p2, q2, r2, s2)" using prod_cases4 .
  obtain p3 q3 r3 s3 where 3: "rfc_quarter (x3, x7, x11, x15) = (p3, q3, r3, s3)" using prod_cases4 .
  obtain p4 q4 r4 s4 where 4: "rfc_quarter (p0, q1, r2, s3) = (p4, q4, r4, s4)" using prod_cases4 .
  obtain p5 q5 r5 s5 where 5: "rfc_quarter (p1, q2, r3, s0) = (p5, q5, r5, s5)" using prod_cases4 .
  obtain p6 q6 r6 s6 where 6: "rfc_quarter (p2, q3, r0, s1) = (p6, q6, r6, s6)" using prod_cases4 .
  obtain p7 q7 r7 s7 where 7: "rfc_quarter (p3, q0, r1, s2) = (p7, q7, r7, s7)" using prod_cases4 .
  note round = 0 1 2 3 4 5 6 7
  have dr: "chacha_double_round x = [p4, p5, p6, p7, q7, q4, q5, q6, r6, r7, r4, r5, s5, s6, s7, s4]"
    unfolding chacha_double_round_def x Let_def by (simp only: QUARTERROUND_list16 [OF 0] QUARTERROUND_list16 [OF 1]
        QUARTERROUND_list16 [OF 2] QUARTERROUND_list16 [OF 3] QUARTERROUND_list16 [OF 4] QUARTERROUND_list16 [OF 5]
        QUARTERROUND_list16 [OF 6] QUARTERROUND_list16 [OF 7])
  then show "length (chacha_double_round x) = 16" by simp
  show "rows_of (chacha_double_round x) = rfc_inner_block (rows_of x)"
    unfolding dr unfolding x rows_of_list16 rfc_inner_block_def rfc_columns_list round prod.case rotate_list4 ..
qed

lemma rounds_eq:
  assumes "length x = 16"
  shows "rows_of ((chacha_double_round ^^ k) x) = (rfc_inner_block ^^ k) (rows_of x)" "length ((chacha_double_round ^^ k) x) = 16"
proof (induction k)
  case (Suc k)
  { case 1 show ?case using Suc double_round_eq by simp }
  { case 2 show ?case using Suc double_round_eq by simp }
qed (simp_all add: assms)

lemma chacha_rounds_eq:
  assumes "length x = 16"
  shows "(case (rfc_inner_block ^^ 10) (rows_of x) of (A, B, C, D) \<Rightarrow> A @ B @ C @ D) = chacha_rounds x"
    and "length (chacha_rounds x) = 16"
proof -
  define y where "y = (chacha_double_round ^^ 10) x"
  have y: "length y = 16" "rows_of y = (rfc_inner_block ^^ 10) (rows_of x)" using rounds_eq [OF assms] by (simp_all only: y_def)
  obtain y0 y1 y2 y3 y4 y5 y6 y7 y8 y9 y10 y11 y12 y13 y14 y15 where
    e: "y = [y0, y1, y2, y3, y4, y5, y6, y7, y8, y9, y10, y11, y12, y13, y14, y15]"
    using list16 [OF y(1)] .
  show "(case (rfc_inner_block ^^ 10) (rows_of x) of (A, B, C, D) \<Rightarrow> A @ B @ C @ D) = chacha_rounds x"
    unfolding y(2) [symmetric] chacha_rounds_def y_def [symmetric] unfolding e rows_of_list16 by simp
  show "length (chacha_rounds x) = 16" unfolding chacha_rounds_def y_def [symmetric] by (rule y(1))
qed

section \<open>Bytes and words\<close>

lemma U8TO32_LITTLE_eq:
  assumes "4 \<le> length p"
  shows "U8TO32_LITTLE p = word_of_nat (be_val (rev (take 4 p)))"
proof -
  obtain a b c d q where p: "p = a # b # c # d # q"
    using assms by (auto simp: numeral_eq_Suc Suc_le_length_iff)
  have "foldl shift_in 0 [d, c, b, a] = (word_of_nat (be_val [d, c, b, a]) :: u32)"
    by (rule foldl_shift_in_0) simp_all
  moreover have "foldl shift_in 0 [d, c, b, a] = U8TO32_LITTLE p"
    by (simp add: p U8TO32_LITTLE_def shift_in_def numeral_eq_Suc push_bit_or or.assoc or.commute or.left_commute)
  ultimately show ?thesis by (simp add: p)
qed

lemma U32TO8_LITTLE_eq: "U32TO8_LITTLE v = rev (be_bytes 4 (unat v))"
  by (simp add: U32TO8_LITTLE_def be_bytes_numeral ucast_drop_bit_u8 div_mult2_eq [symmetric])

lemma length_U32TO8_LITTLE [simp]: "length (U32TO8_LITTLE v) = 4"
  by (simp add: U32TO8_LITTLE_def)

lemma U32TO8_LITTLE_xor:
  assumes "4 \<le> length p"
  shows "U32TO8_LITTLE (x XOR U8TO32_LITTLE p) = map2 (XOR) (take 4 p) (U32TO8_LITTLE x)"
proof -
  obtain a b c d q where p: "p = a # b # c # d # q"
    using assms by (auto simp: numeral_eq_Suc Suc_le_length_iff)
  show ?thesis
    by (simp add: p U32TO8_LITTLE_def U8TO32_LITTLE_def; intro conjI bit_word_eqI)
      (auto simp: bit_simps dest: bit_imp_le_length)
qed

section \<open>The key stream\<close>

text \<open>Byte \<open>i\<close> of the key stream that starts with the input \<open>j\<close>.\<close>

definition ks_block :: "u32 list \<Rightarrow> bytes" where
  "ks_block j = concat (map U32TO8_LITTLE (chacha_core j))"

definition ks_byte :: "u32 list \<Rightarrow> nat \<Rightarrow> u8" where
  "ks_byte j i = ks_block ((next_counter ^^ (i div 64)) j) ! (i mod 64)"

definition xor_stream :: "u32 list \<Rightarrow> nat \<Rightarrow> bytes \<Rightarrow> bytes" where
  "xor_stream j n m = map (\<lambda>i. m ! i XOR ks_byte j (n + i)) [0..<length m]"

lemma length_next_counter [simp]: "length (next_counter j) = length j"
  by (simp add: next_counter_def Let_def)

lemma length_next_counters [simp]: "length ((next_counter ^^ k) j) = length j"
  by (induction k) simp_all

lemma length_chacha_core [simp]: "length j = 16 \<Longrightarrow> length (chacha_core j) = 16"
  by (simp add: chacha_core_def chacha_rounds_eq(2))

lemma length_words_bytes [simp]: "length (concat (map U32TO8_LITTLE ws)) = 4 * length ws"
  by (induction ws) simp_all

lemma length_ks_block [simp]: "length j = 16 \<Longrightarrow> length (ks_block j) = 64"
  by (simp add: ks_block_def)

lemma xor_words:
  "4 * length ws \<le> length m \<Longrightarrow>
    concat (map U32TO8_LITTLE (map2 (XOR) ws (map (\<lambda>i. U8TO32_LITTLE (drop (4 * i) m)) [0..<length ws])))
      = map2 (XOR) (take (4 * length ws) m) (concat (map U32TO8_LITTLE ws))"
proof (induction ws arbitrary: m)
  case (Cons w ws)
  have upt: "[0..<length (w # ws)] = 0 # map Suc [0..<length ws]"
    by (simp add: upt_conv_Cons map_Suc_upt del: upt_Suc)
  have "(\<lambda>i. U8TO32_LITTLE (drop (4 * i) m)) \<circ> Suc = (\<lambda>i. U8TO32_LITTLE (drop (4 * i + 4) m))" by (simp add: comp_def add.commute)
  moreover have "take (4 * length (w # ws)) m = take 4 m @ take (4 * length ws) (drop 4 m)"
    by (simp add: take_add [symmetric] add.commute)
  ultimately show ?case
    using Cons.IH [of "drop 4 m"] Cons.prems unfolding upt by (simp add: U32TO8_LITTLE_xor zip_append del: upt_Suc)
qed simp

lemma xor_block:
  assumes "length j = 16" "64 \<le> length m"
  shows "concat (map U32TO8_LITTLE (map2 (XOR) (chacha_core j) (chacha_words m))) = map2 (XOR) (take 64 m) (ks_block j)"
  using xor_words [of "chacha_core j" m] assms by (simp add: chacha_words_def ks_block_def)

lemma xor_block_stream:
  assumes "length j = 16" "64 \<le> length m" "n \<le> 64"
  shows "take n (map2 (XOR) (take 64 m) (ks_block j)) = map (\<lambda>i. m ! i XOR ks_byte j i) [0..<n]"
  using assms by (intro nth_equalityI) (simp_all add: ks_byte_def)

lemma ks_byte_next: "ks_byte (next_counter j) i = ks_byte j (64 + i)"
proof -
  have "(64 + i) div 64 = Suc (i div 64)" by simp
  then show ?thesis by (simp add: ks_byte_def funpow_swap1)
qed

lemma chacha_loop_spec:
  assumes "length j = 16" "length tmp = 64" "n \<le> length m" "0 < n"
  shows "chacha_loop tmp j m n =
    (map (\<lambda>i. m ! i XOR ks_byte j i) [0..<n], (next_counter ^^ ((n + 63) div 64)) j,
     if n mod 64 = 0 then None else Some (ks_block ((next_counter ^^ (n div 64)) j)), 63 - (n + 63) mod 64)"
  using assms
proof (induction tmp j m n rule: chacha_loop.induct)
  case (1 tmp j m n)
  show ?case
  proof (cases "n \<le> 64")
    case True
    define m1 where "m1 = (if n < 64 then take n m @ drop n tmp else m)"
    have m1: "64 \<le> length m1" "\<forall>i<n. m1 ! i = m ! i" using "1.prems" True by (auto simp: m1_def nth_append)
    have "map (\<lambda>i. m1 ! i XOR ks_byte j i) [0..<n] = map (\<lambda>i. m ! i XOR ks_byte j i) [0..<n]" using m1(2) by simp
    then have c: "take n (concat (map U32TO8_LITTLE (map2 (XOR) (chacha_core j) (chacha_words m1)))) = map (\<lambda>i. m ! i XOR ks_byte j i) [0..<n]"
      using xor_block xor_block_stream "1.prems"(1) m1(1) True by simp
    have d: "(n + 63) div 64 = 1" using True "1.prems"(4) by (simp add: div_nat_eqI)
    have u: "63 - (n + 63) mod 64 = 64 - n" using True "1.prems"(4) by (simp add: mod_if)
    have k: "(n mod 64 = 0) = (\<not> n < 64)" "n < 64 \<Longrightarrow> n div 64 = 0" using True "1.prems"(4) by auto
    show ?thesis
      unfolding chacha_loop.simps [of tmp j m n] m1_def [symmetric] Let_def c d u using True k by (auto simp: ks_block_def)
  next
    case False
    then have n: "(n + 63) div 64 = Suc ((n - 64 + 63) div 64)" "(n - 64) mod 64 = n mod 64" "n div 64 = Suc ((n - 64) div 64)"
      "(n - 64 + 63) mod 64 = (n + 63) mod 64"
      by (simp_all add: le_mod_geq div_if [of "n + 63" 64] le_div_geq)
    have IH: "chacha_loop tmp (next_counter j) (drop 64 m) (n - 64) =
        (map (\<lambda>i. drop 64 m ! i XOR ks_byte (next_counter j) i) [0..<n - 64], (next_counter ^^ ((n - 64 + 63) div 64)) (next_counter j),
         if (n - 64) mod 64 = 0 then None else Some (ks_block ((next_counter ^^ ((n - 64) div 64)) (next_counter j))), 63 - (n - 64 + 63) mod 64)"
      using "1.IH" [OF refl refl refl refl refl False] "1.prems" False by simp
    have c: "concat (map U32TO8_LITTLE (map2 (XOR) (chacha_core j) (chacha_words m))) = map (\<lambda>i. m ! i XOR ks_byte j i) [0..<64]"
      using xor_block [of j m] xor_block_stream [of j m 64] "1.prems" False by simp
    have "map (\<lambda>i. m ! i XOR ks_byte j i) [0..<64] @ map (\<lambda>i. drop 64 m ! i XOR ks_byte (next_counter j) i) [0..<n - 64]
        = map (\<lambda>i. m ! i XOR ks_byte j i) [0..<n]"
      using False "1.prems"(3) by (intro nth_equalityI) (auto simp: nth_append ks_byte_next)
    then show ?thesis
      unfolding chacha_loop.simps [of tmp j m n] Let_def using False IH n c
      by (simp add: funpow_swap1 del: upt_Suc)
  qed
qed

section \<open>The cipher as a stream\<close>

lemma next_counters_keep: "i \<noteq> 12 \<Longrightarrow> i \<noteq> 13 \<Longrightarrow> (next_counter ^^ k) j ! i = j ! i"
  by (induction k) (simp_all add: next_counter_def Let_def)

lemma next_counters_update: "j[12 := (next_counter ^^ k) j ! 12, 13 := (next_counter ^^ k) j ! 13] = (next_counter ^^ k) j"
proof (rule nth_equalityI)
  fix i assume "i < length (j[12 := (next_counter ^^ k) j ! 12, 13 := (next_counter ^^ k) j ! 13])"
  then show "j[12 := (next_counter ^^ k) j ! 12, 13 := (next_counter ^^ k) j ! 13] ! i = (next_counter ^^ k) j ! i"
    by (cases "i = 12 \<or> i = 13") (auto simp: next_counters_keep)
qed simp

text \<open>A context \<open>n\<close> bytes into the stream of \<open>j\<close>.\<close>

definition chacha_at :: "u32 list \<Rightarrow> nat \<Rightarrow> chacha_ctx \<Rightarrow> bool" where
  "chacha_at j n ctx \<longleftrightarrow> length j = 16 \<and> cc_input ctx = (next_counter ^^ ((n + 63) div 64)) j
     \<and> cc_unused ctx = 63 - (n + 63) mod 64
     \<and> (n mod 64 \<noteq> 0 \<longrightarrow> cc_ks ctx = ks_block ((next_counter ^^ (n div 64)) j))"

lemma ks_byte_nexts: "ks_byte ((next_counter ^^ k) j) i = ks_byte j (64 * k + i)"
  by (induction k arbitrary: i) (simp_all add: ks_byte_next ac_simps)

lemma xor_stream_nexts: "xor_stream ((next_counter ^^ k) j) 0 m = xor_stream j (64 * k) m"
  by (simp add: xor_stream_def ks_byte_nexts)

lemma encrypt_bytes_spec:
  assumes "length tmp = 64" "length m < 2 ^ 32" "64 dvd n" "chacha_at j n ctx"
  shows "\<exists>ctx'. chacha_encrypt_bytes tmp ctx m (word_of_nat (length m)) = (xor_stream j n m, ctx') \<and> chacha_at j (n + length m) ctx'"
proof (cases "m = []")
  case True
  then show ?thesis using assms by (simp add: chacha_encrypt_bytes_def xor_stream_def)
next
  case False
  let ?l = "length m"
  from assms(3) obtain q where q: "n = 64 * q" by (elim dvdE)
  have w: "(word_of_nat ?l :: u32) \<noteq> 0" "unat (word_of_nat ?l :: u32) = ?l"
    using assms(2) False unat_word_of_nat_u32 [of ?l] by (auto simp del: length_0_conv dest!: arg_cong [of _ _ unat])
  have inp: "cc_input ctx = (next_counter ^^ q) j" "length j = 16"
    using assms(4) q by (simp_all add: chacha_at_def)
  have loop: "chacha_loop tmp (cc_input ctx) m ?l = (xor_stream j n m, (next_counter ^^ ((?l + 63) div 64)) (cc_input ctx),
     if ?l mod 64 = 0 then None else Some (ks_block ((next_counter ^^ (?l div 64)) (cc_input ctx))), 63 - (?l + 63) mod 64)"
    using chacha_loop_spec [of "cc_input ctx" tmp ?l m] assms(1) inp False xor_stream_nexts [of q j m] q
    by (simp add: xor_stream_def)
  have n: "(n + ?l + 63) div 64 = (?l + 63) div 64 + q" "(n + ?l) div 64 = ?l div 64 + q"
    "(n + ?l + 63) mod 64 = (?l + 63) mod 64" "(n + ?l) mod 64 = ?l mod 64"
    using q by (simp_all add: add.assoc)
  show ?thesis
    unfolding chacha_encrypt_bytes_def w loop next_counters_update using w(1) n inp
    by (simp add: chacha_at_def funpow_add next_counters_update)
qed

lemma xor_stream_append: "xor_stream j n (a @ b) = xor_stream j n a @ xor_stream j (n + length a) b"
  by (rule nth_equalityI) (auto simp: xor_stream_def nth_append)

lemma block_up:
  "r < 64 \<Longrightarrow> (64 * q + r + 63) div 64 = (if r = 0 then q else Suc q)"
  "r < 64 \<Longrightarrow> 63 - (64 * q + r + 63) mod 64 = (if r = 0 then 0 else 64 - r)"
proof -
  assume r: "r < 64"
  have "64 * q + r + 63 = (if r = 0 then q else Suc q) * 64 + (if r = 0 then 63 else r - 1)" by simp
  then have "(64 * q + r + 63) div 64 = (if r = 0 then q else Suc q)"
    and m: "(64 * q + r + 63) mod 64 = (if r = 0 then 63 else r - 1)" using r by (simp_all del: mult_Suc)
  then show "(64 * q + r + 63) div 64 = (if r = 0 then q else Suc q)" by blast
  show "63 - (64 * q + r + 63) mod 64 = (if r = 0 then 0 else 64 - r)" unfolding m using r by simp
qed

lemma chacha_at_iff:
  assumes "r < 64"
  shows "chacha_at j (64 * q + r) ctx \<longleftrightarrow> length j = 16 \<and> cc_input ctx = (next_counter ^^ (if r = 0 then q else Suc q)) j
     \<and> cc_unused ctx = (if r = 0 then 0 else 64 - r) \<and> (r \<noteq> 0 \<longrightarrow> cc_ks ctx = ks_block ((next_counter ^^ q) j))"
  using assms by (simp add: chacha_at_def block_up)

lemma stream_leftover:
  assumes "chacha_at j (64 * q + r) ctx" "0 < r" "r < 64" "l \<le> 64 - r" "l \<le> length m"
  shows "map2 (XOR) (take l m) (drop (64 - cc_unused ctx) (cc_ks ctx)) = xor_stream j (64 * q + r) (take l m)"
proof -
  have u: "cc_unused ctx = 64 - r" and ks: "cc_ks ctx = ks_block ((next_counter ^^ q) j)" "length (cc_ks ctx) = 64"
    using assms(1-3) by (simp_all add: chacha_at_iff)
  have idx: "(64 * q + r + i) div 64 = q" "(64 * q + r + i) mod 64 = r + i" if "i < l" for i
    using assms(4) that by (simp_all add: add.assoc)
  show ?thesis
    using assms(3-5) u ks(2) idx by (intro nth_equalityI) (simp_all add: xor_stream_def ks_byte_def ks(1))
qed

lemma ChaCha_spec:
  assumes "length tmp = 64" "length m < 2 ^ 32" "chacha_at j n ctx"
  shows "\<exists>ctx'. ChaCha tmp ctx m = (xor_stream j n m, ctx') \<and> chacha_at j (n + length m) ctx'"
proof -
  define q r where "q = n div 64" and "r = n mod 64"
  have n: "n = 64 * q + r" "r < 64" by (simp_all add: q_def r_def)
  define l where "l = (if r = 0 then 0 else min (length m) (64 - r))"
  define ctx1 where "ctx1 = ctx\<lparr>cc_unused := cc_unused ctx - l\<rparr>"
  have at: "chacha_at j (64 * q + r) ctx" using assms(3) n by simp
  then have u: "cc_unused ctx = (if r = 0 then 0 else 64 - r)" using n(2) by (simp add: chacha_at_iff)
  then have l: "(if 0 < cc_unused ctx then min (length m) (cc_unused ctx) else 0) = l" using n(2) by (simp add: l_def)
  have left: "map2 (XOR) (take l m) (drop (64 - cc_unused ctx) (cc_ks ctx)) = xor_stream j n (take l m)"
    using stream_leftover [OF at, of l m] n by (cases "r = 0") (simp_all add: l_def xor_stream_def)
  have at1: "chacha_at j (n + l) ctx1"
  proof (cases "r + l = 64")
    case True
    then have "n + l = 64 * Suc q + 0" "r \<noteq> 0" using n by (auto simp: l_def split: if_splits)
    moreover from this have "chacha_at j (64 * Suc q + 0) ctx1"
      using at n(2) True u by (subst chacha_at_iff) (simp_all add: chacha_at_iff ctx1_def)
    ultimately show ?thesis by metis
  next
    case False
    then have "r + l < 64" using n(2) by (auto simp: l_def)
    then show ?thesis using at n u by (auto simp: add.assoc chacha_at_iff ctx1_def l_def split: if_splits)
  qed
  obtain c ctx' where enc: "chacha_encrypt_bytes tmp ctx1 (drop l m) (word_of_nat (length m - l)) = (c, ctx')"
    and c: "c = xor_stream j (n + l) (drop l m)" "chacha_at j (n + l + length (drop l m)) ctx'"
  proof (cases "drop l m = []")
    case True
    then show thesis using that [of "[]" ctx1] at1 by (simp add: chacha_encrypt_bytes_def xor_stream_def)
  next
    case False
    then have "64 dvd n + l" using n by (auto simp: l_def min_def split: if_splits)
    moreover have "length (drop l m) < 2 ^ 32" using assms(2) by simp
    ultimately obtain ctx' where "chacha_encrypt_bytes tmp ctx1 (drop l m) (word_of_nat (length (drop l m))) = (xor_stream j (n + l) (drop l m), ctx')"
      "chacha_at j (n + l + length (drop l m)) ctx'" using encrypt_bytes_spec [OF assms(1) _ _ at1, of "drop l m"] by blast
    then show thesis using that by simp
  qed
  have "l \<le> length m" by (simp add: l_def)
  then show ?thesis
    unfolding ChaCha_def Let_def l left ctx1_def [symmetric] enc
    using c xor_stream_append [of j n "take l m" "drop l m"] by simp
qed

text \<open>A cipher that adds a key stream to its input, from the place where it stopped.\<close>

fun crypt_pieces :: "('c \<Rightarrow> bytes \<Rightarrow> bytes \<times> 'c) \<Rightarrow> 'c \<Rightarrow> bytes list \<Rightarrow> bytes \<times> 'c" where
  "crypt_pieces crypt c [] = ([], c)"
| "crypt_pieces crypt c (m # ms) =
     (case crypt c m of (out, c) \<Rightarrow> case crypt_pieces crypt c ms of (outs, c) \<Rightarrow> (out @ outs, c))"

locale keystream_cipher =
  fixes at :: "nat \<Rightarrow> 'c \<Rightarrow> bool" and crypt :: "'c \<Rightarrow> bytes \<Rightarrow> bytes \<times> 'c" and ks :: "nat \<Rightarrow> u8" and limit :: nat
  assumes crypt: "at n c \<Longrightarrow> length m < limit \<Longrightarrow>
    \<exists>c'. crypt c m = (map (\<lambda>i. m ! i XOR ks (n + i)) [0..<length m], c') \<and> at (n + length m) c'"
begin

definition add_stream :: "nat \<Rightarrow> bytes \<Rightarrow> bytes" where
  "add_stream n m = map (\<lambda>i. m ! i XOR ks (n + i)) [0..<length m]"

lemma add_stream_append: "add_stream n (a @ b) = add_stream n a @ add_stream (n + length a) b"
  by (rule nth_equalityI) (auto simp: add_stream_def nth_append)

lemma add_stream_twice: "add_stream n (add_stream n m) = m"
  by (rule nth_equalityI) (simp_all add: add_stream_def xor.assoc)

lemma crypt_pieces_spec:
  "at n c \<Longrightarrow> list_all (\<lambda>m. length m < limit) ms \<Longrightarrow>
    \<exists>c'. crypt_pieces crypt c ms = (add_stream n (concat ms), c') \<and> at (n + length (concat ms)) c'"
proof (induction ms arbitrary: n c)
  case (Cons m ms)
  obtain c1 where c1: "crypt c m = (add_stream n m, c1)" "at (n + length m) c1"
    using crypt [of n c m] Cons.prems by (auto simp: add_stream_def)
  from Cons.IH [OF c1(2)] Cons.prems(2) c1(1) show ?case
    by (auto simp: add_stream_append add.assoc)
qed (simp add: add_stream_def)

lemma pieces_decrypt:
  assumes "at n c" "at n d" "list_all (\<lambda>m. length m < limit) ms" "list_all (\<lambda>m. length m < limit) es"
    and "fst (crypt_pieces crypt c ms) = concat es"
  shows "fst (crypt_pieces crypt d es) = concat ms"
  using crypt_pieces_spec [OF assms(1,3)] crypt_pieces_spec [OF assms(2,4)] assms(5)
  by (metis add_stream_twice fst_conv)

end

interpretation chacha: keystream_cipher "\<lambda>n c. length tmp = 64 \<and> chacha_at j n c" "ChaCha tmp" "ks_byte j" "2 ^ 32"
  by unfold_locales (use ChaCha_spec in \<open>auto simp: xor_stream_def\<close>)

section \<open>The stream is that of the RFC\<close>

lemma le_words_append: "4 dvd length a \<Longrightarrow> le_words (a @ b) = le_words a @ le_words b"
proof -
  assume "4 dvd length a"
  then obtain k where k: "length a = 4 * k" by (elim dvdE)
  have "length (a @ b) div 4 = k + length b div 4" using k by simp
  then show ?thesis
    using k by (intro nth_equalityI) (auto simp: le_words_def nth_append diff_mult_distrib2 min_def)
qed

lemma le_words_U8TO32: "le_words p = map (\<lambda>i. U8TO32_LITTLE (drop (4 * i) p)) [0..<length p div 4]"
  by (auto simp: le_words_def U8TO32_LITTLE_eq)

lemma le_octets_U32TO8: "le_octets ws = concat (map U32TO8_LITTLE ws)"
  by (simp add: le_octets_def U32TO8_LITTLE_eq [abs_def])

text \<open>The input a key, an initialisation vector and a counter make.\<close>

definition chacha_input :: "bytes \<Rightarrow> u32 \<Rightarrow> bytes \<Rightarrow> u32 list" where
  "chacha_input key counter nonce = le_words (sigma @ key @ U32TO8_LITTLE counter @ nonce)"

lemma sigma_text: "map of_char ''expand 32-byte k'' = sigma"
  by (simp add: sigma_def)

lemma length_sigma [simp]: "length sigma = 16"
  by (simp add: sigma_def)

lemma length_chacha_input: "length key = 32 \<Longrightarrow> length nonce = 12 \<Longrightarrow> length (chacha_input key counter nonce) = 16"
  by (simp add: chacha_input_def le_words_def)

lemma upt_numeral: "[0..<numeral k] = [0..<pred_numeral k] @ [pred_numeral k]"
  by (simp add: numeral_eq_Suc)

lemma rows_of_input:
  assumes "length key = 32" "length nonce = 12"
  shows "rows_of (chacha_input key counter nonce) =
    (le_words sigma, take 4 (le_words key), drop 4 (le_words key), le_words (U32TO8_LITTLE counter @ nonce))"
proof -
  have "chacha_input key counter nonce = le_words sigma @ le_words key @ le_words (U32TO8_LITTLE counter @ nonce)"
    using assms by (simp add: chacha_input_def le_words_append)
  moreover have "length (le_words sigma) = 4" "length (le_words key) = 8" using assms by (simp_all add: le_words_def)
  ultimately show ?thesis by (simp add: rows_of_def)
qed

lemma ks_block_rfc:
  assumes "length key = 32" "length nonce = 12"
  shows "ks_block (chacha_input key counter nonce) = rfc_block key counter nonce"
proof -
  have "rfc_rounds key (U32TO8_LITTLE counter @ nonce) = chacha_rounds (chacha_input key counter nonce)"
    unfolding chacha_rounds_eq(1) [OF length_chacha_input, OF assms, of counter, symmetric] rows_of_input [OF assms]
      rfc_rounds_def sigma_text Let_def ..
  then show ?thesis
    unfolding ks_block_def chacha_core_def rfc_block_def Let_def U32TO8_LITTLE_eq [symmetric] sigma_text le_octets_U32TO8
    by (simp add: chacha_input_def)
qed

lemma next_counters_input:
  assumes "length key = 32" "length nonce = 12" "unat counter + k < 2 ^ 32"
  shows "(next_counter ^^ k) (chacha_input key counter nonce) = chacha_input key (counter + word_of_nat k) nonce"
  using assms(3)
proof (induction k)
  case (Suc k)
  define c where "c = counter + word_of_nat k"
  have "unat c = unat counter + k" using Suc.prems unat_word_of_nat_u32 [of k] by (simp add: c_def unat_word_ariths)
  then have "unat (c + 1) = unat counter + k + 1" using Suc.prems by (simp add: unat_word_ariths)
  then have c1: "c + 1 \<noteq> 0" by auto
  define w where "w = le_words (sigma @ key)"
  have w: "length w = 12" using assms(1) by (simp add: w_def le_words_def)
  have one: "le_words (U32TO8_LITTLE x) = [x]" for x
    by (simp add: le_words_def U32TO8_LITTLE_eq)
  have inp: "chacha_input key x nonce = w @ [x] @ le_words nonce" for x
    using assms(1) le_words_append [of "sigma @ key" "U32TO8_LITTLE x @ nonce"] le_words_append [of "U32TO8_LITTLE x" nonce]
    by (simp add: chacha_input_def w_def one)
  have "next_counter (chacha_input key c nonce) = chacha_input key (c + 1) nonce"
    using w c1 by (simp add: inp next_counter_def Let_def list_update_append nth_append)
  then show ?case using Suc by (simp add: c_def ac_simps)
qed simp

lemma concat_blocks_nth:
  "\<forall>b\<in>set bs. length b = k \<Longrightarrow> i < k * length bs \<Longrightarrow> concat bs ! i = bs ! (i div k) ! (i mod k)"
proof (induction bs arbitrary: i)
  case (Cons b bs)
  have "0 < k" using Cons.prems(2) by (cases k) simp_all
  then show ?case
    using Cons by (cases "i < k") (simp_all add: nth_append le_div_geq le_mod_geq)
qed simp

lemma round_up_64: "(n :: nat) \<le> 64 * ((n + 63) div 64)"
  using mult_div_mod_eq [of 64 "n + 63"] mod_less_divisor [of 64 "n + 63"] by linarith

lemma xor_stream_rfc:
  assumes "length key = 32" "length nonce = 12" "unat counter + (length m + 63) div 64 \<le> 2 ^ 32"
  shows "xor_stream (chacha_input key counter nonce) 0 m = rfc_chacha20 key counter nonce m"
proof -
  define blocks where "blocks = map (\<lambda>i. rfc_block key (counter + word_of_nat i) nonce) [0..<(length m + 63) div 64]"
  have len: "length (rfc_block key c nonce) = 64" for c
    using ks_block_rfc [OF assms(1,2), of c] length_chacha_input [OF assms(1,2), of c] by (metis length_ks_block)
  have nth: "concat blocks ! i = blocks ! (i div 64) ! (i mod 64)" if "i < 64 * length blocks" for i
    using that by (intro concat_blocks_nth) (auto simp: blocks_def len)
  have lc: "length (concat blocks) = 64 * length blocks"
    unfolding blocks_def by (induction "(length m + 63) div 64") (simp_all add: length_concat comp_def len sum_list_triv)
  have up: "length m \<le> 64 * ((length m + 63) div 64)" by (rule round_up_64)
  show ?thesis
  proof (rule nth_equalityI)
    show "length (xor_stream (chacha_input key counter nonce) 0 m) = length (rfc_chacha20 key counter nonce m)"
      using lc up by (simp add: xor_stream_def rfc_chacha20_def blocks_def [symmetric]) (simp add: blocks_def)
    fix i assume "i < length (xor_stream (chacha_input key counter nonce) 0 m)"
    then have i: "i < length m" by (simp add: xor_stream_def)
    have d: "i div 64 < (length m + 63) div 64" using i up by (intro div_less_iff_less_mult [THEN iffD2]) simp_all
    have "ks_byte (chacha_input key counter nonce) i = concat blocks ! i"
      using nth [of i] d i up assms by (simp add: ks_byte_def next_counters_input ks_block_rfc blocks_def)
    then show "xor_stream (chacha_input key counter nonce) 0 m ! i = rfc_chacha20 key counter nonce m ! i"
      using i up lc by (simp add: xor_stream_def rfc_chacha20_def blocks_def [symmetric]) (simp add: blocks_def)
  qed
qed

section \<open>Setting up a context\<close>

lemma chacha_input_words:
  assumes "length key = 32" "length iv = 8"
  shows "chacha_input key lo (U32TO8_LITTLE hi @ iv) =
    [U8TO32_LITTLE sigma, U8TO32_LITTLE (drop 4 sigma), U8TO32_LITTLE (drop 8 sigma), U8TO32_LITTLE (drop 12 sigma),
     U8TO32_LITTLE key, U8TO32_LITTLE (drop 4 key), U8TO32_LITTLE (drop 8 key), U8TO32_LITTLE (drop 12 key),
     U8TO32_LITTLE (drop 16 key), U8TO32_LITTLE (drop 20 key), U8TO32_LITTLE (drop 24 key), U8TO32_LITTLE (drop 28 key),
     lo, hi, U8TO32_LITTLE iv, U8TO32_LITTLE (drop 4 iv)]"
proof -
  have one: "le_words (U32TO8_LITTLE x) = [x]" for x by (simp add: le_words_def U32TO8_LITTLE_eq)
  have "chacha_input key lo (U32TO8_LITTLE hi @ iv) = le_words sigma @ le_words key @ [lo, hi] @ le_words iv"
    using assms by (simp add: chacha_input_def le_words_append one)
  then show ?thesis using assms by (simp add: le_words_U8TO32 upt_numeral)
qed

lemma U32TO8_U8TO32:
  assumes "length p = 4"
  shows "U32TO8_LITTLE (U8TO32_LITTLE p) = p"
proof -
  have "be_val (rev p) < 256 ^ 4" using be_val_less [of "rev p"] assms by simp
  then have "unat (U8TO32_LITTLE p) = be_val (rev p)" using assms by (simp add: U8TO32_LITTLE_eq)
  then show ?thesis using assms by (simp add: U32TO8_LITTLE_eq be_bytes_be_val')
qed

lemma setup_input:
  assumes "length key = 32" "length iv = 8" "length (cc_input ctx) = 16"
  shows "(cc_input (chacha_ivsetup (chacha_keysetup ctx key 256) iv counter))[12 := lo, 13 := hi]
      = chacha_input key lo (U32TO8_LITTLE hi @ iv)"
    and "cc_input (chacha_ivsetup (chacha_keysetup ctx key 256) iv None) = chacha_input key 0 (U32TO8_LITTLE 0 @ iv)"
    and "length c = 8 \<Longrightarrow> cc_input (chacha_ivsetup (chacha_keysetup ctx key 256) iv (Some c))
      = chacha_input key (U8TO32_LITTLE c) (drop 4 c @ iv)"
proof -
  obtain x0 x1 x2 x3 x4 x5 x6 x7 x8 x9 x10 x11 x12 x13 x14 x15 where
    x: "cc_input ctx = [x0, x1, x2, x3, x4, x5, x6, x7, x8, x9, x10, x11, x12, x13, x14, x15]"
    using list16 [OF assms(3)] .
  show "(cc_input (chacha_ivsetup (chacha_keysetup ctx key 256) iv counter))[12 := lo, 13 := hi]
      = chacha_input key lo (U32TO8_LITTLE hi @ iv)"
    "cc_input (chacha_ivsetup (chacha_keysetup ctx key 256) iv None) = chacha_input key 0 (U32TO8_LITTLE 0 @ iv)"
    unfolding chacha_input_words [OF assms(1,2)] by (simp_all add: chacha_ivsetup_def chacha_keysetup_def Let_def x)
  assume c: "length c = 8"
  have "U32TO8_LITTLE (U8TO32_LITTLE (drop 4 c)) = drop 4 c"
    using c by (simp add: U32TO8_U8TO32)
  then have "chacha_input key (U8TO32_LITTLE c) (drop 4 c @ iv) = chacha_input key (U8TO32_LITTLE c) (U32TO8_LITTLE (U8TO32_LITTLE (drop 4 c)) @ iv)"
    by simp
  then show "cc_input (chacha_ivsetup (chacha_keysetup ctx key 256) iv (Some c)) = chacha_input key (U8TO32_LITTLE c) (drop 4 c @ iv)"
    unfolding chacha_input_words [OF assms(1,2)] by (simp add: chacha_ivsetup_def chacha_keysetup_def Let_def x)
qed

lemma CRYPTO_chacha_20_stream:
  assumes "length key = 32" "length iv = 8" "length tmp = 64" "length m < 2 ^ 32" "length m \<le> length out"
  shows "CRYPTO_chacha_20 tmp out m key iv counter =
    xor_stream (chacha_input key (ucast counter) (U32TO8_LITTLE (ucast (drop_bit 32 counter)) @ iv)) 0 m @ drop (length m) out"
proof -
  define ctx where "ctx = chacha_ivsetup (chacha_keysetup chacha_ctx_raw key 256) iv None"
  define ctx1 where "ctx1 = (if counter \<noteq> 0
     then ctx\<lparr>cc_input := (cc_input ctx)[12 := ucast counter, 13 := ucast (drop_bit 32 counter)]\<rparr> else ctx)"
  let ?j = "chacha_input key (ucast counter) (U32TO8_LITTLE (ucast (drop_bit 32 counter)) @ iv)"
  have raw: "length (cc_input chacha_ctx_raw) = 16" by (simp add: chacha_ctx_raw_def)
  have "cc_input ctx1 = ?j"
  proof (cases "counter = 0")
    case True
    then show ?thesis using setup_input(2) [OF assms(1,2) raw] by (simp add: ctx1_def ctx_def)
  next
    case False
    then show ?thesis using setup_input(1) [OF assms(1,2) raw] by (simp add: ctx1_def ctx_def)
  qed
  moreover have "cc_unused ctx1 = 0"
    by (simp add: ctx1_def ctx_def chacha_ivsetup_def chacha_keysetup_def chacha_ctx_raw_def Let_def)
  moreover have "length ?j = 16" using assms(1,2) by (intro length_chacha_input) simp_all
  ultimately have "chacha_at ?j 0 ctx1" by (simp add: chacha_at_def)
  from encrypt_bytes_spec [OF assms(3,4) _ this] have "fst (chacha_encrypt_bytes tmp ctx1 m (word_of_nat (length m))) = xor_stream ?j 0 m"
    by auto
  moreover have "length (xor_stream ?j 0 m) = length m" by (simp add: xor_stream_def)
  ultimately show ?thesis
    unfolding CRYPTO_chacha_20_def Let_def ctx_def [symmetric] ctx1_def [symmetric]
    by (simp add: mem_write_def)
qed

section \<open>Properties\<close>

text \<open>C16. ChaCha20 is that of RFC 8439. For a key of 32 bytes, an initialisation vector of 8 bytes and a 64-bit
  counter, of which the upper word acts as the first word of the nonce of the RFC, the output is the key
  stream of the RFC added to the input, as long as the input is shorter than \<open>2 ^ 32\<close> bytes and the lower
  word of the counter does not wrap; whatever is left of the output buffer is not touched.\<close>

theorem chacha20_is_rfc8439:
  assumes "length key = 32" "length iv = 8" "length tmp = 64" "length m < 2 ^ 32" "length m \<le> length out"
    and "unat (ucast counter :: u32) + (length m + 63) div 64 \<le> 2 ^ 32"
  shows "CRYPTO_chacha_20 tmp out m key iv counter =
    rfc_chacha20 key (ucast counter) (rev (be_bytes 4 (unat (drop_bit 32 counter))) @ iv) m @ drop (length m) out"
proof -
  have "unat (drop_bit 32 counter) < 2 ^ 32"
    using unat_u64_less [of counter] by (subst unat_drop_bit_eq) (simp add: drop_bit_eq_div less_mult_imp_div_less)
  then have "unat (ucast (drop_bit 32 counter) :: u32) = unat (drop_bit 32 counter)"
    by (simp add: unsigned_ucast_eq take_bit_eq_mod)
  then show ?thesis
    using CRYPTO_chacha_20_stream [OF assms(1-5)] assms(1,2,6)
      xor_stream_rfc [of key "U32TO8_LITTLE (ucast (drop_bit 32 counter)) @ iv" "ucast counter" m]
    by (simp add: U32TO8_LITTLE_eq)
qed

theorem chacha20_is_rfc8439_witness:
  "CRYPTO_chacha_20 (replicate 64 7) (replicate 3 9) [1, 2] (replicate 32 5) (replicate 8 6) 1
    = rfc_chacha20 (replicate 32 5) 1 (replicate 4 0 @ replicate 8 6) [1, 2] @ [9]"
  using chacha20_is_rfc8439 [of "replicate 32 5" "replicate 8 6" "replicate 64 7" "[1, 2]" "replicate 3 9" 1]
  by (simp add: eval_simps)

text \<open>C38. The position in the key stream survives the end of a call: from a context with a key of 32 bytes,
  an initialisation vector and an initial counter, any sequence of calls of \<open>ChaCha\<close> on pieces of a message, each shorter
  than \<open>2 ^ 32\<close> bytes, writes what a single pass over the whole message would, and any sequence of calls
  from an equal context on pieces of the result restores the message.\<close>

theorem chacha_pieces_roundtrip:
  fixes ctx :: chacha_ctx
  assumes "length key = 32" "length iv = 8" "length c = 8" "length (cc_input ctx) = 16" "length tmp = 64"
    and "list_all (\<lambda>m. length m < 2 ^ 32) ms" "list_all (\<lambda>m. length m < 2 ^ 32) es"
  defines "start \<equiv> ChaCha_set_iv (ChaCha_set_key ctx key 256) iv (Some c)"
  shows "fst (crypt_pieces (ChaCha tmp) start ms) = xor_stream (chacha_input key (U8TO32_LITTLE c) (drop 4 c @ iv)) 0 (concat ms)
    \<and> (concat es = fst (crypt_pieces (ChaCha tmp) start ms) \<longrightarrow> fst (crypt_pieces (ChaCha tmp) start es) = concat ms)"
proof -
  let ?j = "chacha_input key (U8TO32_LITTLE c) (drop 4 c @ iv)"
  have "cc_input start = ?j"
    using setup_input(3) [OF assms(1,2,4,3)]
    by (simp add: start_def ChaCha_set_iv_def ChaCha_set_key_def chacha_ivsetup_def chacha_keysetup_def Let_def)
  moreover have "cc_unused start = 0" by (simp add: start_def ChaCha_set_iv_def)
  moreover have "length ?j = 16" using assms(1-3) by (intro length_chacha_input) simp_all
  ultimately have at: "length tmp = 64 \<and> chacha_at ?j 0 start" using assms(5) by (simp add: chacha_at_def)
  show ?thesis
    using chacha.crypt_pieces_spec [OF at assms(6)] chacha.pieces_decrypt [OF at at assms(6,7)]
    by (auto simp: chacha.add_stream_def xor_stream_def)
qed

theorem chacha_pieces_roundtrip_witness:
  "let start = ChaCha_set_iv (ChaCha_set_key chacha_ctx_raw (replicate 32 5) 256) (replicate 8 6) (Some (replicate 8 0));
       out = fst (crypt_pieces (ChaCha (replicate 64 0)) start [[1, 2], [3]])
   in fst (crypt_pieces (ChaCha (replicate 64 0)) start [take 1 out, drop 1 out]) = [1, 2, 3]"
proof -
  define start where "start = ChaCha_set_iv (ChaCha_set_key chacha_ctx_raw (replicate 32 5) 256) (replicate 8 6) (Some (replicate 8 0))"
  define out where "out = fst (crypt_pieces (ChaCha (replicate 64 0)) start [[1, 2], [3]])"
  note rt = chacha_pieces_roundtrip [of "replicate 32 5" "replicate 8 6" "replicate 8 0" chacha_ctx_raw "replicate 64 0" "[[1, 2], [3]]",
      folded start_def, folded out_def, simplified chacha_ctx_raw_def [THEN arg_cong [of _ _ cc_input]], simplified]
  have "length out = 3" using rt [of "[]"] by (simp add: xor_stream_def)
  then have "list_all (\<lambda>m. length m < 4294967296) [take 1 out, drop 1 out]" "concat [take 1 out, drop 1 out] = out" by simp_all
  with rt have "fst (crypt_pieces (ChaCha (replicate 64 0)) start [take 1 out, drop 1 out]) = [1, 2, 3]" by blast
  then show ?thesis unfolding start_def [symmetric] out_def [symmetric] Let_def .
qed

end
