(* ===== verification/Evp_Aead.thy ===== *)
theory Evp_Aead
  imports Poly1305_Correct Chacha
begin

unbundle bit_operations_syntax

text \<open>
  Authenticated encryption: the interface of \<^verbatim>\<open>crypto/evp/evp_aead.c\<close> and its instances in
  \<^verbatim>\<open>crypto/evp/e_chacha20poly1305.c\<close>, with their agreement with RFC 8439.

  A cipher is a record of its sizes and operations, like \<open>struct evp_aead_st\<close>; an operation that looks up the nonce length
  in its context takes it as an argument. An output buffer is an argument and a result, and its length is
  \<open>max_out_len\<close>. Buffers of one call are equal or do not overlap, which is what \<open>check_alias\<close> is there
  to ensure. \<open>tmp\<close> is the stack memory that the ChaCha20 code reads before it sets it.
\<close>

section \<open>The interface\<close>

record 's EVP_AEAD =
  aead_key_len :: nat
  aead_nonce_len :: nat
  aead_overhead :: nat
  aead_max_tag_len :: nat
  aead_init :: "(nat \<Rightarrow> bool) \<Rightarrow> bytes \<Rightarrow> nat \<Rightarrow> 's option"
  aead_seal :: "'s \<Rightarrow> nat \<Rightarrow> bytes \<Rightarrow> bytes \<Rightarrow> bytes \<Rightarrow> bytes \<Rightarrow> (bytes \<times> nat) option"
  aead_open :: "'s \<Rightarrow> nat \<Rightarrow> bytes \<Rightarrow> bytes \<Rightarrow> bytes \<Rightarrow> bytes \<Rightarrow> (bytes \<times> nat) option"

record 's EVP_AEAD_CTX =
  ac_aead :: "'s EVP_AEAD option"
  ac_state :: "'s option"

definition EVP_AEAD_key_length :: "'s EVP_AEAD \<Rightarrow> nat" where
  "EVP_AEAD_key_length aead = aead_key_len aead"

definition EVP_AEAD_nonce_length :: "'s EVP_AEAD \<Rightarrow> nat" where
  "EVP_AEAD_nonce_length aead = aead_nonce_len aead"

definition EVP_AEAD_max_overhead :: "'s EVP_AEAD \<Rightarrow> nat" where
  "EVP_AEAD_max_overhead aead = aead_overhead aead"

definition EVP_AEAD_max_tag_len :: "'s EVP_AEAD \<Rightarrow> nat" where
  "EVP_AEAD_max_tag_len aead = aead_max_tag_len aead"

definition EVP_AEAD_CTX_init ::
    "(nat \<Rightarrow> bool) \<Rightarrow> 's EVP_AEAD_CTX \<Rightarrow> 's EVP_AEAD \<Rightarrow> bytes \<Rightarrow> nat \<Rightarrow> bool \<times> 's EVP_AEAD_CTX" where
  "EVP_AEAD_CTX_init grant ctx aead key tag_len =
     (let ctx = ctx\<lparr>ac_aead := Some aead\<rparr> in
      if length key \<noteq> aead_key_len aead then (False, ctx)
      else case aead_init aead grant key tag_len of
        None \<Rightarrow> (False, ctx)
      | Some s \<Rightarrow> (True, ctx\<lparr>ac_state := Some s\<rparr>))"

text \<open>The state of the cipher is freed and \<open>aead_state\<close> is left dangling: with \<open>aead\<close> null it is not used again before
  the next initialisation.\<close>

definition EVP_AEAD_CTX_cleanup :: "'s EVP_AEAD_CTX \<Rightarrow> 's EVP_AEAD_CTX" where
  "EVP_AEAD_CTX_cleanup ctx = (if ac_aead ctx = None then ctx else ctx\<lparr>ac_aead := None, ac_state := None\<rparr>)"

definition EVP_AEAD_CTX_seal :: "'s EVP_AEAD_CTX \<Rightarrow> bytes \<Rightarrow> bytes \<Rightarrow> bytes \<Rightarrow> bytes \<Rightarrow> bool \<times> bytes \<times> nat" where
  "EVP_AEAD_CTX_seal ctx out nonce inp ad =
     (case (ac_aead ctx, ac_state ctx) of
        (Some aead, Some s) \<Rightarrow>
          if (length inp + aead_overhead aead) mod SIZE_MOD < length inp then (False, replicate (length out) 0, 0)
          else (case aead_seal aead s (aead_nonce_len aead) out nonce inp ad of
                  None \<Rightarrow> (False, replicate (length out) 0, 0)
                | Some (out, out_len) \<Rightarrow> (True, out, out_len))
      | _ \<Rightarrow> (False, replicate (length out) 0, 0))"

definition EVP_AEAD_CTX_open :: "'s EVP_AEAD_CTX \<Rightarrow> bytes \<Rightarrow> bytes \<Rightarrow> bytes \<Rightarrow> bytes \<Rightarrow> bool \<times> bytes \<times> nat" where
  "EVP_AEAD_CTX_open ctx out nonce inp ad =
     (case (ac_aead ctx, ac_state ctx) of
        (Some aead, Some s) \<Rightarrow>
          (case aead_open aead s (aead_nonce_len aead) out nonce inp ad of
             None \<Rightarrow> (False, replicate (length out) 0, 0)
           | Some (out, out_len) \<Rightarrow> (True, out, out_len))
      | _ \<Rightarrow> (False, replicate (length out) 0, 0))"

section \<open>ChaCha20-Poly1305\<close>

abbreviation (input) POLY1305_TAG_LEN :: nat where "POLY1305_TAG_LEN \<equiv> 16"
abbreviation (input) CHACHA20_CONSTANT_LEN :: nat where "CHACHA20_CONSTANT_LEN \<equiv> 4"
abbreviation (input) CHACHA20_NONCE_LEN :: nat where "CHACHA20_NONCE_LEN \<equiv> 12"
abbreviation (input) XCHACHA20_NONCE_LEN :: nat where "XCHACHA20_NONCE_LEN \<equiv> 24"

record aead_chacha20_poly1305_ctx =
  c20_key :: bytes
  c20_tag_len :: nat

definition aead_chacha20_poly1305_init :: "(nat \<Rightarrow> bool) \<Rightarrow> bytes \<Rightarrow> nat \<Rightarrow> aead_chacha20_poly1305_ctx option" where
  "aead_chacha20_poly1305_init grant key tag_len =
     (let tag_len = (if tag_len = 0 then POLY1305_TAG_LEN else tag_len) in
      if POLY1305_TAG_LEN < tag_len then None
      else if length key \<noteq> 32 then None
      else if \<not> grant 33 then None
      else Some \<lparr>c20_key = key, c20_tag_len = tag_len\<rparr>)"

definition poly1305_update_with_length :: "poly1305_state \<Rightarrow> bytes option \<Rightarrow> nat \<Rightarrow> poly1305_state" where
  "poly1305_update_with_length poly1305 data data_len =
     (let length_bytes = map (\<lambda>i. word_of_nat (data_len div 256 ^ i)) [0..<8];
          poly1305 = (case data of None \<Rightarrow> poly1305 | Some d \<Rightarrow> CRYPTO_poly1305_update poly1305 d)
      in CRYPTO_poly1305_update poly1305 length_bytes)"

definition poly1305_update_with_pad16 :: "poly1305_state \<Rightarrow> bytes \<Rightarrow> poly1305_state" where
  "poly1305_update_with_pad16 poly1305 data =
     (let poly1305 = CRYPTO_poly1305_update poly1305 data; pad_len = length data mod 16
      in if pad_len = 0 then poly1305 else CRYPTO_poly1305_update poly1305 (replicate (16 - pad_len) 0))"

text \<open>The counter and the vector both directions take from the nonce.\<close>

definition nonce_counter :: "bytes \<Rightarrow> u64" where
  "nonce_counter nonce =
     push_bit 32 (ucast (ucast (nonce ! 0) OR push_bit 8 (ucast (nonce ! 1)) OR push_bit 16 (ucast (nonce ! 2))
       OR push_bit 24 (ucast (nonce ! 3)) :: u32))"

text \<open>The authenticator over the additional data and the ciphertext, as the two directions compute it.\<close>

definition chacha20_poly1305_mac :: "bytes \<Rightarrow> bytes \<Rightarrow> bytes \<Rightarrow> bytes" where
  "chacha20_poly1305_mac poly1305_key ad ct =
     (let poly1305 = CRYPTO_poly1305_init poly1305_raw poly1305_key;
          poly1305 = poly1305_update_with_pad16 poly1305 ad;
          poly1305 = poly1305_update_with_pad16 poly1305 ct;
          poly1305 = poly1305_update_with_length poly1305 None (length ad);
          poly1305 = poly1305_update_with_length poly1305 None (length ct)
      in fst (CRYPTO_poly1305_finish poly1305))"

definition aead_chacha20_poly1305_seal ::
    "bytes \<Rightarrow> aead_chacha20_poly1305_ctx \<Rightarrow> nat \<Rightarrow> bytes \<Rightarrow> bytes \<Rightarrow> bytes \<Rightarrow> bytes \<Rightarrow> (bytes \<times> nat) option" where
  "aead_chacha20_poly1305_seal tmp c20_ctx nonce_len out nonce inp ad =
     (if 2 ^ 32 * 64 - 64 \<le> length inp then None
      else if length out < length inp + c20_tag_len c20_ctx then None
      else if length nonce \<noteq> nonce_len then None
      else
        let ctr = nonce_counter nonce;
            iv = drop CHACHA20_CONSTANT_LEN nonce;
            poly1305_key = CRYPTO_chacha_20 tmp (replicate 32 0) (replicate 32 0) (c20_key c20_ctx) iv ctr;
            out = CRYPTO_chacha_20 tmp out inp (c20_key c20_ctx) iv (ctr + 1);
            tag = chacha20_poly1305_mac poly1305_key ad (take (length inp) out)
        in Some (mem_write out (length inp) (take (c20_tag_len c20_ctx) tag), length inp + c20_tag_len c20_ctx))"

definition aead_chacha20_poly1305_open ::
    "bytes \<Rightarrow> aead_chacha20_poly1305_ctx \<Rightarrow> nat \<Rightarrow> bytes \<Rightarrow> bytes \<Rightarrow> bytes \<Rightarrow> bytes \<Rightarrow> (bytes \<times> nat) option" where
  "aead_chacha20_poly1305_open tmp c20_ctx nonce_len out nonce inp ad =
     (if length inp < c20_tag_len c20_ctx then None
      else if 2 ^ 32 * 64 - 64 \<le> length inp then None
      else if length nonce \<noteq> nonce_len then None
      else
        let plaintext_len = length inp - c20_tag_len c20_ctx in
        if length out < plaintext_len then None
        else
          let ctr = nonce_counter nonce;
              iv = drop CHACHA20_CONSTANT_LEN nonce;
              poly1305_key = CRYPTO_chacha_20 tmp (replicate 32 0) (replicate 32 0) (c20_key c20_ctx) iv ctr;
              mac = chacha20_poly1305_mac poly1305_key ad (take plaintext_len inp)
          in if take (c20_tag_len c20_ctx) mac \<noteq> take (c20_tag_len c20_ctx) (drop plaintext_len inp) then None
             else Some (CRYPTO_chacha_20 tmp out (take plaintext_len inp) (c20_key c20_ctx) iv (ctr + 1), plaintext_len))"

definition aead_xchacha20_poly1305_seal ::
    "bytes \<Rightarrow> aead_chacha20_poly1305_ctx \<Rightarrow> nat \<Rightarrow> bytes \<Rightarrow> bytes \<Rightarrow> bytes \<Rightarrow> bytes \<Rightarrow> (bytes \<times> nat) option" where
  "aead_xchacha20_poly1305_seal tmp c20_ctx nonce_len out nonce inp ad =
     (if length out < (length inp + c20_tag_len c20_ctx) mod SIZE_MOD then None
      else if length nonce \<noteq> nonce_len then None
      else
        let subkey = CRYPTO_hchacha_20 (c20_key c20_ctx) nonce;
            out = CRYPTO_chacha_20 tmp out inp subkey (drop 16 nonce) 1;
            poly1305_key = CRYPTO_chacha_20 tmp (replicate 32 0) (replicate 32 0) subkey (drop 16 nonce) 0;
            tag = chacha20_poly1305_mac poly1305_key ad (take (length inp) out)
        in Some (mem_write out (length inp) (take (c20_tag_len c20_ctx) tag), length inp + c20_tag_len c20_ctx))"

definition aead_xchacha20_poly1305_open ::
    "bytes \<Rightarrow> aead_chacha20_poly1305_ctx \<Rightarrow> nat \<Rightarrow> bytes \<Rightarrow> bytes \<Rightarrow> bytes \<Rightarrow> bytes \<Rightarrow> (bytes \<times> nat) option" where
  "aead_xchacha20_poly1305_open tmp c20_ctx nonce_len out nonce inp ad =
     (if length inp < c20_tag_len c20_ctx then None
      else if length nonce \<noteq> nonce_len then None
      else
        let plaintext_len = length inp - c20_tag_len c20_ctx in
        if length out < plaintext_len then None
        else
          let subkey = CRYPTO_hchacha_20 (c20_key c20_ctx) nonce;
              poly1305_key = CRYPTO_chacha_20 tmp (replicate 32 0) (replicate 32 0) subkey (drop 16 nonce) 0;
              mac = chacha20_poly1305_mac poly1305_key ad (take plaintext_len inp)
          in if take (c20_tag_len c20_ctx) mac \<noteq> take (c20_tag_len c20_ctx) (drop plaintext_len inp) then None
             else Some (CRYPTO_chacha_20 tmp out (take plaintext_len inp) subkey (drop 16 nonce) 1, plaintext_len))"

definition aead_chacha20_poly1305 :: "bytes \<Rightarrow> aead_chacha20_poly1305_ctx EVP_AEAD" where
  "aead_chacha20_poly1305 tmp = \<lparr>aead_key_len = 32, aead_nonce_len = CHACHA20_NONCE_LEN, aead_overhead = POLY1305_TAG_LEN,
     aead_max_tag_len = POLY1305_TAG_LEN, aead_init = aead_chacha20_poly1305_init,
     aead_seal = aead_chacha20_poly1305_seal tmp, aead_open = aead_chacha20_poly1305_open tmp\<rparr>"

definition aead_xchacha20_poly1305 :: "bytes \<Rightarrow> aead_chacha20_poly1305_ctx EVP_AEAD" where
  "aead_xchacha20_poly1305 tmp = \<lparr>aead_key_len = 32, aead_nonce_len = XCHACHA20_NONCE_LEN, aead_overhead = POLY1305_TAG_LEN,
     aead_max_tag_len = POLY1305_TAG_LEN, aead_init = aead_chacha20_poly1305_init,
     aead_seal = aead_xchacha20_poly1305_seal tmp, aead_open = aead_xchacha20_poly1305_open tmp\<rparr>"

section \<open>RFC 8439\<close>

definition rfc_pad16 :: "bytes \<Rightarrow> bytes" where
  "rfc_pad16 x = replicate ((16 - length x mod 16) mod 16) 0"

definition rfc_aead_tag :: "bytes \<Rightarrow> bytes \<Rightarrow> bytes \<Rightarrow> bytes \<Rightarrow> bytes" where
  "rfc_aead_tag key nonce ad ct =
     rfc_poly1305 (take 32 (rfc_block key 0 nonce))
       (ad @ rfc_pad16 ad @ ct @ rfc_pad16 ct @ le_bytes 8 (length ad) @ le_bytes 8 (length ct))"

definition rfc_aead_encrypt :: "bytes \<Rightarrow> bytes \<Rightarrow> bytes \<Rightarrow> bytes \<Rightarrow> bytes" where
  "rfc_aead_encrypt key nonce ad m =
     (let ct = rfc_chacha20 key 1 nonce m in ct @ rfc_aead_tag key nonce ad ct)"

section \<open>The authenticator\<close>

lemma length_bytes_eq: "map (\<lambda>i. word_of_nat (n div 256 ^ i)) [0..<8] = le_bytes 8 n"
proof (rule nth_equalityI)
  fix i assume "i < length (map (\<lambda>i. word_of_nat (n div 256 ^ i) :: u8) [0..<8])"
  then have i: "i < 8" by simp
  then have "[0..<8] ! (8 - Suc i) = 8 - Suc i" by (subst nth_upt) simp_all
  then show "map (\<lambda>i. word_of_nat (n div 256 ^ i)) [0..<8] ! i = le_bytes 8 n ! i" using i by (simp add: be_bytes_map rev_nth)
qed simp

lemma pad16_rep:
  assumes "poly_rep key m st"
  shows "poly_rep key (m @ data @ rfc_pad16 data) (poly1305_update_with_pad16 st data)"
proof (cases "length data mod 16 = 0")
  case True
  then show ?thesis using update_rep [OF assms, of data]
    by (simp add: poly1305_update_with_pad16_def rfc_pad16_def CRYPTO_poly1305_update_def)
next
  case False
  moreover have "length data mod 16 < 16" by simp
  ultimately have "(16 - length data mod 16) mod 16 = 16 - length data mod 16" by simp
  then show ?thesis using False update_rep [OF update_rep [OF assms, of data], of "replicate (16 - length data mod 16) 0"]
    by (simp add: poly1305_update_with_pad16_def rfc_pad16_def CRYPTO_poly1305_update_def Let_def)
qed

lemma length_rep: "poly_rep key m st \<Longrightarrow> poly_rep key (m @ le_bytes 8 n) (poly1305_update_with_length st None n)"
  using update_rep [of key m st "le_bytes 8 n"]
  by (simp add: poly1305_update_with_length_def CRYPTO_poly1305_update_def length_bytes_eq)

lemma mac_spec:
  assumes "length key = 32"
  shows "chacha20_poly1305_mac key ad ct
    = rfc_poly1305 key (ad @ rfc_pad16 ad @ ct @ rfc_pad16 ct @ le_bytes 8 (length ad) @ le_bytes 8 (length ct))"
proof -
  have "poly_rep key [] (CRYPTO_poly1305_init poly1305_raw key)"
    using init_rep [OF assms] by (simp add: CRYPTO_poly1305_init_def poly1305_raw_def)
  note ad = pad16_rep [OF this, of ad]
  note ct = pad16_rep [OF ad, of ct]
  from finish_spec [OF length_rep [OF length_rep [OF ct, of "length ad"], of "length ct"]]
  show ?thesis by (simp add: chacha20_poly1305_mac_def Let_def CRYPTO_poly1305_finish_def)
qed

lemma length_mac: "length key = 32 \<Longrightarrow> length (chacha20_poly1305_mac key ad ct) = 16"
  by (simp add: mac_spec rfc_poly1305_def)

section \<open>Sealing and opening\<close>

lemma xor_stream_twice: "xor_stream j n (xor_stream j n m) = m"
  by (rule nth_equalityI) (simp_all add: xor_stream_def xor.assoc)

lemma length_xor_stream [simp]: "length (xor_stream j n m) = length m"
  by (simp add: xor_stream_def)

text \<open>What the two ciphers have in common: a one-time key for the authenticator and a key stream, both determined by the key
  and the nonce.\<close>

definition sealed :: "bytes \<Rightarrow> u32 list \<Rightarrow> nat \<Rightarrow> bytes \<Rightarrow> bytes \<Rightarrow> bytes" where
  "sealed otk j tag_len ad m =
     (let ct = xor_stream j 0 m in ct @ take tag_len (chacha20_poly1305_mac otk ad ct))"

lemma length_sealed: "length otk = 32 \<Longrightarrow> tag_len \<le> 16 \<Longrightarrow> length (sealed otk j tag_len ad m) = length m + tag_len"
  by (simp add: sealed_def Let_def length_mac)

definition stream_of :: "bytes \<Rightarrow> bytes \<Rightarrow> u64 \<Rightarrow> u32 list" where
  "stream_of key iv counter = chacha_input key (ucast counter) (U32TO8_LITTLE (ucast (drop_bit 32 counter)) @ iv)"

lemma chacha_stream:
  assumes "length key = 32" "length iv = 8" "length tmp = 64" "length m < 2 ^ 32" "length m \<le> length out"
  shows "CRYPTO_chacha_20 tmp out m key iv counter = xor_stream (stream_of key iv counter) 0 m @ drop (length m) out"
  using CRYPTO_chacha_20_stream [OF assms] by (simp add: stream_of_def)

definition otk_of :: "bytes \<Rightarrow> bytes \<Rightarrow> u64 \<Rightarrow> bytes" where
  "otk_of key iv counter = xor_stream (stream_of key iv counter) 0 (replicate 32 0)"

lemma chacha_otk:
  "length key = 32 \<Longrightarrow> length iv = 8 \<Longrightarrow> length tmp = 64 \<Longrightarrow>
    CRYPTO_chacha_20 tmp (replicate 32 0) (replicate 32 0) key iv counter = otk_of key iv counter"
  by (simp add: chacha_stream otk_of_def)

lemma length_otk_of [simp]: "length (otk_of key iv counter) = 32"
  by (simp add: otk_of_def)

definition c20_ok :: "bytes \<Rightarrow> aead_chacha20_poly1305_ctx \<Rightarrow> bool" where
  "c20_ok tmp c \<longleftrightarrow> length tmp = 64 \<and> length (c20_key c) = 32 \<and> c20_tag_len c \<le> 16"

lemma chacha_seal_spec:
  assumes "c20_ok tmp c" "length nonce = 12" "length m < 2 ^ 32" "length m + c20_tag_len c \<le> length out"
  defines "otk \<equiv> otk_of (c20_key c) (drop 4 nonce) (nonce_counter nonce)" and "j \<equiv> stream_of (c20_key c) (drop 4 nonce) (nonce_counter nonce + 1)"
  shows "aead_chacha20_poly1305_seal tmp c 12 out nonce m ad
    = Some (sealed otk j (c20_tag_len c) ad m @ drop (length m + c20_tag_len c) out, length m + c20_tag_len c)"
    and "length out' \<ge> length m \<Longrightarrow> aead_chacha20_poly1305_open tmp c 12 out' nonce (sealed otk j (c20_tag_len c) ad m) ad
      = Some (m @ drop (length m) out', length m)"
proof -
  have c: "length tmp = 64" "length (c20_key c) = 32" "c20_tag_len c \<le> 16" "length (drop 4 nonce) = 8"
    using assms(1,2) by (simp_all add: c20_ok_def)
  note otk = chacha_otk [OF c(2,4,1), of "nonce_counter nonce", folded otk_def]
  have out: "CRYPTO_chacha_20 tmp out m (c20_key c) (drop 4 nonce) (nonce_counter nonce + 1) = xor_stream j 0 m @ drop (length m) out"
    using chacha_stream [OF c(2,4,1) assms(3), of out "nonce_counter nonce + 1"] assms(4) by (simp add: j_def)
  have len: "length (chacha20_poly1305_mac otk ad x) = 16" for x by (simp add: otk_def length_mac)
  show "aead_chacha20_poly1305_seal tmp c 12 out nonce m ad
    = Some (sealed otk j (c20_tag_len c) ad m @ drop (length m + c20_tag_len c) out, length m + c20_tag_len c)"
    using assms(2-4) c(3) by (simp add: aead_chacha20_poly1305_seal_def otk out Let_def mem_write_def sealed_def len)
      (simp add: add.commute)
  assume "length out' \<ge> length m"
  then have "CRYPTO_chacha_20 tmp out' (xor_stream j 0 m) (c20_key c) (drop 4 nonce) (nonce_counter nonce + 1) = m @ drop (length m) out'"
    using chacha_stream [OF c(2,4,1), of "xor_stream j 0 m" out' "nonce_counter nonce + 1"] assms(3) by (simp add: j_def xor_stream_twice)
  then show "aead_chacha20_poly1305_open tmp c 12 out' nonce (sealed otk j (c20_tag_len c) ad m) ad = Some (m @ drop (length m) out', length m)"
    using assms(2,3) c(3) \<open>length out' \<ge> length m\<close>
    by (simp add: aead_chacha20_poly1305_open_def otk Let_def sealed_def len)
qed

lemma chacha_open_sealed:
  assumes "c20_ok tmp c" "length nonce = 12" "length inp < 2 ^ 32"
    and "aead_chacha20_poly1305_open tmp c 12 out nonce inp ad = Some r"
  shows "\<exists>m. inp = sealed (otk_of (c20_key c) (drop 4 nonce) (nonce_counter nonce))
    (stream_of (c20_key c) (drop 4 nonce) (nonce_counter nonce + 1)) (c20_tag_len c) ad m"
proof -
  define l where "l = length inp - c20_tag_len c"
  define j where "j = stream_of (c20_key c) (drop 4 nonce) (nonce_counter nonce + 1)"
  have c: "length tmp = 64" "length (c20_key c) = 32" "c20_tag_len c \<le> 16" "length (drop 4 nonce) = 8"
    using assms(1,2) by (simp_all add: c20_ok_def)
  note otk = chacha_otk [OF c(2,4,1), of "nonce_counter nonce"]
  have tag: "take (c20_tag_len c) (chacha20_poly1305_mac (otk_of (c20_key c) (drop 4 nonce) (nonce_counter nonce)) ad (take l inp)) = drop l inp"
    and tl: "c20_tag_len c \<le> length inp"
    using assms(4) by (auto simp: aead_chacha20_poly1305_open_def otk Let_def l_def split: if_splits)
  have "inp = sealed (otk_of (c20_key c) (drop 4 nonce) (nonce_counter nonce)) j (c20_tag_len c) ad (xor_stream j 0 (take l inp))"
    by (simp add: sealed_def Let_def xor_stream_twice tag)
  then show ?thesis unfolding j_def by blast
qed

lemma length_hchacha: "length (CRYPTO_hchacha_20 key nonce) = 32"
  by (simp add: CRYPTO_hchacha_20_def Let_def)

lemma xchacha_seal_spec:
  assumes "c20_ok tmp c" "length nonce = 24" "length m < 2 ^ 32" "length m + c20_tag_len c \<le> length out"
  defines "k \<equiv> CRYPTO_hchacha_20 (c20_key c) nonce"
  defines "otk \<equiv> otk_of k (drop 16 nonce) 0" and "j \<equiv> stream_of k (drop 16 nonce) 1"
  shows "aead_xchacha20_poly1305_seal tmp c 24 out nonce m ad
    = Some (sealed otk j (c20_tag_len c) ad m @ drop (length m + c20_tag_len c) out, length m + c20_tag_len c)"
    and "length out' \<ge> length m \<Longrightarrow> aead_xchacha20_poly1305_open tmp c 24 out' nonce (sealed otk j (c20_tag_len c) ad m) ad
      = Some (m @ drop (length m) out', length m)"
proof -
  have c: "length tmp = 64" "length k = 32" "c20_tag_len c \<le> 16" "length (drop 16 nonce) = 8"
    using assms(1,2) by (simp_all add: c20_ok_def k_def length_hchacha)
  note otk = chacha_otk [OF c(2,4,1), of 0, folded otk_def]
  have out: "CRYPTO_chacha_20 tmp out m k (drop 16 nonce) 1 = xor_stream j 0 m @ drop (length m) out"
    using chacha_stream [OF c(2,4,1) assms(3), of out 1] assms(4) by (simp add: j_def)
  have len: "length (chacha20_poly1305_mac otk ad x) = 16" for x by (simp add: otk_def length_mac)
  have "(length m + c20_tag_len c) mod SIZE_MOD = length m + c20_tag_len c" using assms(3) c(3) by simp
  then show "aead_xchacha20_poly1305_seal tmp c 24 out nonce m ad
    = Some (sealed otk j (c20_tag_len c) ad m @ drop (length m + c20_tag_len c) out, length m + c20_tag_len c)"
    using assms(2-4) c(3) by (simp add: aead_xchacha20_poly1305_seal_def k_def [symmetric] otk out Let_def mem_write_def sealed_def len)
      (simp add: add.commute)
  assume "length out' \<ge> length m"
  then have "CRYPTO_chacha_20 tmp out' (xor_stream j 0 m) k (drop 16 nonce) 1 = m @ drop (length m) out'"
    using chacha_stream [OF c(2,4,1), of "xor_stream j 0 m" out' 1] assms(3) by (simp add: j_def xor_stream_twice)
  then show "aead_xchacha20_poly1305_open tmp c 24 out' nonce (sealed otk j (c20_tag_len c) ad m) ad = Some (m @ drop (length m) out', length m)"
    using assms(2) c(3) \<open>length out' \<ge> length m\<close>
    by (simp add: aead_xchacha20_poly1305_open_def k_def [symmetric] otk Let_def sealed_def len)
qed

section \<open>The contract of a cipher\<close>

text \<open>What the record layer relies on: a state that comes from an initialisation with a key of the right length and the
  default tag seals every short message into a string that is longer by the tag and that opens to the message again, under
  the same nonce and additional data.\<close>

locale aead_cipher =
  fixes aead :: "'s EVP_AEAD" and keyed :: "'s \<Rightarrow> bool" and limit :: nat
    and seal_of :: "'s \<Rightarrow> bytes \<Rightarrow> bytes \<Rightarrow> bytes \<Rightarrow> bytes"
  assumes init_keyed: "\<forall>n. grant n \<Longrightarrow> length key = aead_key_len aead \<Longrightarrow> \<exists>s. aead_init aead grant key 0 = Some s \<and> keyed s"
    and length_seal_of: "keyed s \<Longrightarrow> length (seal_of s nonce m ad) = length m + aead_max_tag_len aead"
    and seal_some: "keyed s \<Longrightarrow> length nonce = aead_nonce_len aead \<Longrightarrow> length m < limit \<Longrightarrow>
      length out = length m + aead_max_tag_len aead \<Longrightarrow>
      aead_seal aead s (aead_nonce_len aead) out nonce m ad = Some (seal_of s nonce m ad, length m + aead_max_tag_len aead)"
    and open_some: "keyed s \<Longrightarrow> length nonce = aead_nonce_len aead \<Longrightarrow> length m < limit \<Longrightarrow> length m \<le> length out \<Longrightarrow>
      aead_open aead s (aead_nonce_len aead) out nonce (seal_of s nonce m ad) ad = Some (m @ drop (length m) out, length m)"
    and overhead: "aead_overhead aead \<le> 255" "aead_max_tag_len aead \<le> 255"
    and sizes: "8 \<le> aead_nonce_len aead" "aead_nonce_len aead \<le> 24" "aead_key_len aead \<le> 32"
    and limit: "2 ^ 15 \<le> limit" "limit \<le> 2 ^ 32"
begin

lemma ctx_init:
  assumes "\<forall>n. grant n" "length key = aead_key_len aead"
  obtains s where "EVP_AEAD_CTX_init grant ctx aead key 0 = (True, \<lparr>ac_aead = Some aead, ac_state = Some s\<rparr>)" and "keyed s"
proof -
  obtain s where "aead_init aead grant key 0 = Some s" "keyed s" using init_keyed [OF assms] by blast
  with that [of s] assms(2) show thesis by (cases ctx) (simp add: EVP_AEAD_CTX_init_def)
qed

lemma ctx_seal:
  assumes "keyed s" "length nonce = aead_nonce_len aead" "length m < limit" "length out = length m + aead_max_tag_len aead"
  shows "EVP_AEAD_CTX_seal \<lparr>ac_aead = Some aead, ac_state = Some s\<rparr> out nonce m ad
    = (True, seal_of s nonce m ad, length m + aead_max_tag_len aead)"
  using seal_some [OF assms, of ad] assms(3) limit overhead by (simp add: EVP_AEAD_CTX_seal_def)

lemma ctx_open:
  assumes "keyed s" "length nonce = aead_nonce_len aead" "length m < limit" "length m \<le> length out"
  shows "EVP_AEAD_CTX_open \<lparr>ac_aead = Some aead, ac_state = Some s\<rparr> out nonce (seal_of s nonce m ad) ad
    = (True, m @ drop (length m) out, length m)"
  using open_some [OF assms, of ad] by (simp add: EVP_AEAD_CTX_open_def)

end

text \<open>Any 64 bytes of stack memory.\<close>

definition stack64 :: "bytes \<Rightarrow> bytes" where
  "stack64 tmp = take 64 (tmp @ replicate 64 0)"

lemma length_stack64 [simp]: "length (stack64 tmp) = 64"
  by (simp add: stack64_def)

lemma stack64_id: "length tmp = 64 \<Longrightarrow> stack64 tmp = tmp"
  by (simp add: stack64_def)

definition c20_keyed :: "bytes \<Rightarrow> aead_chacha20_poly1305_ctx \<Rightarrow> bool" where
  "c20_keyed tmp c \<longleftrightarrow> length tmp = 64 \<and> length (c20_key c) = 32 \<and> c20_tag_len c = 16"

definition chacha_seal_of :: "aead_chacha20_poly1305_ctx \<Rightarrow> bytes \<Rightarrow> bytes \<Rightarrow> bytes \<Rightarrow> bytes" where
  "chacha_seal_of c nonce m ad = sealed (otk_of (c20_key c) (drop 4 nonce) (nonce_counter nonce))
     (stream_of (c20_key c) (drop 4 nonce) (nonce_counter nonce + 1)) 16 ad m"

definition xchacha_seal_of :: "aead_chacha20_poly1305_ctx \<Rightarrow> bytes \<Rightarrow> bytes \<Rightarrow> bytes \<Rightarrow> bytes" where
  "xchacha_seal_of c nonce m ad = (let k = CRYPTO_hchacha_20 (c20_key c) nonce in
     sealed (otk_of k (drop 16 nonce) 0) (stream_of k (drop 16 nonce) 1) 16 ad m)"

lemma c20_init_keyed:
  "\<forall>n. grant n \<Longrightarrow> length key = 32 \<Longrightarrow> length tmp = 64 \<Longrightarrow> \<exists>s. aead_chacha20_poly1305_init grant key 0 = Some s \<and> c20_keyed tmp s"
  by (simp add: aead_chacha20_poly1305_init_def c20_keyed_def)

interpretation chacha20_poly1305: aead_cipher "aead_chacha20_poly1305 (stack64 tmp)" "c20_keyed (stack64 tmp)" "2 ^ 32" chacha_seal_of
proof
  fix s nonce m out ad assume s: "c20_keyed (stack64 tmp) s"
  then have ok: "c20_ok (stack64 tmp) s" "c20_tag_len s = 16" by (simp_all add: c20_keyed_def c20_ok_def)
  show "length (chacha_seal_of s nonce m ad) = length m + aead_max_tag_len (aead_chacha20_poly1305 (stack64 tmp))"
    by (simp add: chacha_seal_of_def length_sealed aead_chacha20_poly1305_def)
  assume "length nonce = aead_nonce_len (aead_chacha20_poly1305 (stack64 tmp))" "length m < 2 ^ 32"
  then have n: "length nonce = 12" "length m < 2 ^ 32" by (simp_all add: aead_chacha20_poly1305_def)
  show "length out = length m + aead_max_tag_len (aead_chacha20_poly1305 (stack64 tmp)) \<Longrightarrow>
    aead_seal (aead_chacha20_poly1305 (stack64 tmp)) s (aead_nonce_len (aead_chacha20_poly1305 (stack64 tmp))) out nonce m ad
      = Some (chacha_seal_of s nonce m ad, length m + aead_max_tag_len (aead_chacha20_poly1305 (stack64 tmp)))"
    using chacha_seal_spec(1) [OF ok(1) n, of out ad] ok(2) by (simp add: aead_chacha20_poly1305_def chacha_seal_of_def)
  show "length m \<le> length out \<Longrightarrow>
    aead_open (aead_chacha20_poly1305 (stack64 tmp)) s (aead_nonce_len (aead_chacha20_poly1305 (stack64 tmp))) out nonce (chacha_seal_of s nonce m ad) ad
      = Some (m @ drop (length m) out, length m)"
    using chacha_seal_spec(2) [OF ok(1) n, of "replicate (length m + 16) 0" out ad] ok(2) by (simp add: aead_chacha20_poly1305_def chacha_seal_of_def)
qed (use c20_init_keyed in \<open>auto simp: aead_chacha20_poly1305_def\<close>)

interpretation xchacha20_poly1305: aead_cipher "aead_xchacha20_poly1305 (stack64 tmp)" "c20_keyed (stack64 tmp)" "2 ^ 32" xchacha_seal_of
proof
  fix s nonce m out ad assume s: "c20_keyed (stack64 tmp) s"
  then have ok: "c20_ok (stack64 tmp) s" "c20_tag_len s = 16" by (simp_all add: c20_keyed_def c20_ok_def)
  show "length (xchacha_seal_of s nonce m ad) = length m + aead_max_tag_len (aead_xchacha20_poly1305 (stack64 tmp))"
    by (simp add: xchacha_seal_of_def Let_def length_sealed aead_xchacha20_poly1305_def)
  assume "length nonce = aead_nonce_len (aead_xchacha20_poly1305 (stack64 tmp))" "length m < 2 ^ 32"
  then have n: "length nonce = 24" "length m < 2 ^ 32" by (simp_all add: aead_xchacha20_poly1305_def)
  show "length out = length m + aead_max_tag_len (aead_xchacha20_poly1305 (stack64 tmp)) \<Longrightarrow>
    aead_seal (aead_xchacha20_poly1305 (stack64 tmp)) s (aead_nonce_len (aead_xchacha20_poly1305 (stack64 tmp))) out nonce m ad
      = Some (xchacha_seal_of s nonce m ad, length m + aead_max_tag_len (aead_xchacha20_poly1305 (stack64 tmp)))"
    using xchacha_seal_spec(1) [OF ok(1) n, of out ad] ok(2) by (simp add: aead_xchacha20_poly1305_def xchacha_seal_of_def Let_def)
  show "length m \<le> length out \<Longrightarrow>
    aead_open (aead_xchacha20_poly1305 (stack64 tmp)) s (aead_nonce_len (aead_xchacha20_poly1305 (stack64 tmp))) out nonce (xchacha_seal_of s nonce m ad) ad
      = Some (m @ drop (length m) out, length m)"
    using xchacha_seal_spec(2) [OF ok(1) n, of "replicate (length m + 16) 0" out ad] ok(2) by (simp add: aead_xchacha20_poly1305_def xchacha_seal_of_def Let_def)
qed (use c20_init_keyed in \<open>auto simp: aead_xchacha20_poly1305_def\<close>)

section \<open>The cipher is that of the RFC\<close>

lemma nonce_counter_words:
  assumes "4 \<le> length nonce"
  shows "ucast (nonce_counter nonce) = (0 :: u32)" "ucast (nonce_counter nonce + 1) = (1 :: u32)"
    and "ucast (drop_bit 32 (nonce_counter nonce)) = U8TO32_LITTLE nonce" "ucast (drop_bit 32 (nonce_counter nonce + 1)) = U8TO32_LITTLE nonce"
proof -
  define w where "w = U8TO32_LITTLE nonce"
  have c: "nonce_counter nonce = push_bit 32 (ucast w)" by (simp add: nonce_counter_def w_def U8TO32_LITTLE_def)
  have or: "push_bit 32 (ucast w) + 1 = (push_bit 32 (ucast w) OR 1 :: u64)"
    by (rule disjunctive_add_eq_or) (rule bit_eqI, auto simp: bit_simps)
  show "ucast (nonce_counter nonce) = (0 :: u32)" "ucast (drop_bit 32 (nonce_counter nonce)) = U8TO32_LITTLE nonce"
    unfolding c w_def [symmetric] by (rule bit_word_eqI, auto simp: bit_simps)+
  show "ucast (nonce_counter nonce + 1) = (1 :: u32)" "ucast (drop_bit 32 (nonce_counter nonce + 1)) = U8TO32_LITTLE nonce"
    unfolding c or w_def [symmetric] by (rule bit_word_eqI, auto simp: bit_simps)+
qed

lemma stream_of_nonce:
  assumes "length nonce = 12"
  shows "stream_of key (drop 4 nonce) (nonce_counter nonce) = chacha_input key 0 nonce"
    and "stream_of key (drop 4 nonce) (nonce_counter nonce + 1) = chacha_input key 1 nonce"
proof -
  have "U32TO8_LITTLE (U8TO32_LITTLE nonce) = U32TO8_LITTLE (U8TO32_LITTLE (take 4 nonce))"
    using assms by (simp add: U8TO32_LITTLE_def)
  also have "\<dots> = take 4 nonce" using assms by (intro U32TO8_U8TO32) simp
  finally have "U32TO8_LITTLE (U8TO32_LITTLE nonce) @ drop 4 nonce = nonce" by simp
  then show "stream_of key (drop 4 nonce) (nonce_counter nonce) = chacha_input key 0 nonce"
    and "stream_of key (drop 4 nonce) (nonce_counter nonce + 1) = chacha_input key 1 nonce"
    using assms by (simp_all add: stream_of_def nonce_counter_words)
qed

lemma otk_rfc:
  assumes "length key = 32" "length nonce = 12"
  shows "otk_of key (drop 4 nonce) (nonce_counter nonce) = take 32 (rfc_block key 0 nonce)"
proof -
  have "length (rfc_block key 0 nonce) = 64"
    using ks_block_rfc [OF assms, of 0] length_chacha_input [OF assms, of 0] by (metis length_ks_block)
  then have "rfc_chacha20 key 0 nonce (replicate 32 0) = take 32 (rfc_block key 0 nonce)"
    by (intro nth_equalityI) (simp_all add: rfc_chacha20_def)
  then show ?thesis
    unfolding otk_of_def stream_of_nonce(1) [OF assms(2)] using xor_stream_rfc [OF assms, of 0 "replicate 32 0"] by simp
qed

lemma seal_of_rfc:
  assumes "length (c20_key c) = 32" "length nonce = 12" "length m < 2 ^ 32"
  shows "chacha_seal_of c nonce m ad = rfc_aead_encrypt (c20_key c) nonce ad m"
proof -
  have "xor_stream (chacha_input (c20_key c) 1 nonce) 0 m = rfc_chacha20 (c20_key c) 1 nonce m"
    using assms by (intro xor_stream_rfc) simp_all
  moreover have "length (rfc_poly1305 k x) = 16" for k x by (simp add: rfc_poly1305_def)
  moreover have "length (take 32 (rfc_block (c20_key c) 0 nonce)) = 32" by (metis otk_rfc [OF assms(1,2)] length_otk_of)
  ultimately show ?thesis
    unfolding chacha_seal_of_def sealed_def stream_of_nonce(2) [OF assms(2)] otk_rfc [OF assms(1,2)]
      rfc_aead_encrypt_def rfc_aead_tag_def Let_def by (simp add: mac_spec)
qed

text \<open>C3. ChaCha20-Poly1305 behind the AEAD interface is that of RFC 8439. With a key of 32 bytes, the default tag and a nonce
  of 12 bytes, sealing a message shorter than \<open>2 ^ 32\<close> bytes fills the output with the ciphertext and tag of the RFC; opening that
  string with the same additional data returns the message; and a string shorter than \<open>2 ^ 32\<close> bytes opens only if it is what
  sealing some message yields. When opening fails the output buffer is cleared.\<close>

theorem chacha20_poly1305_is_rfc8439:
  assumes "length tmp = 64" "\<forall>n. grant n" "length key = 32" "length nonce = 12" "length m < 2 ^ 32" "length inp < 2 ^ 32"
    and "length out = length m + 16" "length m \<le> length out'"
  shows "\<exists>ctx. EVP_AEAD_CTX_init grant ctx0 (aead_chacha20_poly1305 tmp) key 0 = (True, ctx)
    \<and> EVP_AEAD_CTX_seal ctx out nonce m ad = (True, rfc_aead_encrypt key nonce ad m, length m + 16)
    \<and> EVP_AEAD_CTX_open ctx out' nonce (rfc_aead_encrypt key nonce ad m) ad = (True, m @ drop (length m) out', length m)
    \<and> (fst (EVP_AEAD_CTX_open ctx out'' nonce inp ad) \<longrightarrow> (\<exists>m. inp = rfc_aead_encrypt key nonce ad m))
    \<and> (\<not> fst (EVP_AEAD_CTX_open ctx out'' nonce inp ad) \<longrightarrow> EVP_AEAD_CTX_open ctx out'' nonce inp ad = (False, replicate (length out'') 0, 0))"
proof -
  let ?a = "aead_chacha20_poly1305 tmp" and ?s = "\<lparr>c20_key = key, c20_tag_len = 16\<rparr>"
  define ctx where "ctx = \<lparr>ac_aead = Some ?a, ac_state = Some ?s\<rparr>"
  note st = stack64_id [OF assms(1)]
  have a: "aead_nonce_len ?a = 12" "aead_max_tag_len ?a = 16" by (simp_all add: aead_chacha20_poly1305_def)
  have s: "c20_keyed tmp ?s" "c20_ok tmp ?s" using assms(1,3) by (simp_all add: c20_keyed_def c20_ok_def)
  have init: "EVP_AEAD_CTX_init grant ctx0 ?a key 0 = (True, ctx)"
    using assms(2,3) by (cases ctx0) (simp add: EVP_AEAD_CTX_init_def aead_chacha20_poly1305_def aead_chacha20_poly1305_init_def ctx_def)
  have rfc: "length x < 2 ^ 32 \<Longrightarrow> chacha_seal_of ?s nonce x ad = rfc_aead_encrypt key nonce ad x" for x
    using seal_of_rfc [of ?s nonce x ad] assms(3,4) by simp
  have sl: "EVP_AEAD_CTX_seal ctx out nonce m ad = (True, rfc_aead_encrypt key nonce ad m, length m + 16)"
    using chacha20_poly1305.ctx_seal [of tmp ?s nonce m out ad, unfolded st] s(1) assms(4,5,7) rfc [OF assms(5)] by (simp add: ctx_def a)
  have op: "EVP_AEAD_CTX_open ctx out' nonce (rfc_aead_encrypt key nonce ad m) ad = (True, m @ drop (length m) out', length m)"
    using chacha20_poly1305.ctx_open [of tmp ?s nonce m out' ad, unfolded st] s(1) assms(4,5,8) rfc [OF assms(5)] by (simp add: ctx_def a)
  have only: "\<exists>m. inp = rfc_aead_encrypt key nonce ad m" if "fst (EVP_AEAD_CTX_open ctx out'' nonce inp ad)"
  proof -
    have "aead_chacha20_poly1305_open tmp ?s 12 out'' nonce inp ad \<noteq> None"
      using that by (auto simp: EVP_AEAD_CTX_open_def ctx_def aead_chacha20_poly1305_def split: option.splits)
    then obtain x where x: "inp = chacha_seal_of ?s nonce x ad"
      using chacha_open_sealed [OF s(2) assms(4,6)] by (fastforce simp: chacha_seal_of_def)
    moreover have "length inp = length x + 16"
      unfolding x by (simp add: chacha_seal_of_def length_sealed)
    ultimately show ?thesis using rfc [of x] assms(6) by auto
  qed
  have fail: "EVP_AEAD_CTX_open ctx out'' nonce inp ad = (False, replicate (length out'') 0, 0)" if "\<not> fst (EVP_AEAD_CTX_open ctx out'' nonce inp ad)"
    using that by (auto simp: EVP_AEAD_CTX_open_def ctx_def split: option.splits)
  show ?thesis using init sl op only fail by blast
qed

theorem chacha20_poly1305_is_rfc8439_witness:
  "\<exists>ctx. EVP_AEAD_CTX_init (\<lambda>n. True) \<lparr>ac_aead = None, ac_state = None\<rparr> (aead_chacha20_poly1305 (replicate 64 9)) (replicate 32 1) 0 = (True, ctx)
    \<and> EVP_AEAD_CTX_seal ctx (replicate 18 0) (replicate 12 3) [7, 8] [5] = (True, rfc_aead_encrypt (replicate 32 1) (replicate 12 3) [5] [7, 8], 18)"
  using chacha20_poly1305_is_rfc8439 [of "replicate 64 9" "\<lambda>n. True" "replicate 32 1" "replicate 12 3" "[7, 8]" "[]" "replicate 18 0" "[0, 0]"
    "\<lparr>ac_aead = None, ac_state = None\<rparr>" "[5]" "[]"] by auto

text \<open>C40. The guard on the input length admits almost \<open>2 ^ 38\<close> bytes, but \<open>CRYPTO_chacha_20\<close> casts the length to 32 bits: an
  input of exactly \<open>2 ^ 32\<close> bytes is reported as sealed with none of it encrypted. What was in the output buffer, which
  for a call in place is the plaintext, is followed by its tag.\<close>

theorem seal_truncates_length:
  assumes "length inp = 2 ^ 32" "length nonce = nonce_len" "length inp + c20_tag_len c \<le> length out"
  shows "\<exists>tag. aead_chacha20_poly1305_seal tmp c nonce_len out nonce inp ad
      = Some (mem_write out (length inp) tag, length inp + c20_tag_len c)"
proof -
  have "(word_of_nat (2 ^ 32) :: u32) = 0" by simp
  then have "CRYPTO_chacha_20 tmp out inp k iv ctr = out" for k iv ctr
    unfolding CRYPTO_chacha_20_def Let_def assms(1) by (simp add: chacha_encrypt_bytes_def mem_write_def del: of_nat_power)
  then show ?thesis using assms by (simp add: aead_chacha20_poly1305_seal_def Let_def) blast
qed

theorem seal_truncates_length_witness:
  "\<exists>tag. aead_chacha20_poly1305_seal (replicate 64 0) \<lparr>c20_key = replicate 32 1, c20_tag_len = 16\<rparr> 12
      (replicate (2 ^ 32 + 16) 65) (replicate 12 3) (replicate (2 ^ 32) 65) []
    = Some (mem_write (replicate (2 ^ 32 + 16) 65) (2 ^ 32) tag, 2 ^ 32 + 16)"
  using seal_truncates_length [of "replicate (2 ^ 32) 65" "replicate 12 3" 12 "\<lparr>c20_key = replicate 32 1, c20_tag_len = 16\<rparr>"
    "replicate (2 ^ 32 + 16) 65" "replicate 64 0" "[]"] by simp

end
