(* ===== verification/Tls13_Record_Layer.thy ===== *)
theory Tls13_Record_Layer
  imports Tls13_Key_Schedule Evp_Aead Tls13_Record
begin

unbundle bit_operations_syntax

text \<open>
  The TLS 1.3 record layer, \<^verbatim>\<open>ssl/tls13_record_layer.c\<close>: record protection, the queue of alerts and
  post-handshake messages, and reading and writing of content.

  The record layer is generic in the cipher state \<open>'s\<close> and the digest state \<open>'c\<close>. The callbacks are a record of
  functions; the wire is part of the callback argument \<open>'w\<close>, and the four notifications may also change the record
  layer, which they reach through the argument. A secret is its bytes, \<open>None\<close> when its pointer is null, a buffer
  and its length one list. \<open>grant\<close> is the allocator, and \<open>log\<close> the claims of the key schedule.
\<close>

section \<open>State\<close>

abbreviation (input) TLS13_RECORD_SEQ_NUM_LEN :: nat where "TLS13_RECORD_SEQ_NUM_LEN \<equiv> 8"
abbreviation (input) TLS13_RECORD_MAX_PLAINTEXT_LEN :: nat where "TLS13_RECORD_MAX_PLAINTEXT_LEN \<equiv> 16384"
abbreviation (input) TLS13_RECORD_MAX_INNER_PLAINTEXT_LEN :: nat where "TLS13_RECORD_MAX_INNER_PLAINTEXT_LEN \<equiv> 16385"

abbreviation (input) SSL3_RT_CHANGE_CIPHER_SPEC :: u8 where "SSL3_RT_CHANGE_CIPHER_SPEC \<equiv> 20"
abbreviation (input) SSL3_RT_ALERT :: u8 where "SSL3_RT_ALERT \<equiv> 21"
abbreviation (input) SSL3_RT_HANDSHAKE :: u8 where "SSL3_RT_HANDSHAKE \<equiv> 22"
abbreviation (input) SSL3_RT_APPLICATION_DATA :: u8 where "SSL3_RT_APPLICATION_DATA \<equiv> 23"

abbreviation (input) TLS13_ALERT_LEVEL_WARNING :: u8 where "TLS13_ALERT_LEVEL_WARNING \<equiv> 1"
abbreviation (input) TLS13_ALERT_LEVEL_FATAL :: u8 where "TLS13_ALERT_LEVEL_FATAL \<equiv> 2"
abbreviation (input) TLS13_ALERT_CLOSE_NOTIFY :: u8 where "TLS13_ALERT_CLOSE_NOTIFY \<equiv> 0"
abbreviation (input) TLS13_ALERT_UNEXPECTED_MESSAGE :: u8 where "TLS13_ALERT_UNEXPECTED_MESSAGE \<equiv> 10"
abbreviation (input) TLS13_ALERT_RECORD_OVERFLOW :: u8 where "TLS13_ALERT_RECORD_OVERFLOW \<equiv> 22"
abbreviation (input) TLS13_ALERT_ILLEGAL_PARAMETER :: u8 where "TLS13_ALERT_ILLEGAL_PARAMETER \<equiv> 47"
abbreviation (input) TLS13_ALERT_DECODE_ERROR :: u8 where "TLS13_ALERT_DECODE_ERROR \<equiv> 50"
abbreviation (input) TLS13_ALERT_PROTOCOL_VERSION :: u8 where "TLS13_ALERT_PROTOCOL_VERSION \<equiv> 70"
abbreviation (input) TLS13_ALERT_INTERNAL_ERROR :: u8 where "TLS13_ALERT_INTERNAL_ERROR \<equiv> 80"
abbreviation (input) TLS13_ALERT_USER_CANCELED :: u8 where "TLS13_ALERT_USER_CANCELED \<equiv> 90"

abbreviation (input) RL_TLS1_2_VERSION :: u16 where "RL_TLS1_2_VERSION \<equiv> 0x303"

record 's tls13_record_protection =
  rp_aead_ctx :: "'s EVP_AEAD_CTX"
  rp_iv :: "bytes option"
  rp_nonce :: "bytes option"
  rp_seq_num :: bytes

record ('s, 'c) tls13_record_layer =
  rl_legacy_version :: u16
  rl_ccs_allowed :: bool
  rl_ccs_seen :: nat
  rl_ccs_sent :: bool
  rl_handshake_completed :: bool
  rl_legacy_alerts_allowed :: bool
  rl_phh :: bool
  rl_phh_retry :: bool
  rl_read_closed :: bool
  rl_write_closed :: bool
  rl_rrec :: "tls13_record option"
  rl_wrec :: "tls13_record option"
  rl_wrec_content_type :: u8
  rl_wrec_appdata_len :: nat
  rl_wrec_content_len :: nat
  rl_alert :: u8
  rl_alert_data :: "bytes option"
  rl_alert_level :: u8
  rl_alert_desc :: u8
  rl_phh_cbs :: CBS
  rl_phh_data :: "bytes option"
  rl_rbuf_content_type :: u8
  rl_rbuf :: "bytes option"
  rl_rbuf_cbs :: CBS
  rl_hash :: "'c EVP_MD option"
  rl_aead :: "'s EVP_AEAD option"
  rl_read :: "'s tls13_record_protection"
  rl_write :: "'s tls13_record_protection"

record ('s, 'c, 'w) tls13_record_layer_callbacks =
  cb_wire_read :: "'w read_cb"
  cb_wire_write :: "'w write_cb"
  cb_alert_recv :: "u8 \<Rightarrow> ('s, 'c) tls13_record_layer \<times> 'w \<Rightarrow> ('s, 'c) tls13_record_layer \<times> 'w"
  cb_alert_sent :: "u8 \<Rightarrow> ('s, 'c) tls13_record_layer \<times> 'w \<Rightarrow> ('s, 'c) tls13_record_layer \<times> 'w"
  cb_phh_recv :: "(('s, 'c) tls13_record_layer \<times> 'w \<Rightarrow> int \<times> ('s, 'c) tls13_record_layer \<times> 'w) option"
  cb_phh_sent :: "('s, 'c) tls13_record_layer \<times> 'w \<Rightarrow> ('s, 'c) tls13_record_layer \<times> 'w"

definition tls13_record_protection_new :: "'s tls13_record_protection" where
  "tls13_record_protection_new = \<lparr>rp_aead_ctx = \<lparr>ac_aead = None, ac_state = None\<rparr>, rp_iv = None, rp_nonce = None,
     rp_seq_num = replicate TLS13_RECORD_SEQ_NUM_LEN 0\<rparr>"

definition tls13_record_protection_clear :: "'s tls13_record_protection \<Rightarrow> 's tls13_record_protection" where
  "tls13_record_protection_clear rp =
     rp\<lparr>rp_aead_ctx := EVP_AEAD_CTX_cleanup (rp_aead_ctx rp), rp_iv := tls13_secret_cleanup (rp_iv rp),
        rp_nonce := tls13_secret_cleanup (rp_nonce rp), rp_seq_num := replicate TLS13_RECORD_SEQ_NUM_LEN 0\<rparr>"

definition tls13_record_layer_rbuf_free :: "('s, 'c) tls13_record_layer \<Rightarrow> ('s, 'c) tls13_record_layer" where
  "tls13_record_layer_rbuf_free rl = rl\<lparr>rl_rbuf_cbs := CBS_init [], rl_rbuf := None, rl_rbuf_content_type := 0\<rparr>"

definition tls13_record_layer_rrec_free :: "('s, 'c) tls13_record_layer \<Rightarrow> ('s, 'c) tls13_record_layer" where
  "tls13_record_layer_rrec_free rl = rl\<lparr>rl_rrec := None\<rparr>"

definition tls13_record_layer_wrec_free :: "('s, 'c) tls13_record_layer \<Rightarrow> ('s, 'c) tls13_record_layer" where
  "tls13_record_layer_wrec_free rl = rl\<lparr>rl_wrec := None\<rparr>"

text \<open>288 and 56 are the sizes of the two structures.\<close>

definition tls13_record_layer_new :: "(nat \<Rightarrow> bool) \<Rightarrow> ('s, 'c) tls13_record_layer option" where
  "tls13_record_layer_new grant =
     (if grant 288 \<and> grant 56 then
        Some \<lparr>rl_legacy_version = RL_TLS1_2_VERSION, rl_ccs_allowed = False, rl_ccs_seen = 0, rl_ccs_sent = False,
          rl_handshake_completed = False, rl_legacy_alerts_allowed = False, rl_phh = False, rl_phh_retry = False,
          rl_read_closed = False, rl_write_closed = False, rl_rrec = None, rl_wrec = None, rl_wrec_content_type = 0,
          rl_wrec_appdata_len = 0, rl_wrec_content_len = 0, rl_alert = 0, rl_alert_data = None, rl_alert_level = 0,
          rl_alert_desc = 0, rl_phh_cbs = CBS_init [], rl_phh_data = None, rl_rbuf_content_type = 0, rl_rbuf = None,
          rl_rbuf_cbs = CBS_init [], rl_hash = None, rl_aead = None, rl_read = tls13_record_protection_new,
          rl_write = tls13_record_protection_new\<rparr>
      else None)"

definition tls13_record_layer_rbuf :: "('s, 'c) tls13_record_layer \<Rightarrow> CBS" where
  "tls13_record_layer_rbuf rl = CBS_dup (rl_rbuf_cbs rl)"

definition tls13_record_layer_allow_ccs :: "('s, 'c) tls13_record_layer \<Rightarrow> bool \<Rightarrow> ('s, 'c) tls13_record_layer" where
  "tls13_record_layer_allow_ccs rl allow = rl\<lparr>rl_ccs_allowed := allow\<rparr>"

definition tls13_record_layer_allow_legacy_alerts :: "('s, 'c) tls13_record_layer \<Rightarrow> bool \<Rightarrow> ('s, 'c) tls13_record_layer" where
  "tls13_record_layer_allow_legacy_alerts rl allow = rl\<lparr>rl_legacy_alerts_allowed := allow\<rparr>"

definition tls13_record_layer_set_aead :: "('s, 'c) tls13_record_layer \<Rightarrow> 's EVP_AEAD \<Rightarrow> ('s, 'c) tls13_record_layer" where
  "tls13_record_layer_set_aead rl aead = rl\<lparr>rl_aead := Some aead\<rparr>"

definition tls13_record_layer_set_hash :: "('s, 'c) tls13_record_layer \<Rightarrow> 'c EVP_MD \<Rightarrow> ('s, 'c) tls13_record_layer" where
  "tls13_record_layer_set_hash rl hash = rl\<lparr>rl_hash := Some hash\<rparr>"

definition tls13_record_layer_set_legacy_version :: "('s, 'c) tls13_record_layer \<Rightarrow> u16 \<Rightarrow> ('s, 'c) tls13_record_layer" where
  "tls13_record_layer_set_legacy_version rl version = rl\<lparr>rl_legacy_version := version\<rparr>"

definition tls13_record_layer_handshake_completed :: "('s, 'c) tls13_record_layer \<Rightarrow> ('s, 'c) tls13_record_layer" where
  "tls13_record_layer_handshake_completed rl = rl\<lparr>rl_handshake_completed := True\<rparr>"

definition tls13_record_layer_set_retry_after_phh :: "('s, 'c) tls13_record_layer \<Rightarrow> bool \<Rightarrow> ('s, 'c) tls13_record_layer" where
  "tls13_record_layer_set_retry_after_phh rl r = rl\<lparr>rl_phh_retry := r\<rparr>"

section \<open>Record protection\<close>

text \<open>The loop of \<open>tls13_record_layer_inc_seq_num\<close> runs from the last octet to the first; \<open>i\<close> octets are left.\<close>

fun inc_seq_loop :: "nat \<Rightarrow> bytes \<Rightarrow> bytes" where
  "inc_seq_loop 0 seq_num = seq_num"
| "inc_seq_loop (Suc i) seq_num =
     (let seq_num = seq_num[i := seq_num ! i + 1] in if seq_num ! i \<noteq> 0 then seq_num else inc_seq_loop i seq_num)"

definition tls13_max_seq_num :: bytes where
  "tls13_max_seq_num = replicate 8 0xff"

definition tls13_record_layer_inc_seq_num :: "bytes \<Rightarrow> bool \<times> bytes" where
  "tls13_record_layer_inc_seq_num seq_num =
     (if take TLS13_RECORD_SEQ_NUM_LEN seq_num = tls13_max_seq_num then (False, seq_num)
      else (True, inc_seq_loop TLS13_RECORD_SEQ_NUM_LEN seq_num))"

text \<open>Octet \<open>i\<close> of the nonce meets octet \<open>j = i - (n - 8)\<close> of the sequence number. A null pointer has length 0.\<close>

definition nonce_octets :: "bytes \<Rightarrow> bytes \<Rightarrow> bytes" where
  "nonce_octets iv seq_num =
     map (\<lambda>i. iv ! i XOR (if length iv \<le> i + TLS13_RECORD_SEQ_NUM_LEN then seq_num ! (i + TLS13_RECORD_SEQ_NUM_LEN - length iv) else 0))
       [0..<length iv]"

definition tls13_record_layer_update_nonce :: "bytes option \<Rightarrow> bytes option \<Rightarrow> bytes \<Rightarrow> bytes option option" where
  "tls13_record_layer_update_nonce nonce iv seq_num =
     (case (nonce, iv) of
        (None, None) \<Rightarrow> Some None
      | (Some n, Some v) \<Rightarrow> if length n \<noteq> length v then None else Some (Some (nonce_octets v seq_num))
      | (None, Some v) \<Rightarrow> if v = [] then Some None else None
      | (Some n, None) \<Rightarrow> if n = [] then Some (Some n) else None)"

text \<open>The three secrets are set up first; what \<open>rp\<close> holds when a later step fails stays there. \<open>EVP_AEAD_DEFAULT_TAG_LENGTH\<close> is 0.\<close>

definition tls13_record_layer_set_traffic_key ::
    "(nat \<Rightarrow> bool) \<Rightarrow> claims \<Rightarrow> 's EVP_AEAD \<Rightarrow> 'c EVP_MD \<Rightarrow> 's tls13_record_protection \<Rightarrow> bytes
      \<Rightarrow> bool \<times> 's tls13_record_protection \<times> claims" where
  "tls13_record_layer_set_traffic_key grant log aead hash rp traffic_key =
     (let rp = tls13_record_protection_clear rp in
      case tls13_secret_init grant (rp_iv rp) (EVP_AEAD_nonce_length aead) of
        (True, Some iv) \<Rightarrow>
          (let rp = rp\<lparr>rp_iv := Some iv\<rparr> in
           case tls13_secret_init grant (rp_nonce rp) (EVP_AEAD_nonce_length aead) of
             (True, Some nonce) \<Rightarrow>
               (let rp = rp\<lparr>rp_nonce := Some nonce\<rparr> in
                case tls13_secret_init grant None (EVP_AEAD_key_length aead) of
                  (True, Some key) \<Rightarrow>
                    (case tls13_hkdf_expand_label grant log iv hash traffic_key ''iv'' [] of
                       (False, iv, log) \<Rightarrow> (False, rp\<lparr>rp_iv := Some iv\<rparr>, log)
                     | (True, iv, log) \<Rightarrow>
                         (let rp = rp\<lparr>rp_iv := Some iv\<rparr> in
                          case tls13_hkdf_expand_label grant log key hash traffic_key ''key'' [] of
                            (False, key, log) \<Rightarrow> (False, rp, log)
                          | (True, key, log) \<Rightarrow>
                              (case EVP_AEAD_CTX_init grant (rp_aead_ctx rp) aead key 0 of
                                 (ok, aead_ctx) \<Rightarrow> (ok, rp\<lparr>rp_aead_ctx := aead_ctx\<rparr>, log))))
                | _ \<Rightarrow> (False, rp, log))
           | _ \<Rightarrow> (False, rp, log))
      | _ \<Rightarrow> (False, rp, log))"

text \<open>With no cipher or digest set the code dereferences a null pointer; here the call fails.\<close>

definition tls13_record_layer_set_read_traffic_key ::
    "(nat \<Rightarrow> bool) \<Rightarrow> claims \<Rightarrow> ('s, 'c) tls13_record_layer \<Rightarrow> bytes \<Rightarrow> bool \<times> ('s, 'c) tls13_record_layer \<times> claims" where
  "tls13_record_layer_set_read_traffic_key grant log rl read_key =
     (case (rl_aead rl, rl_hash rl) of
        (Some aead, Some hash) \<Rightarrow>
          (case tls13_record_layer_set_traffic_key grant log aead hash (rl_read rl) read_key of
             (ok, rp, log) \<Rightarrow> (ok, rl\<lparr>rl_read := rp\<rparr>, log))
      | _ \<Rightarrow> (False, rl, log))"

definition tls13_record_layer_set_write_traffic_key ::
    "(nat \<Rightarrow> bool) \<Rightarrow> claims \<Rightarrow> ('s, 'c) tls13_record_layer \<Rightarrow> bytes \<Rightarrow> bool \<times> ('s, 'c) tls13_record_layer \<times> claims" where
  "tls13_record_layer_set_write_traffic_key grant log rl write_key =
     (case (rl_aead rl, rl_hash rl) of
        (Some aead, Some hash) \<Rightarrow>
          (case tls13_record_layer_set_traffic_key grant log aead hash (rl_write rl) write_key of
             (ok, rp, log) \<Rightarrow> (ok, rl\<lparr>rl_write := rp\<rparr>, log))
      | _ \<Rightarrow> (False, rl, log))"

section \<open>Opening records\<close>

definition tls13_record_layer_open_record_plaintext ::
    "(nat \<Rightarrow> bool) \<Rightarrow> ('s, 'c) tls13_record_layer \<Rightarrow> bool \<times> ('s, 'c) tls13_record_layer" where
  "tls13_record_layer_open_record_plaintext grant rl =
     (if rl_aead rl \<noteq> None then (False, rl)
      else case Option.bind (rl_rrec rl) tls13_record_content of
        None \<Rightarrow> (False, rl)
      | Some cbs \<Rightarrow>
          if TLS13_RECORD_MAX_PLAINTEXT_LEN < CBS_len cbs then (False, rl\<lparr>rl_alert := TLS13_ALERT_RECORD_OVERFLOW\<rparr>)
          else
            let rl = tls13_record_layer_rbuf_free rl in
            case CBS_stow grant cbs of
              None \<Rightarrow> (False, rl)
            | Some rbuf \<Rightarrow>
                (True, rl\<lparr>rl_rbuf := rbuf,
                   rl_rbuf_content_type := (case rl_rrec rl of None \<Rightarrow> 0 | Some rrec \<Rightarrow> tls13_record_content_type rrec),
                   rl_rbuf_cbs := CBS_init (case rbuf of None \<Rightarrow> [] | Some d \<Rightarrow> d)\<rparr>))"

text \<open>The index of the last octet of the first \<open>n\<close> that is not zero.\<close>

fun inner_scan :: "bytes \<Rightarrow> nat \<Rightarrow> nat option" where
  "inner_scan content 0 = None"
| "inner_scan content (Suc i) = (if content ! i = 0 then inner_scan content i else Some i)"

definition open_inner :: "bytes \<Rightarrow> nat \<Rightarrow> ('s, 'c) tls13_record_layer \<Rightarrow> bool \<times> ('s, 'c) tls13_record_layer" where
  "open_inner content out_len rl =
     (case inner_scan content out_len of
        None \<Rightarrow> (False, rl\<lparr>rl_alert := TLS13_ALERT_UNEXPECTED_MESSAGE\<rparr>)
      | Some inner_len \<Rightarrow>
          if TLS13_RECORD_MAX_PLAINTEXT_LEN < inner_len then (False, rl\<lparr>rl_alert := TLS13_ALERT_RECORD_OVERFLOW\<rparr>)
          else
            let rl = tls13_record_layer_rbuf_free rl in
            (True, rl\<lparr>rl_rbuf_content_type := content ! inner_len, rl_rbuf := Some content,
               rl_rbuf_cbs := CBS_init (take inner_len content)\<rparr>))"

definition tls13_record_layer_open_record_protected ::
    "(nat \<Rightarrow> bool) \<Rightarrow> ('s, 'c) tls13_record_layer \<Rightarrow> bool \<times> ('s, 'c) tls13_record_layer" where
  "tls13_record_layer_open_record_protected grant rl =
     (if rl_aead rl = None then (False, rl)
      else case (Option.bind (rl_rrec rl) tls13_record_header, Option.bind (rl_rrec rl) tls13_record_content) of
        (Some header, Some enc_record) \<Rightarrow>
          let n = CBS_len enc_record; rp = rl_read rl in
          if \<not> grant n then (False, rl)
          else
            (case tls13_record_layer_update_nonce (rp_nonce rp) (rp_iv rp) (rp_seq_num rp) of
               None \<Rightarrow> (False, rl)
             | Some nonce \<Rightarrow>
                 let rp = rp\<lparr>rp_nonce := nonce\<rparr>; rl = rl\<lparr>rl_read := rp\<rparr> in
                 (case EVP_AEAD_CTX_open (rp_aead_ctx rp) (replicate n 0) (case nonce of None \<Rightarrow> [] | Some d \<Rightarrow> d)
                         (CBS_data enc_record) (CBS_data header) of
                    (False, content, out_len) \<Rightarrow> (False, rl)
                  | (True, content, out_len) \<Rightarrow>
                      if TLS13_RECORD_MAX_INNER_PLAINTEXT_LEN < out_len then (False, rl\<lparr>rl_alert := TLS13_ALERT_RECORD_OVERFLOW\<rparr>)
                      else case tls13_record_layer_inc_seq_num (rp_seq_num rp) of
                        (False, seq_num) \<Rightarrow> (False, rl)
                      | (True, seq_num) \<Rightarrow> open_inner content out_len (rl\<lparr>rl_read := rp\<lparr>rp_seq_num := seq_num\<rparr>\<rparr>)))
      | _ \<Rightarrow> (False, rl))"

definition tls13_record_layer_open_record ::
    "(nat \<Rightarrow> bool) \<Rightarrow> ('s, 'c) tls13_record_layer \<Rightarrow> bool \<times> ('s, 'c) tls13_record_layer" where
  "tls13_record_layer_open_record grant rl =
     (if rl_handshake_completed rl \<and> rl_aead rl = None then (False, rl)
      else if rl_aead rl = None then tls13_record_layer_open_record_plaintext grant rl
      else tls13_record_layer_open_record_protected grant rl)"

section \<open>Sealing records\<close>

definition seal_into_wrec :: "('s, 'c) tls13_record_layer \<Rightarrow> bytes \<Rightarrow> u8 \<Rightarrow> nat \<Rightarrow> bool \<times> ('s, 'c) tls13_record_layer" where
  "seal_into_wrec rl data content_type content_len =
     (case rl_wrec rl of
        None \<Rightarrow> (False, rl)
      | Some wrec \<Rightarrow>
          (case tls13_record_set_data wrec data of
             (False, wrec) \<Rightarrow> (False, rl\<lparr>rl_wrec := Some wrec\<rparr>)
           | (True, wrec) \<Rightarrow>
               (True, rl\<lparr>rl_wrec := Some wrec, rl_wrec_content_len := content_len, rl_wrec_content_type := content_type\<rparr>)))"

definition tls13_record_layer_seal_record_plaintext ::
    "(nat \<Rightarrow> bool) \<Rightarrow> ('s, 'c) tls13_record_layer \<Rightarrow> u8 \<Rightarrow> bytes \<Rightarrow> bool \<times> ('s, 'c) tls13_record_layer" where
  "tls13_record_layer_seal_record_plaintext grant rl content_type content =
     (if rl_handshake_completed rl then (False, rl)
      else if rl_aead rl \<noteq> None \<and> content_type \<noteq> SSL3_RT_CHANGE_CIPHER_SPEC then (False, rl)
      else case cbb_message grant (TLS13_RECORD_HEADER_LEN + length content)
             [Num 1 (unat content_type), Num 2 (unat (rl_legacy_version rl)), Prefixed 2 [Raw content]] of
        None \<Rightarrow> (False, rl)
      | Some data \<Rightarrow> seal_into_wrec rl data content_type (length content))"

text \<open>The record is built with room for the ciphertext: \<open>CBB_add_space\<close> adds zeros, which the cipher then overwrites in place.\<close>

definition tls13_record_layer_seal_record_protected ::
    "(nat \<Rightarrow> bool) \<Rightarrow> ('s, 'c) tls13_record_layer \<Rightarrow> u8 \<Rightarrow> bytes \<Rightarrow> bool \<times> ('s, 'c) tls13_record_layer" where
  "tls13_record_layer_seal_record_protected grant rl content_type content =
     (case rl_aead rl of
        None \<Rightarrow> (False, rl)
      | Some aead \<Rightarrow>
          (case cbb_message grant (length content + 1) [Raw content, Num 1 (unat content_type)] of
             None \<Rightarrow> (False, rl)
           | Some inner \<Rightarrow>
               if TLS13_RECORD_MAX_INNER_PLAINTEXT_LEN < length inner then (False, rl)
               else
                 let enc_record_len = length inner + EVP_AEAD_max_tag_len aead in
                 if TLS13_RECORD_MAX_CIPHERTEXT_LEN < enc_record_len then (False, rl)
                 else case cbb_message grant TLS13_RECORD_HEADER_LEN
                        [Num 1 (unat SSL3_RT_APPLICATION_DATA), Num 2 (unat RL_TLS1_2_VERSION), Num 2 enc_record_len] of
                   None \<Rightarrow> (False, rl)
                 | Some header \<Rightarrow>
                     (case cbb_message grant (TLS13_RECORD_HEADER_LEN + enc_record_len) [Raw header, Raw (replicate enc_record_len 0)] of
                        None \<Rightarrow> (False, rl)
                      | Some data \<Rightarrow>
                          let rp = rl_write rl in
                          (case tls13_record_layer_update_nonce (rp_nonce rp) (rp_iv rp) (rp_seq_num rp) of
                             None \<Rightarrow> (False, rl)
                           | Some nonce \<Rightarrow>
                               let rp = rp\<lparr>rp_nonce := nonce\<rparr>; rl = rl\<lparr>rl_write := rp\<rparr> in
                               (case EVP_AEAD_CTX_seal (rp_aead_ctx rp) (drop (length header) data)
                                       (case nonce of None \<Rightarrow> [] | Some d \<Rightarrow> d) inner header of
                                  (False, out, out_len) \<Rightarrow> (False, rl)
                                | (True, out, out_len) \<Rightarrow>
                                    if out_len \<noteq> enc_record_len then (False, rl)
                                    else case tls13_record_layer_inc_seq_num (rp_seq_num rp) of
                                      (False, seq_num) \<Rightarrow> (False, rl)
                                    | (True, seq_num) \<Rightarrow>
                                        seal_into_wrec (rl\<lparr>rl_write := rp\<lparr>rp_seq_num := seq_num\<rparr>\<rparr>)
                                          (mem_write data (length header) out) content_type (length content))))))"

definition tls13_record_layer_seal_record ::
    "(nat \<Rightarrow> bool) \<Rightarrow> ('s, 'c) tls13_record_layer \<Rightarrow> u8 \<Rightarrow> bytes \<Rightarrow> bool \<times> ('s, 'c) tls13_record_layer" where
  "tls13_record_layer_seal_record grant rl content_type content =
     (if rl_handshake_completed rl \<and> rl_aead rl = None then (False, rl)
      else
        let rl = tls13_record_layer_wrec_free rl in
        case tls13_record_new grant of
          None \<Rightarrow> (False, rl)
        | Some wrec \<Rightarrow>
            let rl = rl\<lparr>rl_wrec := Some wrec\<rparr> in
            if rl_aead rl = None \<or> content_type = SSL3_RT_CHANGE_CIPHER_SPEC
            then tls13_record_layer_seal_record_plaintext grant rl content_type content
            else tls13_record_layer_seal_record_protected grant rl content_type content)"

section \<open>Writing\<close>

type_synonym ('s, 'c, 'w) rl_state = "('s, 'c) tls13_record_layer \<times> 'w"

text \<open>The second half of \<open>tls13_record_layer_write_record\<close>: seal a new record and send it.\<close>

definition write_new_record ::
    "(nat \<Rightarrow> bool) \<Rightarrow> ('s, 'c, 'w) tls13_record_layer_callbacks \<Rightarrow> u8 \<Rightarrow> bytes \<Rightarrow> ('s, 'c, 'w) rl_state \<Rightarrow> int \<times> ('s, 'c, 'w) rl_state" where
  "write_new_record grant cb content_type content st =
     (case st of (rl, w) \<Rightarrow>
      if TLS13_RECORD_MAX_PLAINTEXT_LEN < length content then (TLS13_IO_FAILURE, rl, w)
      else case tls13_record_layer_seal_record grant rl content_type content of
        (False, rl) \<Rightarrow> (TLS13_IO_FAILURE, rl, w)
      | (True, rl) \<Rightarrow>
          (case rl_wrec rl of
             None \<Rightarrow> (TLS13_IO_FAILURE, rl, w)
           | Some wrec \<Rightarrow>
               (case tls13_record_send (cb_wire_write cb) wrec w of
                  (ret, wrec, w) \<Rightarrow>
                    let rl = rl\<lparr>rl_wrec := Some wrec\<rparr> in
                    if ret \<le> 0 then (ret, rl, w) else (int (length content), tls13_record_layer_wrec_free rl, w))))"

definition tls13_record_layer_write_record ::
    "(nat \<Rightarrow> bool) \<Rightarrow> ('s, 'c, 'w) tls13_record_layer_callbacks \<Rightarrow> u8 \<Rightarrow> bytes \<Rightarrow> ('s, 'c, 'w) rl_state \<Rightarrow> int \<times> ('s, 'c, 'w) rl_state" where
  "tls13_record_layer_write_record grant cb content_type content st =
     (case st of (rl, w) \<Rightarrow>
      if rl_write_closed rl then (TLS13_IO_EOF, rl, w)
      else if content_type = SSL3_RT_APPLICATION_DATA \<and> rl_wrec_appdata_len rl \<noteq> 0 then
        (int (rl_wrec_appdata_len rl), rl\<lparr>rl_wrec_appdata_len := 0\<rparr>, w)
      else case rl_wrec rl of
        None \<Rightarrow> write_new_record grant cb content_type content (rl, w)
      | Some wrec \<Rightarrow>
          (case tls13_record_send (cb_wire_write cb) wrec w of
             (ret, wrec, w) \<Rightarrow>
               let rl = rl\<lparr>rl_wrec := Some wrec\<rparr> in
               if ret \<le> 0 then (ret, rl, w)
               else
                 let rl = tls13_record_layer_wrec_free rl in
                 if rl_wrec_content_type rl = content_type then
                   (int (rl_wrec_content_len rl), rl\<lparr>rl_wrec_content_len := 0, rl_wrec_content_type := 0\<rparr>, w)
                 else if rl_wrec_content_type rl \<noteq> SSL3_RT_APPLICATION_DATA then (TLS13_IO_FAILURE, rl, w)
                 else write_new_record grant cb content_type content (rl\<lparr>rl_wrec_appdata_len := rl_wrec_content_len rl\<rparr>, w)))"

definition tls13_record_layer_write_chunk ::
    "(nat \<Rightarrow> bool) \<Rightarrow> ('s, 'c, 'w) tls13_record_layer_callbacks \<Rightarrow> u8 \<Rightarrow> bytes \<Rightarrow> ('s, 'c, 'w) rl_state \<Rightarrow> int \<times> ('s, 'c, 'w) rl_state" where
  "tls13_record_layer_write_chunk grant cb content_type buf st =
     tls13_record_layer_write_record grant cb content_type (take TLS13_RECORD_MAX_PLAINTEXT_LEN buf) st"

definition tls13_record_layer_send_alert ::
    "(nat \<Rightarrow> bool) \<Rightarrow> ('s, 'c, 'w) tls13_record_layer_callbacks \<Rightarrow> ('s, 'c, 'w) rl_state \<Rightarrow> int \<times> ('s, 'c, 'w) rl_state" where
  "tls13_record_layer_send_alert grant cb st =
     (let data = (case rl_alert_data (fst st) of None \<Rightarrow> [] | Some d \<Rightarrow> d) in
      case tls13_record_layer_write_record grant cb SSL3_RT_ALERT data st of
        (ret, rl, w) \<Rightarrow>
          if ret \<noteq> int (length data) then (if ret = TLS13_IO_EOF then TLS13_IO_ALERT else ret, rl, w)
          else
            let rl = rl\<lparr>rl_alert_data := None\<rparr>; desc = rl_alert_desc rl in
            if desc = TLS13_ALERT_CLOSE_NOTIFY then (TLS13_IO_SUCCESS, cb_alert_sent cb desc (rl\<lparr>rl_write_closed := True\<rparr>, w))
            else if desc = TLS13_ALERT_USER_CANCELED then (TLS13_IO_SUCCESS, cb_alert_sent cb desc (rl, w))
            else (TLS13_IO_ALERT, cb_alert_sent cb desc (rl\<lparr>rl_read_closed := True, rl_write_closed := True\<rparr>, w)))"

definition tls13_record_layer_send_phh ::
    "(nat \<Rightarrow> bool) \<Rightarrow> ('s, 'c, 'w) tls13_record_layer_callbacks \<Rightarrow> ('s, 'c, 'w) rl_state \<Rightarrow> int \<times> ('s, 'c, 'w) rl_state" where
  "tls13_record_layer_send_phh grant cb st =
     (case tls13_record_layer_write_chunk grant cb SSL3_RT_HANDSHAKE (CBS_data (rl_phh_cbs (fst st))) st of
        (ret, rl, w) \<Rightarrow>
          if ret \<le> 0 then (ret, rl, w)
          else case CBS_skip (rl_phh_cbs rl) (nat ret) of
            (None, cbs) \<Rightarrow> (TLS13_IO_FAILURE, rl\<lparr>rl_phh_cbs := cbs\<rparr>, w)
          | (Some _, cbs) \<Rightarrow>
              let rl = rl\<lparr>rl_phh_cbs := cbs\<rparr> in
              if CBS_len cbs \<noteq> 0 then (TLS13_IO_WANT_RETRY, rl, w)
              else (TLS13_IO_SUCCESS, cb_phh_sent cb (rl\<lparr>rl_phh_data := None, rl_phh_cbs := CBS_init []\<rparr>, w)))"

text \<open>\<open>phh_len\<close> is the length of \<open>phh_data\<close>.\<close>

definition tls13_record_layer_send_pending ::
    "(nat \<Rightarrow> bool) \<Rightarrow> ('s, 'c, 'w) tls13_record_layer_callbacks \<Rightarrow> ('s, 'c, 'w) rl_state \<Rightarrow> int \<times> ('s, 'c, 'w) rl_state" where
  "tls13_record_layer_send_pending grant cb st =
     (let rl = fst st in
      case rl_phh_data rl of
        Some d \<Rightarrow>
          if CBS_len (rl_phh_cbs rl) \<noteq> length d then tls13_record_layer_send_phh grant cb st
          else if rl_alert_data rl \<noteq> None then tls13_record_layer_send_alert grant cb st
          else tls13_record_layer_send_phh grant cb st
      | None \<Rightarrow>
          if rl_alert_data rl \<noteq> None then tls13_record_layer_send_alert grant cb st else (TLS13_IO_SUCCESS, st))"

definition tls13_record_layer_enqueue_alert ::
    "(nat \<Rightarrow> bool) \<Rightarrow> ('s, 'c, 'w) tls13_record_layer_callbacks \<Rightarrow> u8 \<Rightarrow> u8 \<Rightarrow> ('s, 'c, 'w) rl_state \<Rightarrow> int \<times> ('s, 'c, 'w) rl_state" where
  "tls13_record_layer_enqueue_alert grant cb alert_level alert_desc st =
     (case st of (rl, w) \<Rightarrow>
      if rl_alert_data rl \<noteq> None then (TLS13_IO_FAILURE, rl, w)
      else case cbb_message grant 0 [Num 1 (unat alert_level), Num 1 (unat alert_desc)] of
        None \<Rightarrow> (TLS13_IO_FAILURE, rl, w)
      | Some data \<Rightarrow>
          tls13_record_layer_send_pending grant cb
            (rl\<lparr>rl_alert_data := Some data, rl_alert_level := alert_level, rl_alert_desc := alert_desc\<rparr>, w))"

definition tls13_record_layer_phh ::
    "(nat \<Rightarrow> bool) \<Rightarrow> ('s, 'c, 'w) tls13_record_layer_callbacks \<Rightarrow> CBS \<Rightarrow> ('s, 'c, 'w) rl_state \<Rightarrow> int \<times> ('s, 'c, 'w) rl_state" where
  "tls13_record_layer_phh grant cb cbs st =
     (case st of (rl, w) \<Rightarrow>
      if rl_phh_data rl \<noteq> None then (TLS13_IO_FAILURE, rl, w)
      else case CBS_stow grant cbs of
        None \<Rightarrow> (TLS13_IO_FAILURE, rl, w)
      | Some data \<Rightarrow>
          tls13_record_layer_send_pending grant cb
            (rl\<lparr>rl_phh_data := data, rl_phh_cbs := CBS_init (case data of None \<Rightarrow> [] | Some d \<Rightarrow> d)\<rparr>, w))"

text \<open>Sealing and writing a record touch the record that is under way and the write protection only. In particular an alert that
  was not sent stays queued, and the next round of \<open>tls13_send_alert\<close> finds it and ends its loop.\<close>

definition writes_only :: "('s, 'c) tls13_record_layer \<Rightarrow> ('s, 'c) tls13_record_layer \<Rightarrow> bool" where
  "writes_only rl rl' \<longleftrightarrow>
     (\<exists>wrec t a n rp. rl' = rl\<lparr>rl_wrec := wrec, rl_wrec_content_type := t, rl_wrec_appdata_len := a, rl_wrec_content_len := n, rl_write := rp\<rparr>)"

lemma writes_only_iff:
  "writes_only rl rl' \<longleftrightarrow>
     rl' = rl\<lparr>rl_wrec := rl_wrec rl', rl_wrec_content_type := rl_wrec_content_type rl', rl_wrec_appdata_len := rl_wrec_appdata_len rl',
       rl_wrec_content_len := rl_wrec_content_len rl', rl_write := rl_write rl'\<rparr>"
  unfolding writes_only_def by (cases rl; cases rl') auto

lemma writes_only_refl [simp]: "writes_only rl rl"
  by (simp add: writes_only_iff)

lemma writes_only_trans: "writes_only rl rl' \<Longrightarrow> writes_only rl' rl'' \<Longrightarrow> writes_only rl rl''"
  by (cases rl; cases rl'; cases rl'') (simp add: writes_only_iff)

lemma writes_only_updates [simp]:
  "writes_only rl (rl\<lparr>rl_wrec := wrec\<rparr>)" "writes_only rl (rl\<lparr>rl_write := rp\<rparr>)" "writes_only rl (rl\<lparr>rl_wrec_appdata_len := a\<rparr>)"
  "writes_only rl (tls13_record_layer_wrec_free rl)"
  "writes_only rl (rl\<lparr>rl_wrec := wrec, rl_wrec_content_len := n, rl_wrec_content_type := t\<rparr>)"
  "writes_only rl (rl\<lparr>rl_wrec := wrec, rl_wrec_appdata_len := a\<rparr>)"
  by (cases rl; simp add: writes_only_iff tls13_record_layer_wrec_free_def)+

lemma writes_only_same:
  assumes "writes_only rl rl'"
  shows "rl_alert_data rl' = rl_alert_data rl" "rl_alert_desc rl' = rl_alert_desc rl" "rl_phh_data rl' = rl_phh_data rl"
    "rl_phh_cbs rl' = rl_phh_cbs rl" "rl_read_closed rl' = rl_read_closed rl" "rl_write_closed rl' = rl_write_closed rl"
    "rl_rrec rl' = rl_rrec rl" "rl_rbuf_cbs rl' = rl_rbuf_cbs rl" "rl_rbuf_content_type rl' = rl_rbuf_content_type rl"
    "rl_rbuf rl' = rl_rbuf rl" "rl_read rl' = rl_read rl" "rl_aead rl' = rl_aead rl" "rl_hash rl' = rl_hash rl"
    "rl_handshake_completed rl' = rl_handshake_completed rl" "rl_ccs_seen rl' = rl_ccs_seen rl" "rl_phh rl' = rl_phh rl"
    "rl_alert rl' = rl_alert rl" "rl_legacy_version rl' = rl_legacy_version rl"
  using assms by (auto simp: writes_only_def)

lemma writes_only_seal_into_wrec: "seal_into_wrec rl data t n = (ok, rl') \<Longrightarrow> writes_only rl rl'"
  by (auto simp: seal_into_wrec_def split: option.splits prod.splits bool.splits)

lemma writes_only_seal_into_wrec': "seal_into_wrec (rl\<lparr>rl_write := rp\<rparr>) data t n = (ok, rl') \<Longrightarrow> writes_only rl rl'"
  using writes_only_seal_into_wrec writes_only_trans writes_only_updates(2) by blast

lemma writes_only_seal_plaintext:
  "tls13_record_layer_seal_record_plaintext grant rl t content = (ok, rl') \<Longrightarrow> writes_only rl rl'"
  by (auto simp: tls13_record_layer_seal_record_plaintext_def split: option.splits if_splits dest: writes_only_seal_into_wrec)

lemma writes_only_seal_protected:
  "tls13_record_layer_seal_record_protected grant rl t content = (ok, rl') \<Longrightarrow> writes_only rl rl'"
  by (auto simp: tls13_record_layer_seal_record_protected_def Let_def
      split: option.splits if_splits prod.splits bool.splits dest: writes_only_seal_into_wrec' )

lemma writes_only_seal:
  assumes "tls13_record_layer_seal_record grant rl t content = (ok, rl')"
  shows "writes_only rl rl'"
proof -
  have "writes_only rl r" if "tls13_record_layer_seal_record_plaintext grant (tls13_record_layer_wrec_free rl\<lparr>rl_wrec := v\<rparr>) t content = (ok, r)
      \<or> tls13_record_layer_seal_record_protected grant (tls13_record_layer_wrec_free rl\<lparr>rl_wrec := v\<rparr>) t content = (ok, r)" for v r ok
    using that writes_only_seal_plaintext writes_only_seal_protected writes_only_trans writes_only_updates(1,4) by metis
  then show ?thesis
    using assms by (auto simp: tls13_record_layer_seal_record_def Let_def split: option.splits if_splits)
qed

lemma writes_only_new_record:
  assumes "write_new_record grant cb t content (rl, w) = (ret, rl', w')"
  shows "writes_only rl rl'"
proof -
  have "writes_only rl r" if "tls13_record_layer_seal_record grant rl t content = (True, r0)" "r = r0\<lparr>rl_wrec := v\<rparr> \<or> r = tls13_record_layer_wrec_free (r0\<lparr>rl_wrec := v\<rparr>)" for r r0 v
    using writes_only_seal [OF that(1)] that(2) writes_only_trans writes_only_updates(1,4) by metis
  then show ?thesis
    using assms by (auto simp: write_new_record_def Let_def split: option.splits if_splits prod.splits bool.splits dest: writes_only_seal)
qed

lemma writes_only_write_record:
  assumes "tls13_record_layer_write_record grant cb t content (rl, w) = (ret, rl', w')"
  shows "writes_only rl rl'"
proof -
  have new: "writes_only rl r" if "write_new_record grant cb t content (tls13_record_layer_wrec_free (rl\<lparr>rl_wrec := v\<rparr>)\<lparr>rl_wrec_appdata_len := a\<rparr>, w0) = (i, r, w1)" for v a w0 i r w1
    using writes_only_new_record [OF that] writes_only_trans writes_only_updates(1,3,4) by metis
  have "writes_only rl (tls13_record_layer_wrec_free (rl\<lparr>rl_wrec := v\<rparr>)\<lparr>rl_wrec_content_len := n, rl_wrec_content_type := k\<rparr>)"
    "writes_only rl (tls13_record_layer_wrec_free (rl\<lparr>rl_wrec := v\<rparr>))" for v n k
    by (cases rl; simp add: writes_only_iff tls13_record_layer_wrec_free_def)+
  then show ?thesis
    using assms by (auto simp: tls13_record_layer_write_record_def Let_def split: option.splits if_splits prod.splits dest: writes_only_new_record new)
qed

lemma writes_only_write_chunk:
  "tls13_record_layer_write_chunk grant cb t buf (rl, w) = (ret, rl', w') \<Longrightarrow> writes_only rl rl'"
  unfolding tls13_record_layer_write_chunk_def by (rule writes_only_write_record)

lemma send_alert_retry:
  "tls13_record_layer_send_alert grant cb (rl, w) = (TLS13_IO_WANT_RETRY, rl', w') \<Longrightarrow> rl_alert_data rl' = rl_alert_data rl"
  by (auto simp: tls13_record_layer_send_alert_def Let_def split: prod.splits if_splits dest: writes_only_write_record [THEN writes_only_same(1)])

lemma send_phh_retry:
  "tls13_record_layer_send_phh grant cb (rl, w) = (TLS13_IO_WANT_RETRY, rl', w') \<Longrightarrow> rl_alert_data rl' = rl_alert_data rl"
  by (auto simp: tls13_record_layer_send_phh_def Let_def split: prod.splits if_splits option.splits dest: writes_only_write_chunk [THEN writes_only_same(1)])

lemma enqueue_alert_retry:
  assumes "tls13_record_layer_enqueue_alert grant cb lv desc (rl, w) = (TLS13_IO_WANT_RETRY, rl', w')"
  shows "rl_alert_data rl = None" "rl_alert_data rl' \<noteq> None"
  using assms by (auto simp: tls13_record_layer_enqueue_alert_def tls13_record_layer_send_pending_def Let_def
      split: if_splits option.splits dest!: send_alert_retry send_phh_retry)

function tls13_send_alert ::
    "(nat \<Rightarrow> bool) \<Rightarrow> ('s, 'c, 'w) tls13_record_layer_callbacks \<Rightarrow> u8 \<Rightarrow> ('s, 'c, 'w) rl_state \<Rightarrow> int \<times> ('s, 'c, 'w) rl_state" where
  "tls13_send_alert grant cb alert_desc st =
     (let alert_level = (if alert_desc = TLS13_ALERT_CLOSE_NOTIFY \<or> alert_desc = TLS13_ALERT_USER_CANCELED
                         then TLS13_ALERT_LEVEL_WARNING else TLS13_ALERT_LEVEL_FATAL)
      in case tls13_record_layer_enqueue_alert grant cb alert_level alert_desc st of
        (ret, st') \<Rightarrow> if ret = TLS13_IO_WANT_RETRY then tls13_send_alert grant cb alert_desc st' else (ret, st'))"
  by pat_completeness auto
termination
  by (relation "measure (\<lambda>(grant, cb, alert_desc, st). if rl_alert_data (fst st) = None then 1 else 0)")
    (auto dest: enqueue_alert_retry [OF sym])

declare tls13_send_alert.simps [simp del]

section \<open>Reading\<close>

definition tls13_record_layer_process_alert ::
    "(nat \<Rightarrow> bool) \<Rightarrow> ('s, 'c, 'w) tls13_record_layer_callbacks \<Rightarrow> ('s, 'c, 'w) rl_state \<Rightarrow> int \<times> ('s, 'c, 'w) rl_state" where
  "tls13_record_layer_process_alert grant cb st =
     (case st of (rl, w) \<Rightarrow>
      if rl_rbuf rl = None then (TLS13_IO_FAILURE, rl, w)
      else if rl_rbuf_content_type rl \<noteq> SSL3_RT_ALERT then (TLS13_IO_FAILURE, rl, w)
      else case CBS_get_u8 (rl_rbuf_cbs rl) of
        (None, cbs) \<Rightarrow> tls13_send_alert grant cb TLS13_ALERT_DECODE_ERROR (rl\<lparr>rl_rbuf_cbs := cbs\<rparr>, w)
      | (Some alert_level, cbs) \<Rightarrow>
          (case CBS_get_u8 cbs of
             (None, cbs) \<Rightarrow> tls13_send_alert grant cb TLS13_ALERT_DECODE_ERROR (rl\<lparr>rl_rbuf_cbs := cbs\<rparr>, w)
           | (Some alert_desc, cbs) \<Rightarrow>
               if CBS_len cbs \<noteq> 0 then tls13_send_alert grant cb TLS13_ALERT_DECODE_ERROR (rl\<lparr>rl_rbuf_cbs := cbs\<rparr>, w)
               else
                 let rl = tls13_record_layer_rbuf_free rl in
                 if alert_desc = TLS13_ALERT_CLOSE_NOTIFY then
                   (TLS13_IO_EOF, cb_alert_recv cb alert_desc (rl\<lparr>rl_read_closed := True\<rparr>, w))
                 else if alert_desc = TLS13_ALERT_USER_CANCELED then
                   (TLS13_IO_WANT_RETRY, cb_alert_recv cb alert_desc (rl, w))
                 else if alert_level = TLS13_ALERT_LEVEL_FATAL then
                   (TLS13_IO_ALERT, cb_alert_recv cb alert_desc (rl\<lparr>rl_read_closed := True, rl_write_closed := True\<rparr>, w))
                 else if rl_legacy_alerts_allowed rl \<and> alert_level = TLS13_ALERT_LEVEL_WARNING then (TLS13_IO_WANT_RETRY, rl, w)
                 else tls13_send_alert grant cb TLS13_ALERT_ILLEGAL_PARAMETER (rl, w)))"

text \<open>\<open>tls13_record_layer_read_record\<close> in three parts: an unencrypted ChangeCipherSpec record, what is done with the content of
  an opened record, and the whole function.\<close>

definition read_ccs ::
    "(nat \<Rightarrow> bool) \<Rightarrow> ('s, 'c, 'w) tls13_record_layer_callbacks \<Rightarrow> tls13_record \<Rightarrow> ('s, 'c, 'w) rl_state \<Rightarrow> int \<times> ('s, 'c, 'w) rl_state" where
  "read_ccs grant cb rrec st =
     (case st of (rl, w) \<Rightarrow>
      if \<not> rl_ccs_allowed rl \<or> 2 \<le> rl_ccs_seen rl then tls13_send_alert grant cb TLS13_ALERT_UNEXPECTED_MESSAGE (rl, w)
      else case tls13_record_content rrec of
        None \<Rightarrow> tls13_send_alert grant cb TLS13_ALERT_DECODE_ERROR (rl, w)
      | Some cbs \<Rightarrow>
          (case CBS_get_u8 cbs of
             (None, cbs) \<Rightarrow> tls13_send_alert grant cb TLS13_ALERT_DECODE_ERROR (rl, w)
           | (Some ccs, cbs) \<Rightarrow>
               if ccs \<noteq> 1 then tls13_send_alert grant cb TLS13_ALERT_ILLEGAL_PARAMETER (rl, w)
               else (TLS13_IO_WANT_RETRY, tls13_record_layer_rrec_free (rl\<lparr>rl_ccs_seen := rl_ccs_seen rl + 1\<rparr>), w)))"

definition read_opened ::
    "(nat \<Rightarrow> bool) \<Rightarrow> ('s, 'c, 'w) tls13_record_layer_callbacks \<Rightarrow> ('s, 'c, 'w) rl_state \<Rightarrow> int \<times> ('s, 'c, 'w) rl_state" where
  "read_opened grant cb st =
     (let rl = fst st; t = rl_rbuf_content_type rl in
      if CBS_len (rl_rbuf_cbs rl) = 0 \<and> (t = SSL3_RT_ALERT \<or> t = SSL3_RT_HANDSHAKE)
      then tls13_send_alert grant cb TLS13_ALERT_UNEXPECTED_MESSAGE st
      else if t = SSL3_RT_ALERT then tls13_record_layer_process_alert grant cb st
      else if t = SSL3_RT_HANDSHAKE then (TLS13_IO_SUCCESS, st)
      else if t = SSL3_RT_APPLICATION_DATA then
        (if \<not> rl_handshake_completed rl then tls13_send_alert grant cb TLS13_ALERT_UNEXPECTED_MESSAGE st
         else (TLS13_IO_SUCCESS, st))
      else tls13_send_alert grant cb TLS13_ALERT_UNEXPECTED_MESSAGE st)"

definition tls13_record_layer_read_record ::
    "(nat \<Rightarrow> bool) \<Rightarrow> ('s, 'c, 'w) tls13_record_layer_callbacks \<Rightarrow> ('s, 'c, 'w) rl_state \<Rightarrow> int \<times> ('s, 'c, 'w) rl_state" where
  "tls13_record_layer_read_record grant cb st =
     (case st of (rl, w) \<Rightarrow>
      case (case rl_rrec rl of None \<Rightarrow> tls13_record_new grant | Some rrec \<Rightarrow> Some rrec) of
        None \<Rightarrow> (TLS13_IO_FAILURE, rl, w)
      | Some rrec \<Rightarrow>
          (case tls13_record_recv grant (cb_wire_read cb) rrec w of
             (ret, rrec, w) \<Rightarrow>
               let rl = rl\<lparr>rl_rrec := Some rrec\<rparr>; content_type = tls13_record_content_type rrec in
               if ret \<le> 0 then
                 (if ret = TLS13_IO_RECORD_VERSION then tls13_send_alert grant cb TLS13_ALERT_PROTOCOL_VERSION (rl, w)
                  else if ret = TLS13_IO_RECORD_OVERFLOW then tls13_send_alert grant cb TLS13_ALERT_RECORD_OVERFLOW (rl, w)
                  else (ret, rl, w))
               else if rl_legacy_version rl = RL_TLS1_2_VERSION \<and> tls13_record_version rrec \<noteq> RL_TLS1_2_VERSION
               then tls13_send_alert grant cb TLS13_ALERT_PROTOCOL_VERSION (rl, w)
               else if content_type = SSL3_RT_CHANGE_CIPHER_SPEC then read_ccs grant cb rrec (rl, w)
               else if rl_aead rl \<noteq> None \<and> content_type \<noteq> SSL3_RT_APPLICATION_DATA
               then tls13_send_alert grant cb TLS13_ALERT_UNEXPECTED_MESSAGE (rl, w)
               else case tls13_record_layer_open_record grant rl of
                 (False, rl) \<Rightarrow> (TLS13_IO_FAILURE, rl, w)
               | (True, rl) \<Rightarrow> read_opened grant cb (tls13_record_layer_rrec_free rl, w)))"

definition tls13_record_layer_pending :: "('s, 'c) tls13_record_layer \<Rightarrow> u8 \<Rightarrow> int" where
  "tls13_record_layer_pending rl content_type =
     (if rl_rbuf_content_type rl \<noteq> content_type then 0 else int (CBS_len (rl_rbuf_cbs rl)))"

definition tls13_record_layer_recv_phh ::
    "('s, 'c, 'w) tls13_record_layer_callbacks \<Rightarrow> ('s, 'c, 'w) rl_state \<Rightarrow> int \<times> ('s, 'c, 'w) rl_state" where
  "tls13_record_layer_recv_phh cb st =
     (case st of (rl, w) \<Rightarrow>
      let rl = rl\<lparr>rl_phh := True\<rparr> in
      case (case cb_phh_recv cb of None \<Rightarrow> (TLS13_IO_FAILURE, rl, w) | Some phh_recv \<Rightarrow> phh_recv (rl, w)) of
        (ret, rl, w) \<Rightarrow>
          let rl = tls13_record_layer_rbuf_free rl;
              rl = (if ret \<noteq> TLS13_IO_WANT_POLLIN then rl\<lparr>rl_phh := False\<rparr> else rl)
          in if ret = TLS13_IO_SUCCESS then (if rl_phh_retry rl then TLS13_IO_WANT_RETRY else TLS13_IO_WANT_POLLIN, rl, w)
             else (ret, rl, w))"

text \<open>\<open>tls13_record_layer_read_internal\<close>: pulling up the next record when the buffer is empty (\<open>None\<close> when there is content
  to deliver), delivering content, and the whole function. The bytes are what was copied to \<open>buf\<close>.\<close>

definition read_fill ::
    "(nat \<Rightarrow> bool) \<Rightarrow> ('s, 'c, 'w) tls13_record_layer_callbacks \<Rightarrow> ('s, 'c, 'w) rl_state \<Rightarrow> int option \<times> ('s, 'c, 'w) rl_state" where
  "read_fill grant cb st =
     (if CBS_len (rl_rbuf_cbs (fst st)) \<noteq> 0 then (None, st)
      else case tls13_record_layer_read_record grant cb st of
        (ret, rl, w) \<Rightarrow>
          if ret \<le> 0 then (Some ret, rl, w)
          else if CBS_len (rl_rbuf_cbs rl) = 0 then (Some TLS13_IO_WANT_POLLIN, tls13_record_layer_rbuf_free rl, w)
          else (None, rl, w))"

definition read_deliver ::
    "(nat \<Rightarrow> bool) \<Rightarrow> ('s, 'c, 'w) tls13_record_layer_callbacks \<Rightarrow> u8 \<Rightarrow> nat \<Rightarrow> bool \<Rightarrow> ('s, 'c, 'w) rl_state
      \<Rightarrow> int \<times> bytes \<times> ('s, 'c, 'w) rl_state" where
  "read_deliver grant cb content_type n peek st =
     (case st of (rl, w) \<Rightarrow>
      if rl_phh rl \<and> rl_rbuf_content_type rl \<noteq> SSL3_RT_HANDSHAKE then
        (case tls13_send_alert grant cb TLS13_ALERT_UNEXPECTED_MESSAGE st of (ret, st) \<Rightarrow> (ret, [], st))
      else if rl_rbuf_content_type rl \<noteq> content_type then
        (case (if rl_rbuf_content_type rl = SSL3_RT_HANDSHAKE \<and> rl_handshake_completed rl then tls13_record_layer_recv_phh cb st
               else tls13_send_alert grant cb TLS13_ALERT_UNEXPECTED_MESSAGE st) of (ret, st) \<Rightarrow> (ret, [], st))
      else
        let n = min n (CBS_len (rl_rbuf_cbs rl)); buf = take n (CBS_data (rl_rbuf_cbs rl)) in
        case (if peek then (True, rl)
              else case CBS_skip (rl_rbuf_cbs rl) n of (r, cbs) \<Rightarrow> (r \<noteq> None, rl\<lparr>rl_rbuf_cbs := cbs\<rparr>)) of
          (False, rl) \<Rightarrow> (TLS13_IO_FAILURE, buf, rl, w)
        | (True, rl) \<Rightarrow>
            (int n, buf, if CBS_len (rl_rbuf_cbs rl) = 0 then tls13_record_layer_rbuf_free rl else rl, w))"

definition tls13_record_layer_read_internal ::
    "(nat \<Rightarrow> bool) \<Rightarrow> ('s, 'c, 'w) tls13_record_layer_callbacks \<Rightarrow> u8 \<Rightarrow> nat \<Rightarrow> bool \<Rightarrow> ('s, 'c, 'w) rl_state
      \<Rightarrow> int \<times> bytes \<times> ('s, 'c, 'w) rl_state" where
  "tls13_record_layer_read_internal grant cb content_type n peek st =
     (case tls13_record_layer_send_pending grant cb st of
        (ret, st) \<Rightarrow>
          if ret \<noteq> TLS13_IO_SUCCESS then (ret, [], st)
          else if rl_read_closed (fst st) then (TLS13_IO_EOF, [], st)
          else case read_fill grant cb st of
            (Some ret, st) \<Rightarrow> (ret, [], st)
          | (None, st) \<Rightarrow> read_deliver grant cb content_type n peek st)"

text \<open>The loops that repeat while the result is \<open>TLS13_IO_WANT_RETRY\<close>. \<open>None\<close> is a loop that does not end.\<close>

partial_function (option) read_loop ::
    "(nat \<Rightarrow> bool) \<Rightarrow> ('s, 'c, 'w) tls13_record_layer_callbacks \<Rightarrow> u8 \<Rightarrow> nat \<Rightarrow> bool \<Rightarrow> ('s, 'c, 'w) rl_state
      \<Rightarrow> (int \<times> bytes \<times> ('s, 'c, 'w) rl_state) option" where
  "read_loop grant cb content_type n peek st =
     (case tls13_record_layer_read_internal grant cb content_type n peek st of
        (ret, buf, st') \<Rightarrow>
          if ret = TLS13_IO_WANT_RETRY then read_loop grant cb content_type n peek st' else Some (ret, buf, st'))"

partial_function (option) pending_loop ::
    "(nat \<Rightarrow> bool) \<Rightarrow> ('s, 'c, 'w) tls13_record_layer_callbacks \<Rightarrow> ('s, 'c, 'w) rl_state \<Rightarrow> (int \<times> ('s, 'c, 'w) rl_state) option" where
  "pending_loop grant cb st =
     (case tls13_record_layer_send_pending grant cb st of
        (ret, st') \<Rightarrow> if ret = TLS13_IO_WANT_RETRY then pending_loop grant cb st' else Some (ret, st'))"

partial_function (option) chunk_loop ::
    "(nat \<Rightarrow> bool) \<Rightarrow> ('s, 'c, 'w) tls13_record_layer_callbacks \<Rightarrow> u8 \<Rightarrow> bytes \<Rightarrow> ('s, 'c, 'w) rl_state
      \<Rightarrow> (int \<times> ('s, 'c, 'w) rl_state) option" where
  "chunk_loop grant cb content_type buf st =
     (case tls13_record_layer_write_chunk grant cb content_type buf st of
        (ret, st') \<Rightarrow> if ret = TLS13_IO_WANT_RETRY then chunk_loop grant cb content_type buf st' else Some (ret, st'))"

text \<open>After the loop, an alert set while a record was opened is sent.\<close>

definition read_finish ::
    "(nat \<Rightarrow> bool) \<Rightarrow> ('s, 'c, 'w) tls13_record_layer_callbacks \<Rightarrow> int \<times> bytes \<times> ('s, 'c, 'w) rl_state \<Rightarrow> int \<times> bytes \<times> ('s, 'c, 'w) rl_state" where
  "read_finish grant cb r =
     (case r of (ret, buf, st) \<Rightarrow>
      if rl_alert (fst st) \<noteq> 0
      then (case tls13_send_alert grant cb (rl_alert (fst st)) st of (ret, st) \<Rightarrow> (ret, buf, st))
      else (ret, buf, st))"

definition tls13_record_layer_peek ::
    "(nat \<Rightarrow> bool) \<Rightarrow> ('s, 'c, 'w) tls13_record_layer_callbacks \<Rightarrow> u8 \<Rightarrow> nat \<Rightarrow> ('s, 'c, 'w) rl_state
      \<Rightarrow> (int \<times> bytes \<times> ('s, 'c, 'w) rl_state) option" where
  "tls13_record_layer_peek grant cb content_type n st = map_option (read_finish grant cb) (read_loop grant cb content_type n True st)"

definition tls13_record_layer_read ::
    "(nat \<Rightarrow> bool) \<Rightarrow> ('s, 'c, 'w) tls13_record_layer_callbacks \<Rightarrow> u8 \<Rightarrow> nat \<Rightarrow> ('s, 'c, 'w) rl_state
      \<Rightarrow> (int \<times> bytes \<times> ('s, 'c, 'w) rl_state) option" where
  "tls13_record_layer_read grant cb content_type n st = map_option (read_finish grant cb) (read_loop grant cb content_type n False st)"

definition tls13_record_layer_write ::
    "(nat \<Rightarrow> bool) \<Rightarrow> ('s, 'c, 'w) tls13_record_layer_callbacks \<Rightarrow> u8 \<Rightarrow> bytes \<Rightarrow> ('s, 'c, 'w) rl_state
      \<Rightarrow> (int \<times> ('s, 'c, 'w) rl_state) option" where
  "tls13_record_layer_write grant cb content_type buf st =
     Option.bind (pending_loop grant cb st)
       (\<lambda>(ret, st). if ret \<noteq> TLS13_IO_SUCCESS then Some (ret, st) else chunk_loop grant cb content_type buf st)"

section \<open>The interface\<close>

definition tls13_dummy_ccs :: bytes where
  "tls13_dummy_ccs = [1]"

definition tls13_send_dummy_ccs ::
    "(nat \<Rightarrow> bool) \<Rightarrow> ('s, 'c, 'w) tls13_record_layer_callbacks \<Rightarrow> ('s, 'c, 'w) rl_state \<Rightarrow> (int \<times> ('s, 'c, 'w) rl_state) option" where
  "tls13_send_dummy_ccs grant cb st =
     (if rl_ccs_sent (fst st) then Some (TLS13_IO_FAILURE, st)
      else map_option
        (\<lambda>(ret, rl, w). if ret \<le> 0 then (ret, rl, w) else (TLS13_IO_SUCCESS, rl\<lparr>rl_ccs_sent := True\<rparr>, w))
        (tls13_record_layer_write grant cb SSL3_RT_CHANGE_CIPHER_SPEC tls13_dummy_ccs st))"

definition tls13_read_handshake_data ::
    "(nat \<Rightarrow> bool) \<Rightarrow> ('s, 'c, 'w) tls13_record_layer_callbacks \<Rightarrow> nat \<Rightarrow> ('s, 'c, 'w) rl_state
      \<Rightarrow> (int \<times> bytes \<times> ('s, 'c, 'w) rl_state) option" where
  "tls13_read_handshake_data grant cb n st = tls13_record_layer_read grant cb SSL3_RT_HANDSHAKE n st"

definition tls13_write_handshake_data ::
    "(nat \<Rightarrow> bool) \<Rightarrow> ('s, 'c, 'w) tls13_record_layer_callbacks \<Rightarrow> bytes \<Rightarrow> ('s, 'c, 'w) rl_state \<Rightarrow> (int \<times> ('s, 'c, 'w) rl_state) option" where
  "tls13_write_handshake_data grant cb buf st = tls13_record_layer_write grant cb SSL3_RT_HANDSHAKE buf st"

definition tls13_pending_application_data :: "('s, 'c) tls13_record_layer \<Rightarrow> int" where
  "tls13_pending_application_data rl =
     (if \<not> rl_handshake_completed rl then 0 else tls13_record_layer_pending rl SSL3_RT_APPLICATION_DATA)"

definition tls13_peek_application_data ::
    "(nat \<Rightarrow> bool) \<Rightarrow> ('s, 'c, 'w) tls13_record_layer_callbacks \<Rightarrow> nat \<Rightarrow> ('s, 'c, 'w) rl_state
      \<Rightarrow> (int \<times> bytes \<times> ('s, 'c, 'w) rl_state) option" where
  "tls13_peek_application_data grant cb n st =
     (if \<not> rl_handshake_completed (fst st) then Some (TLS13_IO_FAILURE, [], st)
      else tls13_record_layer_peek grant cb SSL3_RT_APPLICATION_DATA n st)"

definition tls13_read_application_data ::
    "(nat \<Rightarrow> bool) \<Rightarrow> ('s, 'c, 'w) tls13_record_layer_callbacks \<Rightarrow> nat \<Rightarrow> ('s, 'c, 'w) rl_state
      \<Rightarrow> (int \<times> bytes \<times> ('s, 'c, 'w) rl_state) option" where
  "tls13_read_application_data grant cb n st =
     (if \<not> rl_handshake_completed (fst st) then Some (TLS13_IO_FAILURE, [], st)
      else tls13_record_layer_read grant cb SSL3_RT_APPLICATION_DATA n st)"

definition tls13_write_application_data ::
    "(nat \<Rightarrow> bool) \<Rightarrow> ('s, 'c, 'w) tls13_record_layer_callbacks \<Rightarrow> bytes \<Rightarrow> ('s, 'c, 'w) rl_state \<Rightarrow> (int \<times> ('s, 'c, 'w) rl_state) option" where
  "tls13_write_application_data grant cb buf st =
     (if \<not> rl_handshake_completed (fst st) then Some (TLS13_IO_FAILURE, st)
      else tls13_record_layer_write grant cb SSL3_RT_APPLICATION_DATA buf st)"

end
