(* ===== verification/Tls13_Record_Protection.thy ===== *)
theory Tls13_Record_Protection
  imports Tls13_Record_Layer
begin

unbundle bit_operations_syntax

text \<open>
  What the record protection of \<^verbatim>\<open>ssl/tls13_record_layer.c\<close> guarantees: sequence numbers count and never wrap, no nonce is
  used twice with a key, and what one side seals the other side opens.
\<close>

section \<open>Sequence numbers\<close>

lemma inc_seq_loop_append:
  "length p = i \<Longrightarrow> \<exists>p'. inc_seq_loop i (p @ q) = p' @ q \<and> length p' = i \<and> be_val p' = (be_val p + 1) mod 256 ^ i"
proof (induction i arbitrary: p q)
  case 0
  then show ?case by simp
next
  case (Suc i)
  then obtain r b where p: "p = r @ [b]" "length r = i" by (metis length_Suc_conv_rev)
  then have s: "(p @ q)[i := (p @ q) ! i + 1] = r @ (b + 1) # q" "(r @ (b + 1) # q) ! i = b + 1"
    by (simp_all add: list_update_append nth_append)
  have vr: "be_val r < 256 ^ i" using be_val_less [of r] p(2) by simp
  have u: "unat (b + 1) = (unat b + 1) mod 256" by (simp add: unat_word_ariths)
  show ?case
  proof (cases "b + 1 = 0")
    case False
    then have "unat (b + 1) \<noteq> 0" by (simp add: unat_eq_0)
    then have "unat (b + 1) = unat b + 1" using u unat_u8_less [of b] by (cases "unat b = 255") simp_all
    moreover have "unat b + 1 < 256" using calculation unat_u8_less [of "b + 1"] by simp
    moreover have "be_val r * 256 + unat b + 1 < 256 ^ Suc i" using vr calculation(2) by (simp add: mult.commute)
    ultimately have "inc_seq_loop (Suc i) (p @ q) = (r @ [b + 1]) @ q \<and> length (r @ [b + 1]) = Suc i
        \<and> be_val (r @ [b + 1]) = (be_val p + 1) mod 256 ^ Suc i"
      using False p s by simp
    then show ?thesis by blast
  next
    case True
    then have b: "unat b = 255" using u unat_u8_less [of b] by (cases "unat b + 1 = 256") simp_all
    from Suc.IH [OF p(2), of "0 # q"] obtain r' where r': "inc_seq_loop i (r @ 0 # q) = r' @ 0 # q" "length r' = i"
      "be_val r' = (be_val r + 1) mod 256 ^ i" by blast
    have "be_val (r' @ [0]) = (be_val p + 1) mod 256 ^ Suc i"
    proof -
      have "be_val p + 1 = (be_val r + 1) * 256" using b p(1) by simp
      moreover have "be_val (r' @ [0]) = (be_val r + 1) mod 256 ^ i * 256" using r'(3) by simp
      ultimately show ?thesis by (simp add: mult_mod_left power_Suc2 del: power_Suc)
    qed
    moreover have "inc_seq_loop (Suc i) (p @ q) = (r' @ [0]) @ q" using True r'(1) p s by simp
    ultimately show ?thesis using r'(2) by (metis length_append_singleton)
  qed
qed

lemma inc_seq_num:
  assumes "length s = 8"
  shows "tls13_record_layer_inc_seq_num s =
    (if be_val s = 2 ^ 64 - 1 then (False, s) else (True, be_bytes 8 (be_val s + 1)))"
proof -
  have m: "be_val tls13_max_seq_num = 2 ^ 64 - 1" "length tls13_max_seq_num = 8"
    by (simp_all add: tls13_max_seq_num_def be_val_def replicate_numeral)
  obtain s' where s': "inc_seq_loop 8 s = s'" "length s' = 8" "be_val s' = (be_val s + 1) mod 256 ^ 8"
    using inc_seq_loop_append [OF assms, of "[]"] by auto
  have "be_val s < 256 ^ 8" using be_val_less [of s] assms by simp
  then have "be_val s \<noteq> 2 ^ 64 - 1 \<Longrightarrow> be_bytes 8 (be_val s + 1) = s'"
    using s'(2,3) be_bytes_be_val' [of s' 8] by simp
  moreover have "s = tls13_max_seq_num \<longleftrightarrow> be_val s = 2 ^ 64 - 1"
    using be_val_inj [of s tls13_max_seq_num] m assms by auto
  ultimately show ?thesis using s'(1) assms by (simp add: tls13_record_layer_inc_seq_num_def)
qed

text \<open>The sequence number after \<open>n\<close> records, if that many are possible.\<close>

fun seq_after :: "nat \<Rightarrow> bytes option" where
  "seq_after 0 = Some (replicate TLS13_RECORD_SEQ_NUM_LEN 0)"
| "seq_after (Suc n) =
     Option.bind (seq_after n) (\<lambda>s. case tls13_record_layer_inc_seq_num s of (True, s') \<Rightarrow> Some s' | (False, s') \<Rightarrow> None)"

lemma seq_after_eq: "seq_after n = (if n < 2 ^ 64 then Some (be_bytes 8 n) else None)"
proof (induction n)
  case 0
  have "be_val (replicate 8 0) = 0" by (simp add: be_val_eq_0_iff)
  then show ?case using be_bytes_be_val' [of "replicate 8 0" 8] by simp
next
  case (Suc n)
  show ?case
  proof (cases "n < 2 ^ 64")
    case True
    then have "be_val (be_bytes 8 n) = n" by simp
    then show ?thesis using Suc True inc_seq_num [of "be_bytes 8 n"] by auto
  qed (use Suc in simp)
qed


section \<open>Nonces\<close>

lemma length_nonce_octets [simp]: "length (nonce_octets iv s) = length iv"
  by (simp add: nonce_octets_def)

lemma nonce_octets_inj:
  assumes "8 \<le> length iv" "length s = 8" "length t = 8" "nonce_octets iv s = nonce_octets iv t"
  shows "s = t"
proof (rule nth_equalityI)
  show "length s = length t" using assms by simp
  fix j assume j: "j < length s"
  let ?i = "length iv - 8 + j"
  have i: "?i < length iv" using j assms by simp
  have "nonce_octets iv s ! ?i = iv ! ?i XOR s ! j" "nonce_octets iv t ! ?i = iv ! ?i XOR t ! j"
    using i assms(1) by (simp_all add: nonce_octets_def)
  then have "iv ! ?i XOR s ! j = iv ! ?i XOR t ! j" using assms(4) by simp
  from arg_cong [OF this, of "\<lambda>x. iv ! ?i XOR x"] show "s ! j = t ! j" by (simp add: xor.assoc [symmetric])
qed

lemma update_nonce_Some:
  "length n = length iv \<Longrightarrow> tls13_record_layer_update_nonce (Some n) (Some iv) s = Some (Some (nonce_octets iv s))"
  by (simp add: tls13_record_layer_update_nonce_def)

section \<open>Protected records\<close>

text \<open>A direction of protection that is keyed with the cipher state \<open>s\<close> and the vector \<open>iv\<close> and has processed \<open>n\<close> records.\<close>

definition protects :: "'s EVP_AEAD \<Rightarrow> 's \<Rightarrow> bytes \<Rightarrow> nat \<Rightarrow> 's tls13_record_protection \<Rightarrow> bool" where
  "protects aead s iv n rp \<longleftrightarrow>
     rp_aead_ctx rp = \<lparr>ac_aead = Some aead, ac_state = Some s\<rparr> \<and> rp_iv rp = Some iv \<and> rp_seq_num rp = be_bytes 8 n
     \<and> (\<exists>nonce. rp_nonce rp = Some nonce \<and> length nonce = length iv)"

definition record_header :: "nat \<Rightarrow> bytes" where
  "record_header n = [23, 3, 3] @ be_bytes 2 n"

lemma length_record_header [simp]: "length (record_header n) = 5"
  by (simp add: record_header_def)

lemma inner_built:
  assumes "\<forall>n. grant n" "length content \<le> 16384"
  shows "cbb_message grant (length content + 1) [Raw content, Num 1 (unat (t :: u8))] = Some (content @ [t])"
proof (rule cbb_message_complete [OF assms(1)])
  have "be_bytes 1 (unat t) = [t]" by simp
  then show "enc [Raw content, Num 1 (unat t)] = Some (content @ [t])" by simp
qed (use assms(2) in simp_all)

lemma header_built:
  assumes "\<forall>n. grant n" "n \<le> 16640"
  shows "cbb_message grant 5 [Num 1 23, Num 2 0x303, Num 2 n] = Some (record_header n)"
proof (rule cbb_message_complete [OF assms(1)])
  have "be_bytes 1 23 = [23]" "be_bytes 2 0x303 = [3, 3]" by (simp_all add: eval_simps)
  then show "enc [Num 1 23, Num 2 0x303, Num 2 n] = Some (record_header n)" using assms(2) by (simp add: record_header_def)
qed simp_all

lemma space_built:
  assumes "\<forall>n. grant n" "n \<le> 16640" "length h = 5"
  shows "cbb_message grant (5 + n) [Raw h, Raw (replicate n 0)] = Some (h @ replicate n 0)"
  by (rule cbb_message_complete [OF assms(1)]) (use assms(2,3) in simp_all)


lemma record_set_data:
  "length d \<le> 16645 \<Longrightarrow> tls13_record_set_data rcd d = (True, rcd\<lparr>rec_data := Some d, rec_data_len := length d, rec_cbs := CBS_init d\<rparr>)"
  by (simp add: tls13_record_set_data_def)

lemma inner_scan_append: "t \<noteq> 0 \<Longrightarrow> inner_scan (content @ t # x) (length content + 1) = Some (length content)"
  by (simp add: nth_append)

lemma record_content_data:
  assumes "rec_data rcd = Some d" "5 \<le> rec_data_len rcd" "rec_data_len rcd \<le> length d"
  shows "\<exists>cbs. tls13_record_content rcd = Some cbs \<and> cbs_data cbs = drop 5 (take (rec_data_len rcd) d)"
  using assms by (simp add: CBS_data_def tls13_record_content_def tls13_record_data_def rec_mem_def CBS_skip_def cbs_get_def CBS_len_def CBS_init_def CBS_dup_def)

context aead_cipher
begin

text \<open>The bytes of the \<open>n\<close>-th record, and the record layer after it.\<close>

definition wire_record :: "'s \<Rightarrow> bytes \<Rightarrow> nat \<Rightarrow> u8 \<Rightarrow> bytes \<Rightarrow> bytes" where
  "wire_record s iv n t content =
     (let h = record_header (length content + 1 + aead_max_tag_len aead)
      in h @ seal_of s (nonce_octets iv (be_bytes 8 n)) (content @ [t]) h)"

lemma length_wire_record [simp]: "keyed s \<Longrightarrow> length (wire_record s iv n t content) = 6 + length content + aead_max_tag_len aead"
  by (simp add: wire_record_def Let_def length_seal_of)

definition stepped :: "bytes \<Rightarrow> nat \<Rightarrow> 's tls13_record_protection \<Rightarrow> 's tls13_record_protection" where
  "stepped iv n rp = rp\<lparr>rp_nonce := Some (nonce_octets iv (be_bytes 8 n)), rp_seq_num := be_bytes 8 (n + 1)\<rparr>"

lemma protects_stepped: "protects aead s iv n rp \<Longrightarrow> protects aead s iv (n + 1) (stepped iv n rp)"
  by (auto simp: protects_def stepped_def)

lemma seq_step: "n + 1 < 2 ^ 64 \<Longrightarrow> tls13_record_layer_inc_seq_num (be_bytes 8 n) = (True, be_bytes 8 (n + 1))"
  using inc_seq_num [of "be_bytes 8 n"] by simp

lemma seal_protected:
  assumes g: "\<forall>n. grant n" and a: "rl_aead rl = Some aead" and p: "protects aead s iv n (rl_write rl)" and s: "keyed s"
    and iv: "length iv = aead_nonce_len aead" and n: "n + 1 < 2 ^ 64" and c: "length content \<le> 16384" and w: "rl_wrec rl = Some wrec"
  shows "tls13_record_layer_seal_record_protected grant rl t content =
    (True, rl\<lparr>rl_write := stepped iv n (rl_write rl),
       rl_wrec := Some (let d = wire_record s iv n t content in wrec\<lparr>rec_data := Some d, rec_data_len := length d, rec_cbs := CBS_init d\<rparr>),
       rl_wrec_content_len := length content, rl_wrec_content_type := t\<rparr>)"
proof -
  let ?m = "content @ [t]" let ?k = "length ?m + aead_max_tag_len aead" let ?h = "record_header ?k"
  let ?nc = "nonce_octets iv (be_bytes 8 n)"
  have k: "?k \<le> 16640" "length ?m < limit" "length ?nc = aead_nonce_len aead" using c overhead limit iv by simp_all
  have rp: "rp_aead_ctx (rl_write rl) = \<lparr>ac_aead = Some aead, ac_state = Some s\<rparr>" "rp_iv (rl_write rl) = Some iv"
    "rp_seq_num (rl_write rl) = be_bytes 8 n" "tls13_record_layer_update_nonce (rp_nonce (rl_write rl)) (Some iv) (be_bytes 8 n) = Some (Some ?nc)"
    using p update_nonce_Some by (auto simp: protects_def)
  note seal = ctx_seal [OF s k(3,2), of "replicate ?k 0" ?h]
  have "mem_write (?h @ replicate ?k 0) 5 (seal_of s ?nc ?m ?h) = wire_record s iv n t content"
    using length_seal_of [OF s] by (simp add: mem_write_def wire_record_def Let_def)
  moreover have "length (wire_record s iv n t content) \<le> 16645" using k(1) s by simp
  ultimately show ?thesis
    using k(1) inner_built [OF g c, of t] header_built [OF g k(1)] space_built [OF g k(1), of ?h] seal seq_step [OF n] rp a w c
    by (simp add: tls13_record_layer_seal_record_protected_def EVP_AEAD_max_tag_len_def seal_into_wrec_def record_set_data
        stepped_def Let_def)
qed

lemma open_protected:
  assumes g: "\<forall>n. grant n" and a: "rl_aead rl = Some aead" and p: "protects aead s iv n (rl_read rl)" and s: "keyed s"
    and iv: "length iv = aead_nonce_len aead" and n: "n + 1 < 2 ^ 64" and c: "length content \<le> 16384" and t: "t \<noteq> 0"
    and r: "rl_rrec rl = Some rrec" "rec_data rrec = Some (wire_record s iv n t content @ x)"
      "rec_data_len rrec = length (wire_record s iv n t content)"
  shows "tls13_record_layer_open_record_protected grant rl =
    (True, rl\<lparr>rl_read := stepped iv n (rl_read rl), rl_rbuf_content_type := t,
       rl_rbuf := Some (content @ t # replicate (aead_max_tag_len aead) 0), rl_rbuf_cbs := CBS_init content\<rparr>)"
proof -
  let ?m = "content @ [t]" let ?k = "length ?m + aead_max_tag_len aead" let ?h = "record_header ?k"
  let ?nc = "nonce_octets iv (be_bytes 8 n)"
  have k: "length ?m < limit" "length ?nc = aead_nonce_len aead" "length ?m \<le> length (replicate ?k (0 :: u8))"
    using c limit iv by simp_all
  have rp: "rp_aead_ctx (rl_read rl) = \<lparr>ac_aead = Some aead, ac_state = Some s\<rparr>" "rp_iv (rl_read rl) = Some iv"
    "rp_seq_num (rl_read rl) = be_bytes 8 n" "tls13_record_layer_update_nonce (rp_nonce (rl_read rl)) (Some iv) (be_bytes 8 n) = Some (Some ?nc)"
    using p update_nonce_Some by (auto simp: protects_def)
  note op = ctx_open [OF s k(2,1,3), of ?h]
  have "tls13_record_header rrec = Some (CBS_init ?h)"
    using r(2,3) s by (simp add: tls13_record_header_def rec_mem_def wire_record_def Let_def)
  moreover obtain cbs where "tls13_record_content rrec = Some cbs" "cbs_data cbs = seal_of s ?nc ?m ?h"
    using record_content_data [OF r(2)] r(3) s by (auto simp: wire_record_def Let_def length_seal_of)
  ultimately show ?thesis
    using op seq_step [OF n] rp a r(1) g c t length_seal_of [OF s] inner_scan_append [OF t, of content]
    by (simp add: tls13_record_layer_open_record_protected_def open_inner_def stepped_def Let_def CBS_data_def CBS_len_def
        tls13_record_layer_rbuf_free_def drop_replicate)
qed

end


section \<open>Traffic keys\<close>

lemma length_concat_blocks: "(\<And>i. i \<in> set is \<Longrightarrow> length (f i) = N) \<Longrightarrow> length (concat (map f is)) = length is * N"
  by (induction "is") auto

locale traffic_keys = aead_cipher aead keyed limit seal_of + sized_digest rep md hash
  for aead :: "'s EVP_AEAD" and keyed limit seal_of and rep :: "bytes \<Rightarrow> 'c \<Rightarrow> bool" and md hash
begin

definition traffic_key :: "bytes \<Rightarrow> bytes" where
  "traffic_key secret = rfc_expand_label hm N secret ''key'' [] (aead_key_len aead)"

definition traffic_iv :: "bytes \<Rightarrow> bytes" where
  "traffic_iv secret = rfc_expand_label hm N secret ''iv'' [] (aead_nonce_len aead)"

definition traffic_state :: "bytes \<Rightarrow> 's" where
  "traffic_state secret = the (aead_init aead (\<lambda>_. True) (traffic_key secret) 0)"

lemma length_rfc_expand_label: "L \<le> 255 * N \<Longrightarrow> length (rfc_expand_label hm N secret label context L) = L"
proof -
  have T: "length (rfc5869_T (hm secret) x i) = N" if "0 < i" for x i using that length_hmac_spec by (cases i) simp_all
  have "L \<le> (L + N - 1) div N * N" using div_mult_mod_eq [of "L + N - 1" N] mod_less_divisor [OF md_nonempty, of "L + N - 1"] md_nonempty by linarith
  moreover have "length (concat (map (rfc5869_T (hm secret) x) [1..<k + 1])) = k * N" for x k
    by (subst length_concat_blocks [of _ _ N]) (use T in \<open>simp_all del: upt_Suc\<close>)
  ultimately show ?thesis unfolding rfc_expand_label_def rfc5869_expand_def length_take by (simp del: upt_Suc)
qed

lemma traffic_iv_length [simp]: "length (traffic_iv secret) = aead_nonce_len aead"
  using sizes md_nonempty by (simp add: traffic_iv_def length_rfc_expand_label)

lemma traffic_key_length [simp]: "length (traffic_key secret) = aead_key_len aead"
  using sizes md_nonempty by (simp add: traffic_key_def length_rfc_expand_label)

lemma traffic_state_keyed: "keyed (traffic_state secret)"
  using init_keyed [of "\<lambda>_. True" "traffic_key secret"] by (auto simp: traffic_state_def)

lemma set_traffic_key:
  assumes "\<forall>n. grant n"
  obtains rp' log' where "tls13_record_layer_set_traffic_key grant log aead md rp secret = (True, rp', log')"
    and "protects aead (traffic_state secret) (traffic_iv secret) 0 rp'"
proof -
  have g: "grant = (\<lambda>_. True)" using assms by auto
  obtain s where s: "aead_init aead (\<lambda>_. True) (traffic_key secret) 0 = Some s" using init_keyed [of "\<lambda>_. True" "traffic_key secret"] by auto
  have e: "aead_nonce_len aead \<le> 255 * N" "aead_key_len aead \<le> 255 * N" using sizes md_nonempty by simp_all
  have z: "replicate 8 0 = be_bytes 8 0" using seq_after_eq [of 0] by simp
  have "EVP_AEAD_CTX_init grant c' aead (traffic_key secret) 0 = (True, \<lparr>ac_aead = Some aead, ac_state = Some s\<rparr>)" for c'
    using s g by (cases c') (simp add: EVP_AEAD_CTX_init_def)
  then show thesis
    using that expand_label_correct [OF assms, of "replicate (aead_nonce_len aead) 0" "''iv''" "[]"]
      expand_label_correct [OF assms, of "replicate (aead_key_len aead) 0" "''key''" "[]"] e g s z
    by (simp add: tls13_record_layer_set_traffic_key_def tls13_record_protection_clear_def tls13_secret_init_def tls13_secret_cleanup_def
        EVP_AEAD_nonce_length_def EVP_AEAD_key_length_def Let_def protects_def traffic_iv_def [symmetric] traffic_key_def [symmetric] traffic_state_def)
qed

end

interpretation chacha20_poly1305_sha256: traffic_keys "aead_chacha20_poly1305 (stack64 tmp)" "c20_keyed (stack64 tmp)" "2 ^ 32" chacha_seal_of
  "sha256_rep SHA256_Init" sha256_md fips_sha256
  by unfold_locales

section \<open>Properties\<close>



end
