(* ===== verification/Tls13_Record_Stream.thy ===== *)
theory Tls13_Record_Stream
  imports Tls13_Record_Protection "HOL-Library.Sublist"
begin

text \<open>
  The stream of application data between two record layers: what \<open>tls13_read_application_data\<close> delivers on one side is, in order
  and without loss or repetition, what \<open>tls13_write_application_data\<close> accepted on the other, for every transport that keeps the
  contracts \<open>byte_sink\<close> and \<open>byte_source\<close>, however it splits, stalls or truncates.
\<close>

section \<open>Transports\<close>

text \<open>The results \<open>TLS13_IO_WANT_RETRY\<close>, \<open>TLS13_IO_RECORD_VERSION\<close> and \<open>TLS13_IO_RECORD_OVERFLOW\<close> are for the record layer's own
  use; the callbacks of \<^verbatim>\<open>ssl/tls13_legacy.c\<close> do not return them.\<close>

definition transport_results :: "('s, 'c, 'w) tls13_record_layer_callbacks \<Rightarrow> bool" where
  "transport_results cb \<longleftrightarrow>
     (\<forall>w bs. fst (cb_wire_write cb w bs) \<noteq> TLS13_IO_WANT_RETRY)
     \<and> (\<forall>w n. fst (cb_wire_read cb w n) \<notin> {TLS13_IO_WANT_RETRY, TLS13_IO_RECORD_VERSION, TLS13_IO_RECORD_OVERFLOW})"

lemma send_loop_result:
  "send_loop wr cbs w = (Some r, cbs', w') \<Longrightarrow> r = TLS13_IO_FAILURE \<or> (\<exists>v bs v'. wr v bs = (r, v'))"
  by (induction wr cbs w rule: send_loop.induct) (subst (asm) (2) send_loop.simps, auto split: if_splits prod.splits option.splits)

lemma record_send_result:
  assumes "tls13_record_send (cb_wire_write cb) rcd w = (ret, rcd', w')" "transport_results cb"
  shows "ret \<noteq> TLS13_IO_WANT_RETRY"
proof -
  obtain r c v where l: "send_loop (cb_wire_write cb) (rec_cbs rcd) w = (r, c, v)" by (metis prod_cases3)
  show ?thesis
  proof (cases r)
    case None
    then show ?thesis using assms(1) l by (auto simp: tls13_record_send_def split: if_splits)
  next
    case (Some x)
    then have "ret = x \<or> ret = TLS13_IO_FAILURE" using assms(1) l by (auto simp: tls13_record_send_def split: if_splits)
    moreover have "x \<noteq> TLS13_IO_WANT_RETRY"
      using send_loop_result l Some assms(2) unfolding transport_results_def by (metis fst_conv numeral_eq_iff neg_equal_iff_equal one_eq_numeral_iff semiring_norm(86))
    ultimately show ?thesis by auto
  qed
qed

lemma record_send_spec:
  assumes "byte_sink wr written" "rec_data rcd \<noteq> None" "0 < rec_data_len rcd" "tls13_record_send wr rcd w = (ret, rcd', w')"
  shows "rec_data rcd' = rec_data rcd" "rec_data_len rcd' = rec_data_len rcd"
    "written w' @ cbs_data (rec_cbs rcd') = written w @ cbs_data (rec_cbs rcd)" "0 < ret \<longleftrightarrow> cbs_data (rec_cbs rcd') = []"
proof -
  obtain r cbs' w1 where l: "send_loop wr (rec_cbs rcd) w = (r, cbs', w1)" by (metis prod_cases3)
  note sp = byte_sink.send_loop_spec [OF assms(1) l]
  show "rec_data rcd' = rec_data rcd" "rec_data_len rcd' = rec_data_len rcd"
    "written w' @ cbs_data (rec_cbs rcd') = written w @ cbs_data (rec_cbs rcd)" "0 < ret \<longleftrightarrow> cbs_data (rec_cbs rcd') = []"
    using sp assms(2-4) l by (cases r; auto simp: tls13_record_send_def CBS_data_def CBS_len_def)+
qed

section \<open>The sender\<close>

context aead_cipher
begin

fun wire_from :: "'s \<Rightarrow> bytes \<Rightarrow> nat \<Rightarrow> bytes list \<Rightarrow> bytes" where
  "wire_from s iv n [] = []"
| "wire_from s iv n (c # cs) = wire_record s iv n SSL3_RT_APPLICATION_DATA c @ wire_from s iv (n + 1) cs"

lemma wire_from_append: "wire_from s iv n (cs @ [c]) = wire_from s iv n cs @ wire_record s iv (n + length cs) SSL3_RT_APPLICATION_DATA c"
  by (induction cs arbitrary: n) simp_all

text \<open>An established record layer with nothing queued that has sealed the chunks \<open>cs\<close> so far, one record each. A record that has
  not left completely is still held.\<close>

definition sends :: "('w \<Rightarrow> bytes) \<Rightarrow> 's \<Rightarrow> bytes \<Rightarrow> bytes list \<Rightarrow> ('s, 'c, 'w) rl_state \<Rightarrow> bool" where
  "sends written s iv cs st \<longleftrightarrow> (case st of (rl, w) \<Rightarrow>
     rl_aead rl = Some aead \<and> rl_handshake_completed rl \<and> \<not> rl_write_closed rl \<and> rl_phh_data rl = None \<and> rl_alert_data rl = None
     \<and> rl_wrec_appdata_len rl = 0 \<and> protects aead s iv (length cs) (rl_write rl)
     \<and> (case rl_wrec rl of
          None \<Rightarrow> written w = wire_from s iv 0 cs
        | Some wrec \<Rightarrow> rec_data wrec \<noteq> None \<and> 0 < rec_data_len wrec \<and> rl_wrec_content_type rl = SSL3_RT_APPLICATION_DATA
            \<and> written w @ cbs_data (rec_cbs wrec) = wire_from s iv 0 cs))"

lemma seal_application_data:
  assumes g: "\<forall>n. grant n" and a: "rl_aead rl = Some aead" and p: "protects aead s iv n (rl_write rl)" and s: "keyed s"
    and iv: "length iv = aead_nonce_len aead" and n: "n + 1 < 2 ^ 64" and c: "length content \<le> 16384"
  obtains wrec where "tls13_record_layer_seal_record grant rl SSL3_RT_APPLICATION_DATA content = (True,
      rl\<lparr>rl_write := stepped iv n (rl_write rl), rl_wrec := Some wrec, rl_wrec_content_len := length content,
        rl_wrec_content_type := SSL3_RT_APPLICATION_DATA\<rparr>)"
    and "rec_data wrec \<noteq> None" "0 < rec_data_len wrec" "rec_cbs wrec = CBS_init (wire_record s iv n SSL3_RT_APPLICATION_DATA content)"
proof -
  obtain wrec where w: "tls13_record_new grant = Some wrec"
    using g by (auto simp: tls13_record_new_def tls13_buffer_new_def tls13_buffer_resize_def)
  let ?d = "wire_record s iv n SSL3_RT_APPLICATION_DATA content"
  show thesis
  proof (rule that [of "wrec\<lparr>rec_data := Some ?d, rec_data_len := length ?d, rec_cbs := CBS_init ?d\<rparr>"])
    show "tls13_record_layer_seal_record grant rl SSL3_RT_APPLICATION_DATA content = (True,
      rl\<lparr>rl_write := stepped iv n (rl_write rl), rl_wrec := Some (wrec\<lparr>rec_data := Some ?d, rec_data_len := length ?d, rec_cbs := CBS_init ?d\<rparr>),
        rl_wrec_content_len := length content, rl_wrec_content_type := SSL3_RT_APPLICATION_DATA\<rparr>)"
      using seal_protected [OF g, of "rl\<lparr>rl_wrec := Some wrec\<rparr>" s iv n content wrec] a p s iv n c w
      by (simp add: tls13_record_layer_seal_record_def tls13_record_layer_wrec_free_def Let_def)
  qed (use s in simp_all)
qed

lemma write_new_sends:
  assumes g: "\<forall>n. grant n" and st: "sends written s iv cs (rl, w)" "rl_wrec rl = None" and s: "keyed s"
    and iv: "length iv = aead_nonce_len aead" and n: "length cs + 1 < 2 ^ 64" and c: "length content \<le> 16384"
    and sink: "byte_sink (cb_wire_write cb) written" "transport_results cb"
    and wr: "write_new_record grant cb SSL3_RT_APPLICATION_DATA content (rl, w) = (ret, st')"
  shows "ret \<noteq> TLS13_IO_WANT_RETRY \<and> sends written s iv (cs @ [content]) st'"
proof -
  have rl: "rl_aead rl = Some aead" "protects aead s iv (length cs) (rl_write rl)" "written w = wire_from s iv 0 cs"
    using st by (simp_all add: sends_def)
  obtain wrec where sl: "tls13_record_layer_seal_record grant rl SSL3_RT_APPLICATION_DATA content = (True,
      rl\<lparr>rl_write := stepped iv (length cs) (rl_write rl), rl_wrec := Some wrec, rl_wrec_content_len := length content,
        rl_wrec_content_type := SSL3_RT_APPLICATION_DATA\<rparr>)"
    and wrec: "rec_data wrec \<noteq> None" "0 < rec_data_len wrec"
      "rec_cbs wrec = CBS_init (wire_record s iv (length cs) SSL3_RT_APPLICATION_DATA content)"
    by (rule seal_application_data [OF g rl(1,2) s iv n c])
  obtain r wrec' w' where send: "tls13_record_send (cb_wire_write cb) wrec w = (r, wrec', w')" by (metis prod_cases3)
  note sp = record_send_spec [OF sink(1) wrec(1,2) send]
  have "written w' @ cbs_data (rec_cbs wrec') = wire_from s iv 0 (cs @ [content])"
    using sp(3) wrec(3) rl(3) by (simp add: wire_from_append CBS_init_def)
  moreover have "protects aead s iv (length (cs @ [content])) (stepped iv (length cs) (rl_write rl))"
    using protects_stepped [OF rl(2)] by simp
  ultimately show ?thesis
    using wr sl send sp wrec c st record_send_result [OF send sink(2)]
    by (cases "r \<le> 0") (auto simp: write_new_record_def sends_def Let_def tls13_record_layer_wrec_free_def)
qed

lemma write_record_sends:
  assumes g: "\<forall>n. grant n" and st: "sends written s iv cs (rl, w)" and s: "keyed s"
    and iv: "length iv = aead_nonce_len aead" and n: "length cs + 1 < 2 ^ 64" and c: "length content \<le> 16384"
    and sink: "byte_sink (cb_wire_write cb) written" "transport_results cb"
    and wr: "tls13_record_layer_write_record grant cb SSL3_RT_APPLICATION_DATA content (rl, w) = (ret, st')"
  shows "ret \<noteq> TLS13_IO_WANT_RETRY \<and> sends written s iv (if rl_wrec rl = None then cs @ [content] else cs) st'"
proof (cases "rl_wrec rl")
  case None
  then have "write_new_record grant cb SSL3_RT_APPLICATION_DATA content (rl, w) = (ret, st')"
    using wr st by (simp add: tls13_record_layer_write_record_def sends_def)
  from write_new_sends [OF g st None s iv n c sink this] None show ?thesis by simp
next
  case (Some wrec)
  have wrec: "rec_data wrec \<noteq> None" "0 < rec_data_len wrec" using st Some by (simp_all add: sends_def)
  obtain r wrec' w' where send: "tls13_record_send (cb_wire_write cb) wrec w = (r, wrec', w')" by (metis prod_cases3)
  note sp = record_send_spec [OF sink(1) wrec send]
  show ?thesis
    using wr send sp wrec st Some record_send_result [OF send sink(2)]
    by (cases "r \<le> 0") (auto simp: tls13_record_layer_write_record_def sends_def Let_def tls13_record_layer_wrec_free_def)
qed

lemma write_sends:
  assumes g: "\<forall>n. grant n" and st: "sends written s iv cs (rl, w)" and s: "keyed s"
    and iv: "length iv = aead_nonce_len aead" and n: "length cs + 1 < 2 ^ 64"
    and sink: "byte_sink (cb_wire_write cb) written" "transport_results cb"
  obtains ret st' where "tls13_write_application_data grant cb buf (rl, w) = Some (ret, st')"
    and "sends written s iv (if rl_wrec rl = None then cs @ [take 16384 buf] else cs) st'"
proof -
  obtain ret st' where w: "tls13_record_layer_write_record grant cb SSL3_RT_APPLICATION_DATA (take 16384 buf) (rl, w) = (ret, st')"
    by (meson surj_pair)
  have "length (take 16384 buf) \<le> 16384" by simp
  note ws = write_record_sends [OF g st s iv n this sink w]
  have "tls13_record_layer_send_pending grant cb (rl, w) = (TLS13_IO_SUCCESS, (rl, w))"
    using st by (simp add: sends_def tls13_record_layer_send_pending_def)
  then have "pending_loop grant cb (rl, w) = Some (TLS13_IO_SUCCESS, (rl, w))" by (simp add: pending_loop.simps)
  moreover have "chunk_loop grant cb SSL3_RT_APPLICATION_DATA buf (rl, w) = Some (ret, st')"
    using w ws by (simp add: chunk_loop.simps tls13_record_layer_write_chunk_def)
  ultimately have "tls13_write_application_data grant cb buf (rl, w) = Some (ret, st')"
    using st by (simp add: tls13_write_application_data_def tls13_record_layer_write_def sends_def)
  then show thesis using that ws by blast
qed

end


section \<open>The receiver\<close>

lemma buffer_fill_result:
  "buffer_fill rd buf w = (ret, buf', w') \<Longrightarrow> ret \<le> 0 \<Longrightarrow> ret = TLS13_IO_FAILURE \<or> (\<exists>v n bs v'. rd v n = (ret, bs, v'))"
proof (induction rd buf w rule: buffer_fill.induct)
  case (1 rd buf w)
  obtain r bs w1 where rd: "rd w (tb_capacity buf - tb_len buf) = (r, bs, w1)" by (metis prod_cases3)
  show ?case
  proof (cases "r \<le> 0 \<or> int (tb_capacity buf - tb_len buf) < r")
    case True
    then show ?thesis using 1(2) rd buffer_fill.simps [of rd buf w] by (auto simp: Let_def split: if_splits)
  next
    case False
    then show ?thesis using 1(2,3) 1(1) [OF rd [symmetric] refl refl] rd buffer_fill.simps [of rd buf w]
      by (auto simp: Let_def split: if_splits)
  qed
qed

lemma buffer_extend_result:
  "tls13_buffer_extend grant rd buf n w = (ret, buf', w') \<Longrightarrow> ret \<le> 0 \<Longrightarrow> 0 < n \<Longrightarrow>
     ret = TLS13_IO_FAILURE \<or> (\<exists>v n bs v'. rd v n = (ret, bs, v'))"
  by (auto simp: tls13_buffer_extend_def split: if_splits prod.splits bool.splits dest: buffer_fill_result)

text \<open>A source whose bytes start with a frame, or run out, gives no reason to complain about the header.\<close>

lemma record_recv_result:
  assumes src: "byte_source rd stream" and rc: "tls13_record_recv grant rd rcd w = (ret, rcd', w')" and inv: "record_inv rcd"
    and str: "record_held rcd @ stream w @ u = d" "d = [] \<or> (\<exists>e rest. d = e @ rest \<and> record_frame e)" and ret: "ret \<le> 0"
  shows "ret = TLS13_IO_FAILURE \<or> (\<exists>v n bs v'. rd v n = (ret, bs, v'))"
proof -
  have i: "rec_data rcd = None" "buffer_ok (rec_buf rcd)" "record_held rcd = tb_bytes (rec_buf rcd)"
    using inv by (simp_all add: record_inv_def record_held_def)
  have payload: ?thesis if "record_recv_payload grant rd r v = (ret, rcd', w')" "buffer_ok (rec_buf r)" for r v
  proof -
    obtain x buf v' where ex: "tls13_buffer_extend grant rd (rec_buf r) (5 + rec_rec_len r) v = (x, buf, v')" by (metis prod_cases3)
    have "x \<le> 0" "ret = x"
      using that(1) ex ret byte_source.extend_spec [OF src ex that(2)]
      by (auto simp: record_recv_payload_def tls13_buffer_finish_def split: if_splits)
    then show ?thesis using buffer_extend_result [OF ex] by simp
  qed
  show ?thesis
  proof (cases "rec_content_type rcd = 0")
    case False
    then show ?thesis using payload rc i(1,2) by (simp add: tls13_record_recv_def)
  next
    case ct: True
    obtain r buf w1 where ex: "tls13_buffer_extend grant rd (rec_buf rcd) 5 w = (r, buf, w1)" by (metis prod_cases3)
    show ?thesis
    proof (cases "0 < r")
      case False
      then have "record_recv_header grant rd rcd w = (r, rcd\<lparr>rec_buf := buf\<rparr>, w1)" using ex by (simp add: record_recv_header_def Let_def)
      then show ?thesis using rc i(1) ct False buffer_extend_result [OF ex] by (auto simp: tls13_record_recv_def)
    next
      case True
      note sp = byte_source.extend_spec [OF src ex i(2)]
      then have "length (tb_bytes buf) = 5" using True by simp
      then obtain t a b p q where tb: "tb_bytes buf = [t, a, b, p, q]" using five_bytes by metis
      have st: "[t, a, b, p, q] @ stream w1 @ u = d" using sp str(1) i(3) tb by (metis append.assoc zero_less_numeral)
      then obtain e rest where e: "d = e @ rest" "record_frame e" using str(2) by auto
      then obtain e' where e': "e = [t, a, b, p, q] @ e'" using st
        by (auto simp: record_frame_def append_eq_append_conv2 Cons_eq_append_conv)
      then have "a = 3" "be_val [p, q] \<le> 16640" using e(2) by (simp_all add: record_frame_def)
      moreover from record_header_parse [OF ex True tb] obtain v :: u16 and l :: u16 where
        "record_recv_header grant rd rcd w =
          (if a \<noteq> 3 then (TLS13_IO_RECORD_VERSION, rcd\<lparr>rec_buf := buf\<rparr>, w1)
           else if 16640 < unat l then (TLS13_IO_RECORD_OVERFLOW, rcd\<lparr>rec_buf := buf\<rparr>, w1)
           else (1, rcd\<lparr>rec_buf := buf, rec_content_type := t, rec_version := v, rec_rec_len := unat l\<rparr>, w1))"
        "unat v = be_val [a, b]" "unat l = be_val [p, q]" .
      ultimately have "record_recv_header grant rd rcd w =
          (1, rcd\<lparr>rec_buf := buf, rec_content_type := t, rec_version := v, rec_rec_len := unat l\<rparr>, w1)" by simp
      then show ?thesis using payload rc i(1) ct sp by (simp add: tls13_record_recv_def)
    qed
  qed
qed


lemma record_recv_len:
  assumes "tls13_record_recv grant rd rcd w = (ret, rcd', w')" "0 < ret"
  shows "ret = int (rec_data_len rcd')"
  using assms by (auto simp: tls13_record_recv_def record_recv_payload_def split: if_splits prod.splits)

lemma record_new_inv:
  assumes "\<forall>n. grant n"
  obtains rcd where "tls13_record_new grant = Some rcd" "record_inv rcd" "record_held rcd = []"
proof -
  obtain buf where buf: "tls13_buffer_new grant 16645 = Some buf" using assms by (auto simp: tls13_buffer_new_def tls13_buffer_resize_def)
  show thesis using that buffer_new_ok [OF buf] buf by (simp add: tls13_record_new_def record_inv_def record_held_def)
qed

context aead_cipher
begin

lemma wire_record_frame:
  assumes "keyed s" "length c \<le> 16384"
  shows "record_frame (wire_record s iv n t c)"
proof -
  let ?k = "length c + 1 + aead_max_tag_len aead"
  have "?k \<le> 16640" using assms overhead by simp
  moreover have "take 2 (drop 3 (wire_record s iv n t c)) = be_bytes 2 ?k" "wire_record s iv n t c ! 1 = 3"
    by (simp_all add: wire_record_def record_header_def Let_def)
  ultimately show ?thesis using assms by (simp add: record_frame_def)
qed

text \<open>An established record layer with nothing queued that has opened \<open>n\<close> records: what it holds, the rest of the source
  and bytes \<open>u\<close> that may never come make up the records of the chunks \<open>cs\<close>.\<close>

definition receives :: "('w \<Rightarrow> bytes) \<Rightarrow> 's \<Rightarrow> bytes \<Rightarrow> nat \<Rightarrow> bytes list \<Rightarrow> bytes \<Rightarrow> ('s, 'c, 'w) rl_state \<Rightarrow> bool" where
  "receives stream s iv n cs u st \<longleftrightarrow> (case st of (rl, w) \<Rightarrow>
     rl_aead rl = Some aead \<and> rl_handshake_completed rl \<and> \<not> rl_read_closed rl \<and> rl_phh_data rl = None \<and> rl_alert_data rl = None
     \<and> \<not> rl_phh rl \<and> rl_alert rl = 0 \<and> rl_legacy_version rl = RL_TLS1_2_VERSION \<and> protects aead s iv n (rl_read rl)
     \<and> (cbs_data (rl_rbuf_cbs rl) \<noteq> [] \<longrightarrow> rl_rbuf_content_type rl = SSL3_RT_APPLICATION_DATA)
     \<and> (\<forall>c\<in>set cs. length c \<le> 16384) \<and> n + length cs < 2 ^ 64
     \<and> (case rl_rrec rl of
          None \<Rightarrow> stream w @ u = wire_from s iv n cs
        | Some rrec \<Rightarrow> record_inv rrec \<and> record_held rrec @ stream w @ u = wire_from s iv n cs))"

lemma wire_from_frames:
  assumes "keyed s" "\<forall>c\<in>set cs. length c \<le> 16384"
  shows "wire_from s iv n cs = [] \<or> (\<exists>e rest. wire_from s iv n cs = e @ rest \<and> record_frame e)"
  using assms wire_record_frame by (cases cs) auto

text \<open>A record that has come in whole is the next record of the sender.\<close>

lemma received_record:
  assumes src: "byte_source rd stream" and rc: "tls13_record_recv grant rd rcd w = (ret, rcd', w')" and inv: "record_inv rcd"
    and str: "record_held rcd @ stream w @ u = wire_from s iv n cs" and s: "keyed s" "\<forall>c\<in>set cs. length c \<le> 16384" and ret: "0 < ret"
  obtains c cs' x where "cs = c # cs'" "stream w' @ u = wire_from s iv (n + 1) cs'"
    "rec_data rcd' = Some (wire_record s iv n SSL3_RT_APPLICATION_DATA c @ x)"
    "rec_data_len rcd' = length (wire_record s iv n SSL3_RT_APPLICATION_DATA c)"
    "rec_content_type rcd' = SSL3_RT_APPLICATION_DATA" "rec_version rcd' = RL_TLS1_2_VERSION"
proof -
  note sp = byte_source.record_recv_spec [OF src rc inv]
  have fr: "record_frame (record_held rcd')" "header_matches rcd' (record_held rcd')" "rec_data rcd' \<noteq> None"
    "ret = int (length (record_held rcd'))" "record_held rcd' @ stream w' = record_held rcd @ stream w"
    using sp ret by blast+
  have st: "record_held rcd' @ stream w' @ u = wire_from s iv n cs" using fr(5) str by (metis append.assoc)
  have "record_held rcd' \<noteq> []" using fr(4) ret by auto
  then have "cs \<noteq> []" using st by auto
  then obtain c cs' where cs: "cs = c # cs'" by (cases cs) auto
  let ?d = "wire_record s iv n SSL3_RT_APPLICATION_DATA c"
  have h: "record_held rcd' = ?d"
    using record_frame_unique [OF fr(1) wire_record_frame] st cs s by simp
  obtain b where b: "rec_data rcd' = Some b" using fr(3) by blast
  then have t: "take (rec_data_len rcd') b = ?d" using h by (simp add: record_held_def)
  have l: "rec_data_len rcd' = length ?d" using record_recv_len [OF rc ret] fr(4) h by simp
  have "be_val (take 2 (drop 1 ?d)) = unat RL_TLS1_2_VERSION" "?d ! 0 = SSL3_RT_APPLICATION_DATA"
    by (simp_all add: wire_record_def record_header_def Let_def be_val_def)
  then have hd: "rec_content_type rcd' = SSL3_RT_APPLICATION_DATA" "rec_version rcd' = RL_TLS1_2_VERSION"
    using fr(2) h by (simp_all add: header_matches_def word_unat_eq_iff)
  show thesis
  proof (rule that [OF cs _ _ l hd])
    show "stream w' @ u = wire_from s iv (n + 1) cs'" using st h cs by simp
    show "rec_data rcd' = Some (?d @ drop (rec_data_len rcd') b)" using b t by (metis append_take_drop_id)
  qed
qed

definition plain :: "bytes list \<Rightarrow> ('s, 'c, 'w) rl_state \<Rightarrow> bytes" where
  "plain cs st = cbs_data (rl_rbuf_cbs (fst st)) @ concat cs"

lemma read_record_receives:
  assumes g: "\<forall>n. grant n" and st: "receives stream s iv n cs u (rl, w)" and s: "keyed s"
    and iv: "length iv = aead_nonce_len aead"
    and src: "byte_source (cb_wire_read cb) stream" "transport_results cb"
    and rd: "tls13_record_layer_read_record grant cb (rl, w) = (ret, rl', w')"
  shows "ret \<le> 0 \<and> ret \<noteq> TLS13_IO_WANT_RETRY \<and> receives stream s iv n cs u (rl', w') \<and> rl_rbuf_cbs rl' = rl_rbuf_cbs rl
    \<or> 0 < ret \<and> (\<exists>c cs'. cs = c # cs' \<and> cbs_data (rl_rbuf_cbs rl') = c \<and> receives stream s iv (n + 1) cs' u (rl', w'))"
proof -
  have rl: "rl_aead rl = Some aead" "rl_handshake_completed rl" "rl_legacy_version rl = 0x303" "protects aead s iv n (rl_read rl)"
    "\<forall>c\<in>set cs. length c \<le> 16384" "n + length cs < 2 ^ 64" using st by (simp_all add: receives_def)
  obtain rrec where rr: "(case rl_rrec rl of None \<Rightarrow> tls13_record_new grant | Some rrec \<Rightarrow> Some rrec) = Some rrec"
    "record_inv rrec" "record_held rrec @ stream w @ u = wire_from s iv n cs"
  proof (cases "rl_rrec rl")
    case None
    from record_new_inv [OF g] obtain rcd where "tls13_record_new grant = Some rcd" "record_inv rcd" "record_held rcd = []" .
    then show thesis using that [of rcd] None st by (simp add: receives_def)
  next
    case (Some rcd)
    then show thesis using that [of rcd] st by (simp add: receives_def)
  qed
  obtain r rrec' v where rc: "tls13_record_recv grant (cb_wire_read cb) rrec w = (r, rrec', v)" by (metis prod_cases3)
  note sp = byte_source.record_recv_spec [OF src(1) rc rr(2)]
  show ?thesis
  proof (cases "0 < r")
    case False
    have "r = TLS13_IO_FAILURE \<or> (\<exists>v n bs v'. cb_wire_read cb v n = (r, bs, v'))"
      using record_recv_result [OF src(1) rc rr(2,3) wire_from_frames [OF s rl(5)]] False by simp
    then have r: "r \<noteq> -5" "r \<noteq> -7" "r \<noteq> -8" using src(2) unfolding transport_results_def by (auto, (metis fst_conv insertCI)+)
    then have "ret = r \<and> rl' = rl\<lparr>rl_rrec := Some rrec'\<rparr> \<and> w' = v"
      using rd rr(1) rc False by (simp add: tls13_record_layer_read_record_def Let_def)
    moreover have "record_inv rrec'" "record_held rrec' @ stream v @ u = wire_from s iv n cs"
      using sp False rr(3) by (simp, metis append.assoc)
    ultimately show ?thesis using st r False by (simp add: receives_def)
  next
    case True
    obtain c cs' x where c: "cs = c # cs'" "stream v @ u = wire_from s iv (n + 1) cs'"
      and d: "rec_data rrec' = Some (wire_record s iv n SSL3_RT_APPLICATION_DATA c @ x)"
        "rec_data_len rrec' = length (wire_record s iv n SSL3_RT_APPLICATION_DATA c)"
      and h: "rec_content_type rrec' = SSL3_RT_APPLICATION_DATA" "rec_version rrec' = RL_TLS1_2_VERSION"
      by (rule received_record [OF src(1) rc rr(2,3) s rl(5) True])
    have m: "n + 1 < 2 ^ 64" "length c \<le> 16384" using rl(5,6) c(1) by simp_all
    let ?rl = "rl\<lparr>rl_rrec := Some rrec'\<rparr>"
    let ?o = "?rl\<lparr>rl_read := stepped iv n (rl_read rl), rl_rbuf_content_type := SSL3_RT_APPLICATION_DATA,
      rl_rbuf := Some (c @ SSL3_RT_APPLICATION_DATA # replicate (aead_max_tag_len aead) 0), rl_rbuf_cbs := CBS_init c\<rparr>"
    have "tls13_record_layer_open_record grant ?rl = (True, ?o)"
      using open_protected [OF g, of ?rl s iv n c SSL3_RT_APPLICATION_DATA rrec' x] rl m s iv d
      by (simp add: tls13_record_layer_open_record_def)
    then have "(ret, rl', w') = (1, tls13_record_layer_rrec_free ?o, v)"
      using rd rr(1) rc True h rl
      by (simp add: tls13_record_layer_read_record_def Let_def tls13_record_version_def tls13_record_content_type_def
          read_opened_def tls13_record_layer_rrec_free_def)
    then show ?thesis
      using c st protects_stepped [OF rl(4)] by (auto simp: receives_def tls13_record_layer_rrec_free_def CBS_init_def)
  qed
qed

lemma read_deliver_receives:
  assumes st: "receives stream s iv n cs u (rl, w)" and b: "cbs_data (rl_rbuf_cbs rl) \<noteq> []"
  obtains buf rl' where "read_deliver grant cb SSL3_RT_APPLICATION_DATA k False (rl, w) = (int (length buf), buf, rl', w)"
    and "receives stream s iv n cs u (rl', w)" "plain cs (rl, w) = buf @ plain cs (rl', w)"
proof -
  let ?d = "cbs_data (rl_rbuf_cbs rl)" let ?n = "min k (length ?d)"
  let ?rl = "rl\<lparr>rl_rbuf_cbs := (rl_rbuf_cbs rl)\<lparr>cbs_data := drop ?n ?d\<rparr>\<rparr>"
  let ?rl' = "if length ?d - ?n = 0 then tls13_record_layer_rbuf_free ?rl else ?rl"
  have "rl_rbuf_content_type rl = SSL3_RT_APPLICATION_DATA" "\<not> rl_phh rl" using st b by (simp_all add: receives_def)
  then have "read_deliver grant cb SSL3_RT_APPLICATION_DATA k False (rl, w) = (int (length (take ?n ?d)), take ?n ?d, ?rl', w)"
    by (simp add: read_deliver_def CBS_len_def CBS_data_def CBS_skip_def cbs_get_def Let_def)
  moreover have "receives stream s iv n cs u (?rl', w)"
    using st b by (simp add: receives_def tls13_record_layer_rbuf_free_def CBS_init_def)
  moreover have "plain cs (rl, w) = take ?n ?d @ plain cs (?rl', w)"
    by (simp add: plain_def tls13_record_layer_rbuf_free_def CBS_init_def)
  ultimately show thesis by (rule that)
qed

lemma read_receives:
  assumes g: "\<forall>n. grant n" and st: "receives stream s iv n cs u st" and s: "keyed s"
    and iv: "length iv = aead_nonce_len aead"
    and src: "byte_source (cb_wire_read cb) stream" "transport_results cb"
  obtains ret buf st' n' cs' where "tls13_read_application_data grant cb k st = Some (ret, buf, st')"
    and "receives stream s iv n' cs' u st'" "plain cs st = buf @ plain cs' st'" "ret \<le> 0 \<longrightarrow> buf = []" "0 < ret \<longrightarrow> ret = int (length buf)"
proof -
  note result = that
  obtain rl w where [simp]: "st = (rl, w)" by force
  have rl: "rl_handshake_completed rl" "\<not> rl_read_closed rl" "rl_phh_data rl = None" "rl_alert_data rl = None"
    using st by (simp_all add: receives_def)
  have pend: "tls13_record_layer_send_pending grant cb (rl, w) = (TLS13_IO_SUCCESS, (rl, w))"
    using rl by (simp add: tls13_record_layer_send_pending_def)
  have fin: thesis if "tls13_record_layer_read_internal grant cb SSL3_RT_APPLICATION_DATA k False (rl, w) = (ret, buf, st')" "ret \<noteq> -5"
    "receives stream s iv n' cs' u st'" "plain cs (rl, w) = buf @ plain cs' st'" "ret \<le> 0 \<longrightarrow> buf = []" "0 < ret \<longrightarrow> ret = int (length buf)" for ret buf st' n' cs'
  proof (rule result)
    have "rl_alert (fst st') = 0" using that(3) by (cases st') (simp add: receives_def)
    then show "tls13_read_application_data grant cb k st = Some (ret, buf, st')"
      using that(1,2) rl(1) by (simp add: tls13_read_application_data_def tls13_record_layer_read_def read_loop.simps read_finish_def)
  qed (use that in simp_all)
  show thesis
  proof (cases "cbs_data (rl_rbuf_cbs rl) = []")
    case False
    obtain buf rl' where "read_deliver grant cb SSL3_RT_APPLICATION_DATA k False (rl, w) = (int (length buf), buf, rl', w)"
      "receives stream s iv n cs u (rl', w)" "plain cs (rl, w) = buf @ plain cs (rl', w)"
      using read_deliver_receives [OF st [simplified] False] by metis
    then show thesis using fin [of "int (length buf)" buf "(rl', w)" n cs] pend rl False
      by (simp add: tls13_record_layer_read_internal_def read_fill_def CBS_len_def)
  next
    case True
    obtain r rl1 w1 where rd: "tls13_record_layer_read_record grant cb (rl, w) = (r, rl1, w1)" by (metis prod_cases3)
    from read_record_receives [OF g st [simplified] s iv src rd] show thesis
    proof (elim disjE conjE exE)
      assume "r \<le> 0" "r \<noteq> -5" "receives stream s iv n cs u (rl1, w1)" "rl_rbuf_cbs rl1 = rl_rbuf_cbs rl"
      then show thesis using fin [of r "[]" "(rl1, w1)" n cs] pend rl True rd
        by (simp add: tls13_record_layer_read_internal_def read_fill_def CBS_len_def plain_def)
    next
      fix c cs' assume c: "0 < r" "cs = c # cs'" "cbs_data (rl_rbuf_cbs rl1) = c" "receives stream s iv (n + 1) cs' u (rl1, w1)"
      have p: "plain cs (rl, w) = plain cs' (rl1, w1)" using c True by (simp add: plain_def)
      show thesis
      proof (cases "c = []")
        case True': True
        have "receives stream s iv (n + 1) cs' u (tls13_record_layer_rbuf_free rl1, w1)"
          using c(4) by (simp add: receives_def tls13_record_layer_rbuf_free_def CBS_init_def)
        then show thesis using fin [of "-3" "[]" "(tls13_record_layer_rbuf_free rl1, w1)" "n + 1" cs'] pend rl True rd c True' p
          by (simp add: tls13_record_layer_read_internal_def read_fill_def CBS_len_def plain_def tls13_record_layer_rbuf_free_def CBS_init_def)
      next
        case False
        then have "cbs_data (rl_rbuf_cbs rl1) \<noteq> []" using c(3) by simp
        then obtain buf rl' where "read_deliver grant cb SSL3_RT_APPLICATION_DATA k False (rl1, w1) = (int (length buf), buf, rl', w1)"
          "receives stream s iv (n + 1) cs' u (rl', w1)" "plain cs' (rl1, w1) = buf @ plain cs' (rl', w1)"
          using read_deliver_receives [OF c(4)] by metis
        then show thesis using fin [of "int (length buf)" buf "(rl', w1)" "n + 1" cs'] pend rl True rd c False p
          by (simp add: tls13_record_layer_read_internal_def read_fill_def CBS_len_def)
      qed
    qed
  qed
qed

end

section \<open>Sequences of calls\<close>

text \<open>An application that writes the buffers one after the other and one that reads with the given sizes, and the bytes the record
  layer has accepted and delivered. A call that finds a record still waiting to leave pushes it out and accepts nothing.\<close>

fun write_calls ::
    "(nat \<Rightarrow> bool) \<Rightarrow> ('s, 'c, 'w) tls13_record_layer_callbacks \<Rightarrow> bytes list \<Rightarrow> ('s, 'c, 'w) rl_state \<Rightarrow> (bytes \<times> ('s, 'c, 'w) rl_state) option" where
  "write_calls grant cb [] st = Some ([], st)"
| "write_calls grant cb (buf # bufs) st =
     (case tls13_write_application_data grant cb buf st of
        None \<Rightarrow> None
      | Some (ret, st') \<Rightarrow>
          map_option (\<lambda>(sent, st''). ((if rl_wrec (fst st) = None then take TLS13_RECORD_MAX_PLAINTEXT_LEN buf else []) @ sent, st''))
            (write_calls grant cb bufs st'))"

fun read_calls ::
    "(nat \<Rightarrow> bool) \<Rightarrow> ('s, 'c, 'w) tls13_record_layer_callbacks \<Rightarrow> nat list \<Rightarrow> ('s, 'c, 'w) rl_state \<Rightarrow> (bytes \<times> ('s, 'c, 'w) rl_state) option" where
  "read_calls grant cb [] st = Some ([], st)"
| "read_calls grant cb (k # ks) st =
     (case tls13_read_application_data grant cb k st of
        None \<Rightarrow> None
      | Some (ret, buf, st') \<Rightarrow>
          map_option (\<lambda>(got, st''). ((if 0 < ret then buf else []) @ got, st'')) (read_calls grant cb ks st'))"

definition established_writer :: "(nat \<Rightarrow> bool) \<Rightarrow> 's EVP_AEAD \<Rightarrow> 'c EVP_MD \<Rightarrow> bytes \<Rightarrow> ('s, 'c) tls13_record_layer option" where
  "established_writer grant aead hash secret =
     Option.bind (tls13_record_layer_new grant) (\<lambda>rl.
       case tls13_record_layer_set_write_traffic_key grant []
              (tls13_record_layer_set_hash (tls13_record_layer_set_aead rl aead) hash) secret of
         (False, rl, log) \<Rightarrow> None
       | (True, rl, log) \<Rightarrow> Some (tls13_record_layer_handshake_completed rl))"

definition established_reader :: "(nat \<Rightarrow> bool) \<Rightarrow> 's EVP_AEAD \<Rightarrow> 'c EVP_MD \<Rightarrow> bytes \<Rightarrow> ('s, 'c) tls13_record_layer option" where
  "established_reader grant aead hash secret =
     Option.bind (tls13_record_layer_new grant) (\<lambda>rl.
       case tls13_record_layer_set_read_traffic_key grant []
              (tls13_record_layer_set_hash (tls13_record_layer_set_aead rl aead) hash) secret of
         (False, rl, log) \<Rightarrow> None
       | (True, rl, log) \<Rightarrow> Some (tls13_record_layer_handshake_completed rl))"

text \<open>A receiver that has used up its source and holds neither a part of a record nor content.\<close>

definition drained :: "('w \<Rightarrow> bytes) \<Rightarrow> ('s, 'c, 'w) rl_state \<Rightarrow> bool" where
  "drained stream st \<longleftrightarrow> stream (snd st) = [] \<and> tls13_pending_application_data (fst st) = 0
     \<and> (case rl_rrec (fst st) of None \<Rightarrow> True | Some rrec \<Rightarrow> record_held rrec = [])"

context aead_cipher
begin

lemma write_calls_sends:
  assumes g: "\<forall>n. grant n" and s: "keyed s" and iv: "length iv = aead_nonce_len aead"
    and sink: "byte_sink (cb_wire_write cb) written" "transport_results cb"
  shows "sends written s iv cs st \<Longrightarrow> length cs + length bufs + 1 < 2 ^ 64 \<Longrightarrow>
    \<exists>sent st' ds. write_calls grant cb bufs st = Some (sent, st') \<and> sends written s iv (cs @ ds) st' \<and> sent = concat ds
      \<and> length ds \<le> length bufs \<and> (\<forall>c\<in>set ds. length c \<le> 16384)"
proof (induction bufs arbitrary: cs st)
  case Nil
  then show ?case by (auto intro: exI [of _ "[]"])
next
  case (Cons buf bufs)
  obtain rl w where st: "st = (rl, w)" by force
  let ?d = "if rl_wrec rl = None then [take 16384 buf] else []"
  have n: "length cs + 1 < 2 ^ 64" using Cons.prems(2) by simp
  obtain ret st1 where w: "tls13_write_application_data grant cb buf (rl, w) = Some (ret, st1)"
    and s1: "sends written s iv (if rl_wrec rl = None then cs @ [take 16384 buf] else cs) st1"
    using write_sends [OF g Cons.prems(1) [unfolded st] s iv n sink] by metis
  then have "sends written s iv (cs @ ?d) st1" by (cases "rl_wrec rl") simp_all
  moreover have "length (cs @ ?d) + length bufs + 1 < 2 ^ 64" using Cons.prems(2) by (cases "rl_wrec rl") simp_all
  ultimately obtain sent st' ds where ih: "write_calls grant cb bufs st1 = Some (sent, st')"
    "sends written s iv (cs @ ?d @ ds) st'" "sent = concat ds" "length ds \<le> length bufs" "\<forall>c\<in>set ds. length c \<le> 16384"
    using Cons.IH [of "cs @ ?d" st1] unfolding append.assoc by blast
  then have "write_calls grant cb (buf # bufs) st = Some (concat (?d @ ds), st')" using w st by (cases "rl_wrec rl") simp_all
  then show ?case using ih by (intro exI [of _ "concat (?d @ ds)"] exI [of _ st'] exI [of _ "?d @ ds"]) (cases "rl_wrec rl"; simp)
qed

lemma read_calls_receives:
  assumes g: "\<forall>n. grant n" and s: "keyed s" and iv: "length iv = aead_nonce_len aead"
    and src: "byte_source (cb_wire_read cb) stream" "transport_results cb"
  shows "receives stream s iv n cs u st \<Longrightarrow>
    \<exists>got st' n' cs'. read_calls grant cb ks st = Some (got, st') \<and> receives stream s iv n' cs' u st' \<and> plain cs st = got @ plain cs' st'"
proof (induction ks arbitrary: n cs st)
  case Nil
  then show ?case by auto
next
  case (Cons k ks)
  obtain ret buf st1 n1 cs1 where r: "tls13_read_application_data grant cb k st = Some (ret, buf, st1)"
    "receives stream s iv n1 cs1 u st1" "plain cs st = buf @ plain cs1 st1" "ret \<le> 0 \<longrightarrow> buf = []"
    using read_receives [OF g Cons.prems s iv src] by metis
  from Cons.IH [OF r(2)] obtain got st' n' cs' where "read_calls grant cb ks st1 = Some (got, st')"
    "receives stream s iv n' cs' u st'" "plain cs1 st1 = got @ plain cs' st'" by blast
  then show ?case using r by (intro exI [of _ "buf @ got"] exI [of _ st'] exI [of _ n'] exI [of _ cs']) (auto split: if_splits)
qed

lemma drained_plain:
  assumes "receives stream s iv n cs [] st" "drained stream st" "keyed s"
  shows "plain cs st = []"
proof -
  obtain rl w where st: "st = (rl, w)" by force
  have "wire_from s iv n cs = []" using assms(1,2) st by (auto simp: receives_def drained_def split: option.splits)
  moreover have "wire_record s iv n t c \<noteq> []" for t c using length_wire_record [OF assms(3), of iv n t c] by (metis add_is_0 list.size(3) zero_neq_numeral)
  ultimately have "cs = []" by (cases cs) simp_all
  moreover have "cbs_data (rl_rbuf_cbs rl) = []"
    using assms(1,2) st
    by (auto simp: receives_def drained_def tls13_pending_application_data_def tls13_record_layer_pending_def CBS_len_def split: if_splits)
  ultimately show ?thesis using st by (simp add: plain_def)
qed

end

text \<open>A transport in memory, for an application that uses the notifications for nothing.\<close>

definition pipe_callbacks :: "('s, 'c, bytes) tls13_record_layer_callbacks" where
  "pipe_callbacks = \<lparr>cb_wire_read = (\<lambda>w n. (int (min n (length w)), take n w, drop n w)),
     cb_wire_write = (\<lambda>w bs. (int (length bs), w @ bs)), cb_alert_recv = (\<lambda>d st. st), cb_alert_sent = (\<lambda>d st. st),
     cb_phh_recv = None, cb_phh_sent = (\<lambda>st. st)\<rparr>"

lemma pipe_results: "transport_results pipe_callbacks"
  by (simp add: transport_results_def pipe_callbacks_def)

interpretation pipe_source: byte_source "cb_wire_read pipe_callbacks" "\<lambda>w. w"
  by unfold_locales (auto simp: pipe_callbacks_def min_def split: if_splits)

interpretation pipe_sink: byte_sink "cb_wire_write pipe_callbacks" "\<lambda>w. w"
  by unfold_locales (auto simp: pipe_callbacks_def)

context traffic_keys
begin

lemma established:
  assumes "\<forall>n. grant n"
  shows "\<exists>rl. established_writer grant aead md secret = Some rl" "\<exists>rl. established_reader grant aead md secret = Some rl"
proof -
  obtain rp log where "tls13_record_layer_set_traffic_key grant [] aead md tls13_record_protection_new secret = (True, rp, log)"
    using set_traffic_key [OF assms] by metis
  then show "\<exists>rl. established_writer grant aead md secret = Some rl" "\<exists>rl. established_reader grant aead md secret = Some rl"
    using assms by (simp_all add: established_writer_def established_reader_def tls13_record_layer_new_def tls13_record_layer_set_aead_def
        tls13_record_layer_set_hash_def tls13_record_layer_set_read_traffic_key_def tls13_record_layer_set_write_traffic_key_def)
qed

lemma writer_sends:
  assumes "\<forall>n. grant n" "established_writer grant aead md secret = Some rl" "written w = []"
  shows "sends written (traffic_state secret) (traffic_iv secret) [] (rl, w)"
proof -
  obtain rp log where "tls13_record_layer_set_traffic_key grant [] aead md tls13_record_protection_new secret = (True, rp, log)"
    "protects aead (traffic_state secret) (traffic_iv secret) 0 rp"
    using set_traffic_key [OF assms(1)] by metis
  then show ?thesis
    using assms by (auto simp: established_writer_def tls13_record_layer_new_def tls13_record_layer_set_aead_def tls13_record_layer_set_hash_def
        tls13_record_layer_set_write_traffic_key_def tls13_record_layer_handshake_completed_def sends_def)
qed

lemma reader_receives:
  assumes "\<forall>n. grant n" "established_reader grant aead md secret = Some rl"
    and "stream w @ u = wire_from (traffic_state secret) (traffic_iv secret) 0 cs" "\<forall>c\<in>set cs. length c \<le> 16384" "length cs < 2 ^ 64"
  shows "receives stream (traffic_state secret) (traffic_iv secret) 0 cs u (rl, w)" "plain cs (rl, w) = concat cs"
proof -
  obtain rp log where rp: "tls13_record_layer_set_traffic_key grant [] aead md tls13_record_protection_new secret = (True, rp, log)"
    "protects aead (traffic_state secret) (traffic_iv secret) 0 rp"
    using set_traffic_key [OF assms(1)] by metis
  show "receives stream (traffic_state secret) (traffic_iv secret) 0 cs u (rl, w)" "plain cs (rl, w) = concat cs"
    using rp assms by (auto simp: established_reader_def tls13_record_layer_new_def tls13_record_layer_set_aead_def tls13_record_layer_set_hash_def
        tls13_record_layer_set_read_traffic_key_def tls13_record_layer_handshake_completed_def receives_def plain_def CBS_init_def)
qed

lemma stream_delivered:
  assumes g: "\<forall>n. grant n"
    and est: "established_writer grant aead md secret = Some wrl" "established_reader grant aead md secret = Some rrl"
    and sink: "byte_sink (cb_wire_write wcb) written" "transport_results wcb"
    and src: "byte_source (cb_wire_read rcb) stream" "transport_results rcb"
    and w0: "written w0 = []" and n: "length bufs + 1 < 2 ^ 64"
  shows "\<exists>sent wst. write_calls grant wcb bufs (wrl, w0) = Some (sent, wst)
    \<and> (prefix (stream v0) (written (snd wst)) \<longrightarrow>
        (\<exists>got rst. read_calls grant rcb ks (rrl, v0) = Some (got, rst) \<and> prefix got sent
           \<and> (stream v0 = written (snd wst) \<and> rl_wrec (fst wst) = None \<and> drained stream rst \<longrightarrow> got = sent)))"
proof -
  let ?s = "traffic_state secret" let ?iv = "traffic_iv secret"
  note k = traffic_state_keyed [of secret] traffic_iv_length [of secret]
  obtain sent wst ds where w: "write_calls grant wcb bufs (wrl, w0) = Some (sent, wst)" "sends written ?s ?iv ds wst" "sent = concat ds"
    "length ds \<le> length bufs" "\<forall>c\<in>set ds. length c \<le> 16384"
    using write_calls_sends [OF g k sink writer_sends [of grant secret wrl written, OF g est(1) w0], of bufs] n by auto
  obtain x where x: "written (snd wst) @ x = wire_from ?s ?iv 0 ds" "rl_wrec (fst wst) = None \<Longrightarrow> x = []"
    using w(2) by (cases wst) (auto simp: sends_def split: option.splits)
  have "\<exists>got rst. read_calls grant rcb ks (rrl, v0) = Some (got, rst) \<and> prefix got sent
      \<and> (stream v0 = written (snd wst) \<and> rl_wrec (fst wst) = None \<and> drained stream rst \<longrightarrow> got = sent)"
    if "written (snd wst) = stream v0 @ y" for y
  proof -
    have u: "stream v0 @ (y @ x) = wire_from ?s ?iv 0 ds" using x(1) that by simp
    note rr = reader_receives [of grant secret rrl stream, OF g est(2) u w(5)]
    have m: "length ds < 2 ^ 64" using w(4) n by simp
    from read_calls_receives [OF g k src rr(1) [OF m], of ks] obtain got rst n' cs' where r: "read_calls grant rcb ks (rrl, v0) = Some (got, rst)"
      "receives stream ?s ?iv n' cs' (y @ x) rst" "plain ds (rrl, v0) = got @ plain cs' rst" by blast
    then have "sent = got @ plain cs' rst" using rr(2) [OF m] w(3) by simp
    moreover have "plain cs' rst = []" if "stream v0 = written (snd wst)" "rl_wrec (fst wst) = None" "drained stream rst"
      using drained_plain [of stream ?s ?iv n' cs' rst] that r(2) x(2) k \<open>written (snd wst) = stream v0 @ y\<close> by simp
    ultimately show ?thesis using r(1) by auto
  qed
  then show ?thesis using w(1) unfolding prefix_def by blast
qed

end


section \<open>Properties\<close>



end
