(* ===== verification/Tls13_Record_Loops.thy ===== *)
theory Tls13_Record_Loops
  imports Tls13_Record_Stream
begin

text \<open>
  The loops of the record layer. The calls of the interface return, because every round of a loop uses up bytes of the source, of the
  record that was opened or of the queue of post-handshake messages. The locale \<open>record_host\<close> says what the callbacks have to respect; the
  theory \<^verbatim>\<open>Tls13_Lib_Host\<close> shows that those of \<^verbatim>\<open>ssl/tls13_lib.c\<close> do.
\<close>

section \<open>What the callbacks may do\<close>

text \<open>The bytes that may still become records: those of the record under way and those of the source. A record that is
  complete but was rejected stays where it is and blocks the reader.\<close>

definition rrec_ok :: "('s, 'c) tls13_record_layer \<Rightarrow> bool" where
  "rrec_ok rl \<longleftrightarrow> (case rl_rrec rl of None \<Rightarrow> True | Some rrec \<Rightarrow> rec_data rrec \<noteq> None \<or> record_inv rrec)"

definition backlog :: "('w \<Rightarrow> bytes) \<Rightarrow> ('s, 'c, 'w) rl_state \<Rightarrow> nat" where
  "backlog stream st = length (stream (snd st)) + (case rl_rrec (fst st) of None \<Rightarrow> 0 | Some rrec \<Rightarrow> length (record_held rrec))"

definition tame :: "('w \<Rightarrow> bytes) \<Rightarrow> ('s, 'c, 'w) rl_state \<Rightarrow> ('s, 'c, 'w) rl_state \<Rightarrow> bool" where
  "tame stream st st' \<longleftrightarrow> (rrec_ok (fst st) \<longrightarrow> rrec_ok (fst st') \<and> backlog stream st' \<le> backlog stream st)"

lemma tame_refl [simp]: "tame stream st st"
  by (simp add: tame_def)

lemma tame_trans: "tame stream st st' \<Longrightarrow> tame stream st' st'' \<Longrightarrow> tame stream st st''"
  by (auto simp: tame_def)

lemma tame_same: "rl_rrec (fst st') = rl_rrec (fst st) \<Longrightarrow> stream (snd st') = stream (snd st) \<Longrightarrow> tame stream st st'"
  by (simp add: tame_def rrec_ok_def backlog_def)

locale record_host =
  fixes cb :: "('s, 'c, 'w) tls13_record_layer_callbacks" and stream :: "'w \<Rightarrow> bytes"
  assumes source: "byte_source (cb_wire_read cb) stream" and results: "transport_results cb"
    and write_stream: "cb_wire_write cb w bs = (ret, w') \<Longrightarrow> stream w' = stream w"
    and alert_recv_tame: "tame stream st (cb_alert_recv cb d st)"
    and alert_sent_tame: "tame stream st (cb_alert_sent cb d st)" "rl_rbuf_cbs (fst (cb_alert_sent cb d st)) = rl_rbuf_cbs (fst st)"
    and phh_sent_tame: "tame stream st (cb_phh_sent cb st)" "rl_rbuf_cbs (fst (cb_phh_sent cb st)) = rl_rbuf_cbs (fst st)"
    and phh_recv_tame: "cb_phh_recv cb = Some f \<Longrightarrow> f st = (ret, st') \<Longrightarrow> tame stream st st'"
begin

lemma send_loop_stream: "send_loop (cb_wire_write cb) cbs w = (r, cbs', w') \<Longrightarrow> stream w' = stream w"
proof (induction "CBS_len cbs" arbitrary: cbs w rule: less_induct)
  case less
  show ?case
  proof (cases "CBS_len cbs = 0")
    case True
    then show ?thesis using less.prems by (simp add: send_loop.simps [of _ cbs w])
  next
    case False
    obtain x v where x: "cb_wire_write cb w (CBS_data cbs) = (x, v)" by force
    obtain y c where y: "CBS_skip cbs (nat x) = (y, c)" by force
    have "CBS_len c < CBS_len cbs" if "0 < x" "y \<noteq> None"
      using y that False by (auto simp: CBS_skip_def cbs_get_def CBS_len_def split: if_splits)
    then show ?thesis
      using less x y False write_stream [OF x] by (cases y) (auto simp: send_loop.simps [of _ cbs w] split: if_splits)
  qed
qed

lemma record_send_effect:
  "tls13_record_send (cb_wire_write cb) rcd w = (ret, rcd', w') \<Longrightarrow> ret \<noteq> TLS13_IO_WANT_RETRY \<and> stream w' = stream w"
  using record_send_result [OF _ results, of rcd w ret rcd' w']
  by (auto simp: tls13_record_send_def split: if_splits prod.splits option.splits dest: send_loop_stream)

lemma write_new_record_result:
  "write_new_record grant cb t content (rl, w) = (ret, rl', w') \<Longrightarrow> ret \<noteq> TLS13_IO_WANT_RETRY \<and> stream w' = stream w"
  by (auto simp: write_new_record_def Let_def split: if_splits prod.splits option.splits bool.splits
      dest!: record_send_effect)

lemma write_record_result:
  "tls13_record_layer_write_record grant cb t content (rl, w) = (ret, rl', w') \<Longrightarrow> ret \<noteq> TLS13_IO_WANT_RETRY \<and> stream w' = stream w"
  by (auto simp: tls13_record_layer_write_record_def Let_def split: if_splits prod.splits option.splits
      dest!: write_new_record_result record_send_effect)

lemma write_chunk_result:
  "tls13_record_layer_write_chunk grant cb t buf (rl, w) = (ret, rl', w') \<Longrightarrow> ret \<noteq> TLS13_IO_WANT_RETRY \<and> stream w' = stream w"
  unfolding tls13_record_layer_write_chunk_def by (rule write_record_result)

text \<open>Sending what is queued leaves the reading side alone; the only reason to be called again is that a part of the
  post-handshake messages has left.\<close>

definition side_effect :: "('s, 'c, 'w) rl_state \<Rightarrow> ('s, 'c, 'w) rl_state \<Rightarrow> bool" where
  "side_effect st st' \<longleftrightarrow> tame stream st st' \<and> rl_rbuf_cbs (fst st') = rl_rbuf_cbs (fst st)"

lemma side_effect_refl [simp]: "side_effect st st"
  by (simp add: side_effect_def)

lemma side_effect_trans: "side_effect st st' \<Longrightarrow> side_effect st' st'' \<Longrightarrow> side_effect st st''"
  using tame_trans by (simp add: side_effect_def) blast

lemma side_effect_same:
  "rl_rrec (fst st') = rl_rrec (fst st) \<Longrightarrow> rl_rbuf_cbs (fst st') = rl_rbuf_cbs (fst st) \<Longrightarrow> stream (snd st') = stream (snd st) \<Longrightarrow> side_effect st st'"
  by (simp add: side_effect_def tame_same)

lemma side_effect_notify:
  "side_effect st st' \<Longrightarrow> side_effect st (cb_alert_sent cb d st')" "side_effect st st' \<Longrightarrow> side_effect st (cb_phh_sent cb st')"
  using tame_trans alert_sent_tame phh_sent_tame by (simp_all add: side_effect_def) blast+

lemma send_alert_effect:
  assumes "tls13_record_layer_send_alert grant cb st = (ret, st')"
  shows "ret \<noteq> TLS13_IO_WANT_RETRY \<and> side_effect st st'"
proof -
  obtain r rl w where w: "tls13_record_layer_write_record grant cb SSL3_RT_ALERT (case rl_alert_data (fst st) of None \<Rightarrow> [] | Some d \<Rightarrow> d) (fst st, snd st) = (r, rl, w)"
    by (metis prod_cases3)
  note r = write_record_result [OF w] writes_only_same [OF writes_only_write_record [OF w]]
  then have "side_effect st (rl, w)" "side_effect st (rl\<lparr>rl_alert_data := None\<rparr>, w)" "side_effect st (rl\<lparr>rl_alert_data := None, rl_write_closed := True\<rparr>, w)"
    "side_effect st (rl\<lparr>rl_alert_data := None, rl_read_closed := True, rl_write_closed := True\<rparr>, w)"
    by (simp_all add: side_effect_same)
  then show ?thesis
    using assms w r(1)
    by (auto simp: tls13_record_layer_send_alert_def Let_def side_effect_notify split: if_splits)
qed

lemma send_phh_effect:
  assumes "tls13_record_layer_send_phh grant cb st = (ret, st')"
  shows "side_effect st st'"
    and "ret = TLS13_IO_WANT_RETRY \<Longrightarrow> length (cbs_data (rl_phh_cbs (fst st'))) < length (cbs_data (rl_phh_cbs (fst st)))"
proof -
  obtain r rl w where w: "tls13_record_layer_write_chunk grant cb SSL3_RT_HANDSHAKE (CBS_data (rl_phh_cbs (fst st))) (fst st, snd st) = (r, rl, w)"
    by (metis prod_cases3)
  note r = write_chunk_result [OF w] writes_only_same [OF writes_only_write_chunk [OF w]]
  then have "side_effect st (rl, w)" "side_effect st (rl\<lparr>rl_phh_cbs := c\<rparr>, w)" "side_effect st (rl\<lparr>rl_phh_cbs := c, rl_phh_data := None\<rparr>, w)"
    "side_effect st (rl\<lparr>rl_phh_data := None, rl_phh_cbs := c\<rparr>, w)" for c
    by (simp_all add: side_effect_same)
  then show "side_effect st st'"
    using assms w
    by (auto simp: tls13_record_layer_send_phh_def Let_def side_effect_notify split: if_splits prod.splits option.splits)
  show "length (cbs_data (rl_phh_cbs (fst st'))) < length (cbs_data (rl_phh_cbs (fst st)))" if "ret = TLS13_IO_WANT_RETRY"
    using assms w r that
    by (auto simp: tls13_record_layer_send_phh_def Let_def CBS_skip_def cbs_get_def CBS_len_def split: if_splits prod.splits option.splits)
qed

lemma send_pending_effect:
  assumes "tls13_record_layer_send_pending grant cb st = (ret, st')"
  shows "side_effect st st'"
    and "ret = TLS13_IO_WANT_RETRY \<Longrightarrow> length (cbs_data (rl_phh_cbs (fst st'))) < length (cbs_data (rl_phh_cbs (fst st)))"
  using assms send_alert_effect [of grant st ret st'] send_phh_effect [of grant st ret st']
  by (auto simp: tls13_record_layer_send_pending_def Let_def split: option.splits if_splits)

lemma enqueue_alert_effect:
  assumes "tls13_record_layer_enqueue_alert grant cb l d st = (ret, st')"
  shows "side_effect st st'"
proof -
  have q: "side_effect (rl, w) st'" if "tls13_record_layer_send_pending grant cb (rl\<lparr>rl_alert_data := a, rl_alert_level := l, rl_alert_desc := d\<rparr>, w) = (ret, st')" for rl w a
    by (rule side_effect_trans [OF _ send_pending_effect(1) [OF that]]) (simp add: side_effect_same)
  show ?thesis
    using assms by (auto simp: tls13_record_layer_enqueue_alert_def split: prod.splits if_splits option.splits dest: q)
qed

lemma tls13_send_alert_effect:
  "tls13_send_alert grant cb d st = (ret, st') \<Longrightarrow> ret \<noteq> TLS13_IO_WANT_RETRY \<and> side_effect st st'"
proof (induction "if rl_alert_data (fst st) = None then 1 else 0 :: nat" arbitrary: st rule: less_induct)
  case less
  let ?l = "if d = 0 \<or> d = 90 then 1 else 2"
  obtain r st1 where q: "tls13_record_layer_enqueue_alert grant cb ?l d st = (r, st1)" by (meson surj_pair)
  note e = enqueue_alert_effect [OF q]
  show ?case
  proof (cases "r = TLS13_IO_WANT_RETRY")
    case True
    have "rl_alert_data (fst st) = None" "rl_alert_data (fst st1) \<noteq> None"
      using enqueue_alert_retry [of grant cb ?l d "fst st" "snd st" "fst st1" "snd st1"] q True by simp_all
    moreover have "tls13_send_alert grant cb d st1 = (ret, st')"
      using less.prems q True by (simp add: tls13_send_alert.simps [of _ _ _ st])
    ultimately show ?thesis using less.hyps [of st1] side_effect_trans [OF e] by simp
  next
    case False
    then show ?thesis using less.prems q e by (simp add: tls13_send_alert.simps [of _ _ _ st])
  qed
qed

text \<open>Reading a record: the bytes of a record that was taken from the source are gone when the record layer asks to be called again or
  has got new content.\<close>

lemma open_record_rrec: "tls13_record_layer_open_record grant rl = (ok, rl') \<Longrightarrow> rl_rrec rl' = rl_rrec rl"
  by (auto simp: tls13_record_layer_open_record_def tls13_record_layer_open_record_plaintext_def tls13_record_layer_open_record_protected_def
      open_inner_def tls13_record_layer_rbuf_free_def Let_def split: if_splits option.splits prod.splits bool.splits)

lemma open_record_fails:
  "tls13_record_layer_open_record grant rl = (False, rl') \<Longrightarrow> cbs_data (rl_rbuf_cbs rl) = [] \<Longrightarrow> cbs_data (rl_rbuf_cbs rl') = []"
  by (auto simp: tls13_record_layer_open_record_def tls13_record_layer_open_record_plaintext_def tls13_record_layer_open_record_protected_def
      open_inner_def tls13_record_layer_rbuf_free_def CBS_init_def Let_def split: if_splits option.splits prod.splits bool.splits)

lemma record_recv_effect:
  assumes rc: "tls13_record_recv grant (cb_wire_read cb) rrec w = (ret, rrec', w')" and ok: "rec_data rrec \<noteq> None \<or> record_inv rrec"
  shows "(rec_data rrec' \<noteq> None \<or> record_inv rrec') \<and> length (record_held rrec') + length (stream w') = length (record_held rrec) + length (stream w)
    \<and> (0 < ret \<longrightarrow> record_held rrec' \<noteq> [])"
proof (cases "rec_data rrec = None")
  case False
  then show ?thesis using rc by (simp add: tls13_record_recv_def)
next
  case True
  then have inv: "record_inv rrec" using ok by simp
  note sp = byte_source.record_recv_spec [OF source rc inv]
  have "length (record_held rrec') + length (stream w') = length (record_held rrec) + length (stream w)"
    using sp by (metis length_append)
  moreover have "rec_data rrec' \<noteq> None \<and> record_held rrec' \<noteq> []" if r: "0 < ret"
  proof -
    have "ret = int (length (record_held rrec'))" "rec_data rrec' \<noteq> None" using sp r by blast+
    then show ?thesis using r by auto
  qed
  moreover have "\<not> 0 < ret \<Longrightarrow> record_inv rrec'" using sp by simp
  ultimately show ?thesis by blast
qed

lemma record_recv_no_retry:
  assumes "tls13_record_recv grant (cb_wire_read cb) rrec w = (ret, rrec', w')"
  shows "ret \<noteq> TLS13_IO_WANT_RETRY"
proof
  assume r: "ret = TLS13_IO_WANT_RETRY"
  have x: False if "tls13_buffer_extend grant (cb_wire_read cb) buf (n + 5) v = (TLS13_IO_WANT_RETRY, buf', v')" for buf n v buf' v'
    using buffer_extend_result [OF that] results unfolding transport_results_def by (auto, (metis fst_conv insertCI)+)
  show False
    using assms r x [of _ 0] x
    by (auto simp: tls13_record_recv_def record_recv_header_def record_recv_payload_def Let_def add.commute
        split: if_splits prod.splits option.splits)
qed

lemma process_alert_tame:
  assumes "tls13_record_layer_process_alert grant cb st = (ret, st')"
  shows "tame stream st st'"
proof -
  have e: "tame stream (rl, w) st'" if "tls13_send_alert grant cb d (rl', w) = (ret, st')" "rl_rrec rl' = rl_rrec rl" for rl rl' w d
    using tls13_send_alert_effect [OF that(1)] tame_trans [OF tame_same [of "(rl', w)" "(rl, w)"]] that(2) by (simp add: side_effect_def)
  have r: "tame stream (rl, w) (cb_alert_recv cb d (rl', w))" if "rl_rrec rl' = rl_rrec rl" for rl rl' w d
    using tame_trans [OF tame_same [of "(rl', w)" "(rl, w)"] alert_recv_tame] that by simp
  show ?thesis
    using assms
    by (auto simp: tls13_record_layer_process_alert_def Let_def tls13_record_layer_rbuf_free_def r e intro: tame_same
        split: prod.splits if_splits option.splits)
qed

lemma read_opened_tame:
  assumes "read_opened grant cb st = (ret, st')"
  shows "tame stream st st'"
  using assms process_alert_tame tls13_send_alert_effect
  by (auto simp: read_opened_def Let_def side_effect_def split: if_splits)

lemma read_record_effect:
  assumes rd: "tls13_record_layer_read_record grant cb st = (ret, st')" and ok: "rrec_ok (fst st)" and e: "cbs_data (rl_rbuf_cbs (fst st)) = []"
  shows "tame stream st st' \<and> (ret = TLS13_IO_WANT_RETRY \<or> cbs_data (rl_rbuf_cbs (fst st')) \<noteq> [] \<longrightarrow> backlog stream st' < backlog stream st)"
proof (cases "case rl_rrec (fst st) of None \<Rightarrow> tls13_record_new grant | Some rrec \<Rightarrow> Some rrec")
  case None
  then show ?thesis using rd e by (auto simp: tls13_record_layer_read_record_def split: prod.splits)
next
  case (Some rrec)
  obtain rl w where st: "st = (rl, w)" by force
  obtain r rrec' w1 where rc: "tls13_record_recv grant (cb_wire_read cb) rrec w = (r, rrec', w1)" by (metis prod_cases3)
  have ok': "rec_data rrec \<noteq> None \<or> record_inv rrec" "length (record_held rrec) + length (stream w) = backlog stream st"
    using Some ok st by (auto simp: rrec_ok_def backlog_def tls13_record_new_def record_inv_def record_held_def dest!: buffer_new_ok split: option.splits)
  note rs = record_recv_effect [OF rc ok'(1)] record_recv_no_retry [OF rc]
  let ?s1 = "(rl\<lparr>rl_rrec := Some rrec'\<rparr>, w1)"
  have t1: "tame stream st ?s1" using rs ok'(2) by (simp add: tame_def rrec_ok_def backlog_def)
  have alert: ?thesis if "tls13_send_alert grant cb d ?s1 = (ret, st')" for d
    using tls13_send_alert_effect [OF that] tame_trans [OF t1] e st by (simp add: side_effect_def)
  have gone: "backlog stream (rl', w1) < backlog stream st" "tame stream st (rl', w1)" if "0 < r" "rl_rrec rl' = None" for rl' :: "('s, 'c) tls13_record_layer"
  proof -
    have "0 < length (record_held rrec')" "length (record_held rrec') + length (stream w1) = backlog stream st" using rs ok'(2) that(1) by simp_all
    then have "length (stream w1) < backlog stream st" by linarith
    then show "backlog stream (rl', w1) < backlog stream st" "tame stream st (rl', w1)"
      using that(2) by (simp_all add: backlog_def [of stream "(rl', w1)"] tame_def rrec_ok_def)
  qed
  have ccs: ?thesis if "read_ccs grant cb rrec' ?s1 = (ret, st')" "0 < r"
    using that alert gone [OF that(2)] by (auto simp: read_ccs_def tls13_record_layer_rrec_free_def split: if_splits option.splits prod.splits)
  have opened: ?thesis if "read_opened grant cb (tls13_record_layer_rrec_free rl', w1) = (ret, st')" "0 < r" for rl'
  proof -
    have g: "backlog stream (tls13_record_layer_rrec_free rl', w1) < backlog stream st" "tame stream st (tls13_record_layer_rrec_free rl', w1)"
      by (rule gone [OF that(2)], simp add: tls13_record_layer_rrec_free_def)+
    then show ?thesis using read_opened_tame [OF that(1)] tame_trans [OF g(2)] by (auto simp: tame_def rrec_ok_def tls13_record_layer_rrec_free_def)
  qed
  have failed: ?thesis if "tls13_record_layer_open_record grant (rl\<lparr>rl_rrec := Some rrec'\<rparr>) = (False, rl')" "ret = TLS13_IO_FAILURE" "st' = (rl', w1)" for rl'
    using open_record_rrec [OF that(1)] open_record_fails [OF that(1)] tame_trans [OF t1, of "(rl', w1)"] e st that by (simp add: tame_same)
  show ?thesis
  proof (cases "0 < r")
    case False
    then show ?thesis using rd st Some rc rs(2) alert t1 e
      by (auto simp: tls13_record_layer_read_record_def Let_def split: if_splits)
  next
    case True
    then show ?thesis using rd st Some rc alert ccs opened failed
      by (auto simp: tls13_record_layer_read_record_def Let_def split: if_splits prod.splits bool.splits)
  qed
qed


text \<open>A round of the reading loop, and the three loops.\<close>

abbreviation rounds :: "(('s, 'c, 'w) rl_state \<times> ('s, 'c, 'w) rl_state) set" where
  "rounds \<equiv> measures [backlog stream, \<lambda>st. length (cbs_data (rl_rbuf_cbs (fst st))), \<lambda>st. length (cbs_data (rl_phh_cbs (fst st)))]"

lemma recv_phh_effect:
  assumes "tls13_record_layer_recv_phh cb st = (ret, st')"
  shows "tame stream st st'" "cbs_data (rl_rbuf_cbs (fst st')) = []"
proof -
  obtain rl w where st: "st = (rl, w)" by force
  let ?s = "(rl\<lparr>rl_phh := True\<rparr>, w)"
  obtain r rl1 w1 where c: "(case cb_phh_recv cb of None \<Rightarrow> (TLS13_IO_FAILURE, ?s) | Some f \<Rightarrow> f ?s) = (r, rl1, w1)" by (metis prod_cases3)
  have "tame stream ?s (rl1, w1)" using c phh_recv_tame by (auto split: option.splits)
  then have "tame stream st (rl1, w1)" using tame_trans [OF tame_same [of ?s st]] st by simp
  moreover have "rl_rrec (fst st') = rl_rrec rl1" "snd st' = w1" "cbs_data (rl_rbuf_cbs (fst st')) = []"
    using assms st c by (auto simp: tls13_record_layer_recv_phh_def Let_def tls13_record_layer_rbuf_free_def CBS_init_def split: if_splits)
  ultimately show "tame stream st st'" "cbs_data (rl_rbuf_cbs (fst st')) = []"
    using tame_trans [OF _ tame_same [of st' "(rl1, w1)"]] by simp_all
qed

lemma read_deliver_effect:
  assumes "read_deliver grant cb t n peek st = (ret, buf, st')"
  shows "tame stream st st'"
    and "ret = TLS13_IO_WANT_RETRY \<Longrightarrow> cbs_data (rl_rbuf_cbs (fst st')) = []"
proof -
  have s: "tame stream st st'" "ret \<noteq> TLS13_IO_WANT_RETRY" if "tls13_send_alert grant cb d st = (ret, st')" for d
    using tls13_send_alert_effect [OF that] by (simp_all add: side_effect_def)
  have c: "tame stream (rl, w) (rl\<lparr>rl_rbuf_cbs := x\<rparr>, w)" "tame stream (rl, w) (tls13_record_layer_rbuf_free rl, w)"
    "tame stream (rl, w) (tls13_record_layer_rbuf_free (rl\<lparr>rl_rbuf_cbs := x\<rparr>), w)" for rl w x
    by (simp_all add: tame_same tls13_record_layer_rbuf_free_def)
  show "tame stream st st'"
    using assms s(1) recv_phh_effect(1) c by (auto simp: read_deliver_def Let_def split: prod.splits if_splits bool.splits)
  show "cbs_data (rl_rbuf_cbs (fst st')) = []" if "ret = TLS13_IO_WANT_RETRY"
    using assms s(2) recv_phh_effect(2) that by (auto simp: read_deliver_def Let_def split: prod.splits if_splits bool.splits)
qed

lemma read_round:
  assumes rd: "tls13_record_layer_read_internal grant cb t n peek st = (TLS13_IO_WANT_RETRY, buf, st')" and ok: "rrec_ok (fst st)"
  shows "(st', st) \<in> rounds \<and> rrec_ok (fst st')"
proof -
  obtain r st1 where p: "tls13_record_layer_send_pending grant cb st = (r, st1)" by (meson surj_pair)
  note pe = send_pending_effect [OF p]
  then have ok1: "rrec_ok (fst st1)" "backlog stream st1 \<le> backlog stream st" "rl_rbuf_cbs (fst st1) = rl_rbuf_cbs (fst st)"
    using ok by (simp_all add: side_effect_def tame_def)
  show ?thesis
  proof (cases "r = TLS13_IO_SUCCESS")
    case False
    then show ?thesis using rd p pe ok1 by (auto simp: tls13_record_layer_read_internal_def)
  next
    case True
    obtain f st2 where fl: "read_fill grant cb st1 = (f, st2)" by (meson surj_pair)
    have rd2: "case f of Some x \<Rightarrow> x = TLS13_IO_WANT_RETRY \<and> st' = st2 | None \<Rightarrow> read_deliver grant cb t n peek st2 = (TLS13_IO_WANT_RETRY, buf, st')"
      using rd p True fl by (auto simp: tls13_record_layer_read_internal_def split: if_splits option.splits)
    show ?thesis
    proof (cases "cbs_data (rl_rbuf_cbs (fst st1)) = []")
      case False
      then have "f = None" "st2 = st1" using fl by (auto simp: read_fill_def CBS_len_def)
      then have d: "read_deliver grant cb t n peek st1 = (TLS13_IO_WANT_RETRY, buf, st')" using rd2 by simp
      from read_deliver_effect [OF d] show ?thesis using ok1 False by (auto simp: tame_def)
    next
      case e: True
      obtain x st3 where rr: "tls13_record_layer_read_record grant cb st1 = (x, st3)" by (meson surj_pair)
      note re = read_record_effect [OF rr ok1(1) e]
      have b3: "rrec_ok (fst st3)" using re ok1(1) by (simp add: tame_def)
      have "f = Some x \<and> st2 = st3 \<or> f = Some TLS13_IO_WANT_POLLIN \<or> f = None \<and> st2 = st3 \<and> cbs_data (rl_rbuf_cbs (fst st3)) \<noteq> []"
        using fl rr e by (cases st3) (auto simp: read_fill_def CBS_len_def split: if_splits)
      then show ?thesis
      proof (elim disjE conjE)
        assume "f = Some x" "st2 = st3"
        then show ?thesis using rd2 re ok1 b3 by auto
      next
        assume "f = None" "st2 = st3" "cbs_data (rl_rbuf_cbs (fst st3)) \<noteq> []"
        then have d: "read_deliver grant cb t n peek st3 = (TLS13_IO_WANT_RETRY, buf, st')" and lt: "backlog stream st3 < backlog stream st1" using rd2 re by auto
        have "rrec_ok (fst st') \<and> backlog stream st' \<le> backlog stream st3" using read_deliver_effect(1) [OF d] b3 by (simp add: tame_def)
        then show ?thesis using lt ok1(2) by simp
      qed (use rd2 in simp)
    qed
  qed
qed

text \<open>The calls of the interface: they return, and leave no more to read than there was.\<close>

lemma read_internal_tame:
  assumes rd: "tls13_record_layer_read_internal grant cb t n peek st = (ret, buf, st')"
  shows "tame stream st st'"
proof -
  obtain r st1 where p: "tls13_record_layer_send_pending grant cb st = (r, st1)" by (meson surj_pair)
  obtain f st2 where fl: "read_fill grant cb st1 = (f, st2)" by (meson surj_pair)
  obtain x rl3 w3 where rr: "tls13_record_layer_read_record grant cb st1 = (x, rl3, w3)" by (metis prod_cases3)
  have t1: "tame stream st st1" using send_pending_effect(1) [OF p] by (simp add: side_effect_def)
  have "tame stream (rl3, w3) (tls13_record_layer_rbuf_free rl3, w3)" by (simp add: tame_same tls13_record_layer_rbuf_free_def)
  note free = tame_trans [OF _ this, of st1]
  have "tame stream st1 (rl3, w3)" if "cbs_data (rl_rbuf_cbs (fst st1)) = []"
    using read_record_effect [OF rr _ that] by (cases "rrec_ok (fst st1)") (auto simp: tame_def)
  then have "tame stream st1 st2"
    using fl rr free by (auto simp: read_fill_def CBS_len_def split: if_splits)
  then have t2: "tame stream st st2" by (rule tame_trans [OF t1])
  have "st' = st1 \<or> st' = st2 \<or> (\<exists>i b. read_deliver grant cb t n peek st2 = (i, b, st'))"
    using rd p fl by (auto simp: tls13_record_layer_read_internal_def split: if_splits option.splits)
  then show ?thesis using t1 t2 tame_trans [OF t2] read_deliver_effect(1) by blast
qed

lemma read_loop_returns:
  "rrec_ok (fst st) \<Longrightarrow> \<exists>ret buf st'. read_loop grant cb t n peek st = Some (ret, buf, st') \<and> tame stream st st'"
proof (induction st rule: wf_induct_rule [OF wf_measures [of "[backlog stream, \<lambda>st. length (cbs_data (rl_rbuf_cbs (fst st))), \<lambda>st. length (cbs_data (rl_phh_cbs (fst st)))]"]])
  case (1 st)
  obtain ret buf st' where i: "tls13_record_layer_read_internal grant cb t n peek st = (ret, buf, st')" by (metis prod_cases3)
  note t = read_internal_tame [OF i]
  show ?case
  proof (cases "ret = TLS13_IO_WANT_RETRY")
    case True
    then have "(st', st) \<in> rounds \<and> rrec_ok (fst st')" using read_round i 1(2) by blast
    then obtain ret' buf' st'' where "read_loop grant cb t n peek st' = Some (ret', buf', st'')" "tame stream st' st''" using 1(1) [of st'] by blast
    then show ?thesis using tame_trans [OF t] i True by (simp add: read_loop.simps [of _ _ _ _ _ st])
  next
    case False
    then show ?thesis using i t by (simp add: read_loop.simps [of _ _ _ _ _ st])
  qed
qed

lemma read_finish_tame:
  assumes "read_finish grant cb (ret, buf, st) = (ret', buf', st')"
  shows "tame stream st st'"
  using assms tls13_send_alert_effect by (auto simp: read_finish_def side_effect_def split: if_splits prod.splits)

lemma read_returns:
  assumes "rrec_ok (fst st)"
  shows "\<exists>ret buf st'. tls13_record_layer_read grant cb t n st = Some (ret, buf, st') \<and> tame stream st st'"
    "\<exists>ret buf st'. tls13_record_layer_peek grant cb t n st = Some (ret, buf, st') \<and> tame stream st st'"
proof -
  have "\<exists>ret buf st'. map_option (read_finish grant cb) (read_loop grant cb t n p st) = Some (ret, buf, st') \<and> tame stream st st'" for p
  proof -
    obtain ret buf st1 where l: "read_loop grant cb t n p st = Some (ret, buf, st1)" "tame stream st st1"
      using read_loop_returns [OF assms] by blast
    obtain ret' buf' st' where f: "read_finish grant cb (ret, buf, st1) = (ret', buf', st')" by (metis prod_cases3)
    show ?thesis using l f tame_trans [OF l(2) read_finish_tame [OF f]] by simp
  qed
  then show "\<exists>ret buf st'. tls13_record_layer_read grant cb t n st = Some (ret, buf, st') \<and> tame stream st st'"
    "\<exists>ret buf st'. tls13_record_layer_peek grant cb t n st = Some (ret, buf, st') \<and> tame stream st st'"
    by (simp_all add: tls13_record_layer_read_def tls13_record_layer_peek_def)
qed

lemma read_tame: "tls13_record_layer_read grant cb t n st = Some (ret, buf, st') \<Longrightarrow> tame stream st st'"
  using read_returns(1) [of st grant t n] by (cases "rrec_ok (fst st)") (auto simp: tame_def)

lemma pending_loop_tame: "\<exists>ret st'. pending_loop grant cb st = Some (ret, st') \<and> tame stream st st'"
proof (induction "length (cbs_data (rl_phh_cbs (fst st)))" arbitrary: st rule: less_induct)
  case less
  obtain ret st1 where p: "tls13_record_layer_send_pending grant cb st = (ret, st1)" by (meson surj_pair)
  have t: "tame stream st st1" using send_pending_effect(1) [OF p] by (simp add: side_effect_def)
  show ?case
  proof (cases "ret = TLS13_IO_WANT_RETRY")
    case True
    then obtain ret' st' where "pending_loop grant cb st1 = Some (ret', st')" "tame stream st1 st'"
      using less send_pending_effect(2) [OF p] by blast
    then show ?thesis using tame_trans [OF t] p True by (simp add: pending_loop.simps [of _ _ st])
  qed (use p t in \<open>simp add: pending_loop.simps [of _ _ st]\<close>)
qed

lemma write_chunk_tame:
  assumes "tls13_record_layer_write_chunk grant cb t buf st = (ret, st')"
  shows "tame stream st st'" "ret \<noteq> TLS13_IO_WANT_RETRY"
proof -
  have w: "tls13_record_layer_write_chunk grant cb t buf (fst st, snd st) = (ret, fst st', snd st')" using assms by simp
  show "tame stream st st'" "ret \<noteq> TLS13_IO_WANT_RETRY"
    using write_chunk_result [OF w] writes_only_same [OF writes_only_write_chunk [OF w]] by (simp_all add: tame_same)
qed

lemma write_returns: "\<exists>ret st'. tls13_record_layer_write grant cb t buf st = Some (ret, st') \<and> tame stream st st'"
proof -
  obtain ret st1 where p: "pending_loop grant cb st = Some (ret, st1)" "tame stream st st1" using pending_loop_tame by blast
  obtain ret' st' where w: "tls13_record_layer_write_chunk grant cb t buf st1 = (ret', st')" by (meson surj_pair)
  note wt = write_chunk_tame [OF w]
  have "chunk_loop grant cb t buf st1 = Some (ret', st')" using w wt(2) by (simp add: chunk_loop.simps [of _ _ _ _ st1])
  then show ?thesis
    using p tame_trans [OF p(2) wt(1)] by (cases st1; cases st') (simp add: tls13_record_layer_write_def)
qed

lemma phh_effect:
  assumes "tls13_record_layer_phh grant cb cbs st = (ret, st')"
  shows "side_effect st st'"
proof -
  have q: "side_effect (rl, w) st'" if "tls13_record_layer_send_pending grant cb (rl\<lparr>rl_phh_data := a, rl_phh_cbs := c\<rparr>, w) = (ret, st')" for rl w a c
    by (rule side_effect_trans [OF _ send_pending_effect(1) [OF that]]) (simp add: side_effect_same)
  show ?thesis
    using assms by (auto simp: tls13_record_layer_phh_def split: prod.splits if_splits option.splits dest: q)
qed

end

end
