(* ===== verification/Tls13_Record_Alerts.thy ===== *)
theory Tls13_Record_Alerts
  imports Tls13_Record_Loops
begin

text \<open>
  Alerts of the record layer. A record layer that cannot write and that either does not read or has an alert left to send is dead: its calls
  fail, call no callback and leave it dead. A call that returns \<open>TLS13_IO_ALERT\<close> leaves it dead. The locale \<open>alert_host\<close> says what the
  callbacks have to respect; the theory \<^verbatim>\<open>Tls13_Lib_Host\<close> shows that those of \<^verbatim>\<open>ssl/tls13_lib.c\<close> do.
\<close>

section \<open>A dead record layer\<close>

definition dead :: "('s, 'c) tls13_record_layer \<Rightarrow> bool" where
  "dead rl \<longleftrightarrow> rl_write_closed rl \<and> (case rl_alert_data rl of None \<Rightarrow> rl_read_closed rl | Some d \<Rightarrow> d \<noteq> [])"

lemma closed_write [simp]:
  assumes "rl_write_closed rl"
  shows "tls13_record_layer_write_record grant cb t c (rl, w) = (TLS13_IO_EOF, rl, w)"
    "tls13_record_layer_write_chunk grant cb t c (rl, w) = (TLS13_IO_EOF, rl, w)"
  using assms by (simp_all add: tls13_record_layer_write_record_def tls13_record_layer_write_chunk_def)

lemma closed_send [simp]:
  assumes "rl_write_closed rl"
  shows "tls13_record_layer_send_phh grant cb (rl, w) = (TLS13_IO_EOF, rl, w)"
    "rl_alert_data rl = Some d \<Longrightarrow> d \<noteq> [] \<Longrightarrow> tls13_record_layer_send_alert grant cb (rl, w) = (TLS13_IO_ALERT, rl, w)"
  using assms by (simp_all add: tls13_record_layer_send_alert_def tls13_record_layer_send_phh_def Let_def)

lemma dead_send_pending:
  assumes "dead rl"
  shows "\<exists>ret. tls13_record_layer_send_pending grant cb (rl, w) = (ret, rl, w) \<and>
    (ret = TLS13_IO_EOF \<or> ret = TLS13_IO_ALERT \<or> ret = TLS13_IO_SUCCESS \<and> rl_read_closed rl \<and> rl_alert_data rl = None)"
  using assms by (cases "rl_phh_data rl"; cases "rl_alert_data rl") (simp_all add: dead_def tls13_record_layer_send_pending_def)

lemma alert_message_not_empty: "cbb_message grant 0 [Num 1 a, Num 1 b] \<noteq> Some []"
  using cbb_message_sound [of grant 0 "[Num 1 a, Num 1 b]" "[]"] by (auto split: option.splits if_splits)

lemma dead_send_alert:
  assumes "dead rl"
  shows "\<exists>ret rl'. tls13_send_alert grant cb d (rl, w) = (ret, rl', w) \<and> ret \<le> 0 \<and> dead rl'"
proof -
  define l :: u8 where "l = (if d = 0 \<or> d = 90 then 1 else 2)"
  have "\<exists>ret rl'. tls13_record_layer_enqueue_alert grant cb l d (rl, w) = (ret, rl', w) \<and> ret \<le> 0 \<and> ret \<noteq> TLS13_IO_WANT_RETRY \<and> dead rl'"
  proof (cases "rl_alert_data rl = None")
    case True
    show ?thesis
    proof (cases "cbb_message grant 0 [Num 1 (unat l), Num 1 (unat d)]")
      case (Some data)
      let ?rl = "rl\<lparr>rl_alert_data := Some data, rl_alert_level := l, rl_alert_desc := d\<rparr>"
      have dd: "dead ?rl" using assms Some alert_message_not_empty by (auto simp: dead_def)
      show ?thesis using dead_send_pending [OF dd, of grant cb w] True Some dd by (auto simp: tls13_record_layer_enqueue_alert_def)
    qed (use True assms in \<open>simp add: tls13_record_layer_enqueue_alert_def\<close>)
  qed (use assms in \<open>simp add: tls13_record_layer_enqueue_alert_def\<close>)
  then show ?thesis by (auto simp: tls13_send_alert.simps [of _ _ _ "(rl, w)"] l_def Let_def)
qed

lemma dead_read_loop:
  assumes "dead rl"
  shows "\<exists>ret. read_loop grant cb t n peek (rl, w) = Some (ret, [], rl, w) \<and> ret \<le> 0"
proof -
  have "\<exists>i. tls13_record_layer_read_internal grant cb t n peek (rl, w) = (i, [], rl, w) \<and> i \<le> 0 \<and> i \<noteq> TLS13_IO_WANT_RETRY"
    using dead_send_pending [OF assms, of grant cb w] by (auto simp: tls13_record_layer_read_internal_def)
  then show ?thesis by (subst read_loop.simps) auto
qed

lemma dead_read_finish:
  assumes "dead rl" and "ret \<le> 0"
  shows "\<exists>ret' rl'. read_finish grant cb (ret, [], rl, w) = (ret', [], rl', w) \<and> ret' \<le> 0 \<and> dead rl'"
  using dead_send_alert [OF assms(1), of grant cb "rl_alert rl" w] assms by (auto simp: read_finish_def)

lemma dead_write:
  assumes "dead rl"
  shows "\<exists>ret. tls13_record_layer_write grant cb t buf (rl, w) = Some (ret, rl, w) \<and> ret \<le> 0"
proof -
  obtain ret where r: "tls13_record_layer_send_pending grant cb (rl, w) = (ret, rl, w)" "ret = TLS13_IO_EOF \<or> ret = TLS13_IO_ALERT \<or> ret = TLS13_IO_SUCCESS"
    using dead_send_pending [OF assms, of grant cb w] by blast
  then have "pending_loop grant cb (rl, w) = Some (ret, rl, w)" by (subst pending_loop.simps) auto
  moreover have "chunk_loop grant cb t buf (rl, w) = Some (TLS13_IO_EOF, rl, w)"
    using assms by (subst chunk_loop.simps) (simp add: dead_def)
  ultimately show ?thesis using r(2) by (auto simp: tls13_record_layer_write_def)
qed

text \<open>The calls that the rest of the library makes to a record layer.\<close>

datatype rl_call =
    Read u8 nat | Peek u8 nat | Write u8 bytes | Send_alert u8 | Send_phh bytes | Send_pending | Send_dummy_ccs

fun rl_run ::
    "(nat \<Rightarrow> bool) \<Rightarrow> ('s, 'c, 'w) tls13_record_layer_callbacks \<Rightarrow> rl_call \<Rightarrow> ('s, 'c, 'w) rl_state \<Rightarrow> (int \<times> bytes \<times> ('s, 'c, 'w) rl_state) option" where
  "rl_run grant cb (Read t n) st = tls13_record_layer_read grant cb t n st"
| "rl_run grant cb (Peek t n) st = tls13_record_layer_peek grant cb t n st"
| "rl_run grant cb (Write t bs) st = map_option (\<lambda>(ret, st). (ret, [], st)) (tls13_record_layer_write grant cb t bs st)"
| "rl_run grant cb (Send_alert d) st = (case tls13_send_alert grant cb d st of (ret, st) \<Rightarrow> Some (ret, [], st))"
| "rl_run grant cb (Send_phh bs) st = (case tls13_record_layer_phh grant cb (CBS_init bs) st of (ret, st) \<Rightarrow> Some (ret, [], st))"
| "rl_run grant cb Send_pending st = (case tls13_record_layer_send_pending grant cb st of (ret, st) \<Rightarrow> Some (ret, [], st))"
| "rl_run grant cb Send_dummy_ccs st = map_option (\<lambda>(ret, st). (ret, [], st)) (tls13_send_dummy_ccs grant cb st)"

fun rl_runs ::
    "(nat \<Rightarrow> bool) \<Rightarrow> ('s, 'c, 'w) tls13_record_layer_callbacks \<Rightarrow> rl_call list \<Rightarrow> ('s, 'c, 'w) rl_state \<Rightarrow> (bytes \<times> ('s, 'c, 'w) rl_state) option" where
  "rl_runs grant cb [] st = Some ([], st)"
| "rl_runs grant cb (c # cs) st =
     (case rl_run grant cb c st of
        None \<Rightarrow> None
      | Some (ret, buf, st) \<Rightarrow> map_option (\<lambda>(bufs, st). (buf @ bufs, st)) (rl_runs grant cb cs st))"

lemma dead_run:
  assumes "dead rl"
  shows "\<exists>ret rl'. rl_run grant cb c (rl, w) = Some (ret, [], rl', w) \<and> dead rl'"
proof -
  have reads: "\<exists>ret rl'. map_option (read_finish grant cb) (read_loop grant cb t n p (rl, w)) = Some (ret, [], rl', w) \<and> dead rl'" for t n p
  proof -
    obtain i where i: "read_loop grant cb t n p (rl, w) = Some (i, [], rl, w)" "i \<le> 0" using dead_read_loop [OF assms, of grant cb t n p w] by blast
    then show ?thesis using dead_read_finish [OF assms i(2), of grant cb w] by auto
  qed
  obtain p where p: "tls13_record_layer_send_pending grant cb (rl, w) = (p, rl, w)" using dead_send_pending [OF assms, of grant cb w] by blast
  show ?thesis
  proof (cases c)
    case (Write t bs)
    then show ?thesis using dead_write [OF assms, of grant cb t bs w] assms by auto
  next
    case (Send_alert d)
    then show ?thesis using dead_send_alert [OF assms, of grant cb d w] by auto
  next
    case (Send_phh bs)
    have "dead (rl\<lparr>rl_phh_data := a, rl_phh_cbs := b\<rparr>)" for a b using assms by (cases "rl_alert_data rl") (simp_all add: dead_def)
    then have "\<exists>ret rl'. tls13_record_layer_send_pending grant cb (rl\<lparr>rl_phh_data := a, rl_phh_cbs := b\<rparr>, w) = (ret, rl', w) \<and> dead rl'" for a b
      using dead_send_pending [of "rl\<lparr>rl_phh_data := a, rl_phh_cbs := b\<rparr>" grant cb w] by blast
    then have "\<exists>ret rl'. tls13_record_layer_phh grant cb (CBS_init bs) (rl, w) = (ret, rl', w) \<and> dead rl'"
      using assms by (simp add: tls13_record_layer_phh_def split: option.split)
    then show ?thesis using Send_phh by auto
  next
    case Send_dummy_ccs
    obtain ret where "tls13_record_layer_write grant cb 20 tls13_dummy_ccs (rl, w) = Some (ret, rl, w)" "ret \<le> 0" using dead_write [OF assms, of grant cb 20 tls13_dummy_ccs w] by blast
    then show ?thesis using Send_dummy_ccs assms by (cases "rl_ccs_sent rl") (simp_all add: tls13_send_dummy_ccs_def)
  qed (use reads p assms in \<open>simp_all add: tls13_record_layer_read_def tls13_record_layer_peek_def\<close>)
qed

lemma dead_runs: "dead rl \<Longrightarrow> \<exists>rl'. rl_runs grant cb cs (rl, w) = Some ([], rl', w) \<and> dead rl'"
proof (induction cs arbitrary: rl)
  case (Cons c cs)
  obtain ret rl1 where r: "rl_run grant cb c (rl, w) = Some (ret, [], rl1, w)" "dead rl1" using dead_run [OF Cons.prems, of grant cb c w] by blast
  then obtain rl' where "rl_runs grant cb cs (rl1, w) = Some ([], rl', w)" "dead rl'" using Cons.IH by blast
  then show ?case using r by simp
qed simp

section \<open>How a record layer dies\<close>

text \<open>Of the record under way it matters that it is not empty, and that a record of alerts has content: then a result of 0 for a record of
  alerts means that the writing side is closed.\<close>

definition alert_ok :: "('s, 'c) tls13_record_layer \<Rightarrow> bool" where
  "alert_ok rl \<longleftrightarrow> (rl_wrec_content_type rl = SSL3_RT_ALERT \<longrightarrow> 0 < rl_wrec_content_len rl) \<and> rl_alert_data rl \<noteq> Some []
     \<and> (\<forall>wrec. rl_wrec rl = Some wrec \<longrightarrow> rec_data wrec = None \<or> 0 < rec_data_len wrec)"

definition survives :: "int \<Rightarrow> ('s, 'c, 'w) rl_state \<Rightarrow> ('s, 'c, 'w) rl_state \<Rightarrow> bool" where
  "survives ret st st' \<longleftrightarrow> (alert_ok (fst st) \<longrightarrow> alert_ok (fst st') \<and> (ret = TLS13_IO_ALERT \<longrightarrow> dead (fst st')))"

lemma survivesI: "ret \<noteq> TLS13_IO_ALERT \<Longrightarrow> alert_ok (fst st) = alert_ok (fst st') \<Longrightarrow> survives ret st st'"
  by (simp add: survives_def)

lemma survives_trans: "survives r st st' \<Longrightarrow> survives ret st' st'' \<Longrightarrow> survives ret st st''"
  by (simp add: survives_def)

lemma alert_ok_updates [simp]:
  "alert_ok (rl\<lparr>rl_phh_cbs := c\<rparr>) = alert_ok rl" "alert_ok (rl\<lparr>rl_phh_data := x\<rparr>) = alert_ok rl"
  "alert_ok (rl\<lparr>rl_write := rp\<rparr>) = alert_ok rl" "alert_ok (rl\<lparr>rl_read := rp\<rparr>) = alert_ok rl"
  "alert_ok (rl\<lparr>rl_wrec_appdata_len := n\<rparr>) = alert_ok rl"
  by (simp_all add: alert_ok_def)

lemma alert_ok_wrec_free [simp]: "alert_ok rl \<Longrightarrow> alert_ok (tls13_record_layer_wrec_free rl)"
  by (simp add: alert_ok_def tls13_record_layer_wrec_free_def)

lemma seal_into_wrec_alert_ok:
  assumes "seal_into_wrec rl data t n = (ok, rl')" "data \<noteq> []" "t = SSL3_RT_ALERT \<Longrightarrow> 0 < n" "alert_ok rl"
  shows "alert_ok rl' \<and> (ok \<longrightarrow> (\<exists>wrec. rl_wrec rl' = Some wrec \<and> 0 < rec_data_len wrec))"
  using assms by (auto simp: seal_into_wrec_def tls13_record_set_data_def alert_ok_def split: option.splits if_splits)

lemma plaintext_record_not_empty:
  assumes "cbb_message grant (5 + length content) [Num 1 a, Num 2 b, Prefixed 2 [Raw content]] = Some data" "length content \<le> 16384"
  shows "data \<noteq> []"
  using cbb_message_sound [OF assms(1)] assms(2) by (auto split: option.splits if_splits)

lemma protected_record_not_empty:
  assumes "cbb_message grant 5 [Num 1 a, Num 2 b, Num 2 n] = Some header"
    and "cbb_message grant (5 + n) [Raw header, Raw (replicate n 0)] = Some data" and "n \<le> 16640"
  shows "mem_write data (length header) out \<noteq> []"
proof -
  have "header \<noteq> []" "length header < 6" using cbb_message_sound [OF assms(1)] by (auto split: option.splits if_splits)
  moreover from this have "data = header @ replicate n 0" using cbb_message_sound [OF assms(2)] assms(3) by simp
  ultimately show ?thesis by (simp add: mem_write_def)
qed

lemma seal_protected_cases:
  assumes "tls13_record_layer_seal_record_protected grant rl t content = (ok, rl')"
  shows "(rl' = rl \<or> (\<exists>rp. rl' = rl\<lparr>rl_write := rp\<rparr>)) \<and> \<not> ok
    \<or> (\<exists>rp data. seal_into_wrec (rl\<lparr>rl_write := rp\<rparr>) data t (length content) = (ok, rl') \<and> data \<noteq> [])"
  using assms
  by (auto simp: tls13_record_layer_seal_record_protected_def Let_def split: if_splits option.splits prod.splits bool.splits)
    (metis protected_record_not_empty [unfolded One_nat_def] leI)+

lemma seal_alert_ok:
  assumes s: "tls13_record_layer_seal_record grant rl t content = (ok, rl')" and ok: "alert_ok rl"
    and c: "t = SSL3_RT_ALERT \<Longrightarrow> content \<noteq> []" and l: "length content \<le> 16384"
  shows "alert_ok rl' \<and> (ok \<longrightarrow> (\<exists>wrec. rl_wrec rl' = Some wrec \<and> 0 < rec_data_len wrec))"
proof (cases "tls13_record_new grant")
  case None
  then show ?thesis using s ok by (auto simp: tls13_record_layer_seal_record_def split: if_splits)
next
  case (Some wrec)
  let ?rl = "tls13_record_layer_wrec_free rl\<lparr>rl_wrec := Some wrec\<rparr>"
  have r: "alert_ok ?rl" using ok Some by (auto simp: alert_ok_def tls13_record_layer_wrec_free_def tls13_record_new_def)
  have c': "t = SSL3_RT_ALERT \<Longrightarrow> 0 < length content" using c by simp
  have plain: ?thesis if "tls13_record_layer_seal_record_plaintext grant ?rl t content = (ok, rl')"
    using that r plaintext_record_not_empty [OF _ l] seal_into_wrec_alert_ok [OF _ _ c' r]
    by (auto simp: tls13_record_layer_seal_record_plaintext_def split: if_splits option.splits)
  have "alert_ok (?rl\<lparr>rl_write := rp\<rparr>)" for rp using r by simp
  note into = seal_into_wrec_alert_ok [OF _ _ c' this]
  have prot: ?thesis if "tls13_record_layer_seal_record_protected grant ?rl t content = (ok, rl')"
    using seal_protected_cases [OF that] r into by auto
  show ?thesis using s Some plain prot ok by (auto simp: tls13_record_layer_seal_record_def Let_def split: if_splits)
qed

locale alert_host =
  fixes cb :: "('s, 'c, 'w) tls13_record_layer_callbacks"
  assumes read_results: "fst (cb_wire_read cb w n) \<noteq> TLS13_IO_ALERT"
    and write_results: "fst (cb_wire_write cb w bs) \<noteq> TLS13_IO_ALERT" "fst (cb_wire_write cb w bs) \<noteq> TLS13_IO_EOF"
    and alert_recv_keeps: "alert_ok (fst (cb_alert_recv cb d st)) = alert_ok (fst st)" "dead (fst (cb_alert_recv cb d st)) = dead (fst st)"
    and alert_sent_keeps: "alert_ok (fst (cb_alert_sent cb d st)) = alert_ok (fst st)" "dead (fst (cb_alert_sent cb d st)) = dead (fst st)"
    and phh_sent_keeps: "alert_ok (fst (cb_phh_sent cb st)) = alert_ok (fst st)"
    and phh_recv_keeps: "cb_phh_recv cb = Some f \<Longrightarrow> f st = (ret, st') \<Longrightarrow> survives ret st st'"
begin

lemma record_send_no_alert:
  assumes "tls13_record_send (cb_wire_write cb) rcd w = (ret, rcd', w')" "rec_data rcd = None \<or> 0 < rec_data_len rcd"
  shows "ret \<noteq> TLS13_IO_ALERT \<and> ret \<noteq> TLS13_IO_EOF \<and> (rec_data rcd' = None \<or> 0 < rec_data_len rcd')"
proof -
  obtain r c v where l: "send_loop (cb_wire_write cb) (rec_cbs rcd) w = (r, c, v)" by (metis prod_cases3)
  show ?thesis
  proof (cases r)
    case (Some x)
    then have x: "x = TLS13_IO_FAILURE \<or> (\<exists>v bs v'. cb_wire_write cb v bs = (x, v'))" using send_loop_result l by metis
    have "x \<noteq> TLS13_IO_ALERT \<and> x \<noteq> TLS13_IO_EOF" using x write_results by (auto, (metis fst_conv)+)
    then show ?thesis using assms l Some by (auto simp: tls13_record_send_def split: if_splits)
  qed (use assms l in \<open>auto simp: tls13_record_send_def split: if_splits\<close>)
qed

text \<open>A write returns 0 when there was nothing to write or the writing side is closed.\<close>

lemma write_new_record_alert:
  assumes w: "write_new_record grant cb t content (rl, w) = (ret, rl', w')" and c: "t = SSL3_RT_ALERT \<Longrightarrow> content \<noteq> []" and ok: "alert_ok rl"
  shows "ret \<noteq> TLS13_IO_ALERT \<and> (content \<noteq> [] \<longrightarrow> ret \<noteq> TLS13_IO_EOF) \<and> alert_ok rl'"
proof (cases "length content \<le> 16384")
  case l: True
  obtain sealed rl1 where s: "tls13_record_layer_seal_record grant rl t content = (sealed, rl1)" by force
  note so = seal_alert_ok [OF s ok c l]
  show ?thesis
  proof (cases sealed)
    case True
    then obtain wrec where wrec: "rl_wrec rl1 = Some wrec" "0 < rec_data_len wrec" using so by blast
    obtain r wrec' w1 where sd: "tls13_record_send (cb_wire_write cb) wrec w = (r, wrec', w1)" by (metis prod_cases3)
    note r = record_send_no_alert [OF sd disjI2, OF wrec(2)]
    have "alert_ok (rl1\<lparr>rl_wrec := Some wrec'\<rparr>)" using so r by (auto simp: alert_ok_def)
    then show ?thesis using w l s True wrec sd r by (auto simp: write_new_record_def Let_def split: if_splits)
  qed (use w l s so in \<open>simp add: write_new_record_def\<close>)
qed (use w ok in \<open>simp add: write_new_record_def\<close>)

lemma write_record_alert:
  assumes w: "tls13_record_layer_write_record grant cb t content (rl, w) = (ret, rl', w')" and c: "t = SSL3_RT_ALERT \<Longrightarrow> content \<noteq> []" and ok: "alert_ok rl"
  shows "ret \<noteq> TLS13_IO_ALERT \<and> (t = SSL3_RT_ALERT \<and> ret = TLS13_IO_EOF \<longrightarrow> rl_write_closed rl) \<and> alert_ok rl'"
proof -
  have new: ?thesis if "write_new_record grant cb t content (r, v) = (ret, rl', w')" "alert_ok r" for r v
    using write_new_record_alert [OF that(1) c that(2)] c by auto
  show ?thesis
  proof (cases "rl_wrec rl")
    case None
    then show ?thesis using w new ok by (auto simp: tls13_record_layer_write_record_def split: if_splits)
  next
    case (Some wrec)
    obtain r wrec' w1 where sd: "tls13_record_send (cb_wire_write cb) wrec w = (r, wrec', w1)" by (metis prod_cases3)
    have r: "r \<noteq> TLS13_IO_ALERT \<and> r \<noteq> TLS13_IO_EOF \<and> (rec_data wrec' = None \<or> 0 < rec_data_len wrec')"
      using record_send_no_alert [OF sd] ok Some by (simp add: alert_ok_def)
    have ok': "alert_ok (rl\<lparr>rl_wrec := Some wrec'\<rparr>)" "alert_ok (rl\<lparr>rl_wrec := None\<rparr>)"
      "alert_ok (rl\<lparr>rl_wrec := None, rl_wrec_content_len := 0, rl_wrec_content_type := 0\<rparr>)" "alert_ok (rl\<lparr>rl_wrec := None, rl_wrec_appdata_len := n\<rparr>)" for n
      using ok r by (auto simp: alert_ok_def)
    note new' = new [OF _ ok'(4)]
    have "rl_wrec_content_type rl = SSL3_RT_ALERT \<Longrightarrow> 0 < rl_wrec_content_len rl" using ok by (simp add: alert_ok_def)
    then show ?thesis
      using w Some sd r ok ok' by (auto simp: tls13_record_layer_write_record_def Let_def tls13_record_layer_wrec_free_def split: if_splits dest!: new')
  qed
qed

lemma send_alert_survives:
  assumes s: "tls13_record_layer_send_alert grant cb st = (ret, st')" and a: "rl_alert_data (fst st) \<noteq> None"
  shows "survives ret st st'"
proof (cases "alert_ok (fst st)")
  case True
  obtain d where d: "rl_alert_data (fst st) = Some d" "d \<noteq> []" using a True by (auto simp: alert_ok_def)
  obtain r rl w where w: "tls13_record_layer_write_record grant cb SSL3_RT_ALERT d (fst st, snd st) = (r, rl, w)" by (metis prod_cases3)
  have r: "r \<noteq> TLS13_IO_ALERT" "r = TLS13_IO_EOF \<Longrightarrow> rl_write_closed (fst st)" "alert_ok rl"
    using write_record_alert [OF w _ True] d(2) by simp_all
  note same = writes_only_same [OF writes_only_write_record [OF w]]
  have ok: "alert_ok (rl\<lparr>rl_alert_data := None\<rparr>)" "alert_ok (rl\<lparr>rl_alert_data := None, rl_write_closed := True\<rparr>)"
    "alert_ok (rl\<lparr>rl_alert_data := None, rl_read_closed := True, rl_write_closed := True\<rparr>)"
    "dead (rl\<lparr>rl_alert_data := None, rl_read_closed := True, rl_write_closed := True\<rparr>)"
    using r(3) by (auto simp: alert_ok_def dead_def)
  show ?thesis
    using s w d r ok same by (auto simp: tls13_record_layer_send_alert_def Let_def survives_def alert_sent_keeps dead_def [of rl] split: if_splits)
qed (simp add: survives_def)

lemma send_phh_survives:
  assumes s: "tls13_record_layer_send_phh grant cb st = (ret, st')"
  shows "survives ret st st'"
proof (cases "alert_ok (fst st)")
  case True
  obtain r rl w where w: "tls13_record_layer_write_chunk grant cb SSL3_RT_HANDSHAKE (CBS_data (rl_phh_cbs (fst st))) (fst st, snd st) = (r, rl, w)" by (metis prod_cases3)
  have r: "r \<noteq> TLS13_IO_ALERT" "alert_ok rl"
    using write_record_alert [OF w [unfolded tls13_record_layer_write_chunk_def] _ True] by simp_all
  then show ?thesis
    using s w r by (auto simp: tls13_record_layer_send_phh_def Let_def survives_def phh_sent_keeps split: if_splits option.splits prod.splits)
qed (simp add: survives_def)

lemma send_pending_survives: "tls13_record_layer_send_pending grant cb st = (ret, st') \<Longrightarrow> survives ret st st'"
  by (auto simp: tls13_record_layer_send_pending_def Let_def survivesI split: option.splits if_splits dest: send_phh_survives send_alert_survives)

lemma enqueue_alert_survives:
  assumes "tls13_record_layer_enqueue_alert grant cb l d st = (ret, st')"
  shows "survives ret st st'"
proof -
  have "survives ret (rl, w) st'" if "tls13_record_layer_send_pending grant cb (rl\<lparr>rl_alert_data := Some data, rl_alert_level := l, rl_alert_desc := d\<rparr>, w) = (ret, st')"
      "cbb_message grant 0 [Num 1 (unat l), Num 1 (unat d)] = Some data" for rl w data
  proof -
    have "data \<noteq> []" using that(2) alert_message_not_empty by metis
    then have "alert_ok rl \<Longrightarrow> alert_ok (rl\<lparr>rl_alert_data := Some data, rl_alert_level := l, rl_alert_desc := d\<rparr>)" by (simp add: alert_ok_def)
    then show ?thesis using send_pending_survives [OF that(1)] by (simp add: survives_def)
  qed
  then show ?thesis
    using assms by (cases st) (auto simp: tls13_record_layer_enqueue_alert_def survivesI split: if_splits option.splits)
qed

lemma tls13_send_alert_survives: "tls13_send_alert grant cb d st = (ret, st') \<Longrightarrow> survives ret st st'"
proof (induction "if rl_alert_data (fst st) = None then 1 else 0 :: nat" arbitrary: st rule: less_induct)
  case less
  let ?l = "if d = 0 \<or> d = 90 then 1 else 2"
  obtain r st1 where q: "tls13_record_layer_enqueue_alert grant cb ?l d st = (r, st1)" by (meson surj_pair)
  note e = enqueue_alert_survives [OF q]
  show ?case
  proof (cases "r = TLS13_IO_WANT_RETRY")
    case True
    have "rl_alert_data (fst st) = None" "rl_alert_data (fst st1) \<noteq> None"
      using enqueue_alert_retry [of grant cb ?l d "fst st" "snd st" "fst st1" "snd st1"] q True by simp_all
    moreover have "tls13_send_alert grant cb d st1 = (ret, st')" using less.prems q True by (simp add: tls13_send_alert.simps [of _ _ _ st])
    ultimately show ?thesis using less.hyps [of st1] survives_trans [OF e] by simp
  qed (use less.prems q e in \<open>simp add: tls13_send_alert.simps [of _ _ _ st]\<close>)
qed

text \<open>Reading.\<close>

lemma record_recv_no_alert:
  assumes "tls13_record_recv grant (cb_wire_read cb) rrec w = (ret, rrec', w')"
  shows "ret \<noteq> TLS13_IO_ALERT"
proof
  assume r: "ret = TLS13_IO_ALERT"
  have x: False if "tls13_buffer_extend grant (cb_wire_read cb) buf (n + 5) v = (TLS13_IO_ALERT, buf', v')" for buf n v buf' v'
    using buffer_extend_result [OF that] read_results by (auto, (metis fst_conv)+)
  show False
    using assms r x [of _ 0] x
    by (auto simp: tls13_record_recv_def record_recv_header_def record_recv_payload_def Let_def add.commute
        split: if_splits prod.splits option.splits)
qed

lemma process_alert_survives:
  assumes "tls13_record_layer_process_alert grant cb st = (ret, st')"
  shows "survives ret st st'"
proof -
  have e: "survives ret (rl, w) st'" if "tls13_send_alert grant cb d (rl', w) = (ret, st')" "alert_ok rl \<Longrightarrow> alert_ok rl'" for rl rl' w d
    using tls13_send_alert_survives [OF that(1)] that(2) by (simp add: survives_def)
  have f: "alert_ok (tls13_record_layer_rbuf_free rl\<lparr>rl_read_closed := True, rl_write_closed := True\<rparr>) = alert_ok rl"
    "alert_ok (tls13_record_layer_rbuf_free rl\<lparr>rl_read_closed := True\<rparr>) = alert_ok rl" "alert_ok (tls13_record_layer_rbuf_free rl) = alert_ok rl"
    "alert_ok (rl\<lparr>rl_rbuf_cbs := c\<rparr>) = alert_ok rl"
    "alert_ok rl \<Longrightarrow> dead (tls13_record_layer_rbuf_free rl\<lparr>rl_read_closed := True, rl_write_closed := True\<rparr>)" for rl :: "('s, 'c) tls13_record_layer" and c
    by (auto simp: alert_ok_def dead_def tls13_record_layer_rbuf_free_def split: option.splits)
  obtain rl w where st: "st = (rl, w)" by force
  show ?thesis
    using assms st e f
    by (auto simp: tls13_record_layer_process_alert_def Let_def survives_def alert_recv_keeps split: prod.splits if_splits option.splits)
qed

lemma read_opened_survives: "read_opened grant cb st = (ret, st') \<Longrightarrow> survives ret st st'"
  by (auto simp: read_opened_def Let_def survivesI split: if_splits dest: process_alert_survives tls13_send_alert_survives)

lemma open_record_alert_ok:
  assumes "tls13_record_layer_open_record grant rl = (ok, rl')"
  shows "alert_ok rl' = alert_ok rl"
proof -
  have "rl_wrec_content_type rl' = rl_wrec_content_type rl \<and> rl_wrec_content_len rl' = rl_wrec_content_len rl
      \<and> rl_alert_data rl' = rl_alert_data rl \<and> rl_wrec rl' = rl_wrec rl"
    using assms
    by (auto simp: tls13_record_layer_open_record_def tls13_record_layer_open_record_plaintext_def tls13_record_layer_open_record_protected_def
        open_inner_def tls13_record_layer_rbuf_free_def Let_def split: if_splits option.splits prod.splits bool.splits)
  then show ?thesis by (simp add: alert_ok_def)
qed

lemma read_record_survives:
  assumes rd: "tls13_record_layer_read_record grant cb st = (ret, st')"
  shows "survives ret st st'"
proof (cases "case rl_rrec (fst st) of None \<Rightarrow> tls13_record_new grant | Some rrec \<Rightarrow> Some rrec")
  case None
  then show ?thesis using rd by (auto simp: tls13_record_layer_read_record_def survivesI split: prod.splits)
next
  case (Some rrec)
  obtain rl w where st: "st = (rl, w)" by force
  obtain r rrec' w1 where rc: "tls13_record_recv grant (cb_wire_read cb) rrec w = (r, rrec', w1)" by (metis prod_cases3)
  note r = record_recv_no_alert [OF rc]
  let ?s1 = "(rl\<lparr>rl_rrec := Some rrec'\<rparr>, w1)"
  have ok: "survives 0 st ?s1" using st by (simp add: survives_def alert_ok_def)
  have alert: ?thesis if "tls13_send_alert grant cb d ?s1 = (ret, st')" for d
    by (rule survives_trans [OF ok tls13_send_alert_survives [OF that]])
  have ccs: ?thesis if "read_ccs grant cb rrec' ?s1 = (ret, st')"
  proof -
    have "survives TLS13_IO_WANT_RETRY st (tls13_record_layer_rrec_free (rl\<lparr>rl_rrec := x, rl_ccs_seen := n\<rparr>), w1)" for x n
      using st by (simp add: survives_def alert_ok_def tls13_record_layer_rrec_free_def)
    then show ?thesis using that alert by (auto simp: read_ccs_def split: if_splits option.splits prod.splits)
  qed
  have opened: ?thesis if "tls13_record_layer_open_record grant (rl\<lparr>rl_rrec := Some rrec'\<rparr>) = (True, rl')"
      "read_opened grant cb (tls13_record_layer_rrec_free rl', w1) = (ret, st')" for rl'
  proof -
    have "alert_ok (tls13_record_layer_rrec_free rl') = alert_ok rl"
      using open_record_alert_ok [OF that(1)] by (simp add: tls13_record_layer_rrec_free_def alert_ok_def)
    then show ?thesis using read_opened_survives [OF that(2)] st by (simp add: survives_def)
  qed
  have failed: ?thesis if "tls13_record_layer_open_record grant (rl\<lparr>rl_rrec := Some rrec'\<rparr>) = (False, rl')" "ret = TLS13_IO_FAILURE" "st' = (rl', w1)" for rl'
    using open_record_alert_ok [OF that(1)] st that by (simp add: survives_def alert_ok_def)
  have plain: ?thesis if "ret = r" "st' = ?s1" using that r st by (simp add: survives_def alert_ok_def)
  show ?thesis
  proof (cases "0 < r")
    case False
    then show ?thesis using rd st Some rc alert plain by (auto simp: tls13_record_layer_read_record_def Let_def split: if_splits)
  next
    case True
    then show ?thesis using rd st Some rc alert ccs opened failed
      by (auto simp: tls13_record_layer_read_record_def Let_def split: if_splits prod.splits bool.splits)
  qed
qed

lemma recv_phh_survives:
  assumes "tls13_record_layer_recv_phh cb st = (ret, st')"
  shows "survives ret st st'"
proof -
  obtain rl w where st: "st = (rl, w)" by force
  let ?s = "(rl\<lparr>rl_phh := True\<rparr>, w)"
  obtain r rl1 w1 where c: "(case cb_phh_recv cb of None \<Rightarrow> (TLS13_IO_FAILURE, ?s) | Some f \<Rightarrow> f ?s) = (r, rl1, w1)" by (metis prod_cases3)
  have s: "survives r ?s (rl1, w1)" using c phh_recv_keeps by (auto simp: survivesI split: option.splits)
  have f: "alert_ok (tls13_record_layer_rbuf_free rl1\<lparr>rl_phh := b\<rparr>) = alert_ok rl1" "dead (tls13_record_layer_rbuf_free rl1\<lparr>rl_phh := b\<rparr>) = dead rl1"
    "alert_ok (tls13_record_layer_rbuf_free rl1) = alert_ok rl1" "dead (tls13_record_layer_rbuf_free rl1) = dead rl1" "alert_ok (rl\<lparr>rl_phh := True\<rparr>) = alert_ok rl" for b
    by (simp_all add: alert_ok_def dead_def tls13_record_layer_rbuf_free_def split: option.split)
  show ?thesis
    using assms st c s f by (auto simp: tls13_record_layer_recv_phh_def Let_def survives_def split: if_splits)
qed

lemma read_deliver_survives:
  assumes "read_deliver grant cb t n peek st = (ret, buf, st')"
  shows "survives ret st st'"
proof -
  have c: "alert_ok (rl\<lparr>rl_rbuf_cbs := x\<rparr>) = alert_ok rl" "alert_ok (tls13_record_layer_rbuf_free rl) = alert_ok rl" for rl :: "('s, 'c) tls13_record_layer" and x
    by (simp_all add: alert_ok_def tls13_record_layer_rbuf_free_def)
  show ?thesis
    using assms tls13_send_alert_survives recv_phh_survives
    by (auto simp: read_deliver_def Let_def survives_def c split: prod.splits if_splits bool.splits)
qed

lemma read_internal_survives:
  assumes rd: "tls13_record_layer_read_internal grant cb t n peek st = (ret, buf, st')"
  shows "survives ret st st'"
proof -
  obtain r st1 where p: "tls13_record_layer_send_pending grant cb st = (r, st1)" by (meson surj_pair)
  obtain f st2 where fl: "read_fill grant cb st1 = (f, st2)" by (meson surj_pair)
  obtain x rl3 w3 where rr: "tls13_record_layer_read_record grant cb st1 = (x, rl3, w3)" by (metis prod_cases3)
  have "alert_ok (tls13_record_layer_rbuf_free rl3) = alert_ok rl3" by (simp add: alert_ok_def tls13_record_layer_rbuf_free_def)
  then have "survives (case f of None \<Rightarrow> 0 | Some i \<Rightarrow> i) st1 st2"
    using fl rr read_record_survives [OF rr] by (auto simp: read_fill_def survives_def split: if_splits)
  note s2 = survives_trans [OF send_pending_survives [OF p] this]
  show ?thesis
  proof (cases "r = TLS13_IO_SUCCESS \<and> \<not> rl_read_closed (fst st1)")
    case True
    then show ?thesis
      using rd p fl s2 read_deliver_survives [of grant t n peek st2 ret buf st'] survives_trans [of 0 st st2 ret st']
      by (cases f) (simp_all add: tls13_record_layer_read_internal_def)
  next
    case False
    then show ?thesis using rd p send_pending_survives [OF p] by (auto simp: tls13_record_layer_read_internal_def survives_def split: if_splits)
  qed
qed

lemma read_loop_survives:
  assumes "read_loop grant cb t n peek st = Some (ret, buf, st')"
  shows "survives ret st st'"
proof -
  have "cb = cb \<longrightarrow> survives (fst (ret, buf, st')) st (snd (snd (ret, buf, st')))"
  proof (rule read_loop.raw_induct [of "\<lambda>grant cb' t n peek st r. cb' = cb \<longrightarrow> survives (fst r) st (snd (snd r))", OF _ assms], rule impI)
    fix loop grant' cb' t' n' peek' st1 r
    assume hyp: "\<And>grant cb' t n peek st r. loop grant cb' t n peek st = Some r \<Longrightarrow> cb' = cb \<longrightarrow> survives (fst r) st (snd (snd r))"
      and body: "(case tls13_record_layer_read_internal grant' cb' t' n' peek' st1 of (ret, buf, st') \<Rightarrow>
        if ret = TLS13_IO_WANT_RETRY then loop grant' cb' t' n' peek' st' else Some (ret, buf, st')) = Some r" and cb: "cb' = cb"
    obtain i b st2 where ri: "tls13_record_layer_read_internal grant' cb t' n' peek' st1 = (i, b, st2)" by (metis prod_cases3)
    note s = read_internal_survives [OF ri]
    show "survives (fst r) st1 (snd (snd r))"
    proof (cases "i = TLS13_IO_WANT_RETRY")
      case True
      then have "loop grant' cb t' n' peek' st2 = Some r" using body cb ri by simp
      then show ?thesis using hyp survives_trans [OF s] by blast
    next
      case False
      then have "r = (i, b, st2)" using body cb ri by simp
      then show ?thesis using s by simp
    qed
  qed
  then show ?thesis by simp
qed

lemma read_finish_survives:
  assumes "read_finish grant cb (i, b, st) = (ret, buf, st')" "survives i st0 st"
  shows "survives ret st0 st'"
  using assms survives_trans [OF assms(2) tls13_send_alert_survives] by (auto simp: read_finish_def split: if_splits prod.splits)

lemma read_survives:
  "tls13_record_layer_read grant cb t n st = Some (ret, buf, st') \<Longrightarrow> survives ret st st'"
  "tls13_record_layer_peek grant cb t n st = Some (ret, buf, st') \<Longrightarrow> survives ret st st'"
  by (auto simp: tls13_record_layer_read_def tls13_record_layer_peek_def dest!: read_loop_survives intro: read_finish_survives)

end

end
