(* ===== verification/Tls13_Lib.thy ===== *)
theory Tls13_Lib
  imports Tls13_Record_Alerts Tls13_Handshake
begin

unbundle bit_operations_syntax

text \<open>
  The part of \<^verbatim>\<open>ssl/tls13_lib.c\<close> that the record layer calls back, and the read, write and shutdown calls of
  \<^verbatim>\<open>ssl/tls13_legacy.c\<close> on top of it: what \<open>SSL_read\<close>, \<open>SSL_peek\<close>, \<open>SSL_write\<close>, \<open>SSL_pending\<close> and \<open>SSL_shutdown\<close> do on a TLS 1.3
  connection.

  The argument of the callbacks is the context together with the fields of the connection \<open>SSL\<close> that these functions use. Behind the
  connection is the transport of the application, two \<open>BIO\<close>s, a parameter of the model: what \<open>BIO_read\<close> and \<open>BIO_write\<close> do with its
  state, what \<open>BIO_should_read\<close>, \<open>BIO_should_write\<close>, \<open>errno\<close> and \<open>time(NULL)\<close> are after a call, and what
  \<open>BIO_set_retry_read\<close> and \<open>BIO_set_retry_write\<close> change. The error queue holds the reasons that these functions
  put there.
\<close>

section \<open>The connection\<close>

abbreviation (input) TLS13_PHH_LIMIT_TIME :: int where "TLS13_PHH_LIMIT_TIME \<equiv> 3600"
abbreviation (input) TLS13_PHH_LIMIT :: int where "TLS13_PHH_LIMIT \<equiv> 100"

abbreviation (input) TLS13_MT_NEW_SESSION_TICKET :: u8 where "TLS13_MT_NEW_SESSION_TICKET \<equiv> 4"
abbreviation (input) TLS13_MT_KEY_UPDATE :: u8 where "TLS13_MT_KEY_UPDATE \<equiv> 24"

abbreviation (input) SSL_NOTHING :: int where "SSL_NOTHING \<equiv> 1"
abbreviation (input) SSL_WRITING :: int where "SSL_WRITING \<equiv> 2"
abbreviation (input) SSL_READING :: int where "SSL_READING \<equiv> 3"

abbreviation (input) SSL_SENT_SHUTDOWN :: u32 where "SSL_SENT_SHUTDOWN \<equiv> 1"
abbreviation (input) SSL_RECEIVED_SHUTDOWN :: u32 where "SSL_RECEIVED_SHUTDOWN \<equiv> 2"

abbreviation (input) SSL_MODE_ENABLE_PARTIAL_WRITE :: u32 where "SSL_MODE_ENABLE_PARTIAL_WRITE \<equiv> 1"
abbreviation (input) SSL_MODE_AUTO_RETRY :: u32 where "SSL_MODE_AUTO_RETRY \<equiv> 4"

abbreviation (input) SSL_AD_REASON_OFFSET :: nat where "SSL_AD_REASON_OFFSET \<equiv> 1000"
abbreviation (input) SSL_R_BIO_NOT_SET :: nat where "SSL_R_BIO_NOT_SET \<equiv> 128"
abbreviation (input) SSL_R_CERTIFICATE_VERIFY_FAILED :: nat where "SSL_R_CERTIFICATE_VERIFY_FAILED \<equiv> 134"
abbreviation (input) SSL_R_EXTRA_DATA_IN_MESSAGE :: nat where "SSL_R_EXTRA_DATA_IN_MESSAGE \<equiv> 153"
abbreviation (input) SSL_R_MISSING_RSA_CERTIFICATE :: nat where "SSL_R_MISSING_RSA_CERTIFICATE \<equiv> 168"
abbreviation (input) SSL_R_NO_CIPHERS_AVAILABLE :: nat where "SSL_R_NO_CIPHERS_AVAILABLE \<equiv> 181"
abbreviation (input) SSL_R_NO_SHARED_CIPHER :: nat where "SSL_R_NO_SHARED_CIPHER \<equiv> 193"
abbreviation (input) SSL_R_PEER_DID_NOT_RETURN_A_CERTIFICATE :: nat where "SSL_R_PEER_DID_NOT_RETURN_A_CERTIFICATE \<equiv> 199"
abbreviation (input) SSL_R_BAD_LENGTH :: nat where "SSL_R_BAD_LENGTH \<equiv> 271"
abbreviation (input) SSL_R_UNKNOWN :: nat where "SSL_R_UNKNOWN \<equiv> 999"
abbreviation (input) ERR_R_SHOULD_NOT_HAVE_BEEN_CALLED :: nat where "ERR_R_SHOULD_NOT_HAVE_BEEN_CALLED \<equiv> 66"
abbreviation (input) ERR_R_INTERNAL_ERROR :: nat where "ERR_R_INTERNAL_ERROR \<equiv> 68"

datatype queued_error = SSL_error nat | SYS_error int

record 'b transport =
  bio_read :: "'b read_cb"
  bio_write :: "'b write_cb"
  bio_should_read :: "'b \<Rightarrow> bool"
  bio_should_write :: "'b \<Rightarrow> bool"
  bio_set_retry_read :: "'b \<Rightarrow> 'b"
  bio_set_retry_write :: "'b \<Rightarrow> 'b"
  sys_errno :: "'b \<Rightarrow> int"
  sys_time :: "'b \<Rightarrow> int"

text \<open>First the fields of \<open>struct tls13_ctx\<close>, then those of the connection: whether it has a context and the two \<open>BIO\<close>s, and the
  state of the transport.\<close>

record ('c, 'b) tls13_conn =
  tc_mode :: u8
  tc_handshake_completed :: bool
  tc_close_notify_sent :: bool
  tc_close_notify_recv :: bool
  tc_error_code :: nat
  tc_secrets :: "'c tls13_secrets"
  tc_claims :: claims
  tc_hs_msg :: "tls13_handshake_msg option"
  tc_key_update_request :: bool
  tc_phh_count :: int
  tc_phh_last_seen :: int
  ssl_has_ctx :: bool
  ssl_shutdown :: u32
  ssl_warn_alert :: u8
  ssl_fatal_alert :: u8
  ssl_session_removed :: bool
  ssl_errors :: "queued_error list"
  ssl_rwstate :: int
  ssl_mode :: u32
  ssl_quiet_shutdown :: bool
  ssl_wnum :: nat
  ssl_rbio :: bool
  ssl_wbio :: bool
  ssl_bio :: 'b

type_synonym ('s, 'c, 'b) conn_state = "('s, 'c) tls13_record_layer \<times> ('c, 'b) tls13_conn"

definition SSLerror :: "nat \<Rightarrow> ('c, 'b) tls13_conn \<Rightarrow> ('c, 'b) tls13_conn" where
  "SSLerror reason ssl = ssl\<lparr>ssl_errors := ssl_errors ssl @ [SSL_error reason]\<rparr>"

section \<open>The wire\<close>

definition tls13_legacy_wire_read :: "'b transport \<Rightarrow> ('c, 'b) tls13_conn read_cb" where
  "tls13_legacy_wire_read tr ssl n =
     (if \<not> ssl_rbio ssl then (TLS13_IO_FAILURE, [], SSLerror SSL_R_BIO_NOT_SET ssl)
      else case bio_read tr (ssl_bio ssl) n of
        (r, buf, b) \<Rightarrow>
          let ssl = ssl\<lparr>ssl_rwstate := SSL_READING, ssl_bio := b\<rparr> in
          if r \<le> 0 then
            (if bio_should_read tr b then (TLS13_IO_WANT_POLLIN, buf, ssl)
             else if r = 0 then (TLS13_IO_EOF, buf, ssl)
             else (TLS13_IO_FAILURE, buf,
               if ssl_errors ssl = [] \<and> sys_errno tr b \<noteq> 0 then ssl\<lparr>ssl_errors := [SYS_error (sys_errno tr b)]\<rparr> else ssl))
          else (r, buf, if r = int n then ssl\<lparr>ssl_rwstate := SSL_NOTHING\<rparr> else ssl))"

definition tls13_legacy_wire_read_cb :: "'b transport \<Rightarrow> ('c, 'b) tls13_conn read_cb" where
  "tls13_legacy_wire_read_cb tr ctx n = tls13_legacy_wire_read tr ctx n"

definition tls13_legacy_wire_write :: "'b transport \<Rightarrow> ('c, 'b) tls13_conn write_cb" where
  "tls13_legacy_wire_write tr ssl buf =
     (if \<not> ssl_wbio ssl then (TLS13_IO_FAILURE, SSLerror SSL_R_BIO_NOT_SET ssl)
      else case bio_write tr (ssl_bio ssl) buf of
        (r, b) \<Rightarrow>
          let ssl = ssl\<lparr>ssl_rwstate := SSL_WRITING, ssl_bio := b\<rparr> in
          if r \<le> 0 then
            (if bio_should_write tr b then (TLS13_IO_WANT_POLLOUT, ssl)
             else (TLS13_IO_FAILURE,
               if ssl_errors ssl = [] \<and> sys_errno tr b \<noteq> 0 then ssl\<lparr>ssl_errors := [SYS_error (sys_errno tr b)]\<rparr> else ssl))
          else (r, if r = int (length buf) then ssl\<lparr>ssl_rwstate := SSL_NOTHING\<rparr> else ssl))"

definition tls13_legacy_wire_write_cb :: "'b transport \<Rightarrow> ('c, 'b) tls13_conn write_cb" where
  "tls13_legacy_wire_write_cb tr ctx buf = tls13_legacy_wire_write tr ctx buf"

section \<open>Notifications\<close>

definition tls13_alert_received_cb :: "u8 \<Rightarrow> ('c, 'b) tls13_conn \<Rightarrow> ('c, 'b) tls13_conn" where
  "tls13_alert_received_cb alert_desc ctx =
     (if alert_desc = TLS13_ALERT_CLOSE_NOTIFY then
        ctx\<lparr>tc_close_notify_recv := True, ssl_shutdown := ssl_shutdown ctx OR SSL_RECEIVED_SHUTDOWN, ssl_warn_alert := alert_desc\<rparr>
      else if alert_desc = TLS13_ALERT_USER_CANCELED then ctx
      else (SSLerror (SSL_AD_REASON_OFFSET + unat alert_desc) (ctx\<lparr>ssl_fatal_alert := alert_desc\<rparr>))\<lparr>ssl_session_removed := True\<rparr>)"

definition tls13_alert_sent_cb :: "u8 \<Rightarrow> ('c, 'b) tls13_conn \<Rightarrow> ('c, 'b) tls13_conn" where
  "tls13_alert_sent_cb alert_desc ctx =
     (if alert_desc = TLS13_ALERT_CLOSE_NOTIFY then ctx\<lparr>tc_close_notify_sent := True\<rparr>
      else if alert_desc = TLS13_ALERT_USER_CANCELED then ctx
      else if tc_error_code ctx = 0 then SSLerror (SSL_AD_REASON_OFFSET + unat alert_desc) ctx else ctx)"

section \<open>Key update\<close>

text \<open>The key of one direction from a secret that was just replaced.\<close>

definition install_key ::
    "(claims \<Rightarrow> ('s, 'c) tls13_record_layer \<Rightarrow> bytes \<Rightarrow> bool \<times> ('s, 'c) tls13_record_layer \<times> claims)
      \<Rightarrow> ('c tls13_secrets \<Rightarrow> bytes) \<Rightarrow> bool \<times> 'c schedule \<Rightarrow> ('s, 'c, 'b) conn_state \<Rightarrow> bool \<times> ('s, 'c, 'b) conn_state" where
  "install_key set_key secret updated st =
     (case (updated, st) of
        ((False, log, secrets), (rl, ctx)) \<Rightarrow> (False, rl, ctx\<lparr>tc_secrets := secrets, tc_claims := log\<rparr>)
      | ((True, log, secrets), (rl, ctx)) \<Rightarrow>
          (case set_key log rl (secret secrets) of
             (ok, rl, log) \<Rightarrow> (ok, rl, ctx\<lparr>tc_secrets := secrets, tc_claims := log\<rparr>)))"

definition tls13_phh_update_local_traffic_secret ::
    "(nat \<Rightarrow> bool) \<Rightarrow> ('s, 'c, 'b) conn_state \<Rightarrow> bool \<times> ('s, 'c, 'b) conn_state" where
  "tls13_phh_update_local_traffic_secret grant st =
     (let schedule = (tc_claims (snd st), tc_secrets (snd st)) in
      if tc_mode (snd st) = TLS13_HS_CLIENT then
        install_key (tls13_record_layer_set_write_traffic_key grant) sec_client_application_traffic
          (tls13_update_client_traffic_secret grant schedule) st
      else
        install_key (tls13_record_layer_set_read_traffic_key grant) sec_server_application_traffic
          (tls13_update_server_traffic_secret grant schedule) st)"

definition tls13_phh_update_peer_traffic_secret ::
    "(nat \<Rightarrow> bool) \<Rightarrow> ('s, 'c, 'b) conn_state \<Rightarrow> bool \<times> ('s, 'c, 'b) conn_state" where
  "tls13_phh_update_peer_traffic_secret grant st =
     (let schedule = (tc_claims (snd st), tc_secrets (snd st)) in
      if tc_mode (snd st) = TLS13_HS_CLIENT then
        install_key (tls13_record_layer_set_read_traffic_key grant) sec_server_application_traffic
          (tls13_update_server_traffic_secret grant schedule) st
      else
        install_key (tls13_record_layer_set_write_traffic_key grant) sec_client_application_traffic
          (tls13_update_client_traffic_secret grant schedule) st)"

definition tls13_phh_limit_check :: "int \<Rightarrow> ('c, 'b) tls13_conn \<Rightarrow> bool \<times> ('c, 'b) tls13_conn" where
  "tls13_phh_limit_check now ctx =
     (if tc_phh_last_seen ctx > now - TLS13_PHH_LIMIT_TIME \<and> tc_phh_count ctx > TLS13_PHH_LIMIT then (False, ctx)
      else
        let ctx = (if tc_phh_last_seen ctx > now - TLS13_PHH_LIMIT_TIME then ctx else ctx\<lparr>tc_phh_count := 0\<rparr>) in
        (True, ctx\<lparr>tc_phh_count := tc_phh_count ctx + 1, tc_phh_last_seen := now\<rparr>))"

text \<open>The answer to a key update request, \<open>key_update_request\<close> being 0 (\<open>update_not_requested\<close>); \<open>None\<close> when it cannot be built.\<close>

definition key_update_message :: "(nat \<Rightarrow> bool) \<Rightarrow> CBS option" where
  "key_update_message grant =
     Option.bind (tls13_handshake_msg_new grant) (\<lambda>hs_msg.
       case tls13_handshake_msg_start grant hs_msg TLS13_MT_KEY_UPDATE of
         (False, hs_msg) \<Rightarrow> None
       | (True, hs_msg) \<Rightarrow>
           (case CBB_add_u8 (hm_cbb hs_msg) 1 0 of
              (False, cbb) \<Rightarrow> None
            | (True, cbb) \<Rightarrow>
                (case tls13_handshake_msg_finish (hs_msg\<lparr>hm_cbb := cbb\<rparr>) of
                   (False, hs_msg) \<Rightarrow> None
                 | (True, hs_msg) \<Rightarrow> Some (tls13_handshake_msg_data hs_msg))))"

definition tls13_key_update_recv ::
    "(nat \<Rightarrow> bool) \<Rightarrow> ('s, 'c, ('c, 'b) tls13_conn) tls13_record_layer_callbacks \<Rightarrow> CBS \<Rightarrow> ('s, 'c, 'b) conn_state \<Rightarrow> int \<times> ('s, 'c, 'b) conn_state" where
  "tls13_key_update_recv grant cb cbs st =
     (case CBS_get_u8 cbs of
        (None, cbs) \<Rightarrow> tls13_send_alert grant cb TLS13_ALERT_DECODE_ERROR st
      | (Some key_update_request, cbs) \<Rightarrow>
          if CBS_len cbs \<noteq> 0 then tls13_send_alert grant cb TLS13_ALERT_DECODE_ERROR st
          else if 1 < key_update_request then tls13_send_alert grant cb TLS13_ALERT_ILLEGAL_PARAMETER st
          else case tls13_phh_update_peer_traffic_secret grant st of
            (False, st) \<Rightarrow> tls13_send_alert grant cb TLS13_ALERT_INTERNAL_ERROR st
          | (True, rl, ctx) \<Rightarrow>
              if key_update_request = 0 then (TLS13_IO_SUCCESS, rl, ctx)
              else case key_update_message grant of
                None \<Rightarrow> tls13_send_alert grant cb TLS13_ALERT_INTERNAL_ERROR (rl, ctx)
              | Some cbs_hs \<Rightarrow> tls13_record_layer_phh grant cb cbs_hs (rl, ctx\<lparr>tc_key_update_request := True\<rparr>))"

definition tls13_phh_done_cb :: "(nat \<Rightarrow> bool) \<Rightarrow> ('s, 'c, 'b) conn_state \<Rightarrow> ('s, 'c, 'b) conn_state" where
  "tls13_phh_done_cb grant st =
     (if tc_key_update_request (snd st) then
        (case tls13_phh_update_local_traffic_secret grant st of (ok, rl, ctx) \<Rightarrow> (rl, ctx\<lparr>tc_key_update_request := False\<rparr>))
      else st)"

text \<open>The handshake message is received through \<open>tls13_read_handshake_data\<close>, which always returns (see the theory
  \<^verbatim>\<open>Tls13_Lib_Host\<close>).\<close>

definition handshake_read_cb ::
    "(nat \<Rightarrow> bool) \<Rightarrow> ('s, 'c, 'w) tls13_record_layer_callbacks \<Rightarrow> ('s, 'c, 'w) rl_state read_cb" where
  "handshake_read_cb grant cb st n =
     (case tls13_read_handshake_data grant cb n st of None \<Rightarrow> (TLS13_IO_FAILURE, [], st) | Some r \<Rightarrow> r)"

definition tls13_phh_received_cb ::
    "'b transport \<Rightarrow> (nat \<Rightarrow> bool) \<Rightarrow> ('s, 'c, ('c, 'b) tls13_conn) tls13_record_layer_callbacks \<Rightarrow> ('s, 'c, 'b) conn_state \<Rightarrow> int \<times> ('s, 'c, 'b) conn_state" where
  "tls13_phh_received_cb tr grant cb st =
     (case st of (rl, ctx) \<Rightarrow>
      case tls13_phh_limit_check (sys_time tr (ssl_bio ctx)) ctx of
        (False, ctx) \<Rightarrow> tls13_send_alert grant cb TLS13_ALERT_UNEXPECTED_MESSAGE (rl, ctx)
      | (True, ctx) \<Rightarrow>
          (case (case tc_hs_msg ctx of None \<Rightarrow> tls13_handshake_msg_new grant | Some hs_msg \<Rightarrow> Some hs_msg) of
             None \<Rightarrow> (TLS13_IO_FAILURE, rl, ctx)
           | Some hs_msg \<Rightarrow>
               (case tls13_handshake_msg_set_buffer grant hs_msg (rl_rbuf_cbs rl) of
                  (False, hs_msg) \<Rightarrow> (TLS13_IO_FAILURE, rl, ctx\<lparr>tc_hs_msg := Some hs_msg\<rparr>)
                | (True, hs_msg) \<Rightarrow>
                    (case tls13_handshake_msg_recv grant (handshake_read_cb grant cb) hs_msg (rl, ctx) of
                       (ret, hs_msg, rl, ctx) \<Rightarrow>
                         let ctx = ctx\<lparr>tc_hs_msg := Some hs_msg\<rparr> in
                         if ret \<noteq> TLS13_IO_SUCCESS then (ret, rl, ctx)
                         else case tls13_handshake_msg_content hs_msg of
                           None \<Rightarrow> (TLS13_IO_FAILURE, rl, ctx)
                         | Some phh_cbs \<Rightarrow>
                             (case (if tls13_handshake_msg_type hs_msg = TLS13_MT_KEY_UPDATE then tls13_key_update_recv grant cb phh_cbs (rl, ctx)
                                    else if tls13_handshake_msg_type hs_msg = TLS13_MT_NEW_SESSION_TICKET then (ret, rl, ctx)
                                    else (TLS13_IO_FAILURE, rl, ctx)) of
                                (ret, rl, ctx) \<Rightarrow> (ret, rl, ctx\<lparr>tc_hs_msg := None\<rparr>))))))"

text \<open>\<open>tls13_read_handshake_data\<close> never calls \<open>phh_recv\<close>, so that \<open>tls13_phh_received_cb\<close> is given the table without itself
  (lemma \<open>phh_received_cb_unfold\<close>).\<close>

definition rl_callbacks_base :: "'b transport \<Rightarrow> (nat \<Rightarrow> bool) \<Rightarrow> ('s, 'c, ('c, 'b) tls13_conn) tls13_record_layer_callbacks" where
  "rl_callbacks_base tr grant = \<lparr>cb_wire_read = tls13_legacy_wire_read_cb tr, cb_wire_write = tls13_legacy_wire_write_cb tr,
     cb_alert_recv = (\<lambda>desc (rl, ctx). (rl, tls13_alert_received_cb desc ctx)),
     cb_alert_sent = (\<lambda>desc (rl, ctx). (rl, tls13_alert_sent_cb desc ctx)), cb_phh_recv = None, cb_phh_sent = tls13_phh_done_cb grant\<rparr>"

definition rl_callbacks :: "'b transport \<Rightarrow> (nat \<Rightarrow> bool) \<Rightarrow> ('s, 'c, ('c, 'b) tls13_conn) tls13_record_layer_callbacks" where
  "rl_callbacks tr grant = (rl_callbacks_base tr grant)\<lparr>cb_phh_recv := Some (tls13_phh_received_cb tr grant (rl_callbacks_base tr grant))\<rparr>"

section \<open>The calls of the application\<close>

definition tls13_legacy_error :: "('c, 'b) tls13_conn \<Rightarrow> ('c, 'b) tls13_conn" where
  "tls13_legacy_error ssl =
     (if ssl_fatal_alert ssl \<noteq> 0 then ssl
      else
        let code = tc_error_code ssl;
            reason = (if code = 16 then SSL_R_CERTIFICATE_VERIFY_FAILED else if code = 17 then SSL_R_NO_CIPHERS_AVAILABLE
              else if code = 18 then SSL_R_EXTRA_DATA_IN_MESSAGE else if code = 19 then SSL_R_NO_SHARED_CIPHER
              else if code = 20 then SSL_R_MISSING_RSA_CERTIFICATE else if code = 21 then SSL_R_PEER_DID_NOT_RETURN_A_CERTIFICATE
              else SSL_R_UNKNOWN)
        in if reason = SSL_R_UNKNOWN \<and> ssl_errors ssl \<noteq> [] then ssl else SSLerror reason ssl)"

definition tls13_legacy_return_code :: "'b transport \<Rightarrow> int \<Rightarrow> ('c, 'b) tls13_conn \<Rightarrow> int \<times> ('c, 'b) tls13_conn" where
  "tls13_legacy_return_code tr ret ssl =
     (if 2147483647 < ret then (- 1, SSLerror ERR_R_INTERNAL_ERROR ssl)
      else if 0 < ret then (ret, ssl)
      else
        let ssl = ssl\<lparr>ssl_rwstate := SSL_NOTHING\<rparr> in
        if ret = TLS13_IO_EOF then (0, ssl)
        else if ret = TLS13_IO_FAILURE \<or> ret = TLS13_IO_ALERT then (- 1, tls13_legacy_error ssl)
        else if ret = TLS13_IO_WANT_POLLIN then
          (- 1, ssl\<lparr>ssl_bio := bio_set_retry_read tr (ssl_bio ssl), ssl_rwstate := SSL_READING\<rparr>)
        else if ret = TLS13_IO_WANT_POLLOUT then
          (- 1, ssl\<lparr>ssl_bio := bio_set_retry_write tr (ssl_bio ssl), ssl_rwstate := SSL_WRITING\<rparr>)
        else (- 1, SSLerror ERR_R_INTERNAL_ERROR ssl))"

definition tls13_legacy_pending :: "('s, 'c, 'b) conn_state \<Rightarrow> int" where
  "tls13_legacy_pending st =
     (if \<not> ssl_has_ctx (snd st) then 0
      else
        let ret = tls13_pending_application_data (fst st) in
        if ret < 0 \<or> 2147483647 < ret then 0 else ret)"

text \<open>\<open>handshake_func\<close> is the function pointer of the connection. The bytes are what was copied to \<open>buf\<close>.\<close>

definition tls13_legacy_read_bytes ::
    "'b transport \<Rightarrow> (nat \<Rightarrow> bool) \<Rightarrow> (('s, 'c, 'b) conn_state \<Rightarrow> int \<times> ('s, 'c, 'b) conn_state) \<Rightarrow> int \<Rightarrow> int \<Rightarrow> bool
      \<Rightarrow> ('s, 'c, 'b) conn_state \<Rightarrow> (int \<times> bytes \<times> ('s, 'c, 'b) conn_state) option" where
  "tls13_legacy_read_bytes tr grant handshake_func typ len peek st =
     (if \<not> ssl_has_ctx (snd st) \<or> \<not> tc_handshake_completed (snd st) then
        (case handshake_func st of
           (ret, rl, ssl) \<Rightarrow>
             if ret \<le> 0 then Some (ret, [], rl, ssl)
             else case tls13_legacy_return_code tr TLS13_IO_WANT_POLLIN ssl of (ret, ssl) \<Rightarrow> Some (ret, [], rl, ssl))
      else
        let ssl = snd st; rl = tls13_record_layer_set_retry_after_phh (fst st) (ssl_mode ssl AND SSL_MODE_AUTO_RETRY \<noteq> 0) in
        if typ \<noteq> 23 then Some (- 1, [], rl, SSLerror ERR_R_SHOULD_NOT_HAVE_BEEN_CALLED ssl)
        else if len < 0 then Some (- 1, [], rl, SSLerror SSL_R_BAD_LENGTH ssl)
        else map_option
          (\<lambda>(ret, buf, rl, ssl). case tls13_legacy_return_code tr ret ssl of (ret, ssl) \<Rightarrow> (ret, buf, rl, ssl))
          (if peek then tls13_peek_application_data grant (rl_callbacks tr grant) (nat len) (rl, ssl)
           else tls13_read_application_data grant (rl_callbacks tr grant) (nat len) (rl, ssl)))"

text \<open>The loop of \<open>tls13_legacy_write_bytes\<close>, \<open>n\<close> bytes being left. A record layer that reports more than it was given (the rest of
  a longer write that was not repeated) makes \<open>n\<close> wrap around and the code read past \<open>buf\<close>: \<open>None\<close>.\<close>

partial_function (option) write_bytes_loop ::
    "'b transport \<Rightarrow> (nat \<Rightarrow> bool) \<Rightarrow> bytes \<Rightarrow> nat \<Rightarrow> nat \<Rightarrow> ('s, 'c, 'b) conn_state \<Rightarrow> (int \<times> ('s, 'c, 'b) conn_state) option" where
  "write_bytes_loop tr grant buf sent n st =
     (if n = 0 then Some (int sent, fst st, (snd st)\<lparr>ssl_wnum := 0\<rparr>)
      else case tls13_write_application_data grant (rl_callbacks tr grant) (take n (drop sent buf)) st of
        None \<Rightarrow> None
      | Some (ret, st') \<Rightarrow>
          if ret \<le> 0 then
            (case tls13_legacy_return_code tr ret ((snd st')\<lparr>ssl_wnum := sent\<rparr>) of (ret, ssl) \<Rightarrow> Some (ret, fst st', ssl))
          else if n < nat ret then None
          else write_bytes_loop tr grant buf (sent + nat ret) (n - nat ret) st')"

text \<open>The number of bytes is \<open>len\<close>, of which \<open>buf\<close> holds those that are not negative in number.\<close>

definition tls13_legacy_write_bytes ::
    "'b transport \<Rightarrow> (nat \<Rightarrow> bool) \<Rightarrow> (('s, 'c, 'b) conn_state \<Rightarrow> int \<times> ('s, 'c, 'b) conn_state) \<Rightarrow> int \<Rightarrow> bytes \<Rightarrow> int
      \<Rightarrow> ('s, 'c, 'b) conn_state \<Rightarrow> (int \<times> ('s, 'c, 'b) conn_state) option" where
  "tls13_legacy_write_bytes tr grant handshake_func typ buf len st =
     (if \<not> ssl_has_ctx (snd st) \<or> \<not> tc_handshake_completed (snd st) then
        (case handshake_func st of
           (ret, rl, ssl) \<Rightarrow>
             if ret \<le> 0 then Some (ret, rl, ssl)
             else case tls13_legacy_return_code tr TLS13_IO_WANT_POLLOUT ssl of (ret, ssl) \<Rightarrow> Some (ret, rl, ssl))
      else
        let (rl, ssl) = st in
        if typ \<noteq> 23 then Some (- 1, rl, SSLerror ERR_R_SHOULD_NOT_HAVE_BEEN_CALLED ssl)
        else if len < 0 then Some (- 1, rl, SSLerror SSL_R_BAD_LENGTH ssl)
        else if ssl_mode ssl AND SSL_MODE_ENABLE_PARTIAL_WRITE \<noteq> 0 then
          map_option (\<lambda>(ret, rl, ssl). case tls13_legacy_return_code tr ret ssl of (ret, ssl) \<Rightarrow> (ret, rl, ssl))
            (tls13_write_application_data grant (rl_callbacks tr grant) (take (nat len) buf) (rl, ssl))
        else if nat len < ssl_wnum ssl then Some (- 1, rl, SSLerror SSL_R_BAD_LENGTH ssl)
        else write_bytes_loop tr grant buf (ssl_wnum ssl) (nat len - ssl_wnum ssl) (rl, ssl))"

text \<open>The end of \<open>tls13_legacy_shutdown\<close>, after a part of it that either returns or goes on.\<close>

definition shutdown_result :: "'b transport \<Rightarrow> (int option \<times> ('s, 'c, 'b) conn_state) \<Rightarrow> int \<times> ('s, 'c, 'b) conn_state" where
  "shutdown_result tr r =
     (case r of
        (Some ret, rl, ssl) \<Rightarrow> (case tls13_legacy_return_code tr ret ssl of (ret, ssl) \<Rightarrow> (ret, rl, ssl))
      | (None, rl, ssl) \<Rightarrow> (if tc_close_notify_recv ssl then 1 else 0, rl, ssl))"

definition shutdown_send :: "'b transport \<Rightarrow> (nat \<Rightarrow> bool) \<Rightarrow> ('s, 'c, 'b) conn_state \<Rightarrow> int option \<times> ('s, 'c, 'b) conn_state" where
  "shutdown_send tr grant st =
     (let (rl, ssl) = st in
      case (if ssl_shutdown ssl AND SSL_SENT_SHUTDOWN = 0
            then tls13_send_alert grant (rl_callbacks tr grant) TLS13_ALERT_CLOSE_NOTIFY (rl, ssl\<lparr>ssl_shutdown := ssl_shutdown ssl OR SSL_SENT_SHUTDOWN\<rparr>)
            else (0, rl, ssl)) of
        (ret, st) \<Rightarrow>
          if ret < 0 then (Some ret, st)
          else case tls13_record_layer_send_pending grant (rl_callbacks tr grant) st of
            (ret, st) \<Rightarrow> (if ret \<noteq> TLS13_IO_SUCCESS then Some ret else None, st))"

definition shutdown_recv :: "'b transport \<Rightarrow> (nat \<Rightarrow> bool) \<Rightarrow> ('s, 'c, 'b) conn_state \<Rightarrow> (int option \<times> ('s, 'c, 'b) conn_state) option" where
  "shutdown_recv tr grant st =
     (if tls13_pending_application_data (fst st) = 0 then
        map_option (\<lambda>(ret, buf, st). (if ret < 0 then Some ret else None, st)) (tls13_read_application_data grant (rl_callbacks tr grant) 512 st)
      else Some (None, st))"

definition tls13_legacy_shutdown ::
    "'b transport \<Rightarrow> (nat \<Rightarrow> bool) \<Rightarrow> ('s, 'c, 'b) conn_state \<Rightarrow> (int \<times> ('s, 'c, 'b) conn_state) option" where
  "tls13_legacy_shutdown tr grant st =
     (let (rl, ssl) = st in
      if \<not> ssl_has_ctx ssl \<or> ssl_quiet_shutdown ssl then Some (1, rl, ssl\<lparr>ssl_shutdown := SSL_SENT_SHUTDOWN OR SSL_RECEIVED_SHUTDOWN\<rparr>)
      else if \<not> tc_close_notify_sent ssl then Some (shutdown_result tr (shutdown_send tr grant st))
      else if \<not> tc_close_notify_recv ssl then map_option (shutdown_result tr) (shutdown_recv tr grant st)
      else Some (shutdown_result tr (None, st)))"

end
