(* ===== verification/Tls13_Lib_Host.thy ===== *)
theory Tls13_Lib_Host
  imports Tls13_Lib
begin

text \<open>
  The callbacks of \<^verbatim>\<open>ssl/tls13_lib.c\<close> respect what the record layer expects of them (the locales \<open>alert_host\<close> and
  \<open>record_host\<close>), so that the calls of the application return, and a connection that has seen a fatal alert stays dead.
\<close>

section \<open>The table of callbacks\<close>

text \<open>Reading handshake data does not depend on the callback for post-handshake messages: the table may hold
  \<open>tls13_phh_received_cb\<close> applied to the table itself.\<close>

lemma cb_fields [simp]:
  "cb_wire_read (cb\<lparr>cb_phh_recv := f\<rparr>) = cb_wire_read cb" "cb_wire_write (cb\<lparr>cb_phh_recv := f\<rparr>) = cb_wire_write cb"
  by simp_all

lemma phh_recv_irrelevant_write:
  "tls13_record_layer_write_record grant (cb\<lparr>cb_phh_recv := f\<rparr>) t c st = tls13_record_layer_write_record grant cb t c st"
  by (simp add: tls13_record_layer_write_record_def write_new_record_def cong: if_cong option.case_cong prod.case_cong bool.case_cong)

lemma phh_recv_irrelevant_send:
  "tls13_record_layer_send_pending grant (cb\<lparr>cb_phh_recv := f\<rparr>) st = tls13_record_layer_send_pending grant cb st"
  by (simp add: phh_recv_irrelevant_write tls13_record_layer_send_pending_def tls13_record_layer_send_alert_def
      tls13_record_layer_send_phh_def tls13_record_layer_write_chunk_def cong: if_cong option.case_cong prod.case_cong)

lemma phh_recv_irrelevant_alert: "tls13_send_alert grant (cb\<lparr>cb_phh_recv := f\<rparr>) d st = tls13_send_alert grant cb d st"
proof (induction grant cb d st rule: tls13_send_alert.induct)
  case (1 grant cb d st)
  have q: "tls13_record_layer_enqueue_alert grant (cb\<lparr>cb_phh_recv := f\<rparr>) l d st = tls13_record_layer_enqueue_alert grant cb l d st" for l
    by (simp add: tls13_record_layer_enqueue_alert_def phh_recv_irrelevant_send cong: if_cong option.case_cong)
  obtain r st' where e: "tls13_record_layer_enqueue_alert grant cb (if d = 0 \<or> d = 90 then 1 else 2) d st = (r, st')" by (meson surj_pair)
  have "tls13_send_alert grant (cb\<lparr>cb_phh_recv := f\<rparr>) d st' = tls13_send_alert grant cb d st'" if "r = TLS13_IO_WANT_RETRY"
    using 1 [OF refl e [symmetric] that] .
  then show ?case
    by (simp add: tls13_send_alert.simps [of _ _ _ st] q e)
qed

lemma phh_recv_irrelevant_internal:
  "tls13_record_layer_read_internal grant (cb\<lparr>cb_phh_recv := f\<rparr>) SSL3_RT_HANDSHAKE n peek st = tls13_record_layer_read_internal grant cb SSL3_RT_HANDSHAKE n peek st"
proof -
  have p: "tls13_record_layer_process_alert grant (cb\<lparr>cb_phh_recv := f\<rparr>) st = tls13_record_layer_process_alert grant cb st" for st
    by (simp add: tls13_record_layer_process_alert_def phh_recv_irrelevant_alert cong: if_cong option.case_cong prod.case_cong bool.case_cong)
  have r: "tls13_record_layer_read_record grant (cb\<lparr>cb_phh_recv := f\<rparr>) st = tls13_record_layer_read_record grant cb st" for st
    by (simp add: tls13_record_layer_read_record_def read_ccs_def read_opened_def p phh_recv_irrelevant_alert cong: if_cong option.case_cong prod.case_cong bool.case_cong)
  show ?thesis
    by (simp add: tls13_record_layer_read_internal_def read_fill_def r phh_recv_irrelevant_send read_deliver_def phh_recv_irrelevant_alert
        cong: if_cong option.case_cong prod.case_cong bool.case_cong)
qed

lemma read_loop_cong:
  assumes "read_loop grant cb t n peek st = Some r" and "\<And>st. tls13_record_layer_read_internal grant cb' t n peek st = tls13_record_layer_read_internal grant cb t n peek st"
  shows "read_loop grant cb' t n peek st = Some r"
proof -
  let ?P = "\<lambda>g c t' n' p st r. g = grant \<and> c = cb \<and> t' = t \<and> n' = n \<and> p = peek \<longrightarrow> read_loop grant cb' t n peek st = Some r"
  have "?P grant cb t n peek st r"
  proof (rule read_loop.raw_induct [of ?P, OF _ assms(1)], intro impI, elim conjE)
    fix loop g c t' n' p st1 r1
    assume hyp: "\<And>g c t' n' p st r. loop g c t' n' p st = Some r \<Longrightarrow> ?P g c t' n' p st r"
      and body: "(case tls13_record_layer_read_internal g c t' n' p st1 of (ret, buf, st') \<Rightarrow>
        if ret = TLS13_IO_WANT_RETRY then loop g c t' n' p st' else Some (ret, buf, st')) = Some r1"
      and eq: "g = grant" "c = cb" "t' = t" "n' = n" "p = peek"
    obtain i b st2 where ri: "tls13_record_layer_read_internal grant cb t n peek st1 = (i, b, st2)" by (metis prod_cases3)
    show "read_loop grant cb' t n peek st1 = Some r1"
    proof (cases "i = TLS13_IO_WANT_RETRY")
      case True
      then have "loop grant cb t n peek st2 = Some r1" using body eq ri by simp
      then show ?thesis using hyp [of grant cb t n peek st2 r1] ri True by (subst read_loop.simps) (simp add: assms(2))
    next
      case False
      then have "r1 = (i, b, st2)" using body eq ri by simp
      then show ?thesis using ri False by (subst read_loop.simps) (simp add: assms(2))
    qed
  qed
  then show ?thesis by simp
qed

lemma read_handshake_data_phh_recv:
  "tls13_read_handshake_data grant (cb\<lparr>cb_phh_recv := f\<rparr>) n st = tls13_read_handshake_data grant cb n st"
proof -
  have l: "read_loop grant (cb\<lparr>cb_phh_recv := f\<rparr>) SSL3_RT_HANDSHAKE n False st = read_loop grant cb SSL3_RT_HANDSHAKE n False st"
    using read_loop_cong [of grant cb SSL3_RT_HANDSHAKE n False st _ "cb\<lparr>cb_phh_recv := f\<rparr>"]
      read_loop_cong [of grant "cb\<lparr>cb_phh_recv := f\<rparr>" SSL3_RT_HANDSHAKE n False st _ cb] phh_recv_irrelevant_internal
    by (metis not_None_eq)
  have "read_finish grant (cb\<lparr>cb_phh_recv := f\<rparr>) = read_finish grant cb"
    by (intro ext) (simp add: read_finish_def phh_recv_irrelevant_alert split: prod.split)
  then show ?thesis by (simp add: tls13_read_handshake_data_def tls13_record_layer_read_def l)
qed

lemma phh_received_cb_unfold:
  fixes tr :: "'b transport"
  shows "cb_phh_recv (rl_callbacks tr grant :: ('s, 'c, ('c, 'b) tls13_conn) tls13_record_layer_callbacks)
    = Some (tls13_phh_received_cb tr grant (rl_callbacks tr grant))"
proof -
  define cb base :: "('s, 'c, ('c, 'b) tls13_conn) tls13_record_layer_callbacks" where "cb = rl_callbacks tr grant" and "base = rl_callbacks_base tr grant"
  note cb_def = this(1) and base_def = this(2)
  have cb: "cb = base\<lparr>cb_phh_recv := Some (tls13_phh_received_cb tr grant base)\<rparr>" by (simp add: cb_def base_def rl_callbacks_def)
  have h: "handshake_read_cb grant cb = handshake_read_cb grant base"
    by (intro ext) (simp add: handshake_read_cb_def cb read_handshake_data_phh_recv)
  have a: "tls13_send_alert grant cb d st = tls13_send_alert grant base d st" for d st by (simp add: cb phh_recv_irrelevant_alert)
  have p: "tls13_record_layer_phh grant cb c st = tls13_record_layer_phh grant base c st" for c st
    by (simp add: cb tls13_record_layer_phh_def phh_recv_irrelevant_send cong: if_cong option.case_cong prod.case_cong)
  have k: "tls13_key_update_recv grant cb cbs st = tls13_key_update_recv grant base cbs st" for cbs st
    by (simp add: tls13_key_update_recv_def a p cong: if_cong option.case_cong prod.case_cong bool.case_cong)
  have "tls13_phh_received_cb tr grant cb = tls13_phh_received_cb tr grant base"
    by (intro ext) (simp add: tls13_phh_received_cb_def h a k Let_def cong: if_cong option.case_cong prod.case_cong bool.case_cong)
  moreover have "cb_phh_recv cb = Some (tls13_phh_received_cb tr grant base)" by (simp add: cb)
  ultimately show ?thesis by (simp add: cb_def)
qed

section \<open>Alerts\<close>

lemma wire_results:
  "tls13_legacy_wire_read_cb tr w n = (ret, bs, w') \<Longrightarrow> 0 < ret \<or> ret \<in> {TLS13_IO_WANT_POLLIN, TLS13_IO_EOF, TLS13_IO_FAILURE}"
  "tls13_legacy_wire_write_cb tr w bs = (ret, w') \<Longrightarrow> 0 < ret \<or> ret \<in> {TLS13_IO_WANT_POLLOUT, TLS13_IO_FAILURE}"
  by (auto simp: tls13_legacy_wire_read_cb_def tls13_legacy_wire_read_def tls13_legacy_wire_write_cb_def tls13_legacy_wire_write_def Let_def
      split: if_splits prod.splits)

lemma set_traffic_key_only:
  "tls13_record_layer_set_read_traffic_key grant log rl k = (ok, rl', log') \<Longrightarrow> \<exists>rp. rl' = rl\<lparr>rl_read := rp\<rparr>"
  "tls13_record_layer_set_write_traffic_key grant log rl k = (ok, rl', log') \<Longrightarrow> \<exists>rp. rl' = rl\<lparr>rl_write := rp\<rparr>"
  by (auto simp: tls13_record_layer_set_read_traffic_key_def tls13_record_layer_set_write_traffic_key_def split: option.splits prod.splits
      intro: exI [of _ "rl_read rl"] exI [of _ "rl_write rl"])

text \<open>A key update changes the keys of the record layer and the secrets of the context.\<close>

definition rekeys :: "('s, 'c, 'b) conn_state \<Rightarrow> ('s, 'c, 'b) conn_state \<Rightarrow> bool" where
  "rekeys st st' \<longleftrightarrow> (\<exists>r w s l. st' = ((fst st)\<lparr>rl_read := r, rl_write := w\<rparr>, (snd st)\<lparr>tc_secrets := s, tc_claims := l\<rparr>))"

lemma install_key_rekeys:
  assumes "install_key set_key secret upd st = (ok, st')"
    and "\<And>log rl k ok rl' log'. set_key log rl k = (ok, rl', log') \<Longrightarrow> \<exists>r w. rl' = rl\<lparr>rl_read := r, rl_write := w\<rparr>"
  shows "rekeys st st'"
proof -
  have "\<exists>r w. rl = rl\<lparr>rl_read := r, rl_write := w\<rparr>" for rl :: "('a, 'b) tls13_record_layer"
    by (intro exI [of _ "rl_read rl"] exI [of _ "rl_write rl"]) simp
  then show ?thesis
    using assms by (auto simp: install_key_def rekeys_def split: prod.splits bool.splits) metis+
qed

lemma update_rekeys:
  "tls13_phh_update_local_traffic_secret grant st = (ok, st') \<Longrightarrow> rekeys st st'"
  "tls13_phh_update_peer_traffic_secret grant st = (ok, st') \<Longrightarrow> rekeys st st'"
proof -
  have r: "\<exists>r w. rl' = rl\<lparr>rl_read := r, rl_write := w\<rparr>" if "tls13_record_layer_set_read_traffic_key grant log rl k = (ok, rl', log')" for log rl k ok rl' log'
    using set_traffic_key_only(1) [OF that] by (metis tls13_record_layer.update_convs(28) tls13_record_layer.surjective)
  have w: "\<exists>r w. rl' = rl\<lparr>rl_read := r, rl_write := w\<rparr>" if "tls13_record_layer_set_write_traffic_key grant log rl k = (ok, rl', log')" for log rl k ok rl' log'
    using set_traffic_key_only(2) [OF that] by (metis tls13_record_layer.update_convs(27) tls13_record_layer.surjective)
  have ir: "rekeys st st'" if "install_key (tls13_record_layer_set_read_traffic_key grant) secret upd st = (ok, st')" for secret upd
    using install_key_rekeys [OF that] r by blast
  have iw: "rekeys st st'" if "install_key (tls13_record_layer_set_write_traffic_key grant) secret upd st = (ok, st')" for secret upd
    using install_key_rekeys [OF that] w by blast
  show "tls13_phh_update_local_traffic_secret grant st = (ok, st') \<Longrightarrow> rekeys st st'"
    "tls13_phh_update_peer_traffic_secret grant st = (ok, st') \<Longrightarrow> rekeys st st'"
    using ir iw by (auto simp: tls13_phh_update_local_traffic_secret_def tls13_phh_update_peer_traffic_secret_def Let_def split: if_splits)
qed

lemma rekeys_keeps:
  assumes "rekeys st st'"
  shows "alert_ok (fst st') = alert_ok (fst st)" "dead (fst st') = dead (fst st)" "rl_rrec (fst st') = rl_rrec (fst st)"
    "rl_rbuf_cbs (fst st') = rl_rbuf_cbs (fst st)" "ssl_bio (snd st') = ssl_bio (snd st)"
  using assms by (auto simp: rekeys_def dead_def split: option.splits)

lemma phh_done_keeps:
  "alert_ok (fst (tls13_phh_done_cb grant st)) = alert_ok (fst st)" "rl_rrec (fst (tls13_phh_done_cb grant st)) = rl_rrec (fst st)"
  "rl_rbuf_cbs (fst (tls13_phh_done_cb grant st)) = rl_rbuf_cbs (fst st)" "ssl_bio (snd (tls13_phh_done_cb grant st)) = ssl_bio (snd st)"
proof -
  obtain ok rl ctx where u: "tls13_phh_update_local_traffic_secret grant st = (ok, rl, ctx)" by (metis prod_cases3)
  show "alert_ok (fst (tls13_phh_done_cb grant st)) = alert_ok (fst st)" "rl_rrec (fst (tls13_phh_done_cb grant st)) = rl_rrec (fst st)"
    "rl_rbuf_cbs (fst (tls13_phh_done_cb grant st)) = rl_rbuf_cbs (fst st)" "ssl_bio (snd (tls13_phh_done_cb grant st)) = ssl_bio (snd st)"
    using u rekeys_keeps [OF update_rekeys(1) [OF u]] by (simp_all add: tls13_phh_done_cb_def)
qed

interpretation base_alerts: alert_host "rl_callbacks_base tr grant" for tr grant
proof
  show "fst (cb_wire_read (rl_callbacks_base tr grant) w n) \<noteq> TLS13_IO_ALERT" for w n
    by (cases "tls13_legacy_wire_read_cb tr w n") (auto simp: rl_callbacks_base_def dest!: wire_results)
  show "fst (cb_wire_write (rl_callbacks_base tr grant) w bs) \<noteq> TLS13_IO_ALERT" "fst (cb_wire_write (rl_callbacks_base tr grant) w bs) \<noteq> TLS13_IO_EOF" for w bs
    by (cases "tls13_legacy_wire_write_cb tr w bs", auto simp: rl_callbacks_base_def dest!: wire_results)+
qed (auto simp: rl_callbacks_base_def phh_done_keeps split: prod.splits)

text \<open>What every read does, receiving a message does.\<close>

lemma buffer_fill_steps:
  assumes "buffer_fill rd buf w = (ret, buf', w')" and "\<And>v n r bs v'. rd v n = (r, bs, v') \<Longrightarrow> R r v v'"
    and tr: "\<And>r v v' r' v''. R r v v' \<Longrightarrow> R r' v' v'' \<Longrightarrow> R r' v v''"
    and less: "\<And>r r' v v'. R r v v' \<Longrightarrow> r' = TLS13_IO_FAILURE \<or> 0 < r' \<Longrightarrow> R r' v v'"
  shows "R ret w w'"
  using assms(1,2)
proof (induction rd buf w rule: buffer_fill.induct)
  case (1 rd buf w)
  obtain r bs w1 where rd: "rd w (tb_capacity buf - tb_len buf) = (r, bs, w1)" by (metis prod_cases3)
  note s = 1(3) [OF rd]
  show ?case
  proof (cases "r \<le> 0 \<or> int (tb_capacity buf - tb_len buf) < r")
    case True
    then show ?thesis using 1(2) rd s less buffer_fill.simps [of rd buf w] by (auto simp: Let_def split: if_splits)
  next
    case False
    then show ?thesis using 1(2) 1(1) [OF rd [symmetric] refl refl] 1(3) rd tr [OF s] less [OF s] buffer_fill.simps [of rd buf w]
      by (auto simp: Let_def split: if_splits)
  qed
qed

lemma msg_recv_steps:
  assumes "tls13_handshake_msg_recv grant rd msg w = (ret, msg', w')" and rd: "\<And>v n r bs v'. rd v n = (r, bs, v') \<Longrightarrow> R r v v'"
    and tr: "\<And>r v v' r' v''. R r v v' \<Longrightarrow> R r' v' v'' \<Longrightarrow> R r' v v''"
    and less: "\<And>r r' v v'. R r v v' \<Longrightarrow> r' = TLS13_IO_FAILURE \<or> 0 < r' \<Longrightarrow> R r' v v'" and rf: "\<And>v. R TLS13_IO_FAILURE v v"
  shows "R ret w w'"
proof -
  have e: "R r v v'" if "tls13_buffer_extend grant rd buf (4 + n) v = (r, buf', v')" for buf n v r buf' v'
    using that buffer_fill_steps [of rd _ v r buf' v' R, OF _ rd tr less] less [OF rf, of r v]
    by (auto simp: tls13_buffer_extend_def rf split: if_splits bool.splits prod.splits)
  have h: "R r v v'" if "msg_recv_header grant rd m v = (r, m', v')" for m v r m' v'
    using that by (auto simp: msg_recv_header_def Let_def split: prod.splits if_splits option.splits dest!: e [of _ 0, simplified] intro: less)
  have b: "R r v v'" if "msg_recv_body grant rd m v = (r, m', v')" for m v r m' v'
    using that by (auto simp: msg_recv_body_def Let_def split: prod.splits if_splits option.splits dest!: e intro: less)
  show ?thesis
    using assms(1) by (auto simp: tls13_handshake_msg_recv_def rf split: if_splits prod.splits dest: h b intro: tr)
qed

context alert_host
begin

lemma phh_survives:
  assumes "tls13_record_layer_phh grant cb c st = (ret, st')"
  shows "survives ret st st'"
proof -
  have "survives ret (rl, w) st'" if "tls13_record_layer_send_pending grant cb (rl\<lparr>rl_phh_data := a, rl_phh_cbs := x\<rparr>, w) = (ret, st')" for rl w a x
    using send_pending_survives [OF that] by (simp add: survives_def)
  then show ?thesis
    using assms by (auto simp: tls13_record_layer_phh_def survivesI split: prod.splits if_splits option.splits)
qed

lemma handshake_read_survives: "handshake_read_cb grant cb st n = (ret, bs, st') \<Longrightarrow> survives ret st st'"
  by (auto simp: handshake_read_cb_def tls13_read_handshake_data_def survivesI split: option.splits dest: read_survives)

lemma msg_recv_survives:
  assumes "tls13_handshake_msg_recv grant' (handshake_read_cb grant cb) msg st = (ret, msg', st')"
  shows "survives ret st st'"
  by (rule msg_recv_steps [OF assms, where R = survives])
    (auto simp: survives_def dest: handshake_read_survives)

end

text \<open>What a step of the context does that leaves the record layer alone, or changes its keys only.\<close>

lemma survives_context: "survives ret (rl, ctx) st' \<Longrightarrow> survives ret (rl, ctx') st'"
  by (simp add: survives_def)

lemma key_update_recv_survives:
  assumes "tls13_key_update_recv grant (rl_callbacks_base tr grant) cbs st = (ret, st')"
  shows "survives ret st st'"
proof -
  have r: "survives ret st st'" if "survives ret (rl, ctx') st'" "tls13_phh_update_peer_traffic_secret grant st = (ok, rl, ctx)" for ok rl ctx ctx'
    using that(1) rekeys_keeps(1) [OF update_rekeys(2) [OF that(2)]] by (simp add: survives_def)
  have s: "survives TLS13_IO_SUCCESS st (rl, ctx)" if "tls13_phh_update_peer_traffic_secret grant st = (ok, rl, ctx)" for ok rl ctx
    using rekeys_keeps(1) [OF update_rekeys(2) [OF that]] by (simp add: survives_def)
  obtain ok rl ctx where u: "tls13_phh_update_peer_traffic_secret grant st = (ok, rl, ctx)" by (metis prod_cases3)
  show ?thesis
    using assms u s [OF u] r [OF _ u]
    by (auto simp: tls13_key_update_recv_def split: option.splits prod.splits if_splits bool.splits
        dest!: base_alerts.tls13_send_alert_survives base_alerts.phh_survives)
qed

lemma limit_check_bio: "tls13_phh_limit_check now ctx = (ok, ctx') \<Longrightarrow> ssl_bio ctx' = ssl_bio ctx"
  by (auto simp: tls13_phh_limit_check_def Let_def split: if_splits)

text \<open>A relation of states that holds for sending an alert, for receiving a message and for a key update holds for
  \<open>tls13_phh_received_cb\<close>, when the fields of the context other than the transport do not matter to it.\<close>

lemma phh_received_steps:
  assumes run: "tls13_phh_received_cb tr grant cb (rl, ctx) = (ret, st')"
    and alert: "\<And>st r st'. tls13_send_alert grant cb TLS13_ALERT_UNEXPECTED_MESSAGE st = (r, st') \<Longrightarrow> R r st st'"
    and recv: "\<And>m st r m' st'. tls13_handshake_msg_recv grant (handshake_read_cb grant cb) m st = (r, m', st') \<Longrightarrow> R r st st'"
    and upd: "\<And>cbs st r st'. tls13_key_update_recv grant cb cbs st = (r, st') \<Longrightarrow> R r st st'"
    and tr: "\<And>r v v' r' v''. R r v v' \<Longrightarrow> R r' v' v'' \<Longrightarrow> R r' v v''"
    and less: "\<And>r r' v v'. R r v v' \<Longrightarrow> r' = TLS13_IO_FAILURE \<Longrightarrow> R r' v v'"
    and ctx: "\<And>r rl c c'. r \<noteq> TLS13_IO_ALERT \<Longrightarrow> ssl_bio c = ssl_bio c' \<Longrightarrow> R r (rl, c) (rl, c')"
    and right: "\<And>r v rl c c'. R r v (rl, c) \<Longrightarrow> ssl_bio c = ssl_bio c' \<Longrightarrow> R r v (rl, c')"
  shows "R ret (rl, ctx) st'"
proof -
  obtain ok ctx1 where l: "tls13_phh_limit_check (sys_time tr (ssl_bio ctx)) ctx = (ok, ctx1)" by force
  note b1 = limit_check_bio [OF l]
  have first: "R r (rl, ctx) v" if "R r (rl, ctx1) v" for r v using tr [OF ctx that, of 0 ctx] b1 by simp
  show ?thesis
  proof (cases "ok \<and> (case tc_hs_msg ctx1 of None \<Rightarrow> tls13_handshake_msg_new grant | Some m \<Rightarrow> Some m) \<noteq> None")
    case False
    then show ?thesis using run l first alert ctx b1 by (auto simp: tls13_phh_received_cb_def split: bool.splits)
  next
    case True
    then obtain m where m: "(case tc_hs_msg ctx1 of None \<Rightarrow> tls13_handshake_msg_new grant | Some m \<Rightarrow> Some m) = Some m" "ok" by blast
    obtain set m1 where s: "tls13_handshake_msg_set_buffer grant m (rl_rbuf_cbs rl) = (set, m1)" by force
    obtain r m2 rl2 ctx2 where rc: "tls13_handshake_msg_recv grant (handshake_read_cb grant cb) m1 (rl, ctx1) = (r, m2, rl2, ctx2)" by (metis prod_cases3)
    let ?s2 = "(rl2, ctx2\<lparr>tc_hs_msg := Some m2\<rparr>)"
    have r2: "R r (rl, ctx) ?s2" using first [OF right [OF recv [OF rc]]] by simp
    have upd': "R i (rl, ctx) (rl3, ctx3\<lparr>tc_hs_msg := None\<rparr>)" if "tls13_key_update_recv grant cb c ?s2 = (i, rl3, ctx3)" for c i rl3 ctx3
      using tr [OF r2 right [OF upd [OF that]]] by simp
    have last: "R r (rl, ctx) (rl2, ctx2\<lparr>tc_hs_msg := None\<rparr>)" using right [OF r2] by simp
    show ?thesis
    proof (cases set)
      case True
      then show ?thesis using run l m s rc r2 upd' last less [OF r2] less [OF last]
        by (auto simp: tls13_phh_received_cb_def Let_def split: if_splits option.splits prod.splits)
    next
      case False
      then show ?thesis using run l m s b1 ctx by (auto simp: tls13_phh_received_cb_def)
    qed
  qed
qed

lemma phh_received_survives:
  assumes "tls13_phh_received_cb tr grant (rl_callbacks_base tr grant) st = (ret, st')"
  shows "survives ret st st'"
proof -
  have "survives ret (fst st, snd st) st'"
    by (rule phh_received_steps [where R = survives, OF _ base_alerts.tls13_send_alert_survives base_alerts.msg_recv_survives key_update_recv_survives])
      (use assms in \<open>auto simp: survives_def\<close>)
  then show ?thesis by simp
qed

interpretation lib_alerts: alert_host "rl_callbacks tr grant" for tr grant
proof
  show "survives ret st st'" if "cb_phh_recv (rl_callbacks tr grant) = Some f" "f st = (ret, st')" for f st ret st'
    using that by (auto simp: rl_callbacks_def dest: phh_received_survives)
qed (simp_all add: rl_callbacks_def base_alerts.read_results base_alerts.write_results base_alerts.alert_recv_keeps base_alerts.alert_sent_keeps
    base_alerts.phh_sent_keeps)

section \<open>Returning\<close>

text \<open>What a transport has to respect: reading takes the next bytes that the peer has sent, and nothing else does.\<close>

locale duplex_transport =
  fixes tr :: "'b transport" and content :: "'b \<Rightarrow> bytes"
  assumes bio_source: "byte_source (bio_read tr) content"
    and write_content: "bio_write tr b bs = (r, b') \<Longrightarrow> content b' = content b"
    and retry_content: "content (bio_set_retry_read tr b) = content b" "content (bio_set_retry_write tr b) = content b"
begin

definition stream :: "('c, 'b) tls13_conn \<Rightarrow> bytes" where
  "stream ssl = content (ssl_bio ssl)"

lemma wire_source: "byte_source (tls13_legacy_wire_read_cb tr) stream"
proof
  fix w :: "('c, 'b) tls13_conn" and n ret bs w'
  assume rd: "tls13_legacy_wire_read_cb tr w n = (ret, bs, w')"
  obtain r buf b where br: "bio_read tr (ssl_bio w) n = (r, buf, b)" by (metis prod_cases3)
  note src = byte_source.read_room [OF bio_source br] byte_source.read_bytes [OF bio_source br] byte_source.read_none [OF bio_source br]
  show "length bs \<le> n" "0 < ret \<Longrightarrow> ret = int (length bs) \<and> stream w = bs @ stream w'" "ret \<le> 0 \<Longrightarrow> stream w' = stream w"
    using rd br src
    by (auto simp: tls13_legacy_wire_read_cb_def tls13_legacy_wire_read_def SSLerror_def stream_def Let_def split: if_splits)
qed

lemma wire_write_stream: "tls13_legacy_wire_write_cb tr w bs = (ret, w') \<Longrightarrow> stream w' = stream w"
  by (auto simp: tls13_legacy_wire_write_cb_def tls13_legacy_wire_write_def SSLerror_def stream_def Let_def split: if_splits prod.splits dest: write_content)

lemma lib_results:
  fixes cb :: "('s, 'c, ('c, 'b) tls13_conn) tls13_record_layer_callbacks"
  assumes "cb_wire_read cb = tls13_legacy_wire_read_cb tr" "cb_wire_write cb = tls13_legacy_wire_write_cb tr"
  shows "transport_results cb"
proof -
  have "fst (tls13_legacy_wire_write_cb tr w bs) \<noteq> TLS13_IO_WANT_RETRY" for w :: "('c, 'b) tls13_conn" and bs
    by (cases "tls13_legacy_wire_write_cb tr w bs") (auto dest!: wire_results)
  moreover have "fst (tls13_legacy_wire_read_cb tr w n) \<notin> {TLS13_IO_WANT_RETRY, TLS13_IO_RECORD_VERSION, TLS13_IO_RECORD_OVERFLOW}" for w :: "('c, 'b) tls13_conn" and n
    by (cases "tls13_legacy_wire_read_cb tr w n") (auto dest!: wire_results)
  ultimately show ?thesis unfolding transport_results_def assms by blast
qed

lemma notify_stream:
  "stream (tls13_alert_received_cb d ctx) = stream ctx" "stream (tls13_alert_sent_cb d ctx) = stream ctx"
  "stream (snd (tls13_phh_done_cb grant st)) = stream (snd st)"
  by (simp_all add: stream_def tls13_alert_received_cb_def tls13_alert_sent_cb_def SSLerror_def phh_done_keeps)

lemma base_record_host: "record_host (rl_callbacks_base tr grant :: ('s, 'c, ('c, 'b) tls13_conn) tls13_record_layer_callbacks) stream"
proof -
  define cb :: "('s, 'c, ('c, 'b) tls13_conn) tls13_record_layer_callbacks" where "cb = rl_callbacks_base tr grant"
  note base = cb_def rl_callbacks_base_def
  have "record_host cb stream"
  proof (rule record_host.intro)
    show "byte_source (cb_wire_read cb) stream" by (simp add: base wire_source)
    show "transport_results cb" by (rule lib_results) (simp_all add: base)
  qed (auto simp: base phh_done_keeps notify_stream wire_write_stream intro!: tame_same split: prod.splits)
  then show ?thesis by (simp add: cb_def)
qed

lemma tame_context: "ssl_bio c = ssl_bio c' \<Longrightarrow> tame stream (rl, c) (rl, c')"
  by (intro tame_same) (simp_all add: stream_def)

end

sublocale duplex_transport \<subseteq> base: record_host "rl_callbacks_base tr grant" stream for grant
  by (rule base_record_host)

context duplex_transport
begin

lemma handshake_read_tame: "handshake_read_cb grant (rl_callbacks_base tr grant) st n = (ret, bs, st') \<Longrightarrow> tame stream st st'"
  by (auto simp: handshake_read_cb_def tls13_read_handshake_data_def split: option.splits dest: base.read_tame)

lemma send_alert_tame: "tls13_send_alert grant (rl_callbacks_base tr grant) d st = (ret, st') \<Longrightarrow> tame stream st st'"
  by (drule base.tls13_send_alert_effect) (simp add: base.side_effect_def)

lemma key_update_recv_tame:
  assumes "tls13_key_update_recv grant (rl_callbacks_base tr grant) cbs st = (ret, st')"
  shows "tame stream st st'"
proof -
  obtain ok rl ctx where u: "tls13_phh_update_peer_traffic_secret grant st = (ok, rl, ctx)" by (metis prod_cases3)
  have t: "tame stream st (rl, ctx')" if "ssl_bio ctx' = ssl_bio ctx" for ctx'
    using rekeys_keeps [OF update_rekeys(2) [OF u]] that by (intro tame_same) (simp_all add: stream_def)
  have p: "tame stream st st'" if "tls13_record_layer_phh grant (rl_callbacks_base tr grant) c (rl, ctx\<lparr>tc_key_update_request := True\<rparr>) = (ret, st')" for c
    using tame_trans [OF t, of "ctx\<lparr>tc_key_update_request := True\<rparr>" st'] base.phh_effect [OF that] by (simp add: base.side_effect_def)
  have a: "tame stream st st'" if "tls13_send_alert grant (rl_callbacks_base tr grant) d (rl, ctx) = (ret, st')" for d
    by (rule tame_trans [OF t send_alert_tame [OF that]]) simp
  show ?thesis
    using assms u t [of ctx] p a send_alert_tame [of grant _ st ret st']
    by (auto simp: tls13_key_update_recv_def split: option.splits prod.splits if_splits bool.splits)
qed

lemma phh_received_tame:
  assumes "tls13_phh_received_cb tr grant (rl_callbacks_base tr grant) st = (ret, st')"
  shows "tame stream st st'"
proof -
  let ?R = "\<lambda>r :: int. tame stream"
  have m: "tame stream st st'" if "tls13_handshake_msg_recv grant (handshake_read_cb grant (rl_callbacks_base tr grant)) msg st = (ret, msg', st')" for msg st ret msg' st'
    by (rule msg_recv_steps [OF that, where R = ?R]) (auto dest: handshake_read_tame tame_trans)
  have "?R ret (fst st, snd st) st'"
    by (rule phh_received_steps [where R = ?R, OF _ send_alert_tame m key_update_recv_tame])
      (use assms in \<open>auto intro: tame_context tame_trans [OF _ tame_context] elim: tame_trans\<close>)
  then show ?thesis by simp
qed

lemma lib_record_host: "record_host (rl_callbacks tr grant :: ('s, 'c, ('c, 'b) tls13_conn) tls13_record_layer_callbacks) stream"
proof -
  define cb :: "('s, 'c, ('c, 'b) tls13_conn) tls13_record_layer_callbacks" where "cb = rl_callbacks tr grant"
  note lib = cb_def rl_callbacks_def rl_callbacks_base_def
  have "record_host cb stream"
  proof (rule record_host.intro)
    show "byte_source (cb_wire_read cb) stream" by (simp add: lib wire_source)
    show "transport_results cb" by (rule lib_results) (simp_all add: lib)
    show "tame stream st st'" if "cb_phh_recv cb = Some f" "f st = (ret, st')" for f st ret st'
      using that by (auto simp: cb_def rl_callbacks_def dest: phh_received_tame)
  qed (auto simp: lib phh_done_keeps notify_stream wire_write_stream intro!: tame_same split: prod.splits)
  then show ?thesis by (simp add: cb_def)
qed

end

sublocale duplex_transport \<subseteq> lib: record_host "rl_callbacks tr grant" stream for grant
  by (rule lib_record_host)

text \<open>A transport in memory: the bytes that the peer has sent and the bytes that were written. Reading at the end asks to wait.\<close>

definition memory_pair :: "(bytes \<times> bytes) transport" where
  "memory_pair = \<lparr>bio_read = (\<lambda>b n. if fst b = [] \<or> n = 0 then (- 1, [], b) else (int (min n (length (fst b))), take n (fst b), drop n (fst b), snd b)),
     bio_write = (\<lambda>b bs. (int (length bs), fst b, snd b @ bs)), bio_should_read = (\<lambda>b. True), bio_should_write = (\<lambda>b. True),
     bio_set_retry_read = (\<lambda>b. b), bio_set_retry_write = (\<lambda>b. b), sys_errno = (\<lambda>b. 0), sys_time = (\<lambda>b. 0)\<rparr>"

interpretation memory: duplex_transport memory_pair fst
  by unfold_locales (auto simp: memory_pair_def min_def split: if_splits)

end
