(* ===== verification/Tls13_Lib_Calls.thy ===== *)
theory Tls13_Lib_Calls
  imports Tls13_Lib_Host
begin

text \<open>
  The calls of the application on an established connection: they return, and after a fatal alert nothing more is read, delivered or
  written.
\<close>

section \<open>A new context\<close>

text \<open>The context is created by the first call, which attaches it to the connection. 168 is the size of \<open>struct tls13_ctx\<close>; the pointers of
  the callbacks are not part of the state.\<close>

definition tls13_ctx_new :: "(nat \<Rightarrow> bool) \<Rightarrow> u8 \<Rightarrow> ('c, 'b) tls13_conn \<Rightarrow> ('s, 'c, 'b) conn_state option" where
  "tls13_ctx_new grant mode ssl =
     (if \<not> grant 168 then None
      else map_option
        (\<lambda>rl. (rl, ssl\<lparr>tc_mode := mode, tc_handshake_completed := False, tc_close_notify_sent := False, tc_close_notify_recv := False,
           tc_error_code := 0, tc_hs_msg := None, tc_key_update_request := False, tc_phh_count := 0, tc_phh_last_seen := 0, ssl_has_ctx := True\<rparr>))
        (tls13_record_layer_new grant))"

section \<open>What a write reports\<close>

text \<open>A write of application data may report the length of an earlier one that was left unfinished: of a record that is still under way, or
  of one that was pushed out to make way for an alert. \<open>owed m\<close> says that such a length is at most \<open>m\<close>, that there is only one, and that
  alerts have two bytes.\<close>

definition under_way :: "('s, 'c) tls13_record_layer \<Rightarrow> bool" where
  "under_way rl \<longleftrightarrow> (case rl_wrec rl of None \<Rightarrow> False | Some wrec \<Rightarrow> rec_data wrec \<noteq> None)"

definition owed :: "nat \<Rightarrow> ('s, 'c) tls13_record_layer \<Rightarrow> bool" where
  "owed m rl \<longleftrightarrow> rl_wrec_appdata_len rl \<le> m \<and>
     (under_way rl \<and> rl_wrec_content_type rl = SSL3_RT_APPLICATION_DATA \<longrightarrow> rl_wrec_content_len rl \<le> m \<and> rl_wrec_appdata_len rl = 0)
     \<and> (under_way rl \<and> rl_wrec_content_type rl = SSL3_RT_ALERT \<longrightarrow> rl_wrec_content_len rl = 2) \<and> (\<forall>d. rl_alert_data rl = Some d \<longrightarrow> length d = 2)"

lemma seal_into_wrec_under_way:
  "seal_into_wrec rl data t n = (ok, rl') \<Longrightarrow> \<not> under_way rl \<Longrightarrow>
     rl_wrec_appdata_len rl' = rl_wrec_appdata_len rl \<and> (under_way rl' \<longrightarrow> rl_wrec_content_type rl' = t \<and> rl_wrec_content_len rl' = n)"
  by (auto simp: seal_into_wrec_def under_way_def tls13_record_set_data_def split: option.splits if_splits)

lemma seal_under_way:
  assumes "tls13_record_layer_seal_record grant rl t content = (ok, rl')" and "\<not> under_way rl"
  shows "rl_wrec_appdata_len rl' = rl_wrec_appdata_len rl \<and> (under_way rl' \<longrightarrow> rl_wrec_content_type rl' = t \<and> rl_wrec_content_len rl' = length content)"
proof (cases "tls13_record_new grant")
  case None
  then show ?thesis using assms
    by (auto simp: tls13_record_layer_seal_record_def tls13_record_layer_wrec_free_def under_way_def Let_def split: if_splits)
next
  case (Some wrec)
  let ?rl = "tls13_record_layer_wrec_free rl\<lparr>rl_wrec := Some wrec\<rparr>"
  have r: "\<not> under_way ?rl" "\<not> under_way (?rl\<lparr>rl_write := rp\<rparr>)" "rl_wrec_appdata_len (tls13_record_layer_wrec_free rl) = rl_wrec_appdata_len rl" for rp
    using Some by (auto simp: under_way_def tls13_record_new_def tls13_record_layer_wrec_free_def)
  have plain: ?thesis if "tls13_record_layer_seal_record_plaintext grant ?rl t content = (ok, rl')"
    using that r seal_into_wrec_under_way [OF _ r(1)]
    by (auto simp: tls13_record_layer_seal_record_plaintext_def split: if_splits option.splits)
  have prot: ?thesis if "tls13_record_layer_seal_record_protected grant ?rl t content = (ok, rl')"
    using seal_protected_cases [OF that] r seal_into_wrec_under_way [OF _ r(2)] by (auto simp: r(3))
  show ?thesis using assms Some plain prot by (auto simp: tls13_record_layer_seal_record_def Let_def split: if_splits)
qed

lemma record_send_data: "tls13_record_send wr rcd w = (ret, rcd', w') \<Longrightarrow> rec_data rcd' = rec_data rcd \<and> (rec_data rcd = None \<longrightarrow> ret \<le> 0)"
  by (auto simp: tls13_record_send_def split: if_splits prod.splits option.splits)

lemma write_new_record_owed:
  assumes w: "write_new_record grant cb t content (rl, w) = (ret, rl', w')" and u: "\<not> under_way rl"
  shows "rl_wrec_appdata_len rl' = rl_wrec_appdata_len rl \<and> (under_way rl' \<longrightarrow> ret \<le> 0 \<and> rl_wrec_content_type rl' = t \<and> rl_wrec_content_len rl' = length content)
    \<and> (0 < ret \<longrightarrow> ret = int (length content))"
proof (cases "length content \<le> 16384")
  case True
  obtain ok rl1 where s: "tls13_record_layer_seal_record grant rl t content = (ok, rl1)" by force
  note su = seal_under_way [OF s u]
  have f: "\<not> under_way (tls13_record_layer_wrec_free r)" for r :: "('a, 'b) tls13_record_layer" by (simp add: under_way_def tls13_record_layer_wrec_free_def)
  show ?thesis
  proof (cases "ok \<and> rl_wrec rl1 \<noteq> None")
    case ok: True
    then obtain wrec where wrec: "rl_wrec rl1 = Some wrec" by blast
    obtain r wrec' w1 where sd: "tls13_record_send (cb_wire_write cb) wrec w = (r, wrec', w1)" by (metis prod_cases3)
    have u': "under_way (rl1\<lparr>rl_wrec := Some wrec'\<rparr>) = under_way rl1" using record_send_data [OF sd] wrec by (simp add: under_way_def)
    show ?thesis
      using w True s ok wrec sd su u' f by (auto simp: write_new_record_def tls13_record_layer_wrec_free_def Let_def under_way_def split: if_splits)
  next
    case False
    then show ?thesis using w True s su by (auto simp: write_new_record_def under_way_def split: if_splits bool.splits)
  qed
qed (use w u in \<open>simp add: write_new_record_def\<close>)

text \<open>A record of another type leaves the debt; one of application data pays it, or reports its own length.\<close>

lemma write_record_owed:
  assumes w: "tls13_record_layer_write_record grant cb t content (rl, w) = (ret, rl', w')" and ow: "owed m rl"
    and t: "t = SSL3_RT_APPLICATION_DATA \<Longrightarrow> length content \<le> m" "t = SSL3_RT_ALERT \<Longrightarrow> length content = 2"
  shows "owed m rl' \<and> (t = SSL3_RT_APPLICATION_DATA \<longrightarrow> ret \<le> int m \<and> (0 < ret \<longrightarrow> owed 0 rl')) \<and> (t = SSL3_RT_ALERT \<longrightarrow> ret \<le> 0 \<or> ret = 2)"
proof -
  have data: "\<forall>d. rl_alert_data rl' = Some d \<longrightarrow> length d = 2"
    using writes_only_same(1) [OF writes_only_write_record [OF w]] ow by (simp add: owed_def)
  have new: ?thesis if n: "write_new_record grant cb t content (r, v) = (ret, rl', w')" and r: "\<not> under_way r" "rl_wrec_appdata_len r \<le> m"
    "t = SSL3_RT_APPLICATION_DATA \<Longrightarrow> rl_wrec_appdata_len r = 0" for r v
  proof -
    note nw = write_new_record_owed [OF n r(1)]
    have l: "ret \<le> int (length content) \<or> ret \<le> 0" using nw by linarith
    show ?thesis
      using nw r(2,3) t data l by (cases "t = SSL3_RT_APPLICATION_DATA"; cases "t = SSL3_RT_ALERT") (auto simp: owed_def)
  qed
  show ?thesis
  proof (cases "rl_write_closed rl \<or> t = SSL3_RT_APPLICATION_DATA \<and> rl_wrec_appdata_len rl \<noteq> 0")
    case True
    then show ?thesis using w ow by (auto simp: tls13_record_layer_write_record_def owed_def under_way_def split: if_splits)
  next
    case go: False
    show ?thesis
    proof (cases "rl_wrec rl")
      case None
      then show ?thesis using w go ow new [of rl w] by (auto simp: tls13_record_layer_write_record_def owed_def under_way_def)
    next
      case (Some wrec)
      obtain r wrec' w1 where sd: "tls13_record_send (cb_wire_write cb) wrec w = (r, wrec', w1)" by (metis prod_cases3)
      have k: "owed m (rl\<lparr>rl_wrec := Some wrec'\<rparr>)" "0 < r \<Longrightarrow> under_way rl"
        using record_send_data [OF sd] ow Some by (auto simp: owed_def under_way_def)
      have free: "\<not> under_way (rl\<lparr>rl_wrec := None, rl_wrec_appdata_len := a\<rparr>)" "\<not> under_way (rl\<lparr>rl_wrec := None\<rparr>)"
        "\<not> under_way (rl\<lparr>rl_wrec := None, rl_wrec_content_len := x, rl_wrec_content_type := y\<rparr>)" for a x y by (simp_all add: under_way_def)
      consider "r \<le> 0" "ret = r" "rl' = rl\<lparr>rl_wrec := Some wrec'\<rparr>"
        | "0 < r" "rl_wrec_content_type rl = t" "ret = int (rl_wrec_content_len rl)" "rl' = rl\<lparr>rl_wrec := None, rl_wrec_content_len := 0, rl_wrec_content_type := 0\<rparr>"
        | "ret \<le> 0" "rl' = rl\<lparr>rl_wrec := None\<rparr>"
        | "0 < r" "t \<noteq> SSL3_RT_APPLICATION_DATA" "rl_wrec_content_type rl = SSL3_RT_APPLICATION_DATA"
          "write_new_record grant cb t content (rl\<lparr>rl_wrec := None, rl_wrec_appdata_len := rl_wrec_content_len rl\<rparr>, w1) = (ret, rl', w')"
        using w go Some sd by (auto simp: tls13_record_layer_write_record_def tls13_record_layer_wrec_free_def Let_def split: if_splits)
      then show ?thesis
      proof cases
        case 1
        then show ?thesis using k(1) by (simp add: owed_def)
      next
        case 2
        then show ?thesis using k(2) ow free go data by (auto simp: owed_def)
      next
        case 3
        then show ?thesis using ow free data by (auto simp: owed_def)
      next
        case 4
        then show ?thesis using new [OF 4(4) free(1)] k(2) ow by (simp add: owed_def)
      qed
    qed
  qed
qed

text \<open>The callbacks leave the debt as it is, so that sending what is queued does.\<close>

lemma rekeys_owed: "rekeys st st' \<Longrightarrow> owed m (fst st') = owed m (fst st)"
  by (auto simp: rekeys_def owed_def under_way_def)

lemma phh_done_owed: "owed m (fst (tls13_phh_done_cb grant st)) = owed m (fst st)"
proof -
  obtain ok rl ctx where k: "tls13_phh_update_local_traffic_secret grant st = (ok, rl, ctx)" by (metis prod_cases3)
  show ?thesis using k rekeys_owed [OF update_rekeys(1) [OF k]] by (simp add: tls13_phh_done_cb_def)
qed

lemma send_pending_owed:
  assumes "tls13_record_layer_send_pending grant (rl_callbacks tr grant) st = (ret, st')" "owed m (fst st)"
  shows "owed m (fst st') \<and> (ret \<le> 0 \<or> ret = TLS13_IO_SUCCESS)"
proof -
  let ?cb = "rl_callbacks tr grant"
  obtain rl ctx where st: "st = (rl, ctx)" by force
  then have ow: "owed m rl" using assms(2) by simp
  have u: "owed m (r\<lparr>rl_phh_data := a, rl_phh_cbs := c\<rparr>) = owed m r" "owed m (r\<lparr>rl_phh_cbs := c\<rparr>) = owed m r" "owed m r \<Longrightarrow> owed m (r\<lparr>rl_alert_data := None\<rparr>)"
    "owed m r \<Longrightarrow> owed m (r\<lparr>rl_alert_data := None, rl_write_closed := x\<rparr>)" "owed m r \<Longrightarrow> owed m (r\<lparr>rl_alert_data := None, rl_read_closed := y, rl_write_closed := x\<rparr>)"
    for r :: "('a, 'b) tls13_record_layer" and a c x y
    by (simp_all add: owed_def under_way_def)
  have a: ?thesis if sa: "tls13_record_layer_send_alert grant ?cb (rl, ctx) = (ret, st')" and d: "rl_alert_data rl = Some d" for d
  proof -
    have l: "length d = 2" using ow d by (simp add: owed_def)
    obtain i r v where w: "tls13_record_layer_write_record grant ?cb SSL3_RT_ALERT d (rl, ctx) = (i, r, v)" by (metis prod_cases3)
    show ?thesis using write_record_owed [OF w ow _ l] sa d w l u
      by (auto simp: tls13_record_layer_send_alert_def rl_callbacks_def rl_callbacks_base_def Let_def split: if_splits)
  qed
  have p: ?thesis if sp: "tls13_record_layer_send_phh grant ?cb (rl, ctx) = (ret, st')"
  proof -
    obtain i r v where w: "tls13_record_layer_write_chunk grant ?cb SSL3_RT_HANDSHAKE (CBS_data (rl_phh_cbs rl)) (rl, ctx) = (i, r, v)" by (metis prod_cases3)
    have "owed m r" using write_record_owed [OF w [unfolded tls13_record_layer_write_chunk_def] ow] by simp
    then show ?thesis using sp w u by (auto simp: tls13_record_layer_send_phh_def rl_callbacks_def rl_callbacks_base_def Let_def phh_done_owed
        split: if_splits option.splits prod.splits)
  qed
  show ?thesis
    using assms st a p by (auto simp: tls13_record_layer_send_pending_def Let_def split: option.splits if_splits)
qed

lemma pending_loop_steps:
  assumes "pending_loop grant cb st = Some r" and step: "\<And>st ret st'. tls13_record_layer_send_pending grant cb st = (ret, st') \<Longrightarrow> R ret st st'"
    and tr: "\<And>r v v' r' v''. R r v v' \<Longrightarrow> R r' v' v'' \<Longrightarrow> R r' v v''"
  shows "R (fst r) st (snd r)"
proof -
  let ?P = "\<lambda>g c st r. g = grant \<and> c = cb \<longrightarrow> R (fst r) st (snd r)"
  have "?P grant cb st r"
  proof (rule pending_loop.raw_induct [of ?P, OF _ assms(1)], intro impI, elim conjE)
    fix loop g c st1 r1
    assume hyp: "\<And>g c st r. loop g c st = Some r \<Longrightarrow> ?P g c st r"
      and body: "(case tls13_record_layer_send_pending g c st1 of (ret, st') \<Rightarrow> if ret = TLS13_IO_WANT_RETRY then loop g c st' else Some (ret, st')) = Some r1"
      and eq: "g = grant" "c = cb"
    obtain i st2 where p: "tls13_record_layer_send_pending grant cb st1 = (i, st2)" by (meson surj_pair)
    show "R (fst r1) st1 (snd r1)"
    proof (cases "i = TLS13_IO_WANT_RETRY")
      case True
      then have "loop grant cb st2 = Some r1" using body eq p by simp
      then show ?thesis using hyp tr [OF step [OF p]] by blast
    next
      case False
      then have "r1 = (i, st2)" using body eq p by simp
      then show ?thesis using step [OF p] by simp
    qed
  qed
  then show ?thesis by simp
qed

lemma chunk_loop_steps:
  assumes "chunk_loop grant cb t bs st = Some r" and step: "\<And>st ret st'. tls13_record_layer_write_chunk grant cb t bs st = (ret, st') \<Longrightarrow> R ret st st'"
    and tr: "\<And>r v v' r' v''. R r v v' \<Longrightarrow> R r' v' v'' \<Longrightarrow> R r' v v''"
  shows "R (fst r) st (snd r)"
proof -
  let ?P = "\<lambda>g c t' b st r. g = grant \<and> c = cb \<and> t' = t \<and> b = bs \<longrightarrow> R (fst r) st (snd r)"
  have "?P grant cb t bs st r"
  proof (rule chunk_loop.raw_induct [of ?P, OF _ assms(1)], intro impI, elim conjE)
    fix loop g c t' b st1 r1
    assume hyp: "\<And>g c t' b st r. loop g c t' b st = Some r \<Longrightarrow> ?P g c t' b st r"
      and body: "(case tls13_record_layer_write_chunk g c t' b st1 of (ret, st') \<Rightarrow> if ret = TLS13_IO_WANT_RETRY then loop g c t' b st' else Some (ret, st')) = Some r1"
      and eq: "g = grant" "c = cb" "t' = t" "b = bs"
    obtain i st2 where p: "tls13_record_layer_write_chunk grant cb t bs st1 = (i, st2)" by (meson surj_pair)
    show "R (fst r1) st1 (snd r1)"
    proof (cases "i = TLS13_IO_WANT_RETRY")
      case True
      then have "loop grant cb t bs st2 = Some r1" using body eq p by simp
      then show ?thesis using hyp tr [OF step [OF p]] by blast
    next
      case False
      then have "r1 = (i, st2)" using body eq p by simp
      then show ?thesis using step [OF p] by simp
    qed
  qed
  then show ?thesis by simp
qed

section \<open>Returning\<close>

text \<open>A connection whose handshake is complete, with a record layer whose input is in order.\<close>

definition established :: "('s, 'c, 'b) conn_state \<Rightarrow> bool" where
  "established st \<longleftrightarrow> ssl_has_ctx (snd st) \<and> tc_handshake_completed (snd st) \<and> rrec_ok (fst st)"

context duplex_transport
begin

lemma write_application_data_owed:
  assumes w: "tls13_write_application_data grant (rl_callbacks tr grant) buf st = Some (ret, st')" and ow: "owed m (fst st)" and l: "length buf \<le> m"
  shows "owed m (fst st') \<and> ret \<le> int m \<and> (0 < ret \<longrightarrow> owed 0 (fst st'))"
proof (cases "rl_handshake_completed (fst st)")
  case True
  let ?cb = "rl_callbacks tr grant"
  obtain i st1 where p: "pending_loop grant ?cb st = Some (i, st1)" using lib.pending_loop_tame by blast
  have "(\<lambda>i st st'. owed m (fst st) \<longrightarrow> owed m (fst st') \<and> (i \<le> 0 \<or> i = TLS13_IO_SUCCESS)) (fst (i, st1)) st (snd (i, st1))"
    by (rule pending_loop_steps [OF p]) (use send_pending_owed in blast)+
  then have o1: "owed m (fst st1)" "i \<le> 0 \<or> i = TLS13_IO_SUCCESS" using ow by simp_all
  obtain j st2 where c: "tls13_record_layer_write_chunk grant ?cb SSL3_RT_APPLICATION_DATA buf (fst st1, snd st1) = (j, fst st2, snd st2)" by (metis prod.collapse surj_pair)
  have o2: "owed m (fst st2) \<and> j \<le> int m \<and> (0 < j \<longrightarrow> owed 0 (fst st2))"
    using write_record_owed [OF c [unfolded tls13_record_layer_write_chunk_def] o1(1)] l by simp
  have "j \<noteq> TLS13_IO_WANT_RETRY" using lib.write_chunk_result [OF c] by simp
  then have "chunk_loop grant ?cb SSL3_RT_APPLICATION_DATA buf st1 = Some (j, st2)" using c by (subst chunk_loop.simps) simp
  then have "(ret, st') = (j, st2) \<or> (ret, st') = (i, st1) \<and> i \<noteq> TLS13_IO_SUCCESS"
    using w True p by (auto simp: tls13_write_application_data_def tls13_record_layer_write_def split: if_splits)
  then show ?thesis using o1 o2 by auto
qed (use w ow in \<open>auto simp: tls13_write_application_data_def\<close>)

lemma return_code_stream: "tls13_legacy_return_code tr ret ssl = (r, ssl') \<Longrightarrow> stream ssl' = stream ssl"
  by (auto simp: tls13_legacy_return_code_def tls13_legacy_error_def SSLerror_def stream_def retry_content Let_def split: if_splits)

lemma return_code_tame: "tls13_legacy_return_code tr ret ssl = (r, ssl') \<Longrightarrow> tame stream st (rl, ssl) \<Longrightarrow> tame stream st (rl, ssl')"
  using return_code_stream by (auto elim!: tame_trans intro!: tame_same)

lemma return_code_le: "tls13_legacy_return_code tr ret ssl = (r, ssl') \<Longrightarrow> r \<le> max 0 ret"
  by (auto simp: tls13_legacy_return_code_def Let_def split: if_splits)

lemma write_application_data_returns:
  "\<exists>ret st'. tls13_write_application_data grant (rl_callbacks tr grant) buf st = Some (ret, st') \<and> tame stream st st'"
  using lib.write_returns [of grant grant SSL3_RT_APPLICATION_DATA buf st] by (cases st) (auto simp: tls13_write_application_data_def)

lemma write_bytes_loop_returns:
  "owed n (fst st) \<Longrightarrow> \<exists>ret st'. write_bytes_loop tr grant buf sent n st = Some (ret, st') \<and> tame stream st st' \<and> ret \<le> int (sent + n)"
proof (induction n arbitrary: sent st rule: less_induct)
  case (less n)
  show ?case
  proof (cases "n = 0")
    case True
    then show ?thesis by (subst write_bytes_loop.simps) (auto simp: stream_def intro!: tame_same)
  next
    case False
    obtain ret rl1 ssl1 where w: "tls13_write_application_data grant (rl_callbacks tr grant) (take n (drop sent buf)) st = Some (ret, rl1, ssl1)" "tame stream st (rl1, ssl1)"
      using write_application_data_returns [of grant "take n (drop sent buf)" st] by auto
    have ow: "owed n rl1" "ret \<le> int n" "0 < ret \<Longrightarrow> owed 0 rl1" using write_application_data_owed [OF w(1) less.prems] by simp_all
    obtain r ssl2 where c: "tls13_legacy_return_code tr ret (ssl1\<lparr>ssl_wnum := sent\<rparr>) = (r, ssl2)" by force
    show ?thesis
    proof (cases "0 < ret")
      case True
      have "owed (n - nat ret) rl1" using ow(3) [OF True] by (auto simp: owed_def)
      then obtain ret' st' where l: "write_bytes_loop tr grant buf (sent + nat ret) (n - nat ret) (rl1, ssl1) = Some (ret', st')" "tame stream (rl1, ssl1) st'"
          "ret' \<le> int (sent + nat ret + (n - nat ret))"
        using less.IH [of "n - nat ret" "(rl1, ssl1)" "sent + nat ret"] True False by auto
      then show ?thesis
        using False True w(1) ow(2) tame_trans [OF w(2) l(2)] by (cases st') (subst write_bytes_loop.simps, auto)
    next
      case le: False
      have "tame stream st (rl1, ssl1\<lparr>ssl_wnum := sent\<rparr>)" using w(2) by (auto elim!: tame_trans intro!: tame_same simp: stream_def)
      then have "tame stream st (rl1, ssl2)" by (rule return_code_tame [OF c])
      moreover have "r \<le> int (sent + n)" using return_code_le [OF c] le by simp
      ultimately show ?thesis using False le w(1) c by (subst write_bytes_loop.simps) auto
    qed
  qed
qed

lemma read_application_data_returns:
  assumes "rrec_ok (fst st)"
  shows "\<exists>ret buf st'. tls13_read_application_data grant (rl_callbacks tr grant) n st = Some (ret, buf, st') \<and> tame stream st st'"
    "\<exists>ret buf st'. tls13_peek_application_data grant (rl_callbacks tr grant) n st = Some (ret, buf, st') \<and> tame stream st st'"
  using lib.read_returns [OF assms, of grant grant SSL3_RT_APPLICATION_DATA n]
  by (auto simp: tls13_read_application_data_def tls13_peek_application_data_def) (use tame_refl in \<open>metis prod.collapse\<close>)+

lemma read_bytes_returns:
  assumes "established st"
  shows "\<exists>ret buf st'. tls13_legacy_read_bytes tr grant handshake_func typ len peek st = Some (ret, buf, st') \<and> tame stream st st'"
proof -
  let ?st = "(tls13_record_layer_set_retry_after_phh (fst st) (ssl_mode (snd st) AND SSL_MODE_AUTO_RETRY \<noteq> 0), snd st)"
  have t: "tame stream st (fst ?st, ssl)" if "ssl_bio ssl = ssl_bio (snd st)" for ssl
    using that by (intro tame_same) (simp_all add: tls13_record_layer_set_retry_after_phh_def stream_def)
  have ok: "rrec_ok (fst ?st)" using assms by (simp add: established_def rrec_ok_def tls13_record_layer_set_retry_after_phh_def)
  obtain ret buf rl1 ssl1 where r: "(if peek then tls13_peek_application_data grant (rl_callbacks tr grant) (nat len) ?st
      else tls13_read_application_data grant (rl_callbacks tr grant) (nat len) ?st) = Some (ret, buf, rl1, ssl1)" "tame stream ?st (rl1, ssl1)"
    using read_application_data_returns [OF ok, of grant "nat len"] by (cases peek) auto
  obtain i ssl2 where c: "tls13_legacy_return_code tr ret ssl1 = (i, ssl2)" by force
  have t2: "tame stream st (rl1, ssl2)" by (rule return_code_tame [OF c tame_trans [OF t [of "snd st"]]]) (use r(2) in simp_all)
  show ?thesis
    using assms r(1) c t2 t by (auto simp: tls13_legacy_read_bytes_def established_def SSLerror_def Let_def)
qed

lemma write_bytes_returns:
  assumes "established st" "owed (nat len - ssl_wnum (snd st)) (fst st)"
  shows "\<exists>ret st'. tls13_legacy_write_bytes tr grant handshake_func typ buf len st = Some (ret, st') \<and> tame stream st st'"
proof -
  obtain rl ssl where st: "st = (rl, ssl)" by force
  obtain ret rl1 ssl1 where w: "tls13_write_application_data grant (rl_callbacks tr grant) (take (nat len) buf) st = Some (ret, rl1, ssl1)" "tame stream st (rl1, ssl1)"
    using write_application_data_returns [of grant "take (nat len) buf" st] by auto
  obtain i ssl2 where c: "tls13_legacy_return_code tr ret ssl1 = (i, ssl2)" by force
  have t: "tame stream st (rl, ssl')" if "ssl_bio ssl' = ssl_bio ssl" for ssl' using that st by (intro tame_same) (simp_all add: stream_def)
  show ?thesis
    using assms st w c t return_code_tame [OF c w(2)] write_bytes_loop_returns [OF assms(2), of grant buf "ssl_wnum ssl"]
    by (auto simp: tls13_legacy_write_bytes_def established_def SSLerror_def)
qed

lemma shutdown_returns:
  assumes "rrec_ok (fst st)"
  shows "\<exists>ret st'. tls13_legacy_shutdown tr grant st = Some (ret, st') \<and> tame stream st st'"
proof -
  have res: "tame stream st st'" if "shutdown_result tr (r, st1) = (ret, st')" "tame stream st st1" for r st1 ret st'
    using that by (auto simp: shutdown_result_def split: prod.splits option.splits if_splits dest: return_code_tame)
  obtain rl ssl where st: "st = (rl, ssl)" by force
  have t: "tame stream st (rl, ssl')" if "ssl_bio ssl' = ssl_bio ssl" for ssl' using that st by (intro tame_same) (simp_all add: stream_def)
  obtain f st1 where s: "shutdown_send tr grant st = (f, st1)" by (meson surj_pair)
  have "tame stream st st1"
  proof -
    obtain i st2 where a: "(if ssl_shutdown ssl AND SSL_SENT_SHUTDOWN = 0
        then tls13_send_alert grant (rl_callbacks tr grant) TLS13_ALERT_CLOSE_NOTIFY (rl, ssl\<lparr>ssl_shutdown := ssl_shutdown ssl OR SSL_SENT_SHUTDOWN\<rparr>)
        else (0, rl, ssl)) = (i, st2)" by (meson surj_pair)
    obtain j st3 where p: "tls13_record_layer_send_pending grant (rl_callbacks tr grant) st2 = (j, st3)" by (meson surj_pair)
    have t2: "tame stream st st2"
      using a t tame_trans [OF t [of "ssl\<lparr>ssl_shutdown := ssl_shutdown ssl OR SSL_SENT_SHUTDOWN\<rparr>"], of st2]
      by (auto simp: lib.side_effect_def split: if_splits dest!: lib.tls13_send_alert_effect)
    have "tame stream st st3" using lib.send_pending_effect(1) [OF p] tame_trans [OF t2] by (simp add: lib.side_effect_def)
    then show ?thesis using s st a p t2 by (auto simp: shutdown_send_def split: if_splits)
  qed
  moreover obtain g st2 where r: "shutdown_recv tr grant st = Some (g, st2)" "tame stream st st2"
    using read_application_data_returns(1) [OF assms, of grant 512] tame_refl [of stream st] st
    by (cases "tls13_pending_application_data rl = 0") (auto simp: shutdown_recv_def)
  moreover obtain a rl3 ssl3 where "shutdown_result tr (f, st1) = (a, rl3, ssl3)" by (metis prod_cases3)
  moreover obtain b rl4 ssl4 where "shutdown_result tr (g, st2) = (b, rl4, ssl4)" by (metis prod_cases3)
  moreover obtain c rl5 ssl5 where "shutdown_result tr (None, st) = (c, rl5, ssl5)" by (metis prod_cases3)
  ultimately show ?thesis
    using s st res [of f st1] res [of g st2] res [of None st] t by (auto simp: tls13_legacy_shutdown_def)
qed

end


text \<open>A connection on the transport in memory, with the context that its first call creates: the peer has sent three bytes of a record.\<close>

definition new_conn :: "'c tls13_secrets \<Rightarrow> 'b \<Rightarrow> ('c, 'b) tls13_conn" where
  "new_conn secrets bio = \<lparr>tc_mode = 0, tc_handshake_completed = False, tc_close_notify_sent = False, tc_close_notify_recv = False, tc_error_code = 0,
     tc_secrets = secrets, tc_claims = [], tc_hs_msg = None, tc_key_update_request = False, tc_phh_count = 0, tc_phh_last_seen = 0, ssl_has_ctx = False,
     ssl_shutdown = 0, ssl_warn_alert = 0, ssl_fatal_alert = 0, ssl_session_removed = False, ssl_errors = [], ssl_rwstate = SSL_NOTHING, ssl_mode = 0,
     ssl_quiet_shutdown = False, ssl_wnum = 0, ssl_rbio = True, ssl_wbio = True, ssl_bio = bio\<rparr>"

lemma ctx_new:
  assumes "\<forall>n. grant n"
  shows "\<exists>(rl :: ('s, 'c) tls13_record_layer) ctx. tls13_ctx_new grant mode ssl = Some (rl, ctx) \<and> ssl_has_ctx ctx \<and> ssl_wbio ctx = ssl_wbio ssl
    \<and> rrec_ok rl \<and> owed 0 rl \<and> alert_ok rl \<and> rl_wrec rl = None \<and> rl_alert_data rl = None \<and> rl_phh_data rl = None \<and> rl_aead rl = None
    \<and> \<not> rl_write_closed rl \<and> \<not> rl_handshake_completed rl"
  using assms by (simp add: tls13_ctx_new_def tls13_record_layer_new_def rrec_ok_def owed_def under_way_def alert_ok_def)


section \<open>Fatal alerts\<close>

context alert_host
begin

lemma write_survives:
  assumes w: "tls13_record_layer_write grant cb t bs st = Some (ret, st')" and t: "t \<noteq> SSL3_RT_ALERT"
  shows "survives ret st st'"
proof -
  obtain i st1 where p: "pending_loop grant cb st = Some (i, st1)" using w by (cases "pending_loop grant cb st") (auto simp: tls13_record_layer_write_def)
  have s1: "survives i st st1" using pending_loop_steps [OF p, of survives] send_pending_survives survives_trans by auto
  have c: "survives j st2 st3" if "tls13_record_layer_write_chunk grant cb t bs st2 = (j, st3)" for j st2 st3
    using write_record_alert [of grant t "take 16384 bs" "fst st2" "snd st2" j "fst st3" "snd st3"] that t
    by (simp add: tls13_record_layer_write_chunk_def survives_def)
  have c2: "survives (fst r) st1 (snd r)" if "chunk_loop grant cb t bs st1 = Some r" for r
    using chunk_loop_steps [OF that, of survives] c survives_trans by blast
  show ?thesis
    using w p s1 survives_trans [OF s1 c2] by (auto simp: tls13_record_layer_write_def split: if_splits)
qed

lemma run_survives:
  assumes "rl_run grant cb c st = Some (ret, buf, st')" and "\<And>bs. c \<noteq> Write SSL3_RT_ALERT bs"
  shows "survives ret st st'"
proof (cases c)
  case (Write t bs)
  then show ?thesis using assms by (auto intro: write_survives)
next
  case Send_dummy_ccs
  show ?thesis
  proof (cases "rl_ccs_sent (fst st)")
    case False
    then obtain i rl w where w: "tls13_record_layer_write grant cb 20 tls13_dummy_ccs st = Some (i, rl, w)"
      "ret = (if i \<le> 0 then i else TLS13_IO_SUCCESS)" "st' = (if i \<le> 0 then (rl, w) else (rl\<lparr>rl_ccs_sent := True\<rparr>, w))"
      using assms Send_dummy_ccs by (auto simp: tls13_send_dummy_ccs_def split: if_splits)
    have "alert_ok (rl\<lparr>rl_ccs_sent := True\<rparr>) = alert_ok rl" by (simp add: alert_ok_def)
    then show ?thesis using write_survives [OF w(1)] w(2,3) by (cases "i \<le> 0") (simp_all add: survives_def)
  qed (use assms Send_dummy_ccs in \<open>simp add: tls13_send_dummy_ccs_def survivesI\<close>)
qed (use assms in \<open>auto split: prod.splits intro: read_survives tls13_send_alert_survives phh_survives send_pending_survives\<close>)

end

text \<open>C7. A fatal alert ends the connection for good. When a call to the record layer returns \<open>TLS13_IO_ALERT\<close>, because a fatal alert was
  received or sent or could not be sent any more, then all later calls return, in any order and number; they deliver no byte, do
  not touch the transport, and call no callback. The condition on the state before is kept by every call, and holds
  for a new record layer; records of alerts are written by the queue of alerts only.\<close>

theorem fatal_alert_is_final:
  assumes "rl_run grant (rl_callbacks tr grant) c st = Some (TLS13_IO_ALERT, buf, st')" and "alert_ok (fst st)"
    and "\<And>bs. c \<noteq> Write SSL3_RT_ALERT bs"
  shows "\<exists>rl'. rl_runs grant' (rl_callbacks tr grant') cs st' = Some ([], rl', snd st') \<and> dead rl'"
proof -
  have "dead (fst st')" using lib_alerts.run_survives [OF assms(1,3)] assms(2) by (simp add: survives_def)
  then show ?thesis using dead_runs [of "fst st'" grant' "rl_callbacks tr grant'" cs "snd st'"] by simp
qed

text \<open>The witness sends an alert on a new record layer, and then tries to write and to read.\<close>

lemma send_loop_memory:
  assumes "ssl_wbio ctx" "d \<noteq> []"
  shows "fst (send_loop (tls13_legacy_wire_write_cb memory_pair) (CBS_init d) ctx) = None"
proof -
  have "\<exists>ctx'. tls13_legacy_wire_write_cb memory_pair ctx d = (int (length d), ctx')"
    using assms by (simp add: tls13_legacy_wire_write_cb_def tls13_legacy_wire_write_def memory_pair_def)
  then show ?thesis
    using assms(2) by (subst send_loop.simps) (auto simp: CBS_skip_def cbs_get_def CBS_len_def CBS_data_def CBS_init_def send_loop.simps)
qed

lemma new_send_alert:
  fixes rl :: "('s, 'c) tls13_record_layer" and ctx :: "('c, bytes \<times> bytes) tls13_conn"
  assumes "rl_wrec rl = None" "rl_alert_data rl = None" "rl_phh_data rl = None" "rl_aead rl = None" "\<not> rl_write_closed rl" "\<not> rl_handshake_completed rl" "ssl_wbio ctx"
  shows "fst (tls13_send_alert (\<lambda>_. True) (rl_callbacks memory_pair (\<lambda>_. True)) 40 (rl, ctx)) = TLS13_IO_ALERT"
proof -
  let ?rl = "rl\<lparr>rl_alert_data := Some [2, 40], rl_alert_level := 2, rl_alert_desc := 40\<rparr>"
  let ?cb = "rl_callbacks memory_pair (\<lambda>_. True) :: ('s, 'c, ('c, bytes \<times> bytes) tls13_conn) tls13_record_layer_callbacks"
  have a: "cbb_message (\<lambda>_. True) 0 [Num 1 2, Num 1 40] = Some [2, 40]"
    by (rule cbb_message_complete) (simp_all add: eval_simps)
  have v: "unat (rl_legacy_version rl) < 65536" using unsigned_less [of "rl_legacy_version rl"] by simp
  obtain data where d: "cbb_message (\<lambda>_. True) 7 [Num 1 21, Num 2 (unat (rl_legacy_version rl)), Prefixed 2 [Raw [2, 40]]] = Some data"
    "data \<noteq> []" "length data = 7"
    using cbb_message_complete [of "\<lambda>_. True" 7 "[Num 1 21, Num 2 (unat (rl_legacy_version rl)), Prefixed 2 [Raw [2, 40]]]"] v by simp
  obtain wrec where r: "tls13_record_new (\<lambda>_. True) = Some wrec" "rec_data wrec = None" by (auto simp: tls13_record_new_def tls13_buffer_new_def tls13_buffer_resize_def)
  obtain c' w' where l: "send_loop (tls13_legacy_wire_write_cb memory_pair) (CBS_init data) ctx = (None, c', w')"
    using send_loop_memory [OF assms(7) d(2)] by (metis prod_cases3 fst_conv)
  have "\<exists>rl' w'. write_new_record (\<lambda>_. True) ?cb SSL3_RT_ALERT [2, 40] (?rl, ctx) = (2, rl', w')"
    using assms d r l
    by (simp add: write_new_record_def tls13_record_layer_seal_record_def tls13_record_layer_seal_record_plaintext_def seal_into_wrec_def tls13_record_set_data_def
        tls13_record_layer_wrec_free_def tls13_record_send_def rl_callbacks_def rl_callbacks_base_def Let_def)
  then obtain rl' w' where w: "tls13_record_layer_write_record (\<lambda>_. True) ?cb SSL3_RT_ALERT [2, 40] (?rl, ctx) = (2, rl', w')"
    using assms by (auto simp: tls13_record_layer_write_record_def)
  then have "rl_alert_desc rl' = 40" using writes_only_same(2) [OF writes_only_write_record [OF w]] by simp
  then show ?thesis
    using a w assms by (simp add: tls13_send_alert.simps [of _ _ _ "(rl, ctx)"] tls13_record_layer_enqueue_alert_def tls13_record_layer_send_pending_def
        tls13_record_layer_send_alert_def)
qed

theorem fatal_alert_is_final_witness:
  "\<exists>(rl :: (unit, SHA256_CTX) tls13_record_layer) ctx buf st'.
     tls13_ctx_new (\<lambda>_. True) 1 (new_conn (the (tls13_secrets_create (\<lambda>_. True) sha256_md False)) ([22, 3, 3 :: u8], [] :: bytes)) = Some (rl, ctx)
     \<and> rl_run (\<lambda>_. True) (rl_callbacks memory_pair (\<lambda>_. True)) (Send_alert 40) (rl, ctx) = Some (TLS13_IO_ALERT, buf, st')
     \<and> (\<exists>rl'. rl_runs (\<lambda>_. True) (rl_callbacks memory_pair (\<lambda>_. True)) [Write 23 [1], Read 23 10, Send_alert 0] st' = Some ([], rl', snd st') \<and> dead rl')"
proof -
  let ?ssl = "new_conn (the (tls13_secrets_create (\<lambda>_. True) sha256_md False)) ([22, 3, 3 :: u8], [] :: bytes)"
  let ?cb = "rl_callbacks memory_pair (\<lambda>_. True) :: (unit, SHA256_CTX, (SHA256_CTX, bytes \<times> bytes) tls13_conn) tls13_record_layer_callbacks"
  obtain rl :: "(unit, SHA256_CTX) tls13_record_layer" and ctx where n: "tls13_ctx_new (\<lambda>_. True) 1 ?ssl = Some (rl, ctx)" "ssl_wbio ctx"
    "alert_ok rl" "rl_wrec rl = None" "rl_alert_data rl = None" "rl_phh_data rl = None" "rl_aead rl = None" "\<not> rl_write_closed rl" "\<not> rl_handshake_completed rl"
    using ctx_new [of "\<lambda>_. True" 1 ?ssl] by (auto simp: new_conn_def)
  obtain st' where s: "tls13_send_alert (\<lambda>_. True) ?cb 40 (rl, ctx) = (TLS13_IO_ALERT, st')"
    using new_send_alert [OF n(4-9,2)] by (metis prod.collapse)
  then have r: "rl_run (\<lambda>_. True) ?cb (Send_alert 40) (rl, ctx) = Some (TLS13_IO_ALERT, [], st')" by simp
  have "alert_ok (fst (rl, ctx))" "\<And>bs. Send_alert 40 \<noteq> Write SSL3_RT_ALERT bs" using n by simp_all
  note f = fatal_alert_is_final [OF r this, of "\<lambda>_. True" "[Write 23 [1], Read 23 10, Send_alert 0]"]
  show ?thesis using n(1) r f by blast
qed

end
