(* ===== verification/Tls13_Key_Update.thy ===== *)
theory Tls13_Key_Update
  imports Tls13_Lib_Calls
begin

text \<open>
  Key update after the handshake: which keys a received key update installs, and how a request is answered. The lemmas hold for every cipher and
  digest that respects \<open>traffic_keys\<close>; the properties are for ChaCha20-Poly1305 with SHA-256.
\<close>

text \<open>A direction of the record layer that was just keyed with a traffic secret, as RFC 8446, section 7.3, derives its key and its vector.\<close>

definition keyed_with :: "'s EVP_AEAD \<Rightarrow> (bytes \<Rightarrow> bytes \<Rightarrow> bytes) \<Rightarrow> nat \<Rightarrow> bytes \<Rightarrow> 's tls13_record_protection \<Rightarrow> bool" where
  "keyed_with aead hmac N secret rp \<longleftrightarrow>
     protects aead (the (aead_init aead (\<lambda>_. True) (rfc_expand_label hmac N secret ''key'' [] (aead_key_len aead)) 0))
       (rfc_expand_label hmac N secret ''iv'' [] (aead_nonce_len aead)) 0 rp"

text \<open>The connection is past the handshake and its record layer has a cipher and a digest.\<close>

definition secrets_done :: "'c tls13_secrets \<Rightarrow> bool" where
  "secrets_done s \<longleftrightarrow> sec_early_done s \<and> sec_handshake_done s \<and> sec_schedule_done s"

text \<open>A record layer with nothing to send.\<close>

definition idle :: "('s, 'c) tls13_record_layer \<Rightarrow> bool" where
  "idle rl \<longleftrightarrow> rl_phh_data rl = None \<and> rl_alert_data rl = None \<and> rl_wrec rl = None \<and> \<not> rl_write_closed rl"

lemma key_update_message:
  assumes "\<forall>n. grant n"
  shows "\<exists>cbs. key_update_message grant = Some cbs \<and> CBS_data cbs = [24, 0, 0, 1, 0]"
proof -
  have "enc [Num 1 0] = Some [0]" by simp
  then obtain m where m: "hs_msg_build grant 24 [Num 1 0] = Some m" "CBS_data (tls13_handshake_msg_data m) = [24, 0, 0, 1, 0]"
    using hs_msg_build_bytes [OF assms, of "[Num 1 0]" "[0]" 24] by (auto simp: eval_simps)
  have "key_update_message grant = map_option tls13_handshake_msg_data (hs_msg_build grant 24 [Num 1 0])"
    by (auto simp: key_update_message_def hs_msg_build_def add_num_def split: option.split prod.split bool.split)
  then show ?thesis using m by simp
qed

lemma record_send_whole:
  assumes "wr w d = (int (length d), w')" "d \<noteq> []"
  shows "\<exists>c. tls13_record_send wr (rcd\<lparr>rec_data := Some d, rec_data_len := length d, rec_cbs := CBS_init d\<rparr>) w
    = (int (length d), rcd\<lparr>rec_data := Some d, rec_data_len := length d, rec_cbs := c\<rparr>, w')"
proof -
  have "\<exists>c. send_loop wr (CBS_init d) w = (None, c, w')"
    using assms by (subst send_loop.simps) (auto simp: CBS_skip_def cbs_get_def CBS_len_def CBS_data_def CBS_init_def send_loop.simps)
  then show ?thesis by (auto simp: tls13_record_send_def)
qed

context traffic_keys
begin

abbreviation keyed_by :: "bytes \<Rightarrow> 's tls13_record_protection \<Rightarrow> bool" where
  "keyed_by \<equiv> keyed_with aead hm N"

abbreviation next_secret :: "bytes \<Rightarrow> bytes" where
  "next_secret secret \<equiv> rfc_derive_secret hm N secret ''traffic upd'' []"

lemma install_read:
  assumes "\<forall>n. grant n" "rl_aead rl = Some aead" "rl_hash rl = Some md"
  shows "\<exists>rp log'. install_key (tls13_record_layer_set_read_traffic_key grant) f (True, log, s) (rl, ctx)
    = (True, rl\<lparr>rl_read := rp\<rparr>, ctx\<lparr>tc_secrets := s, tc_claims := log'\<rparr>) \<and> keyed_by (f s) rp"
proof -
  obtain rp log' where "tls13_record_layer_set_traffic_key grant log aead md (rl_read rl) (f s) = (True, rp, log')" "keyed_by (f s) rp"
    using set_traffic_key [OF assms(1), of log "rl_read rl" "f s"] by (metis keyed_with_def traffic_state_def traffic_key_def traffic_iv_def)
  then show ?thesis using assms(2,3) by (auto simp: install_key_def tls13_record_layer_set_read_traffic_key_def)
qed

lemma install_write:
  assumes "\<forall>n. grant n" "rl_aead rl = Some aead" "rl_hash rl = Some md"
  shows "\<exists>rp log'. install_key (tls13_record_layer_set_write_traffic_key grant) f (True, log, s) (rl, ctx)
    = (True, rl\<lparr>rl_write := rp\<rparr>, ctx\<lparr>tc_secrets := s, tc_claims := log'\<rparr>) \<and> keyed_by (f s) rp"
proof -
  obtain rp log' where "tls13_record_layer_set_traffic_key grant log aead md (rl_write rl) (f s) = (True, rp, log')" "keyed_by (f s) rp"
    using set_traffic_key [OF assms(1), of log "rl_write rl" "f s"] by (metis keyed_with_def traffic_state_def traffic_key_def traffic_iv_def)
  then show ?thesis using assms(2,3) by (auto simp: install_key_def tls13_record_layer_set_write_traffic_key_def)
qed

definition client_updated :: "'c tls13_secrets \<Rightarrow> 'c tls13_secrets" where
  "client_updated s = s\<lparr>sec_client_application_traffic := next_secret (sec_client_application_traffic s)\<rparr>"

definition server_updated :: "'c tls13_secrets \<Rightarrow> 'c tls13_secrets" where
  "server_updated s = s\<lparr>sec_server_application_traffic := next_secret (sec_server_application_traffic s)\<rparr>"

lemma peer_update:
  assumes "\<forall>n. grant n" "rl_aead rl = Some aead" "rl_hash rl = Some md" "sized s" "secrets_done s" "s = tc_secrets ctx"
  shows "if tc_mode ctx = TLS13_HS_CLIENT
    then \<exists>rp log. tls13_phh_update_peer_traffic_secret grant (rl, ctx) = (True, rl\<lparr>rl_read := rp\<rparr>, ctx\<lparr>tc_secrets := server_updated s, tc_claims := log\<rparr>)
      \<and> keyed_by (next_secret (sec_server_application_traffic s)) rp
    else \<exists>rp log. tls13_phh_update_peer_traffic_secret grant (rl, ctx) = (True, rl\<lparr>rl_write := rp\<rparr>, ctx\<lparr>tc_secrets := client_updated s, tc_claims := log\<rparr>)
      \<and> keyed_by (next_secret (sec_client_application_traffic s)) rp"
  using install_read [OF assms(1-3), of sec_server_application_traffic _ "server_updated s" ctx]
    install_write [OF assms(1-3), of sec_client_application_traffic _ "client_updated s" ctx]
    update_client_correct [OF assms(1,4)] update_server_correct [OF assms(1,4)] assms(5,6)
  by (simp add: tls13_phh_update_peer_traffic_secret_def secrets_done_def client_updated_def server_updated_def)

lemma local_update:
  assumes "\<forall>n. grant n" "rl_aead rl = Some aead" "rl_hash rl = Some md" "sized s" "secrets_done s" "s = tc_secrets ctx" "tc_mode ctx = TLS13_HS_CLIENT"
  shows "\<exists>rp log. tls13_phh_update_local_traffic_secret grant (rl, ctx) = (True, rl\<lparr>rl_write := rp\<rparr>, ctx\<lparr>tc_secrets := client_updated s, tc_claims := log\<rparr>)
      \<and> keyed_by (next_secret (sec_client_application_traffic s)) rp"
  using install_write [OF assms(1-3), of sec_client_application_traffic _ "client_updated s" ctx] update_client_correct [OF assms(1,4)] assms(5-7)
  by (simp add: tls13_phh_update_local_traffic_secret_def secrets_done_def client_updated_def)

text \<open>Sending the answer: the record is protected with the key that is about to be replaced.\<close>

lemma send_message:
  assumes g: "\<forall>n. grant n" and i: "idle rl" and a: "rl_aead rl = Some aead" and p: "protects aead s iv n (rl_write rl)" and s: "keyed s"
    and iv: "length iv = aead_nonce_len aead" and n: "n + 1 < 2 ^ 64" and d: "d \<noteq> []" "length d \<le> 16384" "CBS_data cbs = d"
    and w: "cb_wire_write cb ctx (wire_record s iv n SSL3_RT_HANDSHAKE d) = (int (length (wire_record s iv n SSL3_RT_HANDSHAKE d)), ctx')"
  shows "tls13_record_layer_phh grant cb cbs (rl, ctx) = (TLS13_IO_SUCCESS,
     cb_phh_sent cb (rl\<lparr>rl_write := stepped iv n (rl_write rl), rl_wrec := None, rl_wrec_content_len := length d,
       rl_wrec_content_type := SSL3_RT_HANDSHAKE, rl_phh_data := None, rl_phh_cbs := CBS_init []\<rparr>, ctx'))"
proof -
  let ?r = "wire_record s iv n SSL3_RT_HANDSHAKE d"
  let ?rl = "rl\<lparr>rl_phh_data := Some d, rl_phh_cbs := CBS_init d\<rparr>"
  obtain wrec where wrec: "tls13_record_new grant = Some wrec"
    using g by (auto simp: tls13_record_new_def tls13_buffer_new_def tls13_buffer_resize_def)
  let ?w = "wrec\<lparr>rec_data := Some ?r, rec_data_len := length ?r, rec_cbs := CBS_init ?r\<rparr>"
  have "tls13_record_layer_seal_record grant ?rl SSL3_RT_HANDSHAKE d = (True, ?rl\<lparr>rl_write := stepped iv n (rl_write rl),
      rl_wrec := Some ?w, rl_wrec_content_len := length d, rl_wrec_content_type := SSL3_RT_HANDSHAKE\<rparr>)"
    using seal_protected [OF g, of "?rl\<lparr>rl_wrec := Some wrec\<rparr>" s iv n d wrec SSL3_RT_HANDSHAKE] a p s iv n d wrec
    by (simp add: tls13_record_layer_seal_record_def tls13_record_layer_wrec_free_def Let_def)
  moreover obtain c where "tls13_record_send (cb_wire_write cb) ?w ctx = (int (length ?r), wrec\<lparr>rec_data := Some ?r, rec_data_len := length ?r, rec_cbs := c\<rparr>, ctx')"
    using record_send_whole [of "cb_wire_write cb" ctx ?r ctx', OF w] s by (auto simp: wire_record_def record_header_def Let_def)
  ultimately have "write_new_record grant cb SSL3_RT_HANDSHAKE d (?rl, ctx) = (int (length d),
      ?rl\<lparr>rl_write := stepped iv n (rl_write rl), rl_wrec := None, rl_wrec_content_len := length d, rl_wrec_content_type := SSL3_RT_HANDSHAKE\<rparr>, ctx')"
    using d s by (simp add: write_new_record_def tls13_record_layer_wrec_free_def)
  then have "tls13_record_layer_write_chunk grant cb SSL3_RT_HANDSHAKE d (?rl, ctx) = (int (length d),
      ?rl\<lparr>rl_write := stepped iv n (rl_write rl), rl_wrec := None, rl_wrec_content_len := length d, rl_wrec_content_type := SSL3_RT_HANDSHAKE\<rparr>, ctx')"
    using d i by (simp add: tls13_record_layer_write_chunk_def tls13_record_layer_write_record_def idle_def)
  then have "tls13_record_layer_send_phh grant cb (?rl, ctx) = (TLS13_IO_SUCCESS,
     cb_phh_sent cb (rl\<lparr>rl_write := stepped iv n (rl_write rl), rl_wrec := None, rl_wrec_content_len := length d,
       rl_wrec_content_type := SSL3_RT_HANDSHAKE, rl_phh_data := None, rl_phh_cbs := CBS_init []\<rparr>, ctx'))"
    using d by (simp add: tls13_record_layer_send_phh_def CBS_skip_def cbs_get_def CBS_len_def CBS_data_def CBS_init_def Let_def)
  then show ?thesis
    using i d g by (simp add: tls13_record_layer_phh_def tls13_record_layer_send_pending_def CBS_stow_def idle_def CBS_len_def CBS_data_def CBS_init_def Let_def)
qed

lemma server_updated_sized: "sized s \<Longrightarrow> sized (server_updated s)" "secrets_done s \<Longrightarrow> secrets_done (server_updated s)"
  by (simp_all add: sized_def server_updated_def secrets_done_def)

lemma client_answers:
  fixes ctx :: "('c, 'b) tls13_conn"
  assumes g: "\<forall>n. grant n" and m: "tc_mode ctx = TLS13_HS_CLIENT" and a: "rl_aead rl = Some aead" "rl_hash rl = Some md"
    and s: "sized (tc_secrets ctx)" "secrets_done (tc_secrets ctx)" and i: "idle rl"
    and p: "protects aead ws wiv n (rl_write rl)" "keyed ws" "length wiv = aead_nonce_len aead" "n + 1 < 2 ^ 64"
    and w: "ssl_wbio ctx" "bio_write tr (ssl_bio ctx) (wire_record ws wiv n SSL3_RT_HANDSHAKE [24, 0, 0, 1, 0])
      = (int (length (wire_record ws wiv n SSL3_RT_HANDSHAKE [24, 0, 0, 1, 0])), b)"
  shows "\<exists>rl' ctx'. tls13_key_update_recv grant (rl_callbacks tr grant) (CBS_init [1]) (rl, ctx) = (TLS13_IO_SUCCESS, rl', ctx')
    \<and> ssl_bio ctx' = b \<and> \<not> tc_key_update_request ctx' \<and> tc_secrets ctx' = client_updated (server_updated (tc_secrets ctx))
    \<and> keyed_by (next_secret (sec_server_application_traffic (tc_secrets ctx))) (rl_read rl')
    \<and> keyed_by (next_secret (sec_client_application_traffic (tc_secrets ctx))) (rl_write rl')"
proof -
  let ?d = "[24, 0, 0, 1, 0] :: bytes" let ?r = "wire_record ws wiv n SSL3_RT_HANDSHAKE ?d"
  let ?s1 = "server_updated (tc_secrets ctx)"
  let ?cb = "rl_callbacks tr grant :: ('s, 'c, ('c, 'b) tls13_conn) tls13_record_layer_callbacks"
  obtain rp log where u: "tls13_phh_update_peer_traffic_secret grant (rl, ctx) = (True, rl\<lparr>rl_read := rp\<rparr>, ctx\<lparr>tc_secrets := ?s1, tc_claims := log\<rparr>)"
    and rp: "keyed_by (next_secret (sec_server_application_traffic (tc_secrets ctx))) rp"
    using peer_update [OF g a s refl] m by auto
  let ?rl1 = "rl\<lparr>rl_read := rp\<rparr>" let ?ctx1 = "ctx\<lparr>tc_secrets := ?s1, tc_claims := log, tc_key_update_request := True\<rparr>"
  let ?ctx2 = "?ctx1\<lparr>ssl_rwstate := SSL_NOTHING, ssl_bio := b\<rparr>"
  have wr: "cb_wire_write ?cb ?ctx1 ?r = (int (length ?r), ?ctx2)"
    using w p(2) by (simp add: rl_callbacks_def rl_callbacks_base_def tls13_legacy_wire_write_cb_def tls13_legacy_wire_write_def)
  obtain cbs where cbs: "key_update_message grant = Some cbs" "CBS_data cbs = ?d" using key_update_message [OF g] by blast
  let ?rl2 = "?rl1\<lparr>rl_write := stepped wiv n (rl_write rl), rl_wrec := None, rl_wrec_content_len := length ?d, rl_wrec_content_type := SSL3_RT_HANDSHAKE,
    rl_phh_data := None, rl_phh_cbs := CBS_init []\<rparr>"
  have "idle ?rl1" using i by (simp add: idle_def)
  then have ph: "tls13_record_layer_phh grant ?cb cbs (?rl1, ?ctx1) = (TLS13_IO_SUCCESS, tls13_phh_done_cb grant (?rl2, ?ctx2))"
    using send_message [OF g _ _ _ p(2-4) _ _ cbs(2) wr, of ?rl1] a p(1) by (simp add: rl_callbacks_def rl_callbacks_base_def)
  have a2: "rl_aead ?rl2 = Some aead" "rl_hash ?rl2 = Some md" "tc_mode ?ctx2 = TLS13_HS_CLIENT" using a m by simp_all
  have s2: "?s1 = tc_secrets ?ctx2" by simp
  obtain wp log2 where l: "tls13_phh_update_local_traffic_secret grant (?rl2, ?ctx2) = (True, ?rl2\<lparr>rl_write := wp\<rparr>, ?ctx2\<lparr>tc_secrets := client_updated ?s1, tc_claims := log2\<rparr>)"
    and wp: "keyed_by (next_secret (sec_client_application_traffic ?s1)) wp"
    using local_update [OF g a2(1,2) server_updated_sized(1) [OF s(1)] server_updated_sized(2) [OF s(2)] s2 a2(3)] by blast
  have "sec_client_application_traffic ?s1 = sec_client_application_traffic (tc_secrets ctx)" by (simp add: server_updated_def)
  moreover have "tls13_key_update_recv grant ?cb (CBS_init [1]) (rl, ctx) = (TLS13_IO_SUCCESS, tls13_phh_done_cb grant (?rl2, ?ctx2))"
    using u cbs ph by (simp add: tls13_key_update_recv_def CBS_get_u8_Cons CBS_init_def CBS_len_def)
  ultimately show ?thesis using l wp rp by (auto simp: tls13_phh_done_cb_def)
qed

lemma server_misplaces:
  fixes ctx :: "('c, 'b) tls13_conn"
  assumes g: "\<forall>n. grant n" and m: "tc_mode ctx \<noteq> TLS13_HS_CLIENT" and a: "rl_aead rl = Some aead" "rl_hash rl = Some md"
    and s: "sized (tc_secrets ctx)" "secrets_done (tc_secrets ctx)"
  shows "\<exists>rp log. tls13_key_update_recv grant cb (CBS_init [0]) (rl, ctx)
      = (TLS13_IO_SUCCESS, rl\<lparr>rl_write := rp\<rparr>, ctx\<lparr>tc_secrets := client_updated (tc_secrets ctx), tc_claims := log\<rparr>)
    \<and> keyed_by (next_secret (sec_client_application_traffic (tc_secrets ctx))) rp"
proof -
  obtain rp log where "tls13_phh_update_peer_traffic_secret grant (rl, ctx) = (True, rl\<lparr>rl_write := rp\<rparr>, ctx\<lparr>tc_secrets := client_updated (tc_secrets ctx), tc_claims := log\<rparr>)"
    "keyed_by (next_secret (sec_client_application_traffic (tc_secrets ctx))) rp"
    using peer_update [OF g a s refl] m by auto
  then show ?thesis by (intro exI [of _ rp] exI [of _ log]) (simp add: tls13_key_update_recv_def CBS_get_u8_Cons CBS_init_def CBS_len_def)
qed

end

section \<open>Properties\<close>

text \<open>C26. A client answers a key update request as RFC 8446, section 4.6.3, asks: the server's traffic secret is replaced by its successor and the
  reading side is keyed with it; a key update message that requests nothing is sent in a record that is still protected with the old
  key and the next sequence number; and then the client's secret is replaced and the writing side is keyed with it, its
  sequence numbers starting again from 0. The record layer has nothing else to send, and the transport takes the record at once.\<close>

theorem client_answers_key_update:
  fixes rl :: "(aead_chacha20_poly1305_ctx, SHA256_CTX) tls13_record_layer" and ctx :: "(SHA256_CTX, 'b) tls13_conn" and tmp
  defines "aead \<equiv> aead_chacha20_poly1305 (stack64 tmp)" and "hm \<equiv> hmac_spec fips_sha256 64"
  assumes "\<forall>n. grant n" and "tc_mode ctx = TLS13_HS_CLIENT" and "rl_aead rl = Some aead" "rl_hash rl = Some sha256_md" "idle rl"
    and "sha256_sized.sized (tc_secrets ctx)" "secrets_done (tc_secrets ctx)"
    and "protects aead ws iv n (rl_write rl)" "c20_keyed (stack64 tmp) ws" "length iv = 12" "n + 1 < 2 ^ 64"
    and "record = record_header 22 @ chacha_seal_of ws (nonce_octets iv (be_bytes 8 n)) [24, 0, 0, 1, 0, 22] (record_header 22)"
    and "ssl_wbio ctx" "bio_write tr (ssl_bio ctx) record = (int (length record), b)"
    and "server = rfc_next_secret hm 32 (sec_server_application_traffic (tc_secrets ctx))" "client = rfc_next_secret hm 32 (sec_client_application_traffic (tc_secrets ctx))"
  shows "\<exists>rl' ctx'. tls13_key_update_recv grant (rl_callbacks tr grant) (CBS_init [1]) (rl, ctx) = (TLS13_IO_SUCCESS, rl', ctx') \<and> ssl_bio ctx' = b
    \<and> \<not> tc_key_update_request ctx' \<and> sec_server_application_traffic (tc_secrets ctx') = server \<and> sec_client_application_traffic (tc_secrets ctx') = client
    \<and> keyed_with aead hm 32 server (rl_read rl') \<and> keyed_with aead hm 32 client (rl_write rl')"
proof -
  have al: "aead_nonce_len (aead_chacha20_poly1305 (stack64 tmp)) = 12" "aead_max_tag_len (aead_chacha20_poly1305 (stack64 tmp)) = 16"
    by (simp_all add: aead_chacha20_poly1305_def)
  have "aead_cipher.wire_record (aead_chacha20_poly1305 (stack64 tmp)) chacha_seal_of ws iv n 22 [24, 0, 0, 1, 0] = record"
    using assms(14) al by (simp add: chacha20_poly1305.wire_record_def Let_def)
  then show ?thesis
    using chacha20_poly1305_sha256.client_answers [where tmp = tmp and grant = grant and ctx = ctx and rl = rl and ws = ws and wiv = iv and n = n and tr = tr and b = b] assms al
    by (auto simp: chacha20_poly1305_sha256.client_updated_def chacha20_poly1305_sha256.server_updated_def sha256_md_sizes rfc_next_secret_def rfc_derive_secret_def)
qed

text \<open>A record layer whose writing side was just keyed, and secrets past the handshake.\<close>

lemma key_update_ready:
  fixes tmp :: bytes
  shows "\<exists>rl :: (aead_chacha20_poly1305_ctx, SHA256_CTX) tls13_record_layer. \<exists>s ws iv. rl_aead rl = Some (aead_chacha20_poly1305 (stack64 tmp)) \<and> rl_hash rl = Some sha256_md
    \<and> idle rl \<and> sha256_sized.sized s \<and> secrets_done s \<and> protects (aead_chacha20_poly1305 (stack64 tmp)) ws iv 0 (rl_write rl)
    \<and> c20_keyed (stack64 tmp) ws \<and> length iv = 12"
proof -
  obtain rl0 :: "(aead_chacha20_poly1305_ctx, SHA256_CTX) tls13_record_layer" where rl0: "tls13_record_layer_new (\<lambda>_. True) = Some rl0" "idle rl0"
    by (simp add: tls13_record_layer_new_def idle_def)
  obtain rp log where rp: "tls13_record_layer_set_traffic_key (\<lambda>_. True) [] (aead_chacha20_poly1305 (stack64 tmp)) sha256_md tls13_record_protection_new [7] = (True, rp, log)"
    and p: "protects (aead_chacha20_poly1305 (stack64 tmp)) (chacha20_poly1305_sha256.traffic_state tmp [7]) (chacha20_poly1305_sha256.traffic_iv tmp [7]) 0 rp"
    by (rule chacha20_poly1305_sha256.set_traffic_key [of "\<lambda>_. True"]) auto
  obtain s0 where s0: "tls13_secrets_create (\<lambda>_. True) sha256_md False = Some s0" "sha256_sized.sized s0"
    using sha256_sized.create_correct [of "\<lambda>_. True" False] by (auto simp: sha256_sized.sized_def Let_def)
  let ?s = "s0\<lparr>sec_early_done := True, sec_handshake_done := True, sec_schedule_done := True\<rparr>"
  let ?rl = "rl0\<lparr>rl_aead := Some (aead_chacha20_poly1305 (stack64 tmp)), rl_hash := Some sha256_md, rl_write := rp\<rparr>"
  have "idle ?rl" "sha256_sized.sized ?s" "secrets_done ?s" using rl0(2) s0(2) by (simp_all add: idle_def sha256_sized.sized_def secrets_done_def)
  moreover have "length (chacha20_poly1305_sha256.traffic_iv tmp [7]) = 12"
    using chacha20_poly1305_sha256.traffic_iv_length [of tmp "[7]"] by (simp add: aead_chacha20_poly1305_def)
  ultimately show ?thesis
    using p chacha20_poly1305_sha256.traffic_state_keyed [of tmp "[7]"]
    by (intro exI [of _ ?rl] exI [of _ ?s] exI [of _ "chacha20_poly1305_sha256.traffic_state tmp [7]"] exI [of _ "chacha20_poly1305_sha256.traffic_iv tmp [7]"]) simp
qed

theorem client_answers_key_update_witness:
  "\<exists>(rl :: (aead_chacha20_poly1305_ctx, SHA256_CTX) tls13_record_layer) ctx ws iv rl' ctx'. let server = rfc_next_secret (hmac_spec fips_sha256 64) 32 (sec_server_application_traffic (tc_secrets ctx)) in
     protects (aead_chacha20_poly1305 (stack64 [])) ws iv 0 (rl_write rl)
     \<and> tls13_key_update_recv (\<lambda>_. True) (rl_callbacks memory_pair (\<lambda>_. True)) (CBS_init [1]) (rl, ctx) = (TLS13_IO_SUCCESS, rl', ctx')
     \<and> ssl_bio ctx' = ([], record_header 22 @ chacha_seal_of ws (nonce_octets iv (be_bytes 8 0)) [24, 0, 0, 1, 0, 22] (record_header 22))
     \<and> keyed_with (aead_chacha20_poly1305 (stack64 [])) (hmac_spec fips_sha256 64) 32 server (rl_read rl')"
proof -
  obtain rl :: "(aead_chacha20_poly1305_ctx, SHA256_CTX) tls13_record_layer" and s ws iv where r: "rl_aead rl = Some (aead_chacha20_poly1305 (stack64 []))"
    "rl_hash rl = Some sha256_md" "idle rl" "sha256_sized.sized s" "secrets_done s" "protects (aead_chacha20_poly1305 (stack64 [])) ws iv 0 (rl_write rl)"
    "c20_keyed (stack64 []) ws" "length iv = 12"
    using key_update_ready [of "[]"] by blast
  define ctx where "ctx = (new_conn s ([] :: bytes, [] :: bytes))\<lparr>tc_mode := TLS13_HS_CLIENT\<rparr>"
  define rcd where "rcd = record_header 22 @ chacha_seal_of ws (nonce_octets iv (be_bytes 8 0)) [24, 0, 0, 1, 0, 22] (record_header 22)"
  have c: "tc_mode ctx = TLS13_HS_CLIENT" "sha256_sized.sized (tc_secrets ctx)" "secrets_done (tc_secrets ctx)" "ssl_wbio ctx"
    "bio_write memory_pair (ssl_bio ctx) rcd = (int (length rcd), [], rcd)" and g: "\<forall>n :: nat. True" and z: "0 + 1 < (2 :: nat) ^ 64"
    using r(4,5) by (simp_all add: ctx_def new_conn_def memory_pair_def)
  show ?thesis
    using client_answers_key_update [OF g c(1) r(1-3) c(2,3) r(6-8) z rcd_def c(4,5) refl refl] r(6) unfolding Let_def rcd_def by blast
qed



end
