(* ===== verification/Lhash.thy ===== *)
theory Lhash
  imports Prelude "HOL-Library.Multiset"
begin

text \<open>
  The dynamic hash table of \<open>crypto/lhash/lhash.c\<close>: linear hashing, in which an insertion splits at most one bucket and a deletion
  merges at most two. A table holds pointers to the caller's objects, which are values of the type variable \<open>'a\<close>; the functions \<open>hash\<close>
  and \<open>comp\<close> are the caller's.

  A chain of nodes is a list, so that the address of a link, which \<open>getrn\<close> returns, is the number of a bucket and a position in its
  chain; the position is the length of the chain when the link is the null pointer at its end. The fields of type \<open>unsigned int\<close> are natural numbers, and
  the places that may wrap around write the reduction out. An allocation of \<open>n\<close> octets succeeds when \<open>grant n\<close> holds.
\<close>

section \<open>Data\<close>

record 'a LHASH_NODE =
  nd_data :: 'a
  nd_hash :: u64

record 'a LHASH =
  lh_b :: "'a LHASH_NODE list list"
  lh_comp :: "'a \<Rightarrow> 'a \<Rightarrow> int"
  lh_hash :: "'a \<Rightarrow> u64"
  lh_num_nodes :: nat
  lh_num_alloc_nodes :: nat
  lh_p :: nat
  lh_pmax :: nat
  lh_up_load :: u64
  lh_down_load :: u64
  num_items :: u64
  num_expands :: u64
  num_expand_reallocs :: u64
  num_contracts :: u64
  num_contract_reallocs :: u64
  num_hash_calls :: u64
  num_comp_calls :: u64
  num_insert :: u64
  num_replace :: u64
  num_delete :: u64
  num_no_delete :: u64
  num_retrieve :: u64
  num_retrieve_miss :: u64
  num_hash_comps :: u64
  lh_error :: int

definition MIN_NODES :: nat where
  "MIN_NODES = 16"

definition LH_LOAD_MULT :: u64 where
  "LH_LOAD_MULT = 256"

definition UP_LOAD :: u64 where
  "UP_LOAD = 2 * LH_LOAD_MULT"

definition DOWN_LOAD :: u64 where
  "DOWN_LOAD = LH_LOAD_MULT"

text \<open>The width of \<open>unsigned int\<close>.\<close>

abbreviation UINT_MOD :: nat where
  "UINT_MOD \<equiv> 4294967296"

section \<open>Strings, the default keys\<close>

text \<open>A string is given by the octets of the memory that a pointer points to, and ends before the first octet that is 0; the end of the list counts as such an
  octet. A \<open>char\<close> is signed, so that an octet above 127 extends its sign into the upper bits of \<open>v\<close>.\<close>

fun strhash_loop :: "bytes \<Rightarrow> u64 \<Rightarrow> u64 \<Rightarrow> u64" where
  "strhash_loop [] n ret = ret"
| "strhash_loop (c # cs) n ret =
     (if c = 0 then ret else
      let v = n OR scast c;
          r = unat ((drop_bit 2 v XOR v) AND 0x0f);
          ret = (if r \<noteq> 0 then push_bit r ret OR drop_bit (32 - r) ret else ret);
          ret = ret AND 0xFFFFFFFF;
          ret = ret XOR (v * v)
      in strhash_loop cs (n + 0x100) ret)"

definition lh_strhash :: "bytes \<Rightarrow> u64" where
  "lh_strhash c = (let ret = strhash_loop c 0x100 0 in drop_bit 16 ret XOR ret)"

text \<open>The standard's \<open>strcmp\<close>: the difference of the first octets that differ.\<close>

fun strcmp :: "bytes \<Rightarrow> bytes \<Rightarrow> int" where
  "strcmp [] [] = 0"
| "strcmp [] (b # bs) = - uint b"
| "strcmp (a # as) [] = uint a"
| "strcmp (a # as) (b # bs) = (if a = b then if a = 0 then 0 else strcmp as bs else uint a - uint b)"

section \<open>Operations\<close>

text \<open>The casts of the defaults read an object as a string: \<open>str\<close> gives the octets that a pointer points to.\<close>

definition lh_new :: "(nat \<Rightarrow> bool) \<Rightarrow> ('a \<Rightarrow> bytes) \<Rightarrow> ('a \<Rightarrow> u64) option \<Rightarrow> ('a \<Rightarrow> 'a \<Rightarrow> int) option \<Rightarrow> 'a LHASH option" where
  "lh_new grant str h c =
     (if \<not> grant 176 then None
      else if \<not> grant (MIN_NODES * 8) then None
      else Some \<lparr>lh_b = replicate MIN_NODES [],
                 lh_comp = (case c of None \<Rightarrow> (\<lambda>x y. strcmp (str x) (str y)) | Some c \<Rightarrow> c),
                 lh_hash = (case h of None \<Rightarrow> (\<lambda>x. lh_strhash (str x)) | Some h \<Rightarrow> h),
                 lh_num_nodes = MIN_NODES div 2, lh_num_alloc_nodes = MIN_NODES, lh_p = 0, lh_pmax = MIN_NODES div 2,
                 lh_up_load = UP_LOAD, lh_down_load = DOWN_LOAD, num_items = 0, num_expands = 0, num_expand_reallocs = 0, num_contracts = 0,
                 num_contract_reallocs = 0, num_hash_calls = 0, num_comp_calls = 0, num_insert = 0, num_replace = 0, num_delete = 0,
                 num_no_delete = 0, num_retrieve = 0, num_retrieve_miss = 0, num_hash_comps = 0, lh_error = 0\<rparr>)"

text \<open>The walk along a chain: its result is the position of the first node with the hash and the key, or the end of the chain.\<close>

fun getrn_loop :: "'a \<Rightarrow> u64 \<Rightarrow> 'a LHASH_NODE list \<Rightarrow> nat \<Rightarrow> 'a LHASH \<Rightarrow> nat \<times> 'a LHASH" where
  "getrn_loop data hash [] i lh = (i, lh)"
| "getrn_loop data hash (n1 # ns) i lh =
     (let lh = lh\<lparr>num_hash_comps := num_hash_comps lh + 1\<rparr>
      in if nd_hash n1 \<noteq> hash then getrn_loop data hash ns (Suc i) lh
         else let lh = lh\<lparr>num_comp_calls := num_comp_calls lh + 1\<rparr>
              in if lh_comp lh (nd_data n1) data = 0 then (i, lh)
                 else getrn_loop data hash ns (Suc i) lh)"

definition getrn :: "'a LHASH \<Rightarrow> 'a \<Rightarrow> (nat \<times> nat) \<times> u64 \<times> 'a LHASH" where
  "getrn lh data =
     (let hash = lh_hash lh data;
          lh = lh\<lparr>num_hash_calls := num_hash_calls lh + 1\<rparr>;
          nn = unat hash mod lh_pmax lh;
          nn = (if nn < lh_p lh then unat hash mod lh_num_alloc_nodes lh else nn);
          (i, lh) = getrn_loop data hash (lh_b lh ! nn) 0 lh
      in ((nn, i), hash, lh))"

text \<open>The split of a chain: the nodes that stay keep their order, and each node that moves is put in front of the new chain.\<close>

fun expand_loop :: "nat \<Rightarrow> nat \<Rightarrow> 'a LHASH_NODE list \<Rightarrow> 'a LHASH_NODE list \<Rightarrow> 'a LHASH_NODE list \<times> 'a LHASH_NODE list" where
  "expand_loop nni p [] n2 = ([], n2)"
| "expand_loop nni p (np # n1) n2 =
     (if unat (nd_hash np) mod nni \<noteq> p then expand_loop nni p n1 (np # n2)
      else case expand_loop nni p n1 n2 of (n1, n2) \<Rightarrow> (np # n1, n2))"

definition expand :: "(nat \<Rightarrow> bool) \<Rightarrow> 'a LHASH \<Rightarrow> 'a LHASH" where
  "expand grant lh =
     (let lh = lh\<lparr>lh_num_nodes := (lh_num_nodes lh + 1) mod UINT_MOD, num_expands := num_expands lh + 1\<rparr>;
          p = lh_p lh;
          lh = lh\<lparr>lh_p := (p + 1) mod UINT_MOD\<rparr>;
          q = (p + lh_pmax lh) mod UINT_MOD;
          (n1, n2) = expand_loop (lh_num_alloc_nodes lh) p (lh_b lh ! p) [];
          lh = lh\<lparr>lh_b := (lh_b lh)[p := n1, q := n2]\<rparr>
      in if lh_p lh \<ge> lh_pmax lh then
           let j = (lh_num_alloc_nodes lh * 2) mod UINT_MOD
           in if \<not> grant (j * 8) then lh\<lparr>lh_error := lh_error lh + 1, lh_p := 0\<rparr>
              else lh\<lparr>lh_b := lh_b lh @ replicate (j - lh_num_alloc_nodes lh) [], lh_pmax := lh_num_alloc_nodes lh, lh_num_alloc_nodes := j,
                      num_expand_reallocs := num_expand_reallocs lh + 1, lh_p := 0\<rparr>
         else lh)"

definition contract :: "(nat \<Rightarrow> bool) \<Rightarrow> 'a LHASH \<Rightarrow> 'a LHASH" where
  "contract grant lh =
     (let q = lh_p lh + lh_pmax lh - 1;
          np = lh_b lh ! q;
          lh = lh\<lparr>lh_b := (lh_b lh)[q := []]\<rparr>;
          finish = (\<lambda>lh. let lh = lh\<lparr>lh_num_nodes := lh_num_nodes lh - 1, num_contracts := num_contracts lh + 1\<rparr>
                         in lh\<lparr>lh_b := (lh_b lh)[lh_p lh := lh_b lh ! lh_p lh @ np]\<rparr>)
      in if lh_p lh = 0 then
           if \<not> grant (lh_pmax lh * 8) then lh\<lparr>lh_error := lh_error lh + 1\<rparr>
           else finish (lh\<lparr>lh_b := take (lh_pmax lh) (lh_b lh), num_contract_reallocs := num_contract_reallocs lh + 1,
                           lh_num_alloc_nodes := lh_num_alloc_nodes lh div 2, lh_pmax := lh_pmax lh div 2, lh_p := lh_pmax lh div 2 - 1\<rparr>)
         else finish (lh\<lparr>lh_p := lh_p lh - 1\<rparr>))"

definition lh_insert :: "(nat \<Rightarrow> bool) \<Rightarrow> 'a LHASH \<Rightarrow> 'a \<Rightarrow> 'a option \<times> 'a LHASH" where
  "lh_insert grant lh data =
     (let lh = lh\<lparr>lh_error := 0\<rparr>;
          lh = (if lh_up_load lh \<le> num_items lh * LH_LOAD_MULT div of_nat (lh_num_nodes lh) then expand grant lh else lh);
          ((nn, i), hash, lh) = getrn lh data;
          c = lh_b lh ! nn
      in if i = length c then
           if \<not> grant 24 then (None, lh\<lparr>lh_error := lh_error lh + 1\<rparr>)
           else (None, lh\<lparr>lh_b := (lh_b lh)[nn := c @ [\<lparr>nd_data = data, nd_hash = hash\<rparr>]],
                          num_insert := num_insert lh + 1, num_items := num_items lh + 1\<rparr>)
         else (Some (nd_data (c ! i)), lh\<lparr>lh_b := (lh_b lh)[nn := c[i := (c ! i)\<lparr>nd_data := data\<rparr>]], num_replace := num_replace lh + 1\<rparr>))"

definition lh_delete :: "(nat \<Rightarrow> bool) \<Rightarrow> 'a LHASH \<Rightarrow> 'a \<Rightarrow> 'a option \<times> 'a LHASH" where
  "lh_delete grant lh data =
     (let lh = lh\<lparr>lh_error := 0\<rparr>;
          ((nn, i), hash, lh) = getrn lh data;
          c = lh_b lh ! nn
      in if i = length c then (None, lh\<lparr>num_no_delete := num_no_delete lh + 1\<rparr>)
         else let lh = lh\<lparr>lh_b := (lh_b lh)[nn := take i c @ drop (Suc i) c], num_delete := num_delete lh + 1, num_items := num_items lh - 1\<rparr>
              in (Some (nd_data (c ! i)),
                  if lh_num_nodes lh > MIN_NODES \<and> lh_down_load lh \<ge> num_items lh * LH_LOAD_MULT div of_nat (lh_num_nodes lh)
                  then contract grant lh else lh))"

definition lh_retrieve :: "'a LHASH \<Rightarrow> 'a \<Rightarrow> 'a option \<times> 'a LHASH" where
  "lh_retrieve lh data =
     (let lh = lh\<lparr>lh_error := 0\<rparr>;
          ((nn, i), hash, lh) = getrn lh data
      in if i = length (lh_b lh ! nn) then (None, lh\<lparr>num_retrieve_miss := num_retrieve_miss lh + 1\<rparr>)
         else (Some (nd_data (lh_b lh ! nn ! i)), lh\<lparr>num_retrieve := num_retrieve lh + 1\<rparr>))"

text \<open>The iteration goes from the last bucket in use to the first; the function does not change the table.\<close>

definition lh_doall_arg :: "'a LHASH option \<Rightarrow> ('a \<Rightarrow> 'w \<Rightarrow> 'w) \<Rightarrow> 'w \<Rightarrow> 'w" where
  "lh_doall_arg lh func arg =
     (case lh of None \<Rightarrow> arg
      | Some lh \<Rightarrow> fold (\<lambda>i. fold (\<lambda>a. func (nd_data a)) (lh_b lh ! i)) (rev [0..<lh_num_nodes lh]) arg)"

definition lh_num_items :: "'a LHASH option \<Rightarrow> u64" where
  "lh_num_items lh = (case lh of None \<Rightarrow> 0 | Some lh \<Rightarrow> num_items lh)"

end
