(* ===== verification/Lhash_Map.thy ===== *)
theory Lhash_Map
  imports Lhash
begin

text \<open>
  The hash table implements a finite map from keys, which are the classes of objects that \<open>comp\<close> does not tell apart, to objects.
  The locale \<open>lhash_keys\<close> has what the table asks of the two functions of its caller.
\<close>

section \<open>Lists of chains\<close>

lemma mset_concat_update:
  assumes "i < length b"
  shows "mset (concat (b[i := c])) + mset (b ! i) = mset (concat b) + mset c"
proof -
  have "b = take i b @ b ! i # drop (Suc i) b" using assms by (rule id_take_nth_drop)
  then have "mset (concat b) = mset (concat (take i b)) + mset (b ! i) + mset (concat (drop (Suc i) b))"
    by (metis concat.simps(2) concat_append mset_append add.assoc)
  then show ?thesis using assms by (simp add: upd_conv_take_nth_drop)
qed

lemma mset_move: "Y + B = C + K \<Longrightarrow> B = K + M \<Longrightarrow> X = Y + M \<Longrightarrow> X = C" for X :: "'a multiset"
  by (metis add.assoc add.commute add_right_cancel)

lemma mset_concat_update_eq:
  assumes "i < length b" "mset c = mset (b ! i) + D"
  shows "mset (concat (b[i := c])) = mset (concat b) + D"
  using mset_concat_update [OF assms(1), of c] assms(2) by simp

lemma concat_nth_subset: "i < length b \<Longrightarrow> x \<in> set (b ! i) \<Longrightarrow> x \<in> set (concat b)"
  by (auto intro: nth_mem)

lemma mod_double: "h mod (2 * m) = (if even (h div m) then h mod m else h mod m + m)" for h m :: nat
  using mod_mult2_eq [of h m 2] by (auto simp: mult.commute even_iff_mod_2_eq_zero)

lemma expand_loop_result:
  "expand_loop nni p ns acc = (filter (\<lambda>n. unat (nd_hash n) mod nni = p) ns, rev (filter (\<lambda>n. unat (nd_hash n) mod nni \<noteq> p) ns) @ acc)"
  by (induction nni p ns acc rule: expand_loop.induct) auto

section \<open>The bucket of a hash\<close>

definition lh_slot :: "nat \<Rightarrow> nat \<Rightarrow> u64 \<Rightarrow> nat" where
  "lh_slot pmax p h = (if unat h mod pmax < p then unat h mod (2 * pmax) else unat h mod pmax)"

lemma lh_slot_less: "0 < pmax \<Longrightarrow> p \<le> pmax \<Longrightarrow> lh_slot pmax p h < pmax + p"
  using mod_less_divisor [of pmax "unat h"] by (auto simp: lh_slot_def mod_double intro: trans_less_add1)

lemma lh_slot_Suc:
  "p < pmax \<Longrightarrow> lh_slot pmax (Suc p) h = (if lh_slot pmax p h = p \<and> unat h mod (2 * pmax) \<noteq> p then p + pmax else lh_slot pmax p h)"
  by (auto simp: lh_slot_def mod_double less_Suc_eq)

lemma lh_slot_pred:
  assumes "p < pmax"
  shows "lh_slot pmax p h = (if lh_slot pmax (Suc p) h = p + pmax then p else lh_slot pmax (Suc p) h)"
proof -
  have "unat h mod pmax < pmax" using assms by simp
  then show ?thesis by (auto simp: lh_slot_def mod_double less_Suc_eq)
qed

lemma lh_slot_full: "0 < pmax \<Longrightarrow> lh_slot pmax pmax h = lh_slot (2 * pmax) 0 h"
  by (simp add: lh_slot_def)

section \<open>The contract of the caller's functions\<close>

locale lhash_keys =
  fixes hash :: "'a \<Rightarrow> u64" and comp :: "'a \<Rightarrow> 'a \<Rightarrow> int"
  assumes comp_refl [simp]: "comp x x = 0"
    and comp_sym: "comp x y = 0 \<Longrightarrow> comp y x = 0"
    and comp_trans: "comp x y = 0 \<Longrightarrow> comp y z = 0 \<Longrightarrow> comp x z = 0"
    and comp_hash: "comp x y = 0 \<Longrightarrow> hash x = hash y"
begin

definition apart :: "'a LHASH_NODE list \<Rightarrow> bool" where
  "apart ns \<longleftrightarrow> distinct ns \<and> (\<forall>m \<in> set ns. \<forall>n \<in> set ns. comp (nd_data m) (nd_data n) = 0 \<longrightarrow> m = n)"

definition placed :: "nat \<Rightarrow> nat \<Rightarrow> 'a LHASH_NODE list list \<Rightarrow> bool" where
  "placed pmax p b \<longleftrightarrow> (\<forall>i < length b. \<forall>n \<in> set (b ! i). hash (nd_data n) = nd_hash n \<and> lh_slot pmax p (nd_hash n) = i)"

definition geometry :: "'a LHASH \<Rightarrow> bool" where
  "geometry lh \<longleftrightarrow> (\<exists>k. lh_pmax lh = 8 * 2 ^ k) \<and> lh_p lh < lh_pmax lh \<and> lh_num_alloc_nodes lh = 2 * lh_pmax lh
     \<and> lh_num_nodes lh = lh_pmax lh + lh_p lh \<and> length (lh_b lh) = lh_num_alloc_nodes lh"

definition lh_inv :: "'a LHASH \<Rightarrow> bool" where
  "lh_inv lh \<longleftrightarrow> geometry lh \<and> lh_hash lh = hash \<and> lh_comp lh = comp \<and> placed (lh_pmax lh) (lh_p lh) (lh_b lh) \<and> apart (concat (lh_b lh))
     \<and> num_items lh = of_nat (length (concat (lh_b lh)))"

lemma geometry_pos: "geometry lh \<Longrightarrow> 0 < lh_pmax lh"
  by (auto simp: geometry_def)

lemma apart_perm: "mset xs = mset ys \<Longrightarrow> apart xs = apart ys"
  unfolding apart_def by (metis mset_eq_imp_distinct_iff mset_eq_setD)

lemma apart_sub: "mset xs \<subseteq># mset ys \<Longrightarrow> apart ys \<Longrightarrow> apart xs"
proof -
  assume "mset xs \<subseteq># mset ys" "apart ys"
  then obtain zs where "mset ys = mset (xs @ zs)" by (metis mset_append mset_subset_eq_exists_conv ex_mset)
  then have "apart (xs @ zs)" using \<open>apart ys\<close> apart_perm by blast
  then show "apart xs" by (simp add: apart_def)
qed

lemma apart_Cons: "apart (n # ns) \<longleftrightarrow> apart ns \<and> (\<forall>m \<in> set ns. comp (nd_data m) (nd_data n) \<noteq> 0)"
  by (auto simp: apart_def dest: comp_sym)

lemma placed_empty:
  assumes "placed pmax p b" "0 < pmax" "p \<le> pmax" "pmax + p \<le> i" "i < length b"
  shows "b ! i = []"
proof (rule ccontr)
  assume "b ! i \<noteq> []"
  then have "hd (b ! i) \<in> set (b ! i)" by simp
  then have "lh_slot pmax p (nd_hash (hd (b ! i))) = i" using assms(1,5) unfolding placed_def by blast
  then show False using lh_slot_less [OF assms(2,3), of "nd_hash (hd (b ! i))"] assms(4) by simp
qed

text \<open>Every node that \<open>comp\<close> takes for \<open>data\<close> is in the bucket of its hash.\<close>

lemma placed_bucket:
  assumes "placed pmax p b" "n \<in> set (concat b)" "comp (nd_data n) data = 0"
  shows "n \<in> set (b ! lh_slot pmax p (hash data))" "nd_hash n = hash data"
proof -
  obtain i where i: "i < length b" "n \<in> set (b ! i)" using assms(2) by (metis UN_E in_set_conv_nth set_concat)
  then show "nd_hash n = hash data" using assms(1,3) comp_hash unfolding placed_def by metis
  then show "n \<in> set (b ! lh_slot pmax p (hash data))" using assms(1) i unfolding placed_def by metis
qed

section \<open>Search\<close>

text \<open>The search changes counters only, and finds the node of a key if the table has one.\<close>

definition same_table :: "'a LHASH \<Rightarrow> 'a LHASH \<Rightarrow> bool" where
  "same_table lh lh' \<longleftrightarrow> lh_b lh' = lh_b lh \<and> lh_comp lh' = lh_comp lh \<and> lh_hash lh' = lh_hash lh \<and> lh_num_nodes lh' = lh_num_nodes lh
     \<and> lh_num_alloc_nodes lh' = lh_num_alloc_nodes lh \<and> lh_p lh' = lh_p lh \<and> lh_pmax lh' = lh_pmax lh \<and> lh_up_load lh' = lh_up_load lh
     \<and> lh_down_load lh' = lh_down_load lh \<and> num_items lh' = num_items lh"

lemma same_table_inv: "same_table lh lh' \<Longrightarrow> lh_inv lh' = lh_inv lh"
  by (simp add: same_table_def lh_inv_def geometry_def)

lemma getrn_loop_result:
  assumes "lh_comp lh = comp"
  shows "fst (getrn_loop data h ns i lh) = i + length (takeWhile (\<lambda>n. \<not> (nd_hash n = h \<and> comp (nd_data n) data = 0)) ns)
    \<and> same_table lh (snd (getrn_loop data h ns i lh))"
  using assms
proof (induction ns arbitrary: i lh)
  case Nil
  then show ?case by (simp add: same_table_def)
next
  case (Cons n ns)
  let ?lh1 = "lh\<lparr>num_hash_comps := num_hash_comps lh + 1\<rparr>" let ?lh2 = "?lh1\<lparr>num_comp_calls := num_comp_calls lh + 1\<rparr>"
  show ?case using Cons.IH [of ?lh1 "Suc i"] Cons.IH [of ?lh2 "Suc i"] Cons.prems by (simp add: Let_def same_table_def)
qed

lemma getrn_slot:
  assumes "lh_num_alloc_nodes lh = 2 * lh_pmax lh" and "nn = lh_slot (lh_pmax lh) (lh_p lh) (lh_hash lh data)"
  shows "getrn lh data = (case getrn_loop data (lh_hash lh data) (lh_b lh ! nn) 0 (lh\<lparr>num_hash_calls := num_hash_calls lh + 1\<rparr>) of
    (i, lh') \<Rightarrow> ((nn, i), lh_hash lh data, lh'))"
  using assms by (simp add: getrn_def lh_slot_def Let_def)

lemma getrn_result:
  assumes "lh_inv lh"
  shows "\<exists>nn i lh'. getrn lh data = ((nn, i), hash data, lh') \<and> same_table lh lh' \<and> nn < length (lh_b lh) \<and> i \<le> length (lh_b lh ! nn)
    \<and> nn = lh_slot (lh_pmax lh) (lh_p lh) (hash data)
    \<and> (if i < length (lh_b lh ! nn) then comp (nd_data (lh_b lh ! nn ! i)) data = 0 \<and> nd_hash (lh_b lh ! nn ! i) = hash data
       else \<forall>n \<in> set (concat (lh_b lh)). comp (nd_data n) data \<noteq> 0)"
proof -
  have g: "geometry lh" "lh_num_alloc_nodes lh = 2 * lh_pmax lh" and f: "lh_hash lh = hash" "lh_comp lh = comp" and pl: "placed (lh_pmax lh) (lh_p lh) (lh_b lh)"
    using assms by (simp_all add: lh_inv_def geometry_def)
  let ?P = "\<lambda>n. \<not> (nd_hash n = hash data \<and> comp (nd_data n) data = 0)"
  let ?nn = "lh_slot (lh_pmax lh) (lh_p lh) (hash data)" let ?c = "lh_b lh ! ?nn" let ?i = "length (takeWhile ?P ?c)"
  have nn: "?nn < length (lh_b lh)"
    using lh_slot_less [OF geometry_pos [OF g(1)], of "lh_p lh" "hash data"] g by (auto simp: geometry_def)
  let ?lh = "lh\<lparr>num_hash_calls := num_hash_calls lh + 1\<rparr>" let ?r = "getrn_loop data (hash data) ?c 0 ?lh"
  have r: "fst ?r = ?i" "same_table ?lh (snd ?r)" using getrn_loop_result [of ?lh data "hash data" ?c 0] f by simp_all
  have "getrn lh data = ((?nn, ?i), hash data, snd ?r)"
    using getrn_slot [OF g(2) refl, of data] f r(1) by (simp add: case_prod_beta)
  moreover have "same_table lh (snd ?r)" using r(2) by (simp add: same_table_def)
  moreover have "\<not> ?P (?c ! ?i)" if "?i < length ?c" using nth_length_takeWhile [OF that] .
  moreover have "\<forall>n \<in> set (concat (lh_b lh)). comp (nd_data n) data \<noteq> 0" if "\<not> ?i < length ?c"
  proof -
    have "takeWhile ?P ?c = ?c" using that takeWhile_eq_take [of ?P ?c] by simp
    then have "\<forall>n \<in> set ?c. ?P n" by (simp only: takeWhile_eq_all_conv)
    then show ?thesis using placed_bucket [OF pl, of _ data] by blast
  qed
  ultimately have "if ?i < length ?c then comp (nd_data (?c ! ?i)) data = 0 \<and> nd_hash (?c ! ?i) = hash data
      else \<forall>n \<in> set (concat (lh_b lh)). comp (nd_data n) data \<noteq> 0" "getrn lh data = ((?nn, ?i), hash data, snd ?r)" "same_table lh (snd ?r)"
    by presburger+
  then show ?thesis using nn length_takeWhile_le [of ?P ?c] by blast
qed

section \<open>Growing and shrinking\<close>

lemma placed_expand:
  assumes "placed pmax p b" "p < pmax" "length b = 2 * pmax"
  shows "placed pmax (Suc p) (b[p := filter (\<lambda>n. unat (nd_hash n) mod (2 * pmax) = p) (b ! p),
    p + pmax := rev (filter (\<lambda>n. unat (nd_hash n) mod (2 * pmax) \<noteq> p) (b ! p))])"
  unfolding placed_def
proof (intro allI impI ballI)
  fix i n
  assume i: "i < length (b[p := filter (\<lambda>n. unat (nd_hash n) mod (2 * pmax) = p) (b ! p),
      p + pmax := rev (filter (\<lambda>n. unat (nd_hash n) mod (2 * pmax) \<noteq> p) (b ! p))])"
    and n: "n \<in> set (b[p := filter (\<lambda>n. unat (nd_hash n) mod (2 * pmax) = p) (b ! p),
      p + pmax := rev (filter (\<lambda>n. unat (nd_hash n) mod (2 * pmax) \<noteq> p) (b ! p))] ! i)"
  let ?j = "if i = p + pmax then p else i"
  have "?j < length b" "n \<in> set (b ! ?j)" using i n assms(2,3) by (auto simp: nth_list_update split: if_splits)
  then have "hash (nd_data n) = nd_hash n" "lh_slot pmax p (nd_hash n) = ?j" using assms(1) unfolding placed_def by blast+
  moreover have "i = p \<or> i = p + pmax \<Longrightarrow> (unat (nd_hash n) mod (2 * pmax) = p) = (i = p)"
    using i n assms(2,3) by (auto simp: nth_list_update split: if_splits)
  ultimately show "hash (nd_data n) = nd_hash n \<and> lh_slot pmax (Suc p) (nd_hash n) = i"
    using lh_slot_Suc [OF assms(2), of "nd_hash n"] assms(2) by (auto split: if_splits)
qed

lemma expand_mset:
  assumes "placed pmax p b" "p < pmax" "length b = 2 * pmax"
  shows "mset (concat (b[p := filter (\<lambda>n. unat (nd_hash n) mod (2 * pmax) = p) (b ! p),
    p + pmax := rev (filter (\<lambda>n. unat (nd_hash n) mod (2 * pmax) \<noteq> p) (b ! p))])) = mset (concat b)"
proof -
  let ?k = "filter (\<lambda>n. unat (nd_hash n) mod (2 * pmax) = p) (b ! p)" let ?m = "rev (filter (\<lambda>n. unat (nd_hash n) mod (2 * pmax) \<noteq> p) (b ! p))"
  have e: "b ! (p + pmax) = []" using placed_empty [OF assms(1)] assms(2,3) by simp
  then have "mset (concat (b[p := ?k, p + pmax := ?m])) = mset (concat (b[p := ?k])) + mset ?m"
    using mset_concat_update_eq [of "p + pmax" "b[p := ?k]" ?m "mset ?m"] assms(2,3) by simp
  moreover have "mset (concat (b[p := ?k])) + mset (b ! p) = mset (concat b) + mset ?k"
    using mset_concat_update [of p b ?k] assms(2,3) by simp
  moreover have "mset (b ! p) = mset ?k + mset ?m" by (simp only: mset_rev mset_filter) (rule multiset_partition)
  ultimately show ?thesis using mset_move by blast
qed

lemma placed_append: "placed pmax p b \<Longrightarrow> placed pmax p (b @ replicate m [])"
  by (auto simp: placed_def nth_append)

lemma placed_take: "placed pmax p b \<Longrightarrow> placed pmax p (take m b)"
  by (auto simp: placed_def)

lemma placed_full: "0 < pmax \<Longrightarrow> placed pmax pmax b = placed (2 * pmax) 0 b"
  by (simp add: placed_def lh_slot_full)

lemma expand_correct:
  assumes "lh_inv lh" "\<forall>n. grant n" "lh_num_nodes lh < 2 ^ 29"
  shows "lh_inv (expand grant lh) \<and> mset (concat (lh_b (expand grant lh))) = mset (concat (lh_b lh))
    \<and> lh_num_nodes (expand grant lh) = lh_num_nodes lh + 1"
proof -
  let ?p = "lh_p lh" let ?m = "lh_pmax lh"
  let ?b = "(lh_b lh)[?p := filter (\<lambda>n. unat (nd_hash n) mod (2 * ?m) = ?p) (lh_b lh ! ?p),
    ?p + ?m := rev (filter (\<lambda>n. unat (nd_hash n) mod (2 * ?m) \<noteq> ?p) (lh_b lh ! ?p))]"
  obtain k where k: "?m = 8 * 2 ^ k" using assms(1) by (auto simp: lh_inv_def geometry_def)
  have g: "?p < ?m" "lh_num_alloc_nodes lh = 2 * ?m" "lh_num_nodes lh = ?m + ?p" "length (lh_b lh) = 2 * ?m"
    and pl: "placed ?m ?p (lh_b lh)" and ap: "apart (concat (lh_b lh))" and f: "lh_hash lh = hash" "lh_comp lh = comp" "num_items lh = of_nat (length (concat (lh_b lh)))"
    using assms(1) by (simp_all add: lh_inv_def geometry_def)
  have pl': "placed ?m (Suc ?p) ?b" and ms: "mset (concat ?b) = mset (concat (lh_b lh))"
    using placed_expand [OF pl g(1,4)] expand_mset [OF pl g(1,4)] .
  have ap': "apart (concat ?b)" and len: "length (concat ?b) = length (concat (lh_b lh))"
    using apart_perm [OF ms] ap mset_eq_length [OF ms] by blast+
  have w: "(?p + ?m) mod UINT_MOD = ?p + ?m" "(?p + 1) mod UINT_MOD = Suc ?p" "(2 * ?m * 2) mod UINT_MOD = 4 * ?m" "(?m + ?p + 1) mod UINT_MOD = ?m + ?p + 1"
    using assms(3) g(1,3) by simp_all
  show ?thesis
  proof (cases "Suc ?p < ?m")
    case True
    then have e: "expand grant lh = lh\<lparr>lh_num_nodes := ?m + ?p + 1, num_expands := num_expands lh + 1, lh_p := Suc ?p, lh_b := ?b\<rparr>"
      using g w by (simp add: expand_def expand_loop_result Let_def)
    show ?thesis using True k g pl' ms ap' len f unfolding e by (simp add: lh_inv_def geometry_def)
  next
    case False
    then have s: "Suc ?p = ?m" using g(1) by simp
    have e: "expand grant lh = lh\<lparr>lh_num_nodes := ?m + ?p + 1, num_expands := num_expands lh + 1, lh_b := ?b @ replicate (2 * ?m) [], lh_pmax := 2 * ?m,
        lh_num_alloc_nodes := 4 * ?m, num_expand_reallocs := num_expand_reallocs lh + 1, lh_p := 0\<rparr>"
      using False g w assms(2) by (simp add: expand_def expand_loop_result Let_def)
    have "placed (2 * ?m) 0 (?b @ replicate (2 * ?m) [])" using placed_full [of ?m ?b] placed_append pl' s k by simp
    moreover have "concat (?b @ replicate (2 * ?m) []) = concat ?b" by simp
    moreover have "\<exists>k. 2 * ?m = 8 * 2 ^ k" using k by (intro exI [of _ "Suc k"]) simp
    ultimately show ?thesis using k g ms ap' len f s unfolding e by (simp add: lh_inv_def geometry_def)
  qed
qed

lemma placed_contract:
  assumes "placed pmax (Suc p) b" "p < pmax" "length b = 2 * pmax"
  shows "placed pmax p (b[p + pmax := [], p := b ! p @ b ! (p + pmax)])"
  unfolding placed_def
proof (intro allI impI ballI)
  fix i n
  assume i: "i < length (b[p + pmax := [], p := b ! p @ b ! (p + pmax)])" and n: "n \<in> set (b[p + pmax := [], p := b ! p @ b ! (p + pmax)] ! i)"
  obtain j where j: "j < length b" "n \<in> set (b ! j)" "i = j \<and> i \<noteq> p + pmax \<or> i = p \<and> j = p + pmax"
  proof (cases "i = p \<and> n \<in> set (b ! (p + pmax))")
    case True
    then show ?thesis using that [of "p + pmax"] assms(2,3) by simp
  next
    case False
    then show ?thesis using that [of i] i n assms(2,3) by (cases "i = p + pmax") (auto simp: nth_list_update split: if_splits)
  qed
  then have "hash (nd_data n) = nd_hash n" "lh_slot pmax (Suc p) (nd_hash n) = j" using assms(1) unfolding placed_def by blast+
  then show "hash (nd_data n) = nd_hash n \<and> lh_slot pmax p (nd_hash n) = i"
    using lh_slot_pred [OF assms(2), of "nd_hash n"] j(3) by auto
qed

lemma contract_mset:
  assumes "p < pmax" "length b = 2 * pmax"
  shows "mset (concat (b[p + pmax := [], p := b ! p @ b ! (p + pmax)])) = mset (concat b)"
proof -
  have "mset (concat (b[p + pmax := []])) + mset (b ! (p + pmax)) = mset (concat b)"
    using mset_concat_update [of "p + pmax" b "[]"] assms by simp
  moreover have "mset (concat (b[p + pmax := [], p := b ! p @ b ! (p + pmax)])) = mset (concat (b[p + pmax := []])) + mset (b ! (p + pmax))"
    using mset_concat_update_eq [of p "b[p + pmax := []]" "b ! p @ b ! (p + pmax)" "mset (b ! (p + pmax))"] assms by simp
  ultimately show ?thesis by simp
qed

lemma concat_placed_take:
  assumes "placed pmax 0 b" "0 < pmax"
  shows "concat (take pmax b) = concat b"
proof -
  have "\<forall>c \<in> set (drop pmax b). c = []"
    using placed_empty [OF assms(1,2)] by (auto simp: in_set_conv_nth)
  then have "concat (drop pmax b) = []" by simp
  then show ?thesis by (metis append_Nil2 append_take_drop_id concat_append)
qed

lemma contract_correct:
  assumes "lh_inv lh" "\<forall>n. grant n" "16 < lh_num_nodes lh"
  shows "lh_inv (contract grant lh) \<and> mset (concat (lh_b (contract grant lh))) = mset (concat (lh_b lh))
    \<and> lh_num_nodes (contract grant lh) = lh_num_nodes lh - 1"
proof -
  let ?m = "lh_pmax lh" let ?b = "lh_b lh"
  obtain k where k: "?m = 8 * 2 ^ k" using assms(1) by (auto simp: lh_inv_def geometry_def)
  have g: "lh_p lh < ?m" "lh_num_alloc_nodes lh = 2 * ?m" "lh_num_nodes lh = ?m + lh_p lh" "length ?b = 2 * ?m"
    and pl: "placed ?m (lh_p lh) ?b" and ap: "apart (concat ?b)" and f: "lh_hash lh = hash" "lh_comp lh = comp" "num_items lh = of_nat (length (concat ?b))"
    using assms(1) by (simp_all add: lh_inv_def geometry_def)
  show ?thesis
  proof (cases "lh_p lh")
    case 0
    then obtain j where j: "k = Suc j" using assms(3) g(3) k by (cases k) auto
    define h p :: nat where "h = 8 * 2 ^ j" and "p = h - 1"
    have h: "?m = 2 * h" "p < h" "Suc p = h" "0 < h" using k j by (simp_all add: h_def p_def)
    define c where "c = take ?m ?b"
    have c: "length c = 2 * h" "placed h (Suc p) c" "concat c = concat ?b"
      using g(4) h placed_full [of h c] placed_take [OF pl, of ?m] concat_placed_take [of ?m ?b] pl 0 by (simp_all add: c_def)
    let ?b' = "c[p + h := [], p := c ! p @ c ! (p + h)]"
    have n: "?b ! (p + h) = c ! (p + h)" "?b ! p = c ! p" "take ?m (?b[p + h := []]) = c[p + h := []]" "p + h < length ?b" "p \<noteq> p + h" "?m - Suc 0 = p + h" "?m div 2 = h"
      using h g(4) by (simp_all add: c_def take_update_swap)
    have pl': "placed h p ?b'" and ms: "mset (concat ?b') = mset (concat ?b)"
      using placed_contract [OF c(2) h(2) c(1)] contract_mset [OF h(2) c(1)] c(3) by simp_all
    have "contract grant lh = lh\<lparr>lh_b := ?b', num_contract_reallocs := num_contract_reallocs lh + 1, lh_num_alloc_nodes := ?m,
        lh_pmax := h, lh_p := p, lh_num_nodes := ?m - 1, num_contracts := num_contracts lh + 1\<rparr>"
      using 0 assms(2) n g h by (simp add: contract_def Let_def p_def)
    then show ?thesis using pl' ms apart_perm [OF ms] mset_eq_length [OF ms] ap f h g c(1) 0 by (auto simp: lh_inv_def geometry_def h_def)
  next
    case (Suc p)
    let ?b' = "?b[p + ?m := [], p := ?b ! p @ ?b ! (p + ?m)]"
    have pm: "p < ?m" using g(1) Suc by simp
    have pl': "placed ?m p ?b'" and ms: "mset (concat ?b') = mset (concat ?b)"
      using placed_contract [OF pl [unfolded Suc] pm g(4)] contract_mset [OF pm g(4)] by simp_all
    have "contract grant lh = lh\<lparr>lh_b := ?b', lh_p := p, lh_num_nodes := lh_num_nodes lh - 1, num_contracts := num_contracts lh + 1\<rparr>"
      using Suc pm g by (simp add: contract_def Let_def)
    then show ?thesis using pl' ms apart_perm [OF ms] mset_eq_length [OF ms] ap f g pm k Suc by (simp add: lh_inv_def geometry_def)
  qed
qed

end

end
