(* ===== verification/Lhash_Refine.thy ===== *)
theory Lhash_Refine
  imports Lhash_Map
begin

text \<open>
  The operations of the hash table refine those of a map, and the table keeps its invariant. Sequences of calls are runs; strings, with which
  \<open>lh_new\<close> makes a table when the caller gives no functions, satisfy the contract.
\<close>

section \<open>The abstract map\<close>

datatype 'a lh_op = Insert_op 'a | Delete_op 'a | Retrieve_op 'a

fun map_do :: "('a \<Rightarrow> 'a \<Rightarrow> int) \<Rightarrow> 'a lh_op \<Rightarrow> ('a \<Rightarrow> 'a option) \<Rightarrow> 'a option \<times> ('a \<Rightarrow> 'a option)" where
  "map_do cmp (Insert_op d) M = (M d, \<lambda>x. if cmp d x = 0 then Some d else M x)"
| "map_do cmp (Delete_op d) M = (M d, \<lambda>x. if cmp d x = 0 then None else M x)"
| "map_do cmp (Retrieve_op d) M = (M d, M)"

fun map_run :: "('a \<Rightarrow> 'a \<Rightarrow> int) \<Rightarrow> 'a lh_op list \<Rightarrow> ('a \<Rightarrow> 'a option) \<Rightarrow> 'a option list \<times> ('a \<Rightarrow> 'a option)" where
  "map_run cmp [] M = ([], M)"
| "map_run cmp (op # ops) M = (case map_do cmp op M of (r, M) \<Rightarrow> case map_run cmp ops M of (rs, M) \<Rightarrow> (r # rs, M))"

fun lh_do :: "(nat \<Rightarrow> bool) \<Rightarrow> 'a lh_op \<Rightarrow> 'a LHASH \<Rightarrow> 'a option \<times> 'a LHASH" where
  "lh_do grant (Insert_op d) lh = lh_insert grant lh d"
| "lh_do grant (Delete_op d) lh = lh_delete grant lh d"
| "lh_do grant (Retrieve_op d) lh = lh_retrieve lh d"

fun lh_run :: "(nat \<Rightarrow> bool) \<Rightarrow> 'a lh_op list \<Rightarrow> 'a LHASH \<Rightarrow> 'a option list \<times> 'a LHASH" where
  "lh_run grant [] lh = ([], lh)"
| "lh_run grant (op # ops) lh = (case lh_do grant op lh of (r, lh) \<Rightarrow> case lh_run grant ops lh of (rs, lh) \<Rightarrow> (r # rs, lh))"

section \<open>Picking a node\<close>

lemma mset_take_drop: "i < length c \<Longrightarrow> mset c = add_mset (c ! i) (mset (take i c @ drop (Suc i) c))"
  by (metis add_mset_add_single id_take_nth_drop mset.simps(2) mset_append union_mset_add_mset_right)

lemma mset_pick:
  assumes "nn < length b" "i < length (b ! nn)"
  defines "rest \<equiv> concat (b[nn := take i (b ! nn) @ drop (Suc i) (b ! nn)])"
  shows "mset (concat b) = add_mset (b ! nn ! i) (mset rest)" "mset (concat (b[nn := (b ! nn)[i := n]])) = add_mset n (mset rest)"
proof -
  let ?c = "b ! nn" let ?r = "take i ?c @ drop (Suc i) ?c"
  show 1: "mset (concat b) = add_mset (?c ! i) (mset rest)"
    using mset_concat_update [OF assms(1), of ?r] mset_take_drop [OF assms(2)] by (simp add: rest_def)
  have "mset (?c[i := n]) = add_mset n (mset ?r)" using assms(2) by (simp add: upd_conv_take_nth_drop)
  then show "mset (concat (b[nn := ?c[i := n]])) = add_mset n (mset rest)"
    using mset_concat_update [OF assms(1), of "?c[i := n]"] 1 mset_take_drop [OF assms(2)] by simp
qed

context lhash_keys
begin

definition refs :: "'a LHASH_NODE multiset \<Rightarrow> ('a \<Rightarrow> 'a option) \<Rightarrow> bool" where
  "refs C M \<longleftrightarrow> (\<forall>x y. M x = Some y \<longleftrightarrow> y \<in> nd_data ` set_mset C \<and> comp y x = 0)"

lemma refs_hit: "refs C M \<Longrightarrow> n \<in># C \<Longrightarrow> comp (nd_data n) d = 0 \<Longrightarrow> M d = Some (nd_data n)"
  by (simp add: refs_def)

lemma refs_miss: "refs C M \<Longrightarrow> \<forall>n \<in># C. comp (nd_data n) d \<noteq> 0 \<Longrightarrow> M d = None"
  unfolding refs_def by (metis image_iff option.exhaust)

lemma refs_insert:
  assumes "refs C M" "\<forall>n \<in># C. comp (nd_data n) d \<noteq> 0" "nd_data n = d"
  shows "refs (add_mset n C) (\<lambda>x. if comp d x = 0 then Some d else M x)"
proof -
  have "comp y x \<noteq> 0" if "comp d x = 0" "y \<in> nd_data ` set_mset C" for x y
    using that assms(2) comp_sym comp_trans by blast
  then show ?thesis using assms(1,3) unfolding refs_def by auto
qed

lemma refs_delete:
  assumes "refs (add_mset m C) M" "\<forall>n \<in># C. comp (nd_data n) (nd_data m) \<noteq> 0" "comp (nd_data m) d = 0"
  shows "refs C (\<lambda>x. if comp d x = 0 then None else M x)"
proof -
  have "comp y x \<noteq> 0" if "comp d x = 0" "y \<in> nd_data ` set_mset C" for x y
    using that assms(2,3) comp_sym comp_trans by blast
  moreover have "comp (nd_data m) x \<noteq> 0" if "comp d x \<noteq> 0" for x using that assms(3) comp_sym comp_trans by blast
  ultimately show ?thesis using assms(1) unfolding refs_def by auto
qed

lemma apart_rest:
  assumes "apart ns" "mset ns = add_mset m (mset rest)"
  shows "apart rest" "\<forall>n \<in># mset rest. comp (nd_data n) (nd_data m) \<noteq> 0"
  using assms apart_perm [of ns "m # rest"] apart_Cons [of m rest] by simp_all

lemma apart_add:
  assumes "apart rest" "\<forall>n \<in># mset rest. comp (nd_data n) (nd_data m) \<noteq> 0" "mset ns = add_mset m (mset rest)"
  shows "apart ns"
  using assms apart_perm [of ns "m # rest"] apart_Cons [of m rest] by simp

lemma placed_update:
  assumes "placed pmax p b" "\<forall>n \<in> set c. hash (nd_data n) = nd_hash n \<and> lh_slot pmax p (nd_hash n) = nn"
  shows "placed pmax p (b[nn := c])"
  using assms unfolding placed_def by (metis length_list_update nth_list_update_eq nth_list_update_neq)

lemma placed_nth: "placed pmax p b \<Longrightarrow> nn < length b \<Longrightarrow> \<forall>n \<in> set (b ! nn). hash (nd_data n) = nd_hash n \<and> lh_slot pmax p (nd_hash n) = nn"
  unfolding placed_def by blast

lemma inv_parts:
  assumes "lh_inv lh"
  shows "placed (lh_pmax lh) (lh_p lh) (lh_b lh)" "apart (concat (lh_b lh))" "num_items lh = of_nat (length (concat (lh_b lh)))"
  using assms by (simp_all add: lh_inv_def)

section \<open>The operations\<close>

text \<open>The table with other contents, and the counters of calls.\<close>

lemma inv_update:
  assumes "lh_inv lh" "same_table lh lh'" "placed (lh_pmax lh) (lh_p lh) ((lh_b lh)[nn := c])" "apart (concat ((lh_b lh)[nn := c]))"
    and "n = of_nat (length (concat ((lh_b lh)[nn := c])))"
  shows "lh_inv (lh'\<lparr>lh_b := (lh_b lh)[nn := c], num_items := n\<rparr>)"
  using assms by (simp add: lh_inv_def geometry_def same_table_def)

lemma search:
  assumes "lh_inv lh" "refs (mset (concat (lh_b lh))) M"
  obtains nn i lh' where "getrn lh d = ((nn, i), hash d, lh')" "same_table lh lh'" "nn < length (lh_b lh)" "nn = lh_slot (lh_pmax lh) (lh_p lh) (hash d)"
    "i = length (lh_b lh ! nn)" "M d = None" "\<forall>n \<in># mset (concat (lh_b lh)). comp (nd_data n) d \<noteq> 0"
  | nn i lh' where "getrn lh d = ((nn, i), hash d, lh')" "same_table lh lh'" "nn < length (lh_b lh)" "nn = lh_slot (lh_pmax lh) (lh_p lh) (hash d)"
    "i < length (lh_b lh ! nn)" "M d = Some (nd_data (lh_b lh ! nn ! i))" "comp (nd_data (lh_b lh ! nn ! i)) d = 0" "nd_hash (lh_b lh ! nn ! i) = hash d"
proof -
  obtain nn i lh' where r: "getrn lh d = ((nn, i), hash d, lh')" "same_table lh lh'" "nn < length (lh_b lh)" "i \<le> length (lh_b lh ! nn)"
    "nn = lh_slot (lh_pmax lh) (lh_p lh) (hash d)"
    "if i < length (lh_b lh ! nn) then comp (nd_data (lh_b lh ! nn ! i)) d = 0 \<and> nd_hash (lh_b lh ! nn ! i) = hash d
       else \<forall>n \<in> set (concat (lh_b lh)). comp (nd_data n) d \<noteq> 0"
    using getrn_result [OF assms(1), of d] by blast
  show thesis
  proof (cases "i < length (lh_b lh ! nn)")
    case True
    have "lh_b lh ! nn ! i \<in># mset (concat (lh_b lh))" using concat_nth_subset [OF r(3) nth_mem [OF True]] by (simp only: set_mset_mset)
    then have "M d = Some (nd_data (lh_b lh ! nn ! i))" using refs_hit [OF assms(2)] r(6) True by simp
    then show thesis using that(2) [OF r(1-3,5) True] r(6) True by simp
  next
    case False
    then have a: "\<forall>n \<in># mset (concat (lh_b lh)). comp (nd_data n) d \<noteq> 0" using r(6) by (simp only: set_mset_mset if_False)
    show thesis using that(1) [OF r(1-3,5) _ refs_miss [OF assms(2) a] a] r(4) False by simp
  qed
qed

lemma inv_error: "lh_inv (lh\<lparr>lh_error := e\<rparr>) = lh_inv lh"
  by (simp add: lh_inv_def geometry_def)

lemma retrieve_correct:
  assumes "lh_inv lh" "refs (mset (concat (lh_b lh))) M"
  shows "\<exists>lh'. lh_retrieve lh d = (M d, lh') \<and> same_table lh lh'"
  by (rule search [of "lh\<lparr>lh_error := 0\<rparr>" M d]) (use assms in \<open>simp_all add: inv_error lh_retrieve_def same_table_def\<close>)

text \<open>Insertion of a new key, and the replacement of an object with the same key.\<close>

lemma insert_new:
  assumes "lh_inv lh" "refs (mset (concat (lh_b lh))) M" "same_table lh lh'" "nn < length (lh_b lh)" "nn = lh_slot (lh_pmax lh) (lh_p lh) (hash d)"
    and "\<forall>n \<in># mset (concat (lh_b lh)). comp (nd_data n) d \<noteq> 0"
  defines "lh1 \<equiv> lh'\<lparr>lh_b := (lh_b lh)[nn := lh_b lh ! nn @ [\<lparr>nd_data = d, nd_hash = hash d\<rparr>]], num_items := num_items lh + 1\<rparr>"
  shows "lh_inv lh1" "refs (mset (concat (lh_b lh1))) (\<lambda>x. if comp d x = 0 then Some d else M x)"
    "length (concat (lh_b lh1)) = length (concat (lh_b lh)) + 1"
proof -
  let ?n = "\<lparr>nd_data = d, nd_hash = hash d\<rparr>" let ?b = "(lh_b lh)[nn := lh_b lh ! nn @ [?n]]"
  have ms: "mset (concat ?b) = add_mset ?n (mset (concat (lh_b lh)))"
    using mset_concat_update_eq [OF assms(4), of "lh_b lh ! nn @ [?n]" "{#?n#}"] by simp
  then show "refs (mset (concat (lh_b lh1))) (\<lambda>x. if comp d x = 0 then Some d else M x)"
    using refs_insert [OF assms(2,6), of ?n] by (simp add: lh1_def)
  have "apart (concat ?b)" using apart_add [OF inv_parts(2) [OF assms(1)] _ ms] assms(6) by simp
  moreover have "placed (lh_pmax lh) (lh_p lh) ?b"
    using placed_nth [OF inv_parts(1) [OF assms(1)] assms(4)] assms(5) by (intro placed_update inv_parts assms(1)) auto
  moreover have len: "length (concat ?b) = length (concat (lh_b lh)) + 1" using arg_cong [OF ms, of size] by simp
  ultimately show "lh_inv lh1"
    using inv_update [OF assms(1,3), of nn "lh_b lh ! nn @ [?n]" "num_items lh + 1"] inv_parts(3) [OF assms(1)] by (simp add: lh1_def)
  show "length (concat (lh_b lh1)) = length (concat (lh_b lh)) + 1" using len by (simp add: lh1_def)
qed

lemma insert_replace:
  assumes "lh_inv lh" "refs (mset (concat (lh_b lh))) M" "same_table lh lh'" "nn < length (lh_b lh)" "i < length (lh_b lh ! nn)"
    and "comp (nd_data (lh_b lh ! nn ! i)) d = 0"
  defines "lh1 \<equiv> lh'\<lparr>lh_b := (lh_b lh)[nn := (lh_b lh ! nn)[i := (lh_b lh ! nn ! i)\<lparr>nd_data := d\<rparr>]]\<rparr>"
  shows "lh_inv lh1" "refs (mset (concat (lh_b lh1))) (\<lambda>x. if comp d x = 0 then Some d else M x)"
    "length (concat (lh_b lh1)) = length (concat (lh_b lh))"
proof -
  let ?m = "lh_b lh ! nn ! i" let ?n = "?m\<lparr>nd_data := d\<rparr>" let ?c = "(lh_b lh ! nn)[i := ?n]" let ?b = "(lh_b lh)[nn := ?c]"
  let ?rest = "concat ((lh_b lh)[nn := take i (lh_b lh ! nn) @ drop (Suc i) (lh_b lh ! nn)])"
  have ms: "mset (concat (lh_b lh)) = add_mset ?m (mset ?rest)" "mset (concat ?b) = add_mset ?n (mset ?rest)"
    using mset_pick [OF assms(4,5)] by simp_all
  have ap: "apart ?rest" "\<forall>n \<in># mset ?rest. comp (nd_data n) (nd_data ?m) \<noteq> 0"
    using apart_rest [OF inv_parts(2) [OF assms(1)] ms(1)] .
  then have n: "\<forall>n \<in># mset ?rest. comp (nd_data n) d \<noteq> 0" using assms(6) comp_sym comp_trans by blast
  have "refs (mset ?rest) (\<lambda>x. if comp d x = 0 then None else M x)" using refs_delete [OF _ ap(2) assms(6)] assms(2) ms(1) by simp
  then have "refs (mset (concat ?b)) (\<lambda>x. if comp d x = 0 then Some d else if comp d x = 0 then None else M x)"
    using refs_insert [OF _ n, of _ ?n] ms(2) by simp
  then show "refs (mset (concat (lh_b lh1))) (\<lambda>x. if comp d x = 0 then Some d else M x)" by (simp add: lh1_def cong: if_cong)
  have "apart (concat ?b)" using apart_add [OF ap(1) _ ms(2)] n by simp
  moreover have "hash d = hash (nd_data ?m)" using comp_hash [OF assms(6)] by simp
  then have "placed (lh_pmax lh) (lh_p lh) ?b"
    using placed_nth [OF inv_parts(1) [OF assms(1)] assms(4)] nth_mem [OF assms(5)] set_update_subset_insert [of "lh_b lh ! nn" i ?n]
    by (intro placed_update inv_parts assms(1)) auto
  moreover have len: "length (concat ?b) = length (concat (lh_b lh))" using arg_cong [OF ms(1), of size] arg_cong [OF ms(2), of size] by simp
  moreover have "num_items lh' = num_items lh" using assms(3) by (simp add: same_table_def)
  ultimately show "lh_inv lh1"
    using inv_update [OF assms(1,3), of nn ?c "num_items lh'"] inv_parts(3) [OF assms(1)] by (simp add: lh1_def lh_inv_def geometry_def)
  show "length (concat (lh_b lh1)) = length (concat (lh_b lh))" using len by (simp add: lh1_def)
qed

lemma delete_found:
  assumes "lh_inv lh" "refs (mset (concat (lh_b lh))) M" "same_table lh lh'" "nn < length (lh_b lh)" "i < length (lh_b lh ! nn)"
    and "comp (nd_data (lh_b lh ! nn ! i)) d = 0"
  defines "lh1 \<equiv> lh'\<lparr>lh_b := (lh_b lh)[nn := take i (lh_b lh ! nn) @ drop (Suc i) (lh_b lh ! nn)], num_items := num_items lh - 1\<rparr>"
  shows "lh_inv lh1" "refs (mset (concat (lh_b lh1))) (\<lambda>x. if comp d x = 0 then None else M x)"
    "length (concat (lh_b lh1)) \<le> length (concat (lh_b lh))"
proof -
  let ?m = "lh_b lh ! nn ! i" let ?c = "take i (lh_b lh ! nn) @ drop (Suc i) (lh_b lh ! nn)" let ?b = "(lh_b lh)[nn := ?c]"
  have ms: "mset (concat (lh_b lh)) = add_mset ?m (mset (concat ?b))" using mset_pick(1) [OF assms(4,5)] .
  have ap: "apart (concat ?b)" "\<forall>n \<in># mset (concat ?b). comp (nd_data n) (nd_data ?m) \<noteq> 0"
    using apart_rest [OF inv_parts(2) [OF assms(1)] ms] .
  show "refs (mset (concat (lh_b lh1))) (\<lambda>x. if comp d x = 0 then None else M x)"
    using refs_delete [OF _ ap(2) assms(6)] assms(2) ms by (simp add: lh1_def)
  have "placed (lh_pmax lh) (lh_p lh) ?b"
    using placed_nth [OF inv_parts(1) [OF assms(1)] assms(4)] by (intro placed_update inv_parts assms(1)) (auto dest: in_set_takeD in_set_dropD)
  moreover have len: "length (concat (lh_b lh)) = Suc (length (concat ?b))" using arg_cong [OF ms, of size] by simp
  ultimately show "lh_inv lh1"
    using inv_update [OF assms(1,3), of nn ?c "num_items lh - 1"] inv_parts(3) [OF assms(1)] ap(1) by (simp add: lh1_def)
  show "length (concat (lh_b lh1)) \<le> length (concat (lh_b lh))" using len by (simp add: lh1_def)
qed

text \<open>What a call does: its result is that of the map, and the table represents the new map. The number of buckets grows by one at most.\<close>

definition step_ok :: "'a LHASH \<Rightarrow> ('a \<Rightarrow> 'a option) \<Rightarrow> 'a LHASH \<Rightarrow> bool" where
  "step_ok lh M lh' \<longleftrightarrow> lh_inv lh' \<and> refs (mset (concat (lh_b lh'))) M \<and> lh_num_nodes lh' \<le> lh_num_nodes lh + 1
     \<and> length (concat (lh_b lh')) \<le> length (concat (lh_b lh)) + 1"

lemma step_ok_same: "step_ok lh M lh1 \<Longrightarrow> same_table lh1 lh2 \<Longrightarrow> step_ok lh M lh2"
  by (simp add: step_ok_def same_table_inv) (simp add: same_table_def)

lemma insert_correct:
  assumes "lh_inv lh" "refs (mset (concat (lh_b lh))) M" "\<forall>n. grant n" "lh_num_nodes lh < 2 ^ 29"
  shows "\<exists>lh'. lh_insert grant lh d = (M d, lh') \<and> step_ok lh (\<lambda>x. if comp d x = 0 then Some d else M x) lh'"
proof -
  let ?e = "lh\<lparr>lh_error := 0\<rparr>"
  define lh0 where "lh0 = (if lh_up_load ?e \<le> num_items ?e * LH_LOAD_MULT div of_nat (lh_num_nodes ?e) then expand grant ?e else ?e)"
  have e: "lh_inv ?e" "lh_num_nodes ?e < 2 ^ 29" using assms(1,4) by (simp_all add: inv_error)
  have "lh_inv lh0 \<and> mset (concat (lh_b lh0)) = mset (concat (lh_b lh)) \<and> lh_num_nodes lh0 \<le> lh_num_nodes lh + 1"
    using expand_correct [OF e(1) assms(3) e(2)] e by (auto simp: lh0_def)
  then have lh0: "lh_inv lh0" "refs (mset (concat (lh_b lh0))) M" "lh_num_nodes lh0 \<le> lh_num_nodes lh + 1" "length (concat (lh_b lh0)) = length (concat (lh_b lh))"
    using assms(2) by (auto dest: mset_eq_length)
  have i: "lh_insert grant lh d = (case getrn lh0 d of ((nn, i), h, lh) \<Rightarrow>
      if i = length (lh_b lh ! nn) then (None, lh\<lparr>lh_b := (lh_b lh)[nn := lh_b lh ! nn @ [\<lparr>nd_data = d, nd_hash = h\<rparr>]], num_insert := num_insert lh + 1, num_items := num_items lh + 1\<rparr>)
      else (Some (nd_data (lh_b lh ! nn ! i)), lh\<lparr>lh_b := (lh_b lh)[nn := (lh_b lh ! nn)[i := (lh_b lh ! nn ! i)\<lparr>nd_data := d\<rparr>]], num_replace := num_replace lh + 1\<rparr>))"
    using assms(3) by (simp add: lh_insert_def lh0_def Let_def case_prod_beta)
  show ?thesis
  proof (rule search [OF lh0(1,2), of d])
    fix nn i lh'
    assume r: "getrn lh0 d = ((nn, i), hash d, lh')" "same_table lh0 lh'" "nn < length (lh_b lh0)" "nn = lh_slot (lh_pmax lh0) (lh_p lh0) (hash d)"
      "i = length (lh_b lh0 ! nn)" "M d = None" "\<forall>n \<in># mset (concat (lh_b lh0)). comp (nd_data n) d \<noteq> 0"
    let ?b = "(lh_b lh0)[nn := lh_b lh0 ! nn @ [\<lparr>nd_data = d, nd_hash = hash d\<rparr>]]"
    have "step_ok lh (\<lambda>x. if comp d x = 0 then Some d else M x) (lh'\<lparr>lh_b := ?b, num_items := num_items lh0 + 1\<rparr>)"
      using insert_new [OF lh0(1,2) r(2,3,4,7)] lh0(3,4) r(2) by (simp add: step_ok_def same_table_def)
    then have "step_ok lh (\<lambda>x. if comp d x = 0 then Some d else M x) (lh'\<lparr>lh_b := ?b, num_insert := num_insert lh' + 1, num_items := num_items lh0 + 1\<rparr>)"
      by (rule step_ok_same) (simp add: same_table_def)
    then show ?thesis using i r(1,2,5,6) by (simp add: same_table_def)
  next
    fix nn i lh'
    assume r: "getrn lh0 d = ((nn, i), hash d, lh')" "same_table lh0 lh'" "nn < length (lh_b lh0)" "i < length (lh_b lh0 ! nn)"
      "M d = Some (nd_data (lh_b lh0 ! nn ! i))" "comp (nd_data (lh_b lh0 ! nn ! i)) d = 0"
    let ?b = "(lh_b lh0)[nn := (lh_b lh0 ! nn)[i := (lh_b lh0 ! nn ! i)\<lparr>nd_data := d\<rparr>]]"
    have "step_ok lh (\<lambda>x. if comp d x = 0 then Some d else M x) (lh'\<lparr>lh_b := ?b\<rparr>)"
      using insert_replace [OF lh0(1,2) r(2,3,4,6)] lh0(3,4) r(2) by (simp add: step_ok_def same_table_def)
    then have "step_ok lh (\<lambda>x. if comp d x = 0 then Some d else M x) (lh'\<lparr>lh_b := ?b, num_replace := num_replace lh' + 1\<rparr>)"
      by (rule step_ok_same) (simp add: same_table_def)
    then show ?thesis using i r(1,2,4,5) by (simp add: same_table_def)
  qed
qed

lemma delete_correct:
  assumes "lh_inv lh" "refs (mset (concat (lh_b lh))) M" "\<forall>n. grant n"
  shows "\<exists>lh'. lh_delete grant lh d = (M d, lh') \<and> step_ok lh (\<lambda>x. if comp d x = 0 then None else M x) lh'"
proof (rule search [of "lh\<lparr>lh_error := 0\<rparr>" M d])
  show "lh_inv (lh\<lparr>lh_error := 0\<rparr>)" "refs (mset (concat (lh_b (lh\<lparr>lh_error := 0\<rparr>)))) M" using assms(1,2) by (simp_all add: inv_error)
next
  fix nn i lh'
  assume r: "getrn (lh\<lparr>lh_error := 0\<rparr>) d = ((nn, i), hash d, lh')" "same_table (lh\<lparr>lh_error := 0\<rparr>) lh'"
    "i = length (lh_b (lh\<lparr>lh_error := 0\<rparr>) ! nn)" "M d = None"
    "\<forall>n \<in># mset (concat (lh_b (lh\<lparr>lh_error := 0\<rparr>))). comp (nd_data n) d \<noteq> 0"
  have "M x = None" if "comp d x = 0" for x
  proof (rule refs_miss [OF assms(2)])
    show "\<forall>n \<in># mset (concat (lh_b lh)). comp (nd_data n) x \<noteq> 0"
    proof
      fix n
      assume "n \<in># mset (concat (lh_b lh))"
      then have "comp (nd_data n) d \<noteq> 0" using r(5) by auto
      then show "comp (nd_data n) x \<noteq> 0" using that comp_sym comp_trans by blast
    qed
  qed
  then have "(\<lambda>x. if comp d x = 0 then None else M x) = M" by (intro ext) simp
  moreover have "lh_inv (lh'\<lparr>num_no_delete := num_no_delete lh' + 1\<rparr>)" using same_table_inv [OF r(2)] assms(1) by (simp add: inv_error lh_inv_def geometry_def)
  ultimately show ?thesis using assms(2) r by (simp add: lh_delete_def step_ok_def same_table_def)
next
  fix nn i lh'
  assume r: "getrn (lh\<lparr>lh_error := 0\<rparr>) d = ((nn, i), hash d, lh')" "same_table (lh\<lparr>lh_error := 0\<rparr>) lh'" "nn < length (lh_b (lh\<lparr>lh_error := 0\<rparr>))"
    "i < length (lh_b (lh\<lparr>lh_error := 0\<rparr>) ! nn)" "M d = Some (nd_data (lh_b (lh\<lparr>lh_error := 0\<rparr>) ! nn ! i))"
    "comp (nd_data (lh_b (lh\<lparr>lh_error := 0\<rparr>) ! nn ! i)) d = 0"
  let ?b = "(lh_b lh)[nn := take i (lh_b lh ! nn) @ drop (Suc i) (lh_b lh ! nn)]"
  let ?lh = "lh'\<lparr>lh_b := ?b, num_items := num_items lh - 1\<rparr>"
  define lh1 where "lh1 = lh'\<lparr>lh_b := ?b, num_delete := num_delete lh' + 1, num_items := num_items lh - 1\<rparr>"
  have s: "same_table lh lh'" "same_table ?lh lh1" using r(2) by (simp_all add: same_table_def lh1_def)
  have lh1: "lh_inv lh1" "refs (mset (concat (lh_b lh1))) (\<lambda>x. if comp d x = 0 then None else M x)" "length (concat (lh_b lh1)) \<le> length (concat (lh_b lh))"
    using delete_found [OF assms(1,2) s(1), of nn i d] r same_table_inv [OF s(2)] by (simp_all add: lh1_def)
  have n: "lh_num_nodes lh1 = lh_num_nodes lh" using r(2) by (simp add: lh1_def same_table_def)
  have "step_ok lh (\<lambda>x. if comp d x = 0 then None else M x) (contract grant lh1)" if "16 < lh_num_nodes lh1"
    using contract_correct [OF lh1(1) assms(3) that] lh1 n mset_eq_length [of "concat (lh_b (contract grant lh1))"] by (simp add: step_ok_def)
  moreover have "step_ok lh (\<lambda>x. if comp d x = 0 then None else M x) lh1" using lh1 n by (simp add: step_ok_def)
  moreover have "\<exists>lh2. lh_delete grant lh d = (M d, lh2) \<and> (lh2 = lh1 \<or> 16 < lh_num_nodes lh1 \<and> lh2 = contract grant lh1)"
    using r by (simp add: lh_delete_def lh1_def same_table_def MIN_NODES_def Let_def)
  ultimately show ?thesis by blast
qed

lemma do_correct:
  assumes "lh_inv lh" "refs (mset (concat (lh_b lh))) M" "\<forall>n. grant n" "lh_num_nodes lh < 2 ^ 29"
  shows "\<exists>lh'. lh_do grant op lh = (fst (map_do comp op M), lh') \<and> step_ok lh (snd (map_do comp op M)) lh'"
proof (cases op)
  case (Retrieve_op d)
  obtain lh' where "lh_retrieve lh d = (M d, lh')" "same_table lh lh'" using retrieve_correct [OF assms(1,2)] by blast
  then show ?thesis using Retrieve_op same_table_inv [of lh lh'] assms(1,2) by (simp add: step_ok_def same_table_def)
qed (use insert_correct [OF assms] delete_correct [OF assms(1-3)] in simp_all)

lemma run_correct:
  assumes "lh_inv lh" "refs (mset (concat (lh_b lh))) M" "\<forall>n. grant n" "lh_num_nodes lh + length ops < 2 ^ 29"
  shows "\<exists>lh'. lh_run grant ops lh = (fst (map_run comp ops M), lh') \<and> lh_inv lh' \<and> refs (mset (concat (lh_b lh'))) (snd (map_run comp ops M))
    \<and> length (concat (lh_b lh')) \<le> length (concat (lh_b lh)) + length ops"
  using assms
proof (induction ops arbitrary: lh M)
  case Nil
  then show ?case by simp
next
  case (Cons op ops)
  obtain lh1 where d: "lh_do grant op lh = (fst (map_do comp op M), lh1)" "step_ok lh (snd (map_do comp op M)) lh1"
    using do_correct [OF Cons.prems(1-3), of op] Cons.prems(4) by auto
  then have "lh_num_nodes lh1 + length ops < 2 ^ 29" using Cons.prems(4) by (simp add: step_ok_def)
  then obtain lh2 where "lh_run grant ops lh1 = (fst (map_run comp ops (snd (map_do comp op M))), lh2)" "lh_inv lh2"
    "refs (mset (concat (lh_b lh2))) (snd (map_run comp ops (snd (map_do comp op M))))" "length (concat (lh_b lh2)) \<le> length (concat (lh_b lh1)) + length ops"
    using Cons.IH [OF _ _ Cons.prems(3), of lh1 "snd (map_do comp op M)"] d(2) unfolding step_ok_def by blast
  then show ?case using d by (auto simp: case_prod_beta step_ok_def)
qed

text \<open>The number of items is the number of the map's objects.\<close>

lemma refs_card:
  assumes "refs (mset ns) M" "apart ns"
  shows "card (ran M) = length ns"
proof -
  have "inj_on nd_data (set ns)" using assms(2) by (auto simp: inj_on_def apart_def)
  moreover have "ran M = nd_data ` set ns"
    using assms(1) comp_refl unfolding refs_def ran_def set_mset_mset by blast
  ultimately show ?thesis using assms(2) by (simp add: card_image distinct_card apart_def)
qed

lemma new_inv:
  assumes "lh_new grant str h c = Some lh" "hash = lh_hash lh" "comp = lh_comp lh"
  shows "lh_inv lh" "refs (mset (concat (lh_b lh))) (\<lambda>_. None)" "lh_num_nodes lh = 8" "concat (lh_b lh) = []"
proof -
  have n: "lh_b lh = replicate 16 []" "lh_num_nodes lh = 8" "lh_num_alloc_nodes lh = 16" "lh_p lh = 0" "lh_pmax lh = 8" "num_items lh = 0"
    using assms(1) by (auto simp: lh_new_def MIN_NODES_def split: if_splits)
  have "\<exists>k. (8 :: nat) = 8 * 2 ^ k" by (intro exI [of _ 0]) simp
  then have "geometry lh" "placed (lh_pmax lh) (lh_p lh) (lh_b lh)" "apart (concat (lh_b lh))" using n by (simp_all add: geometry_def placed_def apart_def)
  then show "lh_inv lh" using n assms(2,3) unfolding lh_inv_def by (metis concat_replicate_trivial list.size(3) semiring_1_class.of_nat_0)
  show "refs (mset (concat (lh_b lh))) (\<lambda>_. None)" "lh_num_nodes lh = 8" "concat (lh_b lh) = []" using n by (simp_all add: refs_def)
qed

lemma getrn_loop_error: "lh_error (snd (getrn_loop data h ns i lh)) = lh_error lh"
  by (induction ns arbitrary: i lh) (simp_all add: Let_def)

lemma getrn_error: "lh_error (snd (snd (getrn lh data))) = lh_error lh"
  by (simp add: getrn_def Let_def case_prod_beta getrn_loop_error)

text \<open>When the allocator refuses a node the map stays as it is, and the error is counted.\<close>

lemma insert_no_node:
  assumes "lh_inv lh" "refs (mset (concat (lh_b lh))) M" "M d = None" "\<not> grant 24"
    and "lh_up_load lh > num_items lh * LH_LOAD_MULT div of_nat (lh_num_nodes lh)"
  shows "\<exists>lh'. lh_insert grant lh d = (None, lh') \<and> same_table lh lh' \<and> lh_error lh' = 1"
proof (rule search [of "lh\<lparr>lh_error := 0\<rparr>" M d])
  fix nn i lh'
  assume r: "getrn (lh\<lparr>lh_error := 0\<rparr>) d = ((nn, i), hash d, lh')" "same_table (lh\<lparr>lh_error := 0\<rparr>) lh'"
    "i = length (lh_b (lh\<lparr>lh_error := 0\<rparr>) ! nn)"
  have "lh_error lh' = 0" using getrn_error [of "lh\<lparr>lh_error := 0\<rparr>" d] r(1) by simp
  moreover have "\<not> lh_up_load lh \<le> num_items lh * LH_LOAD_MULT div of_nat (lh_num_nodes lh)" using assms(5) by (simp only: not_le)
  ultimately show ?thesis using r assms(4) by (simp add: lh_insert_def same_table_def Let_def)
qed (use assms in \<open>simp_all add: inv_error\<close>)

text \<open>When it refuses the larger array the objects of the bucket that was just made are lost: \<open>p\<close> is 0 while \<open>pmax\<close> is what it was, and the
  search does not reach that bucket.\<close>

lemma expand_refused:
  assumes "lh_inv lh" "Suc (lh_p lh) = lh_pmax lh" "lh_num_nodes lh < 2 ^ 29" "\<not> grant (4 * lh_pmax lh * 8)"
    and "n \<in> set (lh_b lh ! lh_p lh)" "unat (nd_hash n) mod lh_num_alloc_nodes lh \<noteq> lh_p lh"
  shows "fst (lh_retrieve (expand grant lh) (nd_data n)) = None"
proof -
  let ?p = "lh_p lh" let ?m = "lh_pmax lh" let ?h = "nd_hash n"
  define c where "c = filter (\<lambda>n. unat (nd_hash n) mod (2 * ?m) = ?p) (lh_b lh ! ?p)"
  have g: "lh_num_alloc_nodes lh = 2 * ?m" "lh_num_nodes lh = ?m + ?p" "length (lh_b lh) = 2 * ?m" "0 < ?m" and f: "lh_hash lh = hash" "lh_comp lh = comp"
    using assms(1) by (auto simp: lh_inv_def geometry_def)
  have h: "hash (nd_data n) = ?h" "lh_slot ?m ?p ?h = ?p"
    using inv_parts(1) [OF assms(1)] assms(2,5) g(3) placed_nth [of ?m ?p "lh_b lh" ?p] by auto
  have w: "(?p + ?m) mod UINT_MOD = ?p + ?m" "Suc ?p mod UINT_MOD = ?m" "(4 * ?m) mod UINT_MOD = 4 * ?m" using assms(2,3) g(2) by simp_all
  define lh1 where "lh1 = (expand grant lh)\<lparr>lh_error := 0, num_hash_calls := num_hash_calls (expand grant lh) + 1\<rparr>"
  have e: "lh_b lh1 ! ?p = c" "lh_p lh1 = 0" "lh_pmax lh1 = ?m" "lh_hash lh1 = hash" "lh_comp lh1 = comp"
    using assms(2,4) w g f by (simp_all add: lh1_def expand_def expand_loop_result Let_def c_def)
  have "unat ?h mod ?m = ?p" using h(2) assms(2) by (auto simp: lh_slot_def mod_double split: if_splits)
  then have r: "getrn ((expand grant lh)\<lparr>lh_error := 0\<rparr>) (nd_data n) = (case getrn_loop (nd_data n) ?h c 0 lh1 of (i, lh') \<Rightarrow> ((?p, i), ?h, lh'))"
    using e h(1) by (simp add: getrn_def lh1_def Let_def)
  have "\<forall>k \<in> set c. nd_hash k \<noteq> ?h" using assms(6) g(1) by (auto simp: c_def)
  then have "takeWhile (\<lambda>k. \<not> (nd_hash k = ?h \<and> comp (nd_data k) (nd_data n) = 0)) c = c" by (simp add: takeWhile_eq_all_conv)
  note t = arg_cong [OF this, of length]
  have "fst (getrn_loop (nd_data n) ?h c 0 lh1) = length c" "lh_b (snd (getrn_loop (nd_data n) ?h c 0 lh1)) = lh_b lh1"
    using getrn_loop_result [OF e(5), of "nd_data n" ?h c 0] unfolding t by (simp_all add: same_table_def)
  then show ?thesis using r e(1) by (simp add: lh_retrieve_def case_prod_beta)
qed

end

section \<open>Strings are keys\<close>

definition c_string :: "bytes \<Rightarrow> bytes" where
  "c_string bs = takeWhile (\<lambda>b. b \<noteq> 0) bs"

lemma strcmp_eq: "strcmp as bs = 0 \<longleftrightarrow> c_string as = c_string bs"
  by (induction as bs rule: strcmp.induct) (auto simp: c_string_def uint_0_iff dest: word_uint_eqI)

lemma strhash_loop_c_string: "strhash_loop (c_string bs) n ret = strhash_loop bs n ret"
  by (induction bs n ret rule: strhash_loop.induct) (auto simp: c_string_def Let_def)

lemma lh_strhash_eq: "c_string as = c_string bs \<Longrightarrow> lh_strhash as = lh_strhash bs"
  by (metis lh_strhash_def strhash_loop_c_string)

interpretation strings: lhash_keys "\<lambda>x. lh_strhash (str x)" "\<lambda>x y. strcmp (str x) (str y)" for str :: "'a \<Rightarrow> bytes"
  by unfold_locales (auto simp: strcmp_eq intro: lh_strhash_eq)

section \<open>Properties\<close>

text \<open>C12. The hash table refines a map. A table is made by \<open>lh_new\<close>, with any two functions such that \<open>comp\<close> is 0 on an equivalence relation and equivalent
  objects have equal hashes, as the defaults for strings are. Then every sequence of insertions, deletions and retrievals returns what the map from equivalence classes to objects
  returns, whatever splits and merges of buckets it causes, and \<open>lh_num_items\<close> is the number of its objects. Memory is not refused, and there are
  fewer than \<open>2 ^ 28\<close> calls, so that the number of buckets stays within an \<open>int\<close>.\<close>

theorem lhash_refines_map:
  assumes "\<forall>n. grant n" and "lh_new grant str h c = Some lh" and "lhash_keys (lh_hash lh) (lh_comp lh)" and "length ops < 2 ^ 28"
  shows "\<exists>lh'. lh_run grant ops lh = (fst (map_run (lh_comp lh) ops (\<lambda>_. None)), lh')
    \<and> unat (lh_num_items (Some lh')) = card (ran (snd (map_run (lh_comp lh) ops (\<lambda>_. None))))"
proof -
  note new = lhash_keys.new_inv [OF assms(3,2) refl refl]
  have "lh_num_nodes lh + length ops < 2 ^ 29" using new(3) assms(4) by simp
  then obtain lh' where r: "lh_run grant ops lh = (fst (map_run (lh_comp lh) ops (\<lambda>_. None)), lh')" "lhash_keys.lh_inv (lh_hash lh) (lh_comp lh) lh'"
    "lhash_keys.refs (lh_comp lh) (mset (concat (lh_b lh'))) (snd (map_run (lh_comp lh) ops (\<lambda>_. None)))" "length (concat (lh_b lh')) \<le> length ops"
    using lhash_keys.run_correct [OF assms(3) new(1,2) assms(1)] new(4) by auto
  then have "card (ran (snd (map_run (lh_comp lh) ops (\<lambda>_. None)))) = length (concat (lh_b lh'))"
    using lhash_keys.refs_card [OF assms(3)] lhash_keys.inv_parts(2) [OF assms(3)] by blast
  moreover have "unat (num_items lh') = length (concat (lh_b lh'))"
    using lhash_keys.inv_parts(3) [OF assms(3) r(2)] r(4) assms(4) by (simp add: unat_of_nat take_bit_eq_mod)
  ultimately show ?thesis using r(1) by (simp add: lh_num_items_def)
qed

text \<open>Two strings in a table that \<open>lh_new\<close> made with its defaults, the second inserted again and the first deleted.\<close>

theorem lhash_refines_map_witness:
  "\<exists>lh lh'. lh_new (\<lambda>_. True) snd None None = Some lh
    \<and> lh_run (\<lambda>_. True) [Insert_op (1 :: nat, [97]), Insert_op (2, [98]), Insert_op (3, [98, 0]), Delete_op (4, [97]), Retrieve_op (5, [98])] lh
      = ([None, None, Some (2, [98]), Some (1, [97]), Some (3, [98, 0])], lh')"
proof -
  obtain lh where lh: "lh_new (\<lambda>_. True) snd None None = (Some lh :: (nat \<times> bytes) LHASH option)" by (simp add: lh_new_def)
  then have k: "lh_hash lh = (\<lambda>x. lh_strhash (snd x))" "lh_comp lh = (\<lambda>x y. strcmp (snd x) (snd y))" by (auto simp: lh_new_def)
  have "lhash_keys (lh_hash lh) (lh_comp lh)" unfolding k by (rule strings.lhash_keys_axioms)
  then show ?thesis
    using lhash_refines_map [of "\<lambda>_. True" snd None None lh
        "[Insert_op (1, [97]), Insert_op (2, [98]), Insert_op (3, [98, 0]), Delete_op (4, [97]), Retrieve_op (5, [98])]"] lh
    by (auto simp: k)
qed

text \<open>The loss of an object, for tables of strings.\<close>

theorem expand_refused_loses_string:
  assumes "strings.lh_inv str lh" "Suc (lh_p lh) = lh_pmax lh" "lh_num_nodes lh < 2 ^ 29" "\<not> grant (4 * lh_pmax lh * 8)"
    and "n \<in> set (lh_b lh ! lh_p lh)" "unat (nd_hash n) mod lh_num_alloc_nodes lh \<noteq> lh_p lh"
  shows "fst (lh_retrieve (expand grant lh) (nd_data n)) = None"
  using assms by (rule strings.expand_refused)

end
