(* ===== verification/Dtls_Replay.thy ===== *)
theory Dtls_Replay
  imports Prelude
begin

text \<open>
  The protection of DTLS records against replay, \<open>ssl/d1_pkt.c\<close>: a bitmap of 64 sequence numbers behind the largest one that was received in an epoch. The
  two bitmaps of a connection are for its epoch and the next one.
\<close>

section \<open>Sequence numbers\<close>

text \<open>The subtraction of the sequence numbers, on a machine that is little-endian. An \<open>int\<close> never overflows here: the differences are of octets, and
  the shifts are arithmetic.\<close>

fun satsub_loop :: "bool \<Rightarrow> bytes \<Rightarrow> bytes \<Rightarrow> nat \<Rightarrow> int \<Rightarrow> int \<Rightarrow> int \<times> int" where
  "satsub_loop neg v1 v2 0 brw sat = (brw, sat)"
| "satsub_loop neg v1 v2 (Suc i) brw sat =
     (let brw = brw + (uint (v1 ! i) - uint (v2 ! i));
          sat = sat OR (if neg then NOT brw else brw)
      in satsub_loop neg v1 v2 i (drop_bit 8 brw) sat)"

definition satsub64be :: "bytes \<Rightarrow> bytes \<Rightarrow> int" where
  "satsub64be v1 v2 =
     (let ret = uint (v1 ! 7) - uint (v2 ! 7);
          (brw, sat) = satsub_loop (ret AND 0x80 \<noteq> 0) v1 v2 7 (drop_bit 8 ret) 0;
          brw = push_bit 8 brw
      in if sat AND 0xff \<noteq> 0 then brw OR 0x80 else brw + (ret AND 0xFF))"

record DTLS1_BITMAP =
  bm_map :: u64
  bm_max_seq_num :: bytes

definition bitmap_zero :: DTLS1_BITMAP where
  "bitmap_zero = \<lparr>bm_map = 0, bm_max_seq_num = replicate 8 0\<rparr>"

definition dtls1_record_replay_check :: "DTLS1_BITMAP \<Rightarrow> bytes \<Rightarrow> bool" where
  "dtls1_record_replay_check bitmap seq =
     (let cmp = satsub64be seq (bm_max_seq_num bitmap)
      in if cmp > 0 then True
         else let shift = nat (- cmp)
              in if shift \<ge> 64 then False
                 else if bm_map bitmap AND push_bit shift 1 \<noteq> 0 then False
                 else True)"

definition dtls1_record_bitmap_update :: "DTLS1_BITMAP \<Rightarrow> bytes \<Rightarrow> DTLS1_BITMAP" where
  "dtls1_record_bitmap_update bitmap seq =
     (let cmp = satsub64be seq (bm_max_seq_num bitmap)
      in if cmp > 0 then
           let shift = nat cmp
           in bitmap\<lparr>bm_map := (if shift < 64 then push_bit shift (bm_map bitmap) OR 1 else 1), bm_max_seq_num := seq\<rparr>
         else
           let shift = nat (- cmp)
           in if shift < 64 then bitmap\<lparr>bm_map := bm_map bitmap OR push_bit shift 1\<rparr> else bitmap)"

section \<open>Epochs\<close>

text \<open>The part of \<open>DTLS1_STATE_INTERNAL\<close> that the epochs need. The comparison with the next epoch is of \<open>unsigned long\<close>: there is none after 65535.\<close>

record dtls_epochs =
  d1_r_epoch :: u16
  d1_w_epoch :: u16
  d1_bitmap :: DTLS1_BITMAP
  d1_next_bitmap :: DTLS1_BITMAP

datatype which_bitmap = Current | Next_epoch

abbreviation (input) SSL3_RT_ALERT :: u8 where "SSL3_RT_ALERT \<equiv> 21"
abbreviation (input) SSL3_RT_HANDSHAKE :: u8 where "SSL3_RT_HANDSHAKE \<equiv> 22"

definition dtls1_get_bitmap :: "dtls_epochs \<Rightarrow> nat \<Rightarrow> u8 \<Rightarrow> which_bitmap option" where
  "dtls1_get_bitmap d1 epoch type =
     (if epoch = unat (d1_r_epoch d1) then Some Current
      else if epoch = unat (d1_r_epoch d1) + 1 \<and> (type = SSL3_RT_HANDSHAKE \<or> type = SSL3_RT_ALERT) then Some Next_epoch
      else None)"

definition SSL3_CC_READ :: nat where
  "SSL3_CC_READ = 1"

definition dtls1_reset_seq_numbers :: "dtls_epochs \<Rightarrow> nat \<Rightarrow> dtls_epochs" where
  "dtls1_reset_seq_numbers d1 rw =
     (if rw AND SSL3_CC_READ \<noteq> 0 then
        d1\<lparr>d1_r_epoch := d1_r_epoch d1 + 1, d1_bitmap := d1_next_bitmap d1, d1_next_bitmap := bitmap_zero\<rparr>
      else d1\<lparr>d1_w_epoch := d1_w_epoch d1 + 1\<rparr>)"

section \<open>The receipt of a record\<close>

text \<open>\<open>dtls1_get_record\<close> from the point where the record is complete. The outcome says how the code goes on: it looks for another record when this one was
  dropped or buffered, returns an error, or returns the record. Whether a handshake is in progress, what \<open>dtls1_buffer_record\<close> returns, and whether \<open>dtls1_process_record\<close> opens
  the record come from outside.\<close>

record SSL3_RECORD_INTERNAL =
  rr_type :: u8
  rr_epoch :: nat
  rr_seq_num :: bytes
  rr_length :: nat
  rr_client_hello :: bool

datatype receipt = Dropped | Buffered | Failed | Delivered

definition mark_receipt :: "which_bitmap \<Rightarrow> bytes \<Rightarrow> dtls_epochs \<Rightarrow> dtls_epochs" where
  "mark_receipt which seq d1 = (case which of
     Current \<Rightarrow> d1\<lparr>d1_bitmap := dtls1_record_bitmap_update (d1_bitmap d1) seq\<rparr>
   | Next_epoch \<Rightarrow> d1\<lparr>d1_next_bitmap := dtls1_record_bitmap_update (d1_next_bitmap d1) seq\<rparr>)"

definition bitmap_of :: "which_bitmap \<Rightarrow> dtls_epochs \<Rightarrow> DTLS1_BITMAP" where
  "bitmap_of which d1 = (case which of Current \<Rightarrow> d1_bitmap d1 | Next_epoch \<Rightarrow> d1_next_bitmap d1)"

definition dtls1_get_record :: "bool \<Rightarrow> bool \<Rightarrow> int \<Rightarrow> bool \<Rightarrow> SSL3_RECORD_INTERNAL \<Rightarrow> dtls_epochs \<Rightarrow> receipt \<times> dtls_epochs" where
  "dtls1_get_record listen in_handshake buffered opens rr d1 =
     (case dtls1_get_bitmap d1 (rr_epoch rr) (rr_type rr) of
        None \<Rightarrow> (Dropped, d1)
      | Some which \<Rightarrow>
          if \<not> (listen \<and> rr_type rr = SSL3_RT_HANDSHAKE \<and> rr_client_hello rr) \<and> \<not> dtls1_record_replay_check (bitmap_of which d1) (rr_seq_num rr) then (Dropped, d1)
          else if rr_length rr = 0 then (Dropped, d1)
          else if which = Next_epoch then
            if in_handshake \<and> \<not> listen then
              if buffered < 0 then (Failed, d1) else (Buffered, mark_receipt which (rr_seq_num rr) d1)
            else (Dropped, d1)
          else if \<not> opens then (Dropped, d1)
          else (Delivered, mark_receipt which (rr_seq_num rr) d1))"

section \<open>The subtraction\<close>

lemma and_255: "x AND 255 = x mod 256" for x :: int
  using take_bit_eq_mask [of 8 x] by (simp add: take_bit_eq_mod mask_eq_exp_minus_1)

lemma or_and_255: "(s OR x) AND 255 = 0 \<longleftrightarrow> s AND 255 = 0 \<and> x AND 255 = 0" for s x :: int
  by (simp add: bit.conj_disj_distrib2 or_eq_0_iff)

lemma not_and_255: "NOT x AND 255 = 0 \<longleftrightarrow> x mod 256 = 255" for x :: int
proof -
  have "- x - 1 = (255 - x mod 256) + (- (x div 256) - 1) * 256" using div_mult_mod_eq [of x 256] by (simp add: algebra_simps)
  then have "(- x - 1) mod 256 = 255 - x mod 256" using pos_mod_bound [of 256 x] pos_mod_sign [of 256 x] by (simp only: mod_mult_self1 mod_pos_pos_trivial)
  then show ?thesis unfolding and_255 not_eq_complement by auto
qed

lemma drop_bit_8: "drop_bit 8 x = x div 256" for x :: int
  by (simp add: drop_bit_eq_div)

text \<open>\<open>lead i v1 v2\<close> is the difference of the numbers that the first \<open>i\<close> octets denote.\<close>

definition lead :: "nat \<Rightarrow> bytes \<Rightarrow> bytes \<Rightarrow> int" where
  "lead i v1 v2 = int (be_val (take i v1)) - int (be_val (take i v2))"

lemma lead_Suc: "i < length v1 \<Longrightarrow> i < length v2 \<Longrightarrow> lead (Suc i) v1 v2 = 256 * lead i v1 v2 + (uint (v1 ! i) - uint (v2 ! i))"
  by (simp add: lead_def take_Suc_conv_app_nth algebra_simps)

lemma mod_digit:
  fixes P :: int
  shows "P mod 256 ^ Suc i = 0 \<longleftrightarrow> P div 256 mod 256 ^ i = 0 \<and> P mod 256 = 0"
    "P mod 256 ^ Suc i = 256 ^ Suc i - 1 \<longleftrightarrow> P div 256 mod 256 ^ i = 256 ^ i - 1 \<and> P mod 256 = 255"
proof -
  have m: "P mod 256 ^ Suc i = 256 * (P div 256 mod 256 ^ i) + P mod 256" by (simp add: zmod_zmult2_eq)
  define q r N where "q = P div 256 mod 256 ^ i" and "r = P mod 256" and "N = (256 :: int) ^ i"
  have "0 \<le> r" "r < 256" "0 \<le> q" "q < N" by (simp_all add: q_def r_def N_def)
  then have "256 * q + r = 0 \<longleftrightarrow> q = 0 \<and> r = 0" "256 * q + r = 256 * N - 1 \<longleftrightarrow> q = N - 1 \<and> r = 255" by linarith+
  then show "P mod 256 ^ Suc i = 0 \<longleftrightarrow> P div 256 mod 256 ^ i = 0 \<and> P mod 256 = 0"
    "P mod 256 ^ Suc i = 256 ^ Suc i - 1 \<longleftrightarrow> P div 256 mod 256 ^ i = 256 ^ i - 1 \<and> P mod 256 = 255"
    unfolding m by (simp_all add: q_def r_def N_def)
qed

lemma satsub_loop_result:
  assumes "i \<le> length v1" "i \<le> length v2"
  shows "fst (satsub_loop neg v1 v2 i brw sat) = (lead i v1 v2 + brw) div 256 ^ i
    \<and> (snd (satsub_loop neg v1 v2 i brw sat) AND 255 = 0 \<longleftrightarrow> sat AND 255 = 0 \<and> (lead i v1 v2 + brw) mod 256 ^ i = (if neg then 256 ^ i - 1 else 0))"
  using assms
proof (induction i arbitrary: brw sat)
  case 0
  then show ?case by (simp add: lead_def)
next
  case (Suc i)
  let ?b = "brw + (uint (v1 ! i) - uint (v2 ! i))" let ?P = "lead (Suc i) v1 v2 + brw" let ?s = "sat OR (if neg then NOT ?b else ?b)"
  have "?P = ?b + lead i v1 v2 * 256" using lead_Suc [of i v1 v2] Suc.prems by simp
  then have d: "?P div 256 = lead i v1 v2 + drop_bit 8 ?b" "?P mod 256 = ?b mod 256" by (simp_all only: drop_bit_8 mod_mult_self1 div_mult_self1)
  have s: "?s AND 255 = 0 \<longleftrightarrow> sat AND 255 = 0 \<and> ?P mod 256 = (if neg then 255 else 0)"
    using d(2) by (simp add: or_and_255 not_and_255) (simp add: and_255)
  have "satsub_loop neg v1 v2 (Suc i) brw sat = satsub_loop neg v1 v2 i (drop_bit 8 ?b) ?s" by (simp add: Let_def)
  moreover have "?P div 256 ^ Suc i = ?P div 256 div 256 ^ i" by (simp add: zdiv_zmult2_eq)
  ultimately show ?case
    using Suc.IH [of "drop_bit 8 ?b" ?s] Suc.prems s mod_digit [of ?P i] unfolding d(1) by (auto simp del: satsub_loop.simps power_Suc)
qed

lemma low_bit: "x AND 0x80 \<noteq> 0 \<longleftrightarrow> 128 \<le> x mod 256" for x :: int
proof -
  have "x AND 0x80 \<noteq> 0 \<longleftrightarrow> bit x 7" using bit_iff_and_push_bit_not_eq_0 [of x 7] by (simp add: push_bit_of_1)
  also have "\<dots> \<longleftrightarrow> odd (x div 128)" by (simp add: bit_iff_odd)
  also have "\<dots> \<longleftrightarrow> 128 \<le> x mod 256"
    using zmod_zmult2_eq [of 2 x 128] pos_mod_bound [of 128 x] pos_mod_sign [of 128 x] by (auto simp: odd_iff_mod_2_eq_one)
  finally show ?thesis .
qed

lemma div_small: "- k < D \<Longrightarrow> D < k \<Longrightarrow> D div k = (if D < 0 then - 1 else 0)" for D k :: int
  using div_mult_self1 [of k "D + k" "- 1"] by (auto simp: div_pos_pos_trivial)

lemma mod_small: "- k \<le> q \<Longrightarrow> q < k \<Longrightarrow> q mod k = (if q < 0 then q + k else q)" for q k :: int
  using mod_pos_pos_trivial [of "q + k" k] by simp

lemma not_mask_8: "NOT (mask 8) = (- 256 :: int)"
  by (simp add: mask_eq_exp_minus_1 not_eq_complement)

lemma saturation:
  fixes D q r K L R :: int
  assumes "D = 256 * q + r" "0 \<le> r" "r < 256" "2 < K" "L = K - 1"
    and "R = (if (if D < 0 then q + K else q) = (if 128 \<le> r then L else 0) then (if D < 0 then - 256 else 0) + r else if D < 0 then - 128 else 128)"
  shows "if \<bar>D\<bar> < 128 then R = D else if D > 0 then R \<ge> 128 else R \<le> - 128"
proof (cases "D < 0")
  case True
  then show ?thesis using assms by (cases "128 \<le> r"; cases "q = - 1"; cases "q = - K") auto
next
  case False
  then show ?thesis using assms by (cases "128 \<le> r"; cases "q = 0"; cases "q = K - 1") auto
qed

lemma satsub64be_result:
  assumes "length v1 = 8" "length v2 = 8"
  defines "D \<equiv> int (be_val v1) - int (be_val v2)"
  shows "if \<bar>D\<bar> < 128 then satsub64be v1 v2 = D else if D > 0 then satsub64be v1 v2 \<ge> 128 else satsub64be v1 v2 \<le> - 128"
proof -
  let ?ret = "uint (v1 ! 7) - uint (v2 ! 7)" let ?neg = "?ret AND 0x80 \<noteq> 0"
  let ?l = "satsub_loop ?neg v1 v2 7 (drop_bit 8 ?ret) 0"
  have D: "D = 256 * lead 7 v1 v2 + ?ret" using lead_Suc [of 7 v1 v2] assms(1,2) by (simp add: D_def lead_def)
  then have d: "lead 7 v1 v2 + drop_bit 8 ?ret = D div 256" "?ret mod 256 = D mod 256" by (simp_all add: drop_bit_8)
  have neg: "?neg \<longleftrightarrow> 128 \<le> D mod 256" using low_bit [of ?ret] d(2) by simp
  have l: "fst ?l = D div 256 div 256 ^ 7" "snd ?l AND 255 = 0 \<longleftrightarrow> D div 256 mod 256 ^ 7 = (if ?neg then 256 ^ 7 - 1 else 0)"
    using satsub_loop_result [of 7 v1 v2 ?neg "drop_bit 8 ?ret" 0] assms(1,2) d(1) by simp_all
  have b: "- (2 ^ 64) < D" "D < 2 ^ 64" using be_val_less [of v1] be_val_less [of v2] assms by simp_all
  have "satsub64be v1 v2 = (if snd ?l AND 255 \<noteq> 0 then push_bit 8 (fst ?l) OR 128 else push_bit 8 (fst ?l) + D mod 256)"
    using and_255 [of ?ret] d(2) by (simp add: satsub64be_def case_prod_beta Let_def)
  moreover have "fst ?l = (if D < 0 then - 1 else 0)" using l(1) div_small [OF b] by (simp add: zdiv_zmult2_eq [symmetric])
  moreover have "snd ?l AND 255 = 0 \<longleftrightarrow> D div 256 mod 72057594037927936 = (if 128 \<le> D mod 256 then 72057594037927935 else 0)"
    using l(2) neg by simp
  ultimately have r: "satsub64be v1 v2 = (if D div 256 mod 72057594037927936 = (if 128 \<le> D mod 256 then 72057594037927935 else 0)
      then (if D < 0 then - 256 else 0) + D mod 256 else if D < 0 then - 128 else 128)"
    using not_mask_8 by simp
  have q: "D div 256 mod 72057594037927936 = (if D < 0 then D div 256 + 72057594037927936 else D div 256)"
    using mod_small [of 72057594037927936 "D div 256"] b pos_imp_zdiv_neg_iff [of 256 D] by simp
  show ?thesis by (rule saturation [OF _ _ _ _ _ r [unfolded q]]) simp_all
qed


text \<open>What the two functions need of it: a comparison, with the distance when it is less than 64.\<close>

lemma satsub64be_cases:
  assumes "length v1 = 8" "length v2 = 8"
  shows "satsub64be v1 v2 > 0 \<longleftrightarrow> be_val v1 > be_val v2"
    "be_val v1 \<le> be_val v2 \<Longrightarrow> nat (- satsub64be v1 v2) < 64 \<longleftrightarrow> be_val v2 - be_val v1 < 64"
    "be_val v1 \<le> be_val v2 \<Longrightarrow> be_val v2 - be_val v1 < 64 \<Longrightarrow> nat (- satsub64be v1 v2) = be_val v2 - be_val v1"
    "be_val v1 > be_val v2 \<Longrightarrow> nat (satsub64be v1 v2) < 64 \<longleftrightarrow> be_val v1 - be_val v2 < 64"
    "be_val v1 > be_val v2 \<Longrightarrow> be_val v1 - be_val v2 < 64 \<Longrightarrow> nat (satsub64be v1 v2) = be_val v1 - be_val v2"
  using satsub64be_result [OF assms] by (auto split: if_splits)

section \<open>The window\<close>

text \<open>The specification of RFC 6347, section 4.1.2.6, for a window of 64: a number is taken when it was not taken before and is less than 64 behind the
  largest one.\<close>

definition window_takes :: "nat list \<Rightarrow> nat \<Rightarrow> bool" where
  "window_takes taken s \<longleftrightarrow> s \<notin> set taken \<and> (\<forall>t \<in> set taken. t < s + 64)"

definition window_inv :: "DTLS1_BITMAP \<Rightarrow> nat list \<Rightarrow> bool" where
  "window_inv bitmap taken \<longleftrightarrow> length (bm_max_seq_num bitmap) = 8 \<and> (\<forall>t \<in> set taken. t \<le> be_val (bm_max_seq_num bitmap))
     \<and> (taken = [] \<longrightarrow> be_val (bm_max_seq_num bitmap) = 0) \<and> (taken \<noteq> [] \<longrightarrow> be_val (bm_max_seq_num bitmap) \<in> set taken)
     \<and> (\<forall>k < 64. k \<le> be_val (bm_max_seq_num bitmap) \<longrightarrow> bit (bm_map bitmap) k = (be_val (bm_max_seq_num bitmap) - k \<in> set taken))"

lemma replay_check_exact:
  assumes "window_inv bitmap taken" "length seq = 8"
  shows "dtls1_record_replay_check bitmap seq \<longleftrightarrow> window_takes taken (be_val seq)"
proof -
  let ?m = "be_val (bm_max_seq_num bitmap)" let ?s = "be_val seq"
  have l: "length (bm_max_seq_num bitmap) = 8" using assms(1) by (simp add: window_inv_def)
  note c = satsub64be_cases [OF assms(2) l]
  show ?thesis
  proof (cases "?s > ?m")
    case True
    then show ?thesis using c(1) assms(1) by (force simp: dtls1_record_replay_check_def window_takes_def window_inv_def)
  next
    case False
    have "?m - (?m - ?s) = ?s" using False by simp
    then have b: "?m - ?s < 64 \<Longrightarrow> bit (bm_map bitmap) (?m - ?s) = (?s \<in> set taken)"
      using assms(1) diff_le_self [of ?m ?s] unfolding window_inv_def by metis
    have "dtls1_record_replay_check bitmap seq \<longleftrightarrow> ?m - ?s < 64 \<and> \<not> bit (bm_map bitmap) (?m - ?s)"
      using False c(1) c(2,3) by (auto simp: dtls1_record_replay_check_def Let_def bit_iff_and_push_bit_not_eq_0)
    moreover have "(\<forall>t \<in> set taken. t < ?s + 64) \<longleftrightarrow> ?m - ?s < 64"
      using assms(1) False by (cases "taken = []") (force simp: window_inv_def)+
    ultimately show ?thesis using b unfolding window_takes_def by blast
  qed
qed

lemma bitmap_update_inv:
  assumes "window_inv bitmap taken" "length seq = 8" "window_takes taken (be_val seq)"
  shows "window_inv (dtls1_record_bitmap_update bitmap seq) (be_val seq # taken)"
proof -
  let ?m = "be_val (bm_max_seq_num bitmap)" let ?s = "be_val seq"
  have l: "length (bm_max_seq_num bitmap) = 8" and t: "\<forall>t \<in> set taken. t \<le> ?m"
    and b: "\<forall>k < 64. k \<le> ?m \<longrightarrow> bit (bm_map bitmap) k = (?m - k \<in> set taken)"
    using assms(1) by (simp_all add: window_inv_def)
  note c = satsub64be_cases [OF assms(2) l]
  show ?thesis
  proof (cases "?s > ?m")
    case True
    have u: "dtls1_record_bitmap_update bitmap seq = bitmap\<lparr>bm_map := (if ?s - ?m < 64 then push_bit (?s - ?m) (bm_map bitmap) OR 1 else 1), bm_max_seq_num := seq\<rparr>"
      using True c(1) c(4,5) by (auto simp: dtls1_record_bitmap_update_def Let_def)
    have "bit (if ?s - ?m < 64 then push_bit (?s - ?m) (bm_map bitmap) OR 1 else 1) k = (?s - k \<in> insert ?s (set taken))" if k: "k < 64" "k \<le> ?s" for k
    proof (cases "k = 0 \<or> k < ?s - ?m")
      case False
      then have "?s - ?m \<le> k" "?m - (k - (?s - ?m)) = ?s - k" "?s - k \<noteq> ?s" using True k by auto
      then show ?thesis using True k b [rule_format, of "k - (?s - ?m)"] by (auto simp: bit_or_iff bit_push_bit_iff bit_1_iff)
    qed (use True t k in \<open>auto simp: bit_or_iff bit_push_bit_iff bit_1_iff\<close>)
    then show ?thesis using assms(2) t True unfolding u window_inv_def by auto
  next
    case False
    have d: "?m - ?s < 64" using assms(1,3) False by (cases "taken = []") (force simp: window_takes_def window_inv_def)+
    then have "dtls1_record_bitmap_update bitmap seq = bitmap\<lparr>bm_map := bm_map bitmap OR push_bit (?m - ?s) 1\<rparr>"
      using False c(1) c(3) by (auto simp: dtls1_record_bitmap_update_def Let_def)
    then show ?thesis using assms(1) False d unfolding window_inv_def by (auto simp: bit_or_iff bit_exp_iff)
  qed
qed

section \<open>Connections\<close>

text \<open>What happens to a connection that does not listen: records arrive, and the keys of the next epoch are taken into use. The receipts that were marked are
  kept as pairs of epoch and sequence number.\<close>

datatype dtls_event = Arrives bool int bool SSL3_RECORD_INTERNAL | Change_cipher

definition epochs_zero :: dtls_epochs where
  "epochs_zero = \<lparr>d1_r_epoch = 0, d1_w_epoch = 0, d1_bitmap = bitmap_zero, d1_next_bitmap = bitmap_zero\<rparr>"

fun receive_run :: "dtls_event list \<Rightarrow> dtls_epochs \<times> (nat \<times> nat) list \<Rightarrow> dtls_epochs \<times> (nat \<times> nat) list" where
  "receive_run [] st = st"
| "receive_run (Arrives in_handshake buffered opens rr # es) (d1, marked) =
     (case dtls1_get_record False in_handshake buffered opens rr d1 of (r, d1) \<Rightarrow>
        receive_run es (d1, if r = Buffered \<or> r = Delivered then (rr_epoch rr, be_val (rr_seq_num rr)) # marked else marked))"
| "receive_run (Change_cipher # es) (d1, marked) = receive_run es (dtls1_reset_seq_numbers d1 SSL3_CC_READ, marked)"

definition numbers_of :: "nat \<Rightarrow> (nat \<times> nat) list \<Rightarrow> nat list" where
  "numbers_of e marked = map snd (filter (\<lambda>m. fst m = e) marked)"

definition epochs_inv :: "dtls_epochs \<Rightarrow> (nat \<times> nat) list \<Rightarrow> bool" where
  "epochs_inv d1 marked \<longleftrightarrow> distinct marked \<and> (\<forall>m \<in> set marked. fst m \<le> unat (d1_r_epoch d1) + 1)
     \<and> window_inv (d1_bitmap d1) (numbers_of (unat (d1_r_epoch d1)) marked) \<and> window_inv (d1_next_bitmap d1) (numbers_of (unat (d1_r_epoch d1) + 1) marked)"

definition events_ok :: "dtls_event list \<Rightarrow> bool" where
  "events_ok es = list_all (\<lambda>e. case e of Arrives _ _ _ rr \<Rightarrow> length (rr_seq_num rr) = 8 | Change_cipher \<Rightarrow> True) es"

lemma numbers_of_Cons: "numbers_of e (m # marked) = (if fst m = e then snd m # numbers_of e marked else numbers_of e marked)"
  by (simp add: numbers_of_def)

lemma numbers_of_mem: "s \<in> set (numbers_of e marked) \<longleftrightarrow> (e, s) \<in> set marked"
  by (force simp: numbers_of_def)

lemma window_inv_zero: "window_inv bitmap_zero []"
  by (simp add: window_inv_def bitmap_zero_def be_val_def eval_simps)

lemma get_bitmap_epoch:
  assumes "dtls1_get_bitmap d1 epoch type = Some which" "epochs_inv d1 marked"
  shows "window_inv (bitmap_of which d1) (numbers_of epoch marked)"
    "epoch = (case which of Current \<Rightarrow> unat (d1_r_epoch d1) | Next_epoch \<Rightarrow> unat (d1_r_epoch d1) + 1)"
  using assms by (auto simp: dtls1_get_bitmap_def epochs_inv_def bitmap_of_def split: if_splits)

lemma get_record_inv:
  assumes "epochs_inv d1 marked" "length (rr_seq_num rr) = 8" "dtls1_get_record False in_handshake buffered opens rr d1 = (r, d1')"
  shows "epochs_inv d1' (if r = Buffered \<or> r = Delivered then (rr_epoch rr, be_val (rr_seq_num rr)) # marked else marked)" "d1_r_epoch d1' = d1_r_epoch d1"
proof -
  have *: "epochs_inv d1' (if r = Buffered \<or> r = Delivered then (rr_epoch rr, be_val (rr_seq_num rr)) # marked else marked) \<and> d1_r_epoch d1' = d1_r_epoch d1"
  proof (cases "r = Buffered \<or> r = Delivered")
    case False
    then have "d1' = d1" using assms(3) by (auto simp: dtls1_get_record_def split: option.splits if_splits)
    then show ?thesis using False assms(1) by simp
  next
    case True
    then obtain which where w: "dtls1_get_bitmap d1 (rr_epoch rr) (rr_type rr) = Some which" "dtls1_record_replay_check (bitmap_of which d1) (rr_seq_num rr)"
      "d1' = mark_receipt which (rr_seq_num rr) d1"
      using assms(3) by (auto simp: dtls1_get_record_def split: option.splits if_splits)
    note g = get_bitmap_epoch [OF w(1) assms(1)]
    have t: "window_takes (numbers_of (rr_epoch rr) marked) (be_val (rr_seq_num rr))" using replay_check_exact [OF g(1) assms(2)] w(2) by simp
    then have "(rr_epoch rr, be_val (rr_seq_num rr)) \<notin> set marked" by (simp add: window_takes_def numbers_of_mem)
    then show ?thesis
      using True assms(1) g(2) bitmap_update_inv [OF g(1) assms(2) t] unfolding w(3)
      by (cases which) (auto simp: epochs_inv_def mark_receipt_def bitmap_of_def numbers_of_Cons)
  qed
  then show "epochs_inv d1' (if r = Buffered \<or> r = Delivered then (rr_epoch rr, be_val (rr_seq_num rr)) # marked else marked)" "d1_r_epoch d1' = d1_r_epoch d1"
    by simp_all
qed

lemma change_cipher_inv:
  assumes "epochs_inv d1 marked" "unat (d1_r_epoch d1) < 65535"
  shows "epochs_inv (dtls1_reset_seq_numbers d1 SSL3_CC_READ) marked" "unat (d1_r_epoch (dtls1_reset_seq_numbers d1 SSL3_CC_READ)) = unat (d1_r_epoch d1) + 1"
proof -
  have u: "unat (d1_r_epoch d1 + 1) = unat (d1_r_epoch d1) + 1" using assms(2) by (simp add: unat_word_ariths)
  then show "unat (d1_r_epoch (dtls1_reset_seq_numbers d1 SSL3_CC_READ)) = unat (d1_r_epoch d1) + 1" by (simp add: dtls1_reset_seq_numbers_def SSL3_CC_READ_def)
  have "filter (\<lambda>m. fst m = unat (d1_r_epoch d1) + 2) marked = []" using assms(1) by (force simp: epochs_inv_def filter_empty_conv)
  then show "epochs_inv (dtls1_reset_seq_numbers d1 SSL3_CC_READ) marked"
    using assms(1) u window_inv_zero by (auto simp: epochs_inv_def dtls1_reset_seq_numbers_def SSL3_CC_READ_def numbers_of_def)
qed

lemma receive_run_inv:
  assumes "epochs_inv d1 marked" "events_ok es" "unat (d1_r_epoch d1) + length (filter (\<lambda>e. e = Change_cipher) es) < 65536" "receive_run es (d1, marked) = (d1', marked')"
  shows "epochs_inv d1' marked'"
  using assms
proof (induction es arbitrary: d1 marked)
  case Nil
  then show ?case by simp
next
  case (Cons e es)
  show ?case
  proof (cases e)
    case (Arrives in_handshake buffered opens rr)
    obtain r d2 where g: "dtls1_get_record False in_handshake buffered opens rr d1 = (r, d2)" by (meson surj_pair)
    then show ?thesis
      using Cons.IH [OF get_record_inv(1) [OF Cons.prems(1) _ g]] get_record_inv(2) [OF Cons.prems(1) _ g] Cons.prems(2-4) Arrives by (simp add: events_ok_def)
  next
    case Change_cipher
    then have "unat (d1_r_epoch d1) < 65535" using Cons.prems(3) by simp
    then show ?thesis
      using Cons.IH [OF change_cipher_inv(1) [OF Cons.prems(1)]] change_cipher_inv(2) [OF Cons.prems(1)] Cons.prems(2-4) Change_cipher by (simp add: events_ok_def)
  qed
qed

section \<open>Property\<close>


definition sample_record :: "nat \<Rightarrow> SSL3_RECORD_INTERNAL" where
  "sample_record n = \<lparr>rr_type = 23, rr_epoch = 0, rr_seq_num = [0, 0, 0, 0, 0, 0, 0, of_nat n], rr_length = 20, rr_client_hello = False\<rparr>"


end
