(* ===== verification/Pqueue.thy ===== *)
theory Pqueue
  imports Prelude
begin

text \<open>
  The priority queue of \<open>ssl/pqueue.c\<close>: a list of items in the order of their priorities, which are 64-bit numbers in network byte order and are compared
  by \<open>memcmp\<close>. A queue is the list of its items; the data of an item is a pointer, and what it points to is modelled as part of the item.
\<close>

record 'd pitem =
  pi_priority :: bytes
  pi_data :: 'd

type_synonym 'd pqueue = "'d pitem list"

fun memcmp :: "bytes \<Rightarrow> bytes \<Rightarrow> int" where
  "memcmp (a # as) (b # bs) = (if a = b then memcmp as bs else uint a - uint b)"
| "memcmp _ _ = 0"

definition pitem_new :: "(nat \<Rightarrow> bool) \<Rightarrow> bytes \<Rightarrow> 'd \<Rightarrow> 'd pitem option" where
  "pitem_new grant prio64be data = (if grant 24 then Some \<lparr>pi_priority = take 8 prio64be, pi_data = data\<rparr> else None)"

definition pqueue_new :: "(nat \<Rightarrow> bool) \<Rightarrow> 'd pqueue option" where
  "pqueue_new grant = (if grant 16 then Some [] else None)"

text \<open>The result is the null pointer for a duplicate, and the queue is left alone.\<close>

fun insert_loop :: "'d pitem \<Rightarrow> 'd pitem list \<Rightarrow> 'd pitem list option" where
  "insert_loop item [] = Some [item]"
| "insert_loop item (nxt # rest) =
     (let cmp = memcmp (pi_priority nxt) (pi_priority item)
      in if cmp > 0 then Some (item # nxt # rest)
         else if cmp = 0 then None
         else map_option (\<lambda>rest. nxt # rest) (insert_loop item rest))"

definition pqueue_insert :: "'d pqueue \<Rightarrow> 'd pitem \<Rightarrow> bool \<times> 'd pqueue" where
  "pqueue_insert pq item =
     (if pq = [] then (True, [item])
      else case insert_loop item pq of None \<Rightarrow> (False, pq) | Some pq \<Rightarrow> (True, pq))"

definition pqueue_peek :: "'d pqueue \<Rightarrow> 'd pitem option" where
  "pqueue_peek pq = (case pq of [] \<Rightarrow> None | item # _ \<Rightarrow> Some item)"

definition pqueue_pop :: "'d pqueue \<Rightarrow> 'd pitem option \<times> 'd pqueue" where
  "pqueue_pop pq = (case pq of [] \<Rightarrow> (None, []) | item # rest \<Rightarrow> (Some item, rest))"

fun pqueue_find :: "'d pqueue \<Rightarrow> bytes \<Rightarrow> 'd pitem option" where
  "pqueue_find [] prio64be = None"
| "pqueue_find (nxt # rest) prio64be = (if memcmp (pi_priority nxt) prio64be = 0 then Some nxt else pqueue_find rest prio64be)"

fun pqueue_size :: "'d pqueue \<Rightarrow> nat" where
  "pqueue_size [] = 0"
| "pqueue_size (item # rest) = pqueue_size rest + 1"

text \<open>A caller that changes what the data of an item points to changes it in the queue.\<close>

definition pqueue_store :: "'d pqueue \<Rightarrow> bytes \<Rightarrow> 'd \<Rightarrow> 'd pqueue" where
  "pqueue_store pq prio64be data = map (\<lambda>item. if memcmp (pi_priority item) prio64be = 0 then item\<lparr>pi_data := data\<rparr> else item) pq"

section \<open>Order\<close>

lemma memcmp_eq: "length as = length bs \<Longrightarrow> memcmp as bs = 0 \<longleftrightarrow> as = bs"
  by (induction as bs rule: memcmp.induct) (auto dest: word_uint_eqI)

lemma leading_octet:
  fixes x y :: u8
  assumes "unat x < unat y" "m < 256 ^ k"
  shows "unat x * 256 ^ k + m < unat y * 256 ^ k + n"
proof -
  have "unat x * 256 ^ k + m < (unat x + 1) * 256 ^ k" using assms(2) by simp
  also have "\<dots> \<le> unat y * 256 ^ k" using assms(1) by (intro mult_right_mono) simp_all
  finally show ?thesis by simp
qed

lemma memcmp_less: "length as = length bs \<Longrightarrow> memcmp as bs > 0 \<longleftrightarrow> be_val as > be_val bs"
proof (induction as bs rule: memcmp.induct)
  case (1 a as b bs)
  show ?case
  proof (cases "a = b")
    case True
    then show ?thesis using 1 by (simp add: be_val_Cons)
  next
    case False
    then consider "unat a < unat b" | "unat b < unat a" by (metis linorder_neqE_nat word_unat_eq_iff)
    moreover have "uint a - uint b > 0 \<longleftrightarrow> unat b < unat a" using word_less_def [of b a] word_less_nat_alt [of b a] by simp
    ultimately show ?thesis
      using False 1(2) leading_octet [of a b "be_val as" "length bs" "be_val bs"] leading_octet [of b a "be_val bs" "length bs" "be_val as"]
        be_val_less [of as] be_val_less [of bs]
      by cases (simp_all add: be_val_Cons)
  qed
qed simp_all

text \<open>The invariant of a queue, and the map from priorities to data that it represents.\<close>

definition pq_inv :: "'d pqueue \<Rightarrow> bool" where
  "pq_inv pq \<longleftrightarrow> sorted_wrt (\<lambda>a b. be_val (pi_priority a) < be_val (pi_priority b)) pq \<and> (\<forall>item \<in> set pq. length (pi_priority item) = 8)"

definition pq_map :: "'d pqueue \<Rightarrow> bytes \<Rightarrow> 'd option" where
  "pq_map pq prio = map_option pi_data (pqueue_find pq prio)"

lemma pq_inv_Cons: "pq_inv (item # pq) \<longleftrightarrow> pq_inv pq \<and> length (pi_priority item) = 8 \<and> (\<forall>i \<in> set pq. be_val (pi_priority item) < be_val (pi_priority i))"
  by (auto simp: pq_inv_def)

lemma insert_loop_None:
  assumes "pq_inv pq" "length (pi_priority item) = 8"
  shows "insert_loop item pq = None \<longleftrightarrow> (\<exists>i \<in> set pq. pi_priority i = pi_priority item)"
  using assms
proof (induction pq)
  case (Cons nxt rest)
  have l: "length (pi_priority nxt) = length (pi_priority item)" using Cons.prems by (simp add: pq_inv_Cons)
  have "\<forall>i \<in> set rest. pi_priority i \<noteq> pi_priority item" if "be_val (pi_priority nxt) > be_val (pi_priority item)"
    using that Cons.prems(1) by (force simp: pq_inv_Cons)
  then show ?case using Cons memcmp_less [OF l] memcmp_eq [OF l] by (auto simp: Let_def pq_inv_Cons)
qed simp

lemma insert_loop_Some:
  assumes "pq_inv pq" "length (pi_priority item) = 8" "insert_loop item pq = Some pq'"
  shows "pq_inv pq' \<and> set pq' = insert item (set pq)"
  using assms
proof (induction pq arbitrary: pq')
  case (Cons nxt rest)
  have l: "length (pi_priority nxt) = length (pi_priority item)" using Cons.prems by (simp add: pq_inv_Cons)
  consider "memcmp (pi_priority nxt) (pi_priority item) > 0" | "memcmp (pi_priority nxt) (pi_priority item) < 0"
    using Cons.prems(3) by (fastforce simp: Let_def split: if_splits)
  then show ?case
  proof cases
    case 1
    then show ?thesis using Cons.prems memcmp_less [OF l] by (force simp: Let_def pq_inv_Cons)
  next
    case 2
    then obtain r where r: "insert_loop item rest = Some r" "pq' = nxt # r" using Cons.prems(3) by (auto simp: Let_def)
    have "pi_priority nxt \<noteq> pi_priority item" using 2 memcmp_eq [OF l] by auto
    then have "be_val (pi_priority nxt) < be_val (pi_priority item)"
      using 2 memcmp_less [OF l] be_val_inj [OF l] by (metis linorder_neqE_nat order_less_asym)
    then show ?thesis using Cons.IH [OF _ _ r(1)] Cons.prems r(2) by (auto simp: pq_inv_Cons)
  qed
qed (auto simp: pq_inv_def)

lemma pq_map_Some:
  assumes "pq_inv pq" "length p = 8"
  shows "pq_map pq p = Some d \<longleftrightarrow> (\<exists>i \<in> set pq. pi_priority i = p \<and> pi_data i = d)"
  using assms
proof (induction pq)
  case (Cons i pq)
  have "\<forall>j \<in> set pq. pi_priority j \<noteq> pi_priority i" using Cons.prems(1) by (auto simp: pq_inv_Cons)
  then show ?case using Cons memcmp_eq [of "pi_priority i" p] by (auto simp: pq_map_def pq_inv_Cons)
qed (simp add: pq_map_def)

lemma pq_map_None: "pq_inv pq \<Longrightarrow> length p = 8 \<Longrightarrow> pq_map pq p = None \<longleftrightarrow> (\<forall>i \<in> set pq. pi_priority i \<noteq> p)"
  using pq_map_Some [of pq p] by (metis not_Some_eq)

text \<open>An insertion adds a new priority to the map and refuses a duplicate; the data of the least priority is popped first.\<close>

lemma pqueue_insert_new:
  assumes "pq_inv pq" "length (pi_priority item) = 8" "pq_map pq (pi_priority item) = None"
  shows "\<exists>pq'. pqueue_insert pq item = (True, pq') \<and> pq_inv pq' \<and> set pq' = insert item (set pq)"
proof -
  have "insert_loop item pq \<noteq> None" using insert_loop_None [OF assms(1,2)] pq_map_None [OF assms(1,2)] assms(3) by blast
  then obtain pq' where "insert_loop item pq = Some pq'" by blast
  then show ?thesis using insert_loop_Some [OF assms(1,2)] by (cases "pq = []") (auto simp: pqueue_insert_def pq_inv_def)
qed

lemma pqueue_insert_duplicate:
  assumes "pq_inv pq" "length (pi_priority item) = 8" "pq_map pq (pi_priority item) \<noteq> None"
  shows "pqueue_insert pq item = (False, pq)"
  using insert_loop_None [OF assms(1,2)] pq_map_None [OF assms(1,2)] assms(3) by (auto simp: pqueue_insert_def)

lemma pqueue_insert_map:
  assumes "pq_inv pq" "length (pi_priority item) = 8" "pq_map pq (pi_priority item) = None" "length p = 8"
  shows "pq_map (snd (pqueue_insert pq item)) p = (if p = pi_priority item then Some (pi_data item) else pq_map pq p)"
proof -
  obtain pq' where i: "pqueue_insert pq item = (True, pq')" "pq_inv pq'" "set pq' = insert item (set pq)" using pqueue_insert_new [OF assms(1-3)] by blast
  have "pq_map pq' p = Some d \<longleftrightarrow> (if p = pi_priority item then Some (pi_data item) else pq_map pq p) = Some d" for d
    using pq_map_Some [OF i(2) assms(4)] pq_map_Some [OF assms(1,4)] i(3) pq_map_None [OF assms(1,2)] assms(3) by auto
  then show ?thesis using i(1) by (metis option.exhaust snd_conv)
qed

lemma pqueue_store_inv: "pq_inv (pqueue_store pq p d) = pq_inv pq"
proof -
  have "map pi_priority (pqueue_store pq p d) = map pi_priority pq" by (simp add: pqueue_store_def)
  moreover have "pq_inv q \<longleftrightarrow> sorted_wrt (\<lambda>a b. be_val a < be_val b) (map pi_priority q) \<and> list_all (\<lambda>p. length p = 8) (map pi_priority q)" for q :: "'a pqueue"
    by (simp add: pq_inv_def sorted_wrt_map list_all_iff)
  ultimately show ?thesis by metis
qed

lemma pqueue_store_map:
  assumes "pq_inv pq" "length p = 8" "length q = 8"
  shows "pq_map (pqueue_store pq p d) q = (if q = p \<and> pq_map pq p \<noteq> None then Some d else pq_map pq q)"
  using assms(1)
proof (induction pq)
  case (Cons i pq)
  then show ?case
    using memcmp_eq [of "pi_priority i" p] memcmp_eq [of "pi_priority i" q] assms(2,3) by (auto simp: pq_map_def pqueue_store_def pq_inv_Cons)
qed (simp add: pq_map_def pqueue_store_def)

lemma pqueue_pop_least:
  assumes "pq_inv pq" "pqueue_pop pq = (Some item, pq')"
  shows "pq_inv pq' \<and> set pq = insert item (set pq') \<and> (\<forall>i \<in> set pq'. be_val (pi_priority item) < be_val (pi_priority i))"
  using assms by (auto simp: pqueue_pop_def pq_inv_Cons split: list.splits)

lemma pqueue_size_length: "pqueue_size pq = length pq"
  by (induction pq) simp_all

end
