(* ===== verification/Dtls_Fragments.thy ===== *)
theory Dtls_Fragments
  imports Pqueue Bytestring_CBS
begin

text \<open>
  The receipt of DTLS handshake messages, \<open>ssl/d1_both.c\<close>: fragments are put together in the queue of buffered messages, in any order, and messages that arrive
  too early are kept there until it is their turn.

  \<open>ssl_read_bytes\<close> of the method table, the sending of alerts and the application's message callback are a record of functions on the rest of the
  connection. The lengths and offsets in a header have 24 bits, so that sums of them do not wrap around.
\<close>

section \<open>Data\<close>

record hm_header_st =
  hdr_type :: u8
  hdr_msg_len :: nat
  hdr_seq :: u16
  hdr_frag_off :: nat
  hdr_frag_len :: nat

record hm_fragment =
  fr_msg_header :: hm_header_st
  fr_fragment :: bytes
  fr_reassembly :: "bytes option"

definition hm_header_zero :: hm_header_st where
  "hm_header_zero = \<lparr>hdr_type = 0, hdr_msg_len = 0, hdr_seq = 0, hdr_frag_off = 0, hdr_frag_len = 0\<rparr>"

text \<open>The growing buffer of \<open>crypto/buffer/buffer.c\<close>: \<open>mem_data\<close> is the memory it has, of the size \<open>max\<close>, and \<open>mem_length\<close> what is in use.\<close>

record BUF_MEM =
  mem_length :: nat
  mem_data :: bytes

record 'w dtls_host =
  ssl_read_bytes :: "'w \<Rightarrow> nat \<Rightarrow> int \<times> bytes \<times> 'w"
  ssl3_send_alert :: "u8 \<Rightarrow> 'w \<Rightarrow> 'w"
  msg_callback :: "bytes \<Rightarrow> 'w \<Rightarrow> 'w"

record dtls_handshake =
  d1_buffered_messages :: "hm_fragment pqueue"
  d1_handshake_read_seq :: u16
  d1_r_msg_hdr :: hm_header_st
  d1_listen :: bool
  ssl_server :: bool
  ssl_init_buf :: BUF_MEM
  ssl_init_num :: nat
  ssl_max_cert_list :: nat
  s3_message_size :: nat
  s3_message_type :: u8
  s3_state :: int
  ssl_reading :: bool

definition DTLS1_HM_HEADER_LENGTH :: nat where
  "DTLS1_HM_HEADER_LENGTH = 12"

definition DTLS1_HM_FRAGMENT_RETRY :: int where
  "DTLS1_HM_FRAGMENT_RETRY = - 3"

definition SSL3_RT_MAX_ENCRYPTED_LENGTH :: nat where
  "SSL3_RT_MAX_ENCRYPTED_LENGTH = (256 + 64) + 16384"

abbreviation (input) SSL_AD_UNEXPECTED_MESSAGE :: u8 where "SSL_AD_UNEXPECTED_MESSAGE \<equiv> 10"
abbreviation (input) SSL_AD_ILLEGAL_PARAMETER :: u8 where "SSL_AD_ILLEGAL_PARAMETER \<equiv> 47"
abbreviation (input) SSL_AD_INTERNAL_ERROR :: u8 where "SSL_AD_INTERNAL_ERROR \<equiv> 80"
abbreviation (input) SSL3_MT_HELLO_REQUEST :: u8 where "SSL3_MT_HELLO_REQUEST \<equiv> 0"
abbreviation (input) SSL3_MT_FINISHED :: u8 where "SSL3_MT_FINISHED \<equiv> 20"

section \<open>Buffers\<close>

text \<open>Octets are written to a place in a buffer.\<close>

definition overlay :: "bytes \<Rightarrow> nat \<Rightarrow> bytes \<Rightarrow> bytes" where
  "overlay buf off bs = take off buf @ bs @ drop (off + length bs) buf"

definition LIMIT_BEFORE_EXPANSION :: nat where
  "LIMIT_BEFORE_EXPANSION = 0x5ffffffc"

definition BUF_MEM_grow_clean :: "(nat \<Rightarrow> bool) \<Rightarrow> BUF_MEM \<Rightarrow> nat \<Rightarrow> bool \<times> BUF_MEM" where
  "BUF_MEM_grow_clean grant str len =
     (if length (mem_data str) \<ge> len then
        (True, str\<lparr>mem_data := (if mem_length str \<ge> len then overlay (mem_data str) len (replicate (mem_length str - len) 0) else mem_data str), mem_length := len\<rparr>)
      else if len > LIMIT_BEFORE_EXPANSION then (False, str)
      else
        let n = (len + 3) div 3 * 4
        in if \<not> grant n then (False, str)
           else (True, str\<lparr>mem_data := mem_data str @ replicate (n - length (mem_data str)) 0, mem_length := len\<rparr>))"

section \<open>The bitmask of received octets\<close>

definition bitmask_start_values :: bytes where
  "bitmask_start_values = [0xff, 0xfe, 0xfc, 0xf8, 0xf0, 0xe0, 0xc0, 0x80]"

definition bitmask_end_values :: bytes where
  "bitmask_end_values = [0xff, 0x01, 0x03, 0x07, 0x0f, 0x1f, 0x3f, 0x7f]"

definition RSMBLY_BITMASK_SIZE :: "nat \<Rightarrow> nat" where
  "RSMBLY_BITMASK_SIZE msg_len = (msg_len + 7) div 8"

definition RSMBLY_BITMASK_MARK :: "bytes \<Rightarrow> nat \<Rightarrow> nat \<Rightarrow> bytes" where
  "RSMBLY_BITMASK_MARK bitmask start end =
     (if end - start \<le> 8 then
        foldl (\<lambda>b ii. b[ii div 8 := b ! (ii div 8) OR push_bit (ii mod 8) 1]) bitmask [start..<end]
      else
        let b = bitmask[start div 8 := bitmask ! (start div 8) OR bitmask_start_values ! (start mod 8)];
            b = foldl (\<lambda>b ii. b[ii := 0xff]) b [start div 8 + 1..<(end - 1) div 8]
        in b[(end - 1) div 8 := b ! ((end - 1) div 8) OR bitmask_end_values ! (end mod 8)])"

definition RSMBLY_BITMASK_IS_COMPLETE :: "bytes \<Rightarrow> nat \<Rightarrow> bool" where
  "RSMBLY_BITMASK_IS_COMPLETE bitmask msg_len =
     (bitmask ! ((msg_len - 1) div 8) = bitmask_end_values ! (msg_len mod 8) \<and> list_all (\<lambda>ii. bitmask ! ii = 0xff) (rev [0..<(msg_len - 1) div 8]))"

section \<open>Fragments\<close>

definition dtls1_hm_fragment_new :: "(nat \<Rightarrow> bool) \<Rightarrow> nat \<Rightarrow> bool \<Rightarrow> hm_fragment option" where
  "dtls1_hm_fragment_new grant frag_len reassembly =
     (if \<not> grant 96 then None
      else if frag_len > 0 \<and> \<not> grant frag_len then None
      else if reassembly \<and> \<not> grant (RSMBLY_BITMASK_SIZE frag_len) then None
      else Some \<lparr>fr_msg_header = hm_header_zero, fr_fragment = replicate frag_len 0,
                 fr_reassembly = (if reassembly then Some (replicate (RSMBLY_BITMASK_SIZE frag_len) 0) else None)\<rparr>)"

definition dtls1_get_message_header :: "bytes \<Rightarrow> hm_header_st option" where
  "dtls1_get_message_header data =
     (case CBS_get_u8 (CBS_init data) of (None, _) \<Rightarrow> None | (Some type, header) \<Rightarrow>
      case CBS_get_u24 header of (None, _) \<Rightarrow> None | (Some msg_len, header) \<Rightarrow>
      case CBS_get_u16 header of (None, _) \<Rightarrow> None | (Some seq, header) \<Rightarrow>
      case CBS_get_u24 header of (None, _) \<Rightarrow> None | (Some frag_off, header) \<Rightarrow>
      case CBS_get_u24 header of (None, _) \<Rightarrow> None | (Some frag_len, header) \<Rightarrow>
        Some \<lparr>hdr_type = type, hdr_msg_len = unat msg_len, hdr_seq = seq, hdr_frag_off = unat frag_off, hdr_frag_len = unat frag_len\<rparr>)"

definition dtls1_max_handshake_message_len :: "dtls_handshake \<Rightarrow> nat" where
  "dtls1_max_handshake_message_len s =
     (let max_len = DTLS1_HM_HEADER_LENGTH + SSL3_RT_MAX_ENCRYPTED_LENGTH
      in if max_len < ssl_max_cert_list s then ssl_max_cert_list s else max_len)"

definition seq64be :: "u16 \<Rightarrow> bytes" where
  "seq64be seq = [0, 0, 0, 0, 0, 0, ucast (drop_bit 8 seq), ucast seq]"

text \<open>A body that nobody wants is read into a scratch buffer of 256 octets.\<close>

function devnull_loop :: "'w dtls_host \<Rightarrow> nat \<Rightarrow> 'w \<Rightarrow> int option \<times> 'w" where
  "devnull_loop h frag_len w =
     (if frag_len = 0 then (None, w)
      else case ssl_read_bytes h w (min frag_len 256) of (i, bs, w') \<Rightarrow>
        if i \<le> 0 then (Some i, w') else devnull_loop h (frag_len - nat i) w')"
  by pat_completeness auto

termination
  by (relation "measure (\<lambda>(h, n, w). n)") auto

declare devnull_loop.simps [simp del]

definition fragment_for :: "(nat \<Rightarrow> bool) \<Rightarrow> hm_header_st \<Rightarrow> hm_fragment pitem option \<Rightarrow> hm_fragment option" where
  "fragment_for grant msg_hdr item =
     (case item of
        None \<Rightarrow> map_option (\<lambda>frag. frag\<lparr>fr_msg_header := msg_hdr\<lparr>hdr_frag_len := hdr_msg_len msg_hdr, hdr_frag_off := 0\<rparr>\<rparr>)
                  (dtls1_hm_fragment_new grant (hdr_msg_len msg_hdr) True)
      | Some item \<Rightarrow> if hdr_msg_len (fr_msg_header (pi_data item)) \<noteq> hdr_msg_len msg_hdr then None else Some (pi_data item))"

definition dtls1_reassemble_fragment ::
    "(nat \<Rightarrow> bool) \<Rightarrow> 'w dtls_host \<Rightarrow> hm_header_st \<Rightarrow> dtls_handshake \<times> 'w \<Rightarrow> int \<times> dtls_handshake \<times> 'w" where
  "dtls1_reassemble_fragment grant h msg_hdr st =
     (case st of (s, w) \<Rightarrow>
      let frag_len = hdr_frag_len msg_hdr; prio = seq64be (hdr_seq msg_hdr); q = d1_buffered_messages s
      in if hdr_frag_off msg_hdr + frag_len > hdr_msg_len msg_hdr \<or> hdr_msg_len msg_hdr > dtls1_max_handshake_message_len s then (- 1, s, w)
         else if frag_len = 0 then (DTLS1_HM_FRAGMENT_RETRY, s, w)
         else let item = pqueue_find q prio
         in case fragment_for grant msg_hdr item of
              None \<Rightarrow> (- 1, s, w)
            | Some frag \<Rightarrow>
                (case fr_reassembly frag of
                   None \<Rightarrow> (case devnull_loop h frag_len w of (Some i, w) \<Rightarrow> (i, s, w) | (None, w) \<Rightarrow> (DTLS1_HM_FRAGMENT_RETRY, s, w))
                 | Some bitmask \<Rightarrow>
                     (case ssl_read_bytes h w frag_len of (i, bs, w) \<Rightarrow>
                      let frag = frag\<lparr>fr_fragment := overlay (fr_fragment frag) (hdr_frag_off msg_hdr) (take (nat i) bs)\<rparr>
                      in if i \<le> 0 \<or> nat i \<noteq> frag_len then
                           (i, if item = None then s else s\<lparr>d1_buffered_messages := pqueue_store q prio frag\<rparr>, w)
                         else
                           let bitmask = RSMBLY_BITMASK_MARK bitmask (hdr_frag_off msg_hdr) (hdr_frag_off msg_hdr + frag_len);
                               frag = frag\<lparr>fr_reassembly := (if RSMBLY_BITMASK_IS_COMPLETE bitmask (hdr_msg_len msg_hdr) then None else Some bitmask)\<rparr>
                           in if item = None then
                                (case pitem_new grant prio frag of
                                   None \<Rightarrow> (- 1, s, w)
                                 | Some item \<Rightarrow> (DTLS1_HM_FRAGMENT_RETRY, s\<lparr>d1_buffered_messages := snd (pqueue_insert q item)\<rparr>, w))
                              else (DTLS1_HM_FRAGMENT_RETRY, s\<lparr>d1_buffered_messages := pqueue_store q prio frag\<rparr>, w))))"

definition dtls1_process_out_of_seq_message ::
    "(nat \<Rightarrow> bool) \<Rightarrow> 'w dtls_host \<Rightarrow> hm_header_st \<Rightarrow> dtls_handshake \<times> 'w \<Rightarrow> int \<times> dtls_handshake \<times> 'w" where
  "dtls1_process_out_of_seq_message grant h msg_hdr st =
     (case st of (s, w) \<Rightarrow>
      let frag_len = hdr_frag_len msg_hdr; prio = seq64be (hdr_seq msg_hdr); q = d1_buffered_messages s
      in if hdr_frag_off msg_hdr + frag_len > hdr_msg_len msg_hdr then (- 1, s, w)
         else let item = pqueue_find q prio;
                  item = (if item \<noteq> None \<and> frag_len < hdr_msg_len msg_hdr then None else item)
         in if unat (hdr_seq msg_hdr) \<le> unat (d1_handshake_read_seq s) \<or> unat (hdr_seq msg_hdr) > unat (d1_handshake_read_seq s) + 10 \<or> item \<noteq> None
               \<or> d1_handshake_read_seq s = 0 \<and> hdr_type msg_hdr = SSL3_MT_FINISHED then
              (case devnull_loop h frag_len w of (Some i, w) \<Rightarrow> (i, s, w) | (None, w) \<Rightarrow> (DTLS1_HM_FRAGMENT_RETRY, s, w))
            else if frag_len < hdr_msg_len msg_hdr then dtls1_reassemble_fragment grant h msg_hdr (s, w)
            else if frag_len > dtls1_max_handshake_message_len s then (- 1, s, w)
            else case dtls1_hm_fragment_new grant frag_len False of
                   None \<Rightarrow> (- 1, s, w)
                 | Some frag \<Rightarrow>
                     (case (if frag_len > 0 then ssl_read_bytes h w frag_len else (0, [], w)) of (i, bs, w) \<Rightarrow>
                      let frag = frag\<lparr>fr_msg_header := msg_hdr, fr_fragment := overlay (fr_fragment frag) 0 (take (nat i) bs)\<rparr>
                      in if frag_len > 0 \<and> (i \<le> 0 \<or> nat i \<noteq> frag_len) then (i, s, w)
                         else case pitem_new grant prio frag of
                                None \<Rightarrow> (if frag_len > 0 then i else - 1, s, w)
                              | Some item \<Rightarrow> (DTLS1_HM_FRAGMENT_RETRY, s\<lparr>d1_buffered_messages := snd (pqueue_insert q item)\<rparr>, w)))"

section \<open>Messages\<close>

definition dtls1_preprocess_fragment :: "(nat \<Rightarrow> bool) \<Rightarrow> hm_header_st \<Rightarrow> nat \<Rightarrow> dtls_handshake \<Rightarrow> u8 \<times> dtls_handshake" where
  "dtls1_preprocess_fragment grant msg_hdr max_size s =
     (let msg_len = hdr_msg_len msg_hdr; frag_off = hdr_frag_off msg_hdr; frag_len = hdr_frag_len msg_hdr
      in if frag_off + frag_len > msg_len then (SSL_AD_ILLEGAL_PARAMETER, s)
         else if frag_off + frag_len > max_size then (SSL_AD_ILLEGAL_PARAMETER, s)
         else if hdr_frag_off (d1_r_msg_hdr s) = 0 then
           (case BUF_MEM_grow_clean grant (ssl_init_buf s) (msg_len + DTLS1_HM_HEADER_LENGTH) of
              (False, buf) \<Rightarrow> (SSL_AD_INTERNAL_ERROR, s)
            | (True, buf) \<Rightarrow> (0, s\<lparr>ssl_init_buf := buf, s3_message_size := msg_len, s3_message_type := hdr_type msg_hdr,
                d1_r_msg_hdr := (d1_r_msg_hdr s)\<lparr>hdr_msg_len := msg_len, hdr_type := hdr_type msg_hdr, hdr_seq := hdr_seq msg_hdr\<rparr>\<rparr>))
         else if msg_len \<noteq> hdr_msg_len (d1_r_msg_hdr s) then (SSL_AD_ILLEGAL_PARAMETER, s)
         else (0, s))"

text \<open>The result is the returned length and \<open>*ok\<close>.\<close>

definition dtls1_retrieve_buffered_fragment ::
    "(nat \<Rightarrow> bool) \<Rightarrow> 'w dtls_host \<Rightarrow> nat \<Rightarrow> dtls_handshake \<times> 'w \<Rightarrow> (int \<times> bool) \<times> dtls_handshake \<times> 'w" where
  "dtls1_retrieve_buffered_fragment grant h max_size st =
     (case st of (s, w) \<Rightarrow>
      case pqueue_peek (d1_buffered_messages s) of
        None \<Rightarrow> ((0, False), s, w)
      | Some item \<Rightarrow>
          let frag = pi_data item
          in if fr_reassembly frag \<noteq> None then ((0, False), s, w)
             else if d1_handshake_read_seq s = hdr_seq (fr_msg_header frag) then
               let frag_len = hdr_frag_len (fr_msg_header frag);
                   s = s\<lparr>d1_buffered_messages := snd (pqueue_pop (d1_buffered_messages s))\<rparr>
               in case dtls1_preprocess_fragment grant (fr_msg_header frag) max_size s of (al, s) \<Rightarrow>
                    if al = 0 then
                      ((int frag_len, True), s\<lparr>ssl_init_buf := (ssl_init_buf s)\<lparr>mem_data := overlay (mem_data (ssl_init_buf s)) (DTLS1_HM_HEADER_LENGTH + hdr_frag_off (fr_msg_header frag))
                         (take frag_len (fr_fragment frag))\<rparr>\<rparr>, w)
                    else ((- 1, False), s\<lparr>ssl_init_num := 0\<rparr>, ssl3_send_alert h al w)
             else ((0, False), s, w))"

definition fragment_fatal :: "'w dtls_host \<Rightarrow> u8 \<Rightarrow> dtls_handshake \<times> 'w \<Rightarrow> (int \<times> bool) \<times> dtls_handshake \<times> 'w" where
  "fragment_fatal h al st = (case st of (s, w) \<Rightarrow> ((- 1, False), s\<lparr>ssl_init_num := 0\<rparr>, ssl3_send_alert h al w))"

text \<open>The part of \<open>dtls1_get_message_fragment\<close> for the fragment that is expected: it holds a whole message, or nothing.\<close>

definition whole_message ::
    "(nat \<Rightarrow> bool) \<Rightarrow> 'w dtls_host \<Rightarrow> int \<Rightarrow> nat \<Rightarrow> hm_header_st \<Rightarrow> dtls_handshake \<times> 'w \<Rightarrow> (int \<times> bool) \<times> dtls_handshake \<times> 'w" where
  "whole_message grant h stn max_size msg_hdr st =
     (case st of (s, w) \<Rightarrow>
      case dtls1_preprocess_fragment grant msg_hdr max_size s of (al, s) \<Rightarrow>
        if al \<noteq> 0 then fragment_fatal h al (s, w)
        else
          let s = s\<lparr>s3_state := stn\<rparr>; frag_len = hdr_frag_len msg_hdr
          in case (if frag_len > 0 then ssl_read_bytes h w frag_len else (0, [], w)) of (i, bs, w) \<Rightarrow>
               let s = s\<lparr>ssl_init_buf := (ssl_init_buf s)\<lparr>mem_data := overlay (mem_data (ssl_init_buf s)) (DTLS1_HM_HEADER_LENGTH + hdr_frag_off msg_hdr) (take (nat i) bs)\<rparr>\<rparr>
               in if frag_len > 0 \<and> i \<le> 0 then ((i, False), s\<lparr>ssl_reading := True\<rparr>, w)
                  else if i \<noteq> int frag_len then fragment_fatal h SSL_AD_ILLEGAL_PARAMETER (s, w)
                  else ((int frag_len, True), s\<lparr>ssl_init_num := frag_len\<rparr>, w))"

partial_function (option) dtls1_get_message_fragment ::
    "(nat \<Rightarrow> bool) \<Rightarrow> 'w dtls_host \<Rightarrow> int \<Rightarrow> nat \<Rightarrow> dtls_handshake \<times> 'w \<Rightarrow> ((int \<times> bool) \<times> dtls_handshake \<times> 'w) option" where
  "dtls1_get_message_fragment grant h stn max_size st =
     (case dtls1_retrieve_buffered_fragment grant h max_size st of ((frag_len, ok), s, w) \<Rightarrow>
        if frag_len \<noteq> 0 \<or> ok then Some ((frag_len, ok), if ok then s\<lparr>ssl_init_num := nat frag_len\<rparr> else s, w)
        else case ssl_read_bytes h w DTLS1_HM_HEADER_LENGTH of (i, wire, w) \<Rightarrow>
          if i \<le> 0 then Some ((i, False), s\<lparr>ssl_reading := True\<rparr>, w)
          else case (if i = int DTLS1_HM_HEADER_LENGTH then dtls1_get_message_header wire else None) of
            None \<Rightarrow> Some (fragment_fatal h SSL_AD_UNEXPECTED_MESSAGE (s, w))
          | Some msg_hdr \<Rightarrow>
              if hdr_seq msg_hdr \<noteq> d1_handshake_read_seq s \<and> \<not> (d1_listen s \<and> hdr_seq msg_hdr = 1) then
                Some (case dtls1_process_out_of_seq_message grant h msg_hdr (s, w) of (i, st) \<Rightarrow> ((i, False), st))
              else if hdr_frag_len msg_hdr \<noteq> 0 \<and> hdr_frag_len msg_hdr < hdr_msg_len msg_hdr then
                Some (case dtls1_reassemble_fragment grant h msg_hdr (s, w) of (i, st) \<Rightarrow> ((i, False), st))
              else if \<not> ssl_server s \<and> hdr_frag_off (d1_r_msg_hdr s) = 0 \<and> wire ! 0 = SSL3_MT_HELLO_REQUEST then
                if wire ! 1 = 0 \<and> wire ! 2 = 0 \<and> wire ! 3 = 0 then
                  dtls1_get_message_fragment grant h stn max_size (s\<lparr>ssl_init_num := 0\<rparr>, msg_callback h wire w)
                else Some (fragment_fatal h SSL_AD_UNEXPECTED_MESSAGE (s, w))
              else Some (whole_message grant h stn max_size msg_hdr (s, w)))"

end
