(* ===== verification/Dtls_Reassembly.thy ===== *)
theory Dtls_Reassembly
  imports Dtls_Fragments
begin

text \<open>
  The reassembly of handshake messages is correct: the bitmask stands for the set of octets that have arrived, and a message is handed over when all of them have. What the
  reading of records promises is the locale \<open>fragment_source\<close>.
\<close>

section \<open>The bitmask is a set of offsets\<close>

definition marked :: "bytes \<Rightarrow> nat \<Rightarrow> bool" where
  "marked b i \<longleftrightarrow> bit (b ! (i div 8)) (i mod 8)"

lemma bit_255: "bit (255 :: u8) k \<longleftrightarrow> k < 8"
proof -
  have "(255 :: u8) = - 1" by simp
  then show ?thesis by (simp only: bit_minus_1_iff possible_bit_word) simp
qed

lemma octet_eqI: "(\<And>k. k < 8 \<Longrightarrow> bit a k = bit b k) \<Longrightarrow> a = b" for a b :: u8
  by (rule bit_word_eqI) simp

lemma start_values: "a < 8 \<Longrightarrow> k < 8 \<Longrightarrow> bit (bitmask_start_values ! a) k = (a \<le> k)"
proof -
  have "list_all (\<lambda>a. list_all (\<lambda>k. bit (bitmask_start_values ! a) k = (a \<le> k)) [0..<8]) [0..<8]" by code_simp
  then show "a < 8 \<Longrightarrow> k < 8 \<Longrightarrow> bit (bitmask_start_values ! a) k = (a \<le> k)" by (simp add: list_all_iff)
qed

lemma end_values: "a < 8 \<Longrightarrow> k < 8 \<Longrightarrow> bit (bitmask_end_values ! a) k = (a = 0 \<or> k < a)"
proof -
  have "list_all (\<lambda>a. list_all (\<lambda>k. bit (bitmask_end_values ! a) k = (a = 0 \<or> k < a)) [0..<8]) [0..<8]" by code_simp
  then show "a < 8 \<Longrightarrow> k < 8 \<Longrightarrow> bit (bitmask_end_values ! a) k = (a = 0 \<or> k < a)" by (simp add: list_all_iff)
qed

lemma mark_short:
  fixes s :: nat
  assumes "e \<le> 8 * length b"
  defines "b' \<equiv> foldl (\<lambda>b ii. b[ii div 8 := b ! (ii div 8) OR push_bit (ii mod 8) 1]) b [s..<e]"
  shows "length b' = length b \<and> (\<forall>i. marked b' i = (marked b i \<or> s \<le> i \<and> i < e))"
  using assms(1) unfolding b'_def
proof (induction e)
  case (Suc e)
  show ?case
  proof (cases "s \<le> e")
    case True
    let ?b = "foldl (\<lambda>b ii. b[ii div 8 := b ! (ii div 8) OR push_bit (ii mod 8) 1]) b [s..<e]"
    have IH: "length ?b = length b" "\<And>i. marked ?b i = (marked b i \<or> s \<le> i \<and> i < e)" using Suc by auto
    have "marked (?b[e div 8 := ?b ! (e div 8) OR push_bit (e mod 8) 1]) i = (marked ?b i \<or> i = e)" for i
    proof (cases "i div 8 = e div 8")
      case True
      have "i mod 8 = e mod 8 \<longleftrightarrow> i = e" using True by (metis div_mult_mod_eq)
      then show ?thesis using True Suc.prems IH(1) by (auto simp: marked_def bit_or_iff bit_exp_iff)
    next
      case False
      then show ?thesis by (auto simp: marked_def)
    qed
    then show ?thesis using True IH by auto
  qed (use Suc.prems in auto)
qed simp

lemma fill_middle:
  "length (foldl (\<lambda>b ii. b[ii := 0xff]) b [lo..<hi]) = length b
   \<and> (\<forall>j < length b. foldl (\<lambda>b ii. b[ii := (0xff :: u8)]) b [lo..<hi] ! j = (if lo \<le> j \<and> j < hi then 0xff else b ! j))"
proof (induction hi)
  case (Suc hi)
  then show ?case by (cases "lo \<le> hi") (auto simp: nth_list_update less_Suc_eq)
qed simp

lemma mark_short_def:
  "e - s \<le> 8 \<Longrightarrow> RSMBLY_BITMASK_MARK b s e = foldl (\<lambda>b ii. b[ii div 8 := b ! (ii div 8) OR push_bit (ii mod 8) 1]) b [s..<e]"
  unfolding RSMBLY_BITMASK_MARK_def by simp

lemma mark_long_def:
  "s + 8 < e \<Longrightarrow> RSMBLY_BITMASK_MARK b s e
    = (let b = foldl (\<lambda>b ii. b[ii := 0xff]) (b[s div 8 := b ! (s div 8) OR bitmask_start_values ! (s mod 8)]) [s div 8 + 1..<(e - 1) div 8]
       in b[(e - 1) div 8 := b ! ((e - 1) div 8) OR bitmask_end_values ! (e mod 8)])"
  unfolding RSMBLY_BITMASK_MARK_def Let_def by (rule if_not_P) linarith

lemma mark_long:
  assumes "s + 8 < e" "e \<le> 8 * length b" "i < 8 * length b"
  shows "marked (RSMBLY_BITMASK_MARK b s e) i = (marked b i \<or> s \<le> i \<and> i < e)"
proof -
  define p q j k where "p = s div 8" and "q = (e - 1) div 8" and "j = i div 8" and "k = i mod 8"
  define b1 where "b1 = b[p := b ! p OR bitmask_start_values ! (s mod 8)]"
  define b2 where "b2 = foldl (\<lambda>b ii. b[ii := 0xff]) b1 [p + 1..<q]"
  have pq: "p < q" "q < length b" "j < length b" using assms unfolding p_def q_def j_def by linarith+
  have b2: "length b2 = length b" "\<And>j. j < length b \<Longrightarrow> b2 ! j = (if p < j \<and> j < q then 0xff else b1 ! j)"
    using fill_middle [of b1 "p + 1" q] by (auto simp: b2_def b1_def Suc_le_eq)
  have m: "RSMBLY_BITMASK_MARK b s e = b2[q := b2 ! q OR bitmask_end_values ! (e mod 8)]"
    using mark_long_def [OF assms(1), of b] by (simp add: Let_def b2_def b1_def p_def q_def)
  have k: "i = 8 * j + k" "k < 8" "s = 8 * p + s mod 8" "s mod 8 < 8" by (simp_all add: j_def k_def p_def)
  have M: "marked c i = bit (c ! j) k" for c by (simp add: marked_def j_def k_def)
  consider "j < p" | "j = p" | "p < j" "j < q" | "j = q" | "q < j" by linarith
  then show ?thesis
  proof cases
    case 2
    then have "s mod 8 \<le> k \<longleftrightarrow> s \<le> i" "i < e" using k pq unfolding q_def by linarith+
    then show ?thesis using 2 pq k(2,4) by (simp add: M m b2 b1_def bit_or_iff start_values)
  next
    case 3
    then have "s \<le> i" "i < e" using k pq unfolding q_def by linarith+
    then show ?thesis using 3 pq k(2) bit_255 [of k] by (simp add: M m b2)
  next
    case 4
    define t where "t = (e - 1) mod 8"
    have e: "e = 8 * q + Suc t" "t < 8" using assms(1) by (simp_all add: t_def q_def)
    then have "e mod 8 = (if t = 7 then 0 else Suc t)" by (simp add: mod_Suc)
    then have "e mod 8 = 0 \<or> k < e mod 8 \<longleftrightarrow> i < e" using e k(1,2) 4 by auto
    moreover have "s \<le> i" using 4 k pq by linarith
    ultimately show ?thesis using 4 pq k(2,4) by (simp add: M m b2 b1_def bit_or_iff end_values)
  next
    case 1
    then have "\<not> s \<le> i" using k by linarith
    then show ?thesis using 1 k(2) pq by (simp add: M m b2 b1_def)
  next
    case 5
    then have "\<not> i < e" using k unfolding q_def by linarith
    then show ?thesis using 5 k(2) pq by (simp add: M m b2 b1_def)
  qed
qed

lemma bitmask_mark:
  assumes "s < e" "e \<le> 8 * length b"
  shows "length (RSMBLY_BITMASK_MARK b s e) = length b" "\<And>i. i < 8 * length b \<Longrightarrow> marked (RSMBLY_BITMASK_MARK b s e) i = (marked b i \<or> s \<le> i \<and> i < e)"
proof -
  have "e - s \<le> 8 \<or> s + 8 < e" by linarith
  then show "length (RSMBLY_BITMASK_MARK b s e) = length b" "\<And>i. i < 8 * length b \<Longrightarrow> marked (RSMBLY_BITMASK_MARK b s e) i = (marked b i \<or> s \<le> i \<and> i < e)"
    using mark_short [OF assms(2), of s] mark_long [OF _ assms(2)] mark_long_def [of s e b] fill_middle by (auto simp: mark_short_def Let_def)
qed

lemma bitmask_complete:
  assumes "0 < n" "length b = RSMBLY_BITMASK_SIZE n" "\<And>i. i < 8 * length b \<Longrightarrow> marked b i \<Longrightarrow> i < n"
  shows "RSMBLY_BITMASK_IS_COMPLETE b n \<longleftrightarrow> (\<forall>i < n. marked b i)"
proof -
  define q t where "q = (n - 1) div 8" and "t = (n - 1) mod 8"
  have n: "n = 8 * q + Suc t" "t < 8" "length b = q + 1" using assms(1,2) by (simp_all add: q_def t_def RSMBLY_BITMASK_SIZE_def)
  have r: "n mod 8 = (if t = 7 then 0 else Suc t)" using n(1,2) by (simp add: mod_Suc)
  have M: "marked b (8 * j + k) = bit (b ! j) k" if "k < 8" for j k using that by (simp add: marked_def)
  have last: "b ! q = bitmask_end_values ! (n mod 8) \<longleftrightarrow> (\<forall>k \<le> t. bit (b ! q) k)"
  proof -
    have e: "bit (bitmask_end_values ! (n mod 8)) k = (k \<le> t)" if "k < 8" for k using that n(2) r end_values [of "n mod 8" k] by auto
    have "bit (b ! q) k \<Longrightarrow> k \<le> t" if "k < 8" for k using assms(3) [of "8 * q + k"] M [OF that, of q] that n by auto
    then have "(\<forall>k \<le> t. bit (b ! q) k) \<longleftrightarrow> (\<forall>k < 8. bit (b ! q) k = (k \<le> t))" using n(2) by (meson le_less_trans)
    also have "\<dots> \<longleftrightarrow> b ! q = bitmask_end_values ! (n mod 8)" using octet_eqI [of "b ! q" "bitmask_end_values ! (n mod 8)"] e by auto
    finally show ?thesis by simp
  qed
  have full: "b ! j = 0xff \<longleftrightarrow> (\<forall>k < 8. bit (b ! j) k)" for j using octet_eqI [of "b ! j" 255] bit_255 by metis
  have "(\<forall>i < n. marked b i) \<longleftrightarrow> (\<forall>k \<le> t. bit (b ! q) k) \<and> (\<forall>j < q. \<forall>k < 8. bit (b ! j) k)"
  proof (intro iffI conjI allI impI)
    fix i assume a: "(\<forall>k \<le> t. bit (b ! q) k) \<and> (\<forall>j < q. \<forall>k < 8. bit (b ! j) k)" "i < n"
    have "i div 8 < q \<or> i div 8 = q \<and> i mod 8 \<le> t" using a(2) n(1,2) div_mult_mod_eq [of i 8] mod_less_divisor [of 8 i] by linarith
    then show "marked b i" using a(1) by (auto simp: marked_def)
  next
    fix k assume "\<forall>i < n. marked b i" "k \<le> t"
    then show "bit (b ! q) k" using M [of k q] n by simp
  next
    fix j k :: nat assume "\<forall>i < n. marked b i" "j < q" "k < 8"
    then show "bit (b ! j) k" using M [of k j] n by simp
  qed
  then show ?thesis using last full by (auto simp: RSMBLY_BITMASK_IS_COMPLETE_def list_all_iff q_def)
qed

section \<open>A message in parts\<close>

text \<open>The octets of \<open>M\<close> whose offsets are in \<open>C\<close> have arrived.\<close>

definition part_of :: "u8 \<Rightarrow> u16 \<Rightarrow> bytes \<Rightarrow> nat set \<Rightarrow> hm_fragment \<Rightarrow> bool" where
  "part_of t seq M C frag \<longleftrightarrow> fr_msg_header frag = \<lparr>hdr_type = t, hdr_msg_len = length M, hdr_seq = seq, hdr_frag_off = 0, hdr_frag_len = length M\<rparr>
     \<and> C \<subseteq> {0..<length M} \<and> length (fr_fragment frag) = length M \<and> (\<forall>i \<in> C. fr_fragment frag ! i = M ! i)
     \<and> (case fr_reassembly frag of
          None \<Rightarrow> C = {0..<length M}
        | Some b \<Rightarrow> C \<noteq> {0..<length M} \<and> length b = RSMBLY_BITMASK_SIZE (length M) \<and> (\<forall>i < 8 * length b. marked b i = (i \<in> C)))"

definition slice :: "nat \<Rightarrow> nat \<Rightarrow> bytes \<Rightarrow> bytes" where
  "slice off n M = take n (drop off M)"

lemma overlay_length: "off + length bs \<le> length buf \<Longrightarrow> length (overlay buf off bs) = length buf"
  by (simp add: overlay_def)

lemma overlay_nth:
  assumes "off + length bs \<le> length buf" "i < length buf"
  shows "overlay buf off bs ! i = (if off \<le> i \<and> i < off + length bs then bs ! (i - off) else buf ! i)"
proof -
  consider "i < off" | "off \<le> i" "i < off + length bs" | "off + length bs \<le> i" by linarith
  then show ?thesis using assms by cases (auto simp: overlay_def nth_append)
qed

lemma bitmask_size: "n \<le> 8 * RSMBLY_BITMASK_SIZE n"
  by (simp add: RSMBLY_BITMASK_SIZE_def)

lemma part_grows:
  assumes "part_of t seq M C frag" "fr_reassembly frag = Some b" "off + n \<le> length M" "0 < n"
  defines "b' \<equiv> RSMBLY_BITMASK_MARK b off (off + n)"
  shows "part_of t seq M (C \<union> {off..<off + n}) (frag\<lparr>fr_fragment := overlay (fr_fragment frag) off (slice off n M),
    fr_reassembly := (if RSMBLY_BITMASK_IS_COMPLETE b' (length M) then None else Some b')\<rparr>)"
proof -
  let ?C = "C \<union> {off..<off + n}"
  have f: "C \<subseteq> {0..<length M}" "length (fr_fragment frag) = length M" "\<And>i. i \<in> C \<Longrightarrow> fr_fragment frag ! i = M ! i"
    "length b = RSMBLY_BITMASK_SIZE (length M)" "\<And>i. i < 8 * length b \<Longrightarrow> marked b i = (i \<in> C)"
    using assms(1,2) by (auto simp: part_of_def)
  have e: "off < off + n" "off + n \<le> 8 * length b" using assms(3,4) bitmask_size [of "length M"] f(4) by linarith+
  have b': "length b' = length b" "\<And>i. i < 8 * length b \<Longrightarrow> marked b' i = (i \<in> ?C)" using bitmask_mark [OF e] f(5) by (auto simp: b'_def)
  have C: "?C \<subseteq> {0..<length M}" using f(1) assms(3) by auto
  have l: "length (slice off n M) = n" using assms(3) by (simp add: slice_def)
  have "RSMBLY_BITMASK_IS_COMPLETE b' (length M) \<longleftrightarrow> (\<forall>i < length M. marked b' i)"
    using bitmask_complete [of "length M" b'] b' f(4) C assms(3,4) by fastforce
  also have "\<dots> \<longleftrightarrow> ?C = {0..<length M}" using b'(2) bitmask_size [of "length M"] f(4) C by (auto simp: subset_eq)
  finally have c: "RSMBLY_BITMASK_IS_COMPLETE b' (length M) \<longleftrightarrow> ?C = {0..<length M}" .
  have v: "overlay (fr_fragment frag) off (slice off n M) ! i = M ! i" if "i \<in> ?C" for i
    using that C f(2,3) l assms(3) overlay_nth [of off "slice off n M" "fr_fragment frag" i] by (auto simp: slice_def subset_eq)
  show ?thesis
    using assms(1) c C v b' f(2,4) l assms(3) overlay_length [of off "slice off n M" "fr_fragment frag"] unfolding part_of_def by simp
qed

lemma part_complete: "part_of t seq M C frag \<Longrightarrow> fr_reassembly frag = None \<Longrightarrow> C = {0..<length M} \<and> fr_fragment frag = M"
  by (auto simp: part_of_def intro: nth_equalityI)

section \<open>Fragments arrive\<close>

text \<open>What the reading of handshake records promises: \<open>body w\<close> is what is left of the current record, and a request for no more than that is served at once.\<close>

locale fragment_source =
  fixes h :: "'w dtls_host" and body :: "'w \<Rightarrow> bytes"
  assumes read_body: "0 < n \<Longrightarrow> n \<le> length (body w) \<Longrightarrow> \<exists>w'. ssl_read_bytes h w n = (int n, take n (body w), w') \<and> body w' = drop n (body w)"
begin

lemma devnull_drains: "n \<le> length (body w) \<Longrightarrow> \<exists>w'. devnull_loop h n w = (None, w')"
proof (induction n arbitrary: w rule: less_induct)
  case (less n)
  show ?case
  proof (cases "n = 0")
    case False
    then obtain w' where w': "ssl_read_bytes h w (min n 256) = (int (min n 256), take (min n 256) (body w), w')" "body w' = drop (min n 256) (body w)"
      using read_body [of "min n 256" w] less.prems by (metis False min.coboundedI1 min_less_iff_conj neq0_conv zero_less_numeral)
    have "n - min n 256 < n" "n - min n 256 \<le> length (body w')" using False less.prems w'(2) by auto
    then obtain w2 where "devnull_loop h (n - min n 256) w' = (None, w2)" using less.IH by blast
    then show ?thesis using w'(1) False by (subst devnull_loop.simps) auto
  qed (simp add: devnull_loop.simps)
qed

end

lemma seq64be_length [simp]: "length (seq64be seq) = 8"
  by (simp add: seq64be_def)

lemma seq64be_val: "be_val (seq64be seq) = unat seq"
proof -
  have "unat seq div 256 < 256" using unat_u16_less [of seq] by (simp add: div_less_iff_less_mult)
  then have "unat (ucast (drop_bit 8 seq) :: u8) = unat seq div 256" using unat_drop_bit_eq [of 8 seq] drop_bit_eq_div [of 8 "unat seq"] by (simp add: unsigned_ucast_eq take_bit_eq_mod)
  moreover have "unat (ucast seq :: u8) = unat seq mod 256" by (simp add: unsigned_ucast_eq take_bit_eq_mod)
  moreover have "be_val (seq64be seq) = unat (ucast (drop_bit 8 seq) :: u8) * 256 + unat (ucast seq :: u8)" by (simp add: seq64be_def be_val_def)
  ultimately show ?thesis by simp
qed

text \<open>A fragment of the message \<open>M\<close>, and the state of a connection in which its offsets \<open>C\<close> have arrived.\<close>

definition fragment_of :: "u8 \<Rightarrow> u16 \<Rightarrow> bytes \<Rightarrow> ('w \<Rightarrow> bytes) \<Rightarrow> hm_header_st \<times> 'w \<Rightarrow> bool" where
  "fragment_of t seq M body f \<longleftrightarrow> (case f of (hdr, w) \<Rightarrow> hdr_type hdr = t \<and> hdr_seq hdr = seq \<and> hdr_msg_len hdr = length M
     \<and> 0 < hdr_frag_len hdr \<and> hdr_frag_off hdr + hdr_frag_len hdr \<le> length M
     \<and> take (hdr_frag_len hdr) (body w) = slice (hdr_frag_off hdr) (hdr_frag_len hdr) M)"

definition offsets :: "hm_header_st \<times> 'w \<Rightarrow> nat set" where
  "offsets f = {hdr_frag_off (fst f)..<hdr_frag_off (fst f) + hdr_frag_len (fst f)}"

definition arrived :: "u8 \<Rightarrow> u16 \<Rightarrow> bytes \<Rightarrow> nat set \<Rightarrow> dtls_handshake \<Rightarrow> dtls_handshake \<Rightarrow> bool" where
  "arrived t seq M C s0 s \<longleftrightarrow> pq_inv (d1_buffered_messages s) \<and> (\<exists>q. s = s0\<lparr>d1_buffered_messages := q\<rparr>)
     \<and> (\<forall>p. length p = 8 \<longrightarrow> p \<noteq> seq64be seq \<longrightarrow> pq_map (d1_buffered_messages s) p = pq_map (d1_buffered_messages s0) p)
     \<and> (case pq_map (d1_buffered_messages s) (seq64be seq) of None \<Rightarrow> C = {} | Some frag \<Rightarrow> part_of t seq M C frag)"

fun reassemble_run :: "(nat \<Rightarrow> bool) \<Rightarrow> 'w dtls_host \<Rightarrow> (hm_header_st \<times> 'w) list \<Rightarrow> dtls_handshake \<Rightarrow> dtls_handshake" where
  "reassemble_run grant h [] s = s"
| "reassemble_run grant h ((hdr, w) # fs) s = reassemble_run grant h fs (fst (snd (dtls1_reassemble_fragment grant h hdr (s, w))))"

lemma fragment_for_new:
  assumes "\<forall>n. grant n" "fragment_of t seq M body (hdr, w)"
  shows "\<exists>frag b. fragment_for grant hdr None = Some frag \<and> part_of t seq M {} frag \<and> fr_reassembly frag = Some b"
proof -
  have "hdr_type hdr = t" "hdr_seq hdr = seq" "hdr_msg_len hdr = length M" "0 < length M" using assms(2) by (auto simp: fragment_of_def)
  moreover have "marked (replicate k 0) i = False" if "i < 8 * k" for i k using that by (simp add: marked_def)
  ultimately show ?thesis using assms(1) by (auto simp: fragment_for_def dtls1_hm_fragment_new_def part_of_def hm_header_st.equality)
qed

context fragment_source
begin

lemma reassemble_step:
  assumes g: "\<forall>n. grant n" and f: "fragment_of t seq M body (hdr, w)" and m: "length M \<le> dtls1_max_handshake_message_len s0" and a: "arrived t seq M C s0 s"
  shows "arrived t seq M (C \<union> offsets (hdr, w)) s0 (fst (snd (dtls1_reassemble_fragment grant h hdr (s, w))))"
proof -
  let ?q = "d1_buffered_messages s" let ?p = "seq64be seq" let ?off = "hdr_frag_off hdr" let ?n = "hdr_frag_len hdr"
  have hd: "hdr_seq hdr = seq" "hdr_msg_len hdr = length M" "0 < ?n" "?off + ?n \<le> length M" "take ?n (body w) = slice ?off ?n M"
    using f by (simp_all add: fragment_of_def)
  have l: "?n \<le> length (body w)" using hd(4) arg_cong [OF hd(5), of length] by (simp add: slice_def)
  obtain w' where rd: "ssl_read_bytes h w ?n = (int ?n, slice ?off ?n M, w')" using read_body [OF hd(3) l] hd(5) by auto
  have sl: "take ?n (slice ?off ?n M) = slice ?off ?n M" by (simp add: slice_def)
  have s: "dtls1_max_handshake_message_len s = dtls1_max_handshake_message_len s0" using a by (auto simp: arrived_def dtls1_max_handshake_message_len_def Let_def)
  have q: "pq_inv ?q" using a by (simp add: arrived_def)
  show ?thesis
  proof (cases "pqueue_find ?q ?p")
    case None
    then have n: "pq_map ?q ?p = None" "C = {}" using a by (simp_all add: arrived_def pq_map_def)
    obtain frag b where fr: "fragment_for grant hdr None = Some frag" "part_of t seq M {} frag" "fr_reassembly frag = Some b"
      using fragment_for_new [OF g f] by blast
    define b' where "b' = RSMBLY_BITMASK_MARK b ?off (?off + ?n)"
    define frag' where "frag' = frag\<lparr>fr_fragment := overlay (fr_fragment frag) ?off (slice ?off ?n M),
      fr_reassembly := (if RSMBLY_BITMASK_IS_COMPLETE b' (length M) then None else Some b')\<rparr>"
    let ?i = "\<lparr>pi_priority = ?p, pi_data = frag'\<rparr>"
    have "dtls1_reassemble_fragment grant h hdr (s, w) = (DTLS1_HM_FRAGMENT_RETRY, s\<lparr>d1_buffered_messages := snd (pqueue_insert ?q ?i)\<rparr>, w')"
      using hd m s None fr rd sl g by (simp add: dtls1_reassemble_fragment_def pitem_new_def frag'_def b'_def Let_def)
    moreover have "part_of t seq M (offsets (hdr, w)) frag'"
      using part_grows [OF fr(2,3) hd(4,3)] by (simp only: frag'_def b'_def offsets_def fst_conv Un_empty_left)
    moreover have "pq_inv (snd (pqueue_insert ?q ?i))" using pqueue_insert_new [OF q, of ?i] n(1) by auto
    ultimately show ?thesis using a n pqueue_insert_map [OF q, of ?i] by (auto simp: arrived_def)
  next
    case (Some item)
    then have p: "pq_map ?q ?p = Some (pi_data item)" "part_of t seq M C (pi_data item)" using a by (simp_all add: arrived_def pq_map_def)
    then have fr: "fragment_for grant hdr (Some item) = Some (pi_data item)" using hd(2) by (simp add: fragment_for_def part_of_def)
    show ?thesis
    proof (cases "fr_reassembly (pi_data item)")
      case None
      obtain w2 where "devnull_loop h ?n w = (None, w2)" using devnull_drains [OF l] by blast
      then have "fst (snd (dtls1_reassemble_fragment grant h hdr (s, w))) = s"
        using hd m s Some fr None by (simp add: dtls1_reassemble_fragment_def Let_def)
      moreover have "C \<union> offsets (hdr, w) = C" using part_complete [OF p(2) None] hd(4) by (auto simp: offsets_def)
      ultimately show ?thesis using a by simp
    next
      case (Some b)
      define b' where "b' = RSMBLY_BITMASK_MARK b ?off (?off + ?n)"
      define frag' where "frag' = (pi_data item)\<lparr>fr_fragment := overlay (fr_fragment (pi_data item)) ?off (slice ?off ?n M),
        fr_reassembly := (if RSMBLY_BITMASK_IS_COMPLETE b' (length M) then None else Some b')\<rparr>"
      have "dtls1_reassemble_fragment grant h hdr (s, w) = (DTLS1_HM_FRAGMENT_RETRY, s\<lparr>d1_buffered_messages := pqueue_store ?q ?p frag'\<rparr>, w')"
        using hd m s \<open>pqueue_find ?q ?p = Some item\<close> fr Some rd sl by (simp add: dtls1_reassemble_fragment_def frag'_def b'_def Let_def)
      moreover have "part_of t seq M (C \<union> offsets (hdr, w)) frag'"
        using part_grows [OF p(2) Some hd(4,3)] by (simp only: frag'_def b'_def offsets_def fst_conv)
      ultimately show ?thesis using a p(1) pqueue_store_inv [of ?q ?p frag'] pqueue_store_map [OF q, of ?p _ frag'] by (auto simp: arrived_def)
    qed
  qed
qed

lemma reassemble_run_arrived:
  assumes "\<forall>n. grant n" "\<forall>f \<in> set fs. fragment_of t seq M body f" "length M \<le> dtls1_max_handshake_message_len s0" "arrived t seq M C s0 s"
  shows "arrived t seq M (C \<union> \<Union> (offsets ` set fs)) s0 (reassemble_run grant h fs s)"
  using assms(2,4)
proof (induction fs arbitrary: s C)
  case (Cons f fs)
  obtain hdr w where f: "f = (hdr, w)" by (meson surj_pair)
  then show ?case using Cons.IH [OF _ reassemble_step [OF assms(1) _ assms(3) Cons.prems(2)]] Cons.prems(1) by (simp add: Un_assoc)
qed simp

end

section \<open>The message is handed over\<close>

lemma retrieve_first:
  assumes "pq_inv (d1_buffered_messages s)" "pq_map (d1_buffered_messages s) (seq64be seq) = Some frag"
    and "\<And>i. i \<in> set (d1_buffered_messages s) \<Longrightarrow> be_val (seq64be seq) \<le> be_val (pi_priority i)"
  shows "\<exists>q. d1_buffered_messages s = \<lparr>pi_priority = seq64be seq, pi_data = frag\<rparr> # q"
proof -
  obtain i where i: "i \<in> set (d1_buffered_messages s)" "pi_priority i = seq64be seq" "pi_data i = frag"
    using pq_map_Some [OF assms(1), of "seq64be seq" frag] assms(2) by auto
  then obtain j q where q: "d1_buffered_messages s = j # q" by (cases "d1_buffered_messages s") auto
  then have "j = i" using i assms(1) assms(3) [of j] by (force simp: pq_inv_Cons)
  then show ?thesis using q i(2,3) by (metis pitem.surjective old.unit.exhaust)
qed

text \<open>All messages in the queue come after the message \<open>seq\<close>, and are filed under their own numbers.\<close>

definition waiting_after :: "u16 \<Rightarrow> hm_fragment pqueue \<Rightarrow> bool" where
  "waiting_after seq q \<longleftrightarrow> pq_inv q \<and> (\<forall>i \<in> set q. pi_priority i = seq64be (hdr_seq (fr_msg_header (pi_data i))) \<and> unat seq < unat (hdr_seq (fr_msg_header (pi_data i))))"

lemma waiting_after_None: "waiting_after seq q \<Longrightarrow> pq_map q (seq64be seq) = None"
  by (auto simp: waiting_after_def pq_map_None dest!: arg_cong [of _ _ be_val] simp: seq64be_val)

lemma arrived_waiting:
  assumes "waiting_after seq (d1_buffered_messages s0)" "arrived t seq M C s0 s" "i \<in> set (d1_buffered_messages s)"
  shows "be_val (seq64be seq) \<le> be_val (pi_priority i)"
proof (cases "pi_priority i = seq64be seq")
  case False
  have l: "length (pi_priority i) = 8" "pq_inv (d1_buffered_messages s)" using assms(2,3) by (auto simp: arrived_def pq_inv_def)
  then have "pq_map (d1_buffered_messages s) (pi_priority i) = Some (pi_data i)" using pq_map_Some [OF l(2,1)] assms(3) by blast
  then have "pq_map (d1_buffered_messages s0) (pi_priority i) = Some (pi_data i)" using assms(2) l(1) False by (auto simp: arrived_def)
  then obtain j where "j \<in> set (d1_buffered_messages s0)" "pi_priority j = pi_priority i"
    using pq_map_Some [OF _ l(1), of "d1_buffered_messages s0"] assms(1) by (auto simp: waiting_after_def)
  then have "unat seq < be_val (pi_priority i)" using assms(1) seq64be_val unfolding waiting_after_def by metis
  then show ?thesis by (simp add: seq64be_val)
qed simp

lemma pop_map:
  assumes "pq_inv (i # q)" "length p = 8"
  shows "pq_map q p = (if p = pi_priority i then None else pq_map (i # q) p)"
proof -
  have "pq_inv q" using assms(1) by (simp add: pq_inv_Cons)
  then have "pq_map q (pi_priority i) = None" using assms(1) pq_map_None [of q "pi_priority i"] by (force simp: pq_inv_Cons)
  then show ?thesis using assms memcmp_eq [of "pi_priority i" p] by (auto simp: pq_map_def pq_inv_Cons)
qed

lemma overlay_all: "k + length M \<le> length buf \<Longrightarrow> take (length M) (drop k (overlay buf k M)) = M"
  by (simp add: overlay_def)

lemma grow_clean:
  assumes "\<forall>n. grant n" "len \<le> LIMIT_BEFORE_EXPANSION"
  shows "\<exists>buf. BUF_MEM_grow_clean grant str len = (True, buf) \<and> len \<le> length (mem_data buf)"
  using assms by (auto simp: BUF_MEM_grow_clean_def Let_def overlay_def)

lemma handed_over:
  assumes a: "arrived t seq M {0..<length M} s0 s" "M \<noteq> []" and s0: "waiting_after seq (d1_buffered_messages s0)" "d1_handshake_read_seq s0 = seq"
    "hdr_frag_off (d1_r_msg_hdr s0) = 0" "length M \<le> max_size" "length M < 2 ^ 24" and g: "\<forall>n. grant n"
  shows "\<exists>s'. dtls1_retrieve_buffered_fragment grant h max_size (s, w) = ((int (length M), True), s', w) \<and> take (length M) (drop 12 (mem_data (ssl_init_buf s'))) = M
    \<and> s3_message_type s' = t \<and> (\<forall>p. length p = 8 \<longrightarrow> pq_map (d1_buffered_messages s') p = pq_map (d1_buffered_messages s0) p)"
proof -
  obtain frag where f: "pq_map (d1_buffered_messages s) (seq64be seq) = Some frag" "part_of t seq M {0..<length M} frag"
    using a by (auto simp: arrived_def split: option.splits)
  have q: "pq_inv (d1_buffered_messages s)" using a by (simp add: arrived_def)
  have ss: "d1_handshake_read_seq s = seq" "hdr_frag_off (d1_r_msg_hdr s) = 0" using a s0 by (auto simp: arrived_def)
  have h: "fr_reassembly frag = None" "fr_fragment frag = M"
    "fr_msg_header frag = \<lparr>hdr_type = t, hdr_msg_len = length M, hdr_seq = seq, hdr_frag_off = 0, hdr_frag_len = length M\<rparr>"
    using f(2) part_complete [OF f(2)] by (auto simp: part_of_def split: option.splits)
  let ?i = "\<lparr>pi_priority = seq64be seq, pi_data = frag\<rparr>"
  obtain r where r: "d1_buffered_messages s = ?i # r" using retrieve_first [OF q f(1)] arrived_waiting [OF s0(1) a(1)] by blast
  obtain buf where buf: "BUF_MEM_grow_clean grant (ssl_init_buf s) (length M + 12) = (True, buf)" "length M + 12 \<le> length (mem_data buf)"
    using grow_clean [OF g, of "length M + 12" "ssl_init_buf s"] s0(5) by (auto simp: LIMIT_BEFORE_EXPANSION_def)
  let ?s = "s\<lparr>d1_buffered_messages := r, ssl_init_buf := buf\<lparr>mem_data := overlay (mem_data buf) 12 M\<rparr>, s3_message_size := length M, s3_message_type := t,
    d1_r_msg_hdr := (d1_r_msg_hdr s)\<lparr>hdr_msg_len := length M, hdr_type := t, hdr_seq := seq\<rparr>\<rparr>"
  have "dtls1_retrieve_buffered_fragment grant h max_size (s, w) = ((int (length M), True), ?s, w)"
    using r h ss s0(4) buf(1) by (simp add: dtls1_retrieve_buffered_fragment_def pqueue_peek_def pqueue_pop_def dtls1_preprocess_fragment_def
      DTLS1_HM_HEADER_LENGTH_def Let_def)
  moreover have "take (length M) (drop 12 (overlay (mem_data buf) 12 M)) = M" using buf(2) by (intro overlay_all) simp
  moreover have "pq_map r p = pq_map (d1_buffered_messages s0) p" if "length p = 8" for p
    using pop_map [of ?i r p] q r that a waiting_after_None [OF s0(1)] by (auto simp: arrived_def)
  ultimately show ?thesis by auto
qed

lemma not_handed_over:
  assumes a: "arrived t seq M C s0 s" "C \<noteq> {0..<length M}" and s0: "waiting_after seq (d1_buffered_messages s0)" "d1_handshake_read_seq s0 = seq"
  shows "dtls1_retrieve_buffered_fragment grant h max_size (s, w) = ((0, False), s, w)"
proof -
  have q: "pq_inv (d1_buffered_messages s)" and ss: "d1_handshake_read_seq s = seq" using a s0 by (auto simp: arrived_def)
  show ?thesis
  proof (cases "d1_buffered_messages s")
    case Nil
    then show ?thesis by (simp add: dtls1_retrieve_buffered_fragment_def pqueue_peek_def)
  next
    case (Cons i r)
    have l: "length (pi_priority i) = 8" using q Cons by (simp add: pq_inv_Cons)
    have m: "pq_map (d1_buffered_messages s) (pi_priority i) = Some (pi_data i)" using pq_map_Some [OF q l] Cons by auto
    have "fr_reassembly (pi_data i) \<noteq> None \<or> hdr_seq (fr_msg_header (pi_data i)) \<noteq> seq"
    proof (cases "pi_priority i = seq64be seq")
      case True
      then show ?thesis using m a by (auto simp: arrived_def part_of_def)
    next
      case False
      then have "pq_map (d1_buffered_messages s0) (pi_priority i) = Some (pi_data i)" using a m l by (auto simp: arrived_def)
      then obtain j where "j \<in> set (d1_buffered_messages s0)" "pi_data j = pi_data i"
        using pq_map_Some [OF _ l, of "d1_buffered_messages s0"] s0(1) by (auto simp: waiting_after_def)
      then show ?thesis using s0(1) unfolding waiting_after_def by (metis order_less_irrefl)
    qed
    then show ?thesis using Cons ss by (auto simp: dtls1_retrieve_buffered_fragment_def pqueue_peek_def Let_def)
  qed
qed

section \<open>Property\<close>

text \<open>C11. DTLS handshake messages are put together exactly. The fragments of a message arrive in any order, overlapping and repeated, while other messages wait in the queue. Then the
  message is handed over if and only if the fragments cover it: the body in \<open>init_buf\<close> is the message, its type is recorded, and the other messages are still
  there. Otherwise nothing is handed over and nothing changes. The locale predicate \<open>fragment_source\<close> has what the reading of records promises;
  memory is not refused, and the message is within the limits.\<close>

theorem dtls_reassembly_exact:
  fixes s :: dtls_handshake and h :: "'w dtls_host"
  assumes "fragment_source h body" "\<forall>n. grant n" "\<forall>f \<in> set fs. fragment_of t seq M body f" "M \<noteq> []"
    and "length M \<le> dtls1_max_handshake_message_len s" "length M \<le> max_size" "length M < 2 ^ 24"
    and "waiting_after seq (d1_buffered_messages s)" "d1_handshake_read_seq s = seq" "hdr_frag_off (d1_r_msg_hdr s) = 0"
  shows "if \<Union> (offsets ` set fs) = {0..<length M}
    then \<exists>s'. dtls1_retrieve_buffered_fragment grant h max_size (reassemble_run grant h fs s, w) = ((int (length M), True), s', w)
      \<and> take (length M) (drop 12 (mem_data (ssl_init_buf s'))) = M \<and> s3_message_type s' = t
      \<and> (\<forall>p. length p = 8 \<longrightarrow> pq_map (d1_buffered_messages s') p = pq_map (d1_buffered_messages s) p)
    else dtls1_retrieve_buffered_fragment grant h max_size (reassemble_run grant h fs s, w) = ((0, False), reassemble_run grant h fs s, w)"
proof -
  have "\<exists>q. s = s\<lparr>d1_buffered_messages := q\<rparr>" by (intro exI [of _ "d1_buffered_messages s"]) simp
  then have "arrived t seq M {} s s" using assms(8) waiting_after_None [OF assms(8)] by (simp add: arrived_def waiting_after_def)
  then have a: "arrived t seq M (\<Union> (offsets ` set fs)) s (reassemble_run grant h fs s)"
    using fragment_source.reassemble_run_arrived [OF assms(1,2,3,5), of "{}" s] by simp
  show ?thesis
  proof (cases "\<Union> (offsets ` set fs) = {0..<length M}")
    case True
    then show ?thesis using handed_over [OF a [unfolded True] assms(4,8,9,10,6,7,2), of h w] by simp
  next
    case False
    then show ?thesis using not_handed_over [OF a False assms(8,9), of grant h max_size w] by simp
  qed
qed

text \<open>A reader over the bodies of the records is such a source.\<close>

definition stream_host :: "bytes dtls_host" where
  "stream_host = \<lparr>ssl_read_bytes = (\<lambda>w n. if w = [] then (- 1, [], w) else (int (min n (length w)), take n w, drop n w)), ssl3_send_alert = (\<lambda>_ w. w), msg_callback = (\<lambda>_ w. w)\<rparr>"

interpretation stream: fragment_source stream_host "\<lambda>w. w"
  by unfold_locales (auto simp: stream_host_def)

definition sample_handshake :: dtls_handshake where
  "sample_handshake = \<lparr>d1_buffered_messages = [], d1_handshake_read_seq = 3, d1_r_msg_hdr = hm_header_zero, d1_listen = False, ssl_server = False, ssl_init_buf = \<lparr>mem_length = 0, mem_data = []\<rparr>,
     ssl_init_num = 0, ssl_max_cert_list = 102400, s3_message_size = 0, s3_message_type = 0, s3_state = 0, ssl_reading = False\<rparr>"

definition sample_header :: "nat \<Rightarrow> nat \<Rightarrow> hm_header_st" where
  "sample_header off n = \<lparr>hdr_type = 11, hdr_msg_len = 5, hdr_seq = 3, hdr_frag_off = off, hdr_frag_len = n\<rparr>"

theorem dtls_reassembly_exact_witness:
  "\<exists>s'. dtls1_retrieve_buffered_fragment (\<lambda>_. True) stream_host 100
      (reassemble_run (\<lambda>_. True) stream_host [(sample_header 2 3, [7, 8, 9]), (sample_header 0 3, [5, 6, 7])] sample_handshake, []) = ((5, True), s', [])
    \<and> take 5 (drop 12 (mem_data (ssl_init_buf s'))) = [5, 6, 7, 8, 9]"
proof -
  let ?fs = "[(sample_header 2 3, [7, 8, 9]), (sample_header 0 3, [5, 6, 7])] :: (hm_header_st \<times> bytes) list" let ?M = "[5, 6, 7, 8, 9] :: bytes"
  have f: "\<forall>f \<in> set ?fs. fragment_of 11 3 ?M (\<lambda>w. w) f" by (simp add: fragment_of_def sample_header_def slice_def)
  have c: "\<Union> (offsets ` set ?fs) = {0..<length ?M}" by (auto simp: offsets_def sample_header_def)
  have s: "length ?M \<le> dtls1_max_handshake_message_len sample_handshake" "length ?M \<le> 100" "length ?M < 2 ^ 24" "waiting_after 3 (d1_buffered_messages sample_handshake)"
    "d1_handshake_read_seq sample_handshake = 3" "hdr_frag_off (d1_r_msg_hdr sample_handshake) = 0"
    by (simp_all add: sample_handshake_def dtls1_max_handshake_message_len_def waiting_after_def pq_inv_def hm_header_zero_def DTLS1_HM_HEADER_LENGTH_def SSL3_RT_MAX_ENCRYPTED_LENGTH_def)
  have five: "length ?M = 5" by simp
  have "\<forall>n :: nat. True" "?M \<noteq> []" by simp_all
  from dtls_reassembly_exact [OF stream.fragment_source_axioms this(1) f this(2) s, of "[]"] show ?thesis unfolding c five by auto
qed

end
