(* ===== verification/Evp_Encode.thy ===== *)
theory Evp_Encode
  imports Prelude
begin

text \<open>
  Base64, \<open>crypto/evp/encode.c\<close>: the encoder writes lines of 64 characters, the decoder reads characters in pieces of any size. An output buffer is the list of the octets
  in it that count, without the terminating 0 that the encoder adds.
\<close>

section \<open>Tables\<close>

definition data_bin2ascii :: bytes where
  "data_bin2ascii = map of_nat ([65..<91] @ [97..<123] @ [48..<58] @ [43, 47])"

definition conv_bin2ascii :: "u64 \<Rightarrow> u8" where
  "conv_bin2ascii a = data_bin2ascii ! unat (a AND 0x3f)"

definition B64_EOLN :: u8 where "B64_EOLN = 0xF0"
definition B64_CR :: u8 where "B64_CR = 0xF1"
definition B64_EOF :: u8 where "B64_EOF = 0xF2"
definition B64_WS :: u8 where "B64_WS = 0xE0"
definition B64_ERROR :: u8 where "B64_ERROR = 0xFF"

definition B64_NOT_BASE64 :: "u8 \<Rightarrow> bool" where
  "B64_NOT_BASE64 a \<longleftrightarrow> a OR 0x13 = 0xF3"

definition data_ascii2bin :: bytes where
  "data_ascii2bin =
    [0xFF, 0xFF, 0xFF, 0xFF, 0xFF, 0xFF, 0xFF, 0xFF,
     0xFF, 0xE0, 0xF0, 0xFF, 0xFF, 0xF1, 0xFF, 0xFF,
     0xFF, 0xFF, 0xFF, 0xFF, 0xFF, 0xFF, 0xFF, 0xFF,
     0xFF, 0xFF, 0xFF, 0xFF, 0xFF, 0xFF, 0xFF, 0xFF,
     0xE0, 0xFF, 0xFF, 0xFF, 0xFF, 0xFF, 0xFF, 0xFF,
     0xFF, 0xFF, 0xFF, 0x3E, 0xFF, 0xF2, 0xFF, 0x3F,
     0x34, 0x35, 0x36, 0x37, 0x38, 0x39, 0x3A, 0x3B,
     0x3C, 0x3D, 0xFF, 0xFF, 0xFF, 0x00, 0xFF, 0xFF,
     0xFF, 0x00, 0x01, 0x02, 0x03, 0x04, 0x05, 0x06,
     0x07, 0x08, 0x09, 0x0A, 0x0B, 0x0C, 0x0D, 0x0E,
     0x0F, 0x10, 0x11, 0x12, 0x13, 0x14, 0x15, 0x16,
     0x17, 0x18, 0x19, 0xFF, 0xFF, 0xFF, 0xFF, 0xFF,
     0xFF, 0x1A, 0x1B, 0x1C, 0x1D, 0x1E, 0x1F, 0x20,
     0x21, 0x22, 0x23, 0x24, 0x25, 0x26, 0x27, 0x28,
     0x29, 0x2A, 0x2B, 0x2C, 0x2D, 0x2E, 0x2F, 0x30,
     0x31, 0x32, 0x33, 0xFF, 0xFF, 0xFF, 0xFF, 0xFF]"

definition conv_ascii2bin :: "u8 \<Rightarrow> u8" where
  "conv_ascii2bin a = (if a AND 0x80 \<noteq> 0 then B64_ERROR else data_ascii2bin ! unat a)"

abbreviation (input) newline :: u8 where "newline \<equiv> 10"
abbreviation (input) pad :: u8 where "pad \<equiv> 61"

section \<open>Encoding\<close>

record EVP_ENCODE_CTX =
  ec_num :: nat
  ec_length :: nat
  ec_enc_data :: bytes
  ec_line_num :: nat
  ec_expect_nl :: nat

definition INT_MAX :: nat where
  "INT_MAX = 2147483647"

definition EVP_ENCODE_CTX_new :: "(nat \<Rightarrow> bool) \<Rightarrow> EVP_ENCODE_CTX option" where
  "EVP_ENCODE_CTX_new grant =
     (if grant 96 then Some \<lparr>ec_num = 0, ec_length = 0, ec_enc_data = replicate 80 0, ec_line_num = 0, ec_expect_nl = 0\<rparr> else None)"

definition EVP_EncodeInit :: "EVP_ENCODE_CTX \<Rightarrow> EVP_ENCODE_CTX" where
  "EVP_EncodeInit ctx = ctx\<lparr>ec_length := 48, ec_num := 0, ec_line_num := 0\<rparr>"

fun EVP_EncodeBlock :: "bytes \<Rightarrow> bytes" where
  "EVP_EncodeBlock [] = []"
| "EVP_EncodeBlock [f0] =
     (let l = push_bit 16 (ucast f0 :: u64)
      in [conv_bin2ascii (drop_bit 18 l), conv_bin2ascii (drop_bit 12 l), pad, pad])"
| "EVP_EncodeBlock [f0, f1] =
     (let l = push_bit 16 (ucast f0 :: u64) OR push_bit 8 (ucast f1)
      in [conv_bin2ascii (drop_bit 18 l), conv_bin2ascii (drop_bit 12 l), conv_bin2ascii (drop_bit 6 l), pad])"
| "EVP_EncodeBlock (f0 # f1 # f2 # f) =
     (let l = push_bit 16 (ucast f0 :: u64) OR push_bit 8 (ucast f1) OR ucast f2
      in [conv_bin2ascii (drop_bit 18 l), conv_bin2ascii (drop_bit 12 l), conv_bin2ascii (drop_bit 6 l), conv_bin2ascii l]) @ EVP_EncodeBlock f"

text \<open>The loop over whole lines; every round writes at least the end of a line, so that the bound on the output ends it.\<close>

function encode_lines :: "nat \<Rightarrow> bytes \<Rightarrow> bytes \<Rightarrow> bytes \<times> bytes" where
  "encode_lines len out inp =
     (if length inp \<ge> len \<and> length out \<le> INT_MAX then encode_lines len (out @ EVP_EncodeBlock (take len inp) @ [newline]) (drop len inp)
      else (out, inp))"
  by pat_completeness auto

termination
  by (relation "measure (\<lambda>(len, out, inp). INT_MAX + 1 - length out)") auto

declare encode_lines.simps [simp del]

definition put_data :: "bytes \<Rightarrow> nat \<Rightarrow> bytes \<Rightarrow> bytes" where
  "put_data d n bs = take n d @ bs @ drop (n + length bs) d"

definition EVP_EncodeUpdate :: "EVP_ENCODE_CTX \<Rightarrow> bytes \<Rightarrow> int \<times> bytes \<times> EVP_ENCODE_CTX" where
  "EVP_EncodeUpdate ctx inp =
     (if inp = [] then (0, [], ctx)
      else if ec_length ctx - ec_num ctx > length inp then
        (1, [], ctx\<lparr>ec_enc_data := put_data (ec_enc_data ctx) (ec_num ctx) inp, ec_num := ec_num ctx + length inp\<rparr>)
      else
        let (out, inp, ctx) =
              (if ec_num ctx \<noteq> 0 then
                 let i = ec_length ctx - ec_num ctx;
                     d = put_data (ec_enc_data ctx) (ec_num ctx) (take i inp)
                 in (EVP_EncodeBlock (take (ec_length ctx) d) @ [newline], drop i inp, ctx\<lparr>ec_enc_data := d, ec_num := 0\<rparr>)
               else ([], inp, ctx));
            (out, inp) = encode_lines (ec_length ctx) out inp
        in if length out > INT_MAX then (0, [], ctx)
           else (1, out, ctx\<lparr>ec_enc_data := put_data (ec_enc_data ctx) 0 inp, ec_num := length inp\<rparr>))"

definition EVP_EncodeFinal :: "EVP_ENCODE_CTX \<Rightarrow> bytes \<times> EVP_ENCODE_CTX" where
  "EVP_EncodeFinal ctx =
     (if ec_num ctx \<noteq> 0 then (EVP_EncodeBlock (take (ec_num ctx) (ec_enc_data ctx)) @ [newline], ctx\<lparr>ec_num := 0\<rparr>) else ([], ctx))"

section \<open>Decoding\<close>

definition EVP_DecodeInit :: "EVP_ENCODE_CTX \<Rightarrow> EVP_ENCODE_CTX" where
  "EVP_DecodeInit ctx = ctx\<lparr>ec_num := 0, ec_length := 0, ec_line_num := 0, ec_expect_nl := 0\<rparr>"

fun decode_groups :: "bytes \<Rightarrow> bytes option" where
  "decode_groups (f0 # f1 # f2 # f3 # f) =
     (let a = conv_ascii2bin f0; b = conv_ascii2bin f1; c = conv_ascii2bin f2; d = conv_ascii2bin f3
      in if a AND 0x80 \<noteq> 0 \<or> b AND 0x80 \<noteq> 0 \<or> c AND 0x80 \<noteq> 0 \<or> d AND 0x80 \<noteq> 0 then None
         else
           let l = push_bit 18 (ucast a :: u64) OR push_bit 12 (ucast b) OR push_bit 6 (ucast c) OR ucast d
           in map_option (\<lambda>t. [ucast (drop_bit 16 l), ucast (drop_bit 8 l), ucast l] @ t) (decode_groups f))"
| "decode_groups f = Some []"

fun strip_tail :: "nat \<Rightarrow> bytes \<Rightarrow> nat" where
  "strip_tail 0 f = 0"
| "strip_tail (Suc n) f = (if Suc n > 3 \<and> B64_NOT_BASE64 (conv_ascii2bin (f ! n)) then strip_tail n f else Suc n)"

definition EVP_DecodeBlock :: "bytes \<Rightarrow> bytes option" where
  "EVP_DecodeBlock f =
     (let f = dropWhile (\<lambda>c. conv_ascii2bin c = B64_WS) f;
          n = strip_tail (length f) f
      in if n mod 4 \<noteq> 0 then None else decode_groups (take n f))"

datatype decode_exit = Goto_end int | Goto_tail bool

text \<open>The number of pad characters at the end of what is pending.\<close>

definition pending_eof :: "EVP_ENCODE_CTX \<Rightarrow> nat" where
  "pending_eof ctx =
     (let n = ec_num ctx; d = ec_enc_data ctx
      in if n > 0 \<and> d ! (n - 1) = pad then if n > 1 \<and> d ! (n - 2) = pad then 2 else 1 else 0)"

fun decode_loop :: "bytes \<Rightarrow> nat \<times> nat \<times> bytes \<times> bytes \<Rightarrow> decode_exit \<times> nat \<times> nat \<times> bytes \<times> bytes" where
  "decode_loop [] st = (Goto_tail False, st)"
| "decode_loop (tmp # inp) (eof, n, d, out) =
     (let v = conv_ascii2bin tmp
      in if v = B64_ERROR then (Goto_end (- 1), eof, n, d, out)
         else if tmp \<noteq> pad \<and> eof > 0 \<and> \<not> B64_NOT_BASE64 v then (Goto_end (- 1), eof, n, d, out)
         else
           let eof = (if tmp = pad then eof + 1 else eof)
           in if eof > 2 then (Goto_end (- 1), eof, n, d, out)
              else if v = B64_EOF then (Goto_tail True, eof, n, d, out)
              else if \<not> B64_NOT_BASE64 v \<and> n \<ge> 64 then (Goto_end (- 1), eof, n, d, out)
              else
                let (n, d) = (if B64_NOT_BASE64 v then (n, d) else (n + 1, d[n := tmp]))
                in if n = 64 then
                     (case EVP_DecodeBlock (take n d) of
                        None \<Rightarrow> (Goto_end (- 1), eof, 0, d, out)
                      | Some t \<Rightarrow> if eof > length t then (Goto_end (- 1), eof, 0, d, out)
                                  else decode_loop inp (eof, 0, d, out @ take (length t - eof) t))
                   else decode_loop inp (eof, n, d, out))"

definition EVP_DecodeUpdate :: "EVP_ENCODE_CTX \<Rightarrow> bytes \<Rightarrow> int \<times> bytes \<times> EVP_ENCODE_CTX" where
  "EVP_DecodeUpdate ctx inp =
     (if inp = [] then (0, [], ctx)
      else case decode_loop inp (pending_eof ctx, ec_num ctx, ec_enc_data ctx, []) of
        (Goto_end rv, eof, n, d, out) \<Rightarrow> (rv, out, ctx\<lparr>ec_num := n, ec_enc_data := d\<rparr>)
      | (Goto_tail seof, eof, n, d, out) \<Rightarrow>
          if n > 0 \<and> n mod 4 = 0 then
            (case EVP_DecodeBlock (take n d) of
               None \<Rightarrow> (- 1, out, ctx\<lparr>ec_num := 0, ec_enc_data := d\<rparr>)
             | Some t \<Rightarrow> if eof > length t then (- 1, out, ctx\<lparr>ec_num := 0, ec_enc_data := d\<rparr>)
                         else (if seof \<or> eof > 0 then 0 else 1, out @ take (length t - eof) t, ctx\<lparr>ec_num := 0, ec_enc_data := d\<rparr>))
          else if n > 0 \<and> seof then (- 1, out, ctx\<lparr>ec_num := n, ec_enc_data := d\<rparr>)
          else (if seof \<or> n = 0 \<and> eof > 0 then 0 else 1, out, ctx\<lparr>ec_num := n, ec_enc_data := d\<rparr>))"

definition EVP_DecodeFinal :: "EVP_ENCODE_CTX \<Rightarrow> int \<times> bytes \<times> EVP_ENCODE_CTX" where
  "EVP_DecodeFinal ctx =
     (if ec_num ctx \<noteq> 0 then
        (case EVP_DecodeBlock (take (ec_num ctx) (ec_enc_data ctx)) of
           None \<Rightarrow> (- 1, [], ctx)
         | Some t \<Rightarrow> (1, t, ctx\<lparr>ec_num := 0\<rparr>))
      else (1, [], ctx))"

end
