(* ===== verification/Base64_Roundtrip.thy ===== *)
theory Base64_Roundtrip
  imports Evp_Encode
begin

text \<open>
  What the encoder writes is what the decoder reads: first for blocks, then for data that comes in pieces of any size on both sides.
\<close>

section \<open>Characters\<close>

lemma alphabet:
  "list_all (\<lambda>v. let c = data_bin2ascii ! v in conv_ascii2bin c = of_nat v \<and> c \<noteq> 61 \<and> c \<noteq> 10) [0..<64]"
  by code_simp

lemma alphabet_nth:
  assumes "v < 64"
  shows "conv_ascii2bin (data_bin2ascii ! v) = of_nat v" "data_bin2ascii ! v \<noteq> 61" "data_bin2ascii ! v \<noteq> 10"
  using alphabet assms by (auto simp: list_all_iff Let_def)

lemma sextet_less: "unat (a AND 0x3f :: u64) < 64"
proof -
  have "a AND 0x3f \<le> (0x3f :: u64)" by (rule word_and_le1)
  then have "unat (a AND 0x3f) \<le> unat (0x3f :: u64)" by (simp only: word_le_nat_alt)
  then show ?thesis by simp
qed

definition sextet :: "u64 \<Rightarrow> u8" where
  "sextet a = ucast (a AND 0x3f)"

lemma conv_bin2ascii:
  "conv_ascii2bin (conv_bin2ascii a) = sextet a" "conv_bin2ascii a \<noteq> 61" "conv_bin2ascii a \<noteq> 10"
  using alphabet_nth [OF sextet_less [of a]] by (simp_all add: conv_bin2ascii_def sextet_def)

lemma conv_other: "conv_ascii2bin 61 = 0" "conv_ascii2bin 10 = B64_EOLN"
  by code_simp+

lemma and_63: "a AND 0x3f = take_bit 6 a" for a :: u64
  using take_bit_eq_mask [of 6 a] by (simp add: mask_eq_exp_minus_1)

lemma sextet_high: "sextet a AND 0x80 = 0"
proof -
  have "list_all (\<lambda>n. \<not> bit (0x80 :: u8) n) [0..<6]" by code_simp
  then have "n < 6 \<Longrightarrow> \<not> bit (0x80 :: u8) n" for n by (simp add: list_all_iff)
  then show ?thesis by (intro bit_word_eqI) (auto simp: sextet_def and_63 bit_and_iff bit_ucast_iff bit_take_bit_iff)
qed

lemma ucast_sextet: "(ucast (sextet a) :: u64) = take_bit 6 a"
  by (rule bit_word_eqI) (auto simp: sextet_def and_63 bit_ucast_iff bit_take_bit_iff)

lemma sextets:
  "push_bit 18 (take_bit 6 (drop_bit 18 l)) OR push_bit 12 (take_bit 6 (drop_bit 12 l)) OR push_bit 6 (take_bit 6 (drop_bit 6 l)) OR take_bit 6 l = take_bit 24 l"
  for l :: u64
proof (rule bit_word_eqI)
  fix n assume "n < LENGTH(64)"
  consider "n < 6" | "6 \<le> n" "n < 12" | "12 \<le> n" "n < 18" | "18 \<le> n" "n < 24" | "24 \<le> n" by linarith
  then show "bit (push_bit 18 (take_bit 6 (drop_bit 18 l)) OR push_bit 12 (take_bit 6 (drop_bit 12 l)) OR push_bit 6 (take_bit 6 (drop_bit 6 l)) OR take_bit 6 l) n = bit (take_bit 24 l) n"
    using \<open>n < LENGTH(64)\<close> by cases (auto simp: bit_or_iff bit_push_bit_iff bit_take_bit_iff bit_drop_bit_eq)
qed

lemma octets:
  fixes x y z :: u8
  defines "l \<equiv> push_bit 16 (ucast x :: u64) OR push_bit 8 (ucast y) OR ucast z"
  shows "ucast (drop_bit 16 (take_bit 24 l)) = x" "ucast (drop_bit 8 (take_bit 24 l)) = y" "ucast (take_bit 24 l) = z"
  by (rule bit_word_eqI, auto simp: l_def bit_or_iff bit_push_bit_iff bit_take_bit_iff bit_drop_bit_eq bit_ucast_iff dest: bit_imp_le_length)+

section \<open>Blocks\<close>

lemma group_word:
  "decode_groups (conv_bin2ascii (drop_bit 18 l) # conv_bin2ascii (drop_bit 12 l) # conv_bin2ascii (drop_bit 6 l) # conv_bin2ascii l # f)
    = map_option (\<lambda>t. [ucast (drop_bit 16 (take_bit 24 l)), ucast (drop_bit 8 (take_bit 24 l)), ucast (take_bit 24 l)] @ t) (decode_groups f)" for l :: u64
  using sextets [of l] by (cases "decode_groups f") (simp_all add: conv_bin2ascii(1) sextet_high ucast_sextet Let_def)

lemma group_roundtrip:
  fixes x y z :: u8
  defines "l \<equiv> push_bit 16 (ucast x :: u64) OR push_bit 8 (ucast y) OR ucast z"
  shows "decode_groups (conv_bin2ascii (drop_bit 18 l) # conv_bin2ascii (drop_bit 12 l) # conv_bin2ascii (drop_bit 6 l) # conv_bin2ascii l # f)
    = map_option (\<lambda>t. [x, y, z] @ t) (decode_groups f)"
  unfolding group_word l_def octets ..

text \<open>The characters that stand for padding are those of zeros, as far as the decoder is concerned.\<close>

lemma conv_zero: "take_bit 6 a = 0 \<Longrightarrow> conv_ascii2bin (conv_bin2ascii a) = conv_ascii2bin 61" for a :: u64
  by (simp add: conv_bin2ascii(1) conv_other sextet_def and_63)

lemma decode_groups_cong:
  "conv_ascii2bin a = conv_ascii2bin a' \<Longrightarrow> conv_ascii2bin b = conv_ascii2bin b' \<Longrightarrow> decode_groups (c # d # a # b # f) = decode_groups (c # d # a' # b' # f)"
  by simp

lemma group_pad1:
  fixes x y :: u8
  defines "l \<equiv> push_bit 16 (ucast x :: u64) OR push_bit 8 (ucast y)"
  shows "decode_groups [conv_bin2ascii (drop_bit 18 l), conv_bin2ascii (drop_bit 12 l), conv_bin2ascii (drop_bit 6 l), 61] = Some [x, y, 0]"
proof -
  have "take_bit 6 l = 0" by (rule bit_word_eqI) (auto simp: l_def bit_or_iff bit_push_bit_iff bit_take_bit_iff)
  then show ?thesis
    using decode_groups_cong [OF refl conv_zero [of l, symmetric], of "conv_bin2ascii (drop_bit 18 l)" "conv_bin2ascii (drop_bit 12 l)" "conv_bin2ascii (drop_bit 6 l)" "[]"]
      group_roundtrip [of x y 0 "[]"] by (simp add: l_def del: decode_groups.simps(1))
qed

lemma group_pad2:
  fixes x :: u8
  defines "l \<equiv> push_bit 16 (ucast x :: u64)"
  shows "decode_groups [conv_bin2ascii (drop_bit 18 l), conv_bin2ascii (drop_bit 12 l), 61, 61] = Some [x, 0, 0]"
proof -
  have "take_bit 6 l = 0" "take_bit 6 (drop_bit 6 l) = 0"
    by (rule bit_word_eqI, auto simp: l_def bit_push_bit_iff bit_take_bit_iff bit_drop_bit_eq)+
  then show ?thesis
    using decode_groups_cong [OF conv_zero [of "drop_bit 6 l", symmetric] conv_zero [of l, symmetric], of "conv_bin2ascii (drop_bit 18 l)" "conv_bin2ascii (drop_bit 12 l)" "[]"]
      group_roundtrip [of x 0 0 "[]"] by (simp add: l_def del: decode_groups.simps(1))
qed

abbreviation pads :: "bytes \<Rightarrow> nat" where
  "pads cs \<equiv> count_list cs 61"

lemma length_encode: "length (EVP_EncodeBlock xs) = 4 * ((length xs + 2) div 3)"
proof (induction xs rule: EVP_EncodeBlock.induct)
  case (4 x y z f)
  have "(length (x # y # z # f) + 2) div 3 = Suc ((length f + 2) div 3)" using div_add_self1 [of 3 "length f + 2"] by simp
  then show ?case using 4 by (simp add: Let_def)
qed (simp_all add: Let_def)

lemma encode_append: "length xs mod 3 = 0 \<Longrightarrow> EVP_EncodeBlock (xs @ ys) = EVP_EncodeBlock xs @ EVP_EncodeBlock ys"
  by (induction xs rule: EVP_EncodeBlock.induct) (simp_all add: Let_def)

lemma encode_drop:
  assumes "4 * j \<le> length (EVP_EncodeBlock xs)"
  shows "drop (4 * j) (EVP_EncodeBlock xs) = EVP_EncodeBlock (drop (3 * j) xs)"
proof (cases "3 * j \<le> length xs")
  case True
  have "EVP_EncodeBlock xs = EVP_EncodeBlock (take (3 * j) xs) @ EVP_EncodeBlock (drop (3 * j) xs)"
    using encode_append [of "take (3 * j) xs" "drop (3 * j) xs"] True by simp
  moreover have "length (EVP_EncodeBlock (take (3 * j) xs)) = 4 * j" using True by (simp add: length_encode)
  ultimately show ?thesis by simp
next
  case False
  then have "length (EVP_EncodeBlock xs) \<le> 4 * j" by (simp add: length_encode)
  then show ?thesis using False by simp
qed

text \<open>The first groups of what was encoded are decoded to the first octets, and as many zeros as there are pad characters.\<close>

lemma decode_prefix:
  assumes "4 * j \<le> length (EVP_EncodeBlock xs)"
  shows "\<exists>t. decode_groups (take (4 * j) (EVP_EncodeBlock xs)) = Some t \<and> length t = 3 * j
    \<and> pads (take (4 * j) (EVP_EncodeBlock xs)) \<le> length t \<and> take (length t - pads (take (4 * j) (EVP_EncodeBlock xs))) t = take (3 * j) xs"
  using assms
proof (induction xs arbitrary: j rule: EVP_EncodeBlock.induct)
  case (2 x)
  then have "j = 0 \<or> j = 1" by (simp add: Let_def) linarith
  then show ?case using group_pad2 [of x] by (auto simp: Let_def conv_bin2ascii(2) simp del: decode_groups.simps(1))
next
  case (3 x y)
  then have "j = 0 \<or> j = 1" by (simp add: Let_def) linarith
  then show ?case using group_pad1 [of x y] by (auto simp: Let_def conv_bin2ascii(2) simp del: decode_groups.simps(1))
next
  case (4 x y z xs)
  show ?case
  proof (cases j)
    case (Suc k)
    then have "4 * k \<le> length (EVP_EncodeBlock xs)" using 4(2) by (simp add: Let_def)
    then obtain t where t: "decode_groups (take (4 * k) (EVP_EncodeBlock xs)) = Some t" "length t = 3 * k" "pads (take (4 * k) (EVP_EncodeBlock xs)) \<le> length t"
      "take (length t - pads (take (4 * k) (EVP_EncodeBlock xs))) t = take (3 * k) xs" using 4(1) by blast
    have j: "4 * j = Suc (Suc (Suc (Suc (4 * k))))" "3 * j = Suc (Suc (Suc (3 * k)))" using Suc by simp_all
    show ?thesis
      unfolding j using t group_roundtrip [of x y z "take (4 * k) (EVP_EncodeBlock xs)"]
      by (simp add: Let_def conv_bin2ascii(2) Suc_diff_le del: decode_groups.simps(1))
  qed simp
qed simp

text \<open>Pad characters are the last ones, and only in the last group.\<close>

lemma encode_shape: "\<exists>body k. EVP_EncodeBlock xs = body @ replicate k 61 \<and> 61 \<notin> set body \<and> k \<le> 2"
proof (induction xs rule: EVP_EncodeBlock.induct)
  case (2 x)
  let ?l = "push_bit 16 (ucast x :: u64)"
  show ?case by (intro exI [of _ "[conv_bin2ascii (drop_bit 18 ?l), conv_bin2ascii (drop_bit 12 ?l)]"] exI [of _ 2]) (simp add: Let_def conv_bin2ascii(2) [symmetric] eval_simps)
next
  case (3 x y)
  let ?l = "push_bit 16 (ucast x :: u64) OR push_bit 8 (ucast y)"
  show ?case by (intro exI [of _ "[conv_bin2ascii (drop_bit 18 ?l), conv_bin2ascii (drop_bit 12 ?l), conv_bin2ascii (drop_bit 6 ?l)]"] exI [of _ 1]) (simp add: Let_def conv_bin2ascii(2) [symmetric])
next
  case (4 x y z f)
  let ?l = "push_bit 16 (ucast x :: u64) OR push_bit 8 (ucast y) OR ucast z"
  obtain body k where "EVP_EncodeBlock f = body @ replicate k 61" "61 \<notin> set body" "k \<le> 2" using 4 by blast
  then show ?case
    by (intro exI [of _ "[conv_bin2ascii (drop_bit 18 ?l), conv_bin2ascii (drop_bit 12 ?l), conv_bin2ascii (drop_bit 6 ?l), conv_bin2ascii ?l] @ body"] exI [of _ k])
      (simp add: Let_def conv_bin2ascii(2) [symmetric])
qed (auto intro: exI [of _ "[]"])

lemma encode_chars: "c \<in> set (EVP_EncodeBlock xs) \<Longrightarrow> c \<noteq> 10 \<and> conv_ascii2bin c AND 0x80 = 0"
  by (induction xs rule: EVP_EncodeBlock.induct) (auto simp: Let_def conv_bin2ascii conv_other sextet_high)

lemma pad_last: "EVP_EncodeBlock xs = u @ c # v \<Longrightarrow> c \<noteq> 61 \<Longrightarrow> 61 \<notin> set u"
proof -
  assume a: "EVP_EncodeBlock xs = u @ c # v" "c \<noteq> 61"
  obtain body k where b: "EVP_EncodeBlock xs = body @ replicate k 61" "61 \<notin> set body" using encode_shape by blast
  have "length u < length body"
  proof (rule ccontr)
    assume "\<not> length u < length body"
    then have "(body @ replicate k 61) ! length u = 61" using a(1) b(1) by (metis (no_types) append_is_Nil_conv in_set_replicate length_append length_greater_0_conv
      linorder_not_less list.distinct(1) nth_append nth_mem add_less_cancel_left le_add_diff_inverse nat_add_left_cancel_less less_add_same_cancel1)
    then show False using a b(1) by (metis nth_append_length)
  qed
  then have "u = take (length u) body" using a(1) b(1) by (metis append_eq_conv_conj less_imp_le take_append diff_is_0_eq take_0 append_Nil2)
  then show "61 \<notin> set u" using b(2) by (metis in_set_takeD)
qed

definition shape :: "bytes \<Rightarrow> bool" where
  "shape cs \<longleftrightarrow> (\<exists>body k. cs = body @ replicate k 61 \<and> 61 \<notin> set body \<and> k \<le> 2)"

lemma shape_encode: "shape (EVP_EncodeBlock xs)"
  using encode_shape by (simp add: shape_def)

lemma shape_take: "shape cs \<Longrightarrow> shape (take n cs)"
proof -
  assume "shape cs"
  then obtain body k where b: "cs = body @ replicate k 61" "61 \<notin> set body" "k \<le> 2" by (auto simp: shape_def)
  have "take n cs = take n body @ replicate (min (n - length body) k) 61" using b(1) by simp
  moreover have "61 \<notin> set (take n body)" "min (n - length body) k \<le> 2" using b(2,3) by (auto dest: in_set_takeD)
  ultimately show ?thesis unfolding shape_def by blast
qed

lemma shape_drop: "shape cs \<Longrightarrow> shape (drop n cs)"
proof -
  assume "shape cs"
  then obtain body k where b: "cs = body @ replicate k 61" "61 \<notin> set body" "k \<le> 2" by (auto simp: shape_def)
  have "drop n cs = drop n body @ replicate (k - (n - length body)) 61" using b(1) by simp
  moreover have "61 \<notin> set (drop n body)" "k - (n - length body) \<le> 2" using b(2,3) by (auto dest: in_set_dropD)
  ultimately show ?thesis unfolding shape_def by blast
qed

lemma pads_replicate: "pads (replicate k 61) = k"
  by (induction k) simp_all

lemma shape_pads: "shape cs \<Longrightarrow> pads cs \<le> 2"
  by (auto simp: shape_def count_list_0_iff pads_replicate)

lemma pending_pads:
  assumes "shape (take (ec_num ctx) (ec_enc_data ctx))" "ec_num ctx \<le> length (ec_enc_data ctx)"
  shows "pending_eof ctx = pads (take (ec_num ctx) (ec_enc_data ctx))"
proof -
  let ?n = "ec_num ctx" let ?d = "ec_enc_data ctx"
  obtain body k where b: "take ?n ?d = body @ replicate k 61" "61 \<notin> set body" "k \<le> 2" using assms(1) by (auto simp: shape_def)
  have n: "?n = length body + k" using arg_cong [OF b(1), of length] assms(2) by simp
  have d: "i < ?n \<Longrightarrow> ?d ! i = (body @ replicate k 61) ! i" for i using b(1) by (metis nth_take)
  have m: "i < length body \<Longrightarrow> body ! i \<noteq> 61" for i using b(2) by (metis nth_mem)
  have p: "pads (take ?n ?d) = k" using b by (simp add: count_list_0_iff pads_replicate)
  have d1: "?n > 0 \<Longrightarrow> (?d ! (?n - 1) = 61) = (k > 0)" using d [of "?n - 1"] n m [of "?n - 1"] by (cases "k = 0") (simp_all add: nth_append)
  have d2: "?n > 1 \<Longrightarrow> k > 0 \<Longrightarrow> (?d ! (?n - 2) = 61) = (k = 2)"
    using d [of "?n - 2"] n m [of "?n - 2"] b(3) by (cases "k = 2") (simp_all add: nth_append)
  show ?thesis unfolding p using d1 d2 n b(3) by (cases "k = 0"; cases "k = 2") (auto simp: pending_eof_def Let_def)
qed

section \<open>The decoder on characters of the alphabet\<close>

lemma high_bit: "v AND 0x80 = 0 \<Longrightarrow> \<not> B64_NOT_BASE64 v \<and> v \<noteq> B64_WS \<and> v \<noteq> B64_ERROR \<and> v \<noteq> B64_EOF" for v :: u8
proof -
  assume a: "v AND 0x80 = 0"
  have "(v OR 0x13) AND 0x80 = 0" using a by (simp add: bit.conj_disj_distrib2)
  then have "\<not> B64_NOT_BASE64 v" by (auto simp: B64_NOT_BASE64_def)
  then show ?thesis using a by (auto simp: B64_WS_def B64_ERROR_def B64_EOF_def)
qed

lemma strip_none: "(\<And>i. i < n \<Longrightarrow> \<not> B64_NOT_BASE64 (conv_ascii2bin (f ! i))) \<Longrightarrow> strip_tail n f = n"
  by (cases n) auto

lemma decode_block_plain:
  assumes "\<forall>c \<in> set f. conv_ascii2bin c AND 0x80 = 0"
  shows "EVP_DecodeBlock f = (if length f mod 4 \<noteq> 0 then None else decode_groups f)"
proof -
  have "dropWhile (\<lambda>c. conv_ascii2bin c = B64_WS) f = f" using assms high_bit by (cases f) auto
  moreover have "strip_tail (length f) f = length f" using assms high_bit by (intro strip_none) auto
  ultimately show ?thesis by (simp add: EVP_DecodeBlock_def)
qed

lemma segment:
  assumes "4 * j + 4 * m \<le> length (EVP_EncodeBlock xs)" "p = take (4 * m) (drop (4 * j) (EVP_EncodeBlock xs))"
  shows "\<exists>t. EVP_DecodeBlock p = Some t \<and> pads p \<le> length t \<and> take (length t - pads p) t = take (3 * m) (drop (3 * j) xs)"
proof -
  have d: "drop (4 * j) (EVP_EncodeBlock xs) = EVP_EncodeBlock (drop (3 * j) xs)" using encode_drop assms(1) by simp
  have l: "4 * m \<le> length (EVP_EncodeBlock (drop (3 * j) xs))" using assms(1) arg_cong [OF d, of length] by simp
  have "\<forall>c \<in> set p. conv_ascii2bin c AND 0x80 = 0" using assms(2) encode_chars by (auto dest!: in_set_takeD in_set_dropD)
  then have "EVP_DecodeBlock p = decode_groups p" using decode_block_plain [of p] assms by simp
  then show ?thesis using decode_prefix [OF l] assms(2) d by auto
qed

lemma aligned_no_pad:
  assumes "4 * j < length (EVP_EncodeBlock xs)"
  shows "61 \<notin> set (take (4 * j) (EVP_EncodeBlock xs))"
proof -
  have d: "drop (4 * j) (EVP_EncodeBlock xs) = EVP_EncodeBlock (drop (3 * j) xs)" using encode_drop assms by simp
  then have ne: "drop (3 * j) xs \<noteq> []" using assms by (metis EVP_EncodeBlock.simps(1) drop_eq_Nil2 linorder_not_less)
  have "hd (EVP_EncodeBlock ys) \<noteq> 61 \<and> EVP_EncodeBlock ys \<noteq> []" if "ys \<noteq> []" for ys
    using that by (cases ys rule: EVP_EncodeBlock.cases) (simp_all add: Let_def conv_bin2ascii(2))
  then obtain c v where c: "EVP_EncodeBlock (drop (3 * j) xs) = c # v" "c \<noteq> 61" using ne by (metis list.exhaust_sel)
  have "EVP_EncodeBlock xs = take (4 * j) (EVP_EncodeBlock xs) @ c # v" using d c(1) by (metis append_take_drop_id)
  then show ?thesis using pad_last c(2) by blast
qed

section \<open>The decoder on a stream\<close>

text \<open>The characters \<open>u\<close> of \<open>EVP_EncodeBlock xs\<close> have been read; all but the last \<open>n\<close> of them have been decoded to \<open>out\<close>.\<close>

definition decoded :: "bytes \<Rightarrow> bytes \<Rightarrow> nat \<Rightarrow> bytes \<Rightarrow> bytes \<Rightarrow> bool" where
  "decoded xs u n d out \<longleftrightarrow> length d = 80 \<and> n < 64 \<and> (\<exists>j. length u = 4 * j + n \<and> take n d = drop (4 * j) u \<and> out = take (3 * j) xs)"

definition eof_ok :: "bytes \<Rightarrow> bytes \<Rightarrow> nat \<Rightarrow> nat \<Rightarrow> bytes \<Rightarrow> bool" where
  "eof_ok v u eof n d \<longleftrightarrow> eof \<le> 2 \<and> (n > 0 \<or> v \<noteq> [] \<longrightarrow> eof = pads (take n d))"

text \<open>Characters that fill a number of groups are decoded.\<close>

lemma decode_pending:
  assumes "EVP_EncodeBlock xs = u @ v" "length u = 4 * j + 4 * m" "p = drop (4 * j) u" "out = take (3 * j) xs"
  shows "\<exists>t. EVP_DecodeBlock p = Some t \<and> pads p \<le> length t \<and> out @ take (length t - pads p) t = take (3 * (j + m)) xs"
proof -
  have "p = take (4 * m) (drop (4 * j) (EVP_EncodeBlock xs))" using assms(1-3) by simp
  then obtain t where t: "EVP_DecodeBlock p = Some t" "pads p \<le> length t" "take (length t - pads p) t = take (3 * m) (drop (3 * j) xs)"
    using segment [of j m xs p] assms(1,2) by auto
  have "out @ take (3 * m) (drop (3 * j) xs) = take (3 * j + 3 * m) xs" using assms(4) by (simp add: take_add)
  then show ?thesis using t by (auto simp: algebra_simps)
qed

lemma decode_char:
  assumes S: "EVP_EncodeBlock xs = u @ c # v" and d: "decoded xs u n d (pre @ out)" and e: "eof_ok (c # v) u eof n d"
  shows "\<exists>eof' n' d' out'. (\<forall>inp. decode_loop (c # inp) (eof, n, d, out) = decode_loop inp (eof', n', d', out'))
    \<and> decoded xs (u @ [c]) n' d' (pre @ out') \<and> eof_ok v (u @ [c]) eof' n' d'"
proof -
  obtain j where j: "length d = 80" "n < 64" "length u = 4 * j + n" "take n d = drop (4 * j) u" "pre @ out = take (3 * j) xs" using d by (auto simp: decoded_def)
  have ch: "conv_ascii2bin c AND 0x80 = 0" using encode_chars [of c xs] S by simp
  note hb = high_bit [OF ch]
  have eof: "eof = pads (take n d)" using e by (simp add: eof_ok_def)
  have c0: "c \<noteq> 61 \<Longrightarrow> eof = 0" using pad_last [OF S] eof j(4) by (auto simp: count_list_0_iff dest: in_set_dropD)
  let ?eof = "if c = 61 then eof + 1 else eof" let ?d = "d[n := c]"
  have t: "take (Suc n) ?d = drop (4 * j) (u @ [c])" using j by (simp add: take_Suc_conv_app_nth)
  have p: "?eof = pads (take (Suc n) ?d)" unfolding t using eof j(3,4) by simp
  have "shape (take (Suc (length u)) (EVP_EncodeBlock xs))" by (rule shape_take [OF shape_encode])
  then have "shape (u @ [c])" using S by simp
  then have e2: "?eof \<le> 2" using shape_pads [OF shape_drop, of "u @ [c]" "4 * j"] p t by simp
  have step: "decode_loop (c # inp) (eof, n, d, out) = (if Suc n = 64 then (case EVP_DecodeBlock (take 64 ?d) of None \<Rightarrow> (Goto_end (- 1), ?eof, 0, ?d, out)
      | Some t \<Rightarrow> if ?eof > length t then (Goto_end (- 1), ?eof, 0, ?d, out) else decode_loop inp (?eof, 0, ?d, out @ take (length t - ?eof) t))
      else decode_loop inp (?eof, Suc n, ?d, out))" for inp
  proof (cases "Suc n = 64")
    case True
    then have "n = 63" by simp
    then show ?thesis using hb c0 e2 by (simp add: Let_def split: option.split)
  next
    case False
    then show ?thesis using hb c0 e2 j(2) by (auto simp: Let_def)
  qed
  show ?thesis
  proof (cases "Suc n = 64")
    case False
    have "decoded xs (u @ [c]) (Suc n) ?d (pre @ out)" using False j t by (auto simp: decoded_def)
    then show ?thesis using step False e2 p by (intro exI [of _ ?eof] exI [of _ "Suc n"] exI [of _ ?d] exI [of _ out]) (simp add: eof_ok_def)
  next
    case True
    have len: "length (u @ [c]) = 4 * j + 4 * 16" using True j(3) by simp
    obtain r where r: "EVP_DecodeBlock (take (Suc n) ?d) = Some r" "pads (take (Suc n) ?d) \<le> length r"
      "(pre @ out) @ take (length r - pads (take (Suc n) ?d)) r = take (3 * (j + 16)) xs"
      using decode_pending [of xs "u @ [c]" v j 16 "take (Suc n) ?d" "pre @ out"] S len t j(5) by auto
    have "61 \<notin> set (u @ [c])" if "v \<noteq> []"
      using aligned_no_pad [of "j + 16" xs] that S len by simp
    then have "v \<noteq> [] \<Longrightarrow> ?eof = 0" using p t by (auto simp: count_list_0_iff dest: in_set_dropD)
    moreover have "decoded xs (u @ [c]) 0 ?d (pre @ out @ take (length r - ?eof) r)"
      using r(3) len j(1) p by (auto simp: decoded_def intro!: exI [of _ "j + 16"])
    moreover have "\<forall>inp. decode_loop (c # inp) (eof, n, d, out) = decode_loop inp (?eof, 0, ?d, out @ take (length r - ?eof) r)"
    proof
      fix inp
      have q: "EVP_DecodeBlock (take 64 ?d) = Some r" "\<not> length r < ?eof" using r(1,2) unfolding True p by simp_all
      show "decode_loop (c # inp) (eof, n, d, out) = decode_loop inp (?eof, 0, ?d, out @ take (length r - ?eof) r)"
        unfolding step if_P [OF True] q(1) option.case(2) if_not_P [OF q(2)] ..
    qed
    ultimately show ?thesis using e2 by (intro exI [of _ ?eof] exI [of _ 0] exI [of _ ?d] exI [of _ "out @ take (length r - ?eof) r"]) (simp add: eof_ok_def)
  qed
qed

lemma decode_newline:
  assumes "n < 64" "eof \<le> 2"
  shows "decode_loop (10 # inp) (eof, n, d, out) = decode_loop inp (eof, n, d, out)"
proof -
  have "B64_NOT_BASE64 B64_EOLN" "B64_EOLN \<noteq> B64_ERROR" "B64_EOLN \<noteq> B64_EOF" by code_simp+
  then show ?thesis using assms by (simp add: conv_other Let_def)
qed

lemma decode_loop_stream:
  assumes "EVP_EncodeBlock xs = u @ filter (\<lambda>c. c \<noteq> 10) inp @ v" "decoded xs u n d (pre @ out)" "eof_ok (filter (\<lambda>c. c \<noteq> 10) inp @ v) u eof n d"
  shows "\<exists>eof' n' d' out'. decode_loop inp (eof, n, d, out) = (Goto_tail False, eof', n', d', out')
    \<and> decoded xs (u @ filter (\<lambda>c. c \<noteq> 10) inp) n' d' (pre @ out') \<and> eof_ok v (u @ filter (\<lambda>c. c \<noteq> 10) inp) eof' n' d'"
  using assms
proof (induction inp arbitrary: u n d eof out)
  case (Cons c inp)
  show ?case
  proof (cases "c = 10")
    case True
    then show ?thesis using Cons.IH [of u n d out eof] Cons.prems decode_newline [of n eof inp d out] by (auto simp: decoded_def eof_ok_def)
  next
    case False
    then have S: "EVP_EncodeBlock xs = u @ c # (filter (\<lambda>c. c \<noteq> 10) inp @ v)" "eof_ok (c # (filter (\<lambda>c. c \<noteq> 10) inp @ v)) u eof n d" using Cons.prems(1,3) by simp_all
    obtain eof1 n1 d1 out1 where st: "\<And>inp. decode_loop (c # inp) (eof, n, d, out) = decode_loop inp (eof1, n1, d1, out1)"
      "decoded xs (u @ [c]) n1 d1 (pre @ out1)" "eof_ok (filter (\<lambda>c. c \<noteq> 10) inp @ v) (u @ [c]) eof1 n1 d1"
      using decode_char [OF S(1) Cons.prems(2) S(2)] by blast
    then show ?thesis using Cons.IH [of "u @ [c]" n1 d1 out1 eof1] S(1) False by simp
  qed
qed auto

section \<open>One call of the decoder\<close>

text \<open>Between two calls the pending characters never fill a group.\<close>

definition dec_inv :: "bytes \<Rightarrow> bytes \<Rightarrow> EVP_ENCODE_CTX \<Rightarrow> bytes \<Rightarrow> bool" where
  "dec_inv xs u ctx out \<longleftrightarrow> decoded xs u (ec_num ctx) (ec_enc_data ctx) out \<and> (ec_num ctx = 0 \<or> ec_num ctx mod 4 \<noteq> 0)"

lemma decoded_pending:
  assumes "EVP_EncodeBlock xs = u @ v" "decoded xs u n d out"
  shows "shape (take n d)" "n \<le> length d"
proof -
  obtain j where j: "length d = 80" "n < 64" "take n d = drop (4 * j) u" using assms(2) by (auto simp: decoded_def)
  have "u = take (length u) (EVP_EncodeBlock xs)" using assms(1) by simp
  then have "shape u" by (metis shape_take shape_encode)
  then show "shape (take n d)" using j(3) shape_drop by simp
  show "n \<le> length d" using j by simp
qed

lemma dec_inv_eof:
  assumes "EVP_EncodeBlock xs = u @ v" "dec_inv xs u ctx out"
  shows "eof_ok v u (pending_eof ctx) (ec_num ctx) (ec_enc_data ctx)"
proof -
  have "shape (take (ec_num ctx) (ec_enc_data ctx))" "ec_num ctx \<le> length (ec_enc_data ctx)"
    using decoded_pending [OF assms(1)] assms(2) unfolding dec_inv_def by blast+
  then show ?thesis using pending_pads shape_pads by (simp add: eof_ok_def)
qed

lemma EVP_DecodeUpdate_stream:
  assumes S: "EVP_EncodeBlock xs = u @ filter (\<lambda>c. c \<noteq> 10) inp @ v" and i: "dec_inv xs u ctx pre" and ne: "inp \<noteq> []"
  shows "\<exists>rv out ctx'. EVP_DecodeUpdate ctx inp = (rv, out, ctx') \<and> rv \<in> {0, 1} \<and> dec_inv xs (u @ filter (\<lambda>c. c \<noteq> 10) inp) ctx' (pre @ out)"
proof -
  let ?u = "u @ filter (\<lambda>c. c \<noteq> 10) inp"
  obtain eof n d out where l: "decode_loop inp (pending_eof ctx, ec_num ctx, ec_enc_data ctx, []) = (Goto_tail False, eof, n, d, out)"
    "decoded xs ?u n d (pre @ out)" "eof_ok v ?u eof n d"
    using decode_loop_stream [of xs u inp v "ec_num ctx" "ec_enc_data ctx" pre "[]" "pending_eof ctx"] S i dec_inv_eof [OF S i] by (auto simp: dec_inv_def)
  obtain j where j: "length d = 80" "n < 64" "length ?u = 4 * j + n" "take n d = drop (4 * j) ?u" "pre @ out = take (3 * j) xs" using l(2) by (auto simp: decoded_def)
  show ?thesis
  proof (cases "n > 0 \<and> n mod 4 = 0")
    case False
    then show ?thesis using l ne by (auto simp: EVP_DecodeUpdate_def dec_inv_def)
  next
    case True
    then obtain m where m: "n = 4 * m" by (metis mod_0_imp_dvd dvdE)
    have e: "eof = pads (take n d)" using l(3) True by (simp add: eof_ok_def)
    obtain t where t: "EVP_DecodeBlock (take n d) = Some t" "eof \<le> length t" "(pre @ out) @ take (length t - eof) t = take (3 * (j + m)) xs"
      using decode_pending [of xs ?u v j m "take n d" "pre @ out"] S j m e by auto
    have "EVP_DecodeUpdate ctx inp = (if eof > 0 then 0 else 1, out @ take (length t - eof) t, ctx\<lparr>ec_num := 0, ec_enc_data := d\<rparr>)"
      using l(1) ne True t(1,2) by (simp add: EVP_DecodeUpdate_def)
    moreover have "decoded xs ?u 0 d (pre @ out @ take (length t - eof) t)"
      using t(3) j(1,3) m unfolding decoded_def by (auto intro!: exI [of _ "j + m"])
    ultimately show ?thesis by (simp add: dec_inv_def)
  qed
qed

lemma dec_inv_all:
  assumes "dec_inv xs (EVP_EncodeBlock xs) ctx out"
  shows "ec_num ctx = 0" "out = xs"
proof -
  obtain j where j: "length (EVP_EncodeBlock xs) = 4 * j + ec_num ctx" "out = take (3 * j) xs" using assms by (auto simp: dec_inv_def decoded_def)
  have "(4 * j + ec_num ctx) mod 4 = 0" unfolding j(1) [symmetric] length_encode by simp
  then show n: "ec_num ctx = 0" using assms by (auto simp: dec_inv_def)
  have "(length xs + 2) div 3 = j" using j(1) n length_encode [of xs] by simp
  then have "length xs \<le> 3 * j" by linarith
  then show "out = xs" using j(2) by simp
qed

section \<open>Runs\<close>

text \<open>The calls of an update function for the pieces in order: the results, the output and the context after them.\<close>

fun update_all :: "(EVP_ENCODE_CTX \<Rightarrow> bytes \<Rightarrow> int \<times> bytes \<times> EVP_ENCODE_CTX) \<Rightarrow> bytes list \<Rightarrow> EVP_ENCODE_CTX \<Rightarrow> int list \<times> bytes \<times> EVP_ENCODE_CTX" where
  "update_all f [] ctx = ([], [], ctx)"
| "update_all f (b # bs) ctx =
     (let (rv, out, ctx) = f ctx b; (rvs, outs, ctx) = update_all f bs ctx
      in (rv # rvs, out @ outs, ctx))"

lemma decode_all_stream:
  assumes "EVP_EncodeBlock xs = u @ filter (\<lambda>c. c \<noteq> 10) (concat ds)" "dec_inv xs u ctx pre" "[] \<notin> set ds"
  shows "\<exists>rvs out ctx'. update_all EVP_DecodeUpdate ds ctx = (rvs, out, ctx') \<and> set rvs \<subseteq> {0, 1} \<and> dec_inv xs (EVP_EncodeBlock xs) ctx' (pre @ out)"
  using assms
proof (induction ds arbitrary: u ctx pre)
  case (Cons b ds)
  have S: "EVP_EncodeBlock xs = u @ filter (\<lambda>c. c \<noteq> 10) b @ filter (\<lambda>c. c \<noteq> 10) (concat ds)" using Cons.prems(1) by simp
  obtain rv out ctx1 where a: "EVP_DecodeUpdate ctx b = (rv, out, ctx1)" "rv \<in> {0, 1}" "dec_inv xs (u @ filter (\<lambda>c. c \<noteq> 10) b) ctx1 (pre @ out)"
    using EVP_DecodeUpdate_stream [OF S Cons.prems(2)] Cons.prems(3) by auto
  obtain rvs outs ctx2 where "update_all EVP_DecodeUpdate ds ctx1 = (rvs, outs, ctx2)" "set rvs \<subseteq> {0, 1}" "dec_inv xs (EVP_EncodeBlock xs) ctx2 ((pre @ out) @ outs)"
    using Cons.IH [OF _ a(3)] S Cons.prems(3) by auto
  then show ?case using a by auto
qed auto

section \<open>The encoder on a stream\<close>

text \<open>The text of some data: lines for 48 octets each.\<close>

function base64_text :: "bytes \<Rightarrow> bytes" where
  "base64_text xs = (if xs = [] then [] else EVP_EncodeBlock (take 48 xs) @ 10 # base64_text (drop 48 xs))"
  by pat_completeness auto

termination
  by (relation "measure length") auto

declare base64_text.simps [simp del]

lemma base64_text_Nil [simp]: "base64_text [] = []"
  by (simp add: base64_text.simps)

lemma base64_text_line: "xs \<noteq> [] \<Longrightarrow> length xs \<le> 48 \<Longrightarrow> base64_text xs = EVP_EncodeBlock xs @ [10]"
  by (simp add: base64_text.simps [of xs])

lemma base64_text_append: "length xs mod 48 = 0 \<Longrightarrow> base64_text (xs @ ys) = base64_text xs @ base64_text ys"
proof (induction xs rule: base64_text.induct)
  case (1 xs)
  show ?case
  proof (cases "xs = []")
    case False
    then have l: "48 \<le> length xs" "length (drop 48 xs) mod 48 = 0" using "1.prems" by (auto simp: le_mod_geq not_less [symmetric])
    then have "base64_text (drop 48 xs @ ys) = base64_text (drop 48 xs) @ base64_text ys" using "1.IH" [OF False] by simp
    then show ?thesis using base64_text.simps [of xs] base64_text.simps [of "xs @ ys"] False l(1) by simp
  qed simp
qed

lemma filter_encode: "filter (\<lambda>c. c \<noteq> 10) (EVP_EncodeBlock xs) = EVP_EncodeBlock xs"
  using encode_chars by (simp add: filter_id_conv)

lemma filter_base64_text: "filter (\<lambda>c. c \<noteq> 10) (base64_text xs) = EVP_EncodeBlock xs"
proof (induction xs rule: base64_text.induct)
  case (1 xs)
  show ?case
  proof (cases "48 \<le> length xs")
    case True
    then show ?thesis using 1 encode_append [of "take 48 xs" "drop 48 xs"] base64_text.simps [of xs] by (auto simp: filter_encode)
  next
    case False
    then show ?thesis using base64_text_line [of xs] by (cases "xs = []") (simp_all add: filter_encode)
  qed
qed

lemma encode_lines_text:
  "length out + 65 * (length inp div 48) \<le> INT_MAX \<Longrightarrow>
    encode_lines 48 out inp = (out @ base64_text (take (48 * (length inp div 48)) inp), drop (48 * (length inp div 48)) inp)"
proof (induction "length inp div 48" arbitrary: out inp)
  case 0
  then have "length inp < 48" by (simp add: div_eq_0_iff)
  then show ?case by (simp add: encode_lines.simps)
next
  case (Suc k)
  have l: "48 \<le> length inp" using Suc.hyps(2) by (metis div_less leI nat.distinct(1))
  have k: "length (drop 48 inp) div 48 = k" using Suc.hyps(2) l by (simp add: le_div_geq)
  let ?line = "EVP_EncodeBlock (take 48 inp) @ [10]"
  have t: "take (48 * Suc k) inp = take 48 inp @ take (48 * k) (drop 48 inp)" by (simp add: take_add)
  have "base64_text (take 48 inp @ ys) = ?line @ base64_text ys" for ys
    using base64_text_append [of "take 48 inp" ys] base64_text_line [of "take 48 inp"] l by (cases "inp = []") simp_all
  moreover have "encode_lines 48 (out @ ?line) (drop 48 inp) = ((out @ ?line) @ base64_text (take (48 * k) (drop 48 inp)), drop (48 * k) (drop 48 inp))"
    using Suc.hyps(1) [of "drop 48 inp" "out @ ?line"] Suc.prems Suc.hyps(2) k l by (simp add: length_encode)
  moreover have "encode_lines 48 out inp = encode_lines 48 (out @ ?line) (drop 48 inp)"
    using l Suc.prems by (simp add: encode_lines.simps [of 48 out inp])
  ultimately show ?case unfolding Suc.hyps(2) [symmetric] t by (simp add: add.commute)
qed

lemma length_base64_text: "length xs = 48 * k \<Longrightarrow> length (base64_text xs) = 65 * k"
proof (induction k arbitrary: xs)
  case (Suc k)
  then have "length (base64_text (drop 48 xs)) = 65 * k" "xs \<noteq> []" "48 \<le> length xs" by auto
  then show ?case using base64_text.simps [of xs] by (simp add: length_encode)
qed simp

text \<open>The pending octets make less than a line, and the lines before them have been written.\<close>

definition enc_inv :: "bytes \<Rightarrow> EVP_ENCODE_CTX \<Rightarrow> bytes \<Rightarrow> bool" where
  "enc_inv xs ctx out \<longleftrightarrow> ec_length ctx = 48 \<and> length (ec_enc_data ctx) = 80 \<and> ec_num ctx < 48
    \<and> (\<exists>a. xs = a @ take (ec_num ctx) (ec_enc_data ctx) \<and> length a mod 48 = 0 \<and> out = base64_text a)"

lemma put_data_length: "n + length bs \<le> length d \<Longrightarrow> length (put_data d n bs) = length d"
  by (simp add: put_data_def)

lemma put_data_take: "n \<le> length d \<Longrightarrow> m = n + length bs \<Longrightarrow> take m (put_data d n bs) = take n d @ bs"
  by (simp add: put_data_def)

lemma encode_rest:
  assumes "length d = 80" "length b mod 48 = 0" "length out \<le> 65" "length inp \<le> 1500000000" "xs = a @ b @ inp" "length a mod 48 = 0"
    "pre = base64_text a" "out = base64_text b" "ec_length ctx = 48" "encode_lines 48 out inp = (out', r)"
  shows "length out' \<le> INT_MAX \<and> enc_inv xs (ctx\<lparr>ec_enc_data := put_data d 0 r, ec_num := length r\<rparr>) (pre @ out')"
proof -
  define k where "k = length inp div 48"
  have b: "length out + 65 * k \<le> INT_MAX" unfolding k_def INT_MAX_def using assms(3,4) by linarith
  then have e: "out' = out @ base64_text (take (48 * k) inp)" "r = drop (48 * k) inp"
    using encode_lines_text [of out inp] assms(10) unfolding k_def by simp_all
  have k48: "48 * k \<le> length inp" "length inp - 48 * k < 48" unfolding k_def by linarith+
  have len: "length (take (48 * k) inp) mod 48 = 0" using k48 by simp
  have lo: "length out' \<le> INT_MAX" using length_base64_text [of "take (48 * k) inp" k] e(1) b k48 by simp
  have t: "take (length r) (put_data d 0 r) = r" "length (put_data d 0 r) = 80" "length r < 48"
    using put_data_take [of 0 d "length r" r] put_data_length [of 0 r d] assms(1) e(2) k48 by simp_all
  have "xs = (a @ b @ take (48 * k) inp) @ r" using assms(5) e(2) by simp
  moreover have "length (a @ b @ take (48 * k) inp) mod 48 = 0" using assms(2,6) len by (simp add: mod_add_eq [symmetric, of "length a"] mod_add_eq [symmetric, of "length b"])
  moreover have "pre @ out' = base64_text (a @ b @ take (48 * k) inp)" using assms(2,6-8) e(1) by (simp add: base64_text_append)
  ultimately show ?thesis using lo t assms(9) by (simp add: enc_inv_def)
qed

lemma EVP_EncodeUpdate_line:
  assumes "inp \<noteq> []" "\<not> ec_length ctx - ec_num ctx > length inp" "ec_num ctx \<noteq> 0" "d = put_data (ec_enc_data ctx) (ec_num ctx) (take (ec_length ctx - ec_num ctx) inp)"
    "encode_lines (ec_length ctx) (EVP_EncodeBlock (take (ec_length ctx) d) @ [10]) (drop (ec_length ctx - ec_num ctx) inp) = (out, r)" "length out \<le> INT_MAX"
  shows "EVP_EncodeUpdate ctx inp = (1, out, ctx\<lparr>ec_num := 0, ec_enc_data := put_data d 0 r, ec_num := length r\<rparr>)"
  unfolding EVP_EncodeUpdate_def if_not_P [OF assms(1)] if_not_P [OF assms(2)] Let_def assms(4) [symmetric] if_P [OF assms(3)]
  using assms(5,6) by simp

lemma EVP_EncodeUpdate_stream:
  assumes i: "enc_inv xs ctx pre" and ne: "inp \<noteq> []" and b: "length inp \<le> 1500000000"
  shows "\<exists>out ctx'. EVP_EncodeUpdate ctx inp = (1, out, ctx') \<and> enc_inv (xs @ inp) ctx' (pre @ out)"
proof -
  let ?n = "ec_num ctx" let ?d = "ec_enc_data ctx"
  obtain a where a: "ec_length ctx = 48" "length ?d = 80" "?n < 48" "xs = a @ take ?n ?d" "length a mod 48 = 0" "pre = base64_text a" using i by (auto simp: enc_inv_def)
  consider "48 - ?n > length inp" | "\<not> 48 - ?n > length inp" "?n = 0" | "\<not> 48 - ?n > length inp" "?n > 0" by linarith
  then show ?thesis
  proof cases
    case 1
    have "length (put_data ?d ?n inp) = 80" "take (?n + length inp) (put_data ?d ?n inp) = take ?n ?d @ inp"
      using put_data_length [of ?n inp ?d] put_data_take [of ?n ?d "?n + length inp" inp] 1 a by simp_all
    then have "enc_inv (xs @ inp) (ctx\<lparr>ec_enc_data := put_data ?d ?n inp, ec_num := ?n + length inp\<rparr>) pre"
      using 1 a unfolding enc_inv_def by auto
    then show ?thesis using 1 ne a(1) by (simp add: EVP_EncodeUpdate_def)
  next
    case 2
    obtain out' r where r: "encode_lines 48 [] inp = (out', r)" by fastforce
    then show ?thesis using encode_rest [of ?d "[]" "[]" inp "xs @ inp" a pre ctx out' r] 2 ne a b by (auto simp: EVP_EncodeUpdate_def Let_def)
  next
    case 3
    define d where "d = put_data ?d ?n (take (48 - ?n) inp)"
    define line where "line = take ?n ?d @ take (48 - ?n) inp"
    have d: "length d = 80" "take 48 d = line" "length line = 48"
      using put_data_length [of ?n "take (48 - ?n) inp" ?d] put_data_take [of ?n ?d 48 "take (48 - ?n) inp"] 3 a by (simp_all add: d_def line_def)
    then have t: "base64_text line = EVP_EncodeBlock line @ [10]" using base64_text_line [of line] by fastforce
    obtain out' r where r: "encode_lines 48 (EVP_EncodeBlock line @ [10]) (drop (48 - ?n) inp) = (out', r)" by fastforce
    have x: "xs @ inp = a @ line @ drop (48 - ?n) inp" using a(4) by (simp add: line_def)
    have "length out' \<le> INT_MAX \<and> enc_inv (xs @ inp) (ctx\<lparr>ec_num := 0, ec_enc_data := put_data d 0 r, ec_num := length r\<rparr>) (pre @ out')"
    proof (rule encode_rest [OF d(1) _ _ _ x a(5,6) t [symmetric] _ r])
      show "length (EVP_EncodeBlock line @ [10]) \<le> 65" using d(3) by (simp add: length_encode)
    qed (use d(3) b a(1) in simp_all)
    moreover have "EVP_EncodeUpdate ctx inp = (1, out', ctx\<lparr>ec_num := 0, ec_enc_data := put_data d 0 r, ec_num := length r\<rparr>)"
    proof (rule EVP_EncodeUpdate_line [OF ne])
      show "d = put_data ?d ?n (take (ec_length ctx - ?n) inp)" unfolding a(1) by (rule d_def)
      show "encode_lines (ec_length ctx) (EVP_EncodeBlock (take (ec_length ctx) d) @ [10]) (drop (ec_length ctx - ?n) inp) = (out', r)" unfolding a(1) d(2) by (rule r)
    qed (use 3 a(1) calculation in simp_all)
    ultimately show ?thesis by blast
  qed
qed

lemma encode_all_stream:
  assumes "enc_inv xs ctx pre" "[] \<notin> set cs" "\<forall>c \<in> set cs. length c \<le> 1500000000"
  shows "\<exists>rvs out ctx'. update_all EVP_EncodeUpdate cs ctx = (rvs, out, ctx') \<and> set rvs \<subseteq> {1} \<and> enc_inv (xs @ concat cs) ctx' (pre @ out)"
  using assms
proof (induction cs arbitrary: xs ctx pre)
  case (Cons b cs)
  obtain out ctx1 where a: "EVP_EncodeUpdate ctx b = (1, out, ctx1)" "enc_inv (xs @ b) ctx1 (pre @ out)"
    using EVP_EncodeUpdate_stream [OF Cons.prems(1), of b] Cons.prems(2,3) by auto
  obtain rvs outs ctx2 where "update_all EVP_EncodeUpdate cs ctx1 = (rvs, outs, ctx2)" "set rvs \<subseteq> {1}" "enc_inv ((xs @ b) @ concat cs) ctx2 ((pre @ out) @ outs)"
    using Cons.IH [OF a(2)] Cons.prems(2,3) by auto
  then show ?case using a by auto
qed auto

lemma EVP_EncodeFinal_stream:
  assumes "enc_inv xs ctx pre"
  shows "pre @ fst (EVP_EncodeFinal ctx) = base64_text xs"
proof -
  obtain a where a: "ec_num ctx < 48" "length (ec_enc_data ctx) = 80" "xs = a @ take (ec_num ctx) (ec_enc_data ctx)" "length a mod 48 = 0" "pre = base64_text a"
    using assms by (auto simp: enc_inv_def)
  have "fst (EVP_EncodeFinal ctx) = base64_text (take (ec_num ctx) (ec_enc_data ctx))"
    using base64_text_line [of "take (ec_num ctx) (ec_enc_data ctx)"] a(1,2) by (cases "ec_enc_data ctx = []") (auto simp: EVP_EncodeFinal_def)
  then show ?thesis using a by (simp add: base64_text_append)
qed

section \<open>The round trip\<close>

text \<open>C19. What \<open>EVP_EncodeUpdate\<close> and \<open>EVP_EncodeFinal\<close> write for data that is handed over in non-empty pieces of any sizes up to 1.5 * 10^9 octets, is decoded by
  \<open>EVP_DecodeUpdate\<close> to that data, however the text is cut into non-empty pieces, lines and groups of four included. No call of the encoder fails, no call of the decoder reports an
  error, and nothing is pending at \<open>EVP_DecodeFinal\<close>.
\<close>

theorem base64_stream_roundtrip:
  assumes "length (ec_enc_data ctx) = 80" "length (ec_enc_data dctx) = 80"
    and "[] \<notin> set cs" "\<forall>c \<in> set cs. length c \<le> 1500000000"
    and "update_all EVP_EncodeUpdate cs (EVP_EncodeInit ctx) = (rvs, out, ctx1)"
    and "concat ds = out @ fst (EVP_EncodeFinal ctx1)" "[] \<notin> set ds"
    and "update_all EVP_DecodeUpdate ds (EVP_DecodeInit dctx) = (drvs, data, dctx1)"
  shows "set rvs \<subseteq> {1} \<and> set drvs \<subseteq> {0, 1} \<and> data = concat cs \<and> EVP_DecodeFinal dctx1 = (1, [], dctx1)"
proof -
  have "enc_inv [] (EVP_EncodeInit ctx) []" using assms(1) by (simp add: enc_inv_def EVP_EncodeInit_def)
  then have e: "set rvs \<subseteq> {1}" "enc_inv (concat cs) ctx1 out" using encode_all_stream [OF _ assms(3,4)] assms(5) by force+
  then have "filter (\<lambda>c. c \<noteq> 10) (concat ds) = EVP_EncodeBlock (concat cs)" using EVP_EncodeFinal_stream assms(6) filter_base64_text by simp
  moreover have "dec_inv (concat cs) [] (EVP_DecodeInit dctx) []" using assms(2) by (simp add: dec_inv_def decoded_def EVP_DecodeInit_def)
  ultimately have d: "set drvs \<subseteq> {0, 1}" "dec_inv (concat cs) (EVP_EncodeBlock (concat cs)) dctx1 data"
    using decode_all_stream [of "concat cs" "[]" ds "EVP_DecodeInit dctx" "[]"] assms(7,8) by force+
  show ?thesis using e(1) d(1) dec_inv_all [OF d(2)] by (simp add: EVP_DecodeFinal_def)
qed

theorem base64_stream_roundtrip_witness:
  "let c = \<lparr>ec_num = 0, ec_length = 0, ec_enc_data = replicate 80 0, ec_line_num = 0, ec_expect_nl = 0\<rparr>;
       (rvs, out, ctx1) = update_all EVP_EncodeUpdate [[104], [105, 33, 33]] (EVP_EncodeInit c)
   in out = [] \<and> fst (EVP_EncodeFinal ctx1) = [97, 71, 107, 104, 73, 81, 61, 61, 10]
     \<and> fst (update_all EVP_DecodeUpdate [[97, 71, 107], [104, 73, 81, 61], [61, 10]] (EVP_DecodeInit c)) = [1, 1, 0]
     \<and> fst (snd (update_all EVP_DecodeUpdate [[97, 71, 107], [104, 73, 81, 61], [61, 10]] (EVP_DecodeInit c))) = [104, 105, 33, 33]"
proof -
  let ?c = "\<lparr>ec_num = 0, ec_length = 0, ec_enc_data = replicate 80 0, ec_line_num = 0, ec_expect_nl = 0\<rparr>"
  let ?cs = "[[104], [105, 33, 33]]" let ?ds = "[[97, 71, 107], [104, 73, 81, 61], [61, 10]]"
  obtain rvs out ctx1 where e: "update_all EVP_EncodeUpdate ?cs (EVP_EncodeInit ?c) = (rvs, out, ctx1)" by (metis prod.exhaust)
  have o: "fst (snd (update_all EVP_EncodeUpdate ?cs (EVP_EncodeInit ?c))) = []"
    "fst (EVP_EncodeFinal (snd (snd (update_all EVP_EncodeUpdate ?cs (EVP_EncodeInit ?c))))) = [97, 71, 107, 104, 73, 81, 61, 61, 10]"
    "fst (update_all EVP_DecodeUpdate ?ds (EVP_DecodeInit ?c)) = [1, 1, 0]" by code_simp+
  obtain drvs data dctx1 where d: "update_all EVP_DecodeUpdate ?ds (EVP_DecodeInit ?c) = (drvs, data, dctx1)" by (metis prod.exhaust)
  have "data = [104, 105, 33, 33]"
    using base64_stream_roundtrip [of ?c ?c ?cs rvs out ctx1 ?ds drvs data dctx1] e o d by simp
  then show ?thesis using e o d by (simp add: Let_def)
qed

end
